(* ===== verification/Prelude.thy ===== *)
theory Prelude
imports
  Complex_Main
  "HOL-Library.AList"
  "HOL-Library.List_Lexorder"
  "HOL-Library.Char_ord"
  "HOL-Library.Multiset"
begin

text \<open>
  Shared vocabulary of the development: Go strings as byte lists with the functions of
  package strings and strconv the program calls, the dynamic values a
  map[string]interface{} holds, Go maps as association lists (the list order is one
  iteration order the runtime may choose), the error values, and the generic lemmas on lists,
  association lists, folds and finite acyclic relations that the components share.
\<close>

named_theorems go_string \<open>evaluation of the string functions\<close>
named_theorems frame \<open>fields an operation leaves alone\<close>

section \<open>Strings\<close>

text \<open>
  A Go string is its bytes. The unicode cases of TrimSpace, ToLower and EqualFold agree with
  the functions below on ASCII text, to which the model is restricted.
\<close>

definition char_code :: "char \<Rightarrow> nat" where
  "char_code c = of_char c"

definition is_space :: "char \<Rightarrow> bool" where
  "is_space c \<longleftrightarrow> char_code c \<in> {9, 10, 11, 12, 13, 32}"

definition trim_space :: "string \<Rightarrow> string" where
  "trim_space s = rev (dropWhile is_space (rev (dropWhile is_space s)))"

definition lower_char :: "char \<Rightarrow> char" where
  "lower_char c = (if 65 \<le> char_code c \<and> char_code c \<le> 90 then char_of (char_code c + 32) else c)"

definition to_lower :: "string \<Rightarrow> string" where
  "to_lower s = map lower_char s"

definition equal_fold :: "string \<Rightarrow> string \<Rightarrow> bool" where
  "equal_fold s t \<longleftrightarrow> to_lower s = to_lower t"

definition has_prefix :: "string \<Rightarrow> string \<Rightarrow> bool" where
  "has_prefix s p \<longleftrightarrow> take (length p) s = p"

definition trim_prefix :: "string \<Rightarrow> string \<Rightarrow> string" where
  "trim_prefix s p = (if has_prefix s p then drop (length p) s else s)"

fun str_contains :: "string \<Rightarrow> string \<Rightarrow> bool" where
  "str_contains [] sub \<longleftrightarrow> sub = []"
| "str_contains (c # s) sub \<longleftrightarrow> has_prefix (c # s) sub \<or> str_contains s sub"

fun str_join :: "string \<Rightarrow> string list \<Rightarrow> string" where
  "str_join sep [] = []"
| "str_join sep [s] = s"
| "str_join sep (s # t # ss) = s @ sep @ str_join sep (t # ss)"

text \<open>fmt's decimal verb and strconv.ParseInt(s, 10, 64).\<close>

definition digit_char :: "nat \<Rightarrow> char" where
  "digit_char d = char_of (48 + d)"

fun show_nat :: "nat \<Rightarrow> string" where
  "show_nat n = (if n < 10 then [digit_char n] else show_nat (n div 10) @ [digit_char (n mod 10)])"

declare show_nat.simps [simp del]

definition is_digit :: "char \<Rightarrow> bool" where
  "is_digit c \<longleftrightarrow> 48 \<le> char_code c \<and> char_code c \<le> 57"

definition digits_value :: "string \<Rightarrow> nat" where
  "digits_value s = foldl (\<lambda>n c. n * 10 + (char_code c - 48)) 0 s"

definition parse_digits :: "string \<Rightarrow> nat option" where
  "parse_digits s = (if s \<noteq> [] \<and> list_all is_digit s then Some (digits_value s) else None)"

definition in_int64 :: "int \<Rightarrow> bool" where
  "in_int64 n \<longleftrightarrow> - (2 ^ 63) \<le> n \<and> n < 2 ^ 63"

definition parse_int :: "string \<Rightarrow> int option" where
  "parse_int s =
     (let v = (if has_prefix s ''-'' then map_option (\<lambda>n. - int n) (parse_digits (drop 1 s))
               else if has_prefix s ''+'' then map_option int (parse_digits (drop 1 s))
               else map_option int (parse_digits s))
      in case v of None \<Rightarrow> None | Some n \<Rightarrow> if in_int64 n then Some n else None)"

definition show_int :: "int \<Rightarrow> string" where
  "show_int n = (if n < 0 then ''-'' @ show_nat (nat (- n)) else show_nat (nat n))"

text \<open>Integer division, and strings.Split at a character.\<close>

definition go_quot :: "int \<Rightarrow> int \<Rightarrow> int" where
  "go_quot a b = sgn a * sgn b * (\<bar>a\<bar> div \<bar>b\<bar>)"

fun split_at :: "char \<Rightarrow> string \<Rightarrow> string \<Rightarrow> string list" where
  "split_at c acc [] = [rev acc]"
| "split_at c acc (x # xs) = (if x = c then rev acc # split_at c [] xs else split_at c (x # acc) xs)"

lemma to_lower_idem [simp]: "to_lower (to_lower s) = to_lower s"
proof -
  have "lower_char (lower_char c) = lower_char c" for c
    by (auto simp: lower_char_def char_code_def)
  then show ?thesis by (simp add: to_lower_def)
qed

lemma length_to_lower [simp]: "length (to_lower s) = length s"
  by (simp add: to_lower_def)

lemma equal_fold_refl [simp]: "equal_fold s s"
  by (simp add: equal_fold_def)

lemma dropWhile_idem: "dropWhile P (dropWhile P xs) = dropWhile P xs"
  by (induction xs) auto

lemma trim_space_Nil [simp]: "trim_space [] = []"
  by (simp add: trim_space_def)

lemma trim_space_edges:
  assumes "trim_space s = c # t"
  shows "\<not> is_space c" and "\<not> is_space (last (c # t))"
proof -
  let ?l = "dropWhile is_space s"
  have ends: "rev (c # t) = dropWhile is_space (rev ?l)"
    using assms unfolding trim_space_def by (metis rev_rev_ident)
  then show "\<not> is_space (last (c # t))"
    using hd_dropWhile [of is_space "rev ?l"] by (metis Nil_is_rev_conv hd_rev list.distinct(1))
  have eq: "?l = (c # t) @ rev (takeWhile is_space (rev ?l))"
    by (metis ends rev_append rev_rev_ident takeWhile_dropWhile_id)
  then have "hd ?l = c" and "?l \<noteq> []" by (metis append_Cons list.sel(1), metis append_is_Nil_conv list.distinct(1))
  then show "\<not> is_space c" using hd_dropWhile [of is_space s] by metis
qed

lemma trim_space_idem [simp]: "trim_space (trim_space s) = trim_space s"
proof (cases "trim_space s")
  case (Cons c t)
  have "dropWhile is_space (c # t) = c # t"
    using trim_space_edges(1) [OF Cons] by simp
  moreover have "dropWhile is_space (rev (c # t)) = rev (c # t)"
  proof -
    have "rev (c # t) = last (c # t) # rev (butlast (c # t))"
      by (metis append_butlast_last_id list.distinct(1) rev_eq_Cons_iff rev_rev_ident)
    then show ?thesis using trim_space_edges(2) [OF Cons] by (metis dropWhile.simps(2))
  qed
  ultimately show ?thesis using Cons by (metis rev_rev_ident trim_space_def)
qed simp

text \<open>Decimal numerals determine the number, and hold no character but digits.\<close>

lemma code_digit_char: "d < 10 \<Longrightarrow> char_code (digit_char d) = 48 + d"
  by (simp add: char_code_def digit_char_def of_char_of)

lemma is_digit_digit_char: "d < 10 \<Longrightarrow> is_digit (digit_char d)"
  by (simp add: is_digit_def code_digit_char)

lemma show_nat_digits: "list_all is_digit (show_nat n) \<and> show_nat n \<noteq> []"
proof (induction n rule: show_nat.induct)
  case (1 n)
  then show ?case
    by (subst (1 2) show_nat.simps) (simp add: is_digit_digit_char)
qed

lemma digits_value_snoc: "digits_value (s @ [c]) = digits_value s * 10 + (char_code c - 48)"
  by (simp add: digits_value_def)

lemma digits_value_show: "digits_value (show_nat n) = n"
proof (induction n rule: show_nat.induct)
  case (1 n)
  show ?case
  proof (cases "n < 10")
    case True
    then show ?thesis by (simp add: show_nat.simps [of n] digits_value_def code_digit_char)
  next
    case False
    then have "digits_value (show_nat n) = n div 10 * 10 + n mod 10"
      using 1 by (simp add: show_nat.simps [of n] digits_value_snoc code_digit_char)
    then show ?thesis by simp
  qed
qed

lemma show_nat_inject [simp]: "show_nat m = show_nat n \<longleftrightarrow> m = n"
  by (metis digits_value_show)

lemma parse_digits_show: "parse_digits (show_nat n) = Some n"
  using show_nat_digits [of n] by (simp add: parse_digits_def digits_value_show)

lemma parse_int_show: "int n < 2 ^ 63 \<Longrightarrow> parse_int (show_nat n) = Some (int n)"
proof -
  assume b: "int n < 2 ^ 63"
  obtain c s where cs: "show_nat n = c # s" and d: "is_digit c"
    using show_nat_digits [of n] by (cases "show_nat n") auto
  then have "c \<noteq> CHR ''-''" and "c \<noteq> CHR ''+''" by (auto simp: is_digit_def char_code_def)
  then show ?thesis
    using b parse_digits_show [of n] by (simp add: parse_int_def has_prefix_def cs in_int64_def)
qed

section \<open>Dynamic values\<close>

text \<open>
  What an interface{} of the program holds: the JSON values (numbers decode to float64), the
  Go integers the handlers store (int and int64 are read alike), and the typed slices and maps
  the type switches name. A float64 is idealised to a real number: comparisons are exact, and
  rounding, NaN and infinities are not modelled.
\<close>

datatype gval =
    GNil
  | GBool bool
  | GFloat real
  | GInt int
  | GStr string
  | GList "gval list"
  | GStrs "string list"
  | GFloats "real list"
  | GObj "(string \<times> gval) list"
  | GFloatMap "(string \<times> real) list"
  | GIntMap "(string \<times> int) list"

text \<open>A map[string]interface{}; None is the nil map, whose lookups all miss.\<close>

type_synonym gobj = "(string \<times> gval) list option"

definition obj_get :: "gobj \<Rightarrow> string \<Rightarrow> gval option" where
  "obj_get m k = (case m of None \<Rightarrow> None | Some kv \<Rightarrow> map_of kv k)"

definition obj_put :: "string \<Rightarrow> gval \<Rightarrow> gobj \<Rightarrow> gobj" where
  "obj_put k v m = Some (AList.update k v (case m of None \<Rightarrow> [] | Some kv \<Rightarrow> kv))"

lemma obj_get_None [simp]: "obj_get None k = None"
  by (simp add: obj_get_def)

lemma obj_get_put [simp]: "obj_get (obj_put k v m) k' = (if k' = k then Some v else obj_get m k')"
  by (simp add: obj_get_def obj_put_def update_conv' split: option.splits)

text \<open>
  reflect.DeepEqual on dynamic values: maps are compared key by key, slices in order, and
  values of different dynamic type differ.
\<close>

fun deep_equal :: "gval \<Rightarrow> gval \<Rightarrow> bool"
  and deep_equal_list :: "gval list \<Rightarrow> gval list \<Rightarrow> bool"
  and deep_equal_map :: "(string \<times> gval) list \<Rightarrow> (string \<times> gval) list \<Rightarrow> bool" where
  "deep_equal (GList xs) v = (case v of GList ys \<Rightarrow> deep_equal_list xs ys | _ \<Rightarrow> False)"
| "deep_equal (GObj xs) v =
     (case v of GObj ys \<Rightarrow> length xs = length ys \<and> deep_equal_map xs ys | _ \<Rightarrow> False)"
| "deep_equal (GFloatMap xs) v =
     (case v of GFloatMap ys \<Rightarrow> length xs = length ys \<and> list_all (\<lambda>(k, x). map_of ys k = Some x) xs
      | _ \<Rightarrow> False)"
| "deep_equal (GIntMap xs) v =
     (case v of GIntMap ys \<Rightarrow> length xs = length ys \<and> list_all (\<lambda>(k, x). map_of ys k = Some x) xs
      | _ \<Rightarrow> False)"
| "deep_equal x y = (x = y)"
| "deep_equal_list [] ys = (ys = [])"
| "deep_equal_list (x # xs) ys =
     (case ys of [] \<Rightarrow> False | y # ys' \<Rightarrow> deep_equal x y \<and> deep_equal_list xs ys')"
| "deep_equal_map [] ys = True"
| "deep_equal_map ((k, x) # xs) ys =
     (case map_of ys k of None \<Rightarrow> False | Some y \<Rightarrow> deep_equal x y \<and> deep_equal_map xs ys)"

definition deep_equal_obj :: "gobj \<Rightarrow> gobj \<Rightarrow> bool" where
  "deep_equal_obj a b =
     (case (a, b) of (None, None) \<Rightarrow> True
      | (Some x, Some y) \<Rightarrow> deep_equal (GObj x) (GObj y)
      | _ \<Rightarrow> False)"

section \<open>Lists and association lists\<close>

lemma distinct_update: "distinct (map fst al) \<Longrightarrow> distinct (map fst (AList.update k v al))"
  by (rule AList.distinct_update)

lemma map_of_update [simp]: "map_of (AList.update k v al) k' = (if k' = k then Some v else map_of al k')"
  by (simp add: update_conv')

lemma keys_update: "fst ` set (AList.update k v al) = insert k (fst ` set al)"
  by (induction al) auto

lemma update_keys_same:
  "map_of al k \<noteq> None \<Longrightarrow> map fst (AList.update k v al) = map fst al"
  by (induction al) auto

lemma map_of_eq_in_set: "distinct (map fst al) \<Longrightarrow> map_of al k = Some v \<longleftrightarrow> (k, v) \<in> set al"
  by (rule map_of_eq_Some_iff)

lemma map_of_delete [simp]: "map_of (AList.delete k al) k' = (if k' = k then None else map_of al k')"
  by (simp add: delete_conv')

lemma map_of_ne_None: "map_of al k \<noteq> None \<longleftrightarrow> k \<in> fst ` set al"
  by (metis map_of_eq_None_iff)

lemma map_of_keys_cong: "map fst al = map fst bl \<Longrightarrow> (map_of al k = None) = (map_of bl k = None)"
  by (metis map_of_eq_None_iff set_map)

text \<open>A loop whose body keeps an invariant keeps it to the end.\<close>

lemma fold_invariant_rule:
  assumes "P s" and "\<And>x s. x \<in> set xs \<Longrightarrow> P s \<Longrightarrow> P (f x s)"
  shows "P (fold f xs s)"
  using assms by (induction xs arbitrary: s) auto

lemma foldl_invariant_rule:
  assumes "P s" and "\<And>x s. x \<in> set xs \<Longrightarrow> P s \<Longrightarrow> P (f s x)"
  shows "P (foldl f s xs)"
  using assms by (induction xs arbitrary: s) auto

section \<open>Finite acyclic relations\<close>

text \<open>
  In a finite acyclic relation the number of nodes below a node falls along every edge: the
  measure of every termination argument over the dependency graph.
\<close>

definition height :: "('a \<times> 'a) set \<Rightarrow> 'a \<Rightarrow> nat" where
  "height r x = card {y. (x, y) \<in> r\<^sup>+}"

lemma finite_trancl_Image: "finite r \<Longrightarrow> finite {y. (x, y) \<in> r\<^sup>+}"
  by (rule finite_subset [of _ "Range (r\<^sup>+)"]) (auto intro: finite_Range simp del: trancl_range)

lemma height_less:
  assumes "finite r" and "acyclic r" and "(x, y) \<in> r"
  shows "height r y < height r x"
  unfolding height_def
proof (rule psubset_card_mono [OF finite_trancl_Image [OF assms(1)]])
  have "y \<notin> {z. (y, z) \<in> r\<^sup>+}" using assms(2) by (simp add: acyclic_def)
  then show "{z. (y, z) \<in> r\<^sup>+} \<subset> {z. (x, z) \<in> r\<^sup>+}"
    using assms(3) by (auto intro: trancl_into_trancl2)
qed

lemma acyclic_add_sink:
  assumes "acyclic r" and "\<And>y. (n, y) \<notin> r" and "n \<notin> P"
  shows "acyclic (r \<union> P \<times> {n})"
proof -
  let ?s = "r \<union> P \<times> {n}"
  have out: "(n, y) \<notin> ?s\<^sup>+" for y
  proof
    assume "(n, y) \<in> ?s\<^sup>+"
    then obtain z where "(n, z) \<in> ?s" by (meson tranclD)
    then show False using assms(2,3) by auto
  qed
  have "(x, y) \<in> ?s\<^sup>+ \<Longrightarrow> y = n \<or> (x, y) \<in> r\<^sup>+" for x y
  proof (induction rule: trancl_induct)
    case (base y)
    then show ?case by auto
  next
    case (step y z)
    have "y \<noteq> n" using step.hyps(2) out by auto
    then show ?case using step.IH step.hyps(2) by (auto intro: trancl_into_trancl)
  qed
  then show ?thesis using assms(1) out by (auto simp: acyclic_def) 
qed

end
