(* ===== verification/Facts.thy ===== *)
theory Facts
imports Prelude
begin

text \<open>
  The data of package core: statuses, facts and justification sets (fact.go), the readers of
  a fact's metadata (metadata_helpers.go, governance.go, verification.go) and the deep copies
  of engine.go. Pointers that may be nil are options; a map[string]interface{} is a gobj.
\<close>

section \<open>Constants\<close>

type_synonym status = real

definition Invalid :: status where "Invalid = 0"
definition Valid :: status where "Valid = 1"
definition ConfidenceThreshold :: status where "ConfidenceThreshold = 3 / 5"

definition MaxFactsPerSession :: int where "MaxFactsPerSession = 80000"

abbreviation AssertionKindEmpirical :: string where "AssertionKindEmpirical \<equiv> ''empirical''"
abbreviation AssertionKindUncertain :: string where "AssertionKindUncertain \<equiv> ''uncertain''"
abbreviation AssertionKindHypothetical :: string where "AssertionKindHypothetical \<equiv> ''hypothetical''"
abbreviation AssertionKindFictional :: string where "AssertionKindFictional \<equiv> ''fictional''"

lemmas status_defs = Invalid_def Valid_def ConfidenceThreshold_def

section \<open>Facts and justification sets\<close>

record fact =
  fact_id :: string
  payload :: gobj
  metadata :: gobj
  embedding :: "real list"
  is_root :: bool
  manual_status :: status
  entrenchment :: real
  review_status :: string
  review_reason :: string
  reviewed_at :: int
  valid_until :: int
  asserted_at :: int
  assertion_kind :: string
  derived_status :: status
  resolved_status :: status
  valid_justification_count :: nat
  justification_sets :: "string list list option"
  validation_errors :: "string list"
  idom :: string
  pre_order :: int
  post_order :: int

record jset =
  js_id :: string
  js_child :: string
  js_parents :: "string list"
  js_positive :: "string list"
  js_negative :: "string list"
  js_target :: nat
  js_current :: nat
  js_confidence :: status
  js_idom :: string

text \<open>The sets of a fact, whether the slice is nil or not.\<close>

definition sets_of :: "fact \<Rightarrow> string list list" where
  "sets_of f = (case justification_sets f of None \<Rightarrow> [] | Some ss \<Rightarrow> ss)"

lemma sets_of_update [simp]:
  "sets_of (f\<lparr>metadata := m\<rparr>) = sets_of f"
  "sets_of (f\<lparr>derived_status := s\<rparr>) = sets_of f"
  "sets_of (f\<lparr>manual_status := s\<rparr>) = sets_of f"
  "sets_of (f\<lparr>asserted_at := t\<rparr>) = sets_of f"
  "sets_of (f\<lparr>valid_justification_count := n\<rparr>) = sets_of f"
  "sets_of (f\<lparr>review_status := rs\<rparr>) = sets_of f"
  "sets_of (f\<lparr>review_reason := rr\<rparr>) = sets_of f"
  "sets_of (f\<lparr>reviewed_at := t\<rparr>) = sets_of f"
  "sets_of (f\<lparr>idom := i\<rparr>) = sets_of f"
  "sets_of (f\<lparr>pre_order := p\<rparr>) = sets_of f"
  "sets_of (f\<lparr>post_order := p\<rparr>) = sets_of f"
  by (simp_all add: sets_of_def)

section \<open>Reading metadata\<close>

text \<open>float64 to int64 conversion truncates towards zero.\<close>

definition int64_of_float :: "real \<Rightarrow> int" where
  "int64_of_float x = (if x < 0 then - \<lfloor>- x\<rfloor> else \<lfloor>x\<rfloor>)"

definition map_string_slice :: "gobj \<Rightarrow> string \<Rightarrow> string list" where
  "map_string_slice m key =
     (case obj_get m key of
        Some (GStrs ss) \<Rightarrow> ss
      | Some (GList vs) \<Rightarrow>
          filter (\<lambda>s. s \<noteq> []) (concat (map (\<lambda>v. case v of GStr s \<Rightarrow> [trim_space s] | _ \<Rightarrow> []) vs))
      | _ \<Rightarrow> [])"

definition metadata_bool :: "gobj \<Rightarrow> string \<Rightarrow> bool" where
  "metadata_bool m key =
     (case obj_get m key of
        Some (GBool b) \<Rightarrow> b
      | Some (GStr s) \<Rightarrow> to_lower (trim_space s) \<in> {''1'', ''true'', ''yes'', ''required''}
      | _ \<Rightarrow> False)"

definition metadata_string :: "gobj \<Rightarrow> string \<Rightarrow> string" where
  "metadata_string m key =
     (case obj_get m key of Some (GStr s) \<Rightarrow> trim_space s | _ \<Rightarrow> [])"

definition int64_from_metadata :: "gobj \<Rightarrow> string \<Rightarrow> int" where
  "int64_from_metadata m key =
     (case obj_get m key of
        Some (GFloat x) \<Rightarrow> int64_of_float x
      | Some (GInt n) \<Rightarrow> n
      | Some (GStr s) \<Rightarrow> (case parse_int (trim_space s) of None \<Rightarrow> 0 | Some n \<Rightarrow> n)
      | _ \<Rightarrow> 0)"

lemma map_string_slice_put [simp]:
  "k' \<noteq> k \<Longrightarrow> map_string_slice (obj_put k v m) k' = map_string_slice m k'"
  by (simp add: map_string_slice_def)

lemma metadata_bool_put [simp]: "k' \<noteq> k \<Longrightarrow> metadata_bool (obj_put k v m) k' = metadata_bool m k'"
  by (simp add: metadata_bool_def)

lemma int64_from_metadata_put [simp]:
  "k' \<noteq> k \<Longrightarrow> int64_from_metadata (obj_put k v m) k' = int64_from_metadata m k'"
  by (simp add: int64_from_metadata_def)

section \<open>Verification and review statuses\<close>

abbreviation VerificationUnverified :: string where "VerificationUnverified \<equiv> ''unverified''"
abbreviation VerificationVerified :: string where "VerificationVerified \<equiv> ''verified''"
abbreviation VerificationRejected :: string where "VerificationRejected \<equiv> ''rejected''"

definition normalize_verification_status :: "string \<Rightarrow> string" where
  "normalize_verification_status st =
     (let s = to_lower (trim_space st)
      in if s = VerificationUnverified then VerificationUnverified
         else if s = VerificationVerified then VerificationVerified
         else if s = VerificationRejected then VerificationRejected
         else [])"

abbreviation ReviewPending :: string where "ReviewPending \<equiv> ''pending''"
abbreviation ReviewApproved :: string where "ReviewApproved \<equiv> ''approved''"
abbreviation ReviewWaived :: string where "ReviewWaived \<equiv> ''waived''"
abbreviation ReviewRejected :: string where "ReviewRejected \<equiv> ''rejected''"

definition normalize_review_status :: "string \<Rightarrow> string" where
  "normalize_review_status st =
     (let s = to_lower (trim_space st)
      in if s = ReviewApproved then ReviewApproved
         else if s = ReviewWaived then ReviewWaived
         else if s = ReviewRejected then ReviewRejected
         else if s = ReviewPending then ReviewPending
         else [])"

definition fact_verification_status :: "fact option \<Rightarrow> string" where
  "fact_verification_status fo =
     (case fo of None \<Rightarrow> []
      | Some f \<Rightarrow> (case obj_get (metadata f) ''verification_status'' of
                    Some (GStr v) \<Rightarrow> normalize_verification_status v | _ \<Rightarrow> []))"

text \<open>The explicit provenance wins when it names a source type.\<close>

definition fact_source_type :: "fact option \<Rightarrow> string" where
  "fact_source_type fo =
     (case fo of None \<Rightarrow> []
      | Some f \<Rightarrow>
         (case (case obj_get (metadata f) ''_provenance'' of
                  Some (GObj prov) \<Rightarrow>
                    (case map_of prov ''source_type'' of Some (GStr v) \<Rightarrow> Some v | _ \<Rightarrow> None)
                | _ \<Rightarrow> None) of
            Some v \<Rightarrow> trim_space v
          | None \<Rightarrow>
              (case obj_get (metadata f) ''source_type'' of Some (GStr v) \<Rightarrow> trim_space v | _ \<Rightarrow> [])))"

definition fact_claim_key :: "fact option \<Rightarrow> string" where
  "fact_claim_key fo =
     (case fo of None \<Rightarrow> []
      | Some f \<Rightarrow>
         (case obj_get (payload f) ''claim_key'' of
            Some (GStr v) \<Rightarrow> trim_space v
          | _ \<Rightarrow> (case obj_get (metadata f) ''claim_key'' of Some (GStr v) \<Rightarrow> trim_space v | _ \<Rightarrow> [])))"

lemma normalize_verification_cases:
  "normalize_verification_status s \<in> {[], VerificationUnverified, VerificationVerified, VerificationRejected}"
  by (simp add: normalize_verification_status_def Let_def)

lemma normalize_review_cases:
  "normalize_review_status s \<in> {[], ReviewPending, ReviewApproved, ReviewWaived, ReviewRejected}"
  by (simp add: normalize_review_status_def Let_def)

lemma verification_norm_fixed:
  "normalize_verification_status [] = []"
  "normalize_verification_status VerificationUnverified = VerificationUnverified"
  "normalize_verification_status VerificationVerified = VerificationVerified"
  "normalize_verification_status VerificationRejected = VerificationRejected"
  by code_simp+

lemma review_norm_fixed:
  "normalize_review_status [] = []"
  "normalize_review_status ReviewPending = ReviewPending"
  "normalize_review_status ReviewApproved = ReviewApproved"
  "normalize_review_status ReviewWaived = ReviewWaived"
  "normalize_review_status ReviewRejected = ReviewRejected"
  by code_simp+

lemma normalize_verification_idem [simp]:
  "normalize_verification_status (normalize_verification_status s) = normalize_verification_status s"
  using normalize_verification_cases [of s] by (elim insertE emptyE) (simp_all add: verification_norm_fixed)

lemma normalize_review_idem [simp]:
  "normalize_review_status (normalize_review_status s) = normalize_review_status s"
  using normalize_review_cases [of s] by (elim insertE emptyE) (simp_all add: review_norm_fixed)

section \<open>Entrenchment and review of a fact\<close>

definition clamp_unit_float :: "real \<Rightarrow> real" where
  "clamp_unit_float v = (if v < 0 then 0 else if v > 1 then 1 else v)"

lemma clamp_unit_range: "0 \<le> clamp_unit_float v" "clamp_unit_float v \<le> 1"
  by (simp_all add: clamp_unit_float_def)

definition effective_entrenchment :: "fact option \<Rightarrow> real" where
  "effective_entrenchment fo =
     (case fo of None \<Rightarrow> 0
      | Some f \<Rightarrow>
         if entrenchment f > 0 then clamp_unit_float (entrenchment f)
         else (let raw = metadata_string (metadata f) ''entrenchment''
               in if raw = ''high'' then 95 / 100 else if raw = ''medium'' then 75 / 100 else 0))"

lemma effective_entrenchment_range:
  "0 \<le> effective_entrenchment fo" "effective_entrenchment fo \<le> 1"
  by (auto simp: effective_entrenchment_def Let_def clamp_unit_range split: option.splits)

definition requires_human_review :: "fact option \<Rightarrow> bool" where
  "requires_human_review fo =
     (case fo of None \<Rightarrow> False
      | Some f \<Rightarrow>
         (let st = normalize_review_status (review_status f)
          in if metadata_bool (metadata f) ''requires_human_review''
             then st \<noteq> ReviewApproved \<and> st \<noteq> ReviewWaived
             else st = ReviewPending))"

section \<open>Deep copies\<close>

fun clone_value :: "gval \<Rightarrow> gval"
  and clone_values :: "gval list \<Rightarrow> gval list"
  and clone_entries :: "(string \<times> gval) list \<Rightarrow> (string \<times> gval) list" where
  "clone_value (GObj kv) = GObj (clone_entries kv)"
| "clone_value (GList vs) = GList (clone_values vs)"
| "clone_value (GStrs ss) = GStrs (map id ss)"
| "clone_value (GFloats xs) = GFloats (map id xs)"
| "clone_value v = v"
| "clone_values [] = []"
| "clone_values (v # vs) = clone_value v # clone_values vs"
| "clone_entries [] = []"
| "clone_entries ((k, v) # kvs) = (k, clone_value v) # clone_entries kvs"

definition clone_obj :: "gobj \<Rightarrow> gobj" where
  "clone_obj m = map_option clone_entries m"

definition clone_fact :: "fact \<Rightarrow> fact" where
  "clone_fact f =
     f\<lparr>payload := clone_obj (payload f),
       metadata := clone_obj (metadata f),
       embedding := map id (embedding f),
       justification_sets := map_option (map (map id)) (justification_sets f),
       validation_errors := map id (validation_errors f)\<rparr>"

lemma clone_value_id: "clone_value v = v" "clone_values vs = vs" "clone_entries kvs = kvs"
  by (induction v and vs and kvs rule: clone_value_clone_values_clone_entries.induct) auto

lemma clone_obj_id [simp]: "clone_obj m = m"
  by (cases m) (simp_all add: clone_obj_def clone_value_id)

lemma clone_fact_id [simp]: "clone_fact f = f"
  by (simp add: clone_fact_def option.map_id)

end
