(* ===== verification/Dependencies.thy ===== *)
theory Dependencies
imports Facts
begin

text \<open>
  core/dependencies.go: the tokens of a justification set, their polarity, and when a parent
  satisfies a child's dependency (assertion scope, grounding policy, confidence).
\<close>

section \<open>Errors of package core\<close>

datatype core_error =
    NilArgument string
  | EmptyToken
  | MissingFactID string
  | SessionCapExceeded
  | AlreadyExistsDifferent
  | NoJustificationSet
  | EmptyJustificationSet
  | UnknownParent string
  | CycleError "string list"
  | FactNotFound
  | CannotInvalidateNonRoot
  | OnlyRootConfidence
  | InvalidVerificationStatus
  | InvalidReviewStatus
  | ChecksumMismatch
  | DecodeFailed
  | SnapshotTooLarge nat

section \<open>Dependency tokens\<close>

record dependency_ref =
  ref_fact_id :: string
  ref_negated :: bool
  ref_original :: string

definition parse_dependency_ref :: "string \<Rightarrow> core_error + dependency_ref" where
  "parse_dependency_ref raw =
     (let token = trim_space raw
      in if token = [] then Inl EmptyToken
         else (let neg = has_prefix token ''!'';
                   fid = (if neg then trim_space (trim_prefix token ''!'') else token)
               in if fid = [] then Inl (MissingFactID raw)
                  else Inr \<lparr>ref_fact_id = fid, ref_negated = neg, ref_original = token\<rparr>))"

definition normalize_dependency_token :: "string \<Rightarrow> core_error + string" where
  "normalize_dependency_token raw =
     (case parse_dependency_ref raw of Inl e \<Rightarrow> Inl e | Inr r \<Rightarrow> Inr (ref_fact_id r))"

text \<open>
  The loop of splitDependencySet: the keys seen so far, and the three result slices. The key of
  a negated token carries the prefix, so a fact may occur once in each polarity.
\<close>

fun split_tokens ::
  "string list \<Rightarrow> string list \<Rightarrow> string list \<Rightarrow> string list \<Rightarrow> string list
     \<Rightarrow> core_error + string list \<times> string list \<times> string list" where
  "split_tokens [] seen pos neg all = Inr (pos, neg, all)"
| "split_tokens (raw # rest) seen pos neg all =
     (case parse_dependency_ref raw of
        Inl e \<Rightarrow> Inl e
      | Inr r \<Rightarrow>
         (let key = (if ref_negated r then ''!'' @ ref_fact_id r else ref_fact_id r)
          in if key \<in> set seen then split_tokens rest seen pos neg all
             else if ref_negated r
             then split_tokens rest (key # seen) pos (neg @ [ref_fact_id r]) (all @ [ref_fact_id r])
             else split_tokens rest (key # seen) (pos @ [ref_fact_id r]) neg (all @ [ref_fact_id r])))"

definition split_dependency_set ::
  "string list \<Rightarrow> core_error + string list \<times> string list \<times> string list" where
  "split_dependency_set tokens = split_tokens tokens [] [] [] []"

lemma split_tokens_parents:
  "split_tokens ts seen pos neg all = Inr (p, n, a) \<Longrightarrow> set all = set pos \<union> set neg \<Longrightarrow>
     set a = set p \<union> set n"
  by (induction ts seen pos neg all rule: split_tokens.induct)
    (auto simp: Let_def split: sum.splits if_splits)

lemma split_dependency_parents:
  "split_dependency_set ts = Inr (p, n, a) \<Longrightarrow> set a = set p \<union> set n"
  unfolding split_dependency_set_def by (erule split_tokens_parents) simp

definition named_by :: "string list \<Rightarrow> string set" where
  "named_by ts = {i. \<exists>t \<in> set ts. normalize_dependency_token t = Inr i}"

lemma named_by_Cons:
  "parse_dependency_ref raw = Inr r \<Longrightarrow> named_by (raw # rest) = insert (ref_fact_id r) (named_by rest)"
  by (auto simp: named_by_def normalize_dependency_token_def)

lemma split_tokens_known:
  assumes "split_tokens ts seen pos neg all = Inr (p, n, a)"
  shows "set p \<union> set n \<subseteq> set pos \<union> set neg \<union> named_by ts"
  using assms
proof (induction ts seen pos neg all rule: split_tokens.induct)
  case (2 raw rest seen pos neg all)
  obtain r where r: "parse_dependency_ref raw = Inr r"
    using 2(4) by (auto split: sum.splits)
  let ?key = "if ref_negated r then ''!'' @ ref_fact_id r else ref_fact_id r"
  show ?case
  proof (cases "?key \<in> set seen")
    case True
    with 2(1) [OF r refl] 2(4) r show ?thesis by (auto simp: named_by_Cons)
  next
    case new: False
    show ?thesis
    proof (cases "ref_negated r")
      case True
      with 2(2) [OF r refl new] 2(4) r new show ?thesis by (auto simp: named_by_Cons Let_def)
    next
      case False
      with 2(3) [OF r refl new] 2(4) r new show ?thesis by (auto simp: named_by_Cons Let_def)
    qed
  qed
qed simp

lemma split_dependency_known:
  "split_dependency_set ts = Inr (p, n, a) \<Longrightarrow> set p \<union> set n \<subseteq> named_by ts"
  using split_tokens_known [of ts "[]" "[]" "[]" "[]" p n a] by (simp add: split_dependency_set_def)

lemma split_tokens_total:
  "list_all (\<lambda>t. \<exists>i. normalize_dependency_token t = Inr i) ts \<Longrightarrow>
     \<exists>p n a. split_tokens ts seen pos neg all = Inr (p, n, a)"
proof (induction ts seen pos neg all rule: split_tokens.induct)
  case (2 raw rest seen pos neg all)
  then obtain r where "parse_dependency_ref raw = Inr r"
    by (auto simp: normalize_dependency_token_def split: sum.splits)
  with 2 show ?case by (auto simp: Let_def)
qed simp

section \<open>Satisfaction\<close>

definition dependency_confidence :: "status \<Rightarrow> bool \<Rightarrow> status" where
  "dependency_confidence st negated =
     (if \<not> negated then st
      else if st \<le> Invalid then Valid
      else if st \<ge> Valid then Invalid
      else Valid - st)"

definition effective_assertion_kind :: "fact option \<Rightarrow> string" where
  "effective_assertion_kind fo =
     (case fo of None \<Rightarrow> AssertionKindEmpirical
      | Some f \<Rightarrow> (let k = trim_space (assertion_kind f)
                   in if k = [] then AssertionKindEmpirical else k))"

definition dependency_scope_satisfied :: "fact option \<Rightarrow> string \<Rightarrow> bool" where
  "dependency_scope_satisfied parent child_scope =
     (case parent of None \<Rightarrow> True
      | Some _ \<Rightarrow>
         (let ps = effective_assertion_kind parent
          in \<not> ((ps = AssertionKindFictional \<or> ps = AssertionKindHypothetical) \<and>
                (child_scope = AssertionKindEmpirical \<or> child_scope = AssertionKindUncertain))))"

definition dependency_grounding_satisfied :: "int \<Rightarrow> fact option \<Rightarrow> fact option \<Rightarrow> bool" where
  "dependency_grounding_satisfied now parent child =
     (case child of None \<Rightarrow> True
      | Some c \<Rightarrow>
         (case metadata c of None \<Rightarrow> True
          | Some _ \<Rightarrow>
             (let allowed = map_string_slice (metadata c) ''grounding_allowed_source_types'';
                  max_age = int64_from_metadata (metadata c) ''grounding_max_age_seconds''
              in case parent of None \<Rightarrow> True
                 | Some p \<Rightarrow>
                    if allowed \<noteq> [] \<and> \<not> list_ex (\<lambda>k. equal_fold k (fact_source_type parent)) allowed
                    then False
                    else if metadata_bool (metadata c) ''grounding_require_verified'' \<and>
                            fact_verification_status parent \<noteq> VerificationVerified
                    then False
                    else if max_age > 0 \<and> asserted_at p > 0 \<and> now - asserted_at p > max_age * 1000
                    then False
                    else True)))"

definition dependency_satisfied :: "int \<Rightarrow> fact option \<Rightarrow> status \<Rightarrow> bool \<Rightarrow> fact option \<Rightarrow> bool" where
  "dependency_satisfied now parent parent_status negated child =
     (if negated then parent_status < ConfidenceThreshold
      else if \<not> dependency_scope_satisfied parent (effective_assertion_kind child) then False
      else if \<not> dependency_grounding_satisfied now parent child then False
      else parent_status \<ge> ConfidenceThreshold)"

text \<open>A negated dependency counts as confident exactly when its parent is at most 2/5 valid.\<close>

lemma negated_confidence_iff:
  "dependency_confidence s True \<ge> ConfidenceThreshold \<longleftrightarrow> s \<le> 2 / 5"
  by (auto simp: dependency_confidence_def status_defs)

lemma negated_confidence_range: "0 \<le> dependency_confidence s True \<and> dependency_confidence s True \<le> 1"
  by (auto simp: dependency_confidence_def status_defs)

end
