(* ===== verification/Engine.thy ===== *)
theory Engine
imports Dependencies
begin

text \<open>
  core/engine.go: the state of an Engine, its change events, the effective status of a fact, and
  the propagation of status changes through the dependency graph.

  Every exported method takes the engine's mutex for its whole body, so an operation is a
  function of the state. The clock is read once per operation (parameter now, in milliseconds).
  A Go map is an association list: ranging over it visits the keys in list order, and the
  theorems hold for every such list, hence for every order the runtime may choose. The
  work-queue loop is a partial function into option: None says that it does not return.
\<close>

section \<open>State\<close>

record change_event =
  ev_fact_id :: string
  ev_status :: status
  ev_timestamp :: int

record engine =
  facts :: "(string \<times> fact) list"
  jsets :: "(string \<times> jset) list"
  children :: "(string \<times> string list) list"
  collapsed_roots :: "string list"
  dirty_dominators :: bool
  retracted_facts :: "(string \<times> string) list"
  listeners :: "(nat \<times> change_event list) list"
  mutation_count :: int
  last_snapshot_time :: int

definition new_engine :: engine where
  "new_engine =
     \<lparr>facts = [], jsets = [], children = [], collapsed_roots = [], dirty_dominators = False,
      retracted_facts = [], listeners = [], mutation_count = 0, last_snapshot_time = 0\<rparr>"

definition justification_set_id :: "string \<Rightarrow> nat \<Rightarrow> string" where
  "justification_set_id fid i = fid @ ''_jset_'' @ show_nat i"

abbreviation fact_at :: "engine \<Rightarrow> string \<Rightarrow> fact option" where
  "fact_at e k \<equiv> map_of (facts e) k"

abbreviation jset_at :: "engine \<Rightarrow> string \<Rightarrow> jset option" where
  "jset_at e k \<equiv> map_of (jsets e) k"

definition is_retracted :: "engine \<Rightarrow> string \<Rightarrow> bool" where
  "is_retracted e k \<longleftrightarrow> map_of (retracted_facts e) k \<noteq> None"

definition child_sets :: "engine \<Rightarrow> string \<Rightarrow> string list" where
  "child_sets e k = (case map_of (children e) k of None \<Rightarrow> [] | Some js \<Rightarrow> js)"

text \<open>Storing through the pointer a map entry holds.\<close>

definition put_fact :: "string \<Rightarrow> fact \<Rightarrow> engine \<Rightarrow> engine" where
  "put_fact k f e = e\<lparr>facts := AList.update k f (facts e)\<rparr>"

definition put_jset :: "string \<Rightarrow> jset \<Rightarrow> engine \<Rightarrow> engine" where
  "put_jset k j e = e\<lparr>jsets := AList.update k j (jsets e)\<rparr>"

definition set_insert :: "string \<Rightarrow> string list \<Rightarrow> string list" where
  "set_insert x xs = (if x \<in> set xs then xs else xs @ [x])"

lemma set_set_insert [simp]: "set (set_insert x xs) = insert x (set xs)"
  by (auto simp: set_insert_def)

section \<open>Change events\<close>

text \<open>
  A listener is a channel of capacity 100: a full buffer drops the event for that listener.
  The channel's identity is a number, and the list its buffered events.
\<close>

definition listener_capacity :: nat where "listener_capacity = 100"

definition subscribe :: "nat \<Rightarrow> engine \<Rightarrow> engine" where
  "subscribe ch e = e\<lparr>listeners := listeners e @ [(ch, [])]\<rparr>"

fun remove_listener :: "nat \<Rightarrow> (nat \<times> change_event list) list \<Rightarrow> (nat \<times> change_event list) list" where
  "remove_listener ch [] = []"
| "remove_listener ch ((c, b) # ls) = (if c = ch then ls else (c, b) # remove_listener ch ls)"

definition unsubscribe :: "nat \<Rightarrow> engine \<Rightarrow> engine" where
  "unsubscribe ch e = e\<lparr>listeners := remove_listener ch (listeners e)\<rparr>"

definition notify :: "int \<Rightarrow> string \<Rightarrow> status \<Rightarrow> engine \<Rightarrow> engine" where
  "notify now fid st e =
     (let ev = \<lparr>ev_fact_id = fid, ev_status = st, ev_timestamp = now\<rparr>
      in e\<lparr>listeners := map (\<lambda>(c, b). if length b < listener_capacity then (c, b @ [ev]) else (c, b))
                         (listeners e)\<rparr>)"

section \<open>Effective status\<close>

definition expired_at :: "int \<Rightarrow> fact \<Rightarrow> bool" where
  "expired_at now f \<longleftrightarrow> valid_until f > 0 \<and> now > valid_until f"

definition effective_status :: "int \<Rightarrow> engine \<Rightarrow> fact option \<Rightarrow> status" where
  "effective_status now e fo =
     (case fo of None \<Rightarrow> Invalid
      | Some f \<Rightarrow>
         if is_retracted e (fact_id f) then Invalid
         else if expired_at now f then Invalid
         else if is_root f then manual_status f
         else derived_status f)"

section \<open>Recomputing a justification set\<close>

text \<open>One parent's contribution to the satisfied count and the minimum confidence.\<close>

definition parent_step ::
  "int \<Rightarrow> engine \<Rightarrow> fact \<Rightarrow> bool \<Rightarrow> string \<Rightarrow> nat \<times> status \<Rightarrow> nat \<times> status" where
  "parent_step now e child negated pid acc =
     (case fact_at e pid of
        None \<Rightarrow> acc
      | Some p \<Rightarrow>
         (let st = effective_status now e (Some p);
              conf = dependency_confidence st negated
          in (if dependency_satisfied now (Some p) st negated (Some child) then Suc (fst acc) else fst acc,
              if conf < snd acc then conf else snd acc)))"

definition compute_parents :: "int \<Rightarrow> engine \<Rightarrow> jset \<Rightarrow> fact \<Rightarrow> nat \<times> status" where
  "compute_parents now e js child =
     fold (parent_step now e child True) (js_negative js)
       (fold (parent_step now e child False) (js_positive js) (0, Valid))"

definition jset_confidence :: "jset \<Rightarrow> nat \<times> status \<Rightarrow> status" where
  "jset_confidence js vm = (if fst vm = js_target js then snd vm else Invalid)"

text \<open>
  The body shared by the loop of propagate and by recomputeChildrenForParentUnsafe: refresh one
  child set, and queue its child fact when the set changed.
\<close>

definition recompute_child ::
  "int \<Rightarrow> string \<Rightarrow> engine \<times> string list \<Rightarrow> engine \<times> string list" where
  "recompute_child now jid s =
     (let (e, queue) = s
      in case jset_at e jid of
           None \<Rightarrow> (e, queue)
         | Some js \<Rightarrow>
            (case fact_at e (js_child js) of
               None \<Rightarrow> (e, queue)
             | Some child \<Rightarrow>
                (let vm = compute_parents now e js child;
                     js' = js\<lparr>js_current := fst vm, js_confidence := jset_confidence js vm\<rparr>;
                     e' = put_jset jid js' e
                 in if js_current js \<noteq> js_current js' \<or> js_confidence js \<noteq> js_confidence js'
                    then (e', queue @ [fact_id child])
                    else (e', queue))))"

definition recompute_in :: "int \<Rightarrow> string list \<Rightarrow> engine \<Rightarrow> engine \<times> string list" where
  "recompute_in now order e = fold (recompute_child now) order (e, [])"

definition recompute_children :: "int \<Rightarrow> string \<Rightarrow> engine \<Rightarrow> engine \<times> string list" where
  "recompute_children now pid e = recompute_in now (child_sets e pid) e"

section \<open>Propagation\<close>

text \<open>The valid justification sets of a derived fact, and the best confidence among them.\<close>

definition tally_set :: "engine \<Rightarrow> fact \<Rightarrow> nat \<Rightarrow> nat \<times> status \<Rightarrow> nat \<times> status" where
  "tally_set e f i acc =
     (case jset_at e (justification_set_id (fact_id f) i) of
        None \<Rightarrow> acc
      | Some js \<Rightarrow>
         if js_confidence js \<ge> ConfidenceThreshold
         then (Suc (fst acc), if js_confidence js > snd acc then js_confidence js else snd acc)
         else acc)"

definition tally_sets :: "engine \<Rightarrow> fact \<Rightarrow> nat \<times> status" where
  "tally_sets e f = fold (tally_set e f) [0..<length (sets_of f)] (0, Invalid)"

definition target_status :: "engine \<Rightarrow> fact \<Rightarrow> status" where
  "target_status e f =
     (if is_retracted e (fact_id f) then Invalid
      else if is_root f then manual_status f
      else snd (tally_sets e f))"

definition refresh_count :: "engine \<Rightarrow> fact \<Rightarrow> fact" where
  "refresh_count e f =
     (if is_retracted e (fact_id f) \<or> is_root f then f
      else f\<lparr>valid_justification_count := fst (tally_sets e f)\<rparr>)"

text \<open>
  One iteration of the loop, for the head of the queue and the order in which the range over
  its child sets visits them.
\<close>

definition propagate_in :: "int \<Rightarrow> string list \<Rightarrow> string \<Rightarrow> engine \<Rightarrow> engine \<times> string list" where
  "propagate_in now order k e =
     (case fact_at e k of
        None \<Rightarrow> (e, [])
      | Some f \<Rightarrow>
         (let st = target_status e f; f1 = refresh_count e f
          in if st = derived_status f then (put_fact k f1 e, [])
             else recompute_in now order
                    (notify now (fact_id f) st (put_fact k (f1\<lparr>derived_status := st\<rparr>) e))))"

definition propagate_one :: "int \<Rightarrow> string \<Rightarrow> engine \<Rightarrow> engine \<times> string list" where
  "propagate_one now k e = propagate_in now (child_sets e k) k e"

partial_function (option) propagate :: "int \<Rightarrow> engine \<Rightarrow> string list \<Rightarrow> engine option" where
  "propagate now e queue =
     (case queue of
        [] \<Rightarrow> Some e
      | k # rest \<Rightarrow> propagate now (fst (propagate_one now k e)) (rest @ snd (propagate_one now k e)))"

lemma propagate_Nil [simp]: "propagate now e [] = Some e"
  by (simp add: propagate.simps)

lemma propagate_Cons:
  "propagate now e (k # rest) =
     (case propagate_one now k e of (e', new) \<Rightarrow> propagate now e' (rest @ new))"
  by (subst propagate.simps) (simp add: case_prod_beta)

lemmas propagate_code [code] = propagate_Nil propagate_Cons

end
