(* ===== verification/Vector.thy ===== *)
theory Vector
imports Engine "HOL-Library.Word" "HOL-Library.Product_Lexorder"
begin

unbundle bit_operations_syntax

text \<open>
  core/vector.go: the hashed bag-of-words embedding, cosine similarity and the similarity
  search. Reals stand for float64. The %v verb of package fmt prints a dynamic value; the text
  of a float is a parameter.
\<close>

section \<open>Tokens and the embedding\<close>

definition is_letter :: "char \<Rightarrow> bool" where
  "is_letter c \<longleftrightarrow> (65 \<le> char_code c \<and> char_code c \<le> 90) \<or> (97 \<le> char_code c \<and> char_code c \<le> 122)"

definition clean_char :: "char \<Rightarrow> char" where
  "clean_char c = (if is_letter c \<or> is_digit c then lower_char c else CHR '' '')"

text \<open>strings.Fields, with the field read so far.\<close>

fun fields_from :: "string \<Rightarrow> string \<Rightarrow> string list" where
  "fields_from acc [] = (if acc = [] then [] else [acc])"
| "fields_from acc (c # s) =
     (if is_space c then (if acc = [] then fields_from [] s else acc # fields_from [] s)
      else fields_from (acc @ [c]) s)"

definition tokenize_text :: "string \<Rightarrow> string list" where
  "tokenize_text text = fields_from [] (map clean_char text)"

definition default_embedding_dimensions :: int where "default_embedding_dimensions = 128"

definition token_hash :: "string \<Rightarrow> 32 word" where
  "token_hash token = fold (\<lambda>r h. (h XOR of_nat (char_code r)) * 16777619) token 2166136261"

definition add_token :: "32 word \<Rightarrow> string \<Rightarrow> real list \<Rightarrow> real list" where
  "add_token d token vec =
     (if token = [] then vec
      else (let h = token_hash token; i = unat (h mod d);
                sign = (if (h div d) mod 2 = 1 then - 1 else 1)
            in vec[i := vec ! i + sign]))"

definition sum_squares :: "real list \<Rightarrow> real" where
  "sum_squares vec = fold (\<lambda>v n. n + v * v) vec 0"

definition normalize_vector :: "real list \<Rightarrow> real list" where
  "normalize_vector vec =
     (if vec = [] then vec
      else (let n = sum_squares vec in if n = 0 then vec else map (\<lambda>v. v / sqrt n) vec))"

text \<open>The embedding before it is normalized; a dimension is converted to uint32.\<close>

definition lexical_counts :: "string \<Rightarrow> int \<Rightarrow> real list" where
  "lexical_counts text dims0 =
     (let dims = (if dims0 \<le> 0 then default_embedding_dimensions else dims0)
      in fold (add_token (word_of_int dims)) (tokenize_text text) (replicate (nat dims) 0))"

definition lexical_embedding :: "string \<Rightarrow> int \<Rightarrow> real list" where
  "lexical_embedding text dims = normalize_vector (lexical_counts text dims)"

definition dot_product :: "real list \<Rightarrow> real list \<Rightarrow> real" where
  "dot_product a b = fold (\<lambda>(x, y) d. d + x * y) (zip a b) 0"

definition cosine_similarity :: "real list \<Rightarrow> real list \<Rightarrow> real" where
  "cosine_similarity a b =
     (if a = [] \<or> b = [] then 0
      else (let d = dot_product a b in if d > 1 then 1 else if d < - 1 then - 1 else d))"

section \<open>The text of a fact\<close>

text \<open>The %v verb: maps print sorted by key, slices between brackets.\<close>

definition format_map :: "(string \<times> string) list \<Rightarrow> string" where
  "format_map kvs = ''map['' @ str_join '' '' (map (\<lambda>(k, v). k @ '':'' @ v) (sort_key fst kvs)) @ '']''"

definition format_slice :: "string list \<Rightarrow> string" where
  "format_slice vs = ''['' @ str_join '' '' vs @ '']''"

fun format_value :: "(real \<Rightarrow> string) \<Rightarrow> gval \<Rightarrow> string"
  and format_values :: "(real \<Rightarrow> string) \<Rightarrow> gval list \<Rightarrow> string list"
  and format_entries :: "(real \<Rightarrow> string) \<Rightarrow> (string \<times> gval) list \<Rightarrow> (string \<times> string) list" where
  "format_value sf GNil = ''<nil>''"
| "format_value sf (GBool b) = (if b then ''true'' else ''false'')"
| "format_value sf (GFloat x) = sf x"
| "format_value sf (GInt n) = show_int n"
| "format_value sf (GStr s) = s"
| "format_value sf (GList vs) = format_slice (format_values sf vs)"
| "format_value sf (GStrs ss) = format_slice ss"
| "format_value sf (GFloats xs) = format_slice (map sf xs)"
| "format_value sf (GObj m) = format_map (format_entries sf m)"
| "format_value sf (GFloatMap m) = format_map (map (\<lambda>(k, x). (k, sf x)) m)"
| "format_value sf (GIntMap m) = format_map (map (\<lambda>(k, x). (k, show_int x)) m)"
| "format_values sf [] = []"
| "format_values sf (v # vs) = format_value sf v # format_values sf vs"
| "format_entries sf [] = []"
| "format_entries sf ((k, v) # m) = (k, format_value sf v) # format_entries sf m"

definition semantic_keys :: "string list" where
  "semantic_keys = [''source_ref'', ''source_type'', ''subject'', ''predicate'', ''object'', ''claim_key'', ''claim_value'']"

definition fact_semantic_text :: "(real \<Rightarrow> string) \<Rightarrow> fact option \<Rightarrow> string" where
  "fact_semantic_text sf fo =
     (case fo of None \<Rightarrow> []
      | Some f \<Rightarrow>
         str_join '' ''
           ([fact_id f] @
            (case payload f of None \<Rightarrow> [] | Some m \<Rightarrow> [format_value sf (GObj m)]) @
            concat (map (\<lambda>key. case obj_get (metadata f) key of None \<Rightarrow> [] | Some v \<Rightarrow> [format_value sf v])
                      semantic_keys)))"

definition embedding_for_fact :: "(real \<Rightarrow> string) \<Rightarrow> fact option \<Rightarrow> real list" where
  "embedding_for_fact sf fo =
     (case fo of None \<Rightarrow> []
      | Some f \<Rightarrow> if embedding f \<noteq> [] then normalize_vector (embedding f)
                  else lexical_embedding (fact_semantic_text sf (Some f)) default_embedding_dimensions)"

section \<open>Search\<close>

record semantic_match =
  sm_fact_id :: string
  sm_score :: real
  sm_status :: real
  sm_retracted :: bool
  sm_payload :: gobj

definition match_fact :: "(real \<Rightarrow> string) \<Rightarrow> int \<Rightarrow> engine \<Rightarrow> string \<Rightarrow> fact \<Rightarrow> semantic_match" where
  "match_fact sf now e query f =
     \<lparr>sm_fact_id = fact_id f,
      sm_score = (if trim_space query = [] then 0
                  else cosine_similarity (lexical_embedding query default_embedding_dimensions)
                         (embedding_for_fact sf (Some f))),
      sm_status = effective_status now e (Some f), sm_retracted = is_retracted e (fact_id f),
      sm_payload = payload f\<rparr>"

definition match_key :: "semantic_match \<Rightarrow> real \<times> string" where
  "match_key m = (- sm_score m, sm_fact_id m)"

definition search_similar_facts ::
  "(real \<Rightarrow> string) \<Rightarrow> int \<Rightarrow> engine \<Rightarrow> string \<Rightarrow> int \<Rightarrow> bool \<Rightarrow> semantic_match list" where
  "search_similar_facts sf now e query limit0 valid_only =
     (let limit = (if limit0 \<le> 0 then 10 else limit0);
          hits = filter (\<lambda>f. \<not> (valid_only \<and> effective_status now e (Some f) < ConfidenceThreshold))
                   (map snd (facts e))
      in take (nat limit) (sort_key match_key (map (match_fact sf now e query) hits)))"

section \<open>Properties\<close>

lemma sum_squares_eq: "sum_squares v = (\<Sum>x \<leftarrow> v. x * x)"
proof -
  have "fold (\<lambda>v n. n + v * v) v a = a + (\<Sum>x \<leftarrow> v. x * x)" for a :: real
    by (induction v arbitrary: a) simp_all
  then show ?thesis by (simp add: sum_squares_def)
qed

lemma dot_product_eq: "dot_product a b = (\<Sum>(x, y) \<leftarrow> zip a b. x * y)"
proof -
  have "fold (\<lambda>(x, y) d. d + x * y) ps s = s + (\<Sum>(x, y) \<leftarrow> ps. x * y)" for ps and s :: real
    by (induction ps arbitrary: s) auto
  then show ?thesis by (simp add: dot_product_def)
qed

lemma sum_squares_nonneg: "0 \<le> sum_squares v"
  unfolding sum_squares_eq by (induction v) auto

lemma sum_squares_scale: "sum_squares (map (\<lambda>x. x / c) v) = sum_squares v / (c * c)"
  unfolding sum_squares_eq by (induction v) (auto simp: add_divide_distrib)

lemma normalize_vector_unit:
  assumes "sum_squares v \<noteq> 0"
  shows "sum_squares (normalize_vector v) = 1"
proof -
  have "v \<noteq> []" using assms by (auto simp: sum_squares_eq)
  then have "sum_squares (normalize_vector v) = sum_squares v / (sqrt (sum_squares v) * sqrt (sum_squares v))"
    using assms by (simp only: normalize_vector_def Let_def if_False sum_squares_scale)
  also have "\<dots> = 1" using assms sum_squares_nonneg [of v] by simp
  finally show ?thesis .
qed

lemma normalize_vector_length [simp]: "length (normalize_vector v) = length v"
  by (simp add: normalize_vector_def Let_def)

lemma normalize_vector_le: "sum_squares (normalize_vector v) \<le> 1"
  using normalize_vector_unit [of v] by (cases "sum_squares v = 0") (auto simp: normalize_vector_def)

lemma dot_product_commute: "dot_product a b = dot_product b a"
  unfolding dot_product_eq by (induction a b rule: list_induct2') (auto simp: mult.commute)

lemma cosine_commute: "cosine_similarity a b = cosine_similarity b a"
  by (simp add: cosine_similarity_def dot_product_commute disj_commute)

lemma cosine_bounds: "- 1 \<le> cosine_similarity a b" "cosine_similarity a b \<le> 1"
  by (simp_all add: cosine_similarity_def Let_def)

text \<open>On vectors of norm at most one the clamp never acts.\<close>

lemma dot_product_bound: "2 * \<bar>dot_product a b\<bar> \<le> sum_squares a + sum_squares b"
proof -
  have "2 * (\<Sum>(x, y) \<leftarrow> zip a b. x * y) \<le> (\<Sum>x \<leftarrow> a. x * x) + (\<Sum>x \<leftarrow> b. x * x)"
    "- (2 * (\<Sum>(x, y) \<leftarrow> zip a b. x * y)) \<le> (\<Sum>x \<leftarrow> a. x * x) + (\<Sum>x \<leftarrow> b. x * x)"
  proof (induction a b rule: list_induct2')
    case (4 x xs y ys)
    have sq: "0 \<le> (x - y) * (x - y)" "0 \<le> (x + y) * (x + y)" by simp_all
    { case 1 show ?case using 4(1) sq(1) by (simp add: algebra_simps) }
    { case 2 show ?case using 4(2) sq(2) by (simp add: algebra_simps) }
  qed (use sum_squares_nonneg in \<open>auto simp: sum_squares_eq [symmetric]\<close>)
  then show ?thesis unfolding dot_product_eq sum_squares_eq by linarith
qed

lemma cosine_normalized:
  assumes "a \<noteq> []" "b \<noteq> []"
  shows "cosine_similarity (normalize_vector a) (normalize_vector b) =
    dot_product (normalize_vector a) (normalize_vector b)"
proof -
  have "\<bar>dot_product (normalize_vector a) (normalize_vector b)\<bar> \<le> 1"
    using dot_product_bound [of "normalize_vector a" "normalize_vector b"]
      normalize_vector_le [of a] normalize_vector_le [of b] by linarith
  moreover have "normalize_vector a \<noteq> []" "normalize_vector b \<noteq> []"
    using assms by (metis length_0_conv normalize_vector_length)+
  ultimately show ?thesis by (auto simp: cosine_similarity_def Let_def)
qed

lemma dot_product_self: "dot_product v v = sum_squares v"
  unfolding dot_product_eq sum_squares_eq by (induction v) auto

lemma cosine_self:
  assumes "sum_squares v \<noteq> 0"
  shows "cosine_similarity (normalize_vector v) (normalize_vector v) = 1"
proof -
  have "v \<noteq> []" using assms by (auto simp: sum_squares_eq)
  then show ?thesis using cosine_normalized normalize_vector_unit [OF assms] by (simp add: dot_product_self)
qed

lemma add_token_length [simp]: "length (add_token d t v) = length v"
  by (simp add: add_token_def Let_def)

lemma lexical_embedding_length: "length (lexical_embedding text dims) = nat (if dims \<le> 0 then 128 else dims)"
proof -
  have "length (fold (add_token d) ts v) = length v" for d ts v
    by (induction ts arbitrary: v) simp_all
  then show ?thesis by (simp add: lexical_embedding_def lexical_counts_def Let_def default_embedding_dimensions_def)
qed

text \<open>The bucket of a token is within the vector.\<close>

lemma token_bucket: "0 < d \<Longrightarrow> d < 2 ^ 32 \<Longrightarrow> unat (token_hash t mod word_of_int d) < nat d"
proof -
  assume d: "0 < d" "d < 2 ^ 32"
  then have "unat (word_of_int d :: 32 word) = nat d" by (simp add: unat_eq_nat_uint take_bit_int_eq_self uint_word_of_int)
  moreover have "0 < nat d" using d by simp
  ultimately show ?thesis by (simp add: unat_mod)
qed

text \<open>The search answers the best matches, best first.\<close>

lemma search_sorted: "sorted (map match_key (search_similar_facts sf now e q limit v))"
  by (simp add: search_similar_facts_def Let_def sorted_wrt_take flip: take_map)

lemma search_best:
  assumes "m \<in> set (search_similar_facts sf now e q limit v)"
    and "f \<in> snd ` set (facts e)" "\<not> (v \<and> effective_status now e (Some f) < ConfidenceThreshold)"
    and "match_fact sf now e q f \<notin> set (search_similar_facts sf now e q limit v)"
  shows "match_key m \<le> match_key (match_fact sf now e q f)"
proof -
  let ?hits = "filter (\<lambda>f. \<not> (v \<and> effective_status now e (Some f) < ConfidenceThreshold)) (map snd (facts e))"
  let ?all = "sort_key match_key (map (match_fact sf now e q) ?hits)"
  define n where "n = nat (if limit \<le> 0 then 10 else limit)"
  have s: "search_similar_facts sf now e q limit v = take n ?all"
    by (simp add: search_similar_facts_def n_def Let_def)
  have "sorted (map match_key ?all)" by simp
  then have ap: "sorted (map match_key (take n ?all) @ map match_key (drop n ?all))"
    by (metis append_take_drop_id map_append)
  have "match_fact sf now e q f \<in> set ?all" using assms(2,3) by auto
  then have "match_fact sf now e q f \<in> set (drop n ?all)"
    using assms(4) s by (metis append_take_drop_id Un_iff set_append)
  then show ?thesis using ap assms(1) s by (auto simp: sorted_append)
qed

lemma search_limit: "length (search_similar_facts sf now e q limit v) \<le> nat (if limit \<le> 0 then 10 else limit)"
  by (simp add: search_similar_facts_def Let_def)

end
