(* ===== verification/Consistency.thy ===== *)
theory Consistency
imports Vector
begin

text \<open>
  core/consistency.go: the claim a fact makes, the five contradiction rules for a pair of facts,
  and the report over all pairs.
\<close>

section \<open>Claims\<close>

record claim_signature =
  cs_key :: string
  cs_value :: string
  cs_subject :: string
  cs_predicate :: string
  cs_object :: string
  cs_polarity :: string
  cs_contradicts :: "string list"

fun first_nonempty :: "string list \<Rightarrow> string" where
  "first_nonempty [] = []"
| "first_nonempty (v # vs) = (if trim_space v \<noteq> [] then trim_space v else first_nonempty vs)"

definition claim_field :: "fact \<Rightarrow> string \<Rightarrow> string" where
  "claim_field f key =
     (let v = metadata_string (payload f) key in if v = [] then metadata_string (metadata f) key else v)"

definition extract_claim_signature :: "fact option \<Rightarrow> claim_signature" where
  "extract_claim_signature fo =
     (case fo of
        None \<Rightarrow> \<lparr>cs_key = [], cs_value = [], cs_subject = [], cs_predicate = [], cs_object = [],
                 cs_polarity = [], cs_contradicts = []\<rparr>
      | Some f \<Rightarrow>
         (let pol = to_lower (first_nonempty
                      [metadata_string (payload f) ''polarity'', metadata_string (metadata f) ''polarity''])
          in \<lparr>cs_key = claim_field f ''claim_key'', cs_value = claim_field f ''claim_value'',
              cs_subject = claim_field f ''subject'', cs_predicate = claim_field f ''predicate'',
              cs_object = claim_field f ''object'', cs_polarity = (if pol = [] then ''positive'' else pol),
              cs_contradicts = map_string_slice (payload f) ''contradicts'' @
                               map_string_slice (metadata f) ''contradicts''\<rparr>))"

definition has_negation :: "string \<Rightarrow> bool" where
  "has_negation t \<longleftrightarrow> str_contains t '' not '' \<or> str_contains t '' no '' \<or> str_contains t '' never ''"

definition semantic_negation_mismatch :: "(real \<Rightarrow> string) \<Rightarrow> fact option \<Rightarrow> fact option \<Rightarrow> bool" where
  "semantic_negation_mismatch sf a b \<longleftrightarrow>
     (let ta = to_lower (fact_semantic_text sf a); tb = to_lower (fact_semantic_text sf b)
      in ta \<noteq> [] \<and> tb \<noteq> [] \<and>
         \<not> cosine_similarity (embedding_for_fact sf a) (embedding_for_fact sf b) < 88 / 100 \<and>
         has_negation ta \<noteq> has_negation tb)"

definition assertion_scope :: "fact option \<Rightarrow> string" where
  "assertion_scope fo =
     (case fo of None \<Rightarrow> AssertionKindEmpirical
      | Some f \<Rightarrow>
         if assertion_kind f = AssertionKindHypothetical \<or> assertion_kind f = AssertionKindFictional
         then assertion_kind f else AssertionKindEmpirical)"

section \<open>Pairs of facts\<close>

record consistency_issue =
  ci_type :: string
  ci_severity :: string
  ci_fact_ids :: "string list"
  ci_message :: string
  ci_action :: string

definition issue_for :: "string \<Rightarrow> string \<Rightarrow> fact \<Rightarrow> fact \<Rightarrow> string \<Rightarrow> consistency_issue" where
  "issue_for ty sev a b msg =
     \<lparr>ci_type = ty, ci_severity = sev, ci_fact_ids = [fact_id a, fact_id b],
      ci_message = ''Facts '' @ fact_id a @ '' and '' @ fact_id b @ msg,
      ci_action = ''retract or downgrade one of the conflicting facts before execution''\<rparr>"

definition explicit_conflict :: "fact \<Rightarrow> fact \<Rightarrow> claim_signature \<Rightarrow> claim_signature \<Rightarrow> bool" where
  "explicit_conflict a b sa sb \<longleftrightarrow>
     fact_id b \<in> set (cs_contradicts sa) \<or> fact_id a \<in> set (cs_contradicts sb)"

definition value_conflict :: "claim_signature \<Rightarrow> claim_signature \<Rightarrow> bool" where
  "value_conflict sa sb \<longleftrightarrow>
     cs_key sa \<noteq> [] \<and> cs_key sa = cs_key sb \<and> cs_value sa \<noteq> [] \<and> cs_value sb \<noteq> [] \<and> cs_value sa \<noteq> cs_value sb"

definition object_conflict :: "claim_signature \<Rightarrow> claim_signature \<Rightarrow> bool" where
  "object_conflict sa sb \<longleftrightarrow>
     cs_subject sa \<noteq> [] \<and> cs_predicate sa \<noteq> [] \<and> cs_subject sa = cs_subject sb \<and>
     cs_predicate sa = cs_predicate sb \<and> cs_object sa \<noteq> [] \<and> cs_object sb \<noteq> [] \<and> cs_object sa \<noteq> cs_object sb"

definition polarity_conflict :: "claim_signature \<Rightarrow> claim_signature \<Rightarrow> bool" where
  "polarity_conflict sa sb \<longleftrightarrow>
     cs_subject sa \<noteq> [] \<and> cs_predicate sa \<noteq> [] \<and> cs_object sa \<noteq> [] \<and> cs_subject sa = cs_subject sb \<and>
     cs_predicate sa = cs_predicate sb \<and> cs_object sa = cs_object sb \<and> cs_polarity sa \<noteq> cs_polarity sb"

definition contradiction_issue_for_facts ::
  "(real \<Rightarrow> string) \<Rightarrow> fact option \<Rightarrow> fact option \<Rightarrow> consistency_issue option" where
  "contradiction_issue_for_facts sf ao bo =
     (case (ao, bo) of
        (Some a, Some b) \<Rightarrow>
          if assertion_scope ao \<noteq> assertion_scope bo then None
          else (let sa = extract_claim_signature ao; sb = extract_claim_signature bo
                in if explicit_conflict a b sa sb
                   then Some (issue_for ''explicit_contradiction'' ''high'' a b '' are marked as contradictory.'')
                   else if value_conflict sa sb
                   then Some (issue_for ''claim_value_conflict'' ''high'' a b
                          ('' assert different values for claim_key='' @ cs_key sa @ ''.''))
                   else if object_conflict sa sb
                   then Some (issue_for ''predicate_object_conflict'' ''high'' a b
                          ('' disagree on '' @ cs_subject sa @ ''/'' @ cs_predicate sa @ ''.''))
                   else if polarity_conflict sa sb
                   then Some (issue_for ''polarity_conflict'' ''high'' a b
                          ('' assert opposite polarity for '' @ cs_subject sa @ ''/'' @ cs_predicate sa @ ''/'' @
                           cs_object sa @ ''.''))
                   else if semantic_negation_mismatch sf ao bo
                   then Some (issue_for ''semantic_negation_conflict'' ''medium'' a b
                          '' are semantically close but appear to negate each other.'')
                   else None)
      | _ \<Rightarrow> None)"

section \<open>The report\<close>

fun unique_from :: "string list \<Rightarrow> string list \<Rightarrow> string list" where
  "unique_from seen [] = []"
| "unique_from seen (i # is) =
     (let k = trim_space i
      in if k = [] \<or> k \<in> set seen then unique_from seen is else k # unique_from (k # seen) is)"

definition unique_sorted_fact_ids :: "string list \<Rightarrow> string list" where
  "unique_sorted_fact_ids ids = sort (unique_from [] ids)"

definition checked_ids :: "engine \<Rightarrow> string list \<Rightarrow> string list" where
  "checked_ids e ids =
     (let out = unique_sorted_fact_ids ids in if out = [] then sort (map fst (facts e)) else out)"

text \<open>A listed fact takes part when it exists and is valid, unless invalid ones are included.\<close>

definition considered :: "int \<Rightarrow> engine \<Rightarrow> bool \<Rightarrow> string \<Rightarrow> bool" where
  "considered now e incl k \<longleftrightarrow>
     (case fact_at e k of None \<Rightarrow> False
      | Some f \<Rightarrow> incl \<or> \<not> effective_status now e (Some f) < ConfidenceThreshold)"

definition pair_step ::
  "(real \<Rightarrow> string) \<Rightarrow> int \<Rightarrow> engine \<Rightarrow> bool \<Rightarrow> string \<Rightarrow> string \<Rightarrow>
     consistency_issue list \<times> string list \<Rightarrow> consistency_issue list \<times> string list" where
  "pair_step sf now e incl i j s =
     (if \<not> considered now e incl j then s
      else (case contradiction_issue_for_facts sf (fact_at e i) (fact_at e j) of
              None \<Rightarrow> s
            | Some issue \<Rightarrow>
               (let key = ci_type issue @ '':'' @ i @ '':'' @ j
                in if key \<in> set (snd s) then s else (fst s @ [issue], key # snd s))))"

fun pair_loop ::
  "(real \<Rightarrow> string) \<Rightarrow> int \<Rightarrow> engine \<Rightarrow> bool \<Rightarrow> string list \<Rightarrow>
     consistency_issue list \<times> string list \<Rightarrow> consistency_issue list \<times> string list" where
  "pair_loop sf now e incl [] s = s"
| "pair_loop sf now e incl (i # rest) s =
     pair_loop sf now e incl rest
       (if considered now e incl i then fold (pair_step sf now e incl i) rest s else s)"

definition issue_key :: "consistency_issue \<Rightarrow> string \<times> string" where
  "issue_key x = (ci_severity x, str_join '','' (ci_fact_ids x))"

definition consistency_issues_for_ids ::
  "(real \<Rightarrow> string) \<Rightarrow> int \<Rightarrow> engine \<Rightarrow> string list \<Rightarrow> bool \<Rightarrow> consistency_issue list" where
  "consistency_issues_for_ids sf now e ids incl =
     sort_key issue_key (fst (pair_loop sf now e incl (checked_ids e ids) ([], [])))"

record consistency_report =
  cr_checked :: "string list"
  cr_count :: nat
  cr_issues :: "consistency_issue list"

definition check_consistency ::
  "(real \<Rightarrow> string) \<Rightarrow> int \<Rightarrow> engine \<Rightarrow> string list \<Rightarrow> bool \<Rightarrow> consistency_report" where
  "check_consistency sf now e ids0 incl =
     (let ids = checked_ids e ids0; issues = consistency_issues_for_ids sf now e ids incl
      in \<lparr>cr_checked = ids, cr_count = length issues, cr_issues = issues\<rparr>)"

section \<open>The rules are symmetric and stay within a scope\<close>

lemma semantic_mismatch_commute: "semantic_negation_mismatch sf a b = semantic_negation_mismatch sf b a"
  by (auto simp: semantic_negation_mismatch_def Let_def cosine_commute [of "embedding_for_fact sf a"])

lemma conflict_commute:
  "explicit_conflict a b sa sb = explicit_conflict b a sb sa" "value_conflict sa sb = value_conflict sb sa"
  "object_conflict sa sb = object_conflict sb sa" "polarity_conflict sa sb = polarity_conflict sb sa"
  by (auto simp: explicit_conflict_def value_conflict_def object_conflict_def polarity_conflict_def)

lemma contradiction_symmetric:
  "map_option (\<lambda>x. (ci_type x, ci_severity x, set (ci_fact_ids x))) (contradiction_issue_for_facts sf a b) =
   map_option (\<lambda>x. (ci_type x, ci_severity x, set (ci_fact_ids x))) (contradiction_issue_for_facts sf b a)"
proof (cases a)
  case (Some f)
  show ?thesis
  proof (cases b)
    case b: (Some g)
    show ?thesis
      unfolding contradiction_issue_for_facts_def Some b
      using semantic_mismatch_commute [of sf "Some f" "Some g"]
        conflict_commute(1) [of f g "extract_claim_signature (Some f)" "extract_claim_signature (Some g)"]
        conflict_commute(2-4) [of "extract_claim_signature (Some f)" "extract_claim_signature (Some g)"]
      by (simp add: Let_def issue_for_def insert_commute eq_commute [of "assertion_scope (Some f)"])
  qed (simp add: Some contradiction_issue_for_facts_def)
qed (cases b; simp add: contradiction_issue_for_facts_def)

lemma contradiction_parts:
  assumes "contradiction_issue_for_facts sf a b = Some x"
  obtains f g where "a = Some f" "b = Some g" "assertion_scope a = assertion_scope b" "ci_fact_ids x = [fact_id f, fact_id g]"
  using assms by (cases a; cases b) (auto simp: contradiction_issue_for_facts_def Let_def issue_for_def split: if_splits)

section \<open>The report is sound and complete\<close>

lemma unique_from_props:
  "distinct (unique_from seen ids)" "set (unique_from seen ids) = trim_space ` set ids - insert [] (set seen)"
proof -
  have "distinct (unique_from seen ids) \<and>
      set (unique_from seen ids) = trim_space ` set ids - insert [] (set seen)"
    by (induction seen ids rule: unique_from.induct) (auto simp: Let_def)
  then show "distinct (unique_from seen ids)"
    "set (unique_from seen ids) = trim_space ` set ids - insert [] (set seen)" by blast+
qed

lemma unique_sorted_props:
  "distinct (unique_sorted_fact_ids ids)" "sorted (unique_sorted_fact_ids ids)"
  "set (unique_sorted_fact_ids ids) = trim_space ` set ids - {[]}"
  by (simp_all add: unique_sorted_fact_ids_def unique_from_props)

lemma checked_distinct: "distinct (map fst (facts e)) \<Longrightarrow> distinct (checked_ids e ids)"
  by (simp add: checked_ids_def unique_sorted_props Let_def)

text \<open>The issue of a pair of considered identifiers, and the key it is remembered by.\<close>

definition pair_issue ::
  "(real \<Rightarrow> string) \<Rightarrow> int \<Rightarrow> engine \<Rightarrow> bool \<Rightarrow> string \<times> string \<Rightarrow> consistency_issue option" where
  "pair_issue sf now e incl ij =
     (if considered now e incl (fst ij) \<and> considered now e incl (snd ij)
      then contradiction_issue_for_facts sf (fact_at e (fst ij)) (fact_at e (snd ij)) else None)"

definition pair_key :: "string \<times> string \<Rightarrow> consistency_issue \<Rightarrow> string" where
  "pair_key ij x = ci_type x @ '':'' @ fst ij @ '':'' @ snd ij"

fun later_pairs :: "string list \<Rightarrow> (string \<times> string) list" where
  "later_pairs [] = []"
| "later_pairs (i # is) = map (Pair i) is @ later_pairs is"

definition visit_pair ::
  "(real \<Rightarrow> string) \<Rightarrow> int \<Rightarrow> engine \<Rightarrow> bool \<Rightarrow> string \<times> string \<Rightarrow>
     consistency_issue list \<times> string list \<Rightarrow> consistency_issue list \<times> string list" where
  "visit_pair sf now e incl ij s =
     (case pair_issue sf now e incl ij of
        None \<Rightarrow> s
      | Some x \<Rightarrow> if pair_key ij x \<in> set (snd s) then s else (fst s @ [x], pair_key ij x # snd s))"

lemma pair_loop_visits: "pair_loop sf now e incl ids s = fold (visit_pair sf now e incl) (later_pairs ids) s"
proof (induction ids arbitrary: s)
  case (Cons i ids)
  have "considered now e incl i \<Longrightarrow> pair_step sf now e incl i j s = visit_pair sf now e incl (i, j) s"
    "\<not> considered now e incl i \<Longrightarrow> visit_pair sf now e incl (i, j) s = s" for j s
    by (auto simp: pair_step_def visit_pair_def pair_issue_def pair_key_def Let_def split: option.split)
  then have "(if considered now e incl i then fold (pair_step sf now e incl i) js s else s) =
      fold (visit_pair sf now e incl) (map (Pair i) js) s" for js s
    by (induction js arbitrary: s) (simp, cases "considered now e incl i", simp_all)
  then show ?case using Cons by simp
qed simp

text \<open>What the visits of a list of pairs leave behind.\<close>

definition visited ::
  "(real \<Rightarrow> string) \<Rightarrow> int \<Rightarrow> engine \<Rightarrow> bool \<Rightarrow> (string \<times> string) set \<Rightarrow> consistency_issue list \<times> string list \<Rightarrow> bool" where
  "visited sf now e incl P s \<longleftrightarrow>
     (\<forall>x \<in> set (fst s). \<exists>ij \<in> P. pair_issue sf now e incl ij = Some x) \<and>
     (\<forall>ij \<in> P. \<forall>x. pair_issue sf now e incl ij = Some x \<longrightarrow> pair_key ij x \<in> set (snd s)) \<and>
     (\<forall>key \<in> set (snd s). \<exists>ij \<in> P. \<exists>x \<in> set (fst s). pair_issue sf now e incl ij = Some x \<and> key = pair_key ij x)"

lemma visit_pair_visited:
  assumes "visited sf now e incl P s"
  shows "visited sf now e incl (insert ij P) (visit_pair sf now e incl ij s)"
proof (cases "pair_issue sf now e incl ij")
  case None
  then show ?thesis using assms by (simp add: visited_def visit_pair_def)
next
  case (Some x)
  show ?thesis
  proof (cases "pair_key ij x \<in> set (snd s)")
    case True
    then show ?thesis using assms Some unfolding visited_def visit_pair_def by auto
  next
    case False
    then show ?thesis using assms Some unfolding visited_def visit_pair_def by fastforce
  qed
qed

lemma visits_visited:
  "visited sf now e incl P s \<Longrightarrow> visited sf now e incl (P \<union> set ijs) (fold (visit_pair sf now e incl) ijs s)"
proof (induction ijs arbitrary: P s)
  case (Cons ij ijs)
  then show ?case using Cons.IH [OF visit_pair_visited [OF Cons.prems, of ij]] by simp
qed simp

lemma split_last_char: "u @ c # s = v @ c # t \<Longrightarrow> c \<notin> set s \<Longrightarrow> c \<notin> set t \<Longrightarrow> u = v \<and> s = t"
proof -
  assume a: "u @ c # s = v @ c # t" "c \<notin> set s" "c \<notin> set t"
  have "takeWhile (\<lambda>x. x \<noteq> c) (rev (u @ c # s)) = rev s" if "c \<notin> set s" for u s
    using that by (subst rev_append) (auto simp: takeWhile_append)
  then have "rev s = rev t" using a by metis
  then show ?thesis using a(1) by simp
qed

lemma pair_key_inject:
  assumes "pair_key (i, j) x = pair_key (i', j') y" and "CHR '':'' \<notin> set i \<union> set j \<union> set i' \<union> set j'"
  shows "i = i' \<and> j = j'"
proof -
  have "(ci_type x @ '':'' @ i) @ CHR '':'' # j = (ci_type y @ '':'' @ i') @ CHR '':'' # j'"
    using assms(1) by (simp add: pair_key_def)
  then have s: "ci_type x @ '':'' @ i = ci_type y @ '':'' @ i' \<and> j = j'"
    by (rule split_last_char) (use assms(2) in auto)
  then have "ci_type x @ CHR '':'' # i = ci_type y @ CHR '':'' # i'" by simp
  then have "ci_type x = ci_type y \<and> i = i'"
    by (rule split_last_char) (use assms(2) in auto)
  then show ?thesis using s by simp
qed

lemma issues_visited:
  "visited sf now e incl (set (later_pairs (checked_ids e ids)))
     (pair_loop sf now e incl (checked_ids e ids) ([], []))"
  using visits_visited [of sf now e incl "{}" "([], [])"] by (simp add: pair_loop_visits visited_def)

lemma issues_sound:
  assumes "x \<in> set (consistency_issues_for_ids sf now e ids incl)"
  obtains i j where "(i, j) \<in> set (later_pairs (checked_ids e ids))" "pair_issue sf now e incl (i, j) = Some x"
  using issues_visited [of sf now e incl ids] assms
  unfolding visited_def consistency_issues_for_ids_def by force

lemma issues_complete:
  assumes "(i, j) \<in> set (later_pairs (checked_ids e ids))" "pair_issue sf now e incl (i, j) = Some x"
    and plain: "\<forall>k \<in> set (checked_ids e ids). CHR '':'' \<notin> set k"
  shows "x \<in> set (consistency_issues_for_ids sf now e ids incl)"
proof -
  let ?s = "pair_loop sf now e incl (checked_ids e ids) ([], [])"
  have sub: "(a, b) \<in> set (later_pairs is) \<Longrightarrow> a \<in> set is \<and> b \<in> set is" for a b "is"
    by (induction "is") auto
  have "pair_key (i, j) x \<in> set (snd ?s)"
    using issues_visited [of sf now e incl ids] assms(1,2) unfolding visited_def by blast
  then obtain i' j' y where y: "(i', j') \<in> set (later_pairs (checked_ids e ids))" "y \<in> set (fst ?s)"
    "pair_issue sf now e incl (i', j') = Some y" "pair_key (i, j) x = pair_key (i', j') y"
    using issues_visited [of sf now e incl ids] unfolding visited_def by fast
  have "i = i' \<and> j = j'"
    using pair_key_inject [OF y(4)] plain sub [OF assms(1)] sub [OF y(1)] by blast
  then have "y = x" using y(3) assms(2) by simp
  then show ?thesis using y(2) by (simp add: consistency_issues_for_ids_def)
qed

lemma later_pairs_all: "i \<in> set is \<Longrightarrow> j \<in> set is \<Longrightarrow> i \<noteq> j \<Longrightarrow> (i, j) \<in> set (later_pairs is) \<or> (j, i) \<in> set (later_pairs is)"
  by (induction "is") auto

lemma later_pairs_in: "(i, j) \<in> set (later_pairs is) \<Longrightarrow> i \<in> set is \<and> j \<in> set is"
  by (induction "is") auto

lemma later_pairs_ne: "distinct is \<Longrightarrow> (i, j) \<in> set (later_pairs is) \<Longrightarrow> i \<noteq> j"
  by (induction "is") (auto dest: later_pairs_in)

text \<open>A conflicting pair is reported, whichever of the two comes first.\<close>

lemma conflict_reported:
  assumes i: "i \<in> set (checked_ids e ids)" "considered now e incl i"
    and j: "j \<in> set (checked_ids e ids)" "considered now e incl j" and ne: "i \<noteq> j"
    and conflict: "contradiction_issue_for_facts sf (fact_at e i) (fact_at e j) = Some x"
    and plain: "\<forall>k \<in> set (checked_ids e ids). CHR '':'' \<notin> set k"
  obtains y where "y \<in> set (consistency_issues_for_ids sf now e ids incl)"
    "ci_type y = ci_type x" "ci_severity y = ci_severity x" "set (ci_fact_ids y) = set (ci_fact_ids x)"
proof -
  consider "(i, j) \<in> set (later_pairs (checked_ids e ids))" | "(j, i) \<in> set (later_pairs (checked_ids e ids))"
    using later_pairs_all [OF i(1) j(1) ne] by blast
  then show ?thesis
  proof cases
    case 1
    have "pair_issue sf now e incl (i, j) = Some x" using i j conflict by (simp add: pair_issue_def)
    then show ?thesis using that issues_complete [OF 1 _ plain] by blast
  next
    case 2
    obtain y where y: "contradiction_issue_for_facts sf (fact_at e j) (fact_at e i) = Some y"
      "ci_type y = ci_type x" "ci_severity y = ci_severity x" "set (ci_fact_ids y) = set (ci_fact_ids x)"
      using contradiction_symmetric [of sf "fact_at e i" "fact_at e j"] conflict
      by (cases "contradiction_issue_for_facts sf (fact_at e j) (fact_at e i)") auto
    then have "pair_issue sf now e incl (j, i) = Some y" using i j by (simp add: pair_issue_def)
    then show ?thesis using that issues_complete [OF 2 _ plain] y(2-4) by blast
  qed
qed

lemma issue_pair:
  assumes wf: "distinct (map fst (facts e))" and id: "\<And>k f. fact_at e k = Some f \<Longrightarrow> fact_id f = k"
    and x: "x \<in> set (consistency_issues_for_ids sf now e ids incl)"
  obtains i j where "ci_fact_ids x = [i, j]" "i \<noteq> j" "i \<in> set (checked_ids e ids)" "j \<in> set (checked_ids e ids)"
    "considered now e incl i" "considered now e incl j"
    "assertion_scope (fact_at e i) = assertion_scope (fact_at e j)"
    "contradiction_issue_for_facts sf (fact_at e i) (fact_at e j) = Some x"
proof -
  obtain i j where ij: "(i, j) \<in> set (later_pairs (checked_ids e ids))" "pair_issue sf now e incl (i, j) = Some x"
    by (rule issues_sound [OF x])
  have c: "considered now e incl i" "considered now e incl j"
    "contradiction_issue_for_facts sf (fact_at e i) (fact_at e j) = Some x"
    using ij(2) by (auto simp: pair_issue_def split: if_splits)
  obtain f g where fg: "fact_at e i = Some f" "fact_at e j = Some g"
    "assertion_scope (fact_at e i) = assertion_scope (fact_at e j)" "ci_fact_ids x = [fact_id f, fact_id g]"
    by (rule contradiction_parts [OF c(3)])
  show ?thesis
    using that [of i j] fg id [OF fg(1)] id [OF fg(2)] later_pairs_in [OF ij(1)]
      later_pairs_ne [OF checked_distinct [OF wf] ij(1)] c by simp
qed

end
