(* ===== verification/Reasoning.thy ===== *)
theory Reasoning
imports Consistency
begin

text \<open>core/reasoning.go: the audit of a reasoning chain against the engine's current beliefs.\<close>

record reasoning_step =
  rs_id :: string
  rs_evidence :: "string list"
  rs_justification :: "string list"
  rs_output :: string
  rs_contradicts :: "string list"

record reasoning_chain =
  rc_id :: string
  rc_steps :: "reasoning_step list"

record step_audit =
  sa_step :: string
  sa_valid :: bool
  sa_missing :: "string list"
  sa_invalid :: "string list"
  sa_output :: string
  sa_findings :: "consistency_issue list"

record audit_report =
  ar_chain :: string
  ar_valid :: bool
  ar_summary :: string
  ar_steps :: "step_audit list"
  ar_issues :: "consistency_issue list"
  ar_candidates :: "string list"
  ar_verified_at :: int

definition unique_ids :: "string list list \<Rightarrow> string list" where
  "unique_ids groups = unique_sorted_fact_ids (concat groups)"

text \<open>The missing and the invalid references, in the order of the list.\<close>

fun validate_fact_refs :: "int \<Rightarrow> engine \<Rightarrow> string list \<Rightarrow> string list \<times> string list" where
  "validate_fact_refs now e [] = ([], [])"
| "validate_fact_refs now e (k # ks) =
     (let (missing, invalid) = validate_fact_refs now e ks
      in case fact_at e k of
           None \<Rightarrow> (k # missing, invalid)
         | Some f \<Rightarrow> (missing, if effective_status now e (Some f) < ConfidenceThreshold then k # invalid else invalid))"

definition add_retract_candidates :: "consistency_issue list \<Rightarrow> string \<Rightarrow> string list \<Rightarrow> string list" where
  "add_retract_candidates issues out cands =
     fold (\<lambda>k c. if k = out then c else set_insert k c) (concat (map ci_fact_ids issues)) cands"

definition audit_step ::
  "(real \<Rightarrow> string) \<Rightarrow> int \<Rightarrow> engine \<Rightarrow> reasoning_step \<Rightarrow> string list \<Rightarrow> string list \<Rightarrow> step_audit \<times> string list" where
  "audit_step sf now e step prior cands =
     (let (miss, inval) = validate_fact_refs now e
            (unique_ids [rs_evidence step, rs_justification step, rs_contradicts step]);
          ok = (miss = [] \<and> inval = [])
      in if rs_output step = []
         then (\<lparr>sa_step = rs_id step, sa_valid = ok, sa_missing = sort miss, sa_invalid = sort inval,
                sa_output = [], sa_findings = []\<rparr>, cands)
         else (let (miss1, inval1) = validate_fact_refs now e [rs_output step];
                   issues = consistency_issues_for_ids sf now e (rs_output step # prior) False;
                   cands1 = (if issues = [] then cands else add_retract_candidates issues (rs_output step) cands);
                   cands2 = fold (\<lambda>k c. if fact_at e k = None then c else set_insert k c)
                              (rs_contradicts step) cands1
               in (\<lparr>sa_step = rs_id step, sa_valid = (ok \<and> miss1 = [] \<and> inval1 = [] \<and> issues = []),
                    sa_missing = sort (miss @ miss1), sa_invalid = sort (inval @ inval1),
                    sa_output = rs_output step, sa_findings = issues\<rparr>, cands2)))"

text \<open>The loop over the steps: audits, issues, prior outputs and retract candidates.\<close>

fun audit_steps ::
  "(real \<Rightarrow> string) \<Rightarrow> int \<Rightarrow> engine \<Rightarrow> reasoning_step list \<Rightarrow> string list \<Rightarrow> string list
     \<Rightarrow> step_audit list \<times> consistency_issue list \<times> string list" where
  "audit_steps sf now e [] prior cands = ([], [], cands)"
| "audit_steps sf now e (step # rest) prior cands =
     (let (a, cands1) = audit_step sf now e step prior cands;
          (as, issues, cands2) =
            audit_steps sf now e rest (if rs_output step = [] then prior else prior @ [rs_output step]) cands1
      in (a # as, (if rs_output step = [] then issues else sa_findings a @ issues), cands2))"

definition audit_reasoning_chain ::
  "(real \<Rightarrow> string) \<Rightarrow> int \<Rightarrow> engine \<Rightarrow> reasoning_chain option \<Rightarrow> audit_report" where
  "audit_reasoning_chain sf now e co =
     (case co of
        None \<Rightarrow> \<lparr>ar_chain = [], ar_valid = False, ar_summary = ''reasoning chain is missing'',
                ar_steps = [], ar_issues = [], ar_candidates = [], ar_verified_at = now\<rparr>
      | Some c \<Rightarrow>
         (let (as, issues, cands) = audit_steps sf now e (rc_steps c) [] [];
              ok = list_all sa_valid as
          in \<lparr>ar_chain = rc_id c, ar_valid = ok,
              ar_summary = (if ok then ''reasoning chain passed verification''
                            else ''reasoning chain '' @ trim_space (rc_id c) @
                              '' requires review; one or more steps reference stale, missing, or contradictory beliefs''),
              ar_steps = as, ar_issues = issues, ar_candidates = sort cands, ar_verified_at = now\<rparr>))"

section \<open>What a passed audit guarantees\<close>

definition believed :: "int \<Rightarrow> engine \<Rightarrow> string \<Rightarrow> bool" where
  "believed now e k \<longleftrightarrow>
     (\<exists>f. fact_at e k = Some f \<and> ConfidenceThreshold \<le> effective_status now e (Some f))"

lemma validate_fact_refs_eq:
  "validate_fact_refs now e ks =
     (filter (\<lambda>k. fact_at e k = None) ks, filter (\<lambda>k. fact_at e k \<noteq> None \<and> \<not> believed now e k) ks)"
  by (induction ks) (auto simp: believed_def Let_def split: option.split)

lemma validate_fact_refs_ok:
  "validate_fact_refs now e ks = ([], []) \<longleftrightarrow> (\<forall>k \<in> set ks. believed now e k)"
  by (simp add: validate_fact_refs_eq filter_empty_conv) (metis believed_def option.distinct(1))

lemma audit_step_valid:
  assumes "audit_step sf now e step prior cands = (a, c)"
  shows "sa_valid a \<longleftrightarrow>
    (\<forall>k \<in> set (unique_ids [rs_evidence step, rs_justification step, rs_contradicts step]). believed now e k) \<and>
    (rs_output step \<noteq> [] \<longrightarrow> believed now e (rs_output step) \<and>
       consistency_issues_for_ids sf now e (rs_output step # prior) False = [])"
proof -
  let ?refs = "unique_ids [rs_evidence step, rs_justification step, rs_contradicts step]"
  obtain m i where mi: "validate_fact_refs now e ?refs = (m, i)" by fastforce
  obtain m1 i1 where mi1: "validate_fact_refs now e [rs_output step] = (m1, i1)" by fastforce
  have "m = [] \<and> i = [] \<longleftrightarrow> (\<forall>k \<in> set ?refs. believed now e k)"
    using validate_fact_refs_ok [of now e ?refs] mi by simp
  moreover have "m1 = [] \<and> i1 = [] \<longleftrightarrow> believed now e (rs_output step)"
    using validate_fact_refs_ok [of now e "[rs_output step]"] mi1 by simp
  ultimately show ?thesis
    using assms mi mi1 unfolding audit_step_def Let_def by (auto split: if_splits)
qed

text \<open>The outputs of the steps before a given one.\<close>

definition prior_outputs :: "reasoning_step list \<Rightarrow> string list" where
  "prior_outputs steps = filter (\<lambda>k. k \<noteq> []) (map rs_output steps)"

definition step_sound :: "(real \<Rightarrow> string) \<Rightarrow> int \<Rightarrow> engine \<Rightarrow> string list \<Rightarrow> reasoning_step \<Rightarrow> bool" where
  "step_sound sf now e prior step \<longleftrightarrow>
     (\<forall>k \<in> set (unique_ids [rs_evidence step, rs_justification step, rs_contradicts step]). believed now e k) \<and>
     (rs_output step \<noteq> [] \<longrightarrow> believed now e (rs_output step) \<and>
        consistency_issues_for_ids sf now e (rs_output step # prior) False = [])"

lemma audit_steps_valid:
  "audit_steps sf now e steps prior cands = (as, is, c) \<Longrightarrow>
     length as = length steps \<and>
     (\<forall>n < length steps. sa_valid (as ! n) = step_sound sf now e (prior @ prior_outputs (take n steps)) (steps ! n))"
proof (induction steps arbitrary: prior cands as "is" c)
  case (Cons step steps)
  obtain a c1 where a: "audit_step sf now e step prior cands = (a, c1)" by fastforce
  let ?prior = "if rs_output step = [] then prior else prior @ [rs_output step]"
  obtain as' is' c2 where r: "audit_steps sf now e steps ?prior c1 = (as', is', c2)" by (metis prod_cases3)
  have as: "as = a # as'" using Cons.prems a r by simp
  have IH: "length as' = length steps"
    "\<And>n. n < length steps \<Longrightarrow> sa_valid (as' ! n) = step_sound sf now e (?prior @ prior_outputs (take n steps)) (steps ! n)"
    using Cons.IH [OF r] by blast+
  have head: "sa_valid a = step_sound sf now e prior step"
    using audit_step_valid [OF a] by (simp add: step_sound_def)
  have "?prior @ prior_outputs (take n steps) = prior @ prior_outputs (take (Suc n) (step # steps))" for n
    by (simp add: prior_outputs_def)
  then have "sa_valid (as ! n) = step_sound sf now e (prior @ prior_outputs (take n (step # steps))) ((step # steps) ! n)"
    if "n < length (step # steps)" for n
    using that IH(2) head as by (cases n) (auto simp: prior_outputs_def)
  then show ?case using IH(1) as by simp
qed simp

lemma audit_valid_iff:
  "ar_valid (audit_reasoning_chain sf now e (Some c)) \<longleftrightarrow>
     (\<forall>n < length (rc_steps c). step_sound sf now e (prior_outputs (take n (rc_steps c))) (rc_steps c ! n))"
proof -
  obtain as "is" cs where r: "audit_steps sf now e (rc_steps c) [] [] = (as, is, cs)" by (metis prod_cases3)
  show ?thesis
    using audit_steps_valid [OF r] r
    by (simp add: audit_reasoning_chain_def list_all_length Let_def)
qed

end
