(* ===== verification/Propagation.thy ===== *)
theory Propagation
imports Engine
begin

text \<open>
  What propagation achieves. A well-formed engine has an acyclic dependency graph whose edges,
  justification sets and child index agree. The loop invariant is that every set and every fact
  is up to date except where a queued fact excuses it, so that an empty queue leaves the engine
  settled; the queue's heights fall in the multiset order, so the loop always empties it; and a
  settled labelling is unique, so the order in which Go ranges over its maps does not matter.
\<close>

section \<open>Well-formed engines\<close>

definition parents_of :: "jset \<Rightarrow> string set" where
  "parents_of js = set (js_positive js) \<union> set (js_negative js)"

definition deps :: "engine \<Rightarrow> (string \<times> string) set" where
  "deps e = (\<Union>(k, js) \<in> set (jsets e). parents_of js \<times> {js_child js})"

text \<open>What a stored set owes to the child's declaration of it.\<close>

definition jset_ok :: "engine \<Rightarrow> string \<Rightarrow> jset \<Rightarrow> bool" where
  "jset_ok e k js \<longleftrightarrow>
     (\<exists>f i. fact_at e (js_child js) = Some f \<and> \<not> is_root f \<and> i < length (sets_of f) \<and>
        k = justification_set_id (js_child js) i \<and> js_id js = k \<and>
        split_dependency_set (sets_of f ! i) = Inr (js_positive js, js_negative js, js_parents js)) \<and>
     js_target js = length (js_positive js) + length (js_negative js) \<and>
     parents_of js \<subseteq> fst ` set (facts e)"

definition wf_engine :: "engine \<Rightarrow> bool" where
  "wf_engine e \<longleftrightarrow>
     distinct (map fst (facts e)) \<and> distinct (map fst (jsets e)) \<and>
     (\<forall>k f. fact_at e k = Some f \<longrightarrow> fact_id f = k) \<and>
     (\<forall>k js. jset_at e k = Some js \<longrightarrow> jset_ok e k js) \<and>
     (\<forall>k f i. fact_at e k = Some f \<longrightarrow> \<not> is_root f \<longrightarrow> i < length (sets_of f) \<longrightarrow>
        jset_at e (justification_set_id k i) \<noteq> None) \<and>
     (\<forall>p jid. jid \<in> set (child_sets e p) \<longleftrightarrow> (\<exists>js. jset_at e jid = Some js \<and> p \<in> parents_of js)) \<and>
     acyclic (deps e)"

lemma wf_engineD:
  assumes "wf_engine e"
  shows wf_fact_keys: "distinct (map fst (facts e))"
    and wf_jset_keys: "distinct (map fst (jsets e))"
    and wf_fact_id: "fact_at e k = Some f \<Longrightarrow> fact_id f = k"
    and wf_jset: "jset_at e j = Some js \<Longrightarrow> jset_ok e j js"
    and wf_sets: "fact_at e k = Some f \<Longrightarrow> \<not> is_root f \<Longrightarrow> i < length (sets_of f) \<Longrightarrow>
       jset_at e (justification_set_id k i) \<noteq> None"
    and wf_children: "j \<in> set (child_sets e p) \<longleftrightarrow> (\<exists>js. jset_at e j = Some js \<and> p \<in> parents_of js)"
    and wf_acyclic: "acyclic (deps e)"
  using assms unfolding wf_engine_def by blast+

lemma finite_deps: "finite (deps e)"
  by (auto simp: deps_def parents_of_def)

lemma deps_at: "jset_at e k = Some js \<Longrightarrow> p \<in> parents_of js \<Longrightarrow> (p, js_child js) \<in> deps e"
  using map_of_SomeD by (fastforce simp: deps_def)

lemma deps_cases:
  assumes "wf_engine e" and "(p, c) \<in> deps e"
  obtains k js where "jset_at e k = Some js" and "p \<in> parents_of js" and "c = js_child js"
proof -
  obtain k js where "(k, js) \<in> set (jsets e)" "p \<in> parents_of js" "c = js_child js"
    using assms(2) by (auto simp: deps_def)
  then show ?thesis using that wf_jset_keys [OF assms(1)] by (metis map_of_eq_in_set)
qed

section \<open>Decimal set identifiers\<close>

lemma underscore_no_digit: "\<not> is_digit CHR ''_''"
  by (simp add: is_digit_def char_code_def)

lemma split_last_underscore:
  assumes "a @ CHR ''_'' # s = b @ CHR ''_'' # t" and "list_all is_digit s" and "list_all is_digit t"
  shows "a = b \<and> s = t"
proof -
  have last: "takeWhile is_digit (rev (x @ CHR ''_'' # u)) = rev u" if "list_all is_digit u" for x u
    using that by (subst rev_append) (auto simp: takeWhile_append underscore_no_digit list_all_iff)
  have "rev s = rev t" using last [OF assms(2)] last [OF assms(3)] assms(1) by metis
  then show ?thesis using assms(1) by simp
qed

lemma justification_set_id_inject:
  "justification_set_id a i = justification_set_id b j \<longleftrightarrow> a = b \<and> i = j"
proof
  assume "justification_set_id a i = justification_set_id b j"
  then have "(a @ ''_jset'') @ CHR ''_'' # show_nat i = (b @ ''_jset'') @ CHR ''_'' # show_nat j"
    by (simp add: justification_set_id_def)
  then have "a @ ''_jset'' = b @ ''_jset'' \<and> show_nat i = show_nat j"
    by (rule split_last_underscore) (simp_all add: show_nat_digits)
  then show "a = b \<and> i = j" by simp
qed simp

section \<open>What a refresh reads and writes\<close>

lemma fact_at_put [simp]: "fact_at (put_fact k f e) k' = (if k' = k then Some f else fact_at e k')"
  by (simp add: put_fact_def)

lemma jset_at_put [simp]: "jset_at (put_jset k j e) k' = (if k' = k then Some j else jset_at e k')"
  by (simp add: put_jset_def)

lemma put_fact_frame [simp, frame]:
  "jsets (put_fact k f e) = jsets e" "children (put_fact k f e) = children e"
  "retracted_facts (put_fact k f e) = retracted_facts e"
  "is_retracted (put_fact k f e) i = is_retracted e i"
  "child_sets (put_fact k f e) p = child_sets e p"
  by (simp_all add: put_fact_def is_retracted_def child_sets_def)

lemma put_jset_frame [simp, frame]:
  "facts (put_jset k j e) = facts e" "children (put_jset k j e) = children e"
  "retracted_facts (put_jset k j e) = retracted_facts e"
  "is_retracted (put_jset k j e) i = is_retracted e i"
  "child_sets (put_jset k j e) p = child_sets e p"
  by (simp_all add: put_jset_def is_retracted_def child_sets_def)

lemma notify_frame [simp, frame]:
  "facts (notify now k s e) = facts e" "jsets (notify now k s e) = jsets e"
  "children (notify now k s e) = children e"
  "retracted_facts (notify now k s e) = retracted_facts e"
  "is_retracted (notify now k s e) i = is_retracted e i"
  "child_sets (notify now k s e) p = child_sets e p"
  "collapsed_roots (notify now k s e) = collapsed_roots e"
  "dirty_dominators (notify now k s e) = dirty_dominators e"
  "mutation_count (notify now k s e) = mutation_count e"
  by (simp_all add: notify_def Let_def is_retracted_def child_sets_def)

text \<open>
  The part of a fact a parent or a child exposes to a refresh. Two engines that agree on it for
  the parents of a set, and on the child's, refresh the set alike.
\<close>

definition child_view :: "fact \<Rightarrow> string \<times> string list \<times> bool \<times> int" where
  "child_view c =
     (assertion_kind c, map_string_slice (metadata c) ''grounding_allowed_source_types'',
      metadata_bool (metadata c) ''grounding_require_verified'',
      int64_from_metadata (metadata c) ''grounding_max_age_seconds'')"

definition same_child :: "fact \<Rightarrow> fact \<Rightarrow> bool" where
  "same_child a b \<longleftrightarrow> child_view a = child_view b"

lemma same_childI: "assertion_kind a = assertion_kind b \<Longrightarrow> metadata a = metadata b \<Longrightarrow> same_child a b"
  by (simp add: same_child_def child_view_def)

lemma same_child_refl [simp]: "same_child c c"
  by (simp add: same_child_def)

text \<open>The grounding policy a child imposes, read off its view; a nil metadata map imposes none.\<close>

definition grounding_ok :: "int \<Rightarrow> fact \<Rightarrow> string list \<times> bool \<times> int \<Rightarrow> bool" where
  "grounding_ok now p g =
     (case g of (allowed, verified, max_age) \<Rightarrow>
        (allowed = [] \<or> list_ex (\<lambda>k. equal_fold k (fact_source_type (Some p))) allowed) \<and>
        (verified \<longrightarrow> fact_verification_status (Some p) = VerificationVerified) \<and>
        \<not> (max_age > 0 \<and> asserted_at p > 0 \<and> now - asserted_at p > max_age * 1000))"

lemma grounding_view:
  "dependency_grounding_satisfied now (Some p) (Some c) = grounding_ok now p (snd (child_view c))"
proof (cases "metadata c")
  case None
  then show ?thesis
    by (simp add: dependency_grounding_satisfied_def grounding_ok_def child_view_def
        map_string_slice_def metadata_bool_def int64_from_metadata_def)
next
  case (Some m)
  then show ?thesis
    by (auto simp add: dependency_grounding_satisfied_def grounding_ok_def child_view_def Let_def)
qed

definition grounding_view_of :: "fact \<Rightarrow> string \<times> string \<times> int" where
  "grounding_view_of p = (fact_source_type (Some p), fact_verification_status (Some p), asserted_at p)"

definition parent_view ::
  "int \<Rightarrow> engine \<Rightarrow> string \<Rightarrow> (status \<times> string \<times> string \<times> string \<times> int) option" where
  "parent_view now e k =
     map_option (\<lambda>p. (effective_status now e (Some p), assertion_kind p, grounding_view_of p)) (fact_at e k)"

lemma grounding_view_of_metadata:
  assumes "metadata p = metadata q" "asserted_at p = asserted_at q"
  shows "grounding_view_of p = grounding_view_of q"
proof -
  have "fact_source_type (Some p) = fact_source_type (Some q)"
    by (simp only: fact_source_type_def option.case assms)
  moreover have "fact_verification_status (Some p) = fact_verification_status (Some q)"
    by (simp only: fact_verification_status_def option.case assms)
  ultimately show ?thesis by (simp only: grounding_view_of_def assms)
qed

lemma grounding_ok_parent:
  "grounding_view_of p = grounding_view_of q \<Longrightarrow> grounding_ok now p g = grounding_ok now q g"
  by (simp add: grounding_ok_def grounding_view_of_def)

lemma satisfied_cong:
  assumes "assertion_kind p = assertion_kind q" "grounding_view_of p = grounding_view_of q"
    and "same_child c d"
  shows "dependency_satisfied now (Some p) s neg (Some c) = dependency_satisfied now (Some q) s neg (Some d)"
proof -
  have "child_view c = child_view d" using assms(3) by (simp add: same_child_def)
  moreover then have "assertion_kind c = assertion_kind d" by (simp add: child_view_def)
  ultimately show ?thesis
    using assms(1) grounding_ok_parent [OF assms(2)]
    by (simp add: dependency_satisfied_def dependency_scope_satisfied_def effective_assertion_kind_def
        grounding_view)
qed

lemma parent_step_cong:
  assumes "parent_view now e k = parent_view now e' k" and "same_child c d"
  shows "parent_step now e c neg k acc = parent_step now e' d neg k acc"
proof (cases "fact_at e k")
  case None
  then show ?thesis using assms(1) by (simp add: parent_view_def parent_step_def)
next
  case (Some p)
  with assms(1) obtain q where q: "fact_at e' k = Some q"
    by (cases "fact_at e' k") (auto simp: parent_view_def)
  have v: "effective_status now e (Some p) = effective_status now e' (Some q)"
    "assertion_kind p = assertion_kind q" "grounding_view_of p = grounding_view_of q"
    using assms(1) Some q by (simp_all add: parent_view_def)
  show ?thesis
    by (simp add: parent_step_def Some q v(1) satisfied_cong [OF v(2,3) assms(2)])
qed

lemma compute_parents_cong:
  assumes "\<And>k. k \<in> parents_of js \<Longrightarrow> parent_view now e k = parent_view now e' k" and "same_child c d"
  shows "compute_parents now e js c = compute_parents now e' js d"
proof -
  have "fold (parent_step now e c n) ks acc = fold (parent_step now e' d n) ks acc"
    if "set ks \<subseteq> parents_of js" for n ks acc
    using that by (intro fold_cong refl ext parent_step_cong [OF assms(1) assms(2)]) auto
  then show ?thesis by (simp add: compute_parents_def parents_of_def)
qed

lemma compute_parents_jset:
  "js_positive js = js_positive js' \<Longrightarrow> js_negative js = js_negative js' \<Longrightarrow>
     compute_parents now e js c = compute_parents now e js' c"
  by (simp add: compute_parents_def)

section \<open>The settled state and the loop invariant\<close>

definition jset_fresh :: "int \<Rightarrow> engine \<Rightarrow> jset \<Rightarrow> bool" where
  "jset_fresh now e js \<longleftrightarrow>
     (\<forall>c. fact_at e (js_child js) = Some c \<longrightarrow>
        js_current js = fst (compute_parents now e js c) \<and>
        js_confidence js = jset_confidence js (compute_parents now e js c))"

definition fact_settled :: "engine \<Rightarrow> fact \<Rightarrow> bool" where
  "fact_settled e f \<longleftrightarrow> derived_status f = target_status e f"

text \<open>A root or retracted fact whose new status has not reached its children yet.\<close>

definition unsent :: "engine \<Rightarrow> string \<Rightarrow> bool" where
  "unsent e k \<longleftrightarrow>
     (\<exists>f. fact_at e k = Some f \<and> (is_retracted e (fact_id f) \<or> is_root f) \<and> \<not> fact_settled e f)"

definition pending_inv :: "int \<Rightarrow> string set \<Rightarrow> engine \<Rightarrow> bool" where
  "pending_inv now P e \<longleftrightarrow>
     wf_engine e \<and>
     (\<forall>k js. jset_at e k = Some js \<longrightarrow> jset_fresh now e js \<or> (\<exists>p \<in> parents_of js. p \<in> P \<and> unsent e p)) \<and>
     (\<forall>k f. fact_at e k = Some f \<longrightarrow> k \<notin> P \<longrightarrow> fact_settled e f)"

definition settled :: "int \<Rightarrow> engine \<Rightarrow> bool" where
  "settled now e \<longleftrightarrow> pending_inv now {} e"

lemma settled_iff:
  "settled now e \<longleftrightarrow>
     wf_engine e \<and> (\<forall>k js. jset_at e k = Some js \<longrightarrow> jset_fresh now e js) \<and>
     (\<forall>k f. fact_at e k = Some f \<longrightarrow> fact_settled e f)"
  by (auto simp: settled_def pending_inv_def)

lemma pending_inv_mono: "pending_inv now P e \<Longrightarrow> P \<subseteq> Q \<Longrightarrow> pending_inv now Q e"
  unfolding pending_inv_def by blast

section \<open>Refreshes keep the graph\<close>

definition fact_core :: "fact \<Rightarrow> fact" where
  "fact_core f = f\<lparr>derived_status := 0, valid_justification_count := 0\<rparr>"

definition jset_core :: "jset \<Rightarrow> jset" where
  "jset_core js = js\<lparr>js_current := 0, js_confidence := 0\<rparr>"

definition graph_of ::
  "engine \<Rightarrow> (string \<times> fact) list \<times> (string \<times> jset) list \<times> (string \<times> string list) list \<times> (string \<times> string) list"
  where
  "graph_of e =
     (map (\<lambda>(k, f). (k, fact_core f)) (facts e), map (\<lambda>(k, j). (k, jset_core j)) (jsets e),
      children e, retracted_facts e)"

definition same_graph :: "engine \<Rightarrow> engine \<Rightarrow> bool" where
  "same_graph e e' \<longleftrightarrow> graph_of e = graph_of e'"

lemma same_graph_refl [simp]: "same_graph e e"
  by (simp add: same_graph_def)

lemma same_graph_trans: "same_graph e e' \<Longrightarrow> same_graph e' e'' \<Longrightarrow> same_graph e e''"
  by (simp add: same_graph_def)

lemma same_graph_sym: "same_graph e e' \<Longrightarrow> same_graph e' e"
  by (simp add: same_graph_def)

lemma map_update_core:
  "map_of al k = Some v \<Longrightarrow> g v' = g v \<Longrightarrow>
     map (\<lambda>(k, v). (k, g v)) (AList.update k v' al) = map (\<lambda>(k, v). (k, g v)) al"
  by (induction al) auto

lemma fact_core_update [simp]:
  "fact_core (f\<lparr>derived_status := s\<rparr>) = fact_core f"
  "fact_core (f\<lparr>valid_justification_count := n\<rparr>) = fact_core f"
  "fact_core (refresh_count e f) = fact_core f"
  by (simp_all add: fact_core_def refresh_count_def)

lemma jset_core_update [simp]:
  "jset_core (js\<lparr>js_current := n\<rparr>) = jset_core js"
  "jset_core (js\<lparr>js_confidence := c\<rparr>) = jset_core js"
  "jset_core (js\<lparr>js_current := n, js_confidence := c\<rparr>) = jset_core js"
  by (simp_all add: jset_core_def)

lemma same_graph_put_fact:
  "fact_at e k = Some f \<Longrightarrow> fact_core f' = fact_core f \<Longrightarrow> same_graph e (put_fact k f' e)"
  using map_update_core [of "facts e" k f fact_core f']
  by (simp add: same_graph_def graph_of_def put_fact_def)

lemma same_graph_put_jset:
  "jset_at e k = Some js \<Longrightarrow> jset_core js' = jset_core js \<Longrightarrow> same_graph e (put_jset k js' e)"
  using map_update_core [of "jsets e" k js jset_core js']
  by (simp add: same_graph_def graph_of_def put_jset_def)

lemma same_graph_notify [simp]: "same_graph e (notify now k s e)"
  by (simp add: same_graph_def graph_of_def)

lemma core_at:
  "map_of (map (\<lambda>(k, v). (k, g v)) al) k = map_option g (map_of al k)"
  by (induction al) auto

lemma same_graph_parts:
  assumes "same_graph e e'"
  shows "map (\<lambda>(k, f). (k, fact_core f)) (facts e) = map (\<lambda>(k, f). (k, fact_core f)) (facts e')"
    and "map (\<lambda>(k, j). (k, jset_core j)) (jsets e) = map (\<lambda>(k, j). (k, jset_core j)) (jsets e')"
    and "children e = children e'" and "retracted_facts e = retracted_facts e'"
  using assms by (simp_all only: same_graph_def graph_of_def prod.inject)

lemma same_graph_at:
  assumes "same_graph e e'"
  shows "map_option fact_core (fact_at e k) = map_option fact_core (fact_at e' k)"
    and "map_option jset_core (jset_at e k) = map_option jset_core (jset_at e' k)"
    and "child_sets e = child_sets e'" and "is_retracted e = is_retracted e'"
proof -
  show "map_option fact_core (fact_at e k) = map_option fact_core (fact_at e' k)"
    unfolding core_at [symmetric] same_graph_parts(1) [OF assms] ..
  show "map_option jset_core (jset_at e k) = map_option jset_core (jset_at e' k)"
    unfolding core_at [symmetric] same_graph_parts(2) [OF assms] ..
  show "child_sets e = child_sets e'" "is_retracted e = is_retracted e'"
    using same_graph_parts(3,4) [OF assms] by (auto simp: child_sets_def is_retracted_def)
qed

lemma map_fst_core: "map fst (map (\<lambda>(k, v). (k, g v)) al) = map fst al"
  by (simp add: case_prod_beta comp_def)

lemma same_graph_keys:
  assumes "same_graph e e'"
  shows "map fst (facts e) = map fst (facts e')" "map fst (jsets e) = map fst (jsets e')"
  using same_graph_parts(1,2) [OF assms, THEN arg_cong, of "map fst"] by (simp_all only: map_fst_core)

lemma fact_core_eq:
  assumes "fact_core f = fact_core f'"
  shows "fact_id f = fact_id f'" "is_root f = is_root f'" "sets_of f = sets_of f'"
    "manual_status f = manual_status f'" "assertion_kind f = assertion_kind f'"
    "metadata f = metadata f'" "asserted_at f = asserted_at f'" "valid_until f = valid_until f'"
    "justification_sets f = justification_sets f'" "payload f = payload f'"
  using assms [THEN arg_cong, of fact_id] assms [THEN arg_cong, of is_root]
    assms [THEN arg_cong, of manual_status] assms [THEN arg_cong, of assertion_kind]
    assms [THEN arg_cong, of metadata] assms [THEN arg_cong, of asserted_at]
    assms [THEN arg_cong, of valid_until] assms [THEN arg_cong, of justification_sets]
    assms [THEN arg_cong, of payload]
  by (simp_all add: fact_core_def sets_of_def)

lemma jset_core_eq:
  assumes "jset_core j = jset_core j'"
  shows "js_id j = js_id j'" "js_child j = js_child j'" "js_parents j = js_parents j'"
    "js_positive j = js_positive j'" "js_negative j = js_negative j'" "js_target j = js_target j'"
    "parents_of j = parents_of j'"
  using assms [THEN arg_cong, of js_id] assms [THEN arg_cong, of js_child]
    assms [THEN arg_cong, of js_parents] assms [THEN arg_cong, of js_positive]
    assms [THEN arg_cong, of js_negative] assms [THEN arg_cong, of js_target]
  by (simp_all add: jset_core_def parents_of_def)

lemma same_graph_fact:
  assumes "same_graph e e'" and "fact_at e k = Some f"
  obtains f' where "fact_at e' k = Some f'" and "fact_core f = fact_core f'"
  using same_graph_at(1) [OF assms(1), of k] assms(2) by (cases "fact_at e' k") auto

lemma same_graph_jset:
  assumes "same_graph e e'" and "jset_at e k = Some j"
  obtains j' where "jset_at e' k = Some j'" and "jset_core j = jset_core j'"
  using same_graph_at(2) [OF assms(1), of k] assms(2) by (cases "jset_at e' k") auto

lemma deps_core: "deps e = (\<Union>(k, js) \<in> set (map (\<lambda>(k, j). (k, jset_core j)) (jsets e)). parents_of js \<times> {js_child js})"
  by (force simp: deps_def jset_core_def parents_of_def)

lemma same_graph_deps: "same_graph e e' \<Longrightarrow> deps e = deps e'"
  by (simp add: deps_core same_graph_def graph_of_def)

lemma same_graph_jset_ok:
  assumes "same_graph e e'" and "jset_ok e k js" and "jset_core js = jset_core js'"
  shows "jset_ok e' k js'"
proof -
  note js = jset_core_eq [OF assms(3)]
  obtain f i where f: "fact_at e (js_child js) = Some f" "\<not> is_root f" "i < length (sets_of f)"
    "k = justification_set_id (js_child js) i" "js_id js = k"
    "split_dependency_set (sets_of f ! i) = Inr (js_positive js, js_negative js, js_parents js)"
    using assms(2) by (auto simp: jset_ok_def)
  obtain f' where f': "fact_at e' (js_child js) = Some f'" and c: "fact_core f = fact_core f'"
    by (rule same_graph_fact [OF assms(1) f(1)])
  have "fst ` set (facts e) = fst ` set (facts e')"
    using same_graph_keys(1) [OF assms(1)] by (metis set_map)
  then show ?thesis
    using assms(2) f f' fact_core_eq [OF c] js by (auto simp: jset_ok_def)
qed

lemma wf_same_graph:
  assumes "same_graph e e'" and "wf_engine e"
  shows "wf_engine e'"
  unfolding wf_engine_def
proof (intro conjI allI impI)
  note sym = same_graph_sym [OF assms(1)]
  show "distinct (map fst (facts e'))" "distinct (map fst (jsets e'))"
    using wf_fact_keys [OF assms(2)] wf_jset_keys [OF assms(2)] same_graph_keys [OF assms(1)] by simp_all
  show "acyclic (deps e')" using wf_acyclic [OF assms(2)] same_graph_deps [OF assms(1)] by simp
  show "fact_id f = k" if "fact_at e' k = Some f" for k f
    using same_graph_fact [OF sym that] wf_fact_id [OF assms(2)] fact_core_eq(1) by metis
  show "jset_ok e' k js" if "jset_at e' k = Some js" for k js
    using same_graph_jset [OF sym that] wf_jset [OF assms(2)] same_graph_jset_ok [OF assms(1)] by metis
  show "jset_at e' (justification_set_id k i) \<noteq> None"
    if f: "fact_at e' k = Some f" "\<not> is_root f" "i < length (sets_of f)" for k f i
  proof -
    obtain f0 where "fact_at e k = Some f0" "fact_core f = fact_core f0"
      by (rule same_graph_fact [OF sym f(1)])
    then have "jset_at e (justification_set_id k i) \<noteq> None"
      using wf_sets [OF assms(2)] f fact_core_eq by metis
    then show ?thesis using same_graph_at(2) [OF assms(1)] by (metis option.map_disc_iff)
  qed
  show "j \<in> set (child_sets e' p) \<longleftrightarrow> (\<exists>js. jset_at e' j = Some js \<and> p \<in> parents_of js)" for j p
  proof -
    have "(\<exists>js. jset_at e j = Some js \<and> p \<in> parents_of js) \<longleftrightarrow>
        (\<exists>js. jset_at e' j = Some js \<and> p \<in> parents_of js)"
      using same_graph_jset [OF assms(1)] same_graph_jset [OF sym] jset_core_eq(7) by metis
    then show ?thesis
      using wf_children [OF assms(2)] same_graph_at(3) [OF assms(1)] by simp
  qed
qed

section \<open>One refresh loop\<close>

lemma effective_status_cong:
  "fact_at e = fact_at e' \<Longrightarrow> is_retracted e = is_retracted e' \<Longrightarrow>
     effective_status now e fo = effective_status now e' fo"
  by (simp add: effective_status_def split: option.split)

lemma compute_parents_facts:
  assumes "facts e = facts e'" and "is_retracted e = is_retracted e'"
  shows "compute_parents now e js c = compute_parents now e' js c"
proof (rule compute_parents_cong)
  fix k
  show "parent_view now e k = parent_view now e' k"
    by (simp only: parent_view_def effective_status_def assms)
qed simp

lemma jset_fresh_facts:
  "facts e = facts e' \<Longrightarrow> is_retracted e = is_retracted e' \<Longrightarrow> jset_fresh now e js = jset_fresh now e' js"
  by (simp add: jset_fresh_def compute_parents_facts [of e e'])

definition refreshed :: "int \<Rightarrow> engine \<Rightarrow> jset \<Rightarrow> fact \<Rightarrow> jset" where
  "refreshed now e js c =
     js\<lparr>js_current := fst (compute_parents now e js c),
        js_confidence := jset_confidence js (compute_parents now e js c)\<rparr>"

lemma jset_core_refreshed [simp]: "jset_core (refreshed now e js c) = jset_core js"
  by (simp add: refreshed_def)

lemma refreshed_fresh: "fact_at e (js_child js) = Some c \<Longrightarrow> jset_fresh now e (refreshed now e js c)"
  unfolding jset_fresh_def refreshed_def
  by (auto simp: jset_confidence_def compute_parents_def)

lemma recompute_child_eq:
  assumes "jset_at e j = Some js" and "fact_at e (js_child js) = Some c"
  shows "recompute_child now j (e, q) =
    (put_jset j (refreshed now e js c) e,
     if js_current js \<noteq> js_current (refreshed now e js c) \<or>
        js_confidence js \<noteq> js_confidence (refreshed now e js c)
     then q @ [fact_id c] else q)"
  using assms by (simp add: recompute_child_def refreshed_def Let_def)

text \<open>What the loop over a list of set identifiers does, from state e to state e'.\<close>

definition refresh_post :: "int \<Rightarrow> engine \<Rightarrow> string set \<Rightarrow> engine \<Rightarrow> string set \<Rightarrow> bool" where
  "refresh_post now e J e' Q \<longleftrightarrow>
     same_graph e e' \<and> facts e' = facts e \<and> is_retracted e' = is_retracted e \<and>
     (\<forall>j. j \<notin> J \<longrightarrow> jset_at e' j = jset_at e j) \<and>
     (\<forall>j js. j \<in> J \<longrightarrow> jset_at e' j = Some js \<longrightarrow> jset_fresh now e js) \<and>
     (\<forall>j js js'. jset_at e j = Some js \<longrightarrow> jset_at e' j = Some js' \<longrightarrow>
        js_confidence js \<noteq> js_confidence js' \<longrightarrow> js_child js \<in> Q) \<and>
     Q \<subseteq> {js_child js | j js. j \<in> J \<and> jset_at e j = Some js}"

lemma refresh_post_empty: "refresh_post now e {} e {}"
  by (simp add: refresh_post_def)

lemma refresh_post_step:
  assumes wf: "wf_engine e" and post: "refresh_post now e J e' (set q)"
    and step: "recompute_child now j (e', q) = (e'', q')"
  shows "refresh_post now e (insert j J) e'' (set q')"
proof (cases "jset_at e' j")
  case None
  then have "e'' = e'" "q' = q" using step by (simp_all add: recompute_child_def)
  then show ?thesis using post None unfolding refresh_post_def by auto blast
next
  case (Some js1)
  have P: "same_graph e e'" "facts e' = facts e" "is_retracted e' = is_retracted e"
    using post by (simp_all add: refresh_post_def)
  have wf': "wf_engine e'" by (rule wf_same_graph [OF P(1) wf])
  then obtain c where c: "fact_at e' (js_child js1) = Some c"
    using wf_jset [OF wf' Some] by (auto simp: jset_ok_def)
  have cid: "fact_id c = js_child js1" by (rule wf_fact_id [OF wf' c])
  let ?js2 = "refreshed now e' js1 c"
  have e'': "e'' = put_jset j ?js2 e'"
    and q': "set q \<subseteq> set q'" "set q' \<subseteq> insert (js_child js1) (set q)"
    and chg: "js_confidence js1 \<noteq> js_confidence ?js2 \<Longrightarrow> js_child js1 \<in> set q'"
    using step recompute_child_eq [OF Some c, of now q] cid by (auto split: if_splits)
  obtain js where js: "jset_at e j = Some js" and core: "jset_core js = jset_core js1"
    using same_graph_jset [OF same_graph_sym [OF P(1)] Some] by metis
  have child: "js_child js = js_child js1" by (rule jset_core_eq(2) [OF core])
  have fresh: "jset_fresh now e ?js2"
    using refreshed_fresh [OF c] jset_fresh_facts [OF P(2,3)] by simp
  have "same_graph e e''"
    using same_graph_trans [OF P(1) same_graph_put_jset [OF Some]] e'' by simp
  moreover have "js_child a \<in> set q'"
    if "jset_at e i = Some a" "jset_at e'' i = Some b" "js_confidence a \<noteq> js_confidence b" for i a b
  proof (cases "i = j")
    case True
    then have ab: "a = js" "b = ?js2" using that js e'' by auto
    show ?thesis
    proof (cases "js_confidence js1 = js_confidence ?js2")
      case same: True
      then have "js_confidence js \<noteq> js_confidence js1" using ab that(3) by simp
      then show ?thesis using post js Some q'(1) ab(1) unfolding refresh_post_def by blast
    next
      case False
      then show ?thesis using chg child ab(1) by simp
    qed
  next
    case False
    then show ?thesis using that post e'' q'(1) by (auto simp: refresh_post_def)
  qed
  moreover have "set q' \<subseteq> {js_child a | i a. i \<in> insert j J \<and> jset_at e i = Some a}" (is "_ \<subseteq> ?R")
  proof -
    have "set q \<subseteq> {js_child a | i a. i \<in> J \<and> jset_at e i = Some a}"
      using post by (simp add: refresh_post_def)
    also have "\<dots> \<subseteq> ?R" by auto
    finally have "set q \<subseteq> ?R" .
    moreover have "js_child js1 \<in> ?R" using js child [symmetric] by auto
    ultimately show ?thesis using q'(2) by (meson insert_subset subset_trans)
  qed
  ultimately show ?thesis
    using post P e'' fresh unfolding refresh_post_def by auto
qed

lemma refresh_post_fold:
  assumes "wf_engine e"
  shows "refresh_post now e J e' (set q) \<Longrightarrow> fold (recompute_child now) L (e', q) = (e'', q') \<Longrightarrow>
    refresh_post now e (J \<union> set L) e'' (set q')"
proof (induction L arbitrary: J e' q)
  case (Cons j L)
  obtain e1 q1 where s: "recompute_child now j (e', q) = (e1, q1)" by fastforce
  have "refresh_post now e (insert j J) e1 (set q1)"
    by (rule refresh_post_step [OF assms Cons.prems(1) s])
  from Cons.IH [OF this] show ?case using Cons.prems(2) s by simp
qed simp

lemma recompute_in_post:
  assumes "wf_engine e" and "recompute_in now L e = (e', q)"
  shows "refresh_post now e (set L) e' (set q)"
  using refresh_post_fold [OF assms(1), of now "{}" e "[]" L e' q] assms(2)
  by (simp add: recompute_in_def refresh_post_empty)

section \<open>One step of the work queue\<close>

lemma effective_put_derived:
  assumes "fact_core g = fact_core f" and "derived_status g = derived_status f"
  shows "effective_status now e (Some g) = effective_status now e (Some f)"
  using assms(2) fact_core_eq [OF assms(1)]
  by (simp add: effective_status_def expired_at_def)

lemma effective_engine_cong:
  "is_retracted e = is_retracted e' \<Longrightarrow> effective_status now e fo = effective_status now e' fo"
  by (simp add: effective_status_def split: option.split)

text \<open>Replacing one fact, up to its computed fields, changes no set that fact is not a parent of.\<close>

lemma compute_parents_put_fact:
  assumes f: "fact_at e k = Some f" and core: "fact_core g = fact_core f"
    and sep: "k \<notin> parents_of js \<or> derived_status g = derived_status f"
    and child: "same_child c d"
  shows "compute_parents now (put_fact k g e) js c = compute_parents now e js d"
proof (rule compute_parents_cong [OF _ child])
  fix p assume "p \<in> parents_of js"
  show "parent_view now (put_fact k g e) p = parent_view now e p"
  proof (cases "p = k")
    case True
    with sep \<open>p \<in> parents_of js\<close> have "derived_status g = derived_status f" by simp
    then show ?thesis
      using True f fact_core_eq [OF core] grounding_view_of_metadata [of g f]
      by (simp add: parent_view_def effective_status_def expired_at_def)
  next
    case False
    then show ?thesis by (simp add: parent_view_def effective_status_def split: option.split)
  qed
qed

lemma jset_fresh_put_fact:
  assumes f: "fact_at e k = Some f" and core: "fact_core g = fact_core f"
    and sep: "k \<notin> parents_of js \<or> derived_status g = derived_status f"
  shows "jset_fresh now (put_fact k g e) js = jset_fresh now e js"
proof -
  have same: "same_child g f" using fact_core_eq [OF core] by (intro same_childI)
  have "compute_parents now (put_fact k g e) js g = compute_parents now e js f"
    by (rule compute_parents_put_fact [OF f core sep same])
  moreover have "compute_parents now (put_fact k g e) js c = compute_parents now e js c" for c
    by (rule compute_parents_put_fact [OF f core sep]) simp
  ultimately show ?thesis using f by (auto simp: jset_fresh_def)
qed

lemma tally_set_confidence:
  "tally_set e f i acc =
     (case map_option js_confidence (jset_at e (justification_set_id (fact_id f) i)) of
        None \<Rightarrow> acc
      | Some c \<Rightarrow> if c \<ge> ConfidenceThreshold then (Suc (fst acc), if c > snd acc then c else snd acc) else acc)"
  by (simp add: tally_set_def split: option.split)

lemma tally_sets_cong:
  assumes "\<And>i. i < length (sets_of f) \<Longrightarrow>
      map_option js_confidence (jset_at e (justification_set_id (fact_id f) i)) =
      map_option js_confidence (jset_at e' (justification_set_id (fact_id f) i))"
    and "fact_id f = fact_id g" and "sets_of f = sets_of g"
  shows "tally_sets e f = tally_sets e' g"
proof -
  have "tally_set e f i acc = tally_set e' g i acc" if "i < length (sets_of f)" for i acc
    by (simp only: tally_set_confidence assms(1) [OF that] assms(2) [symmetric])
  then show ?thesis
    unfolding tally_sets_def assms(3) [symmetric] by (intro fold_cong refl ext) simp_all
qed

lemma target_status_cong:
  assumes "is_retracted e = is_retracted e'" and "fact_core f = fact_core g"
    and "\<And>i. i < length (sets_of f) \<Longrightarrow>
      map_option js_confidence (jset_at e (justification_set_id (fact_id f) i)) =
      map_option js_confidence (jset_at e' (justification_set_id (fact_id f) i))"
  shows "target_status e f = target_status e' g"
  using tally_sets_cong [OF assms(3)] fact_core_eq [OF assms(2)] assms(1)
  by (simp add: target_status_def)

lemma target_status_put [simp]: "target_status (put_fact k g e) f = target_status e f"
  by (rule target_status_cong) (simp_all add: fun_eq_iff)

lemma unsent_put_fact:
  "p \<noteq> k \<Longrightarrow> unsent (put_fact k g e) p = unsent e p"
  by (simp add: unsent_def fact_settled_def)

text \<open>A processed fact whose status does not change.\<close>

lemma propagate_same_inv:
  assumes inv: "pending_inv now (insert k P) e" and at: "fact_at e k = Some f"
    and same: "target_status e f = derived_status f"
  shows "pending_inv now P (put_fact k (refresh_count e f) e)" (is "pending_inv now P ?e'")
proof -
  let ?f1 = "refresh_count e f"
  have d: "derived_status ?f1 = derived_status f" by (simp add: refresh_count_def)
  have g: "same_graph e ?e'" by (rule same_graph_put_fact [OF at]) simp
  have wf: "wf_engine ?e'" using inv by (intro wf_same_graph [OF g]) (simp add: pending_inv_def)
  have fresh: "jset_fresh now ?e' js = jset_fresh now e js" for js
    by (rule jset_fresh_put_fact [OF at]) (simp_all add: d)
  have un: "\<not> unsent e k" using at same by (simp add: unsent_def fact_settled_def)
  have "fact_settled ?e' h" if "fact_at ?e' i = Some h" "i \<notin> P" for i h
  proof (cases "i = k")
    case True
    then have "h = ?f1" using that by simp
    moreover have "target_status e ?f1 = target_status e f" by (rule target_status_cong) simp_all
    ultimately show ?thesis using same d by (simp add: fact_settled_def)
  next
    case False
    then show ?thesis using that inv by (auto simp: pending_inv_def fact_settled_def)
  qed
  moreover have "jset_fresh now ?e' js \<or> (\<exists>p \<in> parents_of js. p \<in> P \<and> unsent ?e' p)"
    if "jset_at ?e' j = Some js" for j js
  proof -
    have "jset_at e j = Some js" using that by simp
    then consider "jset_fresh now e js" | p where "p \<in> parents_of js" "p \<in> insert k P" "unsent e p"
      using inv unfolding pending_inv_def by blast
    then show ?thesis
    proof cases
      case 2
      then have "p \<noteq> k" using un by blast
      then show ?thesis using 2 unsent_put_fact by blast
    qed (simp add: fresh)
  qed
  ultimately show ?thesis using wf by (simp add: pending_inv_def)
qed

text \<open>A processed fact whose status changes: its sets have been refreshed from state e1.\<close>

lemma refresh_post_notify:
  "refresh_post now (notify now i s e) J e' Q \<longleftrightarrow> refresh_post now e J e' Q"
proof -
  have "same_graph (notify now i s e) e' = same_graph e e'"
    by (simp add: same_graph_def graph_of_def)
  moreover have "jset_fresh now (notify now i s e) js = jset_fresh now e js" for js
    by (rule jset_fresh_facts) (simp_all add: fun_eq_iff)
  moreover have "is_retracted (notify now i s e) = is_retracted e" by (simp add: fun_eq_iff)
  ultimately show ?thesis by (simp add: refresh_post_def)
qed

lemma refresh_post_deps:
  assumes "wf_engine e" and "refresh_post now e (set (child_sets e k)) e' Q"
  shows "Q \<subseteq> {c. (k, c) \<in> deps e}"
proof
  fix c assume "c \<in> Q"
  then obtain j js where j: "j \<in> set (child_sets e k)" "jset_at e j = Some js" "c = js_child js"
    using assms(2) by (auto simp: refresh_post_def)
  then have "k \<in> parents_of js" using wf_children [OF assms(1)] by auto
  then show "c \<in> {c. (k, c) \<in> deps e}" using j deps_at by simp
qed

lemma refresh_excuse:
  assumes inv: "pending_inv now (insert k P) e" and at: "fact_at e k = Some f"
    and core: "fact_core g = fact_core f"
    and post: "refresh_post now (put_fact k g e) (set (child_sets e k)) e' Q"
    and j: "jset_at e' j = Some js"
  shows "jset_fresh now e' js \<or> (\<exists>p \<in> parents_of js. p \<in> P \<and> unsent e' p)"
proof -
  let ?e1 = "put_fact k g e"
  have wf: "wf_engine e" using inv by (simp add: pending_inv_def)
  have fe: "facts e' = facts ?e1" and ret: "is_retracted e' = is_retracted ?e1"
    using post by (simp_all add: refresh_post_def)
  have fresh1: "jset_fresh now e' js = jset_fresh now ?e1 js" by (rule jset_fresh_facts [OF fe ret])
  show ?thesis
  proof (cases "j \<in> set (child_sets e k)")
    case True
    then show ?thesis using post j fresh1 by (simp add: refresh_post_def)
  next
    case False
    then have je: "jset_at e j = Some js" using post j by (simp add: refresh_post_def)
    then have np: "k \<notin> parents_of js" using False wf_children [OF wf] by blast
    have fr: "jset_fresh now e' js = jset_fresh now e js"
      unfolding fresh1 by (rule jset_fresh_put_fact [OF at core]) (simp add: np)
    consider "jset_fresh now e js" | p where "p \<in> parents_of js" "p \<in> insert k P" "unsent e p"
      using inv je unfolding pending_inv_def by blast
    then show ?thesis
    proof cases
      case 2
      then have pk: "p \<noteq> k" using np by blast
      then obtain h where h: "fact_at e p = Some h" "is_retracted e (fact_id h) \<or> is_root h"
        "\<not> fact_settled e h" using 2(3) by (auto simp: unsent_def)
      have r: "is_retracted e' i = is_retracted e i" for i using ret by simp
      have "target_status e' h = target_status e h" using h(2) r by (auto simp: target_status_def)
      then have "unsent e' p" using h pk fe r by (simp add: unsent_def fact_settled_def)
      then show ?thesis using 2 pk by blast
    qed (simp add: fr)
  qed
qed

lemma refresh_confidence_kept:
  assumes wf: "wf_engine e" and post: "refresh_post now e J e' Q" and out: "i \<notin> Q"
  shows "map_option js_confidence (jset_at e' (justification_set_id i n)) =
    map_option js_confidence (jset_at e (justification_set_id i n))"
proof -
  have g: "same_graph e e'" using post by (simp add: refresh_post_def)
  show ?thesis
  proof (cases "jset_at e (justification_set_id i n)")
    case None
    then show ?thesis using same_graph_at(2) [OF g, of "justification_set_id i n"] by simp
  next
    case (Some a)
    then obtain b where b: "jset_at e' (justification_set_id i n) = Some b"
      using same_graph_jset [OF g] by metis
    have "js_child a = i"
      using wf_jset [OF wf Some] by (auto simp: jset_ok_def justification_set_id_inject)
    then have "js_confidence a = js_confidence b"
      using post Some b out unfolding refresh_post_def by blast
    then show ?thesis using Some b by simp
  qed
qed

lemma refresh_settled:
  assumes inv: "pending_inv now (insert k P) e" and at: "fact_at e k = Some f"
    and core: "fact_core g = fact_core f" and new: "derived_status g = target_status e f"
    and post: "refresh_post now (put_fact k g e) (set (child_sets e k)) e' Q"
    and h: "fact_at e' i = Some h" "i \<notin> P \<union> Q"
  shows "fact_settled e' h"
proof -
  let ?e1 = "put_fact k g e"
  have wf: "wf_engine e" using inv by (simp add: pending_inv_def)
  have wf1: "wf_engine ?e1" by (rule wf_same_graph [OF same_graph_put_fact [OF at core] wf])
  have g3: "same_graph ?e1 e'" and fe: "facts e' = facts ?e1" and ret: "is_retracted e' = is_retracted ?e1"
    using post by (simp_all add: refresh_post_def)
  have hid: "fact_id h = i" by (rule wf_fact_id [OF wf_same_graph [OF g3 wf1] h(1)])
  have conf: "map_option js_confidence (jset_at e' (justification_set_id i n)) =
      map_option js_confidence (jset_at e (justification_set_id i n))" for n
    using refresh_confidence_kept [OF wf1 post] h(2) by simp
  have tgt: "target_status e' h = target_status e h0" if "fact_core h = fact_core h0" for h0
    by (rule target_status_cong) (simp_all add: that hid conf ret fun_eq_iff)
  show ?thesis
  proof (cases "i = k")
    case True
    then have "h = g" using h(1) fe by simp
    then show ?thesis using tgt [of f] core new by (simp add: fact_settled_def)
  next
    case False
    then have "fact_at e i = Some h" using h(1) fe by simp
    then have "fact_settled e h" using inv h(2) False unfolding pending_inv_def by blast
    then show ?thesis using tgt [of h] by (simp add: fact_settled_def)
  qed
qed

lemma propagate_in_inv:
  assumes inv: "pending_inv now (insert k P) e" and step: "propagate_in now L k e = (e', q)"
    and ord: "set L = set (child_sets e k)"
  shows "pending_inv now (P \<union> set q) e' \<and> same_graph e e' \<and> set q \<subseteq> {c. (k, c) \<in> deps e}"
proof (cases "fact_at e k")
  case None
  then have "pending_inv now P e"
    using inv unfolding pending_inv_def unsent_def by (metis insertE option.distinct(1))
  then show ?thesis using None step by (simp add: propagate_in_def)
next
  case (Some f)
  have wf: "wf_engine e" using inv by (simp add: pending_inv_def)
  let ?st = "target_status e f"
  let ?g = "(refresh_count e f)\<lparr>derived_status := ?st\<rparr>"
  let ?e2 = "notify now (fact_id f) ?st (put_fact k ?g e)"
  show ?thesis
  proof (cases "?st = derived_status f")
    case True
    then have "e' = put_fact k (refresh_count e f) e" "q = []"
      using step Some by (simp_all add: propagate_in_def Let_def)
    then show ?thesis
      using propagate_same_inv [OF inv Some True] same_graph_put_fact [OF Some, of "refresh_count e f"] by simp
  next
    case False
    have rc: "recompute_in now L ?e2 = (e', q)"
      using step Some False by (simp add: propagate_in_def Let_def)
    have g1: "same_graph e (put_fact k ?g e)" by (rule same_graph_put_fact [OF Some]) simp
    have wf1: "wf_engine (put_fact k ?g e)" by (rule wf_same_graph [OF g1 wf])
    have "wf_engine ?e2" by (rule wf_same_graph [OF same_graph_notify wf1])
    from recompute_in_post [OF this rc]
    have post: "refresh_post now (put_fact k ?g e) (set (child_sets e k)) e' (set q)"
      by (simp add: refresh_post_notify ord)
    have g: "same_graph e e'" using post g1 same_graph_trans by (auto simp: refresh_post_def)
    have "set q \<subseteq> {c. (k, c) \<in> deps (put_fact k ?g e)}"
      using refresh_post_deps [OF wf1, of now k e' "set q"] post by simp
    then have "set q \<subseteq> {c. (k, c) \<in> deps e}" using same_graph_deps [OF g1] by simp
    moreover have "pending_inv now (P \<union> set q) e'"
      unfolding pending_inv_def
    proof (intro conjI allI impI)
      show "wf_engine e'" by (rule wf_same_graph [OF g wf])
      show "jset_fresh now e' js \<or> (\<exists>p \<in> parents_of js. p \<in> P \<union> set q \<and> unsent e' p)"
        if "jset_at e' j = Some js" for j js
        using refresh_excuse [OF inv Some _ post that] by auto
      show "fact_settled e' h" if "fact_at e' i = Some h" "i \<notin> P \<union> set q" for i h
        using refresh_settled [OF inv Some _ _ post that] by simp
    qed
    ultimately show ?thesis using g by simp
  qed
qed

section \<open>The work queue\<close>

text \<open>
  A step of the loop for an arbitrary iteration order over the child sets; the executable
  propagate takes the order of the list that stands for the map.
\<close>

inductive work_step :: "int \<Rightarrow> engine \<times> string list \<Rightarrow> engine \<times> string list \<Rightarrow> bool" for now where
  work: "set order = set (child_sets e k) \<Longrightarrow> propagate_in now order k e = (e', new) \<Longrightarrow>
    work_step now (e, k # rest) (e', rest @ new)"

inductive_cases work_step_cases: "work_step now (e, q) (e', q')"

inductive_simps work_step_empty: "work_step now (e, []) s"

lemma work_step_inv:
  assumes "work_step now (e, q) (e', q')" and "pending_inv now (P \<union> set q) e"
  shows "pending_inv now (P \<union> set q') e' \<and> same_graph e e'"
proof -
  obtain order k rest new where w: "q = k # rest" "q' = rest @ new"
    "set order = set (child_sets e k)" "propagate_in now order k e = (e', new)"
    using assms(1) by (auto elim: work_step_cases)
  have "pending_inv now (insert k (P \<union> set rest)) e" using assms(2) w(1) by (simp add: insert_commute)
  from propagate_in_inv [OF this w(4,3)] show ?thesis using w(2) by (simp add: Un_assoc)
qed

definition queue_heights :: "engine \<Rightarrow> string list \<Rightarrow> nat multiset" where
  "queue_heights e q = image_mset (height (deps e)) (mset q)"

lemma work_step_decreases:
  assumes "work_step now (e, q) (e', q')" and "pending_inv now (P \<union> set q) e"
  shows "(queue_heights e' q', queue_heights e q) \<in> mult less_than"
proof -
  obtain order k rest new where w: "q = k # rest" "q' = rest @ new"
    "set order = set (child_sets e k)" "propagate_in now order k e = (e', new)"
    using assms(1) by (auto elim: work_step_cases)
  let ?h = "height (deps e)"
  have inv: "pending_inv now (insert k (P \<union> set rest)) e"
    using assms(2) w(1) by (simp add: insert_commute)
  note step = propagate_in_inv [OF inv w(4,3)]
  have "acyclic (deps e)" using inv wf_acyclic by (auto simp: pending_inv_def)
  then have "\<forall>c \<in> set new. ?h c < ?h k"
    using step height_less [OF finite_deps] by blast
  then have "(image_mset ?h (mset rest) + image_mset ?h (mset new),
      image_mset ?h (mset rest) + {#?h k#}) \<in> mult less_than"
    by (intro one_step_implies_mult) auto
  moreover have "deps e' = deps e" using step same_graph_deps by blast
  ultimately show ?thesis using w by (simp add: queue_heights_def)
qed

text \<open>The loop returns, with every pending item of its queue worked off.\<close>

lemma propagate_total:
  assumes "pending_inv now (P \<union> set q) e"
  shows "\<exists>e'. propagate now e q = Some e' \<and> pending_inv now P e' \<and> same_graph e e'"
  using assms
proof (induction "queue_heights e q" arbitrary: e q rule: wf_induct_rule [OF wf_mult [OF wf_less_than]])
  case 1
  show ?case
  proof (cases q)
    case Nil
    then show ?thesis using 1(2) by simp
  next
    case (Cons k rest)
    obtain e1 new where s: "propagate_one now k e = (e1, new)" by fastforce
    have step: "work_step now (e, q) (e1, rest @ new)"
      unfolding Cons by (rule work [OF refl]) (use s in \<open>simp add: propagate_one_def\<close>)
    have g: "pending_inv now (P \<union> set (rest @ new)) e1" "same_graph e e1"
      using work_step_inv [OF step 1(2)] by simp_all
    from 1(1) [OF work_step_decreases [OF step 1(2)] g(1)] obtain e'
      where e': "propagate now e1 (rest @ new) = Some e'" "pending_inv now P e'" "same_graph e1 e'" by blast
    moreover have "propagate now e q = Some e'" unfolding Cons by (simp add: propagate_Cons s e')
    ultimately show ?thesis using same_graph_trans [OF g(2)] by blast
  qed
qed

lemma propagateE:
  assumes "pending_inv now (P \<union> set q) e"
  obtains e' where "propagate now e q = Some e'" and "pending_inv now P e'" and "same_graph e e'"
  using propagate_total [OF assms] by blast

text \<open>No run of the loop is infinite, whatever the iteration orders.\<close>

lemma work_terminates:
  assumes "pending_inv now (P \<union> set q) e"
  shows "\<not> (\<exists>run. run 0 = (e, q) \<and> (\<forall>n. work_step now (run n) (run (Suc n))))"
proof
  assume "\<exists>run. run 0 = (e, q) \<and> (\<forall>n. work_step now (run n) (run (Suc n)))"
  then obtain run where r: "run 0 = (e, q)" "\<And>n. work_step now (run n) (run (Suc n))" by blast
  have inv: "pending_inv now (P \<union> set (snd (run n))) (fst (run n))" for n
  proof (induction n)
    case (Suc n)
    have "work_step now (fst (run n), snd (run n)) (fst (run (Suc n)), snd (run (Suc n)))" using r(2) by simp
    from work_step_inv [OF this Suc] show ?case by simp
  qed (simp add: r assms)
  have "(queue_heights (fst (run (Suc n))) (snd (run (Suc n))), queue_heights (fst (run n)) (snd (run n)))
      \<in> mult less_than" for n
    using work_step_decreases [OF _ inv, of n "fst (run (Suc n))" "snd (run (Suc n))"] r(2) by simp
  then have "\<exists>f. \<forall>n. (f (Suc n), f n) \<in> mult less_than"
    by (intro exI [of _ "\<lambda>n. queue_heights (fst (run n)) (snd (run n))"]) simp
  then show False using wf_mult [OF wf_less_than] wf_iff_no_infinite_down_chain by blast
qed

section \<open>A settled labelling is unique\<close>

lemma parent_view_same:
  assumes ret: "is_retracted a = is_retracted b"
    and der: "map_option derived_status (fact_at a p) = map_option derived_status (fact_at b p)"
    and core: "map_option fact_core (fact_at a p) = map_option fact_core (fact_at b p)"
  shows "parent_view now a p = parent_view now b p"
proof (cases "fact_at a p")
  case None
  then show ?thesis using der by (simp add: parent_view_def)
next
  case (Some f)
  then obtain g where g: "fact_at b p = Some g" using der by (cases "fact_at b p") auto
  have c: "fact_core f = fact_core g" and d: "derived_status f = derived_status g"
    using core der Some g by simp_all
  show ?thesis
    using grounding_view_of_metadata [of f g]
    by (simp add: parent_view_def effective_status_def expired_at_def Some g ret d fact_core_eq [OF c])
qed

lemma target_status_same:
  assumes "settled now a" "settled now b" "same_graph a b"
    and f: "fact_at a k = Some f" and g: "fact_at b k = Some g"
    and parents: "\<And>p. (p, k) \<in> deps a \<Longrightarrow>
      map_option derived_status (fact_at a p) = map_option derived_status (fact_at b p)"
  shows "target_status a f = target_status b g"
proof -
  have wf: "wf_engine a" and fresh: "\<And>j js. jset_at a j = Some js \<Longrightarrow> jset_fresh now a js"
    "\<And>j js. jset_at b j = Some js \<Longrightarrow> jset_fresh now b js"
    using assms(1,2) by (auto simp: settled_iff)
  have core: "fact_core f = fact_core g" using same_graph_at(1) [OF assms(3), of k] f g by simp
  have fid: "fact_id f = k" by (rule wf_fact_id [OF wf f])
  have conf: "js_confidence x = js_confidence y"
    if x: "jset_at a j = Some x" and y: "jset_at b j = Some y" and child: "js_child x = k" for j x y
  proof -
    have xy: "jset_core x = jset_core y" using same_graph_at(2) [OF assms(3), of j] x y by simp
    have "parent_view now a p = parent_view now b p" if "p \<in> parents_of x" for p
    proof -
      have "map_option derived_status (fact_at a p) = map_option derived_status (fact_at b p)"
        using parents deps_at [OF x that] child by simp
      moreover have "map_option fact_core (fact_at a p) = map_option fact_core (fact_at b p)"
        by (rule same_graph_at(1) [OF assms(3)])
      ultimately show ?thesis by (rule parent_view_same [OF same_graph_at(4) [OF assms(3)]])
    qed
    moreover have "same_child f g" using fact_core_eq [OF core] by (intro same_childI)
    ultimately have "compute_parents now a x f = compute_parents now b x g"
      by (rule compute_parents_cong)
    also have "\<dots> = compute_parents now b y g"
      using jset_core_eq [OF xy] by (intro compute_parents_jset) simp_all
    finally have "compute_parents now a x f = compute_parents now b y g" .
    then show ?thesis
      using fresh(1) [OF x] fresh(2) [OF y] f g child jset_core_eq [OF xy]
      by (simp add: jset_fresh_def jset_confidence_def)
  qed
  show ?thesis
  proof (rule target_status_cong [OF same_graph_at(4) [OF assms(3)] core])
    fix i
    let ?j = "justification_set_id (fact_id f) i"
    show "map_option js_confidence (jset_at a ?j) = map_option js_confidence (jset_at b ?j)"
    proof (cases "jset_at a ?j")
      case None
      then show ?thesis using same_graph_at(2) [OF assms(3), of ?j] by simp
    next
      case (Some x)
      then obtain y where y: "jset_at b ?j = Some y" using same_graph_jset [OF assms(3)] by metis
      have "js_child x = k"
        using wf_jset [OF wf Some] fid by (auto simp: jset_ok_def justification_set_id_inject)
      then show ?thesis using conf [OF Some y] Some y by simp
    qed
  qed
qed

lemma settled_unique:
  assumes "settled now a" "settled now b" "same_graph a b"
  shows "map_option derived_status (fact_at a k) = map_option derived_status (fact_at b k)"
proof -
  have "wf (deps a)"
    using assms(1) by (intro finite_acyclic_wf finite_deps) (auto simp: settled_iff wf_acyclic)
  then show ?thesis
  proof (induction k rule: wf_induct_rule)
    case (less k)
    show ?case
    proof (cases "fact_at a k")
      case None
      then show ?thesis using same_graph_at(1) [OF assms(3), of k] by simp
    next
      case (Some f)
      then obtain g where g: "fact_at b k = Some g" using same_graph_fact [OF assms(3)] by metis
      have "target_status a f = target_status b g"
        by (rule target_status_same [OF assms Some g less])
      then show ?thesis
        using Some g assms(1,2) by (simp add: settled_iff fact_settled_def)
    qed
  qed
qed

end
