(* ===== verification/Cycles.thy ===== *)
theory Cycles
imports Propagation
begin

text \<open>
  core/cycles.go: the depth-first search for a dependency path and the cycle check built on it.
  The search is proved sound (a reported path is a path) and complete (no report means that
  there is none), with its termination by the set of unvisited nodes.
\<close>

section \<open>The search\<close>

definition succs :: "engine \<Rightarrow> string \<Rightarrow> string list" where
  "succs e u = concat (map (\<lambda>j. case jset_at e j of None \<Rightarrow> [] | Some js \<Rightarrow> [js_child js]) (child_sets e u))"

text \<open>
  The loop of reachable over the successors: the first call that finds a path wins, and the
  visited set is shared by all calls. The call for one node is the loop over that node alone.
\<close>

function reach_list ::
  "engine \<Rightarrow> string list \<Rightarrow> string \<Rightarrow> string list \<Rightarrow> string list option \<times> string list" where
  "reach_list e [] t vis = (None, vis)"
| "reach_list e (u # us) t vis =
     (if u = t then (Some [t], vis)
      else if u \<in> set vis then reach_list e us t vis
      else (case reach_list e (succs e u) t (u # vis) of
              (Some p, v) \<Rightarrow> (Some (u # p), v)
            | (None, v) \<Rightarrow> reach_list e us t v))"
  by pat_completeness auto

lemma reach_list_visited: "reach_list_dom (e, us, t, vis) \<Longrightarrow> set vis \<subseteq> set (snd (reach_list e us t vis))"
proof (induction e us t vis rule: reach_list.pinduct)
  case (2 e u us t vis)
  then show ?case
    by (cases "reach_list e (succs e u) t (u # vis)")
      (auto simp: reach_list.psimps split: option.split)
qed (simp add: reach_list.psimps)

definition graph_nodes :: "engine \<Rightarrow> string set" where
  "graph_nodes e = fst ` set (children e)"

lemma succs_outside: "u \<notin> graph_nodes e \<Longrightarrow> succs e u = []"
  by (simp add: succs_def child_sets_def graph_nodes_def map_of_eq_None_iff [THEN iffD2])

termination reach_list
proof (relation "inv_image (finite_psubset <*lex*> less_than) (\<lambda>(e, us, t, vis). (graph_nodes e - set vis, length us))",
    goal_cases)
  case 1
  then show ?case by (intro wf_inv_image wf_lex_prod) auto
next
  case (2 e u us t vis)
  then show ?case by simp
next
  case (3 e u us t vis)
  then show ?case
    by (cases "u \<in> graph_nodes e") (auto simp: finite_psubset_def graph_nodes_def succs_outside)
next
  case (4 e u us t vis x v)
  then have "set vis \<subseteq> set v"
    using reach_list_visited [OF 4(5)] by (metis 4(3) dual_order.trans set_subset_Cons snd_conv)
  then show ?case by (auto simp: finite_psubset_def graph_nodes_def)
qed

declare reach_list.simps [simp del]

definition reachable :: "engine \<Rightarrow> string \<Rightarrow> string \<Rightarrow> string list \<Rightarrow> string list option \<times> string list" where
  "reachable e from target visited = reach_list e [from] target visited"

section \<open>Soundness and completeness\<close>

definition edges :: "engine \<Rightarrow> (string \<times> string) set" where
  "edges e = {(u, c). c \<in> set (succs e u)}"

lemma succs_iff: "c \<in> set (succs e u) \<longleftrightarrow> (\<exists>j js. j \<in> set (child_sets e u) \<and> jset_at e j = Some js \<and> c = js_child js)"
  by (force simp: succs_def split: option.splits)

lemma edges_deps: "wf_engine e \<Longrightarrow> edges e = deps e"
proof (rule set_eqI, clarify)
  fix u c assume wf: "wf_engine e"
  show "(u, c) \<in> edges e \<longleftrightarrow> (u, c) \<in> deps e"
  proof
    assume "(u, c) \<in> edges e"
    then obtain j js where "j \<in> set (child_sets e u)" "jset_at e j = Some js" "c = js_child js"
      by (auto simp: edges_def succs_iff)
    then show "(u, c) \<in> deps e" using wf_children [OF wf] deps_at by fastforce
  next
    assume "(u, c) \<in> deps e"
    then obtain k js where "jset_at e k = Some js" "u \<in> parents_of js" "c = js_child js"
      by (rule deps_cases [OF wf])
    then show "(u, c) \<in> edges e" using wf_children [OF wf] by (auto simp: edges_def succs_iff)
  qed
qed

fun is_path :: "engine \<Rightarrow> string list \<Rightarrow> bool" where
  "is_path e [] \<longleftrightarrow> False"
| "is_path e [u] \<longleftrightarrow> True"
| "is_path e (u # v # p) \<longleftrightarrow> v \<in> set (succs e u) \<and> is_path e (v # p)"

lemma is_path_rtrancl: "is_path e p \<Longrightarrow> (hd p, last p) \<in> (edges e)\<^sup>*"
proof (induction e p rule: is_path.induct)
  case (3 e u v p)
  then have "(v, last (v # p)) \<in> (edges e)\<^sup>*" by simp
  moreover have "(u, v) \<in> edges e" using 3 by (simp add: edges_def)
  ultimately show ?case by (simp add: converse_rtrancl_into_rtrancl)
qed auto

lemma reach_list_sound:
  "reach_list e us t vis = (Some p, v) \<Longrightarrow> is_path e p \<and> hd p \<in> set us \<and> last p = t"
proof (induction e us t vis arbitrary: p v rule: reach_list.induct)
  case (2 e u us t vis)
  consider "u = t" | "u \<noteq> t" "u \<in> set vis" | "u \<noteq> t" "u \<notin> set vis" by blast
  then show ?case
  proof cases
    case 3
    obtain r v1 where r: "reach_list e (succs e u) t (u # vis) = (r, v1)" by fastforce
    show ?thesis
    proof (cases r)
      case None
      then have "reach_list e us t v1 = (Some p, v)"
        using 2(4) 3 r by (simp add: reach_list.simps)
      from 2(3) [OF 3 r [symmetric] None this] show ?thesis by auto
    next
      case (Some q)
      then have p: "p = u # q" using 2(4) 3 r by (simp add: reach_list.simps)
      have q: "is_path e q \<and> hd q \<in> set (succs e u) \<and> last q = t" using 2(2) [OF 3] r Some by simp
      then obtain w q' where "q = w # q'" by (cases q) auto
      then show ?thesis using q p by simp
    qed
  qed (use 2 in \<open>auto simp: reach_list.simps\<close>)
qed (simp add: reach_list.simps)

lemma reach_list_closed:
  "reach_list e us t vis = (None, v) \<Longrightarrow> t \<notin> set vis \<Longrightarrow>
     set us \<union> set vis \<subseteq> set v \<and> t \<notin> set v \<and> (\<forall>x \<in> set v - set vis. set (succs e x) \<subseteq> set v)"
proof (induction e us t vis arbitrary: v rule: reach_list.induct)
  case (2 e u us t vis)
  have ne: "u \<noteq> t" using 2(4) by (auto simp: reach_list.simps)
  show ?case
  proof (cases "u \<in> set vis")
    case True
    then show ?thesis using 2(1) [OF ne True] 2(4,5) ne by (auto simp: reach_list.simps)
  next
    case new: False
    obtain r v1 where r: "reach_list e (succs e u) t (u # vis) = (r, v1)" by fastforce
    have none: "r = None" and rest: "reach_list e us t v1 = (None, v)"
      using 2(4) ne new r by (auto simp: reach_list.simps split: option.splits)
    have a: "set (succs e u) \<union> set (u # vis) \<subseteq> set v1" "t \<notin> set v1"
      "\<And>x. x \<in> set v1 - set (u # vis) \<Longrightarrow> set (succs e x) \<subseteq> set v1"
      using 2(2) [OF ne new] r none 2(5) ne by auto
    have b: "set us \<union> set v1 \<subseteq> set v" "t \<notin> set v" "\<And>x. x \<in> set v - set v1 \<Longrightarrow> set (succs e x) \<subseteq> set v"
      using 2(3) [OF ne new r [symmetric] none rest a(2)] by auto
    have "set (succs e x) \<subseteq> set v" if "x \<in> set v - set vis" for x
    proof (cases "x \<in> set v1")
      case True
      then have "set (succs e x) \<subseteq> set v1" using a that by (cases "x = u") auto
      then show ?thesis using b(1) by auto
    qed (use b(3) that in auto)
    then show ?thesis using a b by auto
  qed
qed (simp add: reach_list.simps)

lemma reachable_complete:
  assumes "reachable e u t [] = (None, v)"
  shows "(u, t) \<notin> (edges e)\<^sup>*"
proof
  have c: "u \<in> set v" "t \<notin> set v" "\<And>x. x \<in> set v \<Longrightarrow> set (succs e x) \<subseteq> set v"
    using reach_list_closed [of e "[u]" t "[]" v] assms by (auto simp: reachable_def)
  assume "(u, t) \<in> (edges e)\<^sup>*"
  then have "t \<in> set v"
    by (induction rule: rtrancl_induct) (use c in \<open>auto simp: edges_def\<close>)
  then show False using c(2) by simp
qed

lemma reachable_iff: "fst (reachable e u t []) \<noteq> None \<longleftrightarrow> (u, t) \<in> (edges e)\<^sup>*"
proof (cases "reachable e u t []")
  case (Pair r v)
  show ?thesis
  proof (cases r)
    case None
    then show ?thesis using Pair reachable_complete by simp
  next
    case (Some p)
    then have "is_path e p" "hd p = u" "last p = t"
      using reach_list_sound [of e "[u]" t "[]" p v] Pair by (auto simp: reachable_def)
    then show ?thesis using is_path_rtrancl Pair Some by fastforce
  qed
qed

lemma reachable_None_iff: "fst (reachable e u t []) = None \<longleftrightarrow> (u, t) \<notin> (edges e)\<^sup>*"
  using reachable_iff by blast

section \<open>The cycle check\<close>

fun detect_tokens :: "engine \<Rightarrow> bool \<Rightarrow> string \<Rightarrow> string list \<Rightarrow> core_error option" where
  "detect_tokens e existing new_id [] = None"
| "detect_tokens e existing new_id (token # rest) =
     (case normalize_dependency_token token of
        Inl err \<Rightarrow> Some err
      | Inr parent_id \<Rightarrow>
         if existing
         then (case fst (reachable e new_id parent_id []) of
                 Some path \<Rightarrow> Some (CycleError (path @ [new_id]))
               | None \<Rightarrow> detect_tokens e existing new_id rest)
         else (case fst (reachable e parent_id new_id []) of
                 Some path \<Rightarrow> Some (CycleError ([new_id] @ path))
               | None \<Rightarrow> detect_tokens e existing new_id rest))"

text \<open>The nested loops run over the sets in order, and over the tokens of each.\<close>

definition detect_cycle :: "engine \<Rightarrow> fact option \<Rightarrow> core_error option" where
  "detect_cycle e fo =
     (case fo of None \<Rightarrow> Some (NilArgument ''fact'')
      | Some f \<Rightarrow> detect_tokens e (fact_at e (fact_id f) \<noteq> None) (fact_id f) (concat (sets_of f)))"

lemma detect_tokens_None:
  "detect_tokens e existing n ts = None \<longleftrightarrow>
     (\<forall>t \<in> set ts. \<exists>p. normalize_dependency_token t = Inr p \<and>
        (if existing then (n, p) else (p, n)) \<notin> (edges e)\<^sup>*)"
proof (induction ts)
  case (Cons t ts)
  show ?case
  proof (cases "normalize_dependency_token t")
    case (Inr p)
    let ?r = "fst (if existing then reachable e n p [] else reachable e p n [])"
    have "?r = None \<longleftrightarrow> (if existing then (n, p) else (p, n)) \<notin> (edges e)\<^sup>*"
      by (simp add: reachable_None_iff)
    then show ?thesis using Inr Cons.IH by (cases ?r) (auto split: if_splits)
  qed simp
qed simp

lemma detect_tokens_path:
  "detect_tokens e existing n ts = Some (CycleError path) \<Longrightarrow>
     \<exists>p \<in> named_by ts.
       if existing then \<exists>q. path = q @ [n] \<and> is_path e q \<and> hd q = n \<and> last q = p
       else \<exists>q. path = n # q \<and> is_path e q \<and> hd q = p \<and> last q = n"
proof (induction ts)
  case (Cons t ts)
  show ?case
  proof (cases "normalize_dependency_token t")
    case (Inl err)
    then have "err = CycleError path" using Cons.prems by simp
    then show ?thesis
      using Inl by (auto simp: normalize_dependency_token_def parse_dependency_ref_def Let_def
          split: sum.splits if_splits)
  next
    case (Inr p)
    let ?r = "fst (if existing then reachable e n p [] else reachable e p n [])"
    show ?thesis
    proof (cases ?r)
      case None
      then have "detect_tokens e existing n ts = Some (CycleError path)"
        using Cons.prems Inr by (auto split: if_splits)
      then show ?thesis using Cons.IH by (auto simp: named_by_def)
    next
      case (Some q)
      then have "path = (if existing then q @ [n] else n # q)" using Cons.prems Inr by (auto split: if_splits)
      moreover have "is_path e q \<and> hd q = (if existing then n else p) \<and> last q = (if existing then p else n)"
        using Some reach_list_sound [of e "[n]" p "[]" q] reach_list_sound [of e "[p]" n "[]" q]
        by (auto simp: reachable_def prod_eq_iff split: if_splits)
      moreover have "p \<in> named_by (t # ts)" using Inr by (auto simp: named_by_def)
      ultimately show ?thesis by auto
    qed
  qed
qed simp

end
