(* ===== verification/EngineOps.thy ===== *)
theory EngineOps
imports Cycles
begin

text \<open>
  The operations of the engine that change state: AssertFact, InvalidateRoot,
  SetRootConfidence, RetractFact, SweepExpiredFacts (engine.go), SetFactVerification
  (verification.go) and SetFactReview (governance.go), with the read access GetFact and
  ListFacts. The outer option of a result is None where propagation does not return; the sum
  holds the error the method reports.
\<close>

section \<open>Asserting a fact\<close>

fun check_tokens :: "engine \<Rightarrow> string list \<Rightarrow> core_error option" where
  "check_tokens e [] = None"
| "check_tokens e (token # rest) =
     (case normalize_dependency_token token of
        Inl err \<Rightarrow> Some err
      | Inr pid \<Rightarrow> if fact_at e pid = None then Some (UnknownParent pid) else check_tokens e rest)"

fun check_sets :: "engine \<Rightarrow> string list list \<Rightarrow> core_error option" where
  "check_sets e [] = None"
| "check_sets e (ts # rest) =
     (if ts = [] then Some EmptyJustificationSet
      else (case check_tokens e ts of Some err \<Rightarrow> Some err | None \<Rightarrow> check_sets e rest))"

definition same_content :: "fact \<Rightarrow> fact \<Rightarrow> bool" where
  "same_content a b \<longleftrightarrow>
     is_root a = is_root b \<and> manual_status a = manual_status b \<and>
     deep_equal_obj (payload a) (payload b) \<and> justification_sets a = justification_sets b"

text \<open>
  Validation stamps the asserted time into the caller's fact once the cap is passed; it answers
  whether the assertion is a no-op.
\<close>

definition stamp_asserted :: "int \<Rightarrow> fact \<Rightarrow> fact" where
  "stamp_asserted now f = (if asserted_at f = 0 then f\<lparr>asserted_at := now\<rparr> else f)"

definition validate_assert_fact :: "int \<Rightarrow> engine \<Rightarrow> fact \<Rightarrow> fact \<times> (core_error + bool)" where
  "validate_assert_fact now e f0 =
     (if int (length (facts e)) \<ge> MaxFactsPerSession then (f0, Inl SessionCapExceeded)
      else (let f = stamp_asserted now f0
            in (f,
                case fact_at e (fact_id f) of
                  Some old \<Rightarrow> if same_content old f then Inr True else Inl AlreadyExistsDifferent
                | None \<Rightarrow>
                   if \<not> is_root f \<and> sets_of f = [] then Inl NoJustificationSet
                   else (case check_sets e (sets_of f) of
                           Some err \<Rightarrow> Inl err
                         | None \<Rightarrow> (case detect_cycle e (Some f) of
                                     Some err \<Rightarrow> Inl err | None \<Rightarrow> Inr False)))))"

definition register_fact :: "fact \<Rightarrow> engine \<Rightarrow> engine" where
  "register_fact f e =
     (put_fact (fact_id f) f e)\<lparr>dirty_dominators := True, mutation_count := mutation_count e + 1\<rparr>"

definition initialize_root_fact :: "int \<Rightarrow> fact \<Rightarrow> engine \<Rightarrow> engine option" where
  "initialize_root_fact now f e =
     (let e1 = put_fact (fact_id f) (f\<lparr>derived_status := manual_status f\<rparr>) e;
          e2 = (if manual_status f < ConfidenceThreshold
                then e1\<lparr>collapsed_roots := set_insert (fact_id f) (collapsed_roots e1)\<rparr> else e1)
      in propagate now (notify now (fact_id f) (manual_status f) e2) [fact_id f])"

definition add_child_index :: "string \<Rightarrow> string \<Rightarrow> engine \<Rightarrow> engine" where
  "add_child_index jid pid e =
     e\<lparr>children := AList.update pid (set_insert jid (child_sets e pid)) (children e)\<rparr>"

definition index_parent :: "string \<Rightarrow> string \<Rightarrow> engine \<Rightarrow> engine" where
  "index_parent jid pid e = (if fact_at e pid = None then e else add_child_index jid pid e)"

text \<open>
  A new justification set: its parents are indexed, its counters computed, and the child's
  count of valid sets raised when every parent is satisfied. The fact is read from the map
  entry that shares its pointer.
\<close>

definition new_justification_set ::
  "int \<Rightarrow> fact \<Rightarrow> nat \<Rightarrow> string list \<Rightarrow> engine \<Rightarrow> core_error + engine \<times> jset" where
  "new_justification_set now f index tokens e =
     (case split_dependency_set tokens of
        Inl err \<Rightarrow> Inl err
      | Inr (pos, neg, all) \<Rightarrow>
         (let jid = justification_set_id (fact_id f) index;
              js = \<lparr>js_id = jid, js_child = fact_id f, js_parents = all, js_positive = pos,
                    js_negative = neg, js_target = length pos + length neg, js_current = 0,
                    js_confidence = Invalid, js_idom = []\<rparr>;
              e1 = fold (index_parent jid) neg (fold (index_parent jid) pos e);
              vm = compute_parents now e1 js f;
              js1 = js\<lparr>js_current := fst vm\<rparr>
          in if fst vm = js_target js
             then Inr (put_fact (fact_id f)
                         (f\<lparr>valid_justification_count := Suc (valid_justification_count f)\<rparr>) e1,
                       js1\<lparr>js_confidence := snd vm\<rparr>)
             else Inr (e1, js1)))"

text \<open>The loop over the declared sets; an error leaves the state as it is by then.\<close>

fun initialize_sets ::
  "int \<Rightarrow> string \<Rightarrow> nat \<Rightarrow> string list list \<Rightarrow> engine \<Rightarrow> core_error option \<times> engine" where
  "initialize_sets now fid i [] e = (None, e)"
| "initialize_sets now fid i (ts # rest) e =
     (case fact_at e fid of
        None \<Rightarrow> (None, e)
      | Some f \<Rightarrow>
         (case new_justification_set now f i ts e of
            Inl err \<Rightarrow> (Some err, e)
          | Inr (e1, js) \<Rightarrow> initialize_sets now fid (Suc i) rest (put_jset (js_id js) js e1)))"

definition initialize_derived_fact :: "int \<Rightarrow> fact \<Rightarrow> engine \<Rightarrow> (core_error + engine) option" where
  "initialize_derived_fact now f e =
     (let e1 = put_fact (fact_id f) (f\<lparr>derived_status := Invalid, valid_justification_count := 0\<rparr>) e
      in case initialize_sets now (fact_id f) 0 (sets_of f) e1 of
           (Some err, _) \<Rightarrow> Some (Inl err)
         | (None, e2) \<Rightarrow> map_option Inr (propagate now e2 [fact_id f]))"

definition assert_fact :: "int \<Rightarrow> fact option \<Rightarrow> engine \<Rightarrow> (core_error + engine) option" where
  "assert_fact now fo e =
     (case fo of None \<Rightarrow> Some (Inl (NilArgument ''fact''))
      | Some f0 \<Rightarrow>
         (case validate_assert_fact now e f0 of
            (_, Inl err) \<Rightarrow> Some (Inl err)
          | (_, Inr True) \<Rightarrow> Some (Inr e)
          | (f, Inr False) \<Rightarrow>
             if is_root f then map_option Inr (initialize_root_fact now f (register_fact f e))
             else initialize_derived_fact now f (register_fact f e)))"

text \<open>
  What the caller's fact holds afterwards: the stored fact when the pointer was registered, the
  stamped argument otherwise.
\<close>

definition asserted_view :: "int \<Rightarrow> fact \<Rightarrow> engine \<Rightarrow> engine \<Rightarrow> fact" where
  "asserted_view now f0 e e' =
     (case validate_assert_fact now e f0 of
        (f, Inr False) \<Rightarrow> (case fact_at e' (fact_id f) of Some g \<Rightarrow> g | None \<Rightarrow> f)
      | (f, _) \<Rightarrow> f)"

section \<open>Roots, retractions and expiry\<close>

definition bump :: "engine \<Rightarrow> engine" where
  "bump e = e\<lparr>mutation_count := mutation_count e + 1\<rparr>"

definition invalidate_root :: "int \<Rightarrow> string \<Rightarrow> engine \<Rightarrow> (core_error + engine) option" where
  "invalidate_root now fid e =
     (case fact_at e fid of
        None \<Rightarrow> Some (Inl FactNotFound)
      | Some f \<Rightarrow>
         if \<not> is_root f then Some (Inl CannotInvalidateNonRoot)
         else if manual_status f = Invalid then Some (Inr e)
         else (let e1 = put_fact fid (f\<lparr>manual_status := Invalid\<rparr>) e;
                   e2 = e1\<lparr>collapsed_roots := set_insert fid (collapsed_roots e1)\<rparr>
               in map_option Inr (propagate now (bump e2) [fid])))"

definition set_root_confidence :: "int \<Rightarrow> string \<Rightarrow> status \<Rightarrow> engine \<Rightarrow> (core_error + engine) option" where
  "set_root_confidence now fid conf e =
     (case fact_at e fid of
        None \<Rightarrow> Some (Inl FactNotFound)
      | Some f \<Rightarrow>
         if \<not> is_root f then Some (Inl OnlyRootConfidence)
         else if manual_status f = conf then Some (Inr e)
         else (let e1 = put_fact fid (f\<lparr>manual_status := conf\<rparr>) e;
                   e2 = e1\<lparr>collapsed_roots :=
                            (if conf < ConfidenceThreshold then set_insert fid (collapsed_roots e1)
                             else removeAll fid (collapsed_roots e1))\<rparr>
               in map_option Inr (propagate now (bump e2) [fid])))"

definition put_retracted :: "string \<Rightarrow> string \<Rightarrow> engine \<Rightarrow> engine" where
  "put_retracted fid reason e = e\<lparr>retracted_facts := AList.update fid reason (retracted_facts e)\<rparr>"

definition retract_fact :: "int \<Rightarrow> string \<Rightarrow> string \<Rightarrow> engine \<Rightarrow> (core_error + engine) option" where
  "retract_fact now fid reason0 e =
     (if fact_at e fid = None then Some (Inl FactNotFound)
      else (let reason = (if reason0 = [] then ''retracted'' else reason0)
            in if map_of (retracted_facts e) fid = Some reason then Some (Inr e)
               else map_option Inr (propagate now (bump (put_retracted fid reason e)) [fid])))"

text \<open>The scan of SweepExpiredFacts: the facts it newly retracts, in the order it meets them.\<close>

definition sweep_step :: "int \<Rightarrow> string \<times> fact \<Rightarrow> engine \<times> string list \<Rightarrow> engine \<times> string list" where
  "sweep_step now kf s =
     (let (e, expired) = s; f = snd kf
      in if valid_until f = 0 then s
         else if now \<le> valid_until f then s
         else if is_retracted e (fact_id f) then s
         else (put_retracted (fact_id f) ''expired'' e, expired @ [fact_id f]))"

fun propagate_each :: "int \<Rightarrow> engine \<Rightarrow> string list \<Rightarrow> engine option" where
  "propagate_each now e [] = Some e"
| "propagate_each now e (k # ks) =
     (case propagate now e [k] of None \<Rightarrow> None | Some e' \<Rightarrow> propagate_each now e' ks)"

definition sweep_expired_facts :: "int \<Rightarrow> engine \<Rightarrow> (engine \<times> string list) option" where
  "sweep_expired_facts now e =
     (case fold (sweep_step now) (facts e) (e, []) of
        (e1, expired) \<Rightarrow>
          if expired = [] then Some (e1, expired)
          else map_option (\<lambda>e2. (e2, expired)) (propagate_each now (bump e1) expired))"

section \<open>Verification and review\<close>

definition put_unless_blank :: "string \<Rightarrow> string \<Rightarrow> gobj \<Rightarrow> gobj" where
  "put_unless_blank key v m = (if trim_space v \<noteq> [] then obj_put key (GStr (trim_space v)) m else m)"

definition verification_metadata ::
  "string \<Rightarrow> string \<Rightarrow> string \<Rightarrow> string \<Rightarrow> int \<Rightarrow> gobj \<Rightarrow> gobj" where
  "verification_metadata st method source_ref reason verified_at m =
     (let m1 = obj_put ''verification_status'' (GStr st) m;
          m2 = put_unless_blank ''verification_method'' method m1;
          m3 = put_unless_blank ''verification_source_ref'' source_ref m2;
          m4 = put_unless_blank ''verification_reason'' reason m3;
          m5 = obj_put ''verified_at'' (GInt verified_at) m4
      in if st = VerificationVerified then obj_put ''requires_verification'' (GBool False) m5 else m5)"

definition set_fact_verification ::
  "int \<Rightarrow> string \<Rightarrow> string \<Rightarrow> string \<Rightarrow> string \<Rightarrow> string \<Rightarrow> int \<Rightarrow> engine \<Rightarrow> (core_error + engine) option" where
  "set_fact_verification now fid st0 method source_ref reason verified_at0 e =
     (case fact_at e fid of
        None \<Rightarrow> Some (Inl FactNotFound)
      | Some f \<Rightarrow>
         (let st = normalize_verification_status st0;
              verified_at = (if verified_at0 = 0 then now else verified_at0)
          in if st = [] then Some (Inl InvalidVerificationStatus)
             else (let f' = f\<lparr>metadata :=
                               verification_metadata st method source_ref reason verified_at (metadata f)\<rparr>;
                       (e1, queue) = recompute_children now fid (bump (put_fact fid f' e))
                   in if queue = [] then Some (Inr e1) else map_option Inr (propagate now e1 queue))))"

definition set_fact_review ::
  "int \<Rightarrow> string \<Rightarrow> string \<Rightarrow> string \<Rightarrow> int \<Rightarrow> engine \<Rightarrow> core_error + engine" where
  "set_fact_review now fid st0 reason reviewed_at0 e =
     (case fact_at e fid of
        None \<Rightarrow> Inl FactNotFound
      | Some f \<Rightarrow>
         (let st = normalize_review_status st0;
              stamp = (if reviewed_at0 = 0 then now else reviewed_at0)
          in if st = [] then Inl InvalidReviewStatus
             else if normalize_review_status (review_status f) = st then Inr e
             else (let m1 = obj_put ''review_status'' (GStr st) (metadata f);
                       m2 = obj_put ''review_reason'' (GStr (trim_space reason)) m1;
                       m3 = obj_put ''reviewed_at'' (GInt stamp) m2;
                       m4 = (if st = ReviewApproved \<or> st = ReviewWaived
                             then obj_put ''requires_human_review'' (GBool False) m3 else m3)
                   in Inr (bump (put_fact fid
                        (f\<lparr>review_status := st, review_reason := trim_space reason, reviewed_at := stamp,
                           metadata := m4\<rparr>) e)))))"

section \<open>Reading\<close>

definition get_fact :: "engine \<Rightarrow> string \<Rightarrow> fact option" where
  "get_fact e fid = map_option clone_fact (fact_at e fid)"

definition list_facts :: "engine \<Rightarrow> fact list" where
  "list_facts e = map (clone_fact \<circ> snd) (facts e)"

lemma get_fact_eq [simp]: "get_fact e fid = fact_at e fid"
  by (cases "fact_at e fid") (simp_all add: get_fact_def)

end
