(* ===== verification/EngineInv.thy ===== *)
theory EngineInv
imports EngineOps
begin

text \<open>
  Every operation of the engine keeps the settled state: it prepares a state in which only the
  fact it touched is pending, and propagation works that off. Stated for the clock reading of
  the operation; SweepExpiredFacts also carries a settled state over from an earlier reading.
\<close>

section \<open>Fields that do not matter\<close>

lemma wf_engine_frame:
  assumes "facts e = facts e'" "jsets e = jsets e'" "children e = children e'"
  shows "wf_engine e = wf_engine e'"
  unfolding wf_engine_def jset_ok_def deps_def child_sets_def assms ..

lemma target_status_frame:
  "jsets e = jsets e' \<Longrightarrow> is_retracted e = is_retracted e' \<Longrightarrow> target_status e f = target_status e' f"
  by (rule target_status_cong) simp_all

lemma pending_inv_frame:
  assumes "facts e = facts e'" "jsets e = jsets e'" "children e = children e'"
    and "is_retracted e = is_retracted e'"
  shows "pending_inv now P e = pending_inv now P e'"
proof -
  have f: "fact_settled e f = fact_settled e' f" for f
    using target_status_frame [OF assms(2,4)] by (simp add: fact_settled_def)
  have u: "unsent e k = unsent e' k" for k
    using f assms by (simp add: unsent_def)
  have j: "jset_fresh now e js = jset_fresh now e' js" for js
    by (rule jset_fresh_facts [OF assms(1,4)])
  show ?thesis
    unfolding pending_inv_def f u j wf_engine_frame [OF assms(1-3)] assms(1,2) ..
qed

lemma bump_frame [simp, frame]:
  "facts (bump e) = facts e" "jsets (bump e) = jsets e" "children (bump e) = children e"
  "retracted_facts (bump e) = retracted_facts e" "is_retracted (bump e) i = is_retracted e i"
  "collapsed_roots (bump e) = collapsed_roots e" "child_sets (bump e) = child_sets e"
  "mutation_count (bump e) = mutation_count e + 1"
  by (simp_all add: bump_def is_retracted_def child_sets_def fun_eq_iff)

lemma pending_inv_bump [simp]: "pending_inv now P (bump e) = pending_inv now P e"
  by (rule pending_inv_frame) (simp_all add: fun_eq_iff)

lemma pending_inv_collapsed [simp]:
  "pending_inv now P (e\<lparr>collapsed_roots := c\<rparr>) = pending_inv now P e"
  by (rule pending_inv_frame) (simp_all add: is_retracted_def fun_eq_iff)

lemma pending_inv_notify [simp]: "pending_inv now P (notify t k s e) = pending_inv now P e"
  by (rule pending_inv_frame) (simp_all add: fun_eq_iff)

lemma pending_inv_dirty [simp]:
  "pending_inv now P (e\<lparr>dirty_dominators := d\<rparr>) = pending_inv now P e"
  by (rule pending_inv_frame) (simp_all add: is_retracted_def fun_eq_iff)

section \<open>Changing one fact\<close>

text \<open>What the graph needs of a fact: its identifier, its kind and its declared sets.\<close>

definition same_shape :: "fact \<Rightarrow> fact \<Rightarrow> bool" where
  "same_shape f g \<longleftrightarrow> fact_id f = fact_id g \<and> is_root f = is_root g \<and> sets_of f = sets_of g"

lemma keys_put_same: "fact_at e k \<noteq> None \<Longrightarrow> map fst (facts (put_fact k g e)) = map fst (facts e)"
  unfolding put_fact_def by (simp add: update_keys_same)

lemma wf_put_fact:
  assumes wf: "wf_engine e" and at: "fact_at e k = Some f" and shape: "same_shape f g"
  shows "wf_engine (put_fact k g e)" (is "wf_engine ?e")
proof -
  have sh: "fact_id g = fact_id f" "is_root g = is_root f" "sets_of g = sets_of f"
    using shape by (simp_all add: same_shape_def)
  have keys: "map fst (facts ?e) = map fst (facts e)" using at by (intro keys_put_same) simp
  then have kset: "fst ` set (facts ?e) = fst ` set (facts e)" by (metis set_map)
  have ok: "jset_ok ?e j js" if old: "jset_ok e j js" for j js
  proof -
    obtain h i where h: "fact_at e (js_child js) = Some h" "\<not> is_root h" "i < length (sets_of h)"
      "j = justification_set_id (js_child js) i" "js_id js = j"
      "split_dependency_set (sets_of h ! i) = Inr (js_positive js, js_negative js, js_parents js)"
      using old unfolding jset_ok_def by blast
    let ?h = "if js_child js = k then g else h"
    have "fact_at ?e (js_child js) = Some ?h" using h(1) by simp
    moreover have "is_root ?h = is_root h" "sets_of ?h = sets_of h" using h(1) at sh by auto
    ultimately show ?thesis using old h kset unfolding jset_ok_def by metis
  qed
  have fid: "fact_id h = i" if "fact_at ?e i = Some h" for i h
    using that wf_fact_id [OF wf] at sh by (auto split: if_splits)
  have sets: "jset_at ?e (justification_set_id i n) \<noteq> None"
    if "fact_at ?e i = Some h" "\<not> is_root h" "n < length (sets_of h)" for i h n
    using that wf_sets [OF wf] at sh by (auto split: if_splits)
  have d: "deps ?e = deps e" by (simp add: deps_def)
  show ?thesis
    unfolding wf_engine_def d put_fact_frame
    using wf_fact_keys [OF wf] wf_jset_keys [OF wf] wf_children [OF wf] wf_acyclic [OF wf]
      wf_jset [OF wf] ok fid sets keys by auto
qed

text \<open>
  A settled state stays settled but for one fact when that fact's children either see no change
  or are excused by its unsent status.
\<close>

lemma pending_put_fact:
  assumes inv: "settled now e" and at: "fact_at e k = Some f" and shape: "same_shape f g"
    and child: "same_child g f"
    and seen: "parent_view now (put_fact k g e) k = parent_view now e k \<or> unsent (put_fact k g e) k"
  shows "pending_inv now {k} (put_fact k g e)" (is "pending_inv now {k} ?e")
  unfolding pending_inv_def
proof (intro conjI allI impI)
  have s: "wf_engine e" "\<And>j js. jset_at e j = Some js \<Longrightarrow> jset_fresh now e js"
    "\<And>i h. fact_at e i = Some h \<Longrightarrow> fact_settled e h"
    using inv by (auto simp: settled_iff)
  show "wf_engine ?e" by (rule wf_put_fact [OF s(1) at shape])
  show "fact_settled ?e h" if "fact_at ?e i = Some h" "i \<notin> {k}" for i h
    using that s(3) by (simp add: fact_settled_def)
  show "jset_fresh now ?e js \<or> (\<exists>p \<in> parents_of js. p \<in> {k} \<and> unsent ?e p)"
    if j: "jset_at ?e j = Some js" for j js
  proof (cases "k \<in> parents_of js \<and> unsent ?e k")
    case False
    have view: "parent_view now ?e p = parent_view now e p" if "p \<in> parents_of js" for p
    proof (cases "p = k")
      case True
      then show ?thesis using seen False that by blast
    next
      case False
      then show ?thesis by (simp add: parent_view_def effective_status_def split: option.split)
    qed
    have "compute_parents now ?e js g = compute_parents now e js f"
      by (rule compute_parents_cong [OF view child])
    moreover have "compute_parents now ?e js c = compute_parents now e js c" for c
      by (rule compute_parents_cong [OF view same_child_refl])
    moreover have "jset_fresh now e js" using j s(2) by simp
    ultimately show ?thesis using at by (auto simp: jset_fresh_def)
  qed blast
qed

lemma settled_derived_root:
  assumes "settled now e" "fact_at e k = Some f"
  shows "derived_status f =
    (if is_retracted e k then Invalid else if is_root f then manual_status f else snd (tally_sets e f))"
  using assms wf_fact_id [of e k f] by (simp add: settled_iff fact_settled_def target_status_def)

text \<open>A new manual status of a root.\<close>

lemma pending_manual:
  assumes inv: "settled now e" and at: "fact_at e k = Some f" and root: "is_root f"
  shows "pending_inv now {k} (put_fact k (f\<lparr>manual_status := m\<rparr>) e)"
proof (rule pending_put_fact [OF inv at])
  let ?g = "f\<lparr>manual_status := m\<rparr>"
  have fid: "fact_id f = k" using inv at wf_fact_id by (auto simp: settled_iff)
  have d: "derived_status f = (if is_retracted e k then Invalid else manual_status f)"
    using settled_derived_root [OF inv at] root by simp
  show "same_shape f ?g" by (simp add: same_shape_def)
  show "same_child ?g f" by (rule same_childI) simp_all
  show "parent_view now (put_fact k ?g e) k = parent_view now e k \<or> unsent (put_fact k ?g e) k"
  proof (cases "is_retracted e k \<or> m = manual_status f")
    case True
    then show ?thesis
      using at fid root grounding_view_of_metadata [of ?g f]
      by (auto simp: parent_view_def effective_status_def expired_at_def)
  next
    case False
    then show ?thesis
      using d root fid by (simp add: unsent_def fact_settled_def target_status_def)
  qed
qed

section \<open>Retracting facts\<close>

lemma put_retracted_frame [simp, frame]:
  "facts (put_retracted k r e) = facts e" "jsets (put_retracted k r e) = jsets e"
  "children (put_retracted k r e) = children e" "child_sets (put_retracted k r e) = child_sets e"
  "is_retracted (put_retracted k r e) i \<longleftrightarrow> i = k \<or> is_retracted e i"
  "collapsed_roots (put_retracted k r e) = collapsed_roots e"
  "mutation_count (put_retracted k r e) = mutation_count e"
  by (simp_all add: put_retracted_def is_retracted_def child_sets_def fun_eq_iff)

text \<open>
  The general case, which the expiry sweep needs: state e was settled at the clock reading t0,
  the facts of X are newly retracted in e', and at the reading now no other fact has expired.
  No fact imposes an age limit, whose verdict would drift with the clock.
\<close>

definition ageless :: "engine \<Rightarrow> bool" where
  "ageless e \<longleftrightarrow>
     (\<forall>k f. fact_at e k = Some f \<longrightarrow> int64_from_metadata (metadata f) ''grounding_max_age_seconds'' \<le> 0)"

lemma satisfied_ageless:
  assumes "int64_from_metadata (metadata c) ''grounding_max_age_seconds'' \<le> 0"
  shows "dependency_satisfied now (Some p) s neg (Some c) = dependency_satisfied t (Some p) s neg (Some c)"
  using assms by (simp add: dependency_satisfied_def grounding_view grounding_ok_def child_view_def)

lemma compute_parents_clock:
  assumes same: "facts e' = facts e"
    and view: "\<And>k. k \<in> parents_of js \<Longrightarrow> parent_view now e' k = parent_view t e k"
    and free: "now = t \<or> int64_from_metadata (metadata c) ''grounding_max_age_seconds'' \<le> 0"
  shows "compute_parents now e' js c = compute_parents t e js c"
proof -
  have step: "parent_step now e' c neg k acc = parent_step t e c neg k acc" if "k \<in> parents_of js" for neg k acc
  proof (cases "fact_at e k")
    case (Some p)
    have "effective_status now e' (Some p) = effective_status t e (Some p)"
      using view [OF that] Some same by (simp add: parent_view_def)
    then show ?thesis
      using Some same free satisfied_ageless [of c now p _ neg t] by (auto simp: parent_step_def)
  qed (simp add: parent_step_def same)
  have "fold (parent_step now e' c n) ks acc = fold (parent_step t e c n) ks acc"
    if "set ks \<subseteq> parents_of js" for n ks acc
    using that by (intro fold_cong refl ext step) auto
  then show ?thesis by (simp add: compute_parents_def parents_of_def)
qed

lemma pending_retracted:
  assumes inv: "settled t e" and clock: "now = t \<or> ageless e"
    and facts: "facts e' = facts e" "jsets e' = jsets e" "children e' = children e"
    and ret: "\<And>k. is_retracted e' k \<longleftrightarrow> k \<in> X \<or> is_retracted e k"
    and exp: "\<And>k f. fact_at e k = Some f \<Longrightarrow> \<not> is_retracted e' k \<Longrightarrow> expired_at now f = expired_at t f"
  shows "pending_inv now X e'"
  unfolding pending_inv_def
proof (intro conjI allI impI)
  have s: "wf_engine e" "\<And>j js. jset_at e j = Some js \<Longrightarrow> jset_fresh t e js"
    "\<And>i h. fact_at e i = Some h \<Longrightarrow> fact_settled e h"
    using inv by (auto simp: settled_iff)
  show "wf_engine e'" using s(1) wf_engine_frame [OF facts] by simp
  have fid: "fact_id f = k" if "fact_at e k = Some f" for k f by (rule wf_fact_id [OF s(1) that])
  show "fact_settled e' h" if "fact_at e' i = Some h" "i \<notin> X" for i h
  proof -
    have "is_retracted e' i = is_retracted e i" using ret that(2) by simp
    moreover have "fact_id h = i" using that(1) facts(1) fid by simp
    moreover have "tally_sets e' h = tally_sets e h" by (rule tally_sets_cong) (simp_all add: facts)
    ultimately show ?thesis using s(3) that(1) facts(1) by (simp add: fact_settled_def target_status_def)
  qed
  have seen: "parent_view now e' k = parent_view t e k \<or> k \<in> X \<and> unsent e' k" for k
  proof (cases "fact_at e k")
    case None
    then show ?thesis using facts(1) by (simp add: parent_view_def)
  next
    case (Some f)
    show ?thesis
    proof (cases "is_retracted e k")
      case True
      then show ?thesis
        using Some facts(1) fid [OF Some] ret by (simp add: parent_view_def effective_status_def)
    next
      case fresh: False
      show ?thesis
      proof (cases "k \<in> X")
        case False
        then show ?thesis
          using Some facts(1) fid [OF Some] ret exp [OF Some] fresh
          by (simp add: parent_view_def effective_status_def)
      next
        case True
        have r: "is_retracted e' k" using ret True by simp
        have d: "derived_status f = (if is_root f then manual_status f else snd (tally_sets e f))"
          using settled_derived_root [OF inv Some] fresh by simp
        show ?thesis
        proof (cases "derived_status f = Invalid")
          case False
          then have "unsent e' k"
            using Some facts(1) fid [OF Some] r by (simp add: unsent_def fact_settled_def target_status_def)
          then show ?thesis using True by blast
        next
          case True
          then have "effective_status t e (Some f) = Invalid"
            using d by (cases "is_root f") (simp_all add: effective_status_def)
          moreover have "effective_status now e' (Some f) = Invalid"
            using r fid [OF Some] by (simp add: effective_status_def)
          ultimately show ?thesis using Some facts(1) by (simp add: parent_view_def)
        qed
      qed
    qed
  qed
  show "jset_fresh now e' js \<or> (\<exists>p \<in> parents_of js. p \<in> X \<and> unsent e' p)"
    if j: "jset_at e' j = Some js" for j js
  proof (cases "\<exists>p \<in> parents_of js. p \<in> X \<and> unsent e' p")
    case False
    then have "parent_view now e' p = parent_view t e p" if "p \<in> parents_of js" for p
      using seen that by blast
    then have "compute_parents now e' js c = compute_parents t e js c"
      if "fact_at e (js_child js) = Some c" for c
      using that clock by (intro compute_parents_clock [OF facts(1)]) (auto simp: ageless_def)
    moreover have "jset_fresh t e js" using s(2) j facts(2) by simp
    ultimately show ?thesis using facts(1) by (simp add: jset_fresh_def)
  qed blast
qed

section \<open>Refreshing the children of a fact\<close>

lemma refresh_pending:
  assumes wf: "wf_engine e" and post: "refresh_post now e J e' Q"
    and fresh: "\<And>j js. jset_at e j = Some js \<Longrightarrow> j \<notin> J \<Longrightarrow> jset_fresh now e js"
    and facts: "\<And>i h. fact_at e i = Some h \<Longrightarrow> fact_settled e h"
  shows "pending_inv now Q e'"
  unfolding pending_inv_def
proof (intro conjI allI impI disjI1)
  have g: "same_graph e e'" and fe: "facts e' = facts e" and ret: "is_retracted e' = is_retracted e"
    using post by (simp_all add: refresh_post_def)
  show "wf_engine e'" by (rule wf_same_graph [OF g wf])
  show "jset_fresh now e' js" if "jset_at e' j = Some js" for j js
    using that post fresh jset_fresh_facts [OF fe ret] by (cases "j \<in> J") (auto simp: refresh_post_def)
  show "fact_settled e' h" if h: "fact_at e' i = Some h" "i \<notin> Q" for i h
  proof -
    have "fact_at e i = Some h" using h(1) fe by simp
    then have hid: "fact_id h = i" and s: "fact_settled e h" using wf_fact_id [OF wf] facts by auto
    have "target_status e' h = target_status e h"
      by (rule target_status_cong) (simp_all add: ret hid refresh_confidence_kept [OF wf post h(2)])
    then show ?thesis using s by (simp add: fact_settled_def)
  qed
qed

lemma pending_metadata:
  assumes inv: "settled now e" and at: "fact_at e k = Some f"
    and child: "same_child (f\<lparr>metadata := m\<rparr>) f"
    and rc: "recompute_children now k (bump (put_fact k (f\<lparr>metadata := m\<rparr>) e)) = (e', q)"
  shows "pending_inv now (set q) e'"
proof -
  let ?g = "f\<lparr>metadata := m\<rparr>"
  let ?e1 = "put_fact k ?g e"
  have s: "wf_engine e" "\<And>j js. jset_at e j = Some js \<Longrightarrow> jset_fresh now e js"
    "\<And>i h. fact_at e i = Some h \<Longrightarrow> fact_settled e h"
    using inv by (auto simp: settled_iff)
  have wf: "wf_engine ?e1" by (rule wf_put_fact [OF s(1) at]) (simp add: same_shape_def)
  have wfb: "wf_engine (bump ?e1)" using wf wf_engine_frame [of "bump ?e1" ?e1] by simp
  have post: "refresh_post now (bump ?e1) (set (child_sets e k)) e' (set q)"
    using recompute_in_post [OF wfb, of now "child_sets e k" e' q] rc by (simp add: recompute_children_def)
  show ?thesis
  proof (rule refresh_pending [OF wfb post])
    fix j js assume j: "jset_at (bump ?e1) j = Some js" "j \<notin> set (child_sets e k)"
    then have np: "k \<notin> parents_of js" using wf_children [OF s(1)] by simp
    have view: "parent_view now (bump ?e1) p = parent_view now e p" if "p \<in> parents_of js" for p
      using that np by (auto simp: parent_view_def effective_status_def split: option.split)
    have "compute_parents now (bump ?e1) js ?g = compute_parents now e js f"
      by (rule compute_parents_cong [OF view child])
    moreover have "compute_parents now (bump ?e1) js c = compute_parents now e js c" for c
      by (rule compute_parents_cong [OF view same_child_refl])
    ultimately show "jset_fresh now (bump ?e1) js"
      using s(2) [of j js] j(1) at by (auto simp: jset_fresh_def)
  next
    fix i h assume h: "fact_at (bump ?e1) i = Some h"
    have t: "target_status (bump ?e1) h = target_status e h" for h
      by (rule target_status_cong) (simp_all add: fun_eq_iff)
    show "fact_settled (bump ?e1) h"
    proof (cases "i = k")
      case True
      then have hg: "h = ?g" using h by simp
      have "target_status e ?g = target_status e f"
        using tally_sets_cong [of ?g e e f] by (simp add: target_status_def)
      then show ?thesis using s(3) [OF at] by (simp add: fact_settled_def t hg)
    next
      case False
      then show ?thesis using s(3) [of i h] h by (simp add: fact_settled_def t)
    qed
  qed
qed

lemma child_view_verification:
  "same_child (f\<lparr>metadata := verification_metadata st method ref reason at' (metadata f)\<rparr>) f"
  by (simp add: same_child_def child_view_def verification_metadata_def put_unless_blank_def Let_def)

section \<open>The operations on existing facts\<close>

text \<open>
  A result that reports success is settled. It is always a result: the option is never None.
\<close>

definition settles :: "int \<Rightarrow> (core_error + engine) option \<Rightarrow> bool" where
  "settles now r \<longleftrightarrow> (\<exists>x. r = Some x \<and> (\<forall>e'. x = Inr e' \<longrightarrow> settled now e'))"

lemma settles_simps [simp]:
  "settles now (Some (Inl err))" "settles now (Some (Inr e)) = settled now e" "\<not> settles now None"
  by (simp_all add: settles_def)

lemma settles_propagate:
  assumes "pending_inv now (set q) e"
  shows "settles now (map_option Inr (propagate now e q))"
proof -
  obtain e' where "propagate now e q = Some e'" "pending_inv now {} e'"
    using propagateE [of now "{}" q e] assms by auto
  then show ?thesis by (simp add: settled_def)
qed

lemma invalidate_root_settles: "settled now e \<Longrightarrow> settles now (invalidate_root now k e)"
  using pending_manual [of now e k _ Invalid] settles_propagate [of now "[k]"]
  by (auto simp: invalidate_root_def Let_def split: option.split)

lemma set_root_confidence_settles: "settled now e \<Longrightarrow> settles now (set_root_confidence now k c e)"
  using pending_manual [of now e k _ c] settles_propagate [of now "[k]"]
  by (auto simp: set_root_confidence_def Let_def split: option.split)

lemma pending_retract: "settled now e \<Longrightarrow> pending_inv now {k} (put_retracted k r e)"
  by (rule pending_retracted [of now]) simp_all

lemma retract_fact_settles: "settled now e \<Longrightarrow> settles now (retract_fact now k r e)"
  using pending_retract [of now e k] settles_propagate [of now "[k]"]
  by (auto simp: retract_fact_def Let_def)

lemma set_fact_verification_settles:
  assumes "settled now e"
  shows "settles now (set_fact_verification now k st m ref r t e)"
proof (cases "fact_at e k")
  case (Some f)
  let ?md = "verification_metadata (normalize_verification_status st) m ref r (if t = 0 then now else t) (metadata f)"
  obtain e1 q where rc: "recompute_children now k (bump (put_fact k (f\<lparr>metadata := ?md\<rparr>) e)) = (e1, q)"
    by fastforce
  have p: "pending_inv now (set q) e1"
    by (rule pending_metadata [OF assms Some child_view_verification rc])
  then have "q = [] \<Longrightarrow> settled now e1" by (simp add: settled_def)
  then show ?thesis
    using Some rc settles_propagate [OF p] by (simp add: set_fact_verification_def Let_def)
qed (simp add: set_fact_verification_def)

end
