(* ===== verification/AssertInv.thy ===== *)
theory AssertInv
imports EngineInv
begin

text \<open>
  AssertFact on a settled engine: validation makes a cycle impossible, registration and the
  loop over the declared sets build a well-formed state in which only the new fact is pending,
  and propagation settles it. The expiry sweep is the second result of the theory.
\<close>

section \<open>What validation guarantees\<close>

lemma known_iff: "p \<in> fst ` set (facts e) \<longleftrightarrow> (\<exists>f. fact_at e p = Some f)"
  by (metis map_of_ne_None not_None_eq)

lemma not_known: "A \<subseteq> fst ` set (facts e) \<Longrightarrow> fact_at e k = None \<Longrightarrow> k \<notin> A"
  by (metis known_iff option.distinct(1) subsetD)

lemma check_tokens_None:
  "check_tokens e ts = None \<longleftrightarrow>
     (\<forall>t \<in> set ts. \<exists>p. normalize_dependency_token t = Inr p \<and> fact_at e p \<noteq> None)"
  by (induction ts) (auto split: sum.splits)

lemma check_sets_None:
  "check_sets e ss = None \<longleftrightarrow>
     (\<forall>ts \<in> set ss. ts \<noteq> [] \<and>
        (\<forall>t \<in> set ts. \<exists>p. normalize_dependency_token t = Inr p \<and> fact_at e p \<noteq> None))"
proof (induction ss)
  case (Cons ts ss)
  then show ?case using check_tokens_None [of e ts] by (cases "check_tokens e ts") auto
qed simp

lemma check_sets_named:
  "check_sets e ss = None \<Longrightarrow> ts \<in> set ss \<Longrightarrow> named_by ts \<subseteq> fst ` set (facts e)"
  unfolding named_by_def check_sets_None by (fastforce simp: known_iff)

lemma check_sets_split:
  assumes "check_sets e ss = None" "ts \<in> set ss"
  obtains pos neg all where "split_dependency_set ts = Inr (pos, neg, all)"
    and "set pos \<union> set neg \<subseteq> fst ` set (facts e)"
proof -
  have "list_all (\<lambda>t. \<exists>i. normalize_dependency_token t = Inr i) ts"
    using assms by (auto simp: check_sets_None list_all_iff)
  then obtain p n a where s: "split_dependency_set ts = Inr (p, n, a)"
    unfolding split_dependency_set_def using split_tokens_total by blast
  have "set p \<union> set n \<subseteq> fst ` set (facts e)"
    using split_dependency_known [OF s] check_sets_named [OF assms] by blast
  then show ?thesis using that s by blast
qed

lemma deps_known:
  assumes "wf_engine e" "(p, c) \<in> deps e"
  shows "fact_at e p \<noteq> None" "fact_at e c \<noteq> None"
proof -
  obtain k js where js: "jset_at e k = Some js" "p \<in> parents_of js" "c = js_child js"
    by (rule deps_cases [OF assms])
  have "jset_ok e k js" by (rule wf_jset [OF assms(1) js(1)])
  then show "fact_at e p \<noteq> None" "fact_at e c \<noteq> None"
    using js not_known [of "parents_of js" e p] by (auto simp: jset_ok_def)
qed

text \<open>A fact that is not registered yet is reachable from no registered one.\<close>

lemma no_cycle_for_new_fact:
  assumes wf: "wf_engine e" and new: "fact_at e (fact_id f) = None" and ok: "check_sets e (sets_of f) = None"
  shows "detect_cycle e (Some f) = None"
proof -
  have "(p, fact_id f) \<notin> (deps e)\<^sup>*" if "fact_at e p \<noteq> None" for p
    using that new deps_known(2) [OF wf] by (metis rtranclE)
  then have "\<exists>p. normalize_dependency_token t = Inr p \<and> (p, fact_id f) \<notin> (edges e)\<^sup>*"
    if "t \<in> set (concat (sets_of f))" for t
    using that ok unfolding edges_deps [OF wf] check_sets_None by fastforce
  then show ?thesis by (auto simp: detect_cycle_def new detect_tokens_None)
qed

lemma validate_new:
  assumes "validate_assert_fact now e f0 = (f, Inr False)"
  shows "f = stamp_asserted now f0" "fact_at e (fact_id f) = None"
    "is_root f \<or> sets_of f \<noteq> []" "check_sets e (sets_of f) = None"
  using assms by (auto simp: validate_assert_fact_def Let_def split: option.splits if_splits)

lemma stamp_asserted_simps [simp]:
  "fact_id (stamp_asserted now f) = fact_id f" "sets_of (stamp_asserted now f) = sets_of f"
  "is_root (stamp_asserted now f) = is_root f" "metadata (stamp_asserted now f) = metadata f"
  "manual_status (stamp_asserted now f) = manual_status f" "payload (stamp_asserted now f) = payload f"
  by (simp_all add: stamp_asserted_def)

section \<open>A new fact without sets\<close>

lemma fresh_key_jset:
  assumes wf: "wf_engine e" and new: "fact_at e k = None" and js: "jset_at e j = Some js"
  shows "k \<notin> parents_of js" "js_child js \<noteq> k" "j \<noteq> justification_set_id k n"
  using wf_jset [OF wf js] new not_known [of "parents_of js" e k]
  by (auto simp: jset_ok_def justification_set_id_inject)

lemma update_new_key: "map_of al k = None \<Longrightarrow> AList.update k v al = al @ [(k, v)]"
  by (induction al) (auto split: if_splits)

text \<open>Old sets do not see the new fact, and old facts keep their target.\<close>

lemma old_jset_fresh:
  assumes inv: "settled now e0" and new: "fact_at e0 k = None"
    and facts: "\<And>i. i \<noteq> k \<Longrightarrow> fact_at e i = fact_at e0 i" and ret: "is_retracted e = is_retracted e0"
    and j: "jset_at e0 j = Some js"
  shows "jset_fresh now e js"
proof -
  have wf: "wf_engine e0" using inv by (simp add: settled_iff)
  have np: "k \<notin> parents_of js" "js_child js \<noteq> k" using fresh_key_jset [OF wf new j] by auto
  have "compute_parents now e js c = compute_parents now e0 js c" for c
  proof (rule compute_parents_cong)
    fix p assume "p \<in> parents_of js"
    then have "p \<noteq> k" using np by blast
    then show "parent_view now e p = parent_view now e0 p"
      by (simp add: parent_view_def facts effective_status_def ret)
  qed simp
  moreover have "jset_fresh now e0 js" using inv j by (simp add: settled_iff)
  ultimately show ?thesis using np(2) facts by (simp add: jset_fresh_def)
qed

lemma root_wf:
  assumes wf: "wf_engine e0" and new: "fact_at e0 (fact_id f) = None" and root: "is_root f"
  shows "wf_engine (put_fact (fact_id f) f e0)" (is "wf_engine ?e")
proof -
  let ?k = "fact_id f"
  have keys: "map fst (facts ?e) = map fst (facts e0) @ [?k]"
    unfolding put_fact_def by (simp add: update_new_key [OF new])
  have ok: "jset_ok ?e j js" if j: "jset_at e0 j = Some js" for j js
  proof -
    have "js_child js \<noteq> ?k" using fresh_key_jset [OF wf new j] by simp
    then show ?thesis using wf_jset [OF wf j] keys by (auto simp: jset_ok_def keys_update put_fact_def)
  qed
  have d: "deps ?e = deps e0" by (simp add: deps_def)
  show ?thesis
    unfolding wf_engine_def d put_fact_frame keys
    using wf_fact_keys [OF wf] wf_jset_keys [OF wf] wf_children [OF wf] wf_acyclic [OF wf]
      wf_fact_id [OF wf] wf_sets [OF wf] ok new root by (auto simp: map_of_eq_None_iff)
qed

lemma root_pending:
  assumes inv: "settled now e0" and new: "fact_at e0 (fact_id f) = None" and root: "is_root f"
  shows "pending_inv now {fact_id f} (put_fact (fact_id f) f e0)" (is "pending_inv now {?k} ?e")
proof -
  have wf: "wf_engine e0" using inv by (simp add: settled_iff)
  moreover have "jset_fresh now ?e js" if "jset_at ?e j = Some js" for j js
    using that by (intro old_jset_fresh [OF inv new, of ?e j]) (auto simp: fun_eq_iff)
  moreover have "fact_settled ?e h" if "fact_at ?e i = Some h" "i \<noteq> ?k" for i h
    using that inv by (auto simp: settled_iff fact_settled_def)
  ultimately show ?thesis using root_wf [OF wf new root] by (auto simp: pending_inv_def)
qed

section \<open>The loop over the declared sets\<close>

lemma add_child_index_frame [simp, frame]:
  "facts (add_child_index j p e) = facts e" "jsets (add_child_index j p e) = jsets e"
  "is_retracted (add_child_index j p e) i = is_retracted e i"
  "set (child_sets (add_child_index j p e) q) = (if q = p then insert j (set (child_sets e p)) else set (child_sets e q))"
  by (auto simp: add_child_index_def is_retracted_def child_sets_def)

lemma index_parents:
  "facts (fold (index_parent j) ps e) = facts e"
  "jsets (fold (index_parent j) ps e) = jsets e"
  "is_retracted (fold (index_parent j) ps e) i = is_retracted e i"
  "set (child_sets (fold (index_parent j) ps e) q) =
     (if q \<in> set ps \<and> fact_at e q \<noteq> None then insert j (set (child_sets e q)) else set (child_sets e q))"
  by (induction ps arbitrary: e) (auto simp: index_parent_def)

text \<open>The set built for the n-th declaration of f, as the graph and the counters want it.\<close>

definition built_set :: "int \<Rightarrow> engine \<Rightarrow> fact \<Rightarrow> nat \<Rightarrow> jset \<Rightarrow> bool" where
  "built_set now e0 f n js \<longleftrightarrow>
     js_id js = justification_set_id (fact_id f) n \<and> js_child js = fact_id f \<and>
     split_dependency_set (sets_of f ! n) = Inr (js_positive js, js_negative js, js_parents js) \<and>
     js_target js = length (js_positive js) + length (js_negative js) \<and>
     parents_of js \<subseteq> fst ` set (facts e0) \<and>
     js_current js = fst (compute_parents now e0 js f) \<and>
     js_confidence js = jset_confidence js (compute_parents now e0 js f)"

definition built :: "int \<Rightarrow> engine \<Rightarrow> fact \<Rightarrow> nat \<Rightarrow> engine \<Rightarrow> bool" where
  "built now e0 f i e \<longleftrightarrow>
     (\<exists>c. fact_at e (fact_id f) = Some (f\<lparr>derived_status := Invalid, valid_justification_count := c\<rparr>)) \<and>
     (\<forall>q. q \<noteq> fact_id f \<longrightarrow> fact_at e q = fact_at e0 q) \<and>
     map fst (facts e) = map fst (facts e0) @ [fact_id f] \<and>
     is_retracted e = is_retracted e0 \<and>
     distinct (map fst (jsets e)) \<and>
     (\<forall>n < i. \<exists>js. jset_at e (justification_set_id (fact_id f) n) = Some js \<and> built_set now e0 f n js) \<and>
     (\<forall>j. (\<forall>n < i. j \<noteq> justification_set_id (fact_id f) n) \<longrightarrow> jset_at e j = jset_at e0 j) \<and>
     (\<forall>q j. j \<in> set (child_sets e q) \<longleftrightarrow> j \<in> set (child_sets e0 q) \<or>
        (\<exists>n js. n < i \<and> j = justification_set_id (fact_id f) n \<and> jset_at e j = Some js \<and> q \<in> parents_of js))"

lemma compute_parents_new:
  assumes facts: "\<And>q. q \<noteq> k \<Longrightarrow> fact_at e q = fact_at e0 q" and ret: "is_retracted e = is_retracted e0"
    and known: "parents_of js \<subseteq> fst ` set (facts e0)" and new: "fact_at e0 k = None"
    and child: "same_child g f"
  shows "compute_parents now e js g = compute_parents now e0 js f"
proof (rule compute_parents_cong [OF _ child])
  fix p assume "p \<in> parents_of js"
  then have "p \<noteq> k" using not_known [OF known new] by blast
  then show "parent_view now e p = parent_view now e0 p"
    by (simp add: parent_view_def facts effective_status_def ret)
qed

lemma new_set_built:
  assumes b: "built now e0 f i e" and new: "fact_at e0 (fact_id f) = None"
    and at: "fact_at e (fact_id f) = Some g"
    and split: "split_dependency_set (sets_of f ! i) = Inr (pos, neg, all)"
    and known: "set pos \<union> set neg \<subseteq> fst ` set (facts e0)"
    and mk: "new_justification_set now g i (sets_of f ! i) e = Inr (e1, js)"
  shows "built_set now e0 f i js" "facts e1 = facts e \<or> (\<exists>c. e1 = put_fact (fact_id f) (g\<lparr>valid_justification_count := c\<rparr>) (fold (index_parent (js_id js)) neg (fold (index_parent (js_id js)) pos e)))"
    "jsets e1 = jsets e" "is_retracted e1 = is_retracted e" "parents_of js = set pos \<union> set neg"
    "set (child_sets e1 q) = (if q \<in> parents_of js then insert (js_id js) (set (child_sets e q)) else set (child_sets e q))"
proof -
  have g: "fact_id g = fact_id f" "same_child g f"
    using at b by (auto simp: built_def intro!: same_childI)
  let ?jid = "justification_set_id (fact_id f) i"
  let ?js = "\<lparr>js_id = ?jid, js_child = fact_id f, js_parents = all, js_positive = pos, js_negative = neg,
     js_target = length pos + length neg, js_current = 0, js_confidence = Invalid, js_idom = []\<rparr>"
  let ?e1 = "fold (index_parent ?jid) neg (fold (index_parent ?jid) pos e)"
  let ?vm = "compute_parents now ?e1 ?js g"
  have known': "fact_at e q \<noteq> None" if "q \<in> set pos \<union> set neg" for q
  proof (cases "q = fact_id f")
    case False
    then have "fact_at e q = fact_at e0 q" using b by (simp add: built_def)
    moreover have "q \<in> fst ` set (facts e0)" using known that by blast
    ultimately show ?thesis using known_iff by (metis option.distinct(1))
  qed (use at in simp)
  have ret: "is_retracted ?e1 = is_retracted e0"
    using b index_parents(3) by (auto simp: built_def fun_eq_iff)
  have vm: "?vm = compute_parents now e0 ?js f"
  proof (rule compute_parents_new [OF _ ret _ new g(2)])
    show "fact_at ?e1 q = fact_at e0 q" if "q \<noteq> fact_id f" for q
      using that b by (simp add: index_parents built_def)
  qed (use known in \<open>simp add: parents_of_def\<close>)
  have js: "js = ?js\<lparr>js_current := fst ?vm, js_confidence := jset_confidence ?js ?vm\<rparr>"
    and e1: "e1 = (if fst ?vm = length pos + length neg
       then put_fact (fact_id f) (g\<lparr>valid_justification_count := Suc (valid_justification_count g)\<rparr>) ?e1
       else ?e1)"
    using mk split g(1)
    by (auto simp: new_justification_set_def Let_def jset_confidence_def split: if_splits)
  have cp: "compute_parents now e0 js f = ?vm"
    unfolding vm by (rule compute_parents_jset) (simp_all add: js)
  show "built_set now e0 f i js"
    unfolding built_set_def cp
    using split known by (simp add: js parents_of_def jset_confidence_def)
  show "parents_of js = set pos \<union> set neg" by (simp add: js parents_of_def)
  show "facts e1 = facts e \<or> (\<exists>c. e1 = put_fact (fact_id f) (g\<lparr>valid_justification_count := c\<rparr>) (fold (index_parent (js_id js)) neg (fold (index_parent (js_id js)) pos e)))"
    by (auto simp: e1 js index_parents)
  show "jsets e1 = jsets e" "is_retracted e1 = is_retracted e" by (auto simp: e1 index_parents fun_eq_iff)
  show "set (child_sets e1 q) = (if q \<in> parents_of js then insert (js_id js) (set (child_sets e q)) else set (child_sets e q))"
    using known' [of q] by (auto simp: e1 js parents_of_def index_parents)
qed

lemma builtD:
  assumes "built now e0 f i e"
  shows built_fact: "\<exists>c. fact_at e (fact_id f) = Some (f\<lparr>derived_status := Invalid, valid_justification_count := c\<rparr>)"
    and built_other: "q \<noteq> fact_id f \<Longrightarrow> fact_at e q = fact_at e0 q"
    and built_keys: "map fst (facts e) = map fst (facts e0) @ [fact_id f]"
    and built_retracted: "is_retracted e = is_retracted e0"
    and built_distinct: "distinct (map fst (jsets e))"
    and built_new: "n < i \<Longrightarrow> \<exists>js. jset_at e (justification_set_id (fact_id f) n) = Some js \<and> built_set now e0 f n js"
    and built_old: "(\<forall>n < i. j \<noteq> justification_set_id (fact_id f) n) \<Longrightarrow> jset_at e j = jset_at e0 j"
    and built_children: "j \<in> set (child_sets e q) \<longleftrightarrow> j \<in> set (child_sets e0 q) \<or>
        (\<exists>n js. n < i \<and> j = justification_set_id (fact_id f) n \<and> jset_at e j = Some js \<and> q \<in> parents_of js)"
  using assms unfolding built_def by blast+

lemma built_step:
  assumes b: "built now e0 f i e" and new: "fact_at e0 (fact_id f) = None"
    and at: "fact_at e (fact_id f) = Some g"
    and split: "split_dependency_set (sets_of f ! i) = Inr (pos, neg, all)"
    and known: "set pos \<union> set neg \<subseteq> fst ` set (facts e0)"
    and mk: "new_justification_set now g i (sets_of f ! i) e = Inr (e1, js)"
  shows "built now e0 f (Suc i) (put_jset (js_id js) js e1)" (is "built now e0 f (Suc i) ?e")
proof -
  let ?id = "justification_set_id (fact_id f)"
  note n = new_set_built [OF b new at split known mk]
  have id: "js_id js = ?id i" using n(1) by (simp add: built_set_def)
  have inj: "?id m = ?id n \<longleftrightarrow> m = n" for m n by (simp add: justification_set_id_inject)
  have g: "\<exists>c. g = f\<lparr>derived_status := Invalid, valid_justification_count := c\<rparr>"
    using b at by (auto simp: built_def)
  have keys: "map fst (facts e1) = map fst (facts e)"
    using n(2) at by (auto simp: keys_put_same index_parents simp del: put_fact_frame)
  have fk: "\<exists>c. fact_at e1 (fact_id f) = Some (f\<lparr>derived_status := Invalid, valid_justification_count := c\<rparr>)"
    using n(2) at g by auto
  have fo: "fact_at e1 q = fact_at e q" if "q \<noteq> fact_id f" for q
    using n(2) that by (auto simp: index_parents)
  have j: "jset_at ?e j = (if j = ?id i then Some js else jset_at e j)" for j
    by (simp add: id n(3))
  have old: "jset_at e j = jset_at e0 j" if "\<forall>n < i. j \<noteq> ?id n" for j
    using b that by (simp add: built_def)
  show ?thesis
    unfolding built_def
  proof (intro conjI allI impI)
    show "\<exists>c. fact_at ?e (fact_id f) = Some (f\<lparr>derived_status := Invalid, valid_justification_count := c\<rparr>)"
      using fk by simp
    show "fact_at ?e q = fact_at e0 q" if "q \<noteq> fact_id f" for q
      using fo [OF that] b that by (simp add: built_def)
    show "map fst (facts ?e) = map fst (facts e0) @ [fact_id f]" using keys b by (simp add: built_def)
    show "is_retracted ?e = is_retracted e0" using n(4) b by (simp add: built_def fun_eq_iff)
    show "distinct (map fst (jsets ?e))"
      using b n(3) by (simp add: built_def put_jset_def distinct_update)
    show "\<exists>js. jset_at ?e (?id m) = Some js \<and> built_set now e0 f m js" if m: "m < Suc i" for m
    proof (cases "m = i")
      case True
      then show ?thesis using n(1) j by simp
    next
      case False
      then obtain js' where "jset_at e (?id m) = Some js'" "built_set now e0 f m js'"
        using built_new [OF b, of m] m by auto
      then show ?thesis using j inj False by simp
    qed
    show "jset_at ?e q = jset_at e0 q" if "\<forall>n < Suc i. q \<noteq> ?id n" for q
      using that old [of q] j by (simp add: less_Suc_eq)
    show "l \<in> set (child_sets ?e q) \<longleftrightarrow> l \<in> set (child_sets e0 q) \<or>
      (\<exists>n js. n < Suc i \<and> l = ?id n \<and> jset_at ?e l = Some js \<and> q \<in> parents_of js)" for q l
    proof (cases "l = ?id i")
      case True
      have "l \<in> set (child_sets e q) \<longleftrightarrow> l \<in> set (child_sets e0 q)"
        using built_children [OF b, of l q] True inj by auto
      then have "l \<in> set (child_sets ?e q) \<longleftrightarrow> l \<in> set (child_sets e0 q) \<or> q \<in> parents_of js"
        using n(6) [of q] True id by auto
      moreover have "(\<exists>n js. n < Suc i \<and> l = ?id n \<and> jset_at ?e l = Some js \<and> q \<in> parents_of js)
          \<longleftrightarrow> q \<in> parents_of js"
        unfolding j True inj by auto
      ultimately show ?thesis by blast
    next
      case False
      then have "l \<in> set (child_sets ?e q) \<longleftrightarrow> l \<in> set (child_sets e q)" using n(6) [of q] id by auto
      moreover have "(\<exists>n js. n < Suc i \<and> l = ?id n \<and> jset_at ?e l = Some js \<and> q \<in> parents_of js) \<longleftrightarrow>
          (\<exists>n js. n < i \<and> l = ?id n \<and> jset_at e l = Some js \<and> q \<in> parents_of js)"
        using False j less_Suc_eq by auto
      ultimately show ?thesis using built_children [OF b] by blast
    qed
  qed
qed

text \<open>A checked declaration always builds its set.\<close>

lemma new_justification_set_total:
  "split_dependency_set ts = Inr (pos, neg, all) \<Longrightarrow> \<exists>e1 js. new_justification_set now g i ts e = Inr (e1, js)"
  by (simp add: new_justification_set_def Let_def)

lemma initialize_sets_built:
  assumes "built now e0 f i e" and new: "fact_at e0 (fact_id f) = None"
    and ok: "check_sets e0 (sets_of f) = None" and "drop i (sets_of f) = ss"
  shows "\<exists>e'. initialize_sets now (fact_id f) i ss e = (None, e') \<and> built now e0 f (i + length ss) e'"
  using assms(1,4)
proof (induction ss arbitrary: i e)
  case (Cons ts rest)
  obtain g where g: "fact_at e (fact_id f) = Some g" using Cons.prems by (auto simp: built_def)
  have i: "i < length (sets_of f)" "sets_of f ! i = ts" "drop (Suc i) (sets_of f) = rest"
    using Cons.prems(2) by (metis drop_all list.distinct(1) not_less, metis nth_via_drop, metis drop_Suc list.sel(3) tl_drop)
  have "ts \<in> set (sets_of f)" using i by (metis nth_mem)
  from check_sets_split [OF ok this] obtain pos neg all
    where sp: "split_dependency_set ts = Inr (pos, neg, all)"
      "set pos \<union> set neg \<subseteq> fst ` set (facts e0)" by blast
  obtain e1 js where mk: "new_justification_set now g i ts e = Inr (e1, js)"
    using new_justification_set_total [OF sp(1)] by blast
  have "built now e0 f (Suc i) (put_jset (js_id js) js e1)"
    using built_step [OF Cons.prems(1) new g _ sp(2)] sp(1) mk i(2) by simp
  from Cons.IH [OF this i(3)] show ?case using g mk by simp
qed simp

section \<open>A new derived fact\<close>

lemma built_start:
  assumes wf: "wf_engine e0" and new: "fact_at e0 (fact_id f) = None"
  shows "built now e0 f 0 (put_fact (fact_id f) (f\<lparr>derived_status := Invalid, valid_justification_count := 0\<rparr>) e0)"
  using wf_jset_keys [OF wf] unfolding built_def
  by (auto simp: fun_eq_iff) (auto simp: put_fact_def update_new_key [OF new])

text \<open>The identifiers of the sets an engine built so far, seen from the finished one.\<close>

lemma built_cases:
  assumes "built now e0 f i e"
  obtains n js' where "n < i" "j = justification_set_id (fact_id f) n" "jset_at e j = Some js'" "built_set now e0 f n js'"
  | "\<forall>n < i. j \<noteq> justification_set_id (fact_id f) n" "jset_at e j = jset_at e0 j"
  using built_new [OF assms] built_old [OF assms] by metis

lemma built_wf:
  assumes wf: "wf_engine e0" and new: "fact_at e0 (fact_id f) = None" and root: "\<not> is_root f"
    and b: "built now e0 f (length (sets_of f)) e"
  shows "wf_engine e"
proof -
  let ?k = "fact_id f" let ?id = "justification_set_id (fact_id f)"
  obtain c where k: "fact_at e ?k = Some (f\<lparr>derived_status := Invalid, valid_justification_count := c\<rparr>)" (is "_ = Some ?f")
    using built_fact [OF b] by blast
  have kset: "fst ` set (facts e) = insert ?k (fst ` set (facts e0))"
    using built_keys [OF b] by (metis Un_insert_right list.set_map set_append list.simps(15) empty_set sup_bot_right)
  have kn: "?k \<notin> fst ` set (facts e0)" using new known_iff by (metis option.distinct(1))
  have ok: "jset_ok e j js" if j: "jset_at e j = Some js" for j js
  proof (cases rule: built_cases [OF b, of j])
    case (1 n js')
    then have "built_set now e0 f n js" using j by simp
    then show ?thesis
      using 1(1,2) k root kset by (auto simp: jset_ok_def built_set_def)
  next
    case 2
    then have j0: "jset_at e0 j = Some js" using j by simp
    have "js_child js \<noteq> ?k" using fresh_key_jset [OF wf new j0] by simp
    then have "fact_at e (js_child js) = fact_at e0 (js_child js)" by (rule built_other [OF b])
    then show ?thesis using wf_jset [OF wf j0] kset by (auto simp: jset_ok_def)
  qed
  have "jset_at e0 (?id n) = None" for n
    using fresh_key_jset(3) [OF wf new] by (cases "jset_at e0 (?id n)") auto
  then have ch: "j \<in> set (child_sets e q) \<longleftrightarrow> (\<exists>js. jset_at e j = Some js \<and> q \<in> parents_of js)" for q j
    using wf_children [OF wf, of j q] built_children [OF b, of j q]
    by (cases rule: built_cases [OF b, of j]) auto
  have fid: "fact_id h = i" if "fact_at e i = Some h" for i h
    using that k built_other [OF b, of i] wf_fact_id [OF wf, of i h] by (cases "i = ?k") auto
  have sets: "jset_at e (justification_set_id i n) \<noteq> None"
    if "fact_at e i = Some h" "\<not> is_root h" "n < length (sets_of h)" for i h n
  proof (cases "i = ?k")
    case True
    then show ?thesis using that k built_new [OF b, of n] by auto
  next
    case False
    then have "jset_at e (justification_set_id i n) = jset_at e0 (justification_set_id i n)"
      by (intro built_old [OF b]) (simp add: justification_set_id_inject)
    then show ?thesis using wf_sets [OF wf] that built_other [OF b False] by simp
  qed
  have sub: "deps e \<subseteq> deps e0 \<union> fst ` set (facts e0) \<times> {?k}"
  proof
    fix x assume "x \<in> deps e"
    then obtain j js where j: "(j, js) \<in> set (jsets e)" "fst x \<in> parents_of js" "snd x = js_child js"
      by (auto simp: deps_def)
    then have at: "jset_at e j = Some js" using built_distinct [OF b] by (metis map_of_eq_in_set)
    show "x \<in> deps e0 \<union> fst ` set (facts e0) \<times> {?k}"
    proof (cases rule: built_cases [OF b, of j])
      case (1 n js')
      then have "built_set now e0 f n js" using at by simp
      then show ?thesis using j by (cases x) (auto simp: built_set_def)
    next
      case 2
      then have "(fst x, js_child js) \<in> deps e0" using at j by (intro deps_at) simp_all
      then show ?thesis using j by (cases x) simp
    qed
  qed
  have "acyclic (deps e0 \<union> fst ` set (facts e0) \<times> {?k})"
  proof (rule acyclic_add_sink [OF wf_acyclic [OF wf] _ kn])
    show "(?k, y) \<notin> deps e0" for y using deps_known(1) [OF wf] new by blast
  qed
  then have "acyclic (deps e)" by (rule acyclic_subset [OF _ sub])
  moreover have "distinct (map fst (facts e))"
    using built_keys [OF b] wf_fact_keys [OF wf] kn by simp
  ultimately show ?thesis
    unfolding wf_engine_def using built_distinct [OF b] ok ch fid sets by blast
qed

lemma built_pending:
  assumes inv: "settled now e0" and new: "fact_at e0 (fact_id f) = None" and root: "\<not> is_root f"
    and b: "built now e0 f (length (sets_of f)) e"
  shows "pending_inv now {fact_id f} e"
  unfolding pending_inv_def
proof (intro conjI allI impI disjI1)
  have s: "wf_engine e0" "\<And>j js. jset_at e0 j = Some js \<Longrightarrow> jset_fresh now e0 js"
    "\<And>i h. fact_at e0 i = Some h \<Longrightarrow> fact_settled e0 h"
    using inv by (auto simp: settled_iff)
  show "wf_engine e" by (rule built_wf [OF s(1) new root b])
  show "jset_fresh now e js" if j: "jset_at e j = Some js" for j js
  proof (cases rule: built_cases [OF b, of j])
    case (1 n js')
    then have bs: "built_set now e0 f n js" using j by simp
    have "compute_parents now e js g = compute_parents now e0 js f" if "same_child g f" for g
      using bs by (intro compute_parents_new [OF built_other [OF b] built_retracted [OF b] _ new that])
        (auto simp: built_set_def)
    moreover have "same_child (f\<lparr>derived_status := Invalid, valid_justification_count := c\<rparr>) f" for c
      by (rule same_childI) simp_all
    ultimately show ?thesis
      using bs built_fact [OF b] by (auto simp: jset_fresh_def built_set_def)
  next
    case 2
    then show ?thesis
      using j by (intro old_jset_fresh [OF inv new built_other [OF b] built_retracted [OF b]]) simp_all
  qed
  show "fact_settled e h" if h: "fact_at e i = Some h" "i \<notin> {fact_id f}" for i h
  proof -
    have h0: "fact_at e0 i = Some h" using h built_other [OF b, of i] by simp
    have "fact_id h = i" by (rule wf_fact_id [OF s(1) h0])
    then have "jset_at e (justification_set_id (fact_id h) n) = jset_at e0 (justification_set_id (fact_id h) n)" for n
      using h(2) by (intro built_old [OF b]) (simp add: justification_set_id_inject)
    then have "target_status e h = target_status e0 h"
      by (intro target_status_cong) (simp_all add: built_retracted [OF b])
    then show ?thesis using s(3) [OF h0] by (simp add: fact_settled_def)
  qed
qed

section \<open>AssertFact\<close>

lemma settled_register [simp]: "settled now (e\<lparr>dirty_dominators := d, mutation_count := m\<rparr>) = settled now e"
  unfolding settled_def by (rule pending_inv_frame) (simp_all add: is_retracted_def fun_eq_iff)

lemma pending_register [simp]:
  "pending_inv now P (e\<lparr>dirty_dominators := d, mutation_count := m\<rparr>) = pending_inv now P e"
  by (rule pending_inv_frame) (simp_all add: is_retracted_def fun_eq_iff)

lemma update_twice: "AList.update k v (AList.update k u al) = AList.update k v al"
  by (induction al) auto

text \<open>Registration followed by the first write is one write on the flagged engine.\<close>

abbreviation flagged :: "engine \<Rightarrow> engine" where
  "flagged e \<equiv> e\<lparr>dirty_dominators := True, mutation_count := mutation_count e + 1\<rparr>"

lemma put_register:
  "fact_id g = fact_id f \<Longrightarrow> put_fact (fact_id f) g (register_fact f e) = put_fact (fact_id f) g (flagged e)"
  by (simp add: register_fact_def put_fact_def update_twice)

lemma initialize_root_settles:
  assumes inv: "settled now e" and new: "fact_at e (fact_id f) = None" and root: "is_root f"
  shows "settles now (map_option Inr (initialize_root_fact now f (register_fact f e)))"
proof -
  let ?g = "f\<lparr>derived_status := manual_status f\<rparr>"
  have "pending_inv now {fact_id f} (put_fact (fact_id ?g) ?g (flagged e))"
    using root_pending [of now "flagged e" ?g] inv new root by simp
  then have "pending_inv now {fact_id f} (put_fact (fact_id f) ?g (register_fact f e))"
    using put_register [of ?g f] by simp
  then have p: "pending_inv now (set [fact_id f]) (notify now (fact_id f) (manual_status f)
      (if manual_status f < ConfidenceThreshold
       then (put_fact (fact_id f) ?g (register_fact f e))\<lparr>collapsed_roots :=
              set_insert (fact_id f) (collapsed_roots (put_fact (fact_id f) ?g (register_fact f e)))\<rparr>
       else put_fact (fact_id f) ?g (register_fact f e)))"
    by simp
  show ?thesis
    using settles_propagate [OF p] by (simp add: initialize_root_fact_def Let_def)
qed

lemma initialize_derived_settles:
  assumes inv: "settled now e" and new: "fact_at e (fact_id f) = None" and root: "\<not> is_root f"
    and ok: "check_sets e (sets_of f) = None"
  obtains e' where "initialize_derived_fact now f (register_fact f e) = Some (Inr e')" "settled now e'"
proof -
  let ?e0 = "flagged e"
  have inv0: "settled now ?e0" and new0: "fact_at ?e0 (fact_id f) = None" using inv new by simp_all
  have ok0: "check_sets ?e0 (sets_of f) = None" using ok by (simp add: check_sets_None)
  have "wf_engine ?e0" using inv0 by (simp add: settled_iff)
  from initialize_sets_built [OF built_start [OF this new0] new0 ok0, of "sets_of f"]
  obtain e2 where e2: "initialize_sets now (fact_id f) 0 (sets_of f)
      (put_fact (fact_id f) (f\<lparr>derived_status := Invalid, valid_justification_count := 0\<rparr>) ?e0) = (None, e2)"
    and b: "built now ?e0 f (length (sets_of f)) e2" by auto
  have "pending_inv now ({} \<union> set [fact_id f]) e2" using built_pending [OF inv0 new0 root b] by simp
  then obtain e' where "propagate now e2 [fact_id f] = Some e'" "pending_inv now {} e'"
    by (rule propagateE)
  then show ?thesis
    using that e2 put_register [of "f\<lparr>derived_status := Invalid, valid_justification_count := 0\<rparr>" f e]
    by (simp add: initialize_derived_fact_def settled_def)
qed

lemma assert_fact_settles: "settled now e \<Longrightarrow> settles now (assert_fact now fo e)"
proof (cases fo)
  case (Some f0)
  assume inv: "settled now e"
  obtain f r where v: "validate_assert_fact now e f0 = (f, r)" by fastforce
  show ?thesis
  proof (cases "r = Inr False")
    case True
    note n = validate_new [OF v [unfolded True]]
    show ?thesis
    proof (cases "is_root f")
      case root: True
      then show ?thesis
        using initialize_root_settles [OF inv n(2)] v True Some by (simp add: assert_fact_def)
    next
      case False
      show ?thesis
        by (rule initialize_derived_settles [OF inv n(2) False n(4)])
          (use False v True Some in \<open>simp add: assert_fact_def\<close>)
    qed
  next
    case False
    then show ?thesis using inv v Some by (auto simp: assert_fact_def split: sum.split bool.split)
  qed
qed (simp add: assert_fact_def)

text \<open>Validation already rules out a cycle, so the assertion never reports one.\<close>

lemma assert_fact_no_cycle:
  assumes inv: "settled now e"
  shows "assert_fact now fo e \<noteq> Some (Inl (CycleError path))"
proof (cases fo)
  case (Some f0)
  have wf: "wf_engine e" using inv by (simp add: settled_iff)
  obtain f r where v: "validate_assert_fact now e f0 = (f, r)" by fastforce
  have tok: "check_tokens e ts \<noteq> Some (CycleError path)" for ts
    by (induction ts) (auto simp: normalize_dependency_token_def parse_dependency_ref_def Let_def split: sum.splits if_splits)
  have "check_sets e ss \<noteq> Some (CycleError path)" for ss
    by (induction ss) (auto simp: tok split: option.splits)
  then have r: "r \<noteq> Inl (CycleError path)"
    using v no_cycle_for_new_fact [OF wf]
    by (auto simp: validate_assert_fact_def Let_def split: option.splits if_splits)
  show ?thesis
  proof (cases "r = Inr False")
    case True
    note n = validate_new [OF v [unfolded True]]
    show ?thesis
    proof (cases "is_root f")
      case root: True
      then show ?thesis using v True Some by (auto simp: assert_fact_def)
    next
      case False
      show ?thesis
        by (rule initialize_derived_settles [OF inv n(2) False n(4)])
          (use False v True Some in \<open>simp add: assert_fact_def\<close>)
    qed
  next
    case False
    then show ?thesis using r v Some by (auto simp: assert_fact_def split: sum.split bool.split)
  qed
qed (simp add: assert_fact_def)

section \<open>The expiry sweep\<close>

text \<open>The fact map's entry has lapsed: a deadline is set, and the clock is past it.\<close>

definition lapsed :: "int \<Rightarrow> fact \<Rightarrow> bool" where
  "lapsed now f \<longleftrightarrow> valid_until f \<noteq> 0 \<and> valid_until f < now"

lemma sweep_fold:
  assumes "fold (sweep_step now) al (e, xs) = (e', xs')"
  shows "facts e' = facts e" "jsets e' = jsets e" "children e' = children e"
    "collapsed_roots e' = collapsed_roots e"
    "\<exists>ys. xs' = xs @ ys \<and>
       set ys = {fact_id f | k f. (k, f) \<in> set al \<and> lapsed now f \<and> \<not> is_retracted e (fact_id f)} \<and>
       (\<forall>i. is_retracted e' i \<longleftrightarrow> i \<in> set ys \<or> is_retracted e i)"
proof -
  have "facts e' = facts e \<and> jsets e' = jsets e \<and> children e' = children e \<and>
    collapsed_roots e' = collapsed_roots e \<and>
    (\<exists>ys. xs' = xs @ ys \<and>
       set ys = {fact_id f | k f. (k, f) \<in> set al \<and> lapsed now f \<and> \<not> is_retracted e (fact_id f)} \<and>
       (\<forall>i. is_retracted e' i \<longleftrightarrow> i \<in> set ys \<or> is_retracted e i))"
    using assms
  proof (induction al arbitrary: e xs)
    case (Cons kf al)
    obtain k f where kf: "kf = (k, f)" by fastforce
    show ?case
    proof (cases "lapsed now f \<and> \<not> is_retracted e (fact_id f)")
      case False
      then have "sweep_step now kf (e, xs) = (e, xs)" by (auto simp: kf sweep_step_def Let_def lapsed_def)
      moreover have "{fact_id g | k g. (k, g) \<in> set (kf # al) \<and> lapsed now g \<and> \<not> is_retracted e (fact_id g)}
          = {fact_id g | k g. (k, g) \<in> set al \<and> lapsed now g \<and> \<not> is_retracted e (fact_id g)}"
        using False kf by auto
      ultimately show ?thesis using Cons by simp
    next
      case True
      let ?e = "put_retracted (fact_id f) ''expired'' e"
      have "sweep_step now kf (e, xs) = (?e, xs @ [fact_id f])"
        using True by (simp add: kf sweep_step_def Let_def lapsed_def)
      then obtain ys where y: "xs' = (xs @ [fact_id f]) @ ys"
        "set ys = {fact_id g | k g. (k, g) \<in> set al \<and> lapsed now g \<and> \<not> is_retracted ?e (fact_id g)}"
        "\<forall>i. is_retracted e' i \<longleftrightarrow> i \<in> set ys \<or> is_retracted ?e i"
        "facts e' = facts e" "jsets e' = jsets e" "children e' = children e"
        "collapsed_roots e' = collapsed_roots e"
        using Cons.IH [of ?e "xs @ [fact_id f]"] Cons.prems by auto
      have "set (fact_id f # ys) =
          {fact_id g | k g. (k, g) \<in> set (kf # al) \<and> lapsed now g \<and> \<not> is_retracted e (fact_id g)}"
        using True by (auto simp: y(2) kf)
      then show ?thesis
        using y by (intro conjI exI [of _ "fact_id f # ys"]) auto
    qed
  qed auto
  then show "facts e' = facts e" "jsets e' = jsets e" "children e' = children e"
    "collapsed_roots e' = collapsed_roots e"
    "\<exists>ys. xs' = xs @ ys \<and>
       set ys = {fact_id f | k f. (k, f) \<in> set al \<and> lapsed now f \<and> \<not> is_retracted e (fact_id f)} \<and>
       (\<forall>i. is_retracted e' i \<longleftrightarrow> i \<in> set ys \<or> is_retracted e i)"
    by blast+
qed

lemma propagate_each_total:
  "pending_inv now (P \<union> set ks) e \<Longrightarrow> \<exists>e'. propagate_each now e ks = Some e' \<and> pending_inv now P e' \<and> same_graph e e'"
proof (induction ks arbitrary: e)
  case (Cons k ks)
  then have "pending_inv now ((P \<union> set ks) \<union> set [k]) e" by (simp add: insert_commute)
  then obtain e1 where e1: "propagate now e [k] = Some e1" "pending_inv now (P \<union> set ks) e1" "same_graph e e1"
    by (rule propagateE)
  from Cons.IH [OF e1(2)] show ?case using e1 same_graph_trans by auto
qed simp

text \<open>
  A sweep carries a settled state from the clock reading of an earlier operation to its own, and
  retracts exactly the facts whose deadline has passed.
\<close>

lemma sweep_settles:
  assumes inv: "settled t e" and clock: "t \<le> now" and ageless: "ageless e"
  obtains e' expired where "sweep_expired_facts now e = Some (e', expired)" "settled now e'"
    "set expired = {k. \<exists>f. fact_at e k = Some f \<and> lapsed now f \<and> \<not> is_retracted e k}"
    "\<And>i. is_retracted e' i \<longleftrightarrow> i \<in> set expired \<or> is_retracted e i"
proof -
  have wf: "wf_engine e" using inv by (simp add: settled_iff)
  obtain e1 xs where f: "fold (sweep_step now) (facts e) (e, []) = (e1, xs)" by fastforce
  note s = sweep_fold [OF f]
  have x: "set xs = {k. \<exists>f. fact_at e k = Some f \<and> lapsed now f \<and> \<not> is_retracted e k}"
    and r: "is_retracted e1 i \<longleftrightarrow> i \<in> set xs \<or> is_retracted e i" for i
  proof -
    obtain ys where y: "xs = ys"
      "set ys = {fact_id f | k f. (k, f) \<in> set (facts e) \<and> lapsed now f \<and> \<not> is_retracted e (fact_id f)}"
      "\<forall>i. is_retracted e1 i \<longleftrightarrow> i \<in> set ys \<or> is_retracted e i" using s(5) by auto
    have m: "(k, f) \<in> set (facts e) \<longleftrightarrow> fact_at e k = Some f" for k f
      using map_of_eq_in_set [OF wf_fact_keys [OF wf]] by blast
    show "set xs = {k. \<exists>f. fact_at e k = Some f \<and> lapsed now f \<and> \<not> is_retracted e k}"
      unfolding y(1,2) m using wf_fact_id [OF wf] by blast
    show "is_retracted e1 i \<longleftrightarrow> i \<in> set xs \<or> is_retracted e i" using y by simp
  qed
  have p: "pending_inv now (set xs) e1"
  proof (rule pending_retracted [OF inv _ s(1-3) r])
    show "now = t \<or> ageless e" using ageless by simp
    show "expired_at now g = expired_at t g" if "fact_at e k = Some g" "\<not> is_retracted e1 k" for k g
      using that r x clock by (auto simp: expired_at_def lapsed_def)
  qed
  show ?thesis
  proof (cases "xs = []")
    case True
    then have "settled now e1" using p by (simp add: settled_def)
    then show ?thesis using that [of e1 xs] x r True f by (simp add: sweep_expired_facts_def)
  next
    case False
    have "pending_inv now ({} \<union> set xs) (bump e1)" using p by simp
    from propagate_each_total [OF this] obtain e' where e': "propagate_each now (bump e1) xs = Some e'"
      "pending_inv now {} e'" "same_graph (bump e1) e'" by blast
    have "is_retracted e' = is_retracted (bump e1)" using same_graph_at(4) [OF e'(3)] by simp
    then have "is_retracted e' i \<longleftrightarrow> i \<in> set xs \<or> is_retracted e i" for i using r by simp
    then show ?thesis
      using that [of e' xs] x e' False f by (simp add: sweep_expired_facts_def settled_def)
  qed
qed

section \<open>Review\<close>

lemma settled_put_fact:
  assumes inv: "settled now e" and at: "fact_at e k = Some f" and shape: "same_shape f g"
    and child: "same_child g f" and view: "grounding_view_of g = grounding_view_of f"
    and kind: "assertion_kind g = assertion_kind f" "valid_until g = valid_until f"
    and st: "manual_status g = manual_status f" "derived_status g = derived_status f"
  shows "settled now (put_fact k g e)"
proof -
  have s: "fact_id g = fact_id f" "is_root g = is_root f" "sets_of g = sets_of f"
    using shape by (simp_all add: same_shape_def)
  have fid: "fact_id f = k" using inv at wf_fact_id by (auto simp: settled_iff)
  have "parent_view now (put_fact k g e) k = parent_view now e k"
    using at s kind st view by (simp add: parent_view_def effective_status_def expired_at_def)
  then have p: "pending_inv now {k} (put_fact k g e)" by (intro pending_put_fact [OF inv at shape child] disjI1)
  have "tally_set (put_fact k g e) g = tally_set e f" by (simp add: fun_eq_iff tally_set_def s)
  then have "target_status (put_fact k g e) g = target_status e f"
    using s st by (simp add: target_status_def tally_sets_def)
  then have "fact_settled (put_fact k g e) g"
    using inv at st by (simp add: settled_iff fact_settled_def)
  then have "\<not> unsent (put_fact k g e) k" "\<forall>h. fact_at (put_fact k g e) k = Some h \<longrightarrow> fact_settled (put_fact k g e) h"
    by (simp_all add: unsent_def)
  then show ?thesis using p unfolding pending_inv_def settled_iff by blast
qed

lemma grounding_view_of_keys:
  assumes "obj_get (metadata p) ''_provenance'' = obj_get (metadata q) ''_provenance''"
    "obj_get (metadata p) ''source_type'' = obj_get (metadata q) ''source_type''"
    "obj_get (metadata p) ''verification_status'' = obj_get (metadata q) ''verification_status''"
    "asserted_at p = asserted_at q"
  shows "grounding_view_of p = grounding_view_of q"
  by (simp only: grounding_view_of_def fact_source_type_def fact_verification_status_def option.case assms)

lemma set_fact_review_settles:
  assumes inv: "settled now e" and ok: "set_fact_review now k st r t e = Inr e'"
  shows "settled now e'"
proof (cases "fact_at e k")
  case (Some f)
  show ?thesis
  proof (cases "e' = e")
    case False
    then obtain st' r' t' m4 where e': "e' = bump (put_fact k (f\<lparr>review_status := st', review_reason := r',
        reviewed_at := t', metadata := m4\<rparr>) e)"
      and m4: "m4 = obj_put ''reviewed_at'' (GInt t') (obj_put ''review_reason'' (GStr r')
          (obj_put ''review_status'' (GStr st') (metadata f))) \<or>
        m4 = obj_put ''requires_human_review'' (GBool False) (obj_put ''reviewed_at'' (GInt t')
          (obj_put ''review_reason'' (GStr r') (obj_put ''review_status'' (GStr st') (metadata f))))"
      using ok Some by (auto simp: set_fact_review_def Let_def split: if_splits)
    let ?g = "f\<lparr>review_status := st', review_reason := r', reviewed_at := t', metadata := m4\<rparr>"
    have "grounding_view_of ?g = grounding_view_of f"
      by (rule grounding_view_of_keys) (use m4 in auto)
    moreover have "same_child ?g f" using m4 by (auto simp: same_child_def child_view_def)
    ultimately have "settled now (put_fact k ?g e)"
      by (intro settled_put_fact [OF inv Some]) (simp_all add: same_shape_def)
    then show ?thesis by (simp add: e' settled_def)
  qed (simp add: inv)
qed (use ok in \<open>simp add: set_fact_review_def\<close>)

end
