(* ===== verification/Totality.thy ===== *)
theory Totality
imports AssertInv
begin

text \<open>
  What holds at every clock reading, settled or not: an operation on a well-formed engine
  returns, and leaves a well-formed engine with the declarations it had, but for the fact an
  assertion adds. The declared graph (root facts included, whose sets AssertFact checks but does
  not build) stays acyclic and closed, which is what FromSnapshot will test.
\<close>

section \<open>Propagation on a well-formed engine\<close>

lemma propagate_in_graph:
  assumes wf: "wf_engine e" and step: "propagate_in now L k e = (e', q)"
    and ord: "set L = set (child_sets e k)"
  shows "same_graph e e' \<and> set q \<subseteq> {c. (k, c) \<in> deps e}"
proof (cases "fact_at e k")
  case (Some f)
  let ?st = "target_status e f"
  let ?g = "(refresh_count e f)\<lparr>derived_status := ?st\<rparr>"
  let ?e2 = "notify now (fact_id f) ?st (put_fact k ?g e)"
  show ?thesis
  proof (cases "?st = derived_status f")
    case True
    then show ?thesis
      using step Some same_graph_put_fact [OF Some, of "refresh_count e f"]
      by (auto simp: propagate_in_def Let_def)
  next
    case False
    have rc: "recompute_in now L ?e2 = (e', q)" using step Some False by (simp add: propagate_in_def Let_def)
    have g1: "same_graph e (put_fact k ?g e)" by (rule same_graph_put_fact [OF Some]) simp
    have wf1: "wf_engine (put_fact k ?g e)" by (rule wf_same_graph [OF g1 wf])
    have "wf_engine ?e2" by (rule wf_same_graph [OF same_graph_notify wf1])
    from recompute_in_post [OF this rc]
    have post: "refresh_post now (put_fact k ?g e) (set (child_sets e k)) e' (set q)"
      by (simp add: refresh_post_notify ord)
    then show ?thesis
      using g1 same_graph_trans refresh_post_deps [OF wf1, of now k e' "set q"] same_graph_deps [OF g1]
      by (auto simp: refresh_post_def)
  qed
qed (use step in \<open>simp add: propagate_in_def\<close>)

lemma queue_heights_less:
  assumes wf: "wf_engine e" and new: "set new \<subseteq> {c. (k, c) \<in> deps e}"
  shows "(queue_heights e (rest @ new), queue_heights e (k # rest)) \<in> mult less_than"
proof -
  let ?h = "height (deps e)"
  have "\<forall>c \<in> set new. ?h c < ?h k"
    using new height_less [OF finite_deps wf_acyclic [OF wf]] by blast
  then have "(image_mset ?h (mset rest) + image_mset ?h (mset new),
      image_mset ?h (mset rest) + {#?h k#}) \<in> mult less_than"
    by (intro one_step_implies_mult) auto
  then show ?thesis by (simp add: queue_heights_def)
qed

lemma propagate_returns:
  assumes "wf_engine e"
  shows "\<exists>e'. propagate now e q = Some e' \<and> same_graph e e'"
  using assms
proof (induction "queue_heights e q" arbitrary: e q rule: wf_induct_rule [OF wf_mult [OF wf_less_than]])
  case 1
  show ?case
  proof (cases q)
    case Nil
    then show ?thesis by simp
  next
    case (Cons k rest)
    obtain e1 new where s: "propagate_in now (child_sets e k) k e = (e1, new)" by fastforce
    have g: "same_graph e e1" "set new \<subseteq> {c. (k, c) \<in> deps e}"
      using propagate_in_graph [OF 1(2) s] by simp_all
    have "(queue_heights e1 (rest @ new), queue_heights e q) \<in> mult less_than"
      using queue_heights_less [OF 1(2) g(2), of rest] same_graph_deps [OF g(1)]
      by (simp add: queue_heights_def Cons)
    from 1(1) [OF this wf_same_graph [OF g(1) 1(2)]] obtain e'
      where "propagate now e1 (rest @ new) = Some e'" "same_graph e1 e'" by blast
    then show ?thesis
      using s same_graph_trans [OF g(1)] by (simp add: Cons propagate_Cons propagate_one_def)
  qed
qed

section \<open>The declared graph\<close>

definition declared :: "engine \<Rightarrow> (string \<times> string) set" where
  "declared e = {(p, k). \<exists>f. fact_at e k = Some f \<and> p \<in> named_by (concat (sets_of f))}"

definition declarations :: "engine \<Rightarrow> (string \<times> string list list) list" where
  "declarations e = map (\<lambda>(k, f). (k, sets_of f)) (facts e)"

definition loadable :: "engine \<Rightarrow> bool" where
  "loadable e \<longleftrightarrow>
     int (length (facts e)) \<le> MaxFactsPerSession \<and> acyclic (declared e) \<and>
     (\<forall>k f ts t. fact_at e k = Some f \<longrightarrow> ts \<in> set (sets_of f) \<longrightarrow> t \<in> set ts \<longrightarrow>
        (\<exists>p. normalize_dependency_token t = Inr p \<and> fact_at e p \<noteq> None))"

lemma declarations_at: "map_of (declarations e) k = map_option sets_of (fact_at e k)"
  unfolding declarations_def by (rule core_at)

lemma declared_cong:
  assumes "declarations e = declarations e'"
  shows "declared e = declared e'" "loadable e = loadable e'"
proof -
  have at: "map_option sets_of (fact_at e k) = map_option sets_of (fact_at e' k)" for k
    using assms declarations_at by metis
  have d: "declared e = {(p, k). \<exists>ss. map_option sets_of (fact_at e k) = Some ss \<and> p \<in> named_by (concat ss)}" for e
    by (auto simp: declared_def)
  have l: "loadable e \<longleftrightarrow> int (length (declarations e)) \<le> MaxFactsPerSession \<and> acyclic (declared e) \<and>
     (\<forall>k ss ts t. map_option sets_of (fact_at e k) = Some ss \<longrightarrow> ts \<in> set ss \<longrightarrow> t \<in> set ts \<longrightarrow>
        (\<exists>p. normalize_dependency_token t = Inr p \<and> map_option sets_of (fact_at e p) \<noteq> None))" for e
    unfolding loadable_def declarations_def by fastforce
  show dd: "declared e = declared e'" unfolding d at ..
  show "loadable e = loadable e'" unfolding l dd assms at ..
qed

lemma declarations_same_graph: "same_graph e e' \<Longrightarrow> declarations e = declarations e'"
proof -
  assume "same_graph e e'"
  then have "map (\<lambda>(k, f). (k, sets_of f)) (map (\<lambda>(k, f). (k, fact_core f)) (facts e)) =
      map (\<lambda>(k, f). (k, sets_of f)) (map (\<lambda>(k, f). (k, fact_core f)) (facts e'))"
    using same_graph_parts(1) by fastforce
  then show ?thesis by (simp add: declarations_def fact_core_def sets_of_def comp_def case_prod_unfold)
qed

lemma declarations_frame: "facts e = facts e' \<Longrightarrow> declarations e = declarations e'"
  by (simp add: declarations_def)

lemma declarations_put:
  assumes "fact_at e k = Some f" "sets_of g = sets_of f"
  shows "declarations (put_fact k g e) = declarations e"
  unfolding declarations_def put_fact_def using map_update_core [OF assms(1), of sets_of g] assms(2) by simp

lemma deps_declared:
  assumes wf: "wf_engine e"
  shows "deps e \<subseteq> declared e"
proof (clarify)
  fix p c assume "(p, c) \<in> deps e"
  then obtain k js where js: "jset_at e k = Some js" "p \<in> parents_of js" "c = js_child js"
    by (rule deps_cases [OF wf])
  obtain f i where f: "fact_at e c = Some f" "i < length (sets_of f)"
    "split_dependency_set (sets_of f ! i) = Inr (js_positive js, js_negative js, js_parents js)"
    using wf_jset [OF wf js(1)] js(3) by (auto simp: jset_ok_def)
  have "p \<in> named_by (sets_of f ! i)"
    using js(2) split_dependency_known [OF f(3)] split_dependency_parents [OF f(3)] by (auto simp: parents_of_def)
  then have "p \<in> named_by (concat (sets_of f))" using nth_mem [OF f(2)] by (auto simp: named_by_def)
  then show "(p, c) \<in> declared e" using f(1) by (auto simp: declared_def)
qed

section \<open>Every operation keeps the structure\<close>

definition keeps :: "engine \<Rightarrow> (core_error + engine) option \<Rightarrow> bool" where
  "keeps e r \<longleftrightarrow>
     (\<exists>x. r = Some x \<and> (\<forall>e'. x = Inr e' \<longrightarrow> wf_engine e' \<and> (loadable e \<longrightarrow> loadable e')))"

lemma keeps_simps [simp]:
  "keeps e (Some (Inl err))" "keeps e (Some (Inr e')) \<longleftrightarrow> wf_engine e' \<and> (loadable e \<longrightarrow> loadable e')"
  "\<not> keeps e None"
  by (simp_all add: keeps_def)

lemma keeps_propagate:
  assumes wf: "wf_engine e1" and load: "loadable e \<Longrightarrow> loadable e1"
  shows "keeps e (map_option Inr (propagate now e1 q))"
proof -
  obtain e' where e': "propagate now e1 q = Some e'" "same_graph e1 e'"
    using propagate_returns [OF wf] by blast
  then show ?thesis
    using wf_same_graph [OF e'(2) wf] load declared_cong(2) [OF declarations_same_graph [OF e'(2)]] by simp
qed

lemma bump_structure [simp]:
  "wf_engine (bump e) = wf_engine e" "loadable (bump e) = loadable e"
  by (simp_all add: wf_engine_frame [of "bump e" e] declared_cong(2) [OF declarations_frame, of "bump e" e])

lemma frame_structure:
  assumes "facts e' = facts e" "jsets e' = jsets e" "children e' = children e"
  shows "wf_engine e' = wf_engine e" "loadable e' = loadable e"
  using wf_engine_frame [OF assms] declared_cong(2) [OF declarations_frame [OF assms(1)]] .

lemma flags_structure [simp]:
  "wf_engine (e\<lparr>collapsed_roots := c\<rparr>) = wf_engine e" "loadable (e\<lparr>collapsed_roots := c\<rparr>) = loadable e"
  "wf_engine (put_retracted k r e) = wf_engine e" "loadable (put_retracted k r e) = loadable e"
  "wf_engine (notify now k s e) = wf_engine e" "loadable (notify now k s e) = loadable e"
  "wf_engine (flagged e) = wf_engine e" "loadable (flagged e) = loadable e"
  by (rule frame_structure; simp)+

lemma put_fact_structure:
  assumes "wf_engine e" "fact_at e k = Some f" "same_shape f g"
  shows "wf_engine (put_fact k g e)" "loadable (put_fact k g e) = loadable e"
  using wf_put_fact [OF assms] declared_cong(2) [OF declarations_put [OF assms(2)], of g] assms(3)
  by (simp_all add: same_shape_def)

lemma same_shape_updates [simp]:
  "same_shape f (f\<lparr>manual_status := m\<rparr>)" "same_shape f (f\<lparr>metadata := md\<rparr>)"
  "same_shape f (f\<lparr>review_status := a, review_reason := b, reviewed_at := c, metadata := md\<rparr>)"
  by (simp_all add: same_shape_def)

lemma invalidate_root_keeps: "wf_engine e \<Longrightarrow> keeps e (invalidate_root now k e)"
  using put_fact_structure [of e k]
  by (auto simp: invalidate_root_def Let_def split: option.split intro!: keeps_propagate)

lemma set_root_confidence_keeps: "wf_engine e \<Longrightarrow> keeps e (set_root_confidence now k c e)"
  using put_fact_structure [of e k]
  by (auto simp: set_root_confidence_def Let_def split: option.split intro!: keeps_propagate)

lemma retract_fact_keeps: "wf_engine e \<Longrightarrow> keeps e (retract_fact now k r e)"
  by (auto simp: retract_fact_def Let_def intro!: keeps_propagate)

lemma set_fact_verification_keeps:
  assumes wf: "wf_engine e"
  shows "keeps e (set_fact_verification now k st m ref r t e)"
proof (cases "fact_at e k")
  case (Some f)
  let ?md = "verification_metadata (normalize_verification_status st) m ref r (if t = 0 then now else t) (metadata f)"
  let ?e1 = "bump (put_fact k (f\<lparr>metadata := ?md\<rparr>) e)"
  obtain e1 q where rc: "recompute_children now k ?e1 = (e1, q)" by fastforce
  have wf1: "wf_engine ?e1" "loadable e \<Longrightarrow> loadable ?e1"
    using put_fact_structure [OF wf Some, of "f\<lparr>metadata := ?md\<rparr>"] by simp_all
  have g: "same_graph ?e1 e1"
    using recompute_in_post [OF wf1(1) rc [unfolded recompute_children_def]] by (simp add: refresh_post_def)
  have "wf_engine e1" "loadable e \<Longrightarrow> loadable e1"
    using wf_same_graph [OF g wf1(1)] wf1(2) declared_cong(2) [OF declarations_same_graph [OF g]] by simp_all
  then show ?thesis
    using Some rc keeps_propagate [of e1 e now q] by (simp add: set_fact_verification_def Let_def)
qed (simp add: set_fact_verification_def)

lemma set_fact_review_keeps:
  assumes "wf_engine e"
  shows "keeps e (Some (set_fact_review now k st r t e))"
  using put_fact_structure [OF assms, of k]
  by (auto simp: set_fact_review_def Let_def assms split: option.split)

lemma propagate_each_returns:
  "wf_engine e \<Longrightarrow> \<exists>e'. propagate_each now e ks = Some e' \<and> same_graph e e'"
proof (induction ks arbitrary: e)
  case (Cons k ks)
  obtain e1 where e1: "propagate now e [k] = Some e1" "same_graph e e1"
    using propagate_returns [OF Cons.prems] by blast
  from Cons.IH [OF wf_same_graph [OF e1(2) Cons.prems]] show ?case
    using e1 same_graph_trans by auto
qed simp

lemma sweep_keeps: "wf_engine e \<Longrightarrow> keeps e (map_option (Inr \<circ> fst) (sweep_expired_facts now e))"
proof -
  assume wf: "wf_engine e"
  obtain e1 xs where f: "fold (sweep_step now) (facts e) (e, []) = (e1, xs)" by fastforce
  note s = sweep_fold [OF f]
  have wf1: "wf_engine e1" "loadable e1 = loadable e"
    using wf wf_engine_frame [OF s(1-3)] declared_cong(2) [OF declarations_frame [OF s(1)]] by simp_all
  then have "wf_engine (bump e1)" by simp
  from propagate_each_returns [OF this, of now xs] obtain e'
    where e': "propagate_each now (bump e1) xs = Some e'" "same_graph (bump e1) e'" by blast
  then show ?thesis
    using f wf1 wf_same_graph [OF e'(2)] declared_cong(2) [OF declarations_same_graph [OF e'(2)]]
    by (simp add: sweep_expired_facts_def)
qed

section \<open>Assertion\<close>

lemma loadable_new:
  assumes load: "loadable e" and new: "fact_at e k = None" and cap: "int (length (facts e)) < MaxFactsPerSession"
    and keys: "map fst (facts e1) = map fst (facts e) @ [k]" and at: "fact_at e1 k = Some g"
    and other: "\<And>q. q \<noteq> k \<Longrightarrow> fact_at e1 q = fact_at e q" and ok: "check_sets e (sets_of g) = None"
  shows "loadable e1"
  unfolding loadable_def
proof (intro conjI allI impI)
  have L: "acyclic (declared e)" "\<And>i f ts t. fact_at e i = Some f \<Longrightarrow> ts \<in> set (sets_of f) \<Longrightarrow> t \<in> set ts \<Longrightarrow>
      \<exists>p. normalize_dependency_token t = Inr p \<and> fact_at e p \<noteq> None"
    using load unfolding loadable_def by blast+
  have "length (facts e1) = Suc (length (facts e))"
    using keys [THEN arg_cong, of length] by simp
  then show "int (length (facts e1)) \<le> MaxFactsPerSession" using cap by simp
  have named: "p \<in> named_by (concat (sets_of g)) \<Longrightarrow> fact_at e p \<noteq> None" for p
    using ok unfolding named_by_def check_sets_None by fastforce
  show "\<exists>p. normalize_dependency_token t = Inr p \<and> fact_at e1 p \<noteq> None"
    if tok: "fact_at e1 i = Some f" "ts \<in> set (sets_of f)" "t \<in> set ts" for i f ts t
  proof (cases "i = k")
    case True
    then have "ts \<in> set (sets_of g)" using tok at by simp
    then obtain p where "normalize_dependency_token t = Inr p" "fact_at e p \<noteq> None"
      using ok tok(3) unfolding check_sets_None by blast
    then show ?thesis using other at new by (cases "p = k") auto
  next
    case False
    then obtain p where "normalize_dependency_token t = Inr p" "fact_at e p \<noteq> None"
      using L(2) tok other by metis
    then show ?thesis using other at new by (cases "p = k") auto
  qed
  let ?P = "named_by (concat (sets_of g))"
  have sub: "declared e1 \<subseteq> declared e \<union> ?P \<times> {k}"
    using at other by (auto simp: declared_def) (metis option.inject)
  have src: "(k, y) \<notin> declared e" for y
  proof
    assume "(k, y) \<in> declared e"
    then obtain f t where "fact_at e y = Some f" "t \<in> set (concat (sets_of f))" "normalize_dependency_token t = Inr k"
      by (auto simp: declared_def named_by_def)
    then show False using L(2) [of y f _ t] new by fastforce
  qed
  have "k \<notin> ?P" using named new by blast
  from acyclic_add_sink [OF L(1) src this] show "acyclic (declared e1)" by (rule acyclic_subset [OF _ sub])
qed

lemma validate_new_cap:
  "validate_assert_fact now e f0 = (f, Inr False) \<Longrightarrow> int (length (facts e)) < MaxFactsPerSession"
  by (auto simp: validate_assert_fact_def split: if_splits)

lemma keys_put_new: "fact_at e k = None \<Longrightarrow> map fst (facts (put_fact k f e)) = map fst (facts e) @ [k]"
  by (simp add: put_fact_def update_new_key)

lemma register_root_wf:
  assumes wf: "wf_engine e" and v: "validate_assert_fact now e f0 = (f, Inr False)" and r: "is_root f"
  shows "put_fact (fact_id f) (f\<lparr>derived_status := manual_status f\<rparr>) (register_fact f e) =
      put_fact (fact_id f) (f\<lparr>derived_status := manual_status f\<rparr>) (flagged e)"
    "wf_engine (put_fact (fact_id f) (f\<lparr>derived_status := manual_status f\<rparr>) (register_fact f e))"
proof -
  let ?g = "f\<lparr>derived_status := manual_status f\<rparr>"
  show pr: "put_fact (fact_id f) ?g (register_fact f e) = put_fact (fact_id f) ?g (flagged e)"
    using put_register [of ?g f e] by simp
  show "wf_engine (put_fact (fact_id f) ?g (register_fact f e))"
    unfolding pr using root_wf [of "flagged e" ?g] wf validate_new [OF v] r by simp
qed

lemma register_sets_wf:
  assumes wf: "wf_engine e" and v: "validate_assert_fact now e f0 = (f, Inr False)" and r: "\<not> is_root f"
  obtains e2 where "initialize_sets t (fact_id f) 0 (sets_of f)
      (put_fact (fact_id f) (f\<lparr>derived_status := Invalid, valid_justification_count := 0\<rparr>) (register_fact f e)) = (None, e2)"
    "wf_engine e2" "built t (flagged e) f (length (sets_of f)) e2"
proof -
  note n = validate_new [OF v]
  let ?e0 = "flagged e"
  let ?g = "f\<lparr>derived_status := Invalid, valid_justification_count := 0\<rparr>"
  have wf0: "wf_engine ?e0" and new0: "fact_at ?e0 (fact_id f) = None" using wf n by simp_all
  have ok0: "check_sets ?e0 (sets_of f) = None" using n(4) by (simp add: check_sets_None)
  from initialize_sets_built [OF built_start [OF wf0 new0] new0 ok0, of "sets_of f"]
  obtain e2 where e2: "initialize_sets t (fact_id f) 0 (sets_of f) (put_fact (fact_id f) ?g ?e0) = (None, e2)"
    and b: "built t ?e0 f (length (sets_of f)) e2" by auto
  have "wf_engine e2" by (rule built_wf [OF wf0 new0 r b])
  then show ?thesis using that [of e2] e2 b put_register [of ?g f e] by simp
qed

lemma assert_root_keeps:
  assumes wf: "wf_engine e" and v: "validate_assert_fact now e f0 = (f, Inr False)" and root: "is_root f"
  shows "keeps e (map_option Inr (initialize_root_fact now f (register_fact f e)))"
proof -
  note n = validate_new [OF v] and cap = validate_new_cap [OF v] and reg = register_root_wf [OF wf v root]
  let ?g = "f\<lparr>derived_status := manual_status f\<rparr>"
  have load1: "loadable (put_fact (fact_id f) ?g (register_fact f e))" if "loadable e"
    unfolding reg(1)
    by (rule loadable_new [of e "fact_id f" _ ?g])
      (use that n(2,4) cap in \<open>simp_all add: keys_put_new\<close>)
  show ?thesis
    unfolding initialize_root_fact_def Let_def
    by (rule keeps_propagate) (use reg(2) load1 in auto)
qed

lemma assert_derived_keeps:
  assumes wf: "wf_engine e" and v: "validate_assert_fact now e f0 = (f, Inr False)" and root: "\<not> is_root f"
  shows "keeps e (initialize_derived_fact now f (register_fact f e))"
proof -
  note n = validate_new [OF v] and cap = validate_new_cap [OF v]
  obtain e2 where e2: "initialize_sets now (fact_id f) 0 (sets_of f)
      (put_fact (fact_id f) (f\<lparr>derived_status := Invalid, valid_justification_count := 0\<rparr>) (register_fact f e)) = (None, e2)"
    and wf2: "wf_engine e2" and b: "built now (flagged e) f (length (sets_of f)) e2"
    by (rule register_sets_wf [OF wf v root])
  obtain c where at: "fact_at e2 (fact_id f) = Some (f\<lparr>derived_status := Invalid, valid_justification_count := c\<rparr>)"
    using built_fact [OF b] by blast
  have "loadable e2" if "loadable e"
    by (rule loadable_new [OF that n(2) cap _ at])
      (use built_keys [OF b] built_other [OF b] n(4) in simp_all)
  then have "keeps e (map_option Inr (propagate now e2 [fact_id f]))"
    by (rule keeps_propagate [OF wf2])
  then show ?thesis using e2 by (simp add: initialize_derived_fact_def)
qed

lemma assert_fact_keeps:
  assumes wf: "wf_engine e"
  shows "keeps e (assert_fact now fo e)"
proof (cases fo)
  case (Some f0)
  obtain f r where v: "validate_assert_fact now e f0 = (f, r)" by fastforce
  show ?thesis
  proof (cases "r = Inr False")
    case True
    then show ?thesis
      using assert_root_keeps [OF wf] assert_derived_keeps [OF wf] v Some
      by (simp add: assert_fact_def)
  next
    case False
    then show ?thesis using wf v Some by (auto simp: assert_fact_def split: sum.split bool.split)
  qed
qed (simp add: assert_fact_def)

lemma new_engine_structure: "wf_engine new_engine" "loadable new_engine" "settled now new_engine"
  by (simp_all add: wf_engine_def loadable_def settled_iff new_engine_def deps_def declared_def child_sets_def
      acyclic_def MaxFactsPerSession_def)

end
