(* ===== verification/History.thy ===== *)
theory History
imports Totality
begin

text \<open>
  Runs of an engine. The operations share one contract, stated as a locale and discharged for
  each of them; a history is a run of operations at clock readings that a sweep or a quiet
  period connects. In every state a history reaches, the stored statuses are the ones the
  declarations and the roots determine.
\<close>

section \<open>The contract of an operation\<close>

locale engine_operation =
  fixes act :: "int \<Rightarrow> engine \<Rightarrow> (core_error + engine) option"
  assumes act_settles: "settled now e \<Longrightarrow> settles now (act now e)"
    and act_keeps: "wf_engine e \<Longrightarrow> keeps e (act now e)"
begin

lemma act_returns: "wf_engine e \<Longrightarrow> act now e \<noteq> None"
  using act_keeps [of e now] by (auto simp: keeps_def)

lemma act_success:
  assumes "settled now e" "loadable e" "act now e = Some (Inr e')"
  shows "settled now e'" "wf_engine e'" "loadable e'"
  using assms act_settles [OF assms(1)] act_keeps [of e now] by (simp_all add: settled_iff)

end

interpretation asserting: engine_operation "\<lambda>now. assert_fact now fo" for fo
  by unfold_locales (rule assert_fact_settles assert_fact_keeps, assumption)+

interpretation invalidating: engine_operation "\<lambda>now. invalidate_root now k" for k
  by unfold_locales (rule invalidate_root_settles invalidate_root_keeps, assumption)+

interpretation weighting: engine_operation "\<lambda>now. set_root_confidence now k c" for k c
  by unfold_locales (rule set_root_confidence_settles set_root_confidence_keeps, assumption)+

interpretation retracting: engine_operation "\<lambda>now. retract_fact now k r" for k r
  by unfold_locales (rule retract_fact_settles retract_fact_keeps, assumption)+

interpretation verifying: engine_operation "\<lambda>now. set_fact_verification now k st m ref r t" for k st m ref r t
  by unfold_locales (rule set_fact_verification_settles set_fact_verification_keeps, assumption)+

lemma review_settles: "settled now e \<Longrightarrow> settles now (Some (set_fact_review now k st r t e))"
  by (cases "set_fact_review now k st r t e") (auto intro: set_fact_review_settles)

interpretation reviewing: engine_operation "\<lambda>now e. Some (set_fact_review now k st r t e)" for k st r t
  by unfold_locales (rule review_settles set_fact_review_keeps, assumption)+

section \<open>Histories\<close>

datatype engine_op =
    OpAssert "fact option"
  | OpInvalidate string
  | OpConfidence string status
  | OpRetract string string
  | OpVerify string string string string string int
  | OpReview string string string int

fun run_op :: "int \<Rightarrow> engine_op \<Rightarrow> engine \<Rightarrow> (core_error + engine) option" where
  "run_op now (OpAssert fo) e = assert_fact now fo e"
| "run_op now (OpInvalidate k) e = invalidate_root now k e"
| "run_op now (OpConfidence k c) e = set_root_confidence now k c e"
| "run_op now (OpRetract k r) e = retract_fact now k r e"
| "run_op now (OpVerify k st m ref r t) e = set_fact_verification now k st m ref r t e"
| "run_op now (OpReview k st r t) e = Some (set_fact_review now k st r t e)"

interpretation running: engine_operation "\<lambda>now. run_op now x" for x
proof unfold_locales
  show "settled now e \<Longrightarrow> settles now (run_op now x e)" for now e
    by (cases x) (simp_all add: asserting.act_settles invalidating.act_settles weighting.act_settles
        retracting.act_settles verifying.act_settles reviewing.act_settles)
  show "wf_engine e \<Longrightarrow> keeps e (run_op now x e)" for now e
    by (cases x) (simp_all add: asserting.act_keeps invalidating.act_keeps weighting.act_keeps
        retracting.act_keeps verifying.act_keeps reviewing.act_keeps)
qed

text \<open>No deadline of a live fact passes between two clock readings.\<close>

definition quiet :: "int \<Rightarrow> int \<Rightarrow> engine \<Rightarrow> bool" where
  "quiet t now e \<longleftrightarrow>
     (\<forall>k f. fact_at e k = Some f \<longrightarrow> \<not> is_retracted e k \<longrightarrow> expired_at now f = expired_at t f)"

lemma settled_later:
  assumes "settled t e" "ageless e" "quiet t now e"
  shows "settled now e"
  unfolding settled_def
  by (rule pending_retracted [OF assms(1)]) (use assms in \<open>auto simp: quiet_def\<close>)

inductive history :: "int \<Rightarrow> engine \<Rightarrow> bool" where
  start: "history t new_engine"
| act: "history t e \<Longrightarrow> run_op t x e = Some (Inr e') \<Longrightarrow> history t e'"
| wait: "history t e \<Longrightarrow> ageless e \<Longrightarrow> quiet t now e \<Longrightarrow> history now e"
| sweep: "history t e \<Longrightarrow> t \<le> now \<Longrightarrow> ageless e \<Longrightarrow> sweep_expired_facts now e = Some (e', xs) \<Longrightarrow> history now e'"

text \<open>The same runs without any condition on the clock.\<close>

inductive any_history :: "engine \<Rightarrow> bool" where
  any_start: "any_history new_engine"
| any_act: "any_history e \<Longrightarrow> run_op t x e = Some (Inr e') \<Longrightarrow> any_history e'"
| any_sweep: "any_history e \<Longrightarrow> sweep_expired_facts now e = Some (e', xs) \<Longrightarrow> any_history e'"

lemma any_history_inv: "any_history e \<Longrightarrow> wf_engine e \<and> loadable e"
proof (induction rule: any_history.induct)
  case (any_act e t x e')
  then show ?case using running.act_keeps [of e t x] by simp
next
  case (any_sweep e now e' xs)
  then show ?case using sweep_keeps [of e now] by simp
qed (simp add: new_engine_structure)

lemma history_inv: "history t e \<Longrightarrow> settled t e \<and> loadable e"
proof (induction rule: history.induct)
  case (act t e x e')
  then show ?case using running.act_success by blast
next
  case (wait t e now)
  then show ?case using settled_later by blast
next
  case (sweep t e now e' xs)
  then have "settled now e'"
    using sweep_settles [of t e now] by (metis (no_types, lifting) option.inject prod.inject)
  moreover have "loadable e'"
    using sweep sweep_keeps [of e now] by (simp add: settled_iff)
  ultimately show ?case by simp
qed (simp add: new_engine_structure)

section \<open>What the statuses mean\<close>

text \<open>
  The specification, without counters or stored sets: what one declared set contributes at the
  effective statuses of the facts it names, and the status of a derived fact as the best
  contribution that reaches the threshold.
\<close>

definition set_support :: "int \<Rightarrow> engine \<Rightarrow> fact \<Rightarrow> string list \<Rightarrow> status" where
  "set_support now e f ts =
     (case split_dependency_set ts of
        Inl err \<Rightarrow> Invalid
      | Inr (pos, neg, all) \<Rightarrow>
         (let refs = map (\<lambda>p. (p, False)) pos @ map (\<lambda>p. (p, True)) neg;
              st = \<lambda>p. effective_status now e (fact_at e p)
          in if \<forall>(p, n) \<in> set refs. dependency_satisfied now (fact_at e p) (st p) n (Some f)
             then fold min (map (\<lambda>(p, n). dependency_confidence (st p) n) refs) Valid
             else Invalid))"

definition specified_status :: "int \<Rightarrow> engine \<Rightarrow> fact \<Rightarrow> status" where
  "specified_status now e f =
     (if is_retracted e (fact_id f) then Invalid
      else if is_root f then manual_status f
      else fold max (filter (\<lambda>c. ConfidenceThreshold \<le> c) (map (set_support now e f) (sets_of f))) Invalid)"

lemma fold_parent_step:
  assumes "\<forall>p \<in> set ps. fact_at e p \<noteq> None"
  shows "fold (parent_step now e c n) ps acc =
    (fst acc + length (filter (\<lambda>p. dependency_satisfied now (fact_at e p)
        (effective_status now e (fact_at e p)) n (Some c)) ps),
     fold min (map (\<lambda>p. dependency_confidence (effective_status now e (fact_at e p)) n) ps) (snd acc))"
  using assms
proof (induction ps arbitrary: acc)
  case (Cons p ps)
  then obtain f where f: "fact_at e p = Some f" by auto
  show ?case using Cons by (simp add: parent_step_def f Let_def min_def)
qed simp

lemma filter_all_length: "length (filter P xs) = length xs \<longleftrightarrow> (\<forall>x \<in> set xs. P x)"
  using sum_length_filter_compl [of P xs] by (auto simp: filter_empty_conv)

lemma compute_parents_support:
  assumes ok: "jset_ok e j js" and split: "split_dependency_set ts = Inr (js_positive js, js_negative js, js_parents js)"
  shows "jset_confidence js (compute_parents now e js f) = set_support now e f ts"
proof -
  let ?st = "\<lambda>p. effective_status now e (fact_at e p)"
  let ?sat = "\<lambda>n p. dependency_satisfied now (fact_at e p) (?st p) n (Some f)"
  let ?P = "js_positive js" and ?N = "js_negative js"
  have known: "\<forall>p \<in> set ?P. fact_at e p \<noteq> None" "\<forall>p \<in> set ?N. fact_at e p \<noteq> None"
    using ok not_known [of "parents_of js" e] by (auto simp: jset_ok_def parents_of_def)
  have target: "js_target js = length ?P + length ?N" using ok by (simp add: jset_ok_def)
  have cp: "compute_parents now e js f =
    (length (filter (?sat False) ?P) + length (filter (?sat True) ?N),
     fold min (map (\<lambda>p. dependency_confidence (?st p) True) ?N)
       (fold min (map (\<lambda>p. dependency_confidence (?st p) False) ?P) Valid))"
    unfolding compute_parents_def by (simp add: fold_parent_step known)
  have "fst (compute_parents now e js f) = js_target js \<longleftrightarrow>
      (\<forall>p \<in> set ?P. ?sat False p) \<and> (\<forall>p \<in> set ?N. ?sat True p)"
  proof -
    have "length (filter (?sat False) ?P) \<le> length ?P" "length (filter (?sat True) ?N) \<le> length ?N"
      by simp_all
    then have "length (filter (?sat False) ?P) + length (filter (?sat True) ?N) = length ?P + length ?N \<longleftrightarrow>
        length (filter (?sat False) ?P) = length ?P \<and> length (filter (?sat True) ?N) = length ?N"
      by linarith
    then show ?thesis unfolding cp target fst_conv filter_all_length .
  qed
  moreover have "(\<forall>(p, n) \<in> set (map (\<lambda>p. (p, False)) ?P @ map (\<lambda>p. (p, True)) ?N). ?sat n p) \<longleftrightarrow>
      (\<forall>p \<in> set ?P. ?sat False p) \<and> (\<forall>p \<in> set ?N. ?sat True p)"
    by auto
  moreover have "snd (compute_parents now e js f) =
      fold min (map (\<lambda>(p, n). dependency_confidence (?st p) n)
        (map (\<lambda>p. (p, False)) ?P @ map (\<lambda>p. (p, True)) ?N)) Valid"
    unfolding cp by (simp add: comp_def)
  ultimately show ?thesis
    by (simp add: set_support_def split jset_confidence_def Let_def)
qed

lemma fold_tally:
  assumes "\<forall>i \<in> set is. \<exists>js. jset_at e (justification_set_id (fact_id f) i) = Some js \<and> js_confidence js = c i"
  shows "snd (fold (tally_set e f) is acc) =
    fold max (filter (\<lambda>c. ConfidenceThreshold \<le> c) (map c is)) (snd acc)"
  using assms
proof (induction "is" arbitrary: acc)
  case (Cons i "is")
  then obtain js where "jset_at e (justification_set_id (fact_id f) i) = Some js" "js_confidence js = c i" by auto
  then show ?case using Cons by (auto simp: tally_set_def max_def)
qed simp

lemma settled_specified:
  assumes inv: "settled now e" and at: "fact_at e k = Some f"
  shows "derived_status f = specified_status now e f"
proof -
  have wf: "wf_engine e" and fresh: "\<And>j js. jset_at e j = Some js \<Longrightarrow> jset_fresh now e js"
    and st: "derived_status f = target_status e f"
    using inv at by (auto simp: settled_iff fact_settled_def)
  have fid: "fact_id f = k" by (rule wf_fact_id [OF wf at])
  let ?c = "\<lambda>i. set_support now e f (sets_of f ! i)"
  have set: "\<exists>js. jset_at e (justification_set_id (fact_id f) i) = Some js \<and> js_confidence js = ?c i"
    if i: "\<not> is_root f" "i \<in> set [0..<length (sets_of f)]" for i
  proof -
    obtain js where js: "jset_at e (justification_set_id k i) = Some js"
      using wf_sets [OF wf at i(1), of i] i(2) by auto
    have ok: "jset_ok e (justification_set_id k i) js" by (rule wf_jset [OF wf js])
    then have c: "js_child js = k" "split_dependency_set (sets_of f ! i) = Inr (js_positive js, js_negative js, js_parents js)"
      using at by (auto simp: jset_ok_def justification_set_id_inject)
    have "js_confidence js = jset_confidence js (compute_parents now e js f)"
      using fresh [OF js] at c(1) by (simp add: jset_fresh_def)
    then show ?thesis using compute_parents_support [OF ok c(2)] js fid by simp
  qed
  have "snd (tally_sets e f) =
      fold max (filter (\<lambda>c. ConfidenceThreshold \<le> c) (map (set_support now e f) (sets_of f))) Invalid"
    if "\<not> is_root f"
  proof -
    have "map ?c [0..<length (sets_of f)] = map (set_support now e f) (sets_of f)"
      by (rule nth_equalityI) simp_all
    then show ?thesis
      unfolding tally_sets_def using fold_tally [of "[0..<length (sets_of f)]" e f ?c "(0, Invalid)"] set [OF that]
      by simp
  qed
  then show ?thesis unfolding st by (simp add: target_status_def specified_status_def)
qed

section \<open>Running a list of operations\<close>

fun run_ops :: "int \<Rightarrow> engine_op list \<Rightarrow> engine \<Rightarrow> engine option" where
  "run_ops now [] e = Some e"
| "run_ops now (x # xs) e =
     (case run_op now x e of Some (Inr e') \<Rightarrow> run_ops now xs e' | _ \<Rightarrow> None)"

lemma run_ops_history: "history t e \<Longrightarrow> run_ops t xs e = Some e' \<Longrightarrow> history t e'"
  by (induction xs arbitrary: e) (auto split: option.splits sum.splits intro: history.act)

lemma run_ops_any_history: "any_history e \<Longrightarrow> run_ops t xs e = Some e' \<Longrightarrow> any_history e'"
  by (induction xs arbitrary: e) (auto split: option.splits sum.splits intro: any_act)

section \<open>Runs of the loop in any order\<close>

lemma work_steps_inv:
  "(work_step now)\<^sup>*\<^sup>* s s' \<Longrightarrow> pending_inv now (P \<union> set (snd s)) (fst s) \<Longrightarrow>
     pending_inv now (P \<union> set (snd s')) (fst s') \<and> same_graph (fst s) (fst s')"
proof (induction rule: rtranclp_induct)
  case (step s1 s2)
  then show ?case
    using work_step_inv [of now "fst s1" "snd s1" "fst s2" "snd s2"] same_graph_trans by fastforce
qed simp

lemma work_confluent:
  assumes "pending_inv now (set q) e" "(work_step now)\<^sup>*\<^sup>* (e, q) (a, [])" "(work_step now)\<^sup>*\<^sup>* (e, q) (b, [])"
  shows "map_option derived_status (fact_at a k) = map_option derived_status (fact_at b k)"
proof -
  have a: "settled now a" "same_graph e a" and b: "settled now b" "same_graph e b"
    using work_steps_inv [OF assms(2), of "{}"] work_steps_inv [OF assms(3), of "{}"] assms(1)
    by (simp_all add: settled_def)
  show ?thesis
    by (rule settled_unique [OF a(1) b(1) same_graph_trans [OF same_graph_sym [OF a(2)] b(2)]])
qed

end
