(* ===== verification/Snapshot.thy ===== *)
theory Snapshot
imports History "HOL-Library.Word"
begin

unbundle bit_operations_syntax

text \<open>
  ToSnapshot, FromSnapshot and buildValidationEngine (engine.go). The CRC-32 of hash/crc32 is
  defined on bytes; the byte format of encoding/gob is a pair of parameters, an encoder that may
  fail and its decoder.
\<close>

section \<open>CRC-32 (IEEE)\<close>

type_synonym bytes = "8 word list"

definition crc_shift :: "32 word \<Rightarrow> 32 word" where
  "crc_shift c = (if bit c 0 then drop_bit 1 c XOR 0xEDB88320 else drop_bit 1 c)"

definition crc_byte :: "8 word \<Rightarrow> 32 word \<Rightarrow> 32 word" where
  "crc_byte b c = (crc_shift ^^ 8) (c XOR ucast b)"

definition crc32 :: "bytes \<Rightarrow> 32 word" where
  "crc32 bs = NOT (fold crc_byte bs (NOT 0))"

lemma xor_cancel: "a XOR c = b XOR c \<Longrightarrow> a = (b :: 'a::len word)"
  by (metis xor.assoc xor.right_neutral xor_self_eq)

lemma crc_shift_inj: "inj crc_shift"
proof (rule injI)
  fix x y :: "32 word" assume eq: "crc_shift x = crc_shift y"
  have poly: "bit (0xEDB88320 :: 32 word) 31" by code_simp
  have top: "bit (crc_shift z) 31 \<longleftrightarrow> bit z 0" for z
    using bit_imp_le_length [of z 32] poly by (auto simp: crc_shift_def bit_xor_iff bit_drop_bit_eq)
  have b0: "bit x 0 = bit y 0" using top eq by metis
  have "drop_bit 1 x = drop_bit 1 y"
    using eq b0 by (auto simp: crc_shift_def split: if_splits dest: xor_cancel)
  then have "bit x (Suc n) = bit y (Suc n)" for n
    by (metis bit_drop_bit_eq plus_1_eq_Suc comp_apply)
  then show "x = y" using b0 by (intro bit_eqI) (metis not0_implies_Suc)
qed

lemma crc_byte_inj: "crc_byte b x = crc_byte b y \<Longrightarrow> x = y"
proof -
  assume "crc_byte b x = crc_byte b y"
  then have "x XOR ucast b = y XOR ucast b"
    using inj_fn [OF crc_shift_inj, of 8] by (auto simp: crc_byte_def inj_def)
  then show "x = y" by (rule xor_cancel)
qed

lemma crc_byte_differs: "a \<noteq> b \<Longrightarrow> crc_byte a c \<noteq> crc_byte b c"
proof
  assume ne: "a \<noteq> b" and "crc_byte a c = crc_byte b c"
  then have "c XOR ucast a = c XOR (ucast b :: 32 word)"
    using inj_fn [OF crc_shift_inj, of 8] by (auto simp: crc_byte_def inj_def)
  then have "c XOR (c XOR ucast a) = c XOR (c XOR (ucast b :: 32 word))" by simp
  then have "ucast a = (ucast b :: 32 word)" by (simp add: xor.assoc [symmetric])
  then have n: "bit (ucast a :: 32 word) n = bit (ucast b :: 32 word) n" for n by simp
  have "bit a n = bit b n" if "n < 8" for n using n [of n] that by (simp add: bit_ucast_iff)
  then have "a = b" by (intro bit_word_eqI) simp
  then show False using ne by simp
qed

lemma crc_fold_inj: "fold crc_byte bs x = fold crc_byte bs y \<Longrightarrow> x = y"
  by (induction bs arbitrary: x y) (auto dest: crc_byte_inj)

text \<open>One altered byte, whatever its position, changes the checksum.\<close>

lemma crc32_one_byte:
  assumes "a \<noteq> b"
  shows "crc32 (xs @ a # ys) \<noteq> crc32 (xs @ b # ys)"
  using crc_fold_inj [of ys] crc_byte_differs [OF assms] by (auto simp: crc32_def)

section \<open>The snapshot\<close>

record payload =
  pl_facts :: "(string \<times> fact) list"
  pl_jsets :: "(string \<times> jset) list"
  pl_children :: "(string \<times> string list) list"
  pl_collapsed :: "string list"
  pl_retracted :: "(string \<times> string) list"
  pl_mutation_count :: int

record snapshot =
  sn_timestamp :: int
  sn_mutation_count :: int
  sn_data :: bytes
  sn_checksum :: "32 word"

definition payload_of :: "engine \<Rightarrow> payload" where
  "payload_of e =
     \<lparr>pl_facts = facts e, pl_jsets = jsets e, pl_children = children e,
      pl_collapsed = collapsed_roots e, pl_retracted = retracted_facts e,
      pl_mutation_count = mutation_count e\<rparr>"

lemma payload_of_sel [simp]:
  "pl_facts (payload_of e) = facts e" "pl_jsets (payload_of e) = jsets e"
  "pl_children (payload_of e) = children e" "pl_collapsed (payload_of e) = collapsed_roots e"
  "pl_retracted (payload_of e) = retracted_facts e" "pl_mutation_count (payload_of e) = mutation_count e"
  by (simp_all add: payload_of_def)

text \<open>None is the error of an encoder that refuses the value.\<close>

definition to_snapshot :: "(payload \<Rightarrow> bytes option) \<Rightarrow> int \<Rightarrow> engine \<Rightarrow> snapshot option" where
  "to_snapshot gob_encode now e =
     map_option (\<lambda>d. \<lparr>sn_timestamp = now, sn_mutation_count = mutation_count e, sn_data = d,
                     sn_checksum = crc32 d\<rparr>)
       (gob_encode (payload_of e))"

text \<open>
  The engine the cycle check runs on is built from the declarations alone. A set enters it with
  its first parent; the counters stay zero.
\<close>

definition link_parent ::
  "string \<Rightarrow> string \<Rightarrow> string list \<times> string list \<times> string list \<Rightarrow> string \<Rightarrow> engine \<Rightarrow> core_error + engine" where
  "link_parent jid child s p v =
     (if fact_at v p = None then Inl (UnknownParent p)
      else Inr (put_jset jid
             \<lparr>js_id = jid, js_child = child, js_parents = snd (snd s), js_positive = fst s,
              js_negative = fst (snd s), js_target = 0, js_current = 0, js_confidence = 0, js_idom = []\<rparr>
             (add_child_index jid p v)))"

fun fold_err :: "('a \<Rightarrow> 's \<Rightarrow> 'e + 's) \<Rightarrow> 'a list \<Rightarrow> 's \<Rightarrow> 'e + 's" where
  "fold_err f [] s = Inr s"
| "fold_err f (x # xs) s = (case f x s of Inl e \<Rightarrow> Inl e | Inr s' \<Rightarrow> fold_err f xs s')"

definition link_set :: "fact \<Rightarrow> nat \<times> string list \<Rightarrow> engine \<Rightarrow> core_error + engine" where
  "link_set f ix v =
     (case split_dependency_set (snd ix) of
        Inl err \<Rightarrow> Inl err
      | Inr s \<Rightarrow> fold_err (link_parent (justification_set_id (fact_id f) (fst ix)) (fact_id f) s)
                  (snd (snd s)) v)"

definition link_fact :: "string \<times> fact \<Rightarrow> engine \<Rightarrow> core_error + engine" where
  "link_fact kf v = fold_err (link_set (snd kf)) (enumerate 0 (sets_of (snd kf))) v"

definition build_validation_engine :: "(string \<times> fact) list \<Rightarrow> core_error + engine" where
  "build_validation_engine fs = fold_err link_fact fs (new_engine\<lparr>facts := fs\<rparr>)"

fun first_cycle :: "engine \<Rightarrow> (string \<times> fact) list \<Rightarrow> core_error option" where
  "first_cycle v [] = None"
| "first_cycle v (kf # rest) =
     (case detect_cycle v (Some (snd kf)) of Some err \<Rightarrow> Some err | None \<Rightarrow> first_cycle v rest)"

definition from_snapshot ::
  "(bytes \<Rightarrow> payload option) \<Rightarrow> snapshot option \<Rightarrow> engine \<Rightarrow> core_error + engine" where
  "from_snapshot gob_decode so e =
     (case so of None \<Rightarrow> Inl (NilArgument ''snapshot'')
      | Some sn \<Rightarrow>
         if crc32 (sn_data sn) \<noteq> sn_checksum sn then Inl ChecksumMismatch
         else (case gob_decode (sn_data sn) of
                 None \<Rightarrow> Inl DecodeFailed
               | Some pl \<Rightarrow>
                  if int (length (pl_facts pl)) > MaxFactsPerSession
                  then Inl (SnapshotTooLarge (length (pl_facts pl)))
                  else (case build_validation_engine (pl_facts pl) of
                          Inl err \<Rightarrow> Inl err
                        | Inr v \<Rightarrow>
                           (case first_cycle v (pl_facts pl) of
                              Some err \<Rightarrow> Inl err
                            | None \<Rightarrow>
                               Inr (e\<lparr>facts := pl_facts pl, jsets := pl_jsets pl,
                                      children := pl_children pl, collapsed_roots := pl_collapsed pl,
                                      retracted_facts := pl_retracted pl,
                                      mutation_count := pl_mutation_count pl,
                                      dirty_dominators := True\<rparr>)))))"

section \<open>Restoring accepts what a history produced\<close>

lemma fold_err_invariant:
  assumes "P [] s" and "\<And>ys x zs s. xs = ys @ x # zs \<Longrightarrow> P ys s \<Longrightarrow> \<exists>s'. f x s = Inr s' \<and> P (ys @ [x]) s'"
  shows "\<exists>s'. fold_err f xs s = Inr s' \<and> P xs s'"
proof -
  have "\<exists>s'. fold_err f zs s = Inr s' \<and> P xs s'" if "xs = ys @ zs" "P ys s" for ys zs s
    using that
  proof (induction zs arbitrary: ys s)
    case (Cons z zs)
    then obtain s' where "f z s = Inr s'" "P (ys @ [z]) s'" using assms(2) by blast
    then show ?case using Cons.IH [of "ys @ [z]" s'] Cons.prems(1) by simp
  qed simp
  from this [of "[]" xs s] show ?thesis using assms(1) by simp
qed

text \<open>While the validation engine is built, its edges stay within the declared graph.\<close>

definition linked :: "engine \<Rightarrow> engine \<Rightarrow> bool" where
  "linked e v \<longleftrightarrow>
     facts v = facts e \<and>
     (\<forall>q j. j \<in> set (child_sets v q) \<longrightarrow> (\<exists>k i. j = justification_set_id k i \<and> (q, k) \<in> declared e)) \<and>
     (\<forall>j js. jset_at v j = Some js \<longrightarrow> (\<exists>i. j = justification_set_id (js_child js) i))"

lemma linked_edges: "linked e v \<Longrightarrow> edges v \<subseteq> declared e"
  by (auto simp: linked_def edges_def succs_iff) (metis justification_set_id_inject)

lemma link_parent_linked:
  assumes l: "linked e v" and known: "fact_at e p \<noteq> None" and dec: "(p, k) \<in> declared e"
  shows "\<exists>v'. link_parent (justification_set_id k i) k s p v = Inr v' \<and> linked e v'"
proof -
  have "fact_at v p \<noteq> None" using l known by (simp add: linked_def)
  then show ?thesis
    using l dec by (auto simp: link_parent_def linked_def)
qed

lemma link_set_linked:
  assumes load: "loadable e" and at: "fact_at e k = Some f" and fid: "fact_id f = k"
    and ts: "ts \<in> set (sets_of f)" and l: "linked e v"
  shows "\<exists>v'. link_set f (i, ts) v = Inr v' \<and> linked e v'"
proof -
  have tok: "\<exists>p. normalize_dependency_token t = Inr p \<and> fact_at e p \<noteq> None" if "t \<in> set ts" for t
    using load at ts that unfolding loadable_def by blast
  then have "list_all (\<lambda>t. \<exists>i. normalize_dependency_token t = Inr i) ts" by (auto simp: list_all_iff)
  then obtain pos neg all where s: "split_dependency_set ts = Inr (pos, neg, all)"
    unfolding split_dependency_set_def using split_tokens_total by blast
  have named: "set all \<subseteq> named_by ts"
    using split_dependency_known [OF s] split_dependency_parents [OF s] by simp
  have "\<exists>v'. fold_err (link_parent (justification_set_id k i) k (pos, neg, all)) all v = Inr v' \<and> linked e v'"
  proof (rule fold_err_invariant [where P = "\<lambda>_. linked e", OF l])
    fix ys p zs w assume "all = ys @ p # zs" and w: "linked e w"
    then have p: "p \<in> named_by ts" using named by auto
    then have "fact_at e p \<noteq> None" using tok by (auto simp: named_by_def) fastforce
    moreover have "(p, k) \<in> declared e" using p at ts by (auto simp: declared_def named_by_def)
    ultimately show "\<exists>s'. link_parent (justification_set_id k i) k (pos, neg, all) p w = Inr s' \<and> linked e s'"
      by (rule link_parent_linked [OF w])
  qed
  then show ?thesis by (simp add: link_set_def s fid)
qed

lemma validation_engine:
  assumes wf: "wf_engine e" and load: "loadable e"
  shows "\<exists>v. build_validation_engine (facts e) = Inr v \<and> linked e v"
  unfolding build_validation_engine_def
proof (rule fold_err_invariant [where P = "\<lambda>_. linked e"])
  show "linked e (new_engine\<lparr>facts := facts e\<rparr>)" by (simp add: linked_def new_engine_def child_sets_def)
  fix ys kf zs v assume kf: "facts e = ys @ kf # zs" and l: "linked e v"
  obtain k f where kf': "kf = (k, f)" by fastforce
  then have "(k, f) \<in> set (facts e)" using kf by simp
  then have at: "fact_at e k = Some f" using map_of_eq_in_set [OF wf_fact_keys [OF wf]] by blast
  note fid = wf_fact_id [OF wf at]
  have "\<exists>v'. fold_err (link_set f) (enumerate 0 (sets_of f)) v = Inr v' \<and> linked e v'"
  proof (rule fold_err_invariant [where P = "\<lambda>_. linked e", OF l])
    fix ys ix zs w assume ix: "enumerate 0 (sets_of f) = ys @ ix # zs" and w: "linked e w"
    have "snd ix \<in> set (map snd (enumerate 0 (sets_of f)))" unfolding ix by simp
    then have "snd ix \<in> set (sets_of f)" by simp
    then show "\<exists>s'. link_set f ix w = Inr s' \<and> linked e s'"
      using link_set_linked [OF load at fid _ w, of "snd ix" "fst ix"] by simp
  qed
  then show "\<exists>s'. link_fact kf v = Inr s' \<and> linked e s'" by (simp add: link_fact_def kf')
qed

lemma first_cycle_None: "first_cycle v kfs = None \<longleftrightarrow> (\<forall>kf \<in> set kfs. detect_cycle v (Some (snd kf)) = None)"
  by (induction kfs) (auto split: option.split)

lemma no_declared_cycle:
  assumes wf: "wf_engine e" and load: "loadable e" and l: "linked e v" and kf: "(k, f) \<in> set (facts e)"
  shows "detect_cycle v (Some f) = None"
proof -
  have at: "fact_at e k = Some f" using kf map_of_eq_in_set [OF wf_fact_keys [OF wf]] by blast
  note fid = wf_fact_id [OF wf at]
  have at': "fact_at v k \<noteq> None" using at l by (simp add: linked_def)
  have "\<exists>p. normalize_dependency_token t = Inr p \<and> (k, p) \<notin> (edges v)\<^sup>*" if t: "t \<in> set (concat (sets_of f))" for t
  proof -
    obtain ts where "ts \<in> set (sets_of f)" "t \<in> set ts" using t by auto
    then obtain p where p: "normalize_dependency_token t = Inr p" using load at unfolding loadable_def by blast
    then have dec: "(p, k) \<in> declared e" using at t by (auto simp: declared_def named_by_def)
    have "(k, p) \<notin> (edges v)\<^sup>*"
    proof
      assume "(k, p) \<in> (edges v)\<^sup>*"
      then have "(k, p) \<in> (declared e)\<^sup>*" using linked_edges [OF l] rtrancl_mono by blast
      then have "(k, k) \<in> (declared e)\<^sup>+" using dec by (rule rtrancl_into_trancl1)
      then show False using load by (simp add: loadable_def acyclic_def)
    qed
    then show ?thesis using p by blast
  qed
  then show ?thesis by (simp add: detect_cycle_def fid at' detect_tokens_None)
qed

definition restored :: "engine \<Rightarrow> engine \<Rightarrow> engine" where
  "restored s e =
     e\<lparr>facts := facts s, jsets := jsets s, children := children s, collapsed_roots := collapsed_roots s,
       retracted_facts := retracted_facts s, mutation_count := mutation_count s, dirty_dominators := True\<rparr>"

lemma snapshot_restores:
  assumes wf: "wf_engine s" and load: "loadable s"
    and enc: "gob_encode (payload_of s) = Some d" and dec: "gob_decode d = Some (payload_of s)"
  shows "from_snapshot gob_decode (to_snapshot gob_encode now s) e = Inr (restored s e)"
proof -
  obtain v where v: "build_validation_engine (facts s) = Inr v" "linked s v"
    using validation_engine [OF wf load] by blast
  have "first_cycle v (facts s) = None"
    using no_declared_cycle [OF wf load v(2)] by (auto simp: first_cycle_None)
  moreover have "\<not> MaxFactsPerSession < int (length (facts s))" using load by (simp add: loadable_def)
  ultimately show ?thesis
    by (simp add: from_snapshot_def to_snapshot_def enc dec restored_def v(1))
qed

lemma restored_settled: "settled now (restored s e) = settled now s"
  unfolding settled_def by (rule pending_inv_frame) (simp_all add: restored_def is_retracted_def fun_eq_iff)

lemma snapshot_one_byte:
  assumes "a \<noteq> b" "sn_data sn = xs @ a # ys" "sn_checksum sn = crc32 (sn_data sn)"
  shows "from_snapshot dec (Some (sn\<lparr>sn_data := xs @ b # ys\<rparr>)) e = Inl ChecksumMismatch"
  using assms crc32_one_byte [of b a xs ys] by (simp add: from_snapshot_def)

end
