(* ===== verification/Explain.thy ===== *)
theory Explain
imports Dominators
begin

text \<open>
  core/explain.go: the causal chain of a fact (a depth-first walk with one visited map), its
  confidence tiers, the decision-oriented summary, and the counterfactual report.
\<close>

section \<open>Tiers and beliefs\<close>

definition confidence_tier :: "real \<Rightarrow> string \<Rightarrow> string" where
  "confidence_tier conf kind =
     (if kind = AssertionKindUncertain
      then (if conf \<ge> ConfidenceThreshold then ''probable'' else ''uncertain'')
      else if conf > 9 / 10 then ''certain''
      else if conf \<ge> ConfidenceThreshold then ''probable'' else ''uncertain'')"

record belief =
  bl_fact_id :: string
  bl_confidence :: real
  bl_tier :: string
  bl_kind :: string
  bl_provenance :: "(string \<times> gval) list option"
  bl_payload :: gobj
  bl_is_root :: bool
  bl_parents :: "string list"
  bl_negated :: "string list"

definition chain_tokens :: "fact \<Rightarrow> string list" where
  "chain_tokens f = (if is_root f then [] else concat (sets_of f))"

text \<open>The walk strips the prefix only; it does not trim spaces as ParseDependencyRef does.\<close>

definition clean_token :: "string \<Rightarrow> string" where
  "clean_token t = trim_prefix t ''!''"

definition belief_of :: "int \<Rightarrow> engine \<Rightarrow> fact \<Rightarrow> belief" where
  "belief_of now e f =
     (let conf = effective_status now e (Some f)
      in \<lparr>bl_fact_id = fact_id f, bl_confidence = conf, bl_tier = confidence_tier conf (assertion_kind f),
          bl_kind = assertion_kind f,
          bl_provenance = (case obj_get (metadata f) ''_provenance'' of Some (GObj m) \<Rightarrow> Some m | _ \<Rightarrow> None),
          bl_payload = payload f, bl_is_root = is_root f,
          bl_parents = map clean_token (filter (\<lambda>t. \<not> has_prefix t ''!'') (chain_tokens f)),
          bl_negated = map clean_token (filter (\<lambda>t. has_prefix t ''!'') (chain_tokens f))\<rparr>)"

text \<open>The walk over a list of identifiers, threading the visited map.\<close>

function chain_list :: "int \<Rightarrow> engine \<Rightarrow> string list \<Rightarrow> string list \<Rightarrow> belief list \<times> string list" where
  "chain_list now e [] vis = ([], vis)"
| "chain_list now e (i # is) vis =
     (case fact_at e i of
        None \<Rightarrow> chain_list now e is vis
      | Some f \<Rightarrow>
         if fact_id f \<in> set vis then chain_list now e is vis
         else (let s1 = chain_list now e (map clean_token (chain_tokens f)) (fact_id f # vis);
                   s2 = chain_list now e is (snd s1)
               in (belief_of now e f # fst s1 @ fst s2, snd s2)))"
  by pat_completeness auto

lemma chain_list_visited: "chain_list_dom (now, e, is, vis) \<Longrightarrow> set vis \<subseteq> set (snd (chain_list now e is vis))"
proof (induction now e "is" vis rule: chain_list.pinduct)
  case (2 now e i "is" vis)
  then show ?case
    by (cases "fact_at e i") (fastforce simp: chain_list.psimps Let_def)+
qed (simp add: chain_list.psimps)

definition all_fact_ids :: "engine \<Rightarrow> string set" where
  "all_fact_ids e = (fact_id \<circ> snd) ` set (facts e)"

lemma fact_id_in: "fact_at e i = Some f \<Longrightarrow> fact_id f \<in> all_fact_ids e"
  using map_of_SomeD by (force simp: all_fact_ids_def)

termination chain_list
proof (relation "inv_image (finite_psubset <*lex*> less_than)
    (\<lambda>(now, e, is, vis). (all_fact_ids e - set vis, length is))", goal_cases)
  case 1
  then show ?case by (intro wf_inv_image wf_lex_prod) auto
next
  case (2 now e i "is" vis)
  then show ?case by simp
next
  case (3 now e i "is" vis f)
  then show ?case by simp
next
  case (4 now e i "is" vis f)
  then show ?case using fact_id_in [of e i f] by (auto simp: finite_psubset_def all_fact_ids_def)
next
  case (5 now e i "is" vis f x)
  then have "set vis \<subseteq> set (snd x)" using chain_list_visited [OF 5(4)] by auto
  then show ?case by (auto simp: finite_psubset_def all_fact_ids_def)
qed

declare chain_list.simps [simp del]
lemmas chain_list_code [code] = chain_list.simps

section \<open>The explanation\<close>

record source =
  sr_fact_id :: string
  sr_type :: string
  sr_ref :: string
  sr_hash :: string
  sr_policy :: string

record explanation =
  ex_fact_id :: string
  ex_summary :: string
  ex_status :: real
  ex_invalidated :: "string list"
  ex_sources :: "source list"
  ex_policies :: "string list"
  ex_chain :: "belief list"

definition prov_string :: "(string \<times> gval) list option \<Rightarrow> string \<Rightarrow> string option" where
  "prov_string p key =
     (case p of None \<Rightarrow> None
      | Some m \<Rightarrow> (case map_of m key of Some (GStr v) \<Rightarrow> Some v | _ \<Rightarrow> None))"

definition source_of :: "belief \<Rightarrow> source" where
  "source_of b =
     (let get = \<lambda>key. case prov_string (bl_provenance b) key of Some v \<Rightarrow> v | None \<Rightarrow> []
      in \<lparr>sr_fact_id = bl_fact_id b, sr_type = get ''source_type'', sr_ref = get ''source_ref'',
          sr_hash = get ''payload_hash'', sr_policy = get ''policy_version''\<rparr>)"

definition named_source :: "source \<Rightarrow> bool" where
  "named_source s \<longleftrightarrow> sr_type s \<noteq> [] \<or> sr_ref s \<noteq> [] \<or> sr_hash s \<noteq> [] \<or> sr_policy s \<noteq> []"

definition enrich_for_decision :: "fact \<Rightarrow> real \<Rightarrow> belief list \<Rightarrow> explanation" where
  "enrich_for_decision f st chain =
     (let policies = concat (map (\<lambda>b. case prov_string (bl_provenance b) ''policy_version'' of
                                        Some v \<Rightarrow> [v] | None \<Rightarrow> []) chain)
      in \<lparr>ex_fact_id = fact_id f,
          ex_summary = (if st < ConfidenceThreshold
             then ''Fact '' @ fact_id f @ '' is blocked or stale because one or more dependencies are no longer valid.''
             else ''Fact '' @ fact_id f @ '' is supported by the current dependency set.''),
          ex_status = st,
          ex_invalidated = sort (remdups (map bl_fact_id (filter (\<lambda>b. bl_confidence b < ConfidenceThreshold) chain))),
          ex_sources = filter named_source (map source_of chain),
          ex_policies = sort (remdups policies), ex_chain = chain\<rparr>)"

definition explain_reasoning :: "int \<Rightarrow> engine \<Rightarrow> string \<Rightarrow> core_error + explanation" where
  "explain_reasoning now e fid =
     (case fact_at e fid of
        None \<Rightarrow> Inl FactNotFound
      | Some f \<Rightarrow> Inr (enrich_for_decision f (effective_status now e (Some f)) (fst (chain_list now e [fid] []))))"

record counterfactual =
  cf_removed :: string
  cf_impacted :: "string list"
  cf_direct :: nat
  cf_total :: nat
  cf_loss :: real
  cf_narrative :: string

definition counterfactual_step ::
  "engine \<Rightarrow> string \<Rightarrow> string \<Rightarrow> string \<times> fact \<Rightarrow> counterfactual \<times> bool \<Rightarrow> counterfactual \<times> bool" where
  "counterfactual_step e target cf kf s =
     (let (k, f) = kf; (r, hit) = s
      in if k = cf then s
         else if is_dominator_ancestor e cf k
         then (r\<lparr>cf_impacted := cf_impacted r @ [k], cf_total := Suc (cf_total r),
                 cf_loss := cf_loss r + derived_status f,
                 cf_direct := (if idom f = cf then Suc (cf_direct r) else cf_direct r)\<rparr>,
               hit \<or> k = target)
         else s)"

definition compute_counterfactual :: "engine \<Rightarrow> string \<Rightarrow> string \<Rightarrow> counterfactual" where
  "compute_counterfactual e target cf =
     (let (r, hit) = fold (counterfactual_step e target cf) (facts e)
            (\<lparr>cf_removed = cf, cf_impacted = [], cf_direct = 0, cf_total = 0, cf_loss = 0, cf_narrative = []\<rparr>, False)
      in r\<lparr>cf_narrative :=
             (let q = CHR 0x27
              in if hit
                 then ''If '' @ q # cf @ q # '' had not existed, '' @ q # target @ q #
                      '' would have been invalidated because it depends on this fact through the causal chain.''
                 else ''If '' @ q # cf @ q # '' had not existed, '' @ q # target @ q #
                      '' would remain unaffected because it does not depend on this fact.'')\<rparr>)"

section \<open>What the chain contains\<close>

definition chain_edges :: "engine \<Rightarrow> (string \<times> string) set" where
  "chain_edges e =
     {(p, k). \<exists>f. fact_at e k = Some f \<and> p \<in> set (map clean_token (chain_tokens f)) \<and> fact_at e p \<noteq> None}"

lemma chain_list_unknown [simp]: "fact_at e i = None \<Longrightarrow> chain_list now e (i # is) vis = chain_list now e is vis"
  by (simp add: chain_list.simps)

lemma chain_list_ids:
  assumes "\<And>k f. fact_at e k = Some f \<Longrightarrow> fact_id f = k"
  shows "set (snd (chain_list now e is vis)) = set vis \<union> set (map bl_fact_id (fst (chain_list now e is vis))) \<and>
    distinct (map bl_fact_id (fst (chain_list now e is vis))) \<and>
    set (map bl_fact_id (fst (chain_list now e is vis))) \<inter> set vis = {}"
  using assms
proof (induction now e "is" vis rule: chain_list.induct)
  case (2 now e i "is" vis)
  show ?case
  proof (cases "fact_at e i")
    case None
    then show ?thesis using 2(1) 2(5) by simp
  next
    case (Some f)
    show ?thesis
    proof (cases "fact_id f \<in> set vis")
      case True
      then show ?thesis using 2(2) [OF Some True] 2(5) Some by (simp add: chain_list.simps)
    next
      case False
      let ?s1 = "chain_list now e (map clean_token (chain_tokens f)) (fact_id f # vis)"
      let ?s2 = "chain_list now e is (snd ?s1)"
      have a: "chain_list now e (i # is) vis = (belief_of now e f # fst ?s1 @ fst ?s2, snd ?s2)"
        using Some False by (simp add: chain_list.simps Let_def)
      note i1 = 2(3) [OF Some False] and i2 = 2(4) [OF Some False refl]
      have b: "bl_fact_id (belief_of now e f) = fact_id f" by (simp add: belief_of_def Let_def)
      show ?thesis unfolding a using i1 i2 2(5) False b by auto
    qed
  qed
qed (simp add: chain_list.simps)

lemma explain_chain_distinct:
  assumes "\<And>k f. fact_at e k = Some f \<Longrightarrow> fact_id f = k" and "explain_reasoning now e fid = Inr x"
  shows "distinct (map bl_fact_id (ex_chain x)) \<and> ex_chain x \<noteq> [] \<and> bl_fact_id (hd (ex_chain x)) = fid"
proof -
  obtain f where f: "fact_at e fid = Some f" using assms(2) by (auto simp: explain_reasoning_def split: option.splits)
  then have "ex_chain x = fst (chain_list now e [fid] [])"
    using assms(2) by (auto simp: explain_reasoning_def enrich_for_decision_def Let_def)
  then show ?thesis
    using chain_list_ids [of e now "[fid]" "[]"] assms(1) f
    by (auto simp: chain_list.simps Let_def belief_of_def)
qed

definition chain_parents :: "engine \<Rightarrow> string \<Rightarrow> string set" where
  "chain_parents e k = {p. (p, k) \<in> chain_edges e}"

lemma chain_parents_eq:
  "fact_at e k = Some f \<Longrightarrow> chain_parents e k = {p \<in> set (map clean_token (chain_tokens f)). fact_at e p \<noteq> None}"
  by (auto simp: chain_parents_def chain_edges_def)

lemma chain_list_known:
  assumes "\<And>k f. fact_at e k = Some f \<Longrightarrow> fact_id f = k"
  shows "x \<in> set (snd (chain_list now e is vis)) \<Longrightarrow> x \<notin> set vis \<Longrightarrow> fact_at e x \<noteq> None"
  using assms
proof (induction now e "is" vis rule: chain_list.induct)
  case (2 now e i "is" vis)
  show ?case
  proof (cases "fact_at e i")
    case None
    then show ?thesis using 2 by simp
  next
    case (Some f)
    show ?thesis
    proof (cases "fact_id f \<in> set vis")
      case True
      then show ?thesis using 2(2) [OF Some True _ 2(6) 2(7)] 2(5) Some by (simp add: chain_list.simps)
    next
      case False
      let ?s1 = "chain_list now e (map clean_token (chain_tokens f)) (fact_id f # vis)"
      have "x \<in> set (snd (chain_list now e is (snd ?s1)))"
        using 2(5) Some False by (simp add: chain_list.simps Let_def)
      then show ?thesis
        using 2(3) [OF Some False _ _ 2(7)] 2(4) [OF Some False refl _ _ 2(7)] 2(6,7) Some
        by (cases "x \<in> set (snd ?s1)") auto
    qed
  qed
qed (simp add: chain_list.simps)

text \<open>The walk is closed under parents and stays among the ancestors.\<close>

lemma chain_list_closed:
  assumes "\<And>k f. fact_at e k = Some f \<Longrightarrow> fact_id f = k"
  shows "{i \<in> set is. fact_at e i \<noteq> None} \<union> set vis \<subseteq> set (snd (chain_list now e is vis)) \<and>
    (\<forall>x \<in> set (snd (chain_list now e is vis)) - set vis.
       chain_parents e x \<subseteq> set (snd (chain_list now e is vis)) \<and> (\<exists>i \<in> set is. (x, i) \<in> (chain_edges e)\<^sup>*))"
  using assms
proof (induction now e "is" vis rule: chain_list.induct)
  case (2 now e i "is" vis)
  show ?case
  proof (cases "fact_at e i")
    case None
    then show ?thesis using 2(1) 2(5) by auto
  next
    case (Some f)
    have fid: "fact_id f = i" by (rule 2(5) [OF Some])
    show ?thesis
    proof (cases "fact_id f \<in> set vis")
      case True
      then show ?thesis using 2(2) [OF Some True] 2(5) Some fid by (auto simp: chain_list.simps)
    next
      case False
      let ?P = "map clean_token (chain_tokens f)"
      let ?s1 = "chain_list now e ?P (fact_id f # vis)"
      let ?s2 = "chain_list now e is (snd ?s1)"
      have a: "snd (chain_list now e (i # is) vis) = snd ?s2"
        using Some False by (simp add: chain_list.simps Let_def)
      note i1 = 2(3) [OF Some False 2(5)] and i2 = 2(4) [OF Some False refl 2(5)]
      have sub: "set (snd ?s1) \<subseteq> set (snd ?s2)" using i2 by blast
      have par: "chain_parents e i \<subseteq> set (snd ?s1)"
        using i1 unfolding chain_parents_eq [OF Some] by auto
      have up: "(x, i) \<in> (chain_edges e)\<^sup>*" if x: "x \<in> set (snd ?s1) - set vis" for x
      proof (cases "x = i")
        case False
        then have "x \<in> set (snd ?s1) - set (fact_id f # vis)" using x fid by simp
        then have "\<exists>p \<in> set ?P. (x, p) \<in> (chain_edges e)\<^sup>*" using i1 by blast
        then obtain p where p: "p \<in> set ?P" "(x, p) \<in> (chain_edges e)\<^sup>*" by blast
        have "x = p \<or> fact_at e p \<noteq> None"
          using p(2) by (cases rule: rtranclE) (auto simp: chain_edges_def)
        moreover have "fact_at e x \<noteq> None"
          using x False fid by (intro chain_list_known [of e x now ?P "fact_id f # vis"] 2(5)) auto
        ultimately have "(p, i) \<in> chain_edges e" using p(1) Some by (auto simp: chain_edges_def)
        then show ?thesis using p(2) by (rule rtrancl_into_rtrancl [rotated])
      qed simp
      have pars: "chain_parents e x \<subseteq> set (snd ?s2) \<and> (\<exists>k \<in> set (i # is). (x, k) \<in> (chain_edges e)\<^sup>*)"
        if x: "x \<in> set (snd ?s2) - set vis" for x
      proof (cases "x \<in> set (snd ?s1)")
        case True
        have "chain_parents e x \<subseteq> set (snd ?s1)"
        proof (cases "x = i")
          case False
          then have "x \<in> set (snd ?s1) - set (fact_id f # vis)" using True x fid by simp
          then show ?thesis using i1 by blast
        qed (use par in simp)
        then show ?thesis using sub up [of x] True x by auto
      next
        case False
        then have "x \<in> set (snd ?s2) - set (snd ?s1)" using x by blast
        then have "chain_parents e x \<subseteq> set (snd ?s2) \<and> (\<exists>k \<in> set is. (x, k) \<in> (chain_edges e)\<^sup>*)"
          using i2 by blast
        then show ?thesis by auto
      qed
      have "{k \<in> set (i # is). fact_at e k \<noteq> None} \<union> set vis \<subseteq> set (snd ?s2)"
        using i1 i2 fid by auto
      then show ?thesis unfolding a using pars by blast
    qed
  qed
qed (simp add: chain_list.simps)

lemma explain_chain_exact:
  assumes id: "\<And>k f. fact_at e k = Some f \<Longrightarrow> fact_id f = k" and x: "explain_reasoning now e fid = Inr x"
  shows "set (map bl_fact_id (ex_chain x)) = {k. (k, fid) \<in> (chain_edges e)\<^sup>*}"
proof -
  let ?V = "set (snd (chain_list now e [fid] []))"
  obtain f where f: "fact_at e fid = Some f" using x by (auto simp: explain_reasoning_def split: option.splits)
  have "ex_chain x = fst (chain_list now e [fid] [])"
    using x f by (auto simp: explain_reasoning_def enrich_for_decision_def Let_def)
  then have V: "set (map bl_fact_id (ex_chain x)) = ?V" using chain_list_ids [of e now "[fid]" "[]"] id by simp
  have c: "{i \<in> set [fid]. fact_at e i \<noteq> None} \<union> set [] \<subseteq> ?V \<and>
      (\<forall>x \<in> ?V - set []. chain_parents e x \<subseteq> ?V \<and> (\<exists>i \<in> set [fid]. (x, i) \<in> (chain_edges e)\<^sup>*))"
    using id by (rule chain_list_closed)
  have "k \<in> ?V" if "(k, fid) \<in> (chain_edges e)\<^sup>*" for k
    using that
  proof (induction rule: converse_rtrancl_induct)
    case (step y z)
    then have "chain_parents e z \<subseteq> ?V" using c by simp
    then show ?case using step(1) by (auto simp: chain_parents_def)
  qed (use c f in auto)
  then show ?thesis unfolding V using c by auto
qed

end
