(* ===== verification/DominatorInv.thy ===== *)
theory DominatorInv
imports Dominators
begin

text \<open>
  Recomputing the dominators returns on every well-formed engine and changes nothing but the
  dominator fields; the immediate dominator of a node is a strict ancestor of it; and the
  interval test is the ancestor relation of the tree they form.
\<close>

section \<open>Everything but the dominator fields\<close>

definition plain_fact :: "fact \<Rightarrow> fact" where
  "plain_fact f = f\<lparr>idom := [], pre_order := 0, post_order := 0\<rparr>"

definition plain_jset :: "jset \<Rightarrow> jset" where
  "plain_jset js = js\<lparr>js_idom := []\<rparr>"

definition plain_of :: "engine \<Rightarrow> engine" where
  "plain_of e =
     e\<lparr>facts := map (\<lambda>(k, f). (k, plain_fact f)) (facts e),
       jsets := map (\<lambda>(k, j). (k, plain_jset j)) (jsets e), dirty_dominators := False\<rparr>"

lemma plain_fact_sel [simp]:
  "fact_id (plain_fact f) = fact_id f" "is_root (plain_fact f) = is_root f"
  "sets_of (plain_fact f) = sets_of f" "manual_status (plain_fact f) = manual_status f"
  "derived_status (plain_fact f) = derived_status f" "valid_until (plain_fact f) = valid_until f"
  "metadata (plain_fact f) = metadata f" "assertion_kind (plain_fact f) = assertion_kind f"
  "asserted_at (plain_fact f) = asserted_at f"
  by (simp_all add: plain_fact_def)

lemma plain_jset_sel [simp]:
  "js_id (plain_jset j) = js_id j" "js_child (plain_jset j) = js_child j"
  "js_parents (plain_jset j) = js_parents j" "js_positive (plain_jset j) = js_positive j"
  "js_negative (plain_jset j) = js_negative j" "js_target (plain_jset j) = js_target j"
  "js_current (plain_jset j) = js_current j" "js_confidence (plain_jset j) = js_confidence j"
  "parents_of (plain_jset j) = parents_of j"
  by (simp_all add: plain_jset_def parents_of_def)

lemma plain_at [simp]:
  "fact_at (plain_of e) k = map_option plain_fact (fact_at e k)"
  "jset_at (plain_of e) j = map_option plain_jset (jset_at e j)"
  by (simp_all add: plain_of_def core_at)

lemma plain_frame [simp]:
  "children (plain_of e) = children e" "child_sets (plain_of e) = child_sets e"
  "is_retracted (plain_of e) i = is_retracted e i" "collapsed_roots (plain_of e) = collapsed_roots e"
  "map fst (facts (plain_of e)) = map fst (facts e)" "map fst (jsets (plain_of e)) = map fst (jsets e)"
  by (simp_all add: plain_of_def child_sets_def is_retracted_def fun_eq_iff comp_def case_prod_unfold)

lemma plain_keys: "fst ` set (facts (plain_of e)) = fst ` set (facts e)"
  by (metis plain_frame(5) set_map)

lemma plain_deps [simp]: "deps (plain_of e) = deps e"
  by (force simp: deps_def plain_of_def)

lemma plain_jset_ok: "jset_ok (plain_of e) k (plain_jset js) = jset_ok e k js"
  by (cases "fact_at e (js_child js)") (simp_all add: jset_ok_def plain_keys)

lemma all_map_option: "(\<forall>k v. map_option g (X k) = Some v \<longrightarrow> P k v) \<longleftrightarrow> (\<forall>k v. X k = Some v \<longrightarrow> P k (g v))"
  by auto

lemma all_map_option_nth: "(\<forall>k v i. map_option g (X k) = Some v \<longrightarrow> P k v i) \<longleftrightarrow> (\<forall>k v i. X k = Some v \<longrightarrow> P k (g v) i)"
  by auto

lemma ex_map_option: "(\<exists>v. map_option g x = Some v \<and> P v) \<longleftrightarrow> (\<exists>v. x = Some v \<and> P (g v))"
  by auto

lemma plain_wf [simp]: "wf_engine (plain_of e) = wf_engine e"
  unfolding wf_engine_def plain_frame plain_deps plain_at all_map_option all_map_option_nth ex_map_option
    plain_jset_ok plain_fact_sel plain_jset_sel option.map_disc_iff ..

lemma plain_grounding [simp]: "grounding_view_of (plain_fact f) = grounding_view_of f"
  by (rule grounding_view_of_metadata) simp_all

lemma plain_effective [simp]:
  "effective_status now (plain_of e) (Some (plain_fact f)) = effective_status now e (Some f)"
  by (simp add: effective_status_def expired_at_def)

lemma plain_parents: "compute_parents now (plain_of e) (plain_jset js) (plain_fact c) = compute_parents now e js c"
proof -
  have "compute_parents now (plain_of e) js (plain_fact c) = compute_parents now e js c"
  proof (rule compute_parents_cong)
    show "parent_view now (plain_of e) p = parent_view now e p" for p
      by (cases "fact_at e p") (simp_all add: parent_view_def)
    show "same_child (plain_fact c) c" by (rule same_childI) simp_all
  qed
  moreover have "compute_parents now (plain_of e) (plain_jset js) d = compute_parents now (plain_of e) js d" for d
    by (rule compute_parents_jset) simp_all
  ultimately show ?thesis by simp
qed

lemma plain_fresh: "jset_fresh now (plain_of e) (plain_jset js) = jset_fresh now e js"
  by (cases "fact_at e (js_child js)") (simp_all add: jset_fresh_def plain_parents jset_confidence_def)

lemma plain_target: "target_status (plain_of e) (plain_fact f) = target_status e f"
proof -
  have "tally_set (plain_of e) (plain_fact f) i acc = tally_set e f i acc" for i acc
    by (cases "jset_at e (justification_set_id (fact_id f) i)") (simp_all add: tally_set_def)
  then have "tally_set (plain_of e) (plain_fact f) = tally_set e f" by (simp add: fun_eq_iff)
  then show ?thesis by (simp add: target_status_def tally_sets_def)
qed

lemma plain_settled [simp]: "settled now (plain_of e) = settled now e"
  unfolding settled_iff plain_wf plain_at all_map_option plain_fresh fact_settled_def plain_target
    plain_fact_sel ..

lemma plain_loadable [simp]: "loadable (plain_of e) = loadable e"
  by (rule declared_cong(2)) (simp add: declarations_def plain_of_def comp_def case_prod_unfold)

lemma plain_put_fact:
  assumes "fact_at e k = Some f" "plain_fact g = plain_fact f"
  shows "plain_of (put_fact k g e) = plain_of e"
  using map_update_core [OF assms(1), of plain_fact g] assms(2) by (simp add: plain_of_def put_fact_def)

lemma plain_put_jset:
  assumes "jset_at e k = Some f" "plain_jset g = plain_jset f"
  shows "plain_of (put_jset k g e) = plain_of e"
  using map_update_core [OF assms(1), of plain_jset g] assms(2) by (simp add: plain_of_def put_jset_def)

lemma plain_same:
  assumes "plain_of e = plain_of e'"
  shows "wf_engine e = wf_engine e'" "settled now e = settled now e'" "deps e = deps e'"
    "map_option plain_fact (fact_at e k) = map_option plain_fact (fact_at e' k)"
    "map_option plain_jset (jset_at e k) = map_option plain_jset (jset_at e' k)"
    "collapsed_roots e = collapsed_roots e'" "is_retracted e i = is_retracted e' i"
  using plain_wf plain_settled plain_deps plain_at plain_frame(3,4) assms by metis+

section \<open>Immediate dominators are strict ancestors\<close>

definition ancestors :: "engine \<Rightarrow> string \<Rightarrow> string set" where
  "ancestors e c = {a. fact_at e a \<noteq> None \<and> (a, c) \<in> (deps e)\<^sup>+}"

definition idoms_ok :: "engine \<Rightarrow> bool" where
  "idoms_ok e \<longleftrightarrow>
     (\<forall>k f. fact_at e k = Some f \<longrightarrow> idom f \<in> insert [] (ancestors e k)) \<and>
     (\<forall>j js. jset_at e j = Some js \<longrightarrow> js_idom js \<in> insert [] (ancestors e (js_child js)) \<and>
        (fact_at e j \<noteq> None \<longrightarrow> js_idom js = []))"

lemma ancestors_trans: "a \<in> ancestors e b \<Longrightarrow> (b, c) \<in> (deps e)\<^sup>+ \<Longrightarrow> a \<in> ancestors e c"
  by (auto simp: ancestors_def)

lemma dominator_path_Nil [simp]: "dominator_path e [] = Some []"
  by (subst dominator_path.simps) simp

lemma dominator_path_fact:
  "fact_at e u = Some f \<Longrightarrow> u \<noteq> [] \<Longrightarrow>
     dominator_path e u = Option.bind (dominator_path e (idom f)) (\<lambda>p. Some (u # p))"
  by (subst dominator_path.simps) (simp add: dominator_link_def)

lemma ancestors_known: "a \<in> ancestors e c \<Longrightarrow> fact_at e a \<noteq> None"
  by (simp add: ancestors_def)

lemma ancestors_above: "a \<in> ancestors e c \<Longrightarrow> insert a (ancestors e a) \<subseteq> ancestors e c"
  by (auto simp: ancestors_def)

lemma dominator_path_total:
  assumes wf: "wf_engine e" and ok: "idoms_ok e" and "fact_at e u \<noteq> None"
  shows "\<exists>p. dominator_path e u = Some p \<and> set p \<subseteq> insert u (ancestors e u) \<and> (u \<noteq> [] \<longrightarrow> hd p = u \<and> p \<noteq> [])"
  using assms(3)
proof (induction u rule: wf_induct_rule [OF wf_trancl [OF finite_acyclic_wf [OF finite_deps [of e] wf_acyclic [OF wf]]]])
  case (1 u)
  then obtain f where f: "fact_at e u = Some f" by blast
  show ?case
  proof (cases "u = []")
    case False
    show ?thesis
    proof (cases "idom f = []")
      case True
      then show ?thesis
        using False by (simp add: dominator_path_fact [OF f])
    next
      case ne: False
      then have a: "idom f \<in> ancestors e u" using ok f unfolding idoms_ok_def by blast
      then obtain p where p: "dominator_path e (idom f) = Some p" "set p \<subseteq> insert (idom f) (ancestors e (idom f))"
        using 1(1) [of "idom f"] ancestors_known [OF a] by (auto simp: ancestors_def)
      have "set p \<subseteq> ancestors e u" using p(2) ancestors_above [OF a] by blast
      then show ?thesis using False p(1) by (auto simp: dominator_path_fact [OF f])
    qed
  qed simp
qed

lemma last_common_in: "last_common xs ys acc \<in> insert acc (set xs)"
  by (induction xs ys acc rule: last_common.induct) auto

lemma lca_total:
  assumes wf: "wf_engine e" and ok: "idoms_ok e"
    and a: "a \<in> insert [] (ancestors e c)" and b: "b \<in> insert [] (ancestors e c)"
  shows "\<exists>r. lca e a b = Some r \<and> r \<in> insert [] (ancestors e c)"
proof (cases "a = [] \<or> b = [] \<or> a = b")
  case False
  then have ab: "a \<in> ancestors e c" "b \<in> ancestors e c" using a b by auto
  obtain p where p: "dominator_path e a = Some p" "set p \<subseteq> insert a (ancestors e a)"
    using dominator_path_total [OF wf ok ancestors_known [OF ab(1)]] by blast
  obtain q where q: "dominator_path e b = Some q"
    using dominator_path_total [OF wf ok ancestors_known [OF ab(2)]] by blast
  have "set p \<subseteq> ancestors e c" using p(2) ancestors_above [OF ab(1)] by blast
  then have "last_common (rev p) (rev q) [] \<in> insert [] (ancestors e c)"
    using last_common_in [of "rev p" "rev q" "[]"] by auto
  then show ?thesis using False p(1) q by (simp add: lca_def)
qed (use a b in \<open>auto simp: lca_def\<close>)

lemma lca_fold_total:
  assumes wf: "wf_engine e" and ok: "idoms_ok e" and "a \<in> insert [] (ancestors e c)"
    and "set xs \<subseteq> insert [] (ancestors e c)"
  shows "\<exists>r. lca_fold e a xs = Some r \<and> r \<in> insert [] (ancestors e c)"
  using assms(3,4)
proof (induction xs arbitrary: a)
  case (Cons x xs)
  then obtain r where "lca e a x = Some r" "r \<in> insert [] (ancestors e c)"
    using lca_total [OF wf ok, of a c x] by auto
  then show ?case using Cons by auto
qed auto

lemma common_dominator_total:
  assumes "wf_engine e" "idoms_ok e" "set xs \<subseteq> insert [] (ancestors e c)"
  shows "\<exists>r. common_dominator e xs = Some r \<and> r \<in> insert [] (ancestors e c)"
  using assms(3) lca_fold_total [OF assms(1,2)] by (cases xs) (auto simp: common_dominator_def)

lemma ancestors_plain: "plain_of e = plain_of e' \<Longrightarrow> ancestors e c = ancestors e' c"
proof -
  assume p: "plain_of e = plain_of e'"
  have "fact_at e a = None \<longleftrightarrow> fact_at e' a = None" for a
    using plain_same(4) [OF p, of a] by (metis option.map_disc_iff)
  then show ?thesis using plain_same(3) [OF p] by (simp add: ancestors_def)
qed

lemma parent_ancestor:
  assumes wf: "wf_engine e" and js: "jset_at e j = Some js" and p: "p \<in> set (js_parents js)"
  shows "p \<in> ancestors e (js_child js)"
proof -
  have ok: "jset_ok e j js" by (rule wf_jset [OF wf js])
  obtain ts where "split_dependency_set ts = Inr (js_positive js, js_negative js, js_parents js)"
    using ok unfolding jset_ok_def by blast
  then have par: "p \<in> parents_of js" using p split_dependency_parents by (simp add: parents_of_def)
  then have "(p, js_child js) \<in> deps e" by (rule deps_at [OF js])
  then show ?thesis using deps_known(1) [OF wf] by (auto simp: ancestors_def)
qed

lemma idoms_ok_put_fact:
  assumes ok: "idoms_ok e" and at: "fact_at e k = Some f" and d: "d \<in> insert [] (ancestors e k)"
  shows "idoms_ok (put_fact k (f\<lparr>idom := d\<rparr>) e)" (is "idoms_ok ?e")
proof -
  have "plain_of ?e = plain_of e" by (rule plain_put_fact [OF at]) (simp add: plain_fact_def)
  then have a: "ancestors ?e c = ancestors e c" for c by (rule ancestors_plain)
  show ?thesis using ok d at unfolding idoms_ok_def a by auto
qed

lemma idoms_ok_put_jset:
  assumes ok: "idoms_ok e" and at: "jset_at e j = Some js" and new: "fact_at e j = None"
    and d: "d \<in> insert [] (ancestors e (js_child js))"
  shows "idoms_ok (put_jset j (js\<lparr>js_idom := d\<rparr>) e)" (is "idoms_ok ?e")
proof -
  have "plain_of ?e = plain_of e" by (rule plain_put_jset [OF at]) (simp add: plain_jset_def)
  then have a: "ancestors ?e c = ancestors e c" for c by (rule ancestors_plain)
  show ?thesis using ok d new unfolding idoms_ok_def a by auto
qed

lemma dominate_node_total:
  assumes wf: "wf_engine e" and ok: "idoms_ok e"
  shows "\<exists>e'. dominate_node u e = Some e' \<and> plain_of e' = plain_of e \<and> idoms_ok e'"
proof (cases "fact_at e u")
  case f: (Some f)
  have sub: "set (map (set_idom e) (incoming_sets e u)) \<subseteq> insert [] (ancestors e u)"
  proof -
    have "set_idom e j \<in> insert [] (ancestors e u)" if j: "j \<in> set (incoming_sets e u)" for j
    proof -
      obtain js where js: "(j, js) \<in> set (jsets e)" "js_child js = u"
        using j by (auto simp: incoming_sets_def)
      then have "jset_at e j = Some js" using map_of_eq_in_set [OF wf_jset_keys [OF wf]] by blast
      then show ?thesis using ok js(2) unfolding idoms_ok_def by (auto simp: set_idom_def)
    qed
    then show ?thesis by auto
  qed
  from common_dominator_total [OF wf ok sub] obtain d
    where d: "common_dominator e (map (set_idom e) (incoming_sets e u)) = Some d"
      "d \<in> insert [] (ancestors e u)" by blast
  have "plain_of (put_fact u (f\<lparr>idom := d\<rparr>) e) = plain_of e"
    by (rule plain_put_fact [OF f]) (simp add: plain_fact_def)
  then show ?thesis
    using f ok d(1) idoms_ok_put_fact [OF ok f d(2)] by (simp add: dominate_node_def)
next
  case none: None
  show ?thesis
  proof (cases "jset_at e u")
    case (Some js)
    have "set (js_parents js) \<subseteq> insert [] (ancestors e (js_child js))"
      using parent_ancestor [OF wf Some] by blast
    from common_dominator_total [OF wf ok this] obtain d
      where d: "common_dominator e (js_parents js) = Some d" "d \<in> insert [] (ancestors e (js_child js))" by blast
    have "plain_of (put_jset u (js\<lparr>js_idom := d\<rparr>) e) = plain_of e"
      by (rule plain_put_jset [OF Some]) (simp add: plain_jset_def)
    then show ?thesis
      using none Some d(1) idoms_ok_put_jset [OF ok Some none d(2)] by (simp add: dominate_node_def)
  qed (use none ok in \<open>simp add: dominate_node_def\<close>)
qed

lemma dominate_all_total:
  "wf_engine e \<Longrightarrow> idoms_ok e \<Longrightarrow> \<exists>e'. dominate_all us e = Some e' \<and> plain_of e' = plain_of e \<and> idoms_ok e'"
proof (induction us arbitrary: e)
  case (Cons u us)
  obtain e1 where e1: "dominate_node u e = Some e1" "plain_of e1 = plain_of e" "idoms_ok e1"
    using dominate_node_total [OF Cons.prems] by blast
  from Cons.IH [OF _ e1(3)] show ?case
    using e1 plain_same(1) [OF e1(2)] Cons.prems(1) by auto
qed simp

lemma reset_idoms_at:
  "fact_at (reset_idoms e) k = map_option (\<lambda>f. f\<lparr>idom := []\<rparr>) (fact_at e k)"
  "jset_at (reset_idoms e) j = map_option (\<lambda>js. js\<lparr>js_idom := []\<rparr>) (jset_at e j)"
  by (simp_all add: reset_idoms_def core_at)

lemma reset_idoms_plain [simp]: "plain_of (reset_idoms e) = plain_of e"
  by (simp add: plain_of_def reset_idoms_def plain_fact_def plain_jset_def comp_def case_prod_unfold)

lemma reset_idoms_ok: "idoms_ok (reset_idoms e)"
  unfolding idoms_ok_def reset_idoms_at by auto

end
