(* ===== verification/DominatorTree.thy ===== *)
theory DominatorTree
imports DominatorInv
begin

text \<open>
  The interval numbering of the dominator tree: it returns, writes only the interval fields, and
  gives nested intervals exactly to ancestors and their descendants.
\<close>

section \<open>Forests\<close>

abbreviation links :: "(string \<Rightarrow> string list) \<Rightarrow> (string \<times> string) set" where
  "links adj \<equiv> {(x, y). y \<in> set (adj x)}"

definition forest :: "(string \<Rightarrow> string list) \<Rightarrow> bool" where
  "forest adj \<longleftrightarrow>
     finite (links adj) \<and> acyclic (links adj) \<and> (\<forall>x. distinct (adj x)) \<and>
     (\<forall>x y z. z \<in> set (adj x) \<longrightarrow> z \<in> set (adj y) \<longrightarrow> x = y)"

definition below :: "(string \<Rightarrow> string list) \<Rightarrow> string set \<Rightarrow> string set" where
  "below adj U = {v. \<exists>u \<in> U. (u, v) \<in> (links adj)\<^sup>*}"

definition antichain :: "(string \<Rightarrow> string list) \<Rightarrow> string list \<Rightarrow> bool" where
  "antichain adj us \<longleftrightarrow>
     distinct us \<and> (\<forall>x \<in> set us. \<forall>y \<in> set us. (x, y) \<in> (links adj)\<^sup>* \<longrightarrow> x = y)"

lemma below_root: "below adj {u} = insert u (below adj (set (adj u)))"
proof
  show "below adj {u} \<subseteq> insert u (below adj (set (adj u)))"
    by (auto simp: below_def elim: converse_rtranclE)
  show "insert u (below adj (set (adj u))) \<subseteq> below adj {u}"
    by (auto simp: below_def intro: converse_rtrancl_into_rtrancl)
qed

lemma below_Cons: "below adj (set (u # us)) = below adj {u} \<union> below adj (set us)"
  by (auto simp: below_def)

lemma below_closed: "v \<in> below adj U \<Longrightarrow> (v, w) \<in> (links adj)\<^sup>* \<Longrightarrow> w \<in> below adj U"
  unfolding below_def by (blast intro: rtrancl_trans)

lemma comparable:
  assumes forest: "forest adj" and "(x, v) \<in> (links adj)\<^sup>*" "(y, v) \<in> (links adj)\<^sup>*"
  shows "(x, y) \<in> (links adj)\<^sup>* \<or> (y, x) \<in> (links adj)\<^sup>*"
  using assms(2,3)
proof (induction rule: rtrancl_induct)
  case (step w v)
  show ?case
  proof (cases "y = v")
    case True
    then show ?thesis using step(1,2) by (meson rtrancl.rtrancl_into_rtrancl)
  next
    case False
    then obtain w' where "(y, w') \<in> (links adj)\<^sup>*" "(w', v) \<in> links adj"
      using step(4) by (metis rtranclE)
    moreover then have "w' = w" using step(2) forest by (auto simp: forest_def)
    ultimately show ?thesis using step(3) by blast
  qed
qed blast

lemma below_disjoint:
  assumes "forest adj" "antichain adj (u # us)" "v \<in> below adj {u}" "w \<in> below adj (set us)"
  shows "(v, w) \<notin> (links adj)\<^sup>*" "(w, v) \<notin> (links adj)\<^sup>*" "v \<noteq> w"
proof -
  have no: "z \<notin> below adj (set us)" if "z \<in> below adj {u}" for z
  proof
    assume "z \<in> below adj (set us)"
    then obtain x where x: "x \<in> set us" "(x, z) \<in> (links adj)\<^sup>*" by (auto simp: below_def)
    have "(u, x) \<in> (links adj)\<^sup>* \<or> (x, u) \<in> (links adj)\<^sup>*"
      using comparable [OF assms(1) _ x(2)] that by (auto simp: below_def)
    then show False using assms(2) x(1) by (auto simp: antichain_def)
  qed
  show "(v, w) \<notin> (links adj)\<^sup>*" using no below_closed [OF assms(3)] assms(4) by blast
  show "(w, v) \<notin> (links adj)\<^sup>*" using no below_closed [OF assms(4)] assms(3) by blast
  show "v \<noteq> w" using no assms(3,4) by blast
qed

lemma antichain_children:
  assumes "forest adj"
  shows "antichain adj (adj u)"
  unfolding antichain_def
proof (intro conjI ballI impI)
  show "distinct (adj u)" using assms by (simp add: forest_def)
  fix x y assume x: "x \<in> set (adj u)" and y: "y \<in> set (adj u)" and xy: "(x, y) \<in> (links adj)\<^sup>*"
  show "x = y"
  proof (rule ccontr)
    assume "x \<noteq> y"
    then obtain w where w: "(x, w) \<in> (links adj)\<^sup>*" "(w, y) \<in> links adj" using xy by (metis rtranclE)
    then have "w = u" using y assms by (auto simp: forest_def)
    then have "(u, u) \<in> (links adj)\<^sup>+" using x w(1) by (auto intro: rtrancl_into_trancl2)
    then show False using assms by (auto simp: forest_def acyclic_def)
  qed
qed

lemma no_return: "forest adj \<Longrightarrow> v \<in> below adj (set (adj u)) \<Longrightarrow> (v, u) \<notin> (links adj)\<^sup>*"
proof
  assume f: "forest adj" and v: "v \<in> below adj (set (adj u))" and r: "(v, u) \<in> (links adj)\<^sup>*"
  obtain x where "x \<in> set (adj u)" "(x, v) \<in> (links adj)\<^sup>*" using v by (auto simp: below_def)
  then have "(u, u) \<in> (links adj)\<^sup>+" using r by (intro rtrancl_into_trancl2 [of u x]) auto
  then show False using f by (auto simp: forest_def acyclic_def)
qed

lemma root_not_below: "forest adj \<Longrightarrow> u \<notin> below adj (set (adj u))"
  using no_return [of adj u u] by blast

section \<open>The numbering\<close>

definition pre_at :: "engine \<Rightarrow> string \<Rightarrow> int" where
  "pre_at e v = (case fact_at e v of Some f \<Rightarrow> pre_order f | None \<Rightarrow> 0)"

definition post_at :: "engine \<Rightarrow> string \<Rightarrow> int" where
  "post_at e v = (case fact_at e v of Some f \<Rightarrow> post_order f | None \<Rightarrow> 0)"

lemma update_fact_frame [simp]:
  "jsets (update_fact k g e) = jsets e" "v \<noteq> k \<Longrightarrow> fact_at (update_fact k g e) v = fact_at e v"
  "fact_at (update_fact k g e) k = map_option g (fact_at e k)"
  by (simp_all add: update_fact_def split: option.split)

lemma update_fact_known [simp]: "fact_at (update_fact k g e) v = None \<longleftrightarrow> fact_at e v = None"
  by (cases "v = k") simp_all

text \<open>From timer t and state e to timer t' and state e', the subtrees of us are numbered.\<close>

definition numbered :: "(string \<Rightarrow> string list) \<Rightarrow> string list \<Rightarrow> int \<Rightarrow> engine \<Rightarrow> int \<Rightarrow> engine \<Rightarrow> bool" where
  "numbered adj us t e t' e' \<longleftrightarrow>
     t \<le> t' \<and> plain_of e' = plain_of e \<and> jsets e' = jsets e \<and>
     (\<forall>v. map_option idom (fact_at e' v) = map_option idom (fact_at e v)) \<and>
     (\<forall>v. v \<notin> below adj (set us) \<longrightarrow> fact_at e' v = fact_at e v) \<and>
     (\<forall>v. v \<in> below adj (set us) \<longrightarrow> fact_at e v \<noteq> None \<longrightarrow>
        t < pre_at e' v \<and> pre_at e' v < post_at e' v \<and> post_at e' v \<le> t') \<and>
     (\<forall>v w. v \<in> below adj (set us) \<longrightarrow> w \<in> below adj (set us) \<longrightarrow> fact_at e v \<noteq> None \<longrightarrow> fact_at e w \<noteq> None \<longrightarrow>
        (pre_at e' v \<le> pre_at e' w \<and> post_at e' w \<le> post_at e' v \<longleftrightarrow> (v, w) \<in> (links adj)\<^sup>*))"

lemma numberedD:
  assumes "numbered adj us t e t' e'"
  shows num_time: "t \<le> t'" and num_plain: "plain_of e' = plain_of e"
    and num_jsets: "jsets e' = jsets e"
    and num_idom: "map_option idom (fact_at e' v) = map_option idom (fact_at e v)"
    and num_other: "v \<notin> below adj (set us) \<Longrightarrow> fact_at e' v = fact_at e v"
    and num_span: "v \<in> below adj (set us) \<Longrightarrow> fact_at e v \<noteq> None \<Longrightarrow>
        t < pre_at e' v \<and> pre_at e' v < post_at e' v \<and> post_at e' v \<le> t'"
    and num_nested: "v \<in> below adj (set us) \<Longrightarrow> w \<in> below adj (set us) \<Longrightarrow> fact_at e v \<noteq> None \<Longrightarrow>
        fact_at e w \<noteq> None \<Longrightarrow>
        (pre_at e' v \<le> pre_at e' w \<and> post_at e' w \<le> post_at e' v \<longleftrightarrow> (v, w) \<in> (links adj)\<^sup>*)"
  using assms unfolding numbered_def by blast+

lemma update_interval:
  "plain_of (update_fact u (\<lambda>f. f\<lparr>pre_order := a\<rparr>) e) = plain_of e"
  "plain_of (update_fact u (\<lambda>f. f\<lparr>post_order := a\<rparr>) e) = plain_of e"
  "map_option idom (fact_at (update_fact u (\<lambda>f. f\<lparr>pre_order := a\<rparr>) e) v) = map_option idom (fact_at e v)"
  "map_option idom (fact_at (update_fact u (\<lambda>f. f\<lparr>post_order := a\<rparr>) e) v) = map_option idom (fact_at e v)"
  by (cases "fact_at e u"; cases "v = u";
      simp add: update_fact_def plain_put_fact plain_fact_def)+

lemma numbered_root:
  assumes forest: "forest adj"
    and inner: "numbered adj (adj u) (t + 1) (update_fact u (\<lambda>f. f\<lparr>pre_order := t + 1\<rparr>) e) t1 e2"
  shows "numbered adj [u] t e (t1 + 1) (update_fact u (\<lambda>f. f\<lparr>post_order := t1 + 1\<rparr>) e2)"
    (is "numbered adj [u] t e ?t ?e")
proof -
  let ?D = "below adj (set (adj u))"
  have D: "below adj (set [u]) = insert u ?D" by (simp add: below_root)
  have out: "u \<notin> ?D" by (rule root_not_below [OF forest])
  have u2: "fact_at e2 u = map_option (\<lambda>f. f\<lparr>pre_order := t + 1\<rparr>) (fact_at e u)"
    using num_other [OF inner out] by simp
  have pu: "fact_at e u \<noteq> None \<Longrightarrow> pre_at ?e u = t + 1 \<and> post_at ?e u = t1 + 1"
    using u2 by (auto simp: pre_at_def post_at_def)
  have pv: "pre_at ?e v = pre_at e2 v" "post_at ?e v = post_at e2 v" if "v \<in> ?D" for v
  proof -
    have "v \<noteq> u" using that out by blast
    then show "pre_at ?e v = pre_at e2 v" "post_at ?e v = post_at e2 v" by (simp_all add: pre_at_def post_at_def)
  qed
  have span: "t + 1 < pre_at e2 v \<and> pre_at e2 v < post_at e2 v \<and> post_at e2 v \<le> t1"
    if "v \<in> ?D" "fact_at e v \<noteq> None" for v
    using num_span [OF inner that(1)] that(2) by simp
  have nested: "pre_at e2 v \<le> pre_at e2 w \<and> post_at e2 w \<le> post_at e2 v \<longleftrightarrow> (v, w) \<in> (links adj)\<^sup>*"
    if "v \<in> ?D" "w \<in> ?D" "fact_at e v \<noteq> None" "fact_at e w \<noteq> None" for v w
    using num_nested [OF inner that(1,2)] that(3,4) by simp
  show ?thesis
    unfolding numbered_def D
  proof (intro conjI allI impI)
    show "t \<le> ?t" using num_time [OF inner] by simp
    show "plain_of ?e = plain_of e" using num_plain [OF inner] by (simp add: update_interval)
    show "jsets ?e = jsets e" using num_jsets [OF inner] by simp
    show "map_option idom (fact_at ?e v) = map_option idom (fact_at e v)" for v
      using num_idom [OF inner, of v] by (simp add: update_interval)
    show "fact_at ?e v = fact_at e v" if "v \<notin> insert u ?D" for v
      using that num_other [OF inner, of v] by simp
    fix v assume v: "v \<in> insert u ?D" and kv: "fact_at e v \<noteq> None"
    show "t < pre_at ?e v" "pre_at ?e v < post_at ?e v" "post_at ?e v \<le> ?t"
      using v kv pu pv span [of v] num_time [OF inner] by auto
    fix w assume w: "w \<in> insert u ?D" and kw: "fact_at e w \<noteq> None"
    show "pre_at ?e v \<le> pre_at ?e w \<and> post_at ?e w \<le> post_at ?e v \<longleftrightarrow> (v, w) \<in> (links adj)\<^sup>*"
    proof (cases "v = u")
      case True
      then have "(v, w) \<in> (links adj)\<^sup>*" using w D by (auto simp: below_def)
      moreover have "pre_at ?e v \<le> pre_at ?e w \<and> post_at ?e w \<le> post_at ?e v"
        using True w kv kw pu pv span [of w] by auto
      ultimately show ?thesis by blast
    next
      case vD: False
      then have vD: "v \<in> ?D" using v by simp
      show ?thesis
      proof (cases "w = u")
        case True
        then have "\<not> pre_at ?e v \<le> pre_at ?e w" using pv [OF vD] pu kw span [OF vD kv] by auto
        then show ?thesis using no_return [OF forest vD] True by simp
      next
        case False
        then have "w \<in> ?D" using w by simp
        then show ?thesis using nested [OF vD _ kv kw] pv vD by simp
      qed
    qed
  qed
qed

lemma numbered_append:
  assumes forest: "forest adj" and anti: "antichain adj (u # us)"
    and a: "numbered adj [u] t e s e1" and b: "numbered adj us s e1 t' e'"
  shows "numbered adj (u # us) t e t' e'"
proof -
  let ?A = "below adj {u}" and ?B = "below adj (set us)"
  note dis = below_disjoint [OF forest anti]
  have known: "fact_at e1 v = None \<longleftrightarrow> fact_at e v = None" for v
    using num_idom [OF a, of v] by (metis option.map_disc_iff)
  have pa: "pre_at e' v = pre_at e1 v" "post_at e' v = post_at e1 v" if "v \<in> ?A" for v
  proof -
    have "v \<notin> ?B" using dis(3) [OF that] by blast
    then show "pre_at e' v = pre_at e1 v" "post_at e' v = post_at e1 v"
      using num_other [OF b] by (simp_all add: pre_at_def post_at_def)
  qed
  have sa: "t < pre_at e' v \<and> pre_at e' v < post_at e' v \<and> post_at e' v \<le> s"
    if "v \<in> ?A" "fact_at e v \<noteq> None" for v
    using num_span [OF a, of v] pa that by simp
  have sb: "s < pre_at e' v \<and> pre_at e' v < post_at e' v \<and> post_at e' v \<le> t'"
    if "v \<in> ?B" "fact_at e v \<noteq> None" for v
    using num_span [OF b, of v] known that by simp
  show ?thesis
    unfolding numbered_def below_Cons
  proof (intro conjI allI impI)
    show "t \<le> t'" using num_time [OF a] num_time [OF b] by simp
    show "plain_of e' = plain_of e" using num_plain [OF a] num_plain [OF b] by simp
    show "jsets e' = jsets e" using num_jsets [OF a] num_jsets [OF b] by simp
    show "map_option idom (fact_at e' v) = map_option idom (fact_at e v)" for v
      using num_idom [OF a, of v] num_idom [OF b, of v] by simp
    show "fact_at e' v = fact_at e v" if "v \<notin> ?A \<union> ?B" for v
      using that num_other [OF a, of v] num_other [OF b, of v] by simp
    fix v assume v: "v \<in> ?A \<union> ?B" and kv: "fact_at e v \<noteq> None"
    show "t < pre_at e' v" "pre_at e' v < post_at e' v" "post_at e' v \<le> t'"
      using v sa [of v] sb [of v] kv num_time [OF a] num_time [OF b] by auto
    fix w assume w: "w \<in> ?A \<union> ?B" and kw: "fact_at e w \<noteq> None"
    consider "v \<in> ?A" "w \<in> ?A" | "v \<in> ?B" "w \<in> ?B" | "v \<in> ?A" "w \<in> ?B" | "v \<in> ?B" "w \<in> ?A"
      using v w by blast
    then show "pre_at e' v \<le> pre_at e' w \<and> post_at e' w \<le> post_at e' v \<longleftrightarrow> (v, w) \<in> (links adj)\<^sup>*"
    proof cases
      case 1
      then show ?thesis using num_nested [OF a, of v w] pa kv kw by simp
    next
      case 2
      then show ?thesis using num_nested [OF b, of v w] known kv kw by simp
    next
      case 3
      then show ?thesis using dis(1) [OF 3] sa [OF 3(1) kv] sb [OF 3(2) kw] by auto
    next
      case 4
      then show ?thesis using dis(2) [OF 4(2,1)] sa [OF 4(2) kw] sb [OF 4(1) kv] by auto
    qed
  qed
qed

lemma number_list_Nil [simp]: "number_list adj [] s = Some s"
  by (simp add: number_list.simps)

lemma number_list_Cons:
  "number_list adj (u # us) (t, e) =
     Option.bind (number_list adj (adj u) (t + 1, update_fact u (\<lambda>f. f\<lparr>pre_order := t + 1\<rparr>) e))
       (\<lambda>(t1, e1). number_list adj us (t1 + 1, update_fact u (\<lambda>f. f\<lparr>post_order := t1 + 1\<rparr>) e1))"
  by (subst number_list.simps) (simp add: case_prod_unfold)

lemma antichain_tl: "antichain adj (u # us) \<Longrightarrow> antichain adj us"
  by (auto simp: antichain_def)

lemma number_list_total:
  assumes forest: "forest adj" and "antichain adj us" and "\<forall>u \<in> set us. height (links adj) u < n"
  shows "\<exists>t' e'. number_list adj us (t, e) = Some (t', e') \<and> numbered adj us t e t' e'"
  using assms(2,3)
proof (induction n arbitrary: us t e)
  case 0
  then have "us = []" by auto
  then show ?case by (auto simp: numbered_def below_def)
next
  case (Suc n)
  show ?case
    using Suc.prems
  proof (induction us arbitrary: t e)
    case Nil
    then show ?case by (auto simp: numbered_def below_def)
  next
    case (Cons u us)
    have fa: "finite (links adj)" "acyclic (links adj)" using forest by (auto simp: forest_def)
    have "\<forall>c \<in> set (adj u). height (links adj) c < n"
    proof
      fix c assume "c \<in> set (adj u)"
      then have "height (links adj) c < height (links adj) u" using height_less [OF fa, of u c] by simp
      then show "height (links adj) c < n" using Cons.prems(2) by simp
    qed
    from Suc.IH [OF antichain_children [OF forest] this, of "t + 1" "update_fact u (\<lambda>f. f\<lparr>pre_order := t + 1\<rparr>) e"]
    obtain t1 e2 where i: "number_list adj (adj u) (t + 1, update_fact u (\<lambda>f. f\<lparr>pre_order := t + 1\<rparr>) e) = Some (t1, e2)"
      "numbered adj (adj u) (t + 1) (update_fact u (\<lambda>f. f\<lparr>pre_order := t + 1\<rparr>) e) t1 e2" by blast
    let ?e3 = "update_fact u (\<lambda>f. f\<lparr>post_order := t1 + 1\<rparr>) e2"
    obtain t' e' where r: "number_list adj us (t1 + 1, ?e3) = Some (t', e')" "numbered adj us (t1 + 1) ?e3 t' e'"
      using Cons.IH [OF antichain_tl [OF Cons.prems(1)], of "t1 + 1" ?e3] Cons.prems(2) by auto
    have "numbered adj (u # us) t e t' e'"
      by (rule numbered_append [OF forest Cons.prems(1) numbered_root [OF forest i(2)] r(2)])
    then show ?case using i(1) r(1) by (simp add: number_list_Cons)
  qed
qed

section \<open>The dominator tree of an engine\<close>

lemma keys_filter: "fst ` set (filter (\<lambda>(k, f). P f) al) = {k. \<exists>f. (k, f) \<in> set al \<and> P f}"
  by (force simp: image_iff)

lemma set_dominator_children:
  "set (dominator_children e u) =
     (if u = [] then {}
      else {k. \<exists>f. (k, f) \<in> set (facts e) \<and> idom f = u} \<union> {j. \<exists>js. (j, js) \<in> set (jsets e) \<and> js_idom js = u})"
  by (simp add: dominator_children_def keys_filter del: set_filter)

lemma dominator_children_iff:
  assumes "wf_engine e"
  shows "v \<in> set (dominator_children e u) \<longleftrightarrow>
    u \<noteq> [] \<and> ((\<exists>f. fact_at e v = Some f \<and> idom f = u) \<or> (\<exists>js. jset_at e v = Some js \<and> js_idom js = u))"
  using map_of_eq_in_set [OF wf_fact_keys [OF assms], of v] map_of_eq_in_set [OF wf_jset_keys [OF assms], of v]
  by (simp add: set_dominator_children)

lemma dominator_link_source:
  assumes wf: "wf_engine e" and ok: "idoms_ok e" and v: "v \<in> set (dominator_children e u)"
  shows "fact_at e u \<noteq> None" "fact_at e v = Some f \<Longrightarrow> idom f = u \<and> (u, v) \<in> (deps e)\<^sup>+"
proof -
  have u: "u \<noteq> []" using v by (auto simp: dominator_children_iff [OF wf])
  consider f where "fact_at e v = Some f" "idom f = u" | js where "jset_at e v = Some js" "js_idom js = u"
    using v by (auto simp: dominator_children_iff [OF wf])
  then have "fact_at e u \<noteq> None \<and> (\<forall>f. fact_at e v = Some f \<longrightarrow> idom f = u \<and> (u, v) \<in> (deps e)\<^sup>+)"
  proof cases
    case 1
    then have "u \<in> ancestors e v" using ok u unfolding idoms_ok_def by fastforce
    then show ?thesis using 1 by (auto simp: ancestors_def)
  next
    case 2
    then have "u \<in> ancestors e (js_child js)" "fact_at e v = None"
      using ok u unfolding idoms_ok_def by fastforce+
    then show ?thesis by (auto simp: ancestors_def)
  qed
  then show "fact_at e u \<noteq> None" "fact_at e v = Some f \<Longrightarrow> idom f = u \<and> (u, v) \<in> (deps e)\<^sup>+" by blast+
qed

lemma dominator_forest:
  assumes wf: "wf_engine e" and ok: "idoms_ok e"
  shows "forest (dominator_children e)"
  unfolding forest_def
proof (intro conjI allI impI)
  let ?adj = "dominator_children e"
  note iff = dominator_children_iff [OF wf] and src = dominator_link_source [OF wf ok]
  have "links ?adj \<subseteq> (\<lambda>(k, f). (idom f, k)) ` set (facts e) \<union> (\<lambda>(j, js). (js_idom js, j)) ` set (jsets e)"
    by (force simp: dominator_children_def split: if_splits)
  then show "finite (links ?adj)" by (rule finite_subset) simp
  have up: "(x, y) \<in> (links ?adj)\<^sup>+ \<Longrightarrow> fact_at e y \<noteq> None \<Longrightarrow> (x, y) \<in> (deps e)\<^sup>+" for x y
  proof (induction rule: trancl_induct)
    case (base y)
    then show ?case using src(2) [of y x] by auto
  next
    case (step y z)
    have "(y, z) \<in> (deps e)\<^sup>+" using src(2) [of z y] step by auto
    moreover have "fact_at e y \<noteq> None" using src(1) [of z y] step(2) by simp
    ultimately show ?case using step(3) by (blast intro: trancl_trans)
  qed
  show "acyclic (links ?adj)"
    unfolding acyclic_def
  proof (intro allI notI)
    fix x assume c: "(x, x) \<in> (links ?adj)\<^sup>+"
    then obtain y where "y \<in> set (?adj x)" by (auto elim: converse_tranclE)
    then have "fact_at e x \<noteq> None" by (rule src(1))
    then show False using up [OF c] wf_acyclic [OF wf] by (auto simp: acyclic_def)
  qed
  show "x = y" if "z \<in> set (?adj x)" "z \<in> set (?adj y)" for x y z
  proof (cases "fact_at e z")
    case (Some f)
    then show ?thesis using src(2) that by metis
  next
    case None
    then show ?thesis using that by (auto simp: iff)
  qed
  show "distinct (?adj u)" for u
  proof -
    have "js_idom js = []" if "(k, f) \<in> set (facts e)" "(k, js) \<in> set (jsets e)" for k f js
    proof -
      have "jset_at e k = Some js" using that(2) map_of_eq_in_set [OF wf_jset_keys [OF wf]] by blast
      moreover have "fact_at e k = Some f" using that map_of_eq_in_set [OF wf_fact_keys [OF wf]] by blast
      ultimately show ?thesis using ok unfolding idoms_ok_def by auto
    qed
    then show ?thesis
      using wf_fact_keys [OF wf] wf_jset_keys [OF wf]
      by (auto simp: dominator_children_def distinct_map_filter)
  qed
qed

lemma dominator_roots_antichain:
  assumes wf: "wf_engine e" and ok: "idoms_ok e"
  shows "antichain (dominator_children e) (dominator_roots e)"
  unfolding antichain_def
proof (intro conjI ballI impI)
  show "distinct (dominator_roots e)"
    using wf_fact_keys [OF wf] by (simp add: dominator_roots_def distinct_map_filter)
  fix x y assume y: "y \<in> set (dominator_roots e)" and r: "(x, y) \<in> (links (dominator_children e))\<^sup>*"
  obtain f where f: "fact_at e y = Some f" "idom f = []"
    using y map_of_eq_in_set [OF wf_fact_keys [OF wf]] by (auto simp: dominator_roots_def)
  show "x = y"
  proof (rule ccontr)
    assume "x \<noteq> y"
    then obtain w where "y \<in> set (dominator_children e w)" using r by (auto elim: rtranclE)
    then have "idom f = w" "w \<noteq> []"
      using dominator_link_source(2) [OF wf ok _ f(1)] by (auto simp: dominator_children_iff [OF wf])
    then show False using f(2) by simp
  qed
qed

lemma fact_below_roots:
  assumes wf: "wf_engine e" and ok: "idoms_ok e" and "fact_at e v \<noteq> None"
  shows "v \<in> below (dominator_children e) (set (dominator_roots e))"
  using assms(3)
proof (induction v rule: wf_induct_rule [OF wf_trancl [OF finite_acyclic_wf [OF finite_deps [of e] wf_acyclic [OF wf]]]])
  case (1 v)
  then obtain f where f: "fact_at e v = Some f" by blast
  show ?case
  proof (cases "idom f = []")
    case True
    then have "v \<in> set (dominator_roots e)"
      using f map_of_SomeD by (force simp: dominator_roots_def)
    then show ?thesis by (auto simp: below_def)
  next
    case False
    then have a: "idom f \<in> ancestors e v" using ok f unfolding idoms_ok_def by blast
    then have "idom f \<in> below (dominator_children e) (set (dominator_roots e))"
      using 1(1) by (auto simp: ancestors_def)
    moreover have "v \<in> set (dominator_children e (idom f))"
      using f False by (simp add: dominator_children_iff [OF wf])
    ultimately show ?thesis by (auto intro: below_closed)
  qed
qed

section \<open>Recomputation\<close>

text \<open>What holds once the dominators are fresh.\<close>

definition dominators_fresh :: "engine \<Rightarrow> bool" where
  "dominators_fresh e \<longleftrightarrow>
     idoms_ok e \<and>
     (\<forall>u v. fact_at e u \<noteq> None \<longrightarrow> fact_at e v \<noteq> None \<longrightarrow>
        (is_dominator_ancestor e u v \<longleftrightarrow> (u, v) \<in> (links (dominator_children e))\<^sup>*))"

lemma links_same:
  assumes wf: "wf_engine e" "wf_engine e'" and id: "\<And>v. map_option idom (fact_at e' v) = map_option idom (fact_at e v)"
    and js: "jsets e' = jsets e"
  shows "links (dominator_children e') = links (dominator_children e)"
proof -
  have "(\<exists>f. fact_at e' v = Some f \<and> idom f = u) \<longleftrightarrow> (\<exists>f. fact_at e v = Some f \<and> idom f = u)" for u v
    using id [of v] by (cases "fact_at e' v"; cases "fact_at e v") auto
  then show ?thesis by (simp add: dominator_children_iff wf js)
qed

lemma recompute_dominators_total:
  assumes wf: "wf_engine e"
  shows "\<exists>e'. recompute_dominators e = Some e' \<and> plain_of e' = plain_of e \<and> dominators_fresh e' \<and>
    \<not> dirty_dominators e'"
proof -
  have wf0: "wf_engine (reset_idoms e)" using plain_same(1) [OF reset_idoms_plain] wf by simp
  obtain e1 where e1: "dominate_all (topological_sort e) (reset_idoms e) = Some e1" "plain_of e1 = plain_of e"
    "idoms_ok e1" using dominate_all_total [OF wf0 reset_idoms_ok] by auto
  have wf1: "wf_engine e1" using plain_same(1) [OF e1(2)] wf by simp
  let ?adj = "dominator_children e1" and ?roots = "dominator_roots e1"
  obtain n where "\<forall>u \<in> set ?roots. height (links ?adj) u < n"
    using finite_nat_set_iff_bounded [of "height (links ?adj) ` set ?roots"] by auto
  then obtain t e2 where n: "number_list ?adj ?roots (0, e1) = Some (t, e2)" "numbered ?adj ?roots 0 e1 t e2"
    using number_list_total [OF dominator_forest [OF wf1 e1(3)] dominator_roots_antichain [OF wf1 e1(3)]] by blast
  let ?e = "e2\<lparr>dirty_dominators := False\<rparr>"
  have plain: "plain_of ?e = plain_of e"
    using num_plain [OF n(2)] e1(2) by (simp add: plain_of_def)
  have wfe: "wf_engine ?e" using plain_same(1) [OF plain] wf by simp
  have links: "links (dominator_children ?e) = links ?adj"
    by (rule links_same [OF wf1 wfe]) (use num_idom [OF n(2)] num_jsets [OF n(2)] in simp_all)
  have anc: "ancestors ?e = ancestors e1" using ancestors_plain [of ?e e1] plain e1(2) by (simp add: fun_eq_iff)
  have known: "fact_at e1 v = None \<longleftrightarrow> fact_at e2 v = None" for v
    using num_idom [OF n(2), of v] by (metis option.map_disc_iff)
  have "idoms_ok ?e"
  proof -
    have "idom f \<in> insert [] (ancestors ?e k)" if f: "fact_at ?e k = Some f" for k f
    proof -
      obtain g where "fact_at e1 k = Some g" "idom g = idom f"
        using f num_idom [OF n(2), of k] by (cases "fact_at e1 k") auto
      then show ?thesis using e1(3) unfolding idoms_ok_def anc by metis
    qed
    then show ?thesis
      using e1(3) num_jsets [OF n(2)] known unfolding idoms_ok_def anc by auto
  qed
  moreover have "is_dominator_ancestor ?e u v \<longleftrightarrow> (u, v) \<in> (links ?adj)\<^sup>*"
    if "fact_at ?e u \<noteq> None" "fact_at ?e v \<noteq> None" for u v
  proof -
    have k: "fact_at e1 u \<noteq> None" "fact_at e1 v \<noteq> None" using that known by simp_all
    have "is_dominator_ancestor ?e u v \<longleftrightarrow> pre_at e2 u \<le> pre_at e2 v \<and> post_at e2 v \<le> post_at e2 u"
      using that by (auto simp: is_dominator_ancestor_def pre_at_def post_at_def)
    then show ?thesis
      using num_nested [OF n(2) fact_below_roots [OF wf1 e1(3) k(1)] fact_below_roots [OF wf1 e1(3) k(2)] k] by simp
  qed
  ultimately have "dominators_fresh ?e" by (simp add: dominators_fresh_def links)
  then show ?thesis
    using e1(1) n(1) plain by (simp add: recompute_dominators_def compute_dominator_intervals_def)
qed

end
