(* ===== verification/GetStatus.thy ===== *)
theory GetStatus
imports DominatorTree
begin

text \<open>
  GetStatus against the effective status. Pruning below a collapsed root never raises a status;
  on engines whose derived facts each declare one set of positive parents it changes nothing,
  because there every strict ancestor of a valid fact is valid itself. With alternative sets or
  negated parents it does lower statuses, as two concrete engines show.
\<close>

section \<open>The answer of GetStatus\<close>

definition pruned :: "engine \<Rightarrow> string \<Rightarrow> bool" where
  "pruned e k \<longleftrightarrow>
     (\<exists>r \<in> set (collapsed_roots e). fact_at e r \<noteq> None \<and> (r, k) \<in> (links (dominator_children e))\<^sup>*)"

lemma effective_plain:
  assumes "plain_of e' = plain_of e"
  shows "effective_status now e' (fact_at e' k) = effective_status now e (fact_at e k)"
proof -
  have "effective_status now e (fact_at e k) = effective_status now (plain_of e) (fact_at (plain_of e) k)" for e
    by (cases "fact_at e k") (simp_all add: effective_status_def expired_at_def)
  then show ?thesis using assms by metis
qed

lemma pruned_status_eq:
  assumes fresh: "dominators_fresh e"
  shows "pruned_status now k e =
    (if effective_status now e (fact_at e k) < ConfidenceThreshold \<or> pruned e k then Invalid
     else effective_status now e (fact_at e k))"
proof (cases "fact_at e k")
  case None
  then show ?thesis by (simp add: pruned_status_def effective_status_def status_defs)
next
  case (Some f)
  have "list_ex (\<lambda>r. is_dominator_ancestor e r k) (collapsed_roots e) \<longleftrightarrow> pruned e k"
  proof -
    have "is_dominator_ancestor e r k \<longleftrightarrow> fact_at e r \<noteq> None \<and> (r, k) \<in> (links (dominator_children e))\<^sup>*" for r
    proof (cases "fact_at e r")
      case None
      then show ?thesis by (simp add: is_dominator_ancestor_def)
    next
      case (Some a)
      then show ?thesis using fresh \<open>fact_at e k = Some f\<close> unfolding dominators_fresh_def by auto
    qed
    then show ?thesis by (auto simp: list_ex_iff pruned_def)
  qed
  then show ?thesis using Some by (simp add: pruned_status_def Let_def)
qed

lemma get_status_total:
  assumes wf: "wf_engine e" and clean: "dirty_dominators e \<or> dominators_fresh e"
  obtains e' where "get_status now k e = Some (e', pruned_status now k e')"
    and "plain_of e' = plain_of e" and "dominators_fresh e'"
proof (cases "dirty_dominators e")
  case True
  then show ?thesis
    using that recompute_dominators_total [OF wf] by (fastforce simp: get_status_def)
next
  case False
  then show ?thesis using that [of e] clean by (simp add: get_status_def)
qed

section \<open>Collapsed roots\<close>

definition collapsed_ok :: "engine \<Rightarrow> bool" where
  "collapsed_ok e \<longleftrightarrow>
     (\<forall>k \<in> set (collapsed_roots e). \<exists>f. fact_at e k = Some f \<and> is_root f \<and> manual_status f < ConfidenceThreshold)"

lemma collapsed_ok_mono:
  assumes "collapsed_ok e" "set (collapsed_roots e') \<subseteq> set (collapsed_roots e)"
    and "\<And>k f. fact_at e k = Some f \<Longrightarrow>
      \<exists>g. fact_at e' k = Some g \<and> is_root g = is_root f \<and> manual_status g = manual_status f"
  shows "collapsed_ok e'"
  using assms unfolding collapsed_ok_def by (metis subsetD)

lemma collapsed_same_graph:
  assumes "same_graph e e'" "collapsed_roots e' = collapsed_roots e" "collapsed_ok e"
  shows "collapsed_ok e'"
proof (rule collapsed_ok_mono [OF assms(3)])
  show "\<exists>g. fact_at e' k = Some g \<and> is_root g = is_root f \<and> manual_status g = manual_status f"
    if "fact_at e k = Some f" for k f
    using same_graph_fact [OF assms(1) that] fact_core_eq by metis
qed (simp add: assms(2))

lemma recompute_child_collapsed: "collapsed_roots (fst (recompute_child now j s)) = collapsed_roots (fst s)"
  by (cases s) (auto simp: recompute_child_def Let_def put_jset_def split: option.split)

lemma recompute_in_collapsed: "collapsed_roots (fst (recompute_in now L e)) = collapsed_roots e"
proof -
  have "collapsed_roots (fst (fold (recompute_child now) L s)) = collapsed_roots (fst s)" for s
    by (induction L arbitrary: s) (simp_all add: recompute_child_collapsed)
  then show ?thesis by (simp add: recompute_in_def)
qed

lemma put_fact_collapsed [simp]: "collapsed_roots (put_fact k f e) = collapsed_roots e"
  by (simp add: put_fact_def)

lemma propagate_one_collapsed: "collapsed_roots (fst (propagate_one now k e)) = collapsed_roots e"
  by (simp add: propagate_one_def propagate_in_def Let_def recompute_in_collapsed split: option.split)

lemma propagate_collapsed:
  assumes "propagate now e q = Some e'"
  shows "collapsed_roots e' = collapsed_roots e"
proof (rule propagate.raw_induct [where P = "\<lambda>now e q e'. collapsed_roots e' = collapsed_roots e", OF _ assms])
  fix p now e q and y :: engine
  assume IH: "\<And>now e q (y :: engine). p now e q = Some y \<Longrightarrow> collapsed_roots y = collapsed_roots e"
    and eq: "(case q of [] \<Rightarrow> Some e
        | k # rest \<Rightarrow> p now (fst (propagate_one now k e)) (rest @ snd (propagate_one now k e))) = Some y"
  show "collapsed_roots y = collapsed_roots e"
    using eq IH propagate_one_collapsed by (cases q) fastforce+
qed

lemma propagate_collapsed_ok:
  assumes "wf_engine e" "propagate now e q = Some e'" "collapsed_ok e"
  shows "collapsed_ok e'"
proof -
  have "same_graph e e'" using propagate_returns [OF assms(1), of now q] assms(2) by auto
  then show ?thesis using collapsed_same_graph propagate_collapsed assms by blast
qed

lemma collapsed_put_fact:
  assumes "collapsed_ok e" "fact_at e k = Some f" "is_root g = is_root f" "manual_status g = manual_status f"
  shows "collapsed_ok (put_fact k g e)"
  by (rule collapsed_ok_mono [OF assms(1)]) (use assms in auto)

lemma collapsed_facts: "collapsed_ok e \<Longrightarrow> facts e' = facts e \<Longrightarrow>
    set (collapsed_roots e') \<subseteq> set (collapsed_roots e) \<Longrightarrow> collapsed_ok e'"
  by (auto simp: collapsed_ok_def)

text \<open>A new manual status and the matching entry of the map.\<close>

lemma collapsed_manual:
  assumes "collapsed_ok e" "fact_at e k = Some f" "is_root f"
    and "set c = (if m < ConfidenceThreshold then insert k (set (collapsed_roots e)) else set (collapsed_roots e) - {k})"
  shows "collapsed_ok ((put_fact k (f\<lparr>manual_status := m\<rparr>) e)\<lparr>collapsed_roots := c\<rparr>)"
  using assms by (auto simp: collapsed_ok_def split: if_splits)

lemma invalidate_collapsed:
  assumes "wf_engine e" "collapsed_ok e" "invalidate_root now k e = Some (Inr e')"
  shows "collapsed_ok e'"
proof -
  consider "e' = e" | f where "fact_at e k = Some f" "is_root f"
    "propagate now (bump ((put_fact k (f\<lparr>manual_status := Invalid\<rparr>) e)\<lparr>collapsed_roots := set_insert k (collapsed_roots e)\<rparr>)) [k] = Some e'"
    using assms(3) by (auto simp: invalidate_root_def Let_def split: option.splits if_splits)
  then show ?thesis
  proof cases
    case 2
    let ?e = "(put_fact k (f\<lparr>manual_status := Invalid\<rparr>) e)\<lparr>collapsed_roots := set_insert k (collapsed_roots e)\<rparr>"
    have "collapsed_ok ?e" by (rule collapsed_manual [OF assms(2) 2(1,2)]) (simp add: status_defs)
    then have "collapsed_ok (bump ?e)" by (rule collapsed_facts) simp_all
    moreover have "wf_engine (bump ?e)" using put_fact_structure [OF assms(1) 2(1)] by simp
    ultimately show ?thesis using propagate_collapsed_ok 2(3) by blast
  qed (simp add: assms(2))
qed

lemma confidence_collapsed:
  assumes "wf_engine e" "collapsed_ok e" "set_root_confidence now k m e = Some (Inr e')"
  shows "collapsed_ok e'"
proof -
  let ?c = "if m < ConfidenceThreshold then set_insert k (collapsed_roots e) else removeAll k (collapsed_roots e)"
  consider "e' = e" | f where "fact_at e k = Some f" "is_root f"
    "propagate now (bump ((put_fact k (f\<lparr>manual_status := m\<rparr>) e)\<lparr>collapsed_roots := ?c\<rparr>)) [k] = Some e'"
    using assms(3) by (auto simp: set_root_confidence_def Let_def split: option.splits if_splits)
  then show ?thesis
  proof cases
    case 2
    let ?e = "(put_fact k (f\<lparr>manual_status := m\<rparr>) e)\<lparr>collapsed_roots := ?c\<rparr>"
    have "collapsed_ok ?e" by (rule collapsed_manual [OF assms(2) 2(1,2)]) simp
    then have "collapsed_ok (bump ?e)" by (rule collapsed_facts) simp_all
    moreover have "wf_engine (bump ?e)" using put_fact_structure [OF assms(1) 2(1)] by simp
    ultimately show ?thesis using propagate_collapsed_ok 2(3) by blast
  qed (simp add: assms(2))
qed

lemma retract_collapsed:
  assumes "wf_engine e" "collapsed_ok e" "retract_fact now k r e = Some (Inr e')"
  shows "collapsed_ok e'"
proof -
  consider "e' = e" | r' where "propagate now (bump (put_retracted k r' e)) [k] = Some e'"
    using assms(3) by (auto simp: retract_fact_def Let_def split: if_splits)
  then show ?thesis
  proof cases
    case 2
    have "collapsed_ok (bump (put_retracted k r' e))" by (rule collapsed_facts [OF assms(2)]) simp_all
    then show ?thesis using propagate_collapsed_ok [OF _ 2] assms(1) by simp
  qed (simp add: assms(2))
qed

lemma verification_collapsed:
  assumes wf: "wf_engine e" and ok: "collapsed_ok e" and r: "set_fact_verification now k st m ref r t e = Some (Inr e')"
  shows "collapsed_ok e'"
proof -
  obtain f md e1 q where f: "fact_at e k = Some f"
    and rc: "recompute_children now k (bump (put_fact k (f\<lparr>metadata := md\<rparr>) e)) = (e1, q)"
    and e': "e' = e1 \<or> propagate now e1 q = Some e'"
    using r by (auto simp: set_fact_verification_def Let_def split: option.splits if_splits prod.splits)
  let ?e = "bump (put_fact k (f\<lparr>metadata := md\<rparr>) e)"
  have wf1: "wf_engine ?e" using put_fact_structure [OF wf f] by simp
  have "collapsed_ok (put_fact k (f\<lparr>metadata := md\<rparr>) e)" by (rule collapsed_put_fact [OF ok f]) simp_all
  then have c: "collapsed_ok ?e" by (rule collapsed_facts) simp_all
  have g: "same_graph ?e e1"
    using recompute_in_post [OF wf1 rc [unfolded recompute_children_def]] by (simp add: refresh_post_def)
  have "collapsed_roots e1 = collapsed_roots ?e"
    using recompute_in_collapsed [of now _ ?e] rc by (metis fst_conv recompute_children_def)
  then have c1: "collapsed_ok e1" by (rule collapsed_same_graph [OF g _ c])
  show ?thesis using e' c1 propagate_collapsed_ok [OF wf_same_graph [OF g wf1]] by blast
qed

lemma review_collapsed:
  assumes ok: "collapsed_ok e" and r: "set_fact_review now k st r t e = Inr e'"
  shows "collapsed_ok e'"
proof -
  consider "e' = e" | f st' r' t' md where "fact_at e k = Some f"
    "e' = bump (put_fact k (f\<lparr>review_status := st', review_reason := r', reviewed_at := t', metadata := md\<rparr>) e)"
    using r by (cases "fact_at e k") (auto simp: set_fact_review_def Let_def split: if_splits)
  then show ?thesis
  proof cases
    case 2
    let ?g = "f\<lparr>review_status := st', review_reason := r', reviewed_at := t', metadata := md\<rparr>"
    have "collapsed_ok (put_fact k ?g e)" by (rule collapsed_put_fact [OF ok 2(1)]) simp_all
    then show ?thesis unfolding 2(2) by (rule collapsed_facts) simp_all
  qed (simp add: ok)
qed

lemma propagate_each_collapsed:
  "wf_engine e \<Longrightarrow> propagate_each now e ks = Some e' \<Longrightarrow> collapsed_ok e \<Longrightarrow> collapsed_ok e'"
proof (induction ks arbitrary: e)
  case (Cons k ks)
  then obtain e1 where e1: "propagate now e [k] = Some e1" "propagate_each now e1 ks = Some e'"
    by (auto split: option.splits)
  have "wf_engine e1" using propagate_returns [OF Cons.prems(1), of now "[k]"] e1(1) wf_same_graph Cons.prems(1) by auto
  then show ?case using Cons e1 propagate_collapsed_ok by blast
qed simp

lemma sweep_collapsed:
  assumes wf: "wf_engine e" and ok: "collapsed_ok e" and sw: "sweep_expired_facts now e = Some (e', xs)"
  shows "collapsed_ok e'"
proof -
  obtain e1 ys where f: "fold (sweep_step now) (facts e) (e, []) = (e1, ys)" by fastforce
  note s = sweep_fold [OF f]
  have c1: "collapsed_ok e1" by (rule collapsed_facts [OF ok s(1)]) (simp add: s(4))
  have wf1: "wf_engine e1" using wf wf_engine_frame [OF s(1-3)] by simp
  have "collapsed_ok (bump e1)" by (rule collapsed_facts [OF c1]) simp_all
  then show ?thesis
    using sw f c1 propagate_each_collapsed [of "bump e1"] wf1
    by (auto simp: sweep_expired_facts_def split: if_splits)
qed

lemma index_parents_collapsed: "collapsed_roots (fold (index_parent j) ps e) = collapsed_roots e"
  by (induction ps arbitrary: e) (simp_all add: index_parent_def add_child_index_def)

lemma initialize_sets_collapsed:
  "initialize_sets now fid i ss e = (r, e') \<Longrightarrow> collapsed_roots e' = collapsed_roots e"
proof (induction ss arbitrary: i e)
  case (Cons ts ss)
  show ?case
  proof (cases "fact_at e fid")
    case (Some f)
    show ?thesis
    proof (cases "new_justification_set now f i ts e")
      case (Inr x)
      obtain e1 js where x: "x = (e1, js)" by fastforce
      have "collapsed_roots (put_jset (js_id js) js e1) = collapsed_roots e"
        using Inr x by (auto simp: new_justification_set_def Let_def index_parents_collapsed put_jset_def
            split: sum.splits if_splits)
      then show ?thesis using Cons.IH [of "Suc i" "put_jset (js_id js) js e1"] Cons.prems Some Inr x by simp
    qed (use Cons.prems Some in simp)
  qed (use Cons.prems in simp)
qed simp

lemma assert_collapsed:
  assumes wf: "wf_engine e" and ok: "collapsed_ok e" and r: "assert_fact now fo e = Some (Inr e')"
  shows "collapsed_ok e'"
proof -
  obtain f0 where f0: "fo = Some f0" using r by (cases fo) (auto simp: assert_fact_def)
  obtain f v where v: "validate_assert_fact now e f0 = (f, v)" by fastforce
  show ?thesis
  proof (cases "v = Inr False")
    case False
    then show ?thesis using r v f0 ok by (auto simp: assert_fact_def split: sum.splits bool.splits)
  next
    case True
    note n = validate_new [OF v [unfolded True]]
    have other: "\<And>i h. fact_at e i = Some h \<Longrightarrow> i \<noteq> fact_id f" using n(2) by auto
    show ?thesis
    proof (cases "is_root f")
      case root: True
      let ?g = "f\<lparr>derived_status := manual_status f\<rparr>"
      let ?e1 = "put_fact (fact_id f) ?g (register_fact f e)"
      let ?e2 = "if manual_status f < ConfidenceThreshold
        then ?e1\<lparr>collapsed_roots := set_insert (fact_id f) (collapsed_roots ?e1)\<rparr> else ?e1"
      have p: "propagate now (notify now (fact_id f) (manual_status f) ?e2) [fact_id f] = Some e'"
        using r v f0 True root by (simp add: assert_fact_def initialize_root_fact_def Let_def)
      have roots: "collapsed_roots ?e1 = collapsed_roots e" by (simp add: register_fact_def)
      have at: "fact_at ?e2 i = (if i = fact_id f then Some ?g else fact_at e i)" for i
        by (simp add: register_fact_def)
      have "collapsed_ok ?e2"
        using ok other root at roots unfolding collapsed_ok_def by auto
      then have c: "collapsed_ok (notify now (fact_id f) (manual_status f) ?e2)" by (rule collapsed_facts) simp_all
      have "wf_engine ?e1"
        using root_wf [of "flagged e" ?g] wf n(2) root put_register [of ?g f e] by simp
      then show ?thesis using propagate_collapsed_ok [OF _ p c] by simp
    next
      case False
      let ?g = "f\<lparr>derived_status := Invalid, valid_justification_count := 0\<rparr>"
      obtain e2 where e2: "initialize_sets now (fact_id f) 0 (sets_of f) (put_fact (fact_id f) ?g (register_fact f e)) = (None, e2)"
        and p: "propagate now e2 [fact_id f] = Some e'"
        using r v f0 True False
        by (auto simp: assert_fact_def initialize_derived_fact_def Let_def split: prod.splits option.splits)
      have wf0: "wf_engine (flagged e)" and new0: "fact_at (flagged e) (fact_id f) = None" using wf n by simp_all
      have ok0: "check_sets (flagged e) (sets_of f) = None" using n(4) by (simp add: check_sets_None)
      have b: "built now (flagged e) f (length (sets_of f)) e2"
        using initialize_sets_built [OF built_start [OF wf0 new0] new0 ok0, of "sets_of f" now] e2
          put_register [of ?g f e] by simp
      have wf2: "wf_engine e2" by (rule built_wf [OF wf0 new0 False b])
      have "collapsed_roots e2 = collapsed_roots e"
        using initialize_sets_collapsed [OF e2] by (simp add: register_fact_def)
      moreover have "fact_at e2 i = fact_at e i" if "i \<noteq> fact_id f" for i using built_other [OF b that] by simp
      ultimately have "collapsed_ok e2" using ok other unfolding collapsed_ok_def by metis
      then show ?thesis using propagate_collapsed_ok [OF wf2 p] by blast
    qed
  qed
qed

lemma any_history_collapsed: "any_history e \<Longrightarrow> collapsed_ok e"
proof (induction rule: any_history.induct)
  case any_start
  then show ?case by (simp add: collapsed_ok_def new_engine_def)
next
  case (any_act e t x e')
  have wf: "wf_engine e" using any_history_inv [OF any_act(1)] by simp
  show ?case
    using any_act(2,3) wf
    by (cases x) (auto intro: assert_collapsed invalidate_collapsed confidence_collapsed retract_collapsed
        verification_collapsed review_collapsed)
next
  case (any_sweep e now e' xs)
  then show ?case using any_history_inv [OF any_sweep(1)] sweep_collapsed by blast
qed

section \<open>Where pruning changes nothing\<close>

text \<open>Every derived fact declares at most one set, of positive parents only.\<close>

definition conjunctive :: "engine \<Rightarrow> bool" where
  "conjunctive e \<longleftrightarrow>
     (\<forall>(k, f) \<in> set (facts e). is_root f \<or>
        length (sets_of f) \<le> 1 \<and>
        (\<forall>ts \<in> set (sets_of f). \<forall>t \<in> set ts.
           case parse_dependency_ref t of Inl _ \<Rightarrow> True | Inr r \<Rightarrow> \<not> ref_negated r))"

lemma split_tokens_positive:
  "\<forall>t \<in> set ts. case parse_dependency_ref t of Inl _ \<Rightarrow> True | Inr r \<Rightarrow> \<not> ref_negated r \<Longrightarrow>
     split_tokens ts seen pos neg all = Inr (p, n, a) \<Longrightarrow> n = neg"
  by (induction ts seen pos neg all rule: split_tokens.induct) (auto simp: Let_def split: sum.splits if_splits)

lemma fold_max_reach:
  "fold max cs (a :: real) \<noteq> a \<Longrightarrow> \<exists>c \<in> set cs. fold max cs a = c"
proof (induction cs arbitrary: a)
  case (Cons c cs)
  then show ?case by (cases "fold max cs (max c a) = max c a") (auto simp: max_def)
qed simp

lemma fold_min_start: "fold min cs (a :: real) \<le> a"
proof (induction cs arbitrary: a)
  case (Cons c cs)
  have "fold min cs (min c a) \<le> min c a" by (rule Cons)
  then show ?case by simp
qed simp

lemma fold_min_le: "c \<in> set cs \<Longrightarrow> fold min cs (a :: real) \<le> c"
proof (induction cs arbitrary: a)
  case (Cons x xs)
  then show ?case using fold_min_start [of xs "min x a"] by (cases "c = x") auto
qed simp

lemma conjunctive_parent:
  assumes inv: "settled now e" and conj: "conjunctive e" and dep: "(p, v) \<in> deps e"
    and valid: "ConfidenceThreshold \<le> effective_status now e (fact_at e v)"
  shows "ConfidenceThreshold \<le> effective_status now e (fact_at e p)"
proof -
  have wf: "wf_engine e" using inv by (simp add: settled_iff)
  obtain j js where js: "jset_at e j = Some js" "p \<in> parents_of js" "v = js_child js"
    by (rule deps_cases [OF wf dep])
  obtain f i where f: "fact_at e v = Some f" "\<not> is_root f" "i < length (sets_of f)"
    "split_dependency_set (sets_of f ! i) = Inr (js_positive js, js_negative js, js_parents js)"
    using wf_jset [OF wf js(1)] js(3) by (auto simp: jset_ok_def)
  have "(v, f) \<in> set (facts e)" using f(1) by (rule map_of_SomeD)
  then have c: "length (sets_of f) \<le> 1" "\<And>ts t. ts \<in> set (sets_of f) \<Longrightarrow> t \<in> set ts \<Longrightarrow>
      case parse_dependency_ref t of Inl _ \<Rightarrow> True | Inr r \<Rightarrow> \<not> ref_negated r"
    using conj f(2) by (fastforce simp: conjunctive_def)+
  obtain ts where ts: "sets_of f = [ts]" using c(1) f(3) by (cases "sets_of f") auto
  have sp: "split_dependency_set ts = Inr (js_positive js, js_negative js, js_parents js)"
    using f(3,4) ts by simp
  have neg: "js_negative js = []"
    using split_tokens_positive [of ts "[]" "[]" "[]" "[]"] sp c(2) [of ts] ts
    by (auto simp: split_dependency_set_def)
  then have p: "p \<in> set (js_positive js)" using js(2) by (simp add: parents_of_def)
  have "\<not> is_retracted e v" "derived_status f \<ge> ConfidenceThreshold"
    using valid f(1,2) wf_fact_id [OF wf f(1)]
    by (auto simp: effective_status_def status_defs split: if_splits)
  moreover have "derived_status f = specified_status now e f" by (rule settled_specified [OF inv f(1)])
  ultimately have sup: "ConfidenceThreshold \<le> set_support now e f ts"
    using f(2) ts wf_fact_id [OF wf f(1)] by (auto simp: specified_status_def status_defs split: if_splits)
  let ?st = "\<lambda>p. effective_status now e (fact_at e p)"
  have "set_support now e f ts =
      (if \<forall>q \<in> set (js_positive js). dependency_satisfied now (fact_at e q) (?st q) False (Some f)
       then fold min (map (\<lambda>q. dependency_confidence (?st q) False) (js_positive js)) Valid else Invalid)"
    by (simp add: set_support_def sp neg Let_def comp_def)
  then have "ConfidenceThreshold \<le> fold min (map (\<lambda>q. dependency_confidence (?st q) False) (js_positive js)) Valid"
    using sup by (auto simp: status_defs split: if_splits)
  moreover have "fold min (map (\<lambda>q. dependency_confidence (?st q) False) (js_positive js)) Valid \<le> ?st p"
    using fold_min_le [of "?st p" "map (\<lambda>q. dependency_confidence (?st q) False) (js_positive js)" Valid] p
    by (auto simp: dependency_confidence_def)
  ultimately show ?thesis by simp
qed

lemma links_ancestor:
  assumes wf: "wf_engine e" and ok: "idoms_ok e" and "(r, k) \<in> (links (dominator_children e))\<^sup>*" "fact_at e k \<noteq> None"
  shows "(r, k) \<in> (deps e)\<^sup>*"
  using assms(3,4)
proof (induction rule: rtrancl_induct)
  case (step y z)
  have "(y, z) \<in> (deps e)\<^sup>+" "fact_at e y \<noteq> None"
    using dominator_link_source [OF wf ok, of z y] step(2,4) by auto
  then show ?case using step(3) by (meson rtrancl_trans trancl_into_rtrancl)
qed simp

lemma get_status_conjunctive:
  assumes inv: "settled now e" and conj: "conjunctive e" and roots: "collapsed_ok e"
    and clean: "dirty_dominators e \<or> dominators_fresh e"
  shows "\<exists>e'. get_status now k e = Some (e',
    if effective_status now e (fact_at e k) < ConfidenceThreshold then Invalid
    else effective_status now e (fact_at e k))"
proof -
  have wf: "wf_engine e" using inv by (simp add: settled_iff)
  obtain e' where e': "get_status now k e = Some (e', pruned_status now k e')" "plain_of e' = plain_of e"
    "dominators_fresh e'" by (rule get_status_total [OF wf clean])
  have wf': "wf_engine e'" and ok': "idoms_ok e'"
    using plain_same(1) [OF e'(2)] wf e'(3) by (simp_all add: dominators_fresh_def)
  let ?st = "\<lambda>p. effective_status now e (fact_at e p)"
  have "\<not> pruned e' k" if valid: "ConfidenceThreshold \<le> ?st k"
  proof
    assume "pruned e' k"
    then obtain r where r: "r \<in> set (collapsed_roots e')" "(r, k) \<in> (links (dominator_children e'))\<^sup>*"
      by (auto simp: pruned_def)
    have "fact_at e k \<noteq> None" using valid by (cases "fact_at e k") (simp_all add: effective_status_def status_defs)
    then have "fact_at e' k \<noteq> None" using plain_same(4) [OF e'(2)] by (metis option.map_disc_iff)
    then have "(r, k) \<in> (deps e)\<^sup>*" using links_ancestor [OF wf' ok' r(2)] plain_same(3) [OF e'(2)] by simp
    then have "ConfidenceThreshold \<le> ?st r"
      using valid by (induction rule: converse_rtrancl_induct) (auto intro: conjunctive_parent [OF inv conj])
    moreover obtain f where "fact_at e r = Some f" "is_root f" "manual_status f < ConfidenceThreshold"
      using roots r(1) plain_same(6) [OF e'(2)] unfolding collapsed_ok_def by metis
    ultimately show False by (auto simp: effective_status_def status_defs split: if_splits)
  qed
  then show ?thesis
    using e'(1) pruned_status_eq [OF e'(3)] effective_plain [OF e'(2)] by (auto simp: not_less)
qed

end
