(* ===== verification/Samples.thy ===== *)
theory Samples
imports GetStatus
begin

text \<open>
  A small engine the witnesses of the properties use: two roots, one with a deadline, a fact that
  depends on both and a fact that depends on that one.
\<close>

section \<open>A sample engine\<close>

definition sample_fact :: "string \<Rightarrow> bool \<Rightarrow> status \<Rightarrow> string list list \<Rightarrow> fact" where
  "sample_fact i r m ss =
     \<lparr>fact_id = i, payload = None, metadata = None, embedding = [], is_root = r, manual_status = m,
      entrenchment = 0, review_status = [], review_reason = [], reviewed_at = 0, valid_until = 0,
      asserted_at = 0, assertion_kind = [], derived_status = 0, resolved_status = 0,
      valid_justification_count = 0, justification_sets = Some ss, validation_errors = [], idom = [],
      pre_order = 0, post_order = 0\<rparr>"

definition sample_ops :: "engine_op list" where
  "sample_ops =
     [OpAssert (Some (sample_fact ''A'' True 1 [])),
      OpAssert (Some ((sample_fact ''B'' True (9 / 10) [])\<lparr>valid_until := 7\<rparr>)),
      OpAssert (Some (sample_fact ''C'' False 0 [[''A'', ''B'']])),
      OpAssert (Some (sample_fact ''D'' False 0 [[''C'']]))]"

definition sample_engine :: engine where
  "sample_engine = (case run_ops 5 sample_ops new_engine of Some e \<Rightarrow> e | None \<Rightarrow> new_engine)"

lemma sample_run: "run_ops 5 sample_ops new_engine = Some sample_engine"
proof -
  have "run_ops 5 sample_ops new_engine \<noteq> None" by code_simp
  then show ?thesis by (auto simp: sample_engine_def)
qed

lemma sample_history: "history 5 sample_engine"
  by (rule run_ops_history [OF history.start sample_run])

lemma sample_any_history: "any_history sample_engine"
  by (rule run_ops_any_history [OF any_start sample_run])

lemma sample_settled: "settled 5 sample_engine" "wf_engine sample_engine" "loadable sample_engine"
  using history_inv [OF sample_history] by (simp_all add: settled_iff)

lemma sample_collapsed: "collapsed_ok sample_engine"
  by (rule any_history_collapsed [OF sample_any_history])

lemma sample_facts:
  "map_option (\<lambda>f. (is_root f, derived_status f)) (fact_at sample_engine ''D'') = Some (False, 9 / 10)"
  "fact_at sample_engine ''B'' \<noteq> None" "fact_at sample_engine ''D'' \<noteq> None" "dirty_dominators sample_engine"
  by code_simp+

lemma sample_ageless: "ageless sample_engine"
proof -
  have "list_all (\<lambda>(k, f). int64_from_metadata (metadata f) ''grounding_max_age_seconds'' \<le> 0) (facts sample_engine)"
    by code_simp
  then show ?thesis by (auto simp: ageless_def list_all_iff dest!: map_of_SomeD)
qed

end
