(* ===== verification/UnionFind.thy ===== *)
theory UnionFind
imports Prelude
begin

text \<open>
  The union-find of partitionLocked (core/global_truth.go): find with path compression and
  union, on the parent map of strings. The forest invariant, the roots, and the classes a list
  of unions produces.
\<close>

section \<open>The operations\<close>

type_synonym uf = "(string \<times> string) list"

definition uf_get :: "uf \<Rightarrow> string \<Rightarrow> string" where
  "uf_get p x = (case map_of p x of None \<Rightarrow> [] | Some y \<Rightarrow> y)"

partial_function (option) uf_find :: "string \<Rightarrow> uf \<Rightarrow> (string \<times> uf) option" where
  "uf_find x p =
     (if uf_get p x = x then Some (x, p)
      else Option.bind (uf_find (uf_get p x) p) (\<lambda>rp. Some (fst rp, AList.update x (fst rp) (snd rp))))"

declare uf_find.simps [code]

definition uf_union :: "string \<Rightarrow> string \<Rightarrow> uf \<Rightarrow> uf option" where
  "uf_union x y p =
     Option.bind (uf_find x p) (\<lambda>(px, p1).
     Option.bind (uf_find y p1) (\<lambda>(py, p2).
       Some (if px \<noteq> py then AList.update px py p2 else p2)))"

fun uf_unions :: "(string \<times> string) list \<Rightarrow> uf \<Rightarrow> uf option" where
  "uf_unions [] p = Some p"
| "uf_unions (xy # xys) p = Option.bind (uf_union (fst xy) (snd xy) p) (uf_unions xys)"

section \<open>The forest\<close>

text \<open>The links of the forest, and the invariant: no cycle, and every parent is a key.\<close>

definition uf_links :: "uf \<Rightarrow> (string \<times> string) set" where
  "uf_links p = {(x, y). map_of p x = Some y \<and> y \<noteq> x}"

definition uf_ok :: "uf \<Rightarrow> bool" where
  "uf_ok p \<longleftrightarrow> acyclic (uf_links p) \<and> (\<forall>x y. map_of p x = Some y \<longrightarrow> map_of p y \<noteq> None)"

definition uf_root :: "uf \<Rightarrow> string \<Rightarrow> string \<Rightarrow> bool" where
  "uf_root p x r \<longleftrightarrow> (x, r) \<in> (uf_links p)\<^sup>* \<and> map_of p r = Some r"

lemma uf_links_single: "(x, y) \<in> uf_links p \<Longrightarrow> (x, z) \<in> uf_links p \<Longrightarrow> y = z"
  by (simp add: uf_links_def)

lemma uf_links_finite: "finite (uf_links p)"
proof -
  have "uf_links p \<subseteq> set p" by (auto simp: uf_links_def dest: map_of_SomeD)
  then show ?thesis by (rule finite_subset) simp
qed

lemma uf_wf: "uf_ok p \<Longrightarrow> wf ((uf_links p)\<inverse>)"
  by (simp add: uf_ok_def finite_acyclic_wf_converse uf_links_finite)

lemma uf_root_self: "map_of p r = Some r \<Longrightarrow> uf_root p r s \<longleftrightarrow> s = r"
  by (auto simp: uf_root_def uf_links_def elim: converse_rtranclE)

lemma uf_root_step: "(x, y) \<in> uf_links p \<Longrightarrow> uf_root p x r \<longleftrightarrow> uf_root p y r"
proof
  assume xy: "(x, y) \<in> uf_links p" and r: "uf_root p x r"
  then have "x \<noteq> r" by (auto simp: uf_root_def uf_links_def)
  then obtain z where "(x, z) \<in> uf_links p" "(z, r) \<in> (uf_links p)\<^sup>*"
    using r by (auto simp: uf_root_def elim: converse_rtranclE)
  then show "uf_root p y r" using r uf_links_single [OF xy] by (auto simp: uf_root_def)
qed (auto simp: uf_root_def intro: converse_rtrancl_into_rtrancl)

lemma uf_root_exists:
  assumes "uf_ok p" "map_of p x \<noteq> None"
  shows "\<exists>r. uf_root p x r"
  using uf_wf [OF assms(1)] assms(2)
proof (induction x rule: wf_induct_rule)
  case (less x)
  obtain y where y: "map_of p x = Some y" using less.prems by auto
  show ?case
  proof (cases "y = x")
    case True
    then show ?thesis using uf_root_self y by auto
  next
    case False
    then have xy: "(x, y) \<in> uf_links p" using y by (simp add: uf_links_def)
    have "map_of p y \<noteq> None" using assms(1) y by (auto simp: uf_ok_def)
    then show ?thesis using less.IH [of y] xy uf_root_step [OF xy] by auto
  qed
qed

lemma uf_root_unique:
  assumes "uf_ok p" "uf_root p x r" "uf_root p x s"
  shows "r = s"
  using uf_wf [OF assms(1)] assms(2,3)
proof (induction x rule: wf_induct_rule)
  case (less x)
  show ?case
  proof (cases "x = r")
    case True
    then show ?thesis using less.prems uf_root_self by (metis uf_root_def)
  next
    case False
    then obtain y where y: "(x, y) \<in> uf_links p"
      using less.prems(1) by (auto simp: uf_root_def elim: converse_rtranclE)
    then show ?thesis using less.IH [of y] less.prems uf_root_step [OF y] by simp
  qed
qed

lemma uf_root_key: "uf_root p x r \<Longrightarrow> map_of p x \<noteq> None"
  by (auto simp: uf_root_def uf_links_def elim: converse_rtranclE)

section \<open>Compression and union\<close>

text \<open>Pointing a node at a node above it keeps the forest and every root.\<close>

lemma uf_compress:
  assumes ok: "uf_ok p" and r: "uf_root p x r" and ne: "x \<noteq> r"
  shows "uf_ok (AList.update x r p)" "\<And>z s. uf_root (AList.update x r p) z s \<longleftrightarrow> uf_root p z s"
proof -
  let ?q = "AList.update x r p"
  have xr: "(x, r) \<in> (uf_links p)\<^sup>+" using r ne by (auto simp: uf_root_def dest: rtranclD)
  have sub: "uf_links ?q \<subseteq> (uf_links p)\<^sup>+"
    using xr by (auto simp: uf_links_def split: if_splits)
  have "acyclic ((uf_links p)\<^sup>+)" using ok by (simp add: uf_ok_def acyclic_def)
  then have "acyclic (uf_links ?q)" using sub by (rule acyclic_subset)
  then show ok': "uf_ok ?q"
    using ok r uf_root_key [OF r] by (auto simp: uf_ok_def uf_root_def)
  have fwd: "uf_root p z s" if q: "uf_root ?q z s" for z s
  proof -
    have "(z, s) \<in> ((uf_links p)\<^sup>+)\<^sup>*" using q rtrancl_mono [OF sub] by (auto simp: uf_root_def)
    moreover have "map_of p s = Some s" using q ne by (auto simp: uf_root_def split: if_splits)
    ultimately show ?thesis by (simp add: uf_root_def)
  qed
  show "uf_root ?q z s \<longleftrightarrow> uf_root p z s" for z s
  proof
    assume s: "uf_root p z s"
    have "map_of ?q z \<noteq> None" using uf_root_key [OF s] by simp
    then obtain t where t: "uf_root ?q z t" using uf_root_exists [OF ok'] by blast
    then show "uf_root ?q z s" using uf_root_unique [OF ok s] fwd by blast
  qed (rule fwd)
qed

text \<open>Linking two different roots merges their trees.\<close>

lemma uf_link:
  assumes ok: "uf_ok p" and rt: "map_of p a = Some a" "map_of p b = Some b" and ne: "a \<noteq> b"
  shows "uf_ok (AList.update a b p)"
    "\<And>z s. uf_root p z s \<Longrightarrow> uf_root (AList.update a b p) z (if s = a then b else s)"
proof -
  let ?q = "AList.update a b p"
  have links: "uf_links ?q = insert (a, b) (uf_links p)"
    using rt ne by (auto simp: uf_links_def split: if_splits)
  have "(b, a) \<notin> (uf_links p)\<^sup>*"
    using rt(2) ne by (auto simp: uf_links_def elim: converse_rtranclE)
  then have "acyclic (uf_links ?q)" using ok by (simp add: links uf_ok_def)
  then show "uf_ok ?q" using ok rt by (auto simp: uf_ok_def)
  show "uf_root ?q z (if s = a then b else s)" if z: "uf_root p z s" for z s
  proof -
    have zs: "(z, s) \<in> (uf_links ?q)\<^sup>*"
      using z rtrancl_mono [of "uf_links p" "uf_links ?q"] by (auto simp: uf_root_def links)
    show ?thesis
    proof (cases "s = a")
      case True
      then have "(z, b) \<in> (uf_links ?q)\<^sup>*" using zs by (auto simp: links intro: rtrancl_into_rtrancl)
      then show ?thesis using True rt ne by (simp add: uf_root_def)
    next
      case False
      then show ?thesis using zs z by (simp add: uf_root_def)
    qed
  qed
qed

section \<open>find and union return\<close>

lemma uf_find_root:
  assumes "uf_ok p" "map_of p x \<noteq> None"
  shows "\<exists>r q. uf_find x p = Some (r, q) \<and> uf_root p x r \<and> uf_ok q \<and>
    fst ` set q = fst ` set p \<and> (\<forall>z s. uf_root q z s \<longleftrightarrow> uf_root p z s)"
  using uf_wf [OF assms(1)] assms(2)
proof (induction x rule: wf_induct_rule)
  case (less x)
  obtain y where y: "map_of p x = Some y" using less.prems by auto
  show ?case
  proof (cases "y = x")
    case True
    then show ?thesis
      using y assms(1) uf_root_self [of p x] by (subst uf_find.simps) (auto simp: uf_get_def)
  next
    case False
    then have xy: "(x, y) \<in> uf_links p" using y by (simp add: uf_links_def)
    have "map_of p y \<noteq> None" using assms(1) y by (auto simp: uf_ok_def)
    then obtain r q where q: "uf_find y p = Some (r, q)" "uf_root p y r" "uf_ok q"
      "fst ` set q = fst ` set p" "\<And>z s. uf_root q z s \<longleftrightarrow> uf_root p z s"
      using less.IH [of y] xy by auto
    have r: "uf_root p x r" using q(2) uf_root_step [OF xy] by simp
    have ne: "x \<noteq> r" using r xy by (auto simp: uf_root_def uf_links_def)
    have rq: "uf_root q x r" using r q(5) by simp
    have "uf_find x p = Some (r, AList.update x r q)"
      using y False q(1) by (subst uf_find.simps) (simp add: uf_get_def)
    moreover have "fst ` set (AList.update x r q) = fst ` set p"
      using q(4) less.prems by (auto simp: keys_update map_of_eq_None_iff)
    ultimately show ?thesis
      using r uf_compress [OF q(3) rq ne] q(5) by auto
  qed
qed

section \<open>Classes\<close>

definition uf_same :: "uf \<Rightarrow> string \<Rightarrow> string \<Rightarrow> bool" where
  "uf_same p x y \<longleftrightarrow> (\<exists>r. uf_root p x r \<and> uf_root p y r)"

text \<open>The equivalence a list of pairs generates.\<close>

abbreviation uf_connected :: "(string \<times> string) set \<Rightarrow> (string \<times> string) set" where
  "uf_connected E \<equiv> (E \<union> E\<inverse>)\<^sup>*"

lemma uf_connected_sym: "(x, y) \<in> uf_connected E \<Longrightarrow> (y, x) \<in> uf_connected E"
  by (metis converse_Un converse_converse rtrancl_converseI sup_commute)

text \<open>A forest whose trees are the classes of E.\<close>

definition uf_classes :: "string set \<Rightarrow> (string \<times> string) set \<Rightarrow> uf \<Rightarrow> bool" where
  "uf_classes A E p \<longleftrightarrow>
     uf_ok p \<and> fst ` set p = A \<and> (\<forall>x \<in> A. \<forall>y \<in> A. uf_same p x y \<longleftrightarrow> (x, y) \<in> uf_connected E)"

lemma uf_classes_start: "uf_classes (set ids) {} (map (\<lambda>x. (x, x)) ids)"
proof -
  let ?p = "map (\<lambda>x. (x, x)) ids"
  have get: "map_of ?p x = (if x \<in> set ids then Some x else None)" for x by (induction ids) auto
  have "uf_links ?p = {}" by (auto simp: uf_links_def get split: if_splits)
  then show ?thesis
    by (auto simp: uf_classes_def uf_ok_def uf_same_def uf_root_def get image_image acyclic_def split: if_splits)
qed

text \<open>Connectivity through one more edge.\<close>

lemma connected_insert:
  "(x, y) \<in> uf_connected (insert (a, b) E) \<longleftrightarrow>
     (x, y) \<in> uf_connected E \<or>
     (x, a) \<in> uf_connected E \<and> (b, y) \<in> uf_connected E \<or>
     (x, b) \<in> uf_connected E \<and> (a, y) \<in> uf_connected E"
proof
  assume "(x, y) \<in> uf_connected (insert (a, b) E)"
  then show "(x, y) \<in> uf_connected E \<or> (x, a) \<in> uf_connected E \<and> (b, y) \<in> uf_connected E \<or>
     (x, b) \<in> uf_connected E \<and> (a, y) \<in> uf_connected E"
  proof (induction rule: rtrancl_induct)
    case (step y z)
    then consider "(y, z) \<in> E \<union> E\<inverse>" | "y = a" "z = b" | "y = b" "z = a" by auto
    then show ?case
    proof cases
      case 1
      then show ?thesis using step.IH by (meson rtrancl.rtrancl_into_rtrancl)
    qed (use step.IH uf_connected_sym in blast)+
  qed simp
next
  have sub: "uf_connected E \<subseteq> uf_connected (insert (a, b) E)" by (rule rtrancl_mono) auto
  have ab: "(a, b) \<in> uf_connected (insert (a, b) E)" "(b, a) \<in> uf_connected (insert (a, b) E)" by auto
  assume "(x, y) \<in> uf_connected E \<or> (x, a) \<in> uf_connected E \<and> (b, y) \<in> uf_connected E \<or>
     (x, b) \<in> uf_connected E \<and> (a, y) \<in> uf_connected E"
  then show "(x, y) \<in> uf_connected (insert (a, b) E)"
    using sub ab by (meson rtrancl_trans subsetD)
qed

lemma uf_same_iff:
  assumes "uf_ok p" "uf_root p x r" "uf_root p y s"
  shows "uf_same p x y \<longleftrightarrow> r = s"
  using uf_root_unique [OF assms(1,2)] uf_root_unique [OF assms(1,3)] assms(2,3) unfolding uf_same_def by blast

lemma uf_union_classes:
  assumes cl: "uf_classes A E p" and a: "a \<in> A" and b: "b \<in> A"
  shows "\<exists>q. uf_union a b p = Some q \<and> uf_classes A (insert (a, b) E) q"
proof -
  have ok: "uf_ok p" and keys: "fst ` set p = A"
    and same: "\<And>x y. x \<in> A \<Longrightarrow> y \<in> A \<Longrightarrow> uf_same p x y \<longleftrightarrow> (x, y) \<in> uf_connected E"
    using cl by (auto simp: uf_classes_def)
  have ka: "map_of p a \<noteq> None" using a keys by (metis map_of_ne_None)
  obtain pa p1 where p1: "uf_find a p = Some (pa, p1)" "uf_root p a pa" "uf_ok p1"
    "fst ` set p1 = A" "\<And>z s. uf_root p1 z s \<longleftrightarrow> uf_root p z s"
    using uf_find_root [OF ok ka] keys by blast
  have kb: "map_of p1 b \<noteq> None" using b p1(4) by (metis map_of_ne_None)
  obtain pb p2 where p2: "uf_find b p1 = Some (pb, p2)" "uf_root p b pb" "uf_ok p2"
    "fst ` set p2 = A" "\<And>z s. uf_root p2 z s \<longleftrightarrow> uf_root p z s"
    using uf_find_root [OF p1(3) kb] p1(4,5) by auto
  define q where "q = (if pa \<noteq> pb then AList.update pa pb p2 else p2)"
  have un: "uf_union a b p = Some q" using p1(1) p2(1) by (simp add: uf_union_def q_def)
  have rt: "map_of p2 pa = Some pa" "map_of p2 pb = Some pb"
    using p1(2) p2(2,5) by (metis uf_root_def)+
  have "pa \<in> A" using rt(1) p2(4) by (metis map_of_ne_None option.distinct(1))
  then have keysq: "fst ` set q = A" using p2(4) by (auto simp: q_def keys_update)
  have okq: "uf_ok q" using uf_link(1) [OF p2(3) rt] p2(3) by (simp add: q_def)
  have rq: "uf_root q z (if s = pa then pb else s)" if s: "uf_root p z s" for z s
  proof (cases "pa = pb")
    case True
    then show ?thesis using s p2(5) by (simp add: q_def)
  next
    case False
    then show ?thesis using uf_link(2) [OF p2(3) rt False] s p2(5) by (simp only: q_def not_False_eq_True if_True simp_thms)
  qed
  have "uf_same q x y \<longleftrightarrow> (x, y) \<in> uf_connected (insert (a, b) E)" if xy: "x \<in> A" "y \<in> A" for x y
  proof -
    obtain r s where rs: "uf_root p x r" "uf_root p y s"
      using uf_root_exists [OF ok] xy keys by (metis map_of_ne_None)
    have "uf_same q x y \<longleftrightarrow> (if r = pa then pb else r) = (if s = pa then pb else s)"
      by (rule uf_same_iff [OF okq rq [OF rs(1)] rq [OF rs(2)]])
    also have "\<dots> \<longleftrightarrow> r = s \<or> r = pa \<and> s = pb \<or> r = pb \<and> s = pa" by auto
    also have "\<dots> \<longleftrightarrow> uf_same p x y \<or> uf_same p x a \<and> uf_same p b y \<or> uf_same p x b \<and> uf_same p a y"
      using uf_same_iff [OF ok rs] uf_same_iff [OF ok rs(1) p1(2)] uf_same_iff [OF ok p2(2) rs(2)]
        uf_same_iff [OF ok rs(1) p2(2)] uf_same_iff [OF ok p1(2) rs(2)] by auto
    finally show ?thesis unfolding connected_insert using same xy a b by simp
  qed
  then show ?thesis using un okq keysq by (auto simp: uf_classes_def)
qed

lemma uf_unions_classes:
  assumes "uf_classes A E p" "set xys \<subseteq> A \<times> A"
  shows "\<exists>q. uf_unions xys p = Some q \<and> uf_classes A (E \<union> set xys) q"
  using assms
proof (induction xys arbitrary: E p)
  case (Cons xy xys)
  obtain q where q: "uf_union (fst xy) (snd xy) p = Some q" "uf_classes A (insert xy E) q"
    using uf_union_classes [OF Cons.prems(1), of "fst xy" "snd xy"] Cons.prems(2) by auto
  then show ?case using Cons.IH [OF q(2)] Cons.prems(2) by auto
qed simp

end
