(* ===== verification/Impact.thy ===== *)
theory Impact
imports GetStatus
begin

text \<open>
  GetImpact and DependencyIDs (engine.go): the simulation of an invalidation on copies of the
  statuses and set confidences, its report, and the transitive dependencies of a fact.
\<close>

section \<open>The simulation\<close>

type_synonym sim = "(string \<times> status) list \<times> (string \<times> status) list"

definition sim_get :: "(string \<times> status) list \<Rightarrow> string \<Rightarrow> status" where
  "sim_get m k = (case map_of m k of None \<Rightarrow> 0 | Some s \<Rightarrow> s)"

definition init_impact_simulation :: "int \<Rightarrow> engine \<Rightarrow> sim" where
  "init_impact_simulation now e =
     (map (\<lambda>(k, f). (k, effective_status now e (Some f))) (facts e),
      map (\<lambda>(j, js). (j, js_confidence js)) (jsets e))"

text \<open>A parent missing from the fact map is a nil fact: never satisfied, of status zero.\<close>

definition sim_parent :: "int \<Rightarrow> engine \<Rightarrow> fact option \<Rightarrow> (string \<times> status) list \<Rightarrow> bool \<Rightarrow> string \<Rightarrow> nat \<times> status \<Rightarrow> nat \<times> status" where
  "sim_parent now e child sim negated pid acc =
     (let st = sim_get sim pid; conf = dependency_confidence st negated
      in (if dependency_satisfied now (fact_at e pid) st negated child then Suc (fst acc) else fst acc,
          if conf < snd acc then conf else snd acc))"

definition simulate_jset :: "int \<Rightarrow> engine \<Rightarrow> jset \<Rightarrow> (string \<times> status) list \<Rightarrow> nat \<times> status" where
  "simulate_jset now e js sim =
     fold (sim_parent now e (fact_at e (js_child js)) sim True) (js_negative js)
       (fold (sim_parent now e (fact_at e (js_child js)) sim False) (js_positive js) (0, Valid))"

definition simulated_derived_status :: "engine \<Rightarrow> string \<Rightarrow> (string \<times> status) list \<Rightarrow> status" where
  "simulated_derived_status e fid conf =
     (case fact_at e fid of
        None \<Rightarrow> Invalid
      | Some f \<Rightarrow>
         fold (\<lambda>i m. if sim_get conf (justification_set_id fid i) > m
                     then sim_get conf (justification_set_id fid i) else m)
           [0..<length (sets_of f)] Invalid)"

text \<open>
  One child set of the head of the queue. The state holds the statuses, the confidences, the
  impacted facts and the facts queued so far.
\<close>

record sim_state =
  sim_status :: "(string \<times> status) list"
  sim_conf :: "(string \<times> status) list"
  sim_impacted :: "string list"
  sim_queue :: "string list"

definition simulate_set :: "int \<Rightarrow> engine \<Rightarrow> string \<Rightarrow> sim_state \<Rightarrow> sim_state" where
  "simulate_set now e j s =
     (case jset_at e j of
        None \<Rightarrow> s
      | Some js \<Rightarrow>
         (let vm = simulate_jset now e js (sim_status s);
              conf = (if fst vm = js_target js then snd vm else Invalid)
          in if conf = sim_get (sim_conf s) j then s
             else (let s1 = s\<lparr>sim_conf := AList.update j conf (sim_conf s)\<rparr>;
                       child = js_child js;
                       st = simulated_derived_status e child (sim_conf s1)
                   in if st = sim_get (sim_status s1) child then s1
                      else (let s2 = s1\<lparr>sim_status := AList.update child st (sim_status s1)\<rparr>
                            in if st < ConfidenceThreshold \<and> child \<notin> set (sim_impacted s2)
                               then s2\<lparr>sim_impacted := sim_impacted s2 @ [child],
                                       sim_queue := sim_queue s2 @ [child]\<rparr>
                               else s2))))"

partial_function (option) simulate_queue :: "int \<Rightarrow> engine \<Rightarrow> sim_state \<Rightarrow> sim_state option" where
  "simulate_queue now e s =
     (case sim_queue s of
        [] \<Rightarrow> Some s
      | u # rest \<Rightarrow>
         simulate_queue now e (fold (simulate_set now e) (child_sets e u) (s\<lparr>sim_queue := rest\<rparr>)))"

declare simulate_queue.simps [code]

definition simulate_start :: "string \<Rightarrow> sim \<Rightarrow> sim_state" where
  "simulate_start fid m =
     \<lparr>sim_status = AList.update fid Invalid (fst m), sim_conf = snd m, sim_impacted = [fid], sim_queue = [fid]\<rparr>"

definition simulate_invalidation :: "int \<Rightarrow> engine \<Rightarrow> string \<Rightarrow> sim_state option" where
  "simulate_invalidation now e fid =
     simulate_queue now e (simulate_start fid (init_impact_simulation now e))"

section \<open>The report\<close>

record impact_report =
  impacted_ids :: "string list"
  direct_count :: nat
  total_count :: nat
  action_count :: nat
  epistemic_loss :: real

definition is_action :: "fact \<Rightarrow> bool" where
  "is_action f \<longleftrightarrow> obj_get (payload f) ''type'' = Some (GStr ''action'')"

definition impact_step :: "engine \<Rightarrow> string \<Rightarrow> string \<Rightarrow> impact_report \<Rightarrow> impact_report" where
  "impact_step e rid k r =
     (let r1 = r\<lparr>impacted_ids := impacted_ids r @ [k]\<rparr>
      in case fact_at e k of
           None \<Rightarrow> r1
         | Some f \<Rightarrow>
            r1\<lparr>epistemic_loss := epistemic_loss r + derived_status f,
               direct_count := (if idom f = rid then Suc (direct_count r) else direct_count r),
               action_count := (if is_action f then Suc (action_count r) else action_count r)\<rparr>)"

definition build_impact_report :: "engine \<Rightarrow> string list \<Rightarrow> string \<Rightarrow> impact_report" where
  "build_impact_report e impacted rid =
     fold (impact_step e rid) impacted
       (\<lparr>impacted_ids = [], direct_count = 0, total_count = length impacted, action_count = 0,
         epistemic_loss = 0\<rparr>)"

definition get_impact :: "int \<Rightarrow> engine \<Rightarrow> string \<Rightarrow> (core_error + impact_report) option" where
  "get_impact now e fid =
     (if fact_at e fid = None then Some (Inl FactNotFound)
      else map_option (\<lambda>s. Inr (build_impact_report e (sim_impacted s) fid)) (simulate_invalidation now e fid))"

section \<open>The simulation returns\<close>

text \<open>A fact is queued when it enters the impacted set, so at most once.\<close>

definition sim_inv :: "engine \<Rightarrow> string \<Rightarrow> sim_state \<Rightarrow> bool" where
  "sim_inv e fid s \<longleftrightarrow>
     distinct (sim_impacted s) \<and> set (sim_queue s) \<subseteq> set (sim_impacted s) \<and> fid \<in> set (sim_impacted s) \<and>
     (\<forall>k \<in> set (sim_impacted s). fact_at e k \<noteq> None \<and> (fid, k) \<in> (deps e)\<^sup>*)"

lemma simulate_set_inv:
  assumes wf: "wf_engine e" and inv: "sim_inv e fid s" and j: "j \<in> set (child_sets e u)"
    and u: "(fid, u) \<in> (deps e)\<^sup>*"
  shows "sim_inv e fid (simulate_set now e j s)"
    "\<exists>new. sim_impacted (simulate_set now e j s) = sim_impacted s @ new \<and> sim_queue (simulate_set now e j s) = sim_queue s @ new"
proof -
  obtain js where js: "jset_at e j = Some js" "u \<in> parents_of js" using j wf_children [OF wf] by blast
  have d: "(u, js_child js) \<in> deps e" by (rule deps_at [OF js])
  then have c: "fact_at e (js_child js) \<noteq> None" "(fid, js_child js) \<in> (deps e)\<^sup>*"
    using deps_known(2) [OF wf] u by (auto intro: rtrancl_into_rtrancl)
  show "sim_inv e fid (simulate_set now e j s)"
    using inv c by (auto simp: simulate_set_def js(1) Let_def sim_inv_def)
  show "\<exists>new. sim_impacted (simulate_set now e j s) = sim_impacted s @ new \<and> sim_queue (simulate_set now e j s) = sim_queue s @ new"
    by (auto simp: simulate_set_def js(1) Let_def)
qed

lemma simulate_sets_inv:
  assumes wf: "wf_engine e" and u: "(fid, u) \<in> (deps e)\<^sup>*"
  shows "sim_inv e fid s \<Longrightarrow> set js \<subseteq> set (child_sets e u) \<Longrightarrow>
    sim_inv e fid (fold (simulate_set now e) js s) \<and>
    (\<exists>new. sim_impacted (fold (simulate_set now e) js s) = sim_impacted s @ new \<and>
           sim_queue (fold (simulate_set now e) js s) = sim_queue s @ new)"
proof (induction js arbitrary: s)
  case (Cons j js)
  let ?s = "simulate_set now e j s"
  have i: "sim_inv e fid ?s" using simulate_set_inv(1) [OF wf Cons.prems(1) _ u] Cons.prems(2) by simp
  obtain new where n: "sim_impacted ?s = sim_impacted s @ new" "sim_queue ?s = sim_queue s @ new"
    using simulate_set_inv(2) [OF wf Cons.prems(1) _ u, of j now] Cons.prems(2) by auto
  then show ?case using Cons.IH [OF i] Cons.prems(2) by auto
qed simp

lemma simulate_queue_total:
  assumes wf: "wf_engine e" and "sim_inv e fid s"
  shows "\<exists>s'. simulate_queue now e s = Some s' \<and> sim_inv e fid s'"
  using assms(2)
proof (induction "card (fst ` set (facts e)) - length (sim_impacted s) + length (sim_queue s)"
    arbitrary: s rule: less_induct)
  case less
  show ?case
  proof (cases "sim_queue s")
    case Nil
    then show ?thesis using less.prems by (simp add: simulate_queue.simps)
  next
    case (Cons u rest)
    let ?start = "s\<lparr>sim_queue := rest\<rparr>"
    let ?s = "fold (simulate_set now e) (child_sets e u) ?start"
    have i0: "sim_inv e fid ?start" using less.prems Cons by (auto simp: sim_inv_def)
    have u: "(fid, u) \<in> (deps e)\<^sup>*" using less.prems Cons by (auto simp: sim_inv_def)
    have i: "sim_inv e fid ?s" using simulate_sets_inv [OF wf u i0, of "child_sets e u" now] by simp
    obtain new where n: "sim_impacted ?s = sim_impacted s @ new" "sim_queue ?s = rest @ new"
      using simulate_sets_inv [OF wf u i0, of "child_sets e u" now] by auto
    have "set (sim_impacted ?s) \<subseteq> fst ` set (facts e)"
      using i known_iff [of _ e] by (fastforce simp: sim_inv_def)
    then have "length (sim_impacted ?s) \<le> card (fst ` set (facts e))"
      using i card_mono [of "fst ` set (facts e)" "set (sim_impacted ?s)"]
      by (simp add: sim_inv_def distinct_card)
    then have "card (fst ` set (facts e)) - length (sim_impacted ?s) + length (sim_queue ?s)
        < card (fst ` set (facts e)) - length (sim_impacted s) + length (sim_queue s)"
      using n Cons by simp
    from less.hyps [OF this i] show ?thesis using Cons by (simp add: simulate_queue.simps [of now e s])
  qed
qed

lemma simulate_invalidation_total:
  assumes wf: "wf_engine e" and "fact_at e fid \<noteq> None"
  obtains s where "simulate_invalidation now e fid = Some s" "sim_inv e fid s"
proof -
  have "sim_inv e fid (simulate_start fid (init_impact_simulation now e))"
    using assms(2) by (simp add: sim_inv_def simulate_start_def)
  then show ?thesis using that simulate_queue_total [OF wf] unfolding simulate_invalidation_def by blast
qed

lemma build_impact_report_counts:
  "impacted_ids (build_impact_report e ks rid) = ks" "total_count (build_impact_report e ks rid) = length ks"
  "direct_count (build_impact_report e ks rid) =
     length (filter (\<lambda>k. \<exists>f. fact_at e k = Some f \<and> idom f = rid) ks)"
  "action_count (build_impact_report e ks rid) =
     length (filter (\<lambda>k. \<exists>f. fact_at e k = Some f \<and> is_action f) ks)"
proof -
  have "impacted_ids (fold (impact_step e rid) ks r) = impacted_ids r @ ks \<and>
    total_count (fold (impact_step e rid) ks r) = total_count r \<and>
    direct_count (fold (impact_step e rid) ks r) =
      direct_count r + length (filter (\<lambda>k. \<exists>f. fact_at e k = Some f \<and> idom f = rid) ks) \<and>
    action_count (fold (impact_step e rid) ks r) =
      action_count r + length (filter (\<lambda>k. \<exists>f. fact_at e k = Some f \<and> is_action f) ks)" for r
    by (induction ks arbitrary: r) (auto simp: impact_step_def Let_def split: option.split)
  then show "impacted_ids (build_impact_report e ks rid) = ks" "total_count (build_impact_report e ks rid) = length ks"
    "direct_count (build_impact_report e ks rid) =
       length (filter (\<lambda>k. \<exists>f. fact_at e k = Some f \<and> idom f = rid) ks)"
    "action_count (build_impact_report e ks rid) =
       length (filter (\<lambda>k. \<exists>f. fact_at e k = Some f \<and> is_action f) ks)"
    by (simp_all add: build_impact_report_def)
qed

end
