(* ===== verification/DependencyIDs.thy ===== *)
theory DependencyIDs
imports Impact
begin

text \<open>
  DependencyIDs (engine.go): the recursive walk from a fact to the facts its tokens name. It
  ends because the declared graph is acyclic, and collects exactly the ancestors in that graph.
\<close>

definition token_parents :: "fact \<Rightarrow> string list" where
  "token_parents f =
     concat (map (\<lambda>t. case normalize_dependency_token t of Inl _ \<Rightarrow> [] | Inr p \<Rightarrow> [p]) (concat (sets_of f)))"

text \<open>
  The calls walk makes for a list of identifiers, with the seen map threaded through. The
  starting fact is not entered in the map unless it is to be included.
\<close>

partial_function (option) dependency_walk ::
  "engine \<Rightarrow> string \<Rightarrow> bool \<Rightarrow> string list \<Rightarrow> string list \<Rightarrow> string list option" where
  "dependency_walk e fid self ids seen =
     (case ids of
        [] \<Rightarrow> Some seen
      | i # rest \<Rightarrow>
         (case fact_at e i of
            None \<Rightarrow> dependency_walk e fid self rest seen
          | Some f \<Rightarrow>
             if (self \<or> i \<noteq> fid) \<and> i \<in> set seen then dependency_walk e fid self rest seen
             else Option.bind
                    (dependency_walk e fid self (token_parents f) (if self \<or> i \<noteq> fid then seen @ [i] else seen))
                    (dependency_walk e fid self rest)))"

declare dependency_walk.simps [code]

definition dependency_ids :: "engine \<Rightarrow> string \<Rightarrow> bool \<Rightarrow> (core_error + string list) option" where
  "dependency_ids e fid self =
     (if fact_at e fid = None then Some (Inl FactNotFound)
      else map_option (\<lambda>seen. Inr (sort (filter (\<lambda>i. self \<or> i \<noteq> fid) seen)))
             (dependency_walk e fid self [fid] []))"

section \<open>The walk collects the declared ancestors\<close>

lemma set_token_parents: "set (token_parents f) = named_by (concat (sets_of f))"
  by (force simp: token_parents_def named_by_def split: sum.splits)

definition above :: "engine \<Rightarrow> string set \<Rightarrow> string set" where
  "above e U = {x. \<exists>u \<in> U. (x, u) \<in> (declared e)\<^sup>*}"

lemma above_Cons: "above e (set (i # is)) = above e {i} \<union> above e (set is)"
  by (auto simp: above_def)

lemma declared_parents: "fact_at e i = Some f \<Longrightarrow> (p, i) \<in> declared e \<longleftrightarrow> p \<in> set (token_parents f)"
  by (auto simp: declared_def set_token_parents)

lemma above_parents:
  assumes "fact_at e i = Some f"
  shows "above e (set (token_parents f)) = {x. (x, i) \<in> (declared e)\<^sup>+}"
  unfolding above_def trancl_unfold_right using declared_parents [OF assms] by (auto simp: relcomp_unfold)

lemma above_node:
  assumes "fact_at e i = Some f"
  shows "above e {i} = insert i (above e (set (token_parents f)))"
  unfolding above_parents [OF assms] by (auto simp: above_def rtrancl_eq_or_trancl)

lemma above_up: "x \<in> above e U \<Longrightarrow> above e {x} \<subseteq> above e U"
  unfolding above_def by (blast intro: rtrancl_trans)

lemma finite_declared: "finite (declared e)"
proof -
  have "declared e \<subseteq> (\<Union>(k, f) \<in> set (facts e). set (token_parents f) \<times> {k})"
    using map_of_SomeD by (fastforce simp: declared_def set_token_parents)
  then show ?thesis by (rule finite_subset) (auto intro!: finite_UN_I)
qed

text \<open>Whatever was seen below the nodes still to be walked, was seen with all its ancestors.\<close>

definition seen_closed :: "engine \<Rightarrow> string set \<Rightarrow> string list \<Rightarrow> bool" where
  "seen_closed e U seen \<longleftrightarrow> distinct seen \<and> (\<forall>x \<in> set seen. x \<in> above e U \<longrightarrow> above e {x} \<subseteq> set seen)"

lemma dependency_walk_Nil [simp]: "dependency_walk e fid self [] seen = Some seen"
  by (simp add: dependency_walk.simps)

lemma dependency_walk_Cons:
  assumes "fact_at e i = Some f"
  shows "dependency_walk e fid self (i # rest) seen =
     (if (self \<or> i \<noteq> fid) \<and> i \<in> set seen then dependency_walk e fid self rest seen
      else Option.bind (dependency_walk e fid self (token_parents f) (if self \<or> i \<noteq> fid then seen @ [i] else seen))
             (dependency_walk e fid self rest))"
  by (subst dependency_walk.simps) (simp add: assms)

lemma loadable_parents:
  assumes "loadable e" "fact_at e i = Some f" "p \<in> set (token_parents f)"
  shows "fact_at e p \<noteq> None"
  using assms unfolding loadable_def set_token_parents named_by_def by fastforce

lemma own_ancestor:
  assumes "loadable e" "fact_at e i = Some f"
  shows "i \<notin> above e (set (token_parents f))"
proof
  assume "i \<in> above e (set (token_parents f))"
  then obtain p where p: "p \<in> set (token_parents f)" "(i, p) \<in> (declared e)\<^sup>*" by (auto simp: above_def)
  then have "(p, i) \<in> declared e" using assms(2) by (auto simp: declared_def set_token_parents)
  then have "(i, i) \<in> (declared e)\<^sup>+" using p(2) by (blast intro: rtrancl_into_trancl1)
  then show False using assms(1) by (simp add: loadable_def acyclic_def)
qed

lemma dependency_walk_above:
  assumes load: "loadable e"
    and "\<forall>i \<in> set ids. height ((declared e)\<inverse>) i < n" "\<forall>i \<in> set ids. fact_at e i \<noteq> None"
    and "self \<or> fid \<notin> above e (set ids)" "seen_closed e (set ids) seen"
  shows "\<exists>s. dependency_walk e fid self ids seen = Some s \<and> set s = set seen \<union> above e (set ids) \<and> distinct s"
  using assms(2-)
proof (induction n arbitrary: ids seen)
  case 0
  then have "ids = []" by auto
  then show ?case using 0 by (simp add: above_def seen_closed_def)
next
  case (Suc n)
  show ?case
    using Suc.prems
  proof (induction ids arbitrary: seen)
    case Nil
    then show ?case by (simp add: above_def seen_closed_def)
  next
    case (Cons i ids)
    obtain f where f: "fact_at e i = Some f" using Cons.prems(2) by auto
    have ne: "self \<or> i \<noteq> fid" using Cons.prems(3) by (auto simp: above_def)
    have rest: "\<forall>i \<in> set ids. height ((declared e)\<inverse>) i < Suc n" "\<forall>i \<in> set ids. fact_at e i \<noteq> None"
      "self \<or> fid \<notin> above e (set ids)" using Cons.prems(1-3) above_Cons by auto
    show ?case
    proof (cases "i \<in> set seen")
      case True
      then have up: "above e {i} \<subseteq> set seen"
        using Cons.prems(4) by (auto simp: seen_closed_def above_def)
      have "seen_closed e (set ids) seen" using Cons.prems(4) above_Cons by (auto simp: seen_closed_def)
      from Cons.IH [OF rest this] show ?thesis
        using up True ne above_Cons [of e i ids] by (auto simp: dependency_walk_Cons [OF f])
    next
      case False
      let ?P = "token_parents f"
      have h: "\<forall>p \<in> set ?P. height ((declared e)\<inverse>) p < n"
      proof
        fix p assume "p \<in> set ?P"
        then have "(i, p) \<in> (declared e)\<inverse>" using f by (auto simp: declared_def set_token_parents)
        moreover have "acyclic ((declared e)\<inverse>)" using load by (simp add: loadable_def)
        ultimately have "height ((declared e)\<inverse>) p < height ((declared e)\<inverse>) i"
          using height_less finite_declared by (metis finite_converse)
        then show "height ((declared e)\<inverse>) p < n" using Cons.prems(1) by simp
      qed
      have k: "\<forall>p \<in> set ?P. fact_at e p \<noteq> None" using loadable_parents [OF load f] by blast
      have sub: "above e (set ?P) \<subseteq> above e (set (i # ids))" using above_node [OF f] above_Cons [of e i ids] by auto
      have s1: "self \<or> fid \<notin> above e (set ?P)" using Cons.prems(3) sub by auto
      have c1: "seen_closed e (set ?P) (seen @ [i])"
        using Cons.prems(4) False sub own_ancestor [OF load f] by (fastforce simp: seen_closed_def)
      from Suc.IH [OF h k s1 c1] obtain s where s: "dependency_walk e fid self ?P (seen @ [i]) = Some s"
        "set s = insert i (set seen) \<union> above e (set ?P)" "distinct s" by auto
      then have s': "set s = set seen \<union> above e {i}" using above_node [OF f] by auto
      have "seen_closed e (set ids) s"
        using s(3) s' Cons.prems(4) above_Cons [of e i ids] above_up [of _ e "{i}"]
        by (fastforce simp: seen_closed_def)
      from Cons.IH [OF rest this] show ?thesis
        using s(1) s' ne False above_Cons [of e i ids] by (auto simp: dependency_walk_Cons [OF f])
    qed
  qed
qed

lemma height_bound: "\<exists>n. \<forall>i \<in> set ids. height r i < n"
  using finite_nat_set_iff_bounded [of "height r ` set ids"] by auto

lemma dependency_ids_exact:
  assumes load: "loadable e" and at: "fact_at e fid \<noteq> None"
  obtains out where "dependency_ids e fid self = Some (Inr out)" "sorted out" "distinct out"
    "set out = {k. (k, fid) \<in> (if self then (declared e)\<^sup>* else (declared e)\<^sup>+)}"
proof -
  obtain f where f: "fact_at e fid = Some f" using at by blast
  let ?P = "token_parents f"
  let ?start = "if self then [fid] else []"
  have own: "fid \<notin> above e (set ?P)" by (rule own_ancestor [OF load f])
  have k: "\<forall>p \<in> set ?P. fact_at e p \<noteq> None" using loadable_parents [OF load f] by blast
  have c: "seen_closed e (set ?P) ?start" using own by (simp add: seen_closed_def)
  obtain n where "\<forall>i \<in> set ?P. height ((declared e)\<inverse>) i < n" using height_bound [of ?P "(declared e)\<inverse>"] by blast
  from dependency_walk_above [OF load this k _ c] own obtain s
    where s: "dependency_walk e fid self ?P ?start = Some s" "set s = set ?start \<union> above e (set ?P)" "distinct s"
    by blast
  then have w: "dependency_walk e fid self [fid] [] = Some s"
    by (auto simp: dependency_walk_Cons [OF f])
  let ?out = "sort (filter (\<lambda>i. self \<or> i \<noteq> fid) s)"
  have "set ?out = {k. (k, fid) \<in> (if self then (declared e)\<^sup>* else (declared e)\<^sup>+)}"
    using s(2) own unfolding above_parents [OF f] by (auto simp: rtrancl_eq_or_trancl)
  then show ?thesis using that [of ?out] at w s(3) by (simp add: dependency_ids_def)
qed

end
