(* ===== verification/GlobalTruth.thy ===== *)
theory GlobalTruth
imports UnionFind DependencyIDs
begin

text \<open>
  core/global_truth.go: the versioned facts that the engines of all sessions share. The engines
  live in a store, addressed by numbers, since two sessions may register the same engine; a
  subscriber is an address. Assertions and retractions return only when the engines' do, so the
  fan-out has an outer option like propagate.
\<close>

section \<open>State\<close>

type_synonym engine_store = "nat \<Rightarrow> engine"

record global_truth =
  gt_facts :: "(string \<times> fact) list"
  gt_retracted :: "(string \<times> string) list"
  gt_version :: int
  gt_subscribers :: "(string \<times> nat) list"
  gt_dep_index :: "(string \<times> string list) list"
  gt_session_deps :: "(string \<times> string list) list"

definition new_global_truth :: global_truth where
  "new_global_truth =
     \<lparr>gt_facts = [], gt_retracted = [], gt_version = 0, gt_subscribers = [], gt_dep_index = [],
      gt_session_deps = []\<rparr>"

definition with_global_truth_flag :: "gobj \<Rightarrow> gobj" where
  "with_global_truth_flag m = obj_put ''_global_truth'' (GBool True) m"

text \<open>A map of sets: an absent key reads as the empty set.\<close>

definition members :: "(string \<times> string list) list \<Rightarrow> string \<Rightarrow> string list" where
  "members m k = (case map_of m k of None \<Rightarrow> [] | Some xs \<Rightarrow> xs)"

definition add_member :: "string \<Rightarrow> string \<Rightarrow> (string \<times> string list) list \<Rightarrow> (string \<times> string list) list" where
  "add_member k x m = AList.update k (set_insert x (members m k)) m"

section \<open>The dependency index\<close>

text \<open>The global facts that the sets of a fact name directly, as the two indexing loops read them.\<close>

definition strip_negation :: "string \<Rightarrow> string" where
  "strip_negation t = (case t of [] \<Rightarrow> [] | c # cs \<Rightarrow> if c = CHR ''!'' then cs else t)"

definition global_parents :: "(string \<times> fact) list \<Rightarrow> fact \<Rightarrow> string list" where
  "global_parents gfs f =
     filter (\<lambda>p. p \<noteq> [] \<and> map_of gfs p \<noteq> None)
       (map (\<lambda>t. trim_space (strip_negation t)) (concat (sets_of f)))"

definition drop_session :: "string \<Rightarrow> string \<Rightarrow> (string \<times> string list) list \<Rightarrow> (string \<times> string list) list" where
  "drop_session sid fid ix =
     (case map_of ix fid of
        None \<Rightarrow> ix
      | Some ss \<Rightarrow>
         (let ss' = removeAll sid ss in if ss' = [] then AList.delete fid ix else AList.update fid ss' ix))"

definition remove_session_index :: "string \<Rightarrow> global_truth \<Rightarrow> global_truth" where
  "remove_session_index sid gt =
     gt\<lparr>gt_session_deps := AList.delete sid (gt_session_deps gt),
        gt_dep_index := fold (drop_session sid) (members (gt_session_deps gt) sid) (gt_dep_index gt)\<rparr>"

definition rebuild_session_index :: "string \<Rightarrow> engine \<Rightarrow> global_truth \<Rightarrow> global_truth" where
  "rebuild_session_index sid e gt0 =
     (let gt = remove_session_index sid gt0;
          deps = remdups (concat (map (global_parents (gt_facts gt)) (list_facts e)))
      in if deps = [] then gt
         else gt\<lparr>gt_session_deps := AList.update sid deps (gt_session_deps gt),
                 gt_dep_index := fold (\<lambda>fid. add_member fid sid) deps (gt_dep_index gt)\<rparr>)"

definition index_parent_of :: "string \<Rightarrow> string \<Rightarrow> global_truth \<Rightarrow> global_truth" where
  "index_parent_of sid p gt =
     gt\<lparr>gt_session_deps := add_member sid p (gt_session_deps gt),
        gt_dep_index := add_member p sid (gt_dep_index gt)\<rparr>"

definition index_fact_dependencies :: "string \<Rightarrow> fact option \<Rightarrow> global_truth \<Rightarrow> global_truth" where
  "index_fact_dependencies sid fo gt =
     (case fo of None \<Rightarrow> gt
      | Some f \<Rightarrow>
         if sid = [] then gt
         else (let gt1 = (if map_of (gt_session_deps gt) sid = None
                          then gt\<lparr>gt_session_deps := AList.update sid [] (gt_session_deps gt)\<rparr> else gt)
               in fold (index_parent_of sid) (global_parents (gt_facts gt) f) gt1))"

section \<open>Partition\<close>

text \<open>The unions of the triple loop: a fact and each token, less one leading '!', that is a global fact.\<close>

definition partition_edges :: "(string \<times> fact) list \<Rightarrow> (string \<times> string) list" where
  "partition_edges gfs =
     concat (map (\<lambda>(_, f).
       map (Pair (fact_id f))
         (filter (\<lambda>p. map_of gfs p \<noteq> None) (map strip_negation (concat (sets_of f))))) gfs)"

text \<open>Grouping by the root that find gives, the parent map being compressed on the way.\<close>

fun group_by_root :: "string list \<Rightarrow> uf \<Rightarrow> (string \<times> string list) list \<Rightarrow> (string \<times> string list) list option" where
  "group_by_root [] p groups = Some groups"
| "group_by_root (i # is) p groups =
     Option.bind (uf_find i p) (\<lambda>(r, p').
       group_by_root is p' (AList.update r (members groups r @ [i]) groups))"

definition partition_facts :: "(string \<times> fact) list \<Rightarrow> string list list option" where
  "partition_facts gfs =
     Option.bind (uf_unions (partition_edges gfs) (map (\<lambda>(k, _). (k, k)) gfs)) (\<lambda>p.
     Option.bind (group_by_root (map fst gfs) p []) (\<lambda>groups.
       Some (sort_key hd (map (\<lambda>(_, ids). sort ids) groups))))"

section \<open>Fan-out\<close>

fun component_ids :: "string \<Rightarrow> string list \<Rightarrow> string list list \<Rightarrow> string list" where
  "component_ids gid acc [] = acc"
| "component_ids gid acc (c # cs) =
     (let acc' = (if gid \<in> set c then c else acc)
      in if gid \<notin> set acc' then acc' else component_ids gid acc' cs)"

definition affected_subscribers :: "string \<Rightarrow> global_truth \<Rightarrow> string list option" where
  "affected_subscribers gid gt =
     map_option (\<lambda>comps.
         sort (remdups (concat (map (members (gt_dep_index gt)) (component_ids gid [gid] comps)))))
       (partition_facts (gt_facts gt))"

text \<open>Applying an operation to the engine at an address; its error is ignored.\<close>

definition at_address ::
  "(engine \<Rightarrow> ('e + engine) option) \<Rightarrow> nat \<Rightarrow> engine_store \<Rightarrow> engine_store option" where
  "at_address act a h =
     (case act (h a) of
        None \<Rightarrow> None
      | Some (Inl _) \<Rightarrow> Some h
      | Some (Inr e) \<Rightarrow> Some (h(a := e)))"

fun fan_out ::
  "(engine \<Rightarrow> ('e + engine) option) \<Rightarrow> (string \<times> nat) list \<Rightarrow> engine_store \<Rightarrow> engine_store option" where
  "fan_out act [] h = Some h"
| "fan_out act (t # ts) h = Option.bind (at_address act (snd t) h) (fan_out act ts)"

definition chosen :: "(string \<times> nat) list \<Rightarrow> string list \<Rightarrow> (string \<times> nat) list" where
  "chosen subs sids = filter (\<lambda>(sid, _). sid \<in> set sids) subs"

section \<open>Operations\<close>

datatype gt_error = EmptySessionID | NilEngine | NilFact | EmptyFactID | GlobalFactNotFound string | VersionTimeout

fun replay_facts :: "int \<Rightarrow> nat \<Rightarrow> fact list \<Rightarrow> engine_store \<Rightarrow> engine_store option" where
  "replay_facts now a [] h = Some h"
| "replay_facts now a (f # fs) h =
     Option.bind
       (at_address (assert_fact now (Some ((clone_fact f)\<lparr>metadata := with_global_truth_flag (metadata (clone_fact f))\<rparr>))) a h)
       (replay_facts now a fs)"

definition gt_subscribe ::
  "int \<Rightarrow> string \<Rightarrow> nat option \<Rightarrow> global_truth \<Rightarrow> engine_store \<Rightarrow> (gt_error + global_truth \<times> engine_store) option" where
  "gt_subscribe now sid ao gt h =
     (if sid = [] then Some (Inl EmptySessionID)
      else (case ao of None \<Rightarrow> Some (Inl NilEngine)
            | Some a \<Rightarrow>
               (let gt1 = rebuild_session_index sid (h a)
                            (gt\<lparr>gt_subscribers := AList.update sid a (gt_subscribers gt)\<rparr>);
                    live = filter (\<lambda>f. map_of (gt_retracted gt1) (fact_id f) = None) (map snd (gt_facts gt1))
                in map_option (\<lambda>h'. Inr (gt1, h')) (replay_facts now a live h))))"

definition gt_unsubscribe :: "string \<Rightarrow> global_truth \<Rightarrow> global_truth" where
  "gt_unsubscribe sid gt =
     remove_session_index sid (gt\<lparr>gt_subscribers := AList.delete sid (gt_subscribers gt)\<rparr>)"

definition assert_targets :: "bool \<Rightarrow> string \<Rightarrow> global_truth \<Rightarrow> (string \<times> nat) list option" where
  "assert_targets existed gid gt =
     (if \<not> existed then Some (gt_subscribers gt)
      else map_option (\<lambda>aff. let ts = chosen (gt_subscribers gt) aff in if ts = [] then gt_subscribers gt else ts)
             (affected_subscribers gid gt))"

definition assert_global ::
  "int \<Rightarrow> fact option \<Rightarrow> global_truth \<Rightarrow> engine_store \<Rightarrow> (gt_error + int \<times> global_truth \<times> engine_store) option" where
  "assert_global now fo gt h =
     (case fo of None \<Rightarrow> Some (Inl NilFact)
      | Some f \<Rightarrow>
         (let existed = (map_of (gt_facts gt) (fact_id f) \<noteq> None);
              gt1 = gt\<lparr>gt_facts := AList.update (fact_id f) (clone_fact f) (gt_facts gt),
                       gt_retracted := AList.delete (fact_id f) (gt_retracted gt),
                       gt_version := gt_version gt + 1\<rparr>;
              broadcast = (clone_fact f)\<lparr>metadata := with_global_truth_flag (metadata (clone_fact f))\<rparr>
          in Option.bind (assert_targets existed (fact_id f) gt1) (\<lambda>ts.
             Option.bind (fan_out (assert_fact now (Some (clone_fact broadcast))) ts h) (\<lambda>h'.
               Some (Inr (gt_version gt1, gt1, h'))))))"

definition retract_targets :: "string \<Rightarrow> global_truth \<Rightarrow> (string \<times> nat) list option" where
  "retract_targets gid gt =
     map_option (\<lambda>aff.
         if 0 < length aff \<and> length aff < length (gt_subscribers gt)
         then chosen (gt_subscribers gt) aff else gt_subscribers gt)
       (affected_subscribers gid gt)"

definition retract_global ::
  "int \<Rightarrow> string \<Rightarrow> string \<Rightarrow> global_truth \<Rightarrow> engine_store \<Rightarrow> (gt_error + int \<times> global_truth \<times> engine_store) option" where
  "retract_global now gid reason0 gt h =
     (if gid = [] then Some (Inl EmptyFactID)
      else (let reason = (if reason0 = [] then ''global_retract'' else reason0)
            in if map_of (gt_facts gt) gid = None then Some (Inl (GlobalFactNotFound gid))
               else (let gt1 = gt\<lparr>gt_retracted := AList.update gid reason (gt_retracted gt),
                                  gt_version := gt_version gt + 1\<rparr>
                     in Option.bind (retract_targets gid gt1) (\<lambda>ts.
                        Option.bind (fan_out (retract_fact now gid reason) ts h) (\<lambda>h'.
                          Some (Inr (gt_version gt1, gt1, h')))))))"

definition list_global_facts :: "global_truth \<Rightarrow> fact list" where
  "list_global_facts gt =
     map (clone_fact \<circ> snd) (filter (\<lambda>(k, _). map_of (gt_retracted gt) k = None) (gt_facts gt))"

definition get_global_fact :: "string \<Rightarrow> global_truth \<Rightarrow> fact option" where
  "get_global_fact k gt =
     (case map_of (gt_facts gt) k of
        None \<Rightarrow> None
      | Some f \<Rightarrow> if map_of (gt_retracted gt) k \<noteq> None then None else Some (clone_fact f))"

definition subscriber_count :: "global_truth \<Rightarrow> nat" where
  "subscriber_count gt = length (gt_subscribers gt)"

text \<open>
  WaitForVersion polls: the version and the clock it reads in the i-th round are functions of i,
  since other calls run in between.
\<close>

partial_function (option) wait_for_version ::
  "(nat \<Rightarrow> int) \<Rightarrow> (nat \<Rightarrow> int) \<Rightarrow> int \<Rightarrow> int \<Rightarrow> nat \<Rightarrow> gt_error option option" where
  "wait_for_version versions clock min_version deadline i =
     (if versions i \<ge> min_version then Some None
      else if clock i > deadline then Some (Some VersionTimeout)
      else wait_for_version versions clock min_version deadline (Suc i))"

end
