(* ===== verification/GlobalPartition.thy ===== *)
theory GlobalPartition
imports GlobalTruth "HOL-Library.Multiset"
begin

text \<open>
  Partition (core/global_truth.go): the groups are the connected components of the dependency
  edges between global facts, each sorted, in the order of their first fact.
\<close>

definition wf_globals :: "(string \<times> fact) list \<Rightarrow> bool" where
  "wf_globals gfs \<longleftrightarrow> distinct (map fst gfs) \<and> (\<forall>(k, f) \<in> set gfs. fact_id f = k)"

text \<open>A fact depends on another when a token of its sets, less a leading '!', names it.\<close>

definition global_edges :: "(string \<times> fact) list \<Rightarrow> (string \<times> string) set" where
  "global_edges gfs =
     {(k, p). \<exists>f t. map_of gfs k = Some f \<and> t \<in> set (concat (sets_of f)) \<and> p = strip_negation t \<and>
        map_of gfs p \<noteq> None}"

lemma partition_edges_set: "wf_globals gfs \<Longrightarrow> set (partition_edges gfs) = global_edges gfs"
proof -
  assume wf: "wf_globals gfs"
  have id: "map_of gfs k = Some f \<longleftrightarrow> (k, f) \<in> set gfs" "(k, f) \<in> set gfs \<Longrightarrow> fact_id f = k" for k f
    using wf by (auto simp: wf_globals_def map_of_eq_in_set)
  have "x \<in> set (partition_edges gfs) \<longleftrightarrow>
      (\<exists>k f t. (k, f) \<in> set gfs \<and> t \<in> set (concat (sets_of f)) \<and> map_of gfs (strip_negation t) \<noteq> None \<and>
         x = (fact_id f, strip_negation t))" for x
    unfolding partition_edges_def by fastforce
  then show ?thesis using id by (fastforce simp: global_edges_def)
qed

lemma members_update [simp]: "members (AList.update k xs m) k' = (if k' = k then xs else members m k')"
  by (simp add: members_def)

lemma members_of: "distinct (map fst m) \<Longrightarrow> (k, xs) \<in> set m \<Longrightarrow> members m k = xs"
  by (simp add: members_def)

lemma mset_concat_update:
  assumes "distinct (map fst m)"
  shows "mset (concat (map snd (AList.update r (members m r @ [i]) m))) = add_mset i (mset (concat (map snd m)))"
  using assms
proof (induction m)
  case (Cons kv m)
  obtain k v where kv: "kv = (k, v)" by fastforce
  show ?case
  proof (cases "r = k")
    case False
    then have "members (kv # m) r = members m r" by (simp add: members_def kv)
    then show ?thesis using Cons False kv by simp
  qed (simp add: members_def kv)
qed (simp add: members_def)

lemma mset_concat_perm: "mset xss = mset yss \<Longrightarrow> mset (concat xss) = mset (concat yss)"
  by (metis mset_concat mset_map sum_mset_sum_list)

lemma group_by_root_props:
  assumes "uf_ok p" "\<And>z s. uf_root p z s \<longleftrightarrow> R z s" "set ids \<subseteq> fst ` set p" "distinct (map fst groups)"
  shows "\<exists>gs. group_by_root ids p groups = Some gs \<and> distinct (map fst gs) \<and>
    (\<forall>r. members gs r = members groups r @ filter (\<lambda>i. R i r) ids) \<and>
    fst ` set gs = fst ` set groups \<union> {r. \<exists>i \<in> set ids. R i r} \<and>
    mset (concat (map snd gs)) = mset (concat (map snd groups)) + mset ids"
  using assms
proof (induction ids arbitrary: p groups)
  case (Cons i ids)
  have "map_of p i \<noteq> None" using Cons.prems(3) unfolding map_of_ne_None by simp
  then obtain r q where q: "uf_find i p = Some (r, q)" "uf_root p i r" "uf_ok q" "fst ` set q = fst ` set p"
    "\<And>z s. uf_root q z s \<longleftrightarrow> uf_root p z s"
    using uf_find_root [OF Cons.prems(1)] by blast
  have rr: "R i s \<longleftrightarrow> s = r" for s
    using uf_root_unique [OF Cons.prems(1) q(2)] q(2) Cons.prems(2) by blast
  let ?g = "AList.update r (members groups r @ [i]) groups"
  have IH: "\<exists>gs. group_by_root ids q ?g = Some gs \<and> distinct (map fst gs) \<and>
    (\<forall>s. members gs s = members ?g s @ filter (\<lambda>i. R i s) ids) \<and>
    fst ` set gs = fst ` set ?g \<union> {s. \<exists>i \<in> set ids. R i s} \<and>
    mset (concat (map snd gs)) = mset (concat (map snd ?g)) + mset ids"
    by (rule Cons.IH [OF q(3)]) (use q(4,5) Cons.prems in \<open>simp_all add: distinct_update\<close>)
  then obtain gs where gs: "group_by_root ids q ?g = Some gs" "distinct (map fst gs)"
    "\<And>s. members gs s = members ?g s @ filter (\<lambda>i. R i s) ids"
    "fst ` set gs = fst ` set ?g \<union> {s. \<exists>i \<in> set ids. R i s}"
    "mset (concat (map snd gs)) = mset (concat (map snd ?g)) + mset ids" by blast
  show ?case
  proof (intro exI [of _ gs] conjI allI)
    show "group_by_root (i # ids) p groups = Some gs" using q(1) gs(1) by simp
    show "members gs s = members groups s @ filter (\<lambda>i. R i s) (i # ids)" for s
      by (simp add: gs(3) rr)
    show "fst ` set gs = fst ` set groups \<union> {r. \<exists>i \<in> set (i # ids). R i r}"
      unfolding gs(4) keys_update by (auto simp: rr)
    show "mset (concat (map snd gs)) = mset (concat (map snd groups)) + mset (i # ids)"
      using gs(5) mset_concat_update [OF Cons.prems(4)] by simp
  qed (rule gs(2))
qed simp

text \<open>What Partition promises of the list of groups.\<close>

definition components_of :: "(string \<times> fact) list \<Rightarrow> string list list \<Rightarrow> bool" where
  "components_of gfs cs \<longleftrightarrow>
     mset (concat cs) = mset (map fst gfs) \<and> sorted (map hd cs) \<and>
     (\<forall>c \<in> set cs. c \<noteq> [] \<and> sorted c \<and>
        (\<forall>x \<in> set c. set c = {y \<in> fst ` set gfs. (x, y) \<in> uf_connected (global_edges gfs)}))"

lemma partition_components:
  assumes wf: "wf_globals gfs"
  shows "\<exists>cs. partition_facts gfs = Some cs \<and> components_of gfs cs"
proof -
  let ?A = "fst ` set gfs"
  have start: "map (\<lambda>(k, _). (k, k)) gfs = map (\<lambda>x. (x, x)) (map fst gfs)" by (simp add: case_prod_beta)
  have edges: "set (partition_edges gfs) \<subseteq> ?A \<times> ?A"
    unfolding partition_edges_set [OF wf] by (auto simp: global_edges_def map_of_ne_None dest: map_of_SomeD)
      (metis fst_conv imageI map_of_SomeD)+
  obtain p where p: "uf_unions (partition_edges gfs) (map (\<lambda>(k, _). (k, k)) gfs) = Some p"
    "uf_classes ?A (global_edges gfs) p"
    using uf_unions_classes [OF uf_classes_start [of "map fst gfs"], of "partition_edges gfs"] edges
      partition_edges_set [OF wf] by (auto simp: start)
  have ok: "uf_ok p" and keys: "fst ` set p = ?A" and same: "\<And>x y. x \<in> ?A \<Longrightarrow> y \<in> ?A \<Longrightarrow>
      uf_same p x y \<longleftrightarrow> (x, y) \<in> uf_connected (global_edges gfs)"
    using p(2) by (auto simp: uf_classes_def)
  obtain gs where gs: "group_by_root (map fst gfs) p [] = Some gs" "distinct (map fst gs)"
    "\<And>r. members gs r = members [] r @ filter (\<lambda>i. uf_root p i r) (map fst gfs)"
    "fst ` set gs = {} \<union> {r. \<exists>i \<in> set (map fst gfs). uf_root p i r}"
    "mset (concat (map snd gs)) = {#} + mset (map fst gfs)"
    using group_by_root_props [OF ok refl, of "map fst gfs" "[]"] keys by auto
  define cs where "cs = sort_key hd (map (\<lambda>(_, ids). sort ids) gs)"
  have cs: "partition_facts gfs = Some cs" using p(1) gs(1) by (simp add: partition_facts_def cs_def)
  have group: "\<exists>r. c = sort (filter (\<lambda>i. uf_root p i r) (map fst gfs)) \<and> (\<exists>i \<in> ?A. uf_root p i r)"
    if "c \<in> set cs" for c
  proof -
    obtain r ids where g: "(r, ids) \<in> set gs" "c = sort ids" using \<open>c \<in> set cs\<close> by (auto simp: cs_def)
    have "r \<in> {r. \<exists>i \<in> set (map fst gfs). uf_root p i r}" using g(1) gs(4) by force
    moreover have "ids = filter (\<lambda>i. uf_root p i r) (map fst gfs)"
      using members_of [OF gs(2) g(1)] gs(3) by (simp add: members_def)
    ultimately show ?thesis using g(2) by auto
  qed
  have comp: "set c = {y \<in> ?A. (x, y) \<in> uf_connected (global_edges gfs)}"
    if c: "c \<in> set cs" "x \<in> set c" for c x
  proof -
    obtain r where r: "c = sort (filter (\<lambda>i. uf_root p i r) (map fst gfs))" using group [OF c(1)] by blast
    then have x: "x \<in> ?A" "uf_root p x r" using c(2) by auto
    have "uf_root p y r \<longleftrightarrow> (x, y) \<in> uf_connected (global_edges gfs)" if y: "y \<in> ?A" for y
      using same [OF x(1) y] uf_root_unique [OF ok x(2)] x(2) unfolding uf_same_def by blast
    then show ?thesis using r by auto
  qed
  have "mset (concat cs) = mset (map fst gfs)"
  proof -
    have "mset (concat cs) = mset (concat (map (\<lambda>(_, ids). sort ids) gs))"
      by (rule mset_concat_perm) (simp add: cs_def)
    also have "\<dots> = mset (concat (map snd gs))" by (induction gs) auto
    finally show ?thesis using gs(5) by simp
  qed
  moreover have "\<forall>c \<in> set cs. c \<noteq> [] \<and> sorted c"
  proof
    fix c assume "c \<in> set cs"
    from group [OF this] obtain r i where r: "c = sort (filter (\<lambda>i. uf_root p i r) (map fst gfs))"
      "i \<in> ?A" "uf_root p i r" by blast
    then have "i \<in> set c" by simp
    then have "c \<noteq> []" by auto
    then show "c \<noteq> [] \<and> sorted c" using r(1) by simp
  qed
  ultimately show ?thesis using cs comp by (auto simp: components_of_def cs_def)
qed

text \<open>The component an update of a global fact reaches.\<close>

lemma component_ids_self:
  "gid \<in> set acc \<Longrightarrow> gid \<in> set (component_ids gid acc cs)"
  by (induction cs arbitrary: acc) (auto simp: Let_def)

lemma component_ids_eq:
  assumes "gid \<in> set acc"
  shows "component_ids gid acc cs \<in> {c \<in> insert acc (set cs). gid \<in> set c}"
  using assms
proof (induction cs arbitrary: acc)
  case (Cons c cs)
  then show ?case using Cons.IH [of c] Cons.IH [of acc] by (auto simp: Let_def)
qed simp

lemma component_ids_component:
  assumes c: "components_of gfs cs" and g: "gid \<in> fst ` set gfs"
  shows "set (component_ids gid [gid] cs) = {y \<in> fst ` set gfs. (gid, y) \<in> uf_connected (global_edges gfs)}"
proof -
  have "gid \<in># mset (concat cs)" using c g by (simp add: components_of_def)
  then obtain d where d: "d \<in> set cs" "gid \<in> set d" by auto
  have "\<exists>e \<in> set cs. gid \<in> set e \<and> component_ids gid acc cs' = e"
    if "gid \<in> set acc" "d \<in> set cs'" "set cs' \<subseteq> set cs" for acc cs'
    using that
  proof (induction cs' arbitrary: acc)
    case (Cons x xs)
    show ?case
    proof (cases "gid \<in> set x \<and> d \<notin> set xs")
      case True
      have "component_ids gid x xs \<in> {c \<in> insert x (set xs). gid \<in> set c}"
        by (rule component_ids_eq) (use True in simp)
      then show ?thesis using True Cons.prems by (auto simp: Let_def)
    next
      case False
      then have "d \<in> set xs" using Cons.prems d(2) by auto
      then show ?thesis using Cons.IH [of x] Cons.IH [of acc] Cons.prems by (auto simp: Let_def)
    qed
  qed simp
  from this [of "[gid]" cs] d obtain e where e: "e \<in> set cs" "gid \<in> set e" "component_ids gid [gid] cs = e"
    by auto
  then show ?thesis using c by (auto simp: components_of_def)
qed

end
