(* ===== verification/GlobalInv.thy ===== *)
theory GlobalInv
imports GlobalPartition
begin

text \<open>
  Runs of the global truth with the engines that subscribe to it: every operation returns, the
  two indexes stay inverse to each other, and what a broadcast reaches.
\<close>

section \<open>The indexes\<close>

definition index_ok :: "global_truth \<Rightarrow> bool" where
  "index_ok gt \<longleftrightarrow>
     (\<forall>sid fid. sid \<in> set (members (gt_dep_index gt) fid) \<longleftrightarrow> fid \<in> set (members (gt_session_deps gt) sid))"

lemma members_Nil [simp]: "members [] k = []"
  by (simp add: members_def)

lemma members_delete [simp]: "members (AList.delete k m) k' = (if k' = k then [] else members m k')"
  by (simp add: members_def)

lemma members_add [simp]:
  "x \<in> set (members (add_member k y m) k') \<longleftrightarrow> k' = k \<and> x = y \<or> x \<in> set (members m k')"
  by (auto simp: add_member_def)

lemma drop_session_members [simp]:
  "x \<in> set (members (drop_session sid fid ix) k) \<longleftrightarrow> x \<in> set (members ix k) \<and> \<not> (k = fid \<and> x = sid)"
proof (cases "map_of ix fid")
  case (Some ss)
  then have "members ix fid = ss" by (simp add: members_def)
  moreover have "removeAll sid ss = [] \<longleftrightarrow> set ss \<subseteq> {sid}" by (induction ss) auto
  ultimately show ?thesis using Some by (auto simp: drop_session_def Let_def)
qed (auto simp: drop_session_def members_def)

lemma fold_drop_members [simp]:
  "x \<in> set (members (fold (drop_session sid) fids ix) k) \<longleftrightarrow> x \<in> set (members ix k) \<and> \<not> (k \<in> set fids \<and> x = sid)"
  by (induction fids arbitrary: ix) auto

lemma fold_add_members [simp]:
  "x \<in> set (members (fold (\<lambda>fid. add_member fid sid) fids ix) k) \<longleftrightarrow>
     x \<in> set (members ix k) \<or> k \<in> set fids \<and> x = sid"
  by (induction fids arbitrary: ix) auto

lemma remove_session_ok:
  assumes "index_ok gt"
  shows "index_ok (remove_session_index sid gt)"
    "members (gt_session_deps (remove_session_index sid gt)) sid = []"
    "sid \<notin> set (members (gt_dep_index (remove_session_index sid gt)) fid)"
  using assms by (auto simp: index_ok_def remove_session_index_def)

lemma remove_session_frame [simp, frame]:
  "gt_facts (remove_session_index sid gt) = gt_facts gt"
  "gt_retracted (remove_session_index sid gt) = gt_retracted gt"
  "gt_version (remove_session_index sid gt) = gt_version gt"
  "gt_subscribers (remove_session_index sid gt) = gt_subscribers gt"
  by (simp_all add: remove_session_index_def)

lemma rebuild_session_ok: "index_ok gt \<Longrightarrow> index_ok (rebuild_session_index sid e gt)"
  using remove_session_ok [of gt sid]
  by (auto simp: index_ok_def rebuild_session_index_def Let_def)

lemma rebuild_session_frame [simp, frame]:
  "gt_facts (rebuild_session_index sid e gt) = gt_facts gt"
  "gt_retracted (rebuild_session_index sid e gt) = gt_retracted gt"
  "gt_version (rebuild_session_index sid e gt) = gt_version gt"
  "gt_subscribers (rebuild_session_index sid e gt) = gt_subscribers gt"
  by (simp_all add: rebuild_session_index_def Let_def)

lemma index_parent_ok: "index_ok gt \<Longrightarrow> index_ok (index_parent_of sid p gt)"
  by (auto simp: index_ok_def index_parent_of_def)

lemma index_parents_ok: "index_ok gt \<Longrightarrow> index_ok (fold (index_parent_of sid) ps gt)"
  by (induction ps arbitrary: gt) (simp_all add: index_parent_ok)

lemma index_parents_frame [simp, frame]:
  "gt_facts (fold (index_parent_of sid) ps gt) = gt_facts gt"
  "gt_retracted (fold (index_parent_of sid) ps gt) = gt_retracted gt"
  "gt_version (fold (index_parent_of sid) ps gt) = gt_version gt"
  "gt_subscribers (fold (index_parent_of sid) ps gt) = gt_subscribers gt"
  by (induction ps arbitrary: gt) (simp_all add: index_parent_of_def)

lemma index_fact_ok: "index_ok gt \<Longrightarrow> index_ok (index_fact_dependencies sid fo gt)"
proof (cases fo)
  case (Some f)
  assume ok: "index_ok gt"
  then have "index_ok (gt\<lparr>gt_session_deps := AList.update sid [] (gt_session_deps gt)\<rparr>)"
    if "map_of (gt_session_deps gt) sid = None"
    using that by (auto simp: index_ok_def members_def)
  then show ?thesis using ok Some by (simp add: index_fact_dependencies_def index_parents_ok)
qed (simp add: index_fact_dependencies_def)

lemma index_fact_frame [simp, frame]:
  "gt_facts (index_fact_dependencies sid fo gt) = gt_facts gt"
  "gt_retracted (index_fact_dependencies sid fo gt) = gt_retracted gt"
  "gt_version (index_fact_dependencies sid fo gt) = gt_version gt"
  "gt_subscribers (index_fact_dependencies sid fo gt) = gt_subscribers gt"
  by (simp_all add: index_fact_dependencies_def split: option.split)

section \<open>Broadcasts\<close>

text \<open>An operation that can be sent to every engine a run can reach.\<close>

locale broadcast =
  fixes act :: "engine \<Rightarrow> (core_error + engine) option"
  assumes act_total: "any_history e \<Longrightarrow> act e \<noteq> None"
    and act_reach: "any_history e \<Longrightarrow> act e = Some (Inr e') \<Longrightarrow> any_history e'"
begin

lemma at_total:
  assumes "\<forall>a. any_history (h a)"
  shows "\<exists>h'. at_address act b h = Some h' \<and> (\<forall>a. any_history (h' a)) \<and> (\<forall>a. a \<noteq> b \<longrightarrow> h' a = h a)"
proof -
  have b: "any_history (h b)" using assms by simp
  obtain r where r: "act (h b) = Some r" using act_total [OF b] by auto
  show ?thesis
  proof (cases r)
    case (Inl err)
    then show ?thesis using r assms by (simp add: at_address_def)
  next
    case (Inr e)
    then show ?thesis using r assms act_reach [OF b] by (auto simp: at_address_def)
  qed
qed

lemma fan_out_total:
  assumes "\<forall>a. any_history (h a)"
  shows "\<exists>h'. fan_out act ts h = Some h' \<and> (\<forall>a. any_history (h' a)) \<and>
    (\<forall>a. a \<notin> snd ` set ts \<longrightarrow> h' a = h a)"
  using assms
proof (induction ts arbitrary: h)
  case (Cons t ts)
  obtain h1 where h1: "at_address act (snd t) h = Some h1" "\<forall>a. any_history (h1 a)"
    "\<And>a. a \<noteq> snd t \<Longrightarrow> h1 a = h a"
    using at_total [OF Cons.prems] by blast
  then show ?case using Cons.IH [OF h1(2)] by auto
qed simp

text \<open>A condition the operation establishes from a premise it also implies holds at every target.\<close>

lemma fan_out_reaches:
  assumes h: "\<forall>a. any_history (h a)" and step: "fan_out act ts h = Some h'" and a: "a \<in> snd ` set ts"
    and pre: "P (h a)" and post: "\<And>e. any_history e \<Longrightarrow> P e \<Longrightarrow>
      (case act e of None \<Rightarrow> False | Some (Inl _) \<Rightarrow> Q e | Some (Inr e') \<Rightarrow> Q e')"
    and again: "\<And>e. Q e \<Longrightarrow> P e"
  shows "Q (h' a)"
  using h step a pre
proof (induction ts arbitrary: h)
  case (Cons t ts)
  obtain h1 where h1: "at_address act (snd t) h = Some h1" "\<forall>a. any_history (h1 a)"
    "\<And>a. a \<noteq> snd t \<Longrightarrow> h1 a = h a"
    using at_total [OF Cons.prems(1)] by blast
  have step1: "fan_out act ts h1 = Some h'" using Cons.prems(2) h1(1) by simp
  have Q: "Q (h1 a)" if at: "a = snd t"
    using post [of "h a"] Cons.prems(1,4) h1(1) at
    by (auto simp: at_address_def split: option.splits sum.splits)
  show ?case
  proof (cases "a \<in> snd ` set ts")
    case True
    have "P (h1 a)" using Q again h1(3) [of a] Cons.prems(4) by (cases "a = snd t") auto
    then show ?thesis by (rule Cons.IH [OF h1(2) step1 True])
  next
    case False
    then have "a = snd t" using Cons.prems(3) by auto
    moreover have "h' a = h1 a" using fan_out_total [OF h1(2), of ts] step1 False by auto
    ultimately show ?thesis using Q by simp
  qed
qed simp

end

lemma run_op_broadcast: "broadcast (run_op now x)"
  by unfold_locales (use running.act_returns any_history_inv any_act in blast)+

interpretation asserted_everywhere: broadcast "assert_fact now fo" for now fo
  using run_op_broadcast [of now "OpAssert fo"] by (simp add: broadcast_def)

interpretation retracted_everywhere: broadcast "retract_fact now k r" for now k r
  using run_op_broadcast [of now "OpRetract k r"] by (simp add: broadcast_def)

lemma replay_total:
  "\<forall>a. any_history (h a) \<Longrightarrow> \<exists>h'. replay_facts now a fs h = Some h' \<and> (\<forall>a. any_history (h' a))"
proof (induction fs arbitrary: h)
  case (Cons f fs)
  let ?act = "assert_fact now (Some ((clone_fact f)\<lparr>metadata := with_global_truth_flag (metadata (clone_fact f))\<rparr>))"
  obtain h1 where h1: "at_address ?act a h = Some h1" "\<forall>a. any_history (h1 a)"
    using asserted_everywhere.at_total [OF Cons.prems] by blast
  then show ?case using Cons.IH [OF h1(2)] by simp
qed simp

section \<open>Runs\<close>

datatype global_op =
    GSubscribe string "nat option"
  | GUnsubscribe string
  | GAssert "fact option"
  | GRetract string string
  | GIndex string "fact option"
  | GLocal nat engine_op

text \<open>One call; an error leaves the state as it was.\<close>

fun run_global :: "int \<Rightarrow> global_op \<Rightarrow> global_truth \<times> engine_store \<Rightarrow> (global_truth \<times> engine_store) option" where
  "run_global now (GSubscribe sid ao) s =
     map_option (\<lambda>r. case r of Inl _ \<Rightarrow> s | Inr s' \<Rightarrow> s') (gt_subscribe now sid ao (fst s) (snd s))"
| "run_global now (GUnsubscribe sid) s = Some (gt_unsubscribe sid (fst s), snd s)"
| "run_global now (GAssert fo) s =
     map_option (\<lambda>r. case r of Inl _ \<Rightarrow> s | Inr vs \<Rightarrow> snd vs) (assert_global now fo (fst s) (snd s))"
| "run_global now (GRetract k r) s =
     map_option (\<lambda>x. case x of Inl _ \<Rightarrow> s | Inr vs \<Rightarrow> snd vs) (retract_global now k r (fst s) (snd s))"
| "run_global now (GIndex sid fo) s = Some (index_fact_dependencies sid fo (fst s), snd s)"
| "run_global now (GLocal a x) s = map_option (Pair (fst s)) (at_address (run_op now x) a (snd s))"

inductive global_history :: "global_truth \<times> engine_store \<Rightarrow> bool" where
  global_start: "global_history (new_global_truth, \<lambda>_. new_engine)"
| global_act: "global_history s \<Longrightarrow> run_global now x s = Some s' \<Longrightarrow> global_history s'"

definition global_ok :: "global_truth \<times> engine_store \<Rightarrow> bool" where
  "global_ok s \<longleftrightarrow> wf_globals (gt_facts (fst s)) \<and> index_ok (fst s) \<and> (\<forall>a. any_history (snd s a))"

lemma wf_globals_alt:
  "wf_globals gfs \<longleftrightarrow> distinct (map fst gfs) \<and> (\<forall>k f. map_of gfs k = Some f \<longrightarrow> fact_id f = k)"
  by (auto simp: wf_globals_def map_of_eq_in_set dest: map_of_SomeD)

lemma wf_globals_put: "wf_globals gfs \<Longrightarrow> wf_globals (AList.update (fact_id f) f gfs)"
  by (simp add: wf_globals_alt distinct_update)

lemma affected_total:
  assumes "wf_globals (gt_facts gt)"
  obtains cs where "components_of (gt_facts gt) cs" "affected_subscribers gid gt =
    Some (sort (remdups (concat (map (members (gt_dep_index gt)) (component_ids gid [gid] cs)))))"
  using partition_components [OF assms] that by (auto simp: affected_subscribers_def)

lemma assert_global_total:
  assumes "global_ok (gt, h)"
  obtains ts h' where "assert_targets (map_of (gt_facts gt) (fact_id f) \<noteq> None) (fact_id f)
      (gt\<lparr>gt_facts := AList.update (fact_id f) f (gt_facts gt),
          gt_retracted := AList.delete (fact_id f) (gt_retracted gt), gt_version := gt_version gt + 1\<rparr>) = Some ts"
    "fan_out (assert_fact now (Some (f\<lparr>metadata := with_global_truth_flag (metadata f)\<rparr>))) ts h = Some h'"
    "\<forall>a. any_history (h' a)" "\<forall>a. a \<notin> snd ` set ts \<longrightarrow> h' a = h a"
    "assert_global now (Some f) gt h = Some (Inr (gt_version gt + 1,
       gt\<lparr>gt_facts := AList.update (fact_id f) f (gt_facts gt),
          gt_retracted := AList.delete (fact_id f) (gt_retracted gt), gt_version := gt_version gt + 1\<rparr>, h'))"
proof -
  let ?gt = "gt\<lparr>gt_facts := AList.update (fact_id f) f (gt_facts gt),
    gt_retracted := AList.delete (fact_id f) (gt_retracted gt), gt_version := gt_version gt + 1\<rparr>"
  have "wf_globals (gt_facts ?gt)" using assms by (simp add: global_ok_def wf_globals_put)
  then obtain aff where "affected_subscribers (fact_id f) ?gt = Some aff" by (rule affected_total) blast
  then have "\<exists>ts. assert_targets b (fact_id f) ?gt = Some ts" for b by (cases b) (simp_all add: assert_targets_def)
  then obtain ts where ts: "assert_targets (map_of (gt_facts gt) (fact_id f) \<noteq> None) (fact_id f) ?gt = Some ts" by blast
  have h: "\<forall>a. any_history (h a)" using assms by (simp add: global_ok_def)
  obtain h' where h': "fan_out (assert_fact now (Some (f\<lparr>metadata := with_global_truth_flag (metadata f)\<rparr>))) ts h = Some h'"
    "\<forall>a. any_history (h' a)" "\<forall>a. a \<notin> snd ` set ts \<longrightarrow> h' a = h a"
    using asserted_everywhere.fan_out_total [OF h] by blast
  show ?thesis
    using that [OF ts h'] ts h'(1) unfolding assert_global_def by (simp add: Let_def)
qed

lemma retract_global_total:
  assumes "global_ok (gt, h)" "gid \<noteq> []" "map_of (gt_facts gt) gid \<noteq> None"
  obtains rs ts h' where "rs \<noteq> []" "retract_targets gid
      (gt\<lparr>gt_retracted := AList.update gid rs (gt_retracted gt), gt_version := gt_version gt + 1\<rparr>) = Some ts"
    "fan_out (retract_fact now gid rs) ts h = Some h'"
    "\<forall>a. any_history (h' a)" "\<forall>a. a \<notin> snd ` set ts \<longrightarrow> h' a = h a"
    "retract_global now gid reason gt h = Some (Inr (gt_version gt + 1,
       gt\<lparr>gt_retracted := AList.update gid rs (gt_retracted gt), gt_version := gt_version gt + 1\<rparr>, h'))"
proof -
  define rs where "rs = (if reason = [] then ''global_retract'' else reason)"
  let ?gt = "gt\<lparr>gt_retracted := AList.update gid rs (gt_retracted gt), gt_version := gt_version gt + 1\<rparr>"
  have "wf_globals (gt_facts ?gt)" using assms by (simp add: global_ok_def)
  then obtain aff where "affected_subscribers gid ?gt = Some aff" by (rule affected_total) blast
  then obtain ts where ts: "retract_targets gid ?gt = Some ts" by (simp add: retract_targets_def)
  have h: "\<forall>a. any_history (h a)" using assms by (simp add: global_ok_def)
  obtain h' where h': "fan_out (retract_fact now gid rs) ts h = Some h'"
    "\<forall>a. any_history (h' a)" "\<forall>a. a \<notin> snd ` set ts \<longrightarrow> h' a = h a"
    using retracted_everywhere.fan_out_total [OF h] by blast
  have "rs \<noteq> []" by (simp add: rs_def)
  then show ?thesis
    using that [OF _ ts h'] ts h'(1) assms(2,3) unfolding retract_global_def rs_def [symmetric] by (simp add: Let_def)
qed

text \<open>Every call returns, and keeps the state well formed.\<close>

lemma run_global_ok:
  assumes ok: "global_ok s"
  shows "\<exists>s'. run_global now x s = Some s' \<and> global_ok s'"
proof -
  obtain gt h where s: "s = (gt, h)" by fastforce
  have g: "wf_globals (gt_facts gt)" "index_ok gt" and h: "\<forall>a. any_history (h a)"
    using ok by (auto simp: global_ok_def s)
  have idx: "index_ok (gt\<lparr>gt_subscribers := ss\<rparr>)" for ss using g(2) by (simp add: index_ok_def)
  show ?thesis
  proof (cases x)
    case (GSubscribe sid ao)
    show ?thesis
    proof (cases "sid = [] \<or> ao = None")
      case True
      then show ?thesis using ok s GSubscribe by (auto simp: gt_subscribe_def)
    next
      case False
      then obtain a where a: "ao = Some a" "sid \<noteq> []" by auto
      let ?gt = "rebuild_session_index sid (h a) (gt\<lparr>gt_subscribers := AList.update sid a (gt_subscribers gt)\<rparr>)"
      obtain h' where "replay_facts now a
          (filter (\<lambda>f. map_of (gt_retracted ?gt) (fact_id f) = None) (map snd (gt_facts ?gt))) h = Some h'"
        "\<forall>a. any_history (h' a)" using replay_total [OF h] by blast
      then show ?thesis
        using g idx a rebuild_session_ok [OF idx]
        by (simp add: GSubscribe s gt_subscribe_def global_ok_def Let_def)
    qed
  next
    case (GUnsubscribe sid)
    then show ?thesis using g h idx by (simp add: s gt_unsubscribe_def global_ok_def remove_session_ok)
  next
    case (GAssert fo)
    show ?thesis
    proof (cases fo)
      case None
      then show ?thesis using ok GAssert by (simp add: assert_global_def)
    next
      case (Some f)
      have "global_ok (gt, h)" using ok s by simp
      from assert_global_total [OF this, of f now] obtain h' where "\<forall>a. any_history (h' a)"
        "assert_global now (Some f) gt h = Some (Inr (gt_version gt + 1,
           gt\<lparr>gt_facts := AList.update (fact_id f) f (gt_facts gt),
              gt_retracted := AList.delete (fact_id f) (gt_retracted gt), gt_version := gt_version gt + 1\<rparr>, h'))"
        by metis
      then show ?thesis using g by (simp add: GAssert Some s global_ok_def index_ok_def wf_globals_put)
    qed
  next
    case (GRetract k r)
    show ?thesis
    proof (cases "k = [] \<or> map_of (gt_facts gt) k = None")
      case True
      then show ?thesis using ok GRetract by (auto simp: retract_global_def s)
    next
      case False
      have "global_ok (gt, h)" using ok s by simp
      from retract_global_total [OF this, of k now r] False obtain rs h' where "\<forall>a. any_history (h' a)"
        "retract_global now k r gt h = Some (Inr (gt_version gt + 1,
           gt\<lparr>gt_retracted := AList.update k rs (gt_retracted gt), gt_version := gt_version gt + 1\<rparr>, h'))"
        by metis
      then show ?thesis using g by (simp add: GRetract s global_ok_def index_ok_def)
    qed
  next
    case (GIndex sid fo)
    then show ?thesis using g h by (simp add: s global_ok_def index_fact_ok)
  next
    case (GLocal a y)
    obtain h' where "at_address (run_op now y) a h = Some h'" "\<forall>a. any_history (h' a)"
      using broadcast.at_total [OF run_op_broadcast h] by blast
    then show ?thesis using g by (simp add: GLocal s global_ok_def)
  qed
qed

lemma global_history_ok: "global_history s \<Longrightarrow> global_ok s"
proof (induction rule: global_history.induct)
  case global_start
  show ?case by (simp add: global_ok_def new_global_truth_def wf_globals_def index_ok_def any_start)
next
  case (global_act s now x s')
  then show ?case using run_global_ok [OF global_act.IH, of now x] by auto
qed

end
