(* ===== verification/GlobalDelivery.thy ===== *)
theory GlobalDelivery
imports GlobalInv
begin

text \<open>
  What an engine has after a broadcast: a new root fact, nothing new for a fact it already holds,
  and a retraction where the session is indexed as a dependent.
\<close>

section \<open>One engine\<close>

lemma same_graph_content:
  assumes "same_graph e e'" "fact_at e k = Some f"
  obtains g where "fact_at e' k = Some g" "fact_core g = fact_core f"
  using same_graph_at(1) [OF assms(1), of k] assms(2) by (cases "fact_at e' k") auto

lemma assert_new_root:
  assumes wf: "wf_engine e" and new: "fact_at e (fact_id f) = None" and root: "is_root f" "sets_of f = []"
    and cap: "int (length (facts e)) < MaxFactsPerSession"
  obtains e' g where "assert_fact now (Some f) e = Some (Inr e')" "fact_at e' (fact_id f) = Some g"
    "payload g = payload f" "metadata g = metadata f" "manual_status g = manual_status f" "is_root g"
proof -
  let ?f = "stamp_asserted now f"
  let ?g = "?f\<lparr>derived_status := manual_status f\<rparr>"
  have v: "validate_assert_fact now e f = (?f, Inr False)"
    using cap new root by (simp add: validate_assert_fact_def detect_cycle_def)
  have wf1: "wf_engine (put_fact (fact_id ?f) ?g (register_fact ?f e))"
    using register_root_wf(2) [OF wf v] root by simp
  define e2 where "e2 = (let e1 = put_fact (fact_id ?f) ?g (register_fact ?f e)
    in notify now (fact_id ?f) (manual_status ?f)
         (if manual_status ?f < ConfidenceThreshold
          then e1\<lparr>collapsed_roots := set_insert (fact_id ?f) (collapsed_roots e1)\<rparr> else e1))"
  have e2: "facts e2 = facts (put_fact (fact_id ?f) ?g (register_fact ?f e))"
    "jsets e2 = jsets (put_fact (fact_id ?f) ?g (register_fact ?f e))"
    "children e2 = children (put_fact (fact_id ?f) ?g (register_fact ?f e))"
    by (simp_all add: e2_def Let_def)
  have "wf_engine e2" using wf1 unfolding wf_engine_frame [OF e2] .
  then obtain e' where e': "propagate now e2 [fact_id ?f] = Some e'" "same_graph e2 e'"
    using propagate_returns by blast
  have "fact_at e2 (fact_id f) = Some ?g" by (simp add: e2(1) put_fact_def)
  from same_graph_content [OF e'(2) this] obtain g where g: "fact_at e' (fact_id f) = Some g" "fact_core g = fact_core ?g" .
  have "assert_fact now (Some f) e = Some (Inr e')"
    using v root e'(1) by (simp add: assert_fact_def initialize_root_fact_def e2_def Let_def)
  then show ?thesis using that g(1) fact_core_eq [OF g(2)] root by simp
qed

lemma assert_known:
  assumes "fact_at e (fact_id f) \<noteq> None" "assert_fact now (Some f) e = Some (Inr e')"
  shows "e' = e"
  using assms
  by (auto simp: assert_fact_def validate_assert_fact_def Let_def split: if_splits option.splits)

lemma retract_known:
  assumes wf: "wf_engine e" and k: "fact_at e k \<noteq> None" and r: "r \<noteq> []"
  obtains e' where "retract_fact now k r e = Some (Inr e')" "is_retracted e' k" "fact_at e' k \<noteq> None"
proof (cases "map_of (retracted_facts e) k = Some r")
  case True
  then show ?thesis using that [of e] k r by (simp add: retract_fact_def is_retracted_def)
next
  case False
  have "wf_engine (bump (put_retracted k r e))" using wf by (simp add: wf_engine_frame [of "bump (put_retracted k r e)" e])
  then obtain e' where e': "propagate now (bump (put_retracted k r e)) [k] = Some e'"
    "same_graph (bump (put_retracted k r e)) e'" using propagate_returns by blast
  have "is_retracted e' k" unfolding same_graph_at(4) [OF e'(2), symmetric] by simp
  moreover obtain f where "fact_at (bump (put_retracted k r e)) k = Some f" using k by auto
  then have "fact_at e' k \<noteq> None" using same_graph_content [OF e'(2)] by (metis option.distinct(1))
  ultimately show ?thesis using that [of e'] e'(1) False k r by (simp add: retract_fact_def)
qed

section \<open>Broadcasts\<close>

definition received :: "fact \<Rightarrow> engine \<Rightarrow> bool" where
  "received f e \<longleftrightarrow>
     (\<exists>g. fact_at e (fact_id f) = Some g \<and> is_root g \<and> payload g = payload f \<and> manual_status g = manual_status f \<and>
        obj_get (metadata g) ''_global_truth'' = Some (GBool True))"

lemma new_fact_received:
  assumes ok: "global_ok (gt, h)" and new: "map_of (gt_facts gt) (fact_id f) = None" and root: "is_root f" "sets_of f = []"
  shows "\<exists>gt' h'. assert_global now (Some f) gt h = Some (Inr (gt_version gt + 1, gt', h')) \<and>
    get_global_fact (fact_id f) gt' = Some f \<and>
    (\<forall>a \<in> snd ` set (gt_subscribers gt). fact_at (h a) (fact_id f) = None \<longrightarrow>
       int (length (facts (h a))) < MaxFactsPerSession \<longrightarrow> received f (h' a))"
proof -
  let ?gt = "gt\<lparr>gt_facts := AList.update (fact_id f) f (gt_facts gt),
    gt_retracted := AList.delete (fact_id f) (gt_retracted gt), gt_version := gt_version gt + 1\<rparr>"
  let ?f = "f\<lparr>metadata := with_global_truth_flag (metadata f)\<rparr>"
  from assert_global_total [OF ok, of f now] obtain ts h' where
    ts: "assert_targets (map_of (gt_facts gt) (fact_id f) \<noteq> None) (fact_id f) ?gt = Some ts"
    and h': "fan_out (assert_fact now (Some ?f)) ts h = Some h'"
    and res: "assert_global now (Some f) gt h = Some (Inr (gt_version gt + 1, ?gt, h'))" by metis
  have ts: "ts = gt_subscribers gt" using ts new by (simp add: assert_targets_def)
  have h: "\<forall>a. any_history (h a)" using ok by (simp add: global_ok_def)
  let ?P = "\<lambda>e. received f e \<or> fact_at e (fact_id f) = None \<and> int (length (facts e)) < MaxFactsPerSession"
  have post: "case assert_fact now (Some ?f) e of None \<Rightarrow> False | Some (Inl _) \<Rightarrow> received f e | Some (Inr e') \<Rightarrow> received f e'"
    if e: "any_history e" "?P e" for e
  proof (cases "received f e")
    case True
    then have "fact_at e (fact_id ?f) \<noteq> None" by (auto simp: received_def)
    then show ?thesis
      using True assert_known [of e ?f now] asserted_everywhere.act_total [OF e(1), of now "Some ?f"]
      by (auto split: option.split sum.split)
  next
    case False
    have "wf_engine e" using any_history_inv [OF e(1)] by simp
    then obtain e' g where "assert_fact now (Some ?f) e = Some (Inr e')" "fact_at e' (fact_id ?f) = Some g"
      "payload g = payload ?f" "metadata g = metadata ?f" "manual_status g = manual_status ?f" "is_root g"
      by (rule assert_new_root [where f = ?f and now = now]) (use False e root in \<open>auto simp: sets_of_def\<close>)
    then show ?thesis by (simp add: received_def with_global_truth_flag_def)
  qed
  have "received f (h' a)" if a: "a \<in> snd ` set (gt_subscribers gt)" "?P (h a)" for a
    by (rule asserted_everywhere.fan_out_reaches [OF h h', where P = ?P])
      (use a ts post in auto)
  moreover have "get_global_fact (fact_id f) ?gt = Some f" by (simp add: get_global_fact_def)
  ultimately show ?thesis using res by blast
qed

text \<open>An engine that holds a fact of this identifier never changes.\<close>

lemma update_ignored:
  assumes ok: "global_ok (gt, h)"
  shows "\<exists>gt' h'. assert_global now (Some f) gt h = Some (Inr (gt_version gt + 1, gt', h')) \<and>
    (\<forall>a. fact_at (h a) (fact_id f) \<noteq> None \<longrightarrow> h' a = h a)"
proof -
  let ?f = "f\<lparr>metadata := with_global_truth_flag (metadata f)\<rparr>"
  from assert_global_total [OF ok, of f now] obtain ts h' gt' where
    h': "fan_out (assert_fact now (Some ?f)) ts h = Some h'" and rest: "\<forall>a. a \<notin> snd ` set ts \<longrightarrow> h' a = h a"
    and res: "assert_global now (Some f) gt h = Some (Inr (gt_version gt + 1, gt', h'))" by metis
  have h: "\<forall>a. any_history (h a)" using ok by (simp add: global_ok_def)
  have "h' a = h a" if a: "fact_at (h a) (fact_id f) \<noteq> None" for a
  proof (cases "a \<in> snd ` set ts")
    case True
    have "case assert_fact now (Some ?f) e of None \<Rightarrow> False | Some (Inl _) \<Rightarrow> e = h a | Some (Inr e') \<Rightarrow> e' = h a"
      if e: "any_history e" "e = h a" for e
      using assert_known [of e ?f now] asserted_everywhere.act_total [OF e(1), of now "Some ?f"] a e(2)
      by (auto split: option.split sum.split)
    then show ?thesis
      using asserted_everywhere.fan_out_reaches [OF h h' True, where P = "\<lambda>e. e = h a" and Q = "\<lambda>e. e = h a"] by blast
  qed (use rest in simp)
  then show ?thesis using res by blast
qed

lemma dependents_targeted:
  assumes ok: "global_ok (gt, h)" and sid: "(sid, a) \<in> set (gt_subscribers gt)" "gid \<in> set (members (gt_session_deps gt) sid)"
    and ts: "retract_targets gid gt' = Some ts" and gt': "gt_facts gt' = gt_facts gt" "gt_dep_index gt' = gt_dep_index gt"
      "gt_subscribers gt' = gt_subscribers gt"
  shows "a \<in> snd ` set ts"
proof -
  have "wf_globals (gt_facts gt')" "sid \<in> set (members (gt_dep_index gt') gid)"
    using ok sid(2) gt' by (auto simp: global_ok_def index_ok_def)
  moreover obtain cs where cs: "affected_subscribers gid gt' =
    Some (sort (remdups (concat (map (members (gt_dep_index gt')) (component_ids gid [gid] cs)))))"
    by (rule affected_total [OF calculation(1)])
  ultimately have "sid \<in> set (the (affected_subscribers gid gt'))"
    using component_ids_self [of gid "[gid]" cs] by auto
  then have "(sid, a) \<in> set ts" using ts cs sid(1) gt'(3) by (auto simp: retract_targets_def chosen_def)
  then show ?thesis by force
qed

lemma dependents_retracted:
  assumes ok: "global_ok (gt, h)" and gid: "gid \<noteq> []" "map_of (gt_facts gt) gid \<noteq> None"
  shows "\<exists>gt' h'. retract_global now gid reason gt h = Some (Inr (gt_version gt + 1, gt', h')) \<and>
    get_global_fact gid gt' = None \<and>
    (\<forall>(sid, a) \<in> set (gt_subscribers gt). gid \<in> set (members (gt_session_deps gt) sid) \<longrightarrow>
       fact_at (h a) gid \<noteq> None \<longrightarrow> is_retracted (h' a) gid)"
proof -
  from retract_global_total [OF ok gid, of now reason] obtain rs ts h' where rs: "rs \<noteq> []"
    and ts: "retract_targets gid
      (gt\<lparr>gt_retracted := AList.update gid rs (gt_retracted gt), gt_version := gt_version gt + 1\<rparr>) = Some ts"
    and h': "fan_out (retract_fact now gid rs) ts h = Some h'"
    and res: "retract_global now gid reason gt h = Some (Inr (gt_version gt + 1,
       gt\<lparr>gt_retracted := AList.update gid rs (gt_retracted gt), gt_version := gt_version gt + 1\<rparr>, h'))" by metis
  have h: "\<forall>a. any_history (h a)" using ok by (simp add: global_ok_def)
  have post: "case retract_fact now gid rs e of None \<Rightarrow> False
      | Some (Inl _) \<Rightarrow> is_retracted e gid \<and> fact_at e gid \<noteq> None
      | Some (Inr e') \<Rightarrow> is_retracted e' gid \<and> fact_at e' gid \<noteq> None"
    if e: "any_history e" "fact_at e gid \<noteq> None" for e
  proof -
    have "wf_engine e" using any_history_inv [OF e(1)] by simp
    then show ?thesis by (rule retract_known [OF _ e(2) rs, of now]) auto
  qed
  have "is_retracted (h' a) gid"
    if "(sid, a) \<in> set (gt_subscribers gt)" "gid \<in> set (members (gt_session_deps gt) sid)" "fact_at (h a) gid \<noteq> None"
    for sid a
    using retracted_everywhere.fan_out_reaches [OF h h' dependents_targeted [OF ok that(1,2) ts], where
        P = "\<lambda>e. fact_at e gid \<noteq> None" and Q = "\<lambda>e. is_retracted e gid \<and> fact_at e gid \<noteq> None"] that(3) post
    by simp
  then show ?thesis using res gid(2) by (force simp: get_global_fact_def)
qed

section \<open>Waiting\<close>

lemma wait_returns:
  assumes "clock n > deadline" "i \<le> n"
  shows "\<exists>r. wait_for_version versions clock mv deadline i = Some r \<and>
    (r = None \<longrightarrow> (\<exists>j \<ge> i. versions j \<ge> mv)) \<and>
    (r \<noteq> None \<longrightarrow> (\<exists>j \<ge> i. clock j > deadline \<and> (\<forall>l. i \<le> l \<and> l \<le> j \<longrightarrow> versions l < mv)))"
  using assms
proof (induction "n - i" arbitrary: i)
  case 0
  then have "i = n" by simp
  then show ?case using 0 by (subst wait_for_version.simps) auto
next
  case (Suc m)
  have IH: "\<exists>r. wait_for_version versions clock mv deadline (Suc i) = Some r \<and>
    (r = None \<longrightarrow> (\<exists>j \<ge> Suc i. versions j \<ge> mv)) \<and>
    (r \<noteq> None \<longrightarrow> (\<exists>j \<ge> Suc i. clock j > deadline \<and> (\<forall>l. Suc i \<le> l \<and> l \<le> j \<longrightarrow> versions l < mv)))"
    by (rule Suc.hyps(1)) (use Suc in linarith)+
  show ?case
  proof (cases "versions i \<ge> mv \<or> clock i > deadline")
    case True
    then show ?thesis by (subst wait_for_version.simps) (auto intro: exI [of _ i])
  next
    case False
    have rec: "wait_for_version versions clock mv deadline i = wait_for_version versions clock mv deadline (Suc i)"
      using False by (subst wait_for_version.simps) simp
    obtain r where r: "wait_for_version versions clock mv deadline (Suc i) = Some r"
      "r = None \<Longrightarrow> \<exists>j \<ge> Suc i. versions j \<ge> mv"
      "r \<noteq> None \<Longrightarrow> \<exists>j \<ge> Suc i. clock j > deadline \<and> (\<forall>l. Suc i \<le> l \<and> l \<le> j \<longrightarrow> versions l < mv)"
      using IH by blast
    have "\<exists>j \<ge> i. clock j > deadline \<and> (\<forall>l. i \<le> l \<and> l \<le> j \<longrightarrow> versions l < mv)" if rn: "r \<noteq> None"
    proof -
      obtain j where j: "Suc i \<le> j" "clock j > deadline" "\<And>l. Suc i \<le> l \<Longrightarrow> l \<le> j \<Longrightarrow> versions l < mv"
        using r(3) [OF rn] by blast
      have "versions l < mv" if "i \<le> l" "l \<le> j" for l
        using j(3) [of l] that False by (cases "l = i") auto
      then show ?thesis using j(1,2) by (intro exI [of _ j]) auto
    qed
    moreover have "\<exists>j \<ge> i. versions j \<ge> mv" if "r = None" using r(2) [OF that] Suc_leD by blast
    ultimately show ?thesis using r(1) rec by auto
  qed
qed

end
