(* ===== verification/GlobalProperties.thy ===== *)
theory GlobalProperties
imports Samples GlobalDelivery
begin

text \<open>
  The properties of the global truth (core/global_truth.go): its indexes, the partition, what a
  broadcast delivers, and where it does not.
\<close>

section \<open>A sample run\<close>

fun run_globals :: "int \<Rightarrow> global_op list \<Rightarrow> global_truth \<times> engine_store \<Rightarrow> (global_truth \<times> engine_store) option" where
  "run_globals now [] s = Some s"
| "run_globals now (x # xs) s = Option.bind (run_global now x s) (run_globals now xs)"

lemma run_globals_history: "run_globals now xs s = Some s' \<Longrightarrow> global_history s \<Longrightarrow> global_history s'"
  by (induction xs arbitrary: s) (auto split: bind_splits intro: global_act)

definition global_ops :: "global_op list" where
  "global_ops =
     [GSubscribe ''s1'' (Some 1), GSubscribe ''s2'' (Some 2), GAssert (Some (sample_fact ''G'' True 1 [])),
      GLocal 1 (OpAssert (Some (sample_fact ''D'' False 0 [[''G'']]))),
      GIndex ''s1'' (Some (sample_fact ''D'' False 0 [[''G'']])),
      GAssert (Some (sample_fact ''H'' True 1 [[''!G'']])), GAssert (Some (sample_fact ''K'' True 1 []))]"

definition global_start_state :: "global_truth \<times> engine_store" where
  "global_start_state = (new_global_truth, \<lambda>_. new_engine)"

definition global_sample :: "global_truth \<times> engine_store" where
  "global_sample = (case run_globals 5 global_ops global_start_state of Some s \<Rightarrow> s | None \<Rightarrow> global_start_state)"

lemma global_sample_history: "global_history global_sample"
proof -
  have start: "global_history global_start_state" by (simp add: global_start_state_def global_start)
  show ?thesis
    using run_globals_history [OF _ start] start
    by (cases "run_globals 5 global_ops global_start_state") (auto simp: global_sample_def)
qed

lemma global_sample_facts:
  "map fst (gt_facts (fst global_sample)) = [''G'', ''H'', ''K'']"
  "gt_subscribers (fst global_sample) = [(''s1'', 1), (''s2'', 2)]"
  "members (gt_session_deps (fst global_sample)) ''s1'' = [''G'']"
  "map_option is_root (fact_at (snd global_sample 1) ''G'') = Some True"
  "length (facts (snd global_sample 2)) = 3"
  by code_simp+

section \<open>Properties\<close>

text \<open>
  In every run of subscriptions, assertions, retractions, index updates and local engine
  operations, every next call returns, the session index and the fact index stay inverse to each
  other, the global facts stay keyed by their identifiers, and each engine is one that its own
  operations reach.
\<close>

theorem global_calls_return:
  assumes "global_history s"
  shows "\<exists>s'. run_global now x s = Some s' \<and> wf_globals (gt_facts (fst s')) \<and>
    (\<forall>sid fid. sid \<in> set (members (gt_dep_index (fst s')) fid) \<longleftrightarrow> fid \<in> set (members (gt_session_deps (fst s')) sid)) \<and>
    (\<forall>a. any_history (snd s' a))"
  using run_global_ok [OF global_history_ok [OF assms], of now x] by (auto simp: global_ok_def index_ok_def)

theorem global_calls_return_witness:
  "\<exists>s'. run_global 6 (GUnsubscribe ''s1'') global_sample = Some s' \<and> wf_globals (gt_facts (fst s')) \<and>
    (\<forall>sid fid. sid \<in> set (members (gt_dep_index (fst s')) fid) \<longleftrightarrow> fid \<in> set (members (gt_session_deps (fst s')) sid)) \<and>
    (\<forall>a. any_history (snd s' a))"
  by (rule global_calls_return [OF global_sample_history])

text \<open>
  C14: Partition returns, lists every global fact once, in sorted groups ordered by their first
  fact, and the group of a fact is its connected component under the dependency edges: the
  union-find with path compression computes the classes of the equivalence they generate.
\<close>

theorem partition_correct:
  assumes "global_history (gt, h)"
  shows "\<exists>cs. partition_facts (gt_facts gt) = Some cs \<and> mset (concat cs) = mset (map fst (gt_facts gt)) \<and>
    sorted (map hd cs) \<and> list_all sorted cs \<and> [] \<notin> set cs \<and>
    (\<forall>c \<in> set cs. \<forall>x \<in> set c. set c = {y \<in> fst ` set (gt_facts gt).
       (x, y) \<in> (global_edges (gt_facts gt) \<union> (global_edges (gt_facts gt))\<inverse>)\<^sup>*})"
proof -
  have "wf_globals (gt_facts gt)" using global_history_ok [OF assms] by (simp add: global_ok_def)
  then obtain cs where "partition_facts (gt_facts gt) = Some cs" "components_of (gt_facts gt) cs"
    using partition_components by blast
  then show ?thesis by (intro exI [of _ cs]) (auto simp: components_of_def list_all_iff)
qed

theorem partition_correct_witness:
  "\<exists>cs. partition_facts (gt_facts (fst global_sample)) = Some cs \<and>
    mset (concat cs) = mset (map fst (gt_facts (fst global_sample))) \<and> sorted (map hd cs) \<and>
    list_all sorted cs \<and> [] \<notin> set cs \<and>
    (\<forall>c \<in> set cs. \<forall>x \<in> set c. set c = {y \<in> fst ` set (gt_facts (fst global_sample)).
       (x, y) \<in> (global_edges (gt_facts (fst global_sample)) \<union> (global_edges (gt_facts (fst global_sample)))\<inverse>)\<^sup>*})"
  by (rule partition_correct [of _ "snd global_sample"]) (use global_sample_history in simp)

text \<open>
  A new global root fact reaches every subscriber that has room for it and no fact of that
  identifier: the engine holds it afterwards, with the payload and confidence of the original and
  the global flag set, and the version has grown by one.
\<close>

theorem global_fact_delivered:
  assumes "global_history (gt, h)" "map_of (gt_facts gt) (fact_id f) = None" "is_root f" "sets_of f = []"
  shows "\<exists>gt' h'. assert_global now (Some f) gt h = Some (Inr (gt_version gt + 1, gt', h')) \<and>
    get_global_fact (fact_id f) gt' = Some f \<and>
    (\<forall>a \<in> snd ` set (gt_subscribers gt). fact_at (h a) (fact_id f) = None \<longrightarrow>
       int (length (facts (h a))) < MaxFactsPerSession \<longrightarrow>
       (\<exists>g. fact_at (h' a) (fact_id f) = Some g \<and> is_root g \<and> payload g = payload f \<and>
          manual_status g = manual_status f \<and> obj_get (metadata g) ''_global_truth'' = Some (GBool True)))"
  using new_fact_received [OF global_history_ok [OF assms(1)] assms(2-4)] unfolding received_def .

theorem global_fact_delivered_witness:
  "\<exists>gt' h'. assert_global 6 (Some (sample_fact ''N'' True 1 [])) (fst global_sample) (snd global_sample) =
      Some (Inr (gt_version (fst global_sample) + 1, gt', h')) \<and>
    (\<exists>g. fact_at (h' 2) ''N'' = Some g \<and> is_root g \<and> manual_status g = 1)"
proof -
  let ?f = "sample_fact ''N'' True 1 []"
  have f: "fact_id ?f = ''N''" "is_root ?f" "sets_of ?f = []" "manual_status ?f = 1"
    by (simp_all add: sample_fact_def sets_of_def)
  have new: "map_of (gt_facts (fst global_sample)) (fact_id ?f) = None"
    using global_sample_facts(1) by (auto simp: f map_of_eq_None_iff simp flip: set_map)
  have room: "fact_at (snd global_sample 2) ''N'' = None" by code_simp
  have hist: "global_history (fst global_sample, snd global_sample)" using global_sample_history by simp
  from global_fact_delivered [OF hist new f(2,3), of 6] global_sample_facts(2,5) room
  show ?thesis by (auto simp: f MaxFactsPerSession_def)
qed

text \<open>
  Asserting a global fact again changes no engine that already holds a fact of that
  identifier, whatever the new content: updates and reassertions after a retraction are recorded
  by the global truth and its version but never reach a subscriber that has the fact.
\<close>

theorem global_update_ignored:
  assumes "global_history (gt, h)"
  shows "\<exists>gt' h'. assert_global now (Some f) gt h = Some (Inr (gt_version gt + 1, gt', h')) \<and>
    (\<forall>a. fact_at (h a) (fact_id f) \<noteq> None \<longrightarrow> h' a = h a)"
  by (rule update_ignored [OF global_history_ok [OF assms]])

theorem global_update_ignored_witness:
  "\<exists>gt' h'. assert_global 6 (Some (sample_fact ''G'' True 0 [])) (fst global_sample) (snd global_sample) =
      Some (Inr (gt_version (fst global_sample) + 1, gt', h')) \<and> h' 1 = snd global_sample 1"
proof -
  have "global_history (fst global_sample, snd global_sample)" using global_sample_history by simp
  from global_update_ignored [OF this, of 6 "sample_fact ''G'' True 0 []"] show ?thesis
    using global_sample_facts(4) by (auto simp: sample_fact_def)
qed

text \<open>
  C15: A retraction of a global fact reaches every subscriber whose session is indexed as
  depending on it: its engine has the fact retracted afterwards.
\<close>

theorem global_retraction_reaches_dependents:
  assumes "global_history (gt, h)" "gid \<noteq> []" "map_of (gt_facts gt) gid \<noteq> None"
  shows "\<exists>gt' h'. retract_global now gid reason gt h = Some (Inr (gt_version gt + 1, gt', h')) \<and>
    get_global_fact gid gt' = None \<and>
    (\<forall>(sid, a) \<in> set (gt_subscribers gt). gid \<in> set (members (gt_session_deps gt) sid) \<longrightarrow>
       fact_at (h a) gid \<noteq> None \<longrightarrow> is_retracted (h' a) gid)"
  by (rule dependents_retracted [OF global_history_ok [OF assms(1)] assms(2,3)])

theorem global_retraction_reaches_dependents_witness:
  "\<exists>gt' h'. retract_global 6 ''G'' [] (fst global_sample) (snd global_sample) =
      Some (Inr (gt_version (fst global_sample) + 1, gt', h')) \<and> is_retracted (h' 1) ''G''"
proof -
  have hist: "global_history (fst global_sample, snd global_sample)" using global_sample_history by simp
  have known: "map_of (gt_facts (fst global_sample)) ''G'' \<noteq> None"
    using global_sample_facts(1) by (auto simp: map_of_eq_None_iff simp flip: set_map)
  from global_retraction_reaches_dependents [OF hist _ known, of 6 "[]"] show ?thesis
    using global_sample_facts(2-4) by auto
qed

text \<open>
  A retraction does not reach a subscriber that only holds a copy. With two sessions of which
  the first is indexed, retracting G leaves it valid in the engine of the second, which can even
  derive a new valid fact from it. If only sessions that are no longer subscribed are indexed, the
  retraction reaches nobody.
\<close>

theorem global_retraction_missed:
  "map_option (\<lambda>s. (get_global_fact ''G'' (fst s), effective_status 7 (snd s 1) (fact_at (snd s 1) ''G''),
        effective_status 7 (snd s 2) (fact_at (snd s 2) ''G''), effective_status 7 (snd s 2) (fact_at (snd s 2) ''E'')))
     (run_globals 6 [GRetract ''G'' [], GLocal 2 (OpAssert (Some (sample_fact ''E'' False 0 [[''G'']])))] global_sample) =
     Some (None, Invalid, Valid, Valid) \<and>
   map_option (\<lambda>s. (get_global_fact ''G'' (fst s), map fst (gt_subscribers (fst s)),
        effective_status 7 (snd s 2) (fact_at (snd s 2) ''G''), effective_status 7 (snd s 3) (fact_at (snd s 3) ''G'')))
     (run_globals 6 [GSubscribe ''s3'' (Some 3), GUnsubscribe ''s1'',
        GIndex ''s1'' (Some (sample_fact ''D'' False 0 [[''G'']])), GRetract ''G'' []] global_sample) =
     Some (None, [''s2'', ''s3''], Valid, Valid)"
  by code_simp

text \<open>
  Waiting for a version returns as soon as the clock can pass the deadline: without an error
  only when the version was reached, and with a timeout only when the deadline had passed and no
  earlier reading showed the version.
\<close>

theorem wait_for_version_returns:
  assumes "clock n > deadline"
  shows "\<exists>r. wait_for_version versions clock mv deadline 0 = Some r \<and>
    (r = None \<longrightarrow> (\<exists>j. versions j \<ge> mv)) \<and>
    (r \<noteq> None \<longrightarrow> (\<exists>j. clock j > deadline \<and> (\<forall>l \<le> j. versions l < mv)))"
  using wait_returns [of deadline clock n 0 versions mv] assms by simp

theorem wait_for_version_returns_witness:
  "\<exists>r. wait_for_version (\<lambda>_. 3) int 5 10 0 = Some r \<and>
    (r = None \<longrightarrow> (\<exists>j :: nat. (3 :: int) \<ge> 5)) \<and>
    (r \<noteq> None \<longrightarrow> (\<exists>j. int j > 10 \<and> (\<forall>l \<le> j. (3 :: int) < 5)))"
  by (rule wait_for_version_returns [of 10 int 11 "\<lambda>_. 3" 5]) simp

end
