(* ===== verification/Timeless.thy ===== *)
theory Timeless
imports History
begin

text \<open>
  Engines on which the clock has no influence: no fact has a deadline or a maximal age of its
  grounds, and nobody listens to change events. There an operation does the same at every
  clock reading, which is what makes a journal of operations replayable later.
\<close>

definition timeless_fact :: "fact \<Rightarrow> bool" where
  "timeless_fact f \<longleftrightarrow>
     valid_until f \<le> 0 \<and> int64_from_metadata (metadata f) ''grounding_max_age_seconds'' \<le> 0"

definition timeless :: "engine \<Rightarrow> bool" where
  "timeless e \<longleftrightarrow> listeners e = [] \<and> (\<forall>k f. fact_at e k = Some f \<longrightarrow> timeless_fact f)"

lemma timeless_at: "timeless e \<Longrightarrow> fact_at e k = Some f \<Longrightarrow> timeless_fact f"
  by (simp add: timeless_def)

lemma timeless_fact_update [simp]:
  "timeless_fact (f\<lparr>derived_status := s\<rparr>) = timeless_fact f"
  "timeless_fact (f\<lparr>manual_status := s\<rparr>) = timeless_fact f"
  "timeless_fact (f\<lparr>valid_justification_count := n\<rparr>) = timeless_fact f"
  "timeless_fact (f\<lparr>derived_status := s, valid_justification_count := n\<rparr>) = timeless_fact f"
  "timeless_fact (refresh_count e f) = timeless_fact f"
  "timeless_fact ((refresh_count e f)\<lparr>derived_status := s\<rparr>) = timeless_fact f"
  by (simp_all add: timeless_fact_def refresh_count_def)

lemma timeless_frame [simp]:
  "timeless (put_jset j js e) = timeless e" "timeless (bump e) = timeless e"
  "timeless (put_retracted k r e) = timeless e" "timeless (add_child_index j p e) = timeless e"
  "timeless (e\<lparr>collapsed_roots := c\<rparr>) = timeless e" "timeless (e\<lparr>dirty_dominators := d\<rparr>) = timeless e"
  "timeless (e\<lparr>mutation_count := m\<rparr>) = timeless e" "timeless (notify now k s e) = timeless e"
  by (auto simp: timeless_def put_jset_def bump_def put_retracted_def add_child_index_def notify_def Let_def)

lemma timeless_put [simp]: "timeless e \<Longrightarrow> timeless (put_fact k f e) = timeless_fact f"
  by (auto simp: timeless_def put_fact_def)

lemma timeless_notify: "timeless e \<Longrightarrow> notify now k s e = e"
  by (simp add: timeless_def notify_def)

section \<open>Reading\<close>

lemma effective_timeless:
  "timeless e \<Longrightarrow> effective_status now e (fact_at e k) = effective_status t e (fact_at e k)"
  using timeless_at [of e k] by (auto simp: effective_status_def expired_at_def timeless_fact_def split: option.split)

lemma parent_step_timeless:
  assumes "timeless e" "timeless_fact c"
  shows "parent_step now e c n p = parent_step t e c n p"
proof (cases "fact_at e p")
  case (Some f)
  have "dependency_satisfied now (Some f) st n (Some c) = dependency_satisfied t (Some f) st n (Some c)" for st
    by (rule satisfied_ageless) (use assms(2) in \<open>simp add: timeless_fact_def\<close>)
  then show ?thesis using effective_timeless [OF assms(1), of now p t] Some by (auto simp: parent_step_def)
qed (simp add: parent_step_def fun_eq_iff)

lemma compute_parents_timeless:
  assumes "timeless e" "timeless_fact c"
  shows "compute_parents now e js c = compute_parents t e js c"
proof -
  have "parent_step now e c n = parent_step t e c n" for n
    by (intro ext) (simp only: parent_step_timeless [OF assms, of now _ _ t])
  then show ?thesis by (simp only: compute_parents_def)
qed

section \<open>Propagation\<close>

lemma recompute_child_timeless:
  assumes "timeless (fst s)"
  shows "recompute_child now j s = recompute_child t j s \<and> timeless (fst (recompute_child now j s))"
proof -
  obtain e q where s: "s = (e, q)" by fastforce
  have e: "timeless e" using assms s by simp
  show ?thesis
  proof (cases "jset_at e j")
    case js: (Some js)
    show ?thesis
    proof (cases "fact_at e (js_child js)")
      case (Some c)
      show ?thesis
        using compute_parents_timeless [OF e timeless_at [OF e Some], of now js t] e js Some
        by (simp add: recompute_child_def s Let_def)
    qed (use e js in \<open>simp add: recompute_child_def s\<close>)
  qed (use e in \<open>simp add: recompute_child_def s\<close>)
qed

lemma recompute_in_timeless:
  assumes "timeless e"
  shows "recompute_in now L e = recompute_in t L e" "timeless (fst (recompute_in now L e))"
proof -
  have "fold (recompute_child now) L s = fold (recompute_child t) L s \<and> timeless (fst (fold (recompute_child t) L s))"
    if "timeless (fst s)" for s
    using that
  proof (induction L arbitrary: s)
    case (Cons j L)
    have "recompute_child now j s = recompute_child t j s" "timeless (fst (recompute_child t j s))"
      using recompute_child_timeless [OF Cons.prems, of now j t] by auto
    then show ?case using Cons.IH [of "recompute_child t j s"] by simp
  qed simp
  then show "recompute_in now L e = recompute_in t L e" "timeless (fst (recompute_in now L e))"
    using assms by (simp_all add: recompute_in_def)
qed

lemma propagate_in_timeless:
  assumes e: "timeless e"
  shows "propagate_in now L k e = propagate_in t L k e" "timeless (fst (propagate_in now L k e))"
proof -
  have "propagate_in now L k e = propagate_in t L k e \<and> timeless (fst (propagate_in now L k e))"
  proof (cases "fact_at e k")
    case (Some f)
    have f: "timeless_fact f" by (rule timeless_at [OF e Some])
    have put: "timeless (put_fact k ((refresh_count e f)\<lparr>derived_status := s\<rparr>) e)" for s using e f by simp
    note put = put [of "target_status e f"]
    show ?thesis
      using recompute_in_timeless(1) [OF put, of now L t] recompute_in_timeless(2) [OF put, of now L]
        timeless_notify [OF put] e f Some
      by (simp add: propagate_in_def Let_def)
  qed (use e in \<open>simp add: propagate_in_def\<close>)
  then show "propagate_in now L k e = propagate_in t L k e" "timeless (fst (propagate_in now L k e))" by blast+
qed

lemma propagate_timeless:
  assumes "wf_engine e" "timeless e"
  shows "propagate now e q = propagate t e q \<and> (\<forall>e'. propagate now e q = Some e' \<longrightarrow> timeless e')"
  using assms
proof (induction "queue_heights e q" arbitrary: e q rule: wf_induct_rule [OF wf_mult [OF wf_less_than]])
  case 1
  show ?case
  proof (cases q)
    case Nil
    then show ?thesis using 1(3) by simp
  next
    case (Cons k rest)
    obtain e1 new where s: "propagate_in now (child_sets e k) k e = (e1, new)" by fastforce
    have st: "propagate_in t (child_sets e k) k e = (e1, new)"
      using s propagate_in_timeless(1) [OF 1(3), of now _ k t] by metis
    have "timeless e1" using propagate_in_timeless(2) [OF 1(3), of now "child_sets e k" k] unfolding s by simp
    note st = st this
    have g: "same_graph e e1" "set new \<subseteq> {c. (k, c) \<in> deps e}"
      using propagate_in_graph [OF 1(2) s] by simp_all
    have less: "(queue_heights e1 (rest @ new), queue_heights e q) \<in> mult less_than"
      using queue_heights_less [OF 1(2) g(2), of rest] same_graph_deps [OF g(1)]
      by (simp add: queue_heights_def Cons)
    from 1(1) [OF less wf_same_graph [OF g(1) 1(2)] st(2)] show ?thesis
      using s st(1) by (simp add: Cons propagate_Cons propagate_one_def)
  qed
qed

section \<open>Operations\<close>

lemma index_parents_timeless: "timeless e \<Longrightarrow> timeless (fold (index_parent j) ps e)"
  by (induction ps arbitrary: e) (auto simp: index_parent_def)

lemma new_jset_timeless:
  assumes e: "timeless e" and f: "timeless_fact f"
  shows "new_justification_set now f i ts e = new_justification_set t f i ts e \<and>
    (\<forall>e1 js. new_justification_set now f i ts e = Inr (e1, js) \<longrightarrow> timeless e1)"
proof (cases "split_dependency_set ts")
  case (Inr s)
  obtain pos neg all where s: "s = (pos, neg, all)" by (metis prod_cases3)
  have tl: "timeless (fold (index_parent (justification_set_id (fact_id f) i)) neg
      (fold (index_parent (justification_set_id (fact_id f) i)) pos e))"
    by (intro index_parents_timeless e)
  show ?thesis
    using compute_parents_timeless [OF tl f, of now _ t] tl f Inr s
    by (auto simp: new_justification_set_def Let_def)
qed (simp add: new_justification_set_def)

lemma initialize_sets_timeless:
  assumes "timeless e"
  shows "initialize_sets now k i ss e = initialize_sets t k i ss e \<and> timeless (snd (initialize_sets t k i ss e))"
  using assms
proof (induction ss arbitrary: i e)
  case (Cons ts ss)
  show ?case
  proof (cases "fact_at e k")
    case (Some f)
    note nj = new_jset_timeless [OF Cons.prems timeless_at [OF Cons.prems Some], of now i ts t]
    show ?thesis
    proof (cases "new_justification_set now f i ts e")
      case (Inr p)
      obtain e1 js where p: "p = (e1, js)" by fastforce
      have "timeless (put_jset (js_id js) js e1)" using nj Inr p by simp
      from Cons.IH [OF this, of "Suc i"] show ?thesis
        using nj [THEN conjunct1, symmetric] Inr p Some by simp
    qed (use nj Cons.prems Some in simp)
  qed (use Cons.prems in simp)
qed simp

lemma propagated_timeless:
  assumes "wf_engine e" "timeless e"
  shows "map_option Inr (propagate now e q) = map_option Inr (propagate t e q)"
    "map_option Inr (propagate now e q) = Some (Inr e') \<Longrightarrow> timeless e'"
  using propagate_timeless [OF assms, of now q t] by auto

text \<open>The operations whose arguments carry the times they record.\<close>

fun clockless :: "engine_op \<Rightarrow> bool" where
  "clockless (OpAssert fo) = (case fo of None \<Rightarrow> True | Some f \<Rightarrow> asserted_at f \<noteq> 0 \<and> timeless_fact f)"
| "clockless (OpVerify k st m ref r t) = (t \<noteq> 0)"
| "clockless (OpReview k st r t) = (t \<noteq> 0)"
| "clockless _ = True"

lemma validate_timeless:
  "asserted_at f \<noteq> 0 \<Longrightarrow> validate_assert_fact now e f = validate_assert_fact t e f"
  by (simp add: validate_assert_fact_def stamp_asserted_def)

lemma validate_stamped:
  "asserted_at f0 \<noteq> 0 \<Longrightarrow> validate_assert_fact now e f0 = (f, r) \<Longrightarrow> f = f0"
  by (auto simp: validate_assert_fact_def stamp_asserted_def split: if_splits)

lemma assert_timeless:
  assumes wf: "wf_engine e" and tl: "timeless e" and f0: "asserted_at f0 \<noteq> 0" "timeless_fact f0"
  shows "assert_fact now (Some f0) e = assert_fact t (Some f0) e \<and>
    (\<forall>e'. assert_fact now (Some f0) e = Some (Inr e') \<longrightarrow> timeless e')"
proof -
  obtain f r where v: "validate_assert_fact now e f0 = (f, r)" by fastforce
  have f: "f = f0" by (rule validate_stamped [OF f0(1) v])
  have vt: "validate_assert_fact t e f0 = (f, r)" using v validate_timeless [OF f0(1), of now e t] by simp
  show ?thesis
  proof (cases "r = Inr False")
    case False
    then show ?thesis using v vt tl by (auto simp: assert_fact_def split: sum.split bool.split)
  next
    case True
    note v1 = v [unfolded True]
    have reg: "timeless (put_fact (fact_id f) g (register_fact f e))" if "timeless_fact g" for g
      using tl f0(2) that by (simp add: register_fact_def f)
    show ?thesis
    proof (cases "is_root f")
      case rt: True
      let ?e1 = "put_fact (fact_id f) (f\<lparr>derived_status := manual_status f\<rparr>) (register_fact f e)"
      let ?e2 = "if manual_status f < ConfidenceThreshold
        then ?e1\<lparr>collapsed_roots := set_insert (fact_id f) (collapsed_roots ?e1)\<rparr> else ?e1"
      have t2: "timeless ?e2" using reg [of "f\<lparr>derived_status := manual_status f\<rparr>"] f0(2) f by simp
      have w2: "wf_engine ?e2"
        using register_root_wf(2) [OF wf v1 rt]
          wf_engine_frame [of "?e1\<lparr>collapsed_roots := set_insert (fact_id f) (collapsed_roots ?e1)\<rparr>" ?e1]
        by (auto simp: child_sets_def)
      have init: "initialize_root_fact c f (register_fact f e) = propagate c ?e2 [fact_id f]" for c
        using timeless_notify [OF t2] by (simp add: initialize_root_fact_def Let_def)
      show ?thesis
        using propagate_timeless [OF w2 t2, of now "[fact_id f]" t] v1 vt True rt
        by (simp add: assert_fact_def init)
    next
      case rt: False
      let ?e1 = "put_fact (fact_id f) (f\<lparr>derived_status := Invalid, valid_justification_count := 0\<rparr>) (register_fact f e)"
      obtain e2 where e2: "initialize_sets now (fact_id f) 0 (sets_of f) ?e1 = (None, e2)" "wf_engine e2"
        by (rule register_sets_wf [OF wf v1 rt])
      have "timeless ?e1" by (rule reg) (use f0(2) f in simp)
      from initialize_sets_timeless [OF this, of now "fact_id f" 0 "sets_of f" t] e2(1)
      have it: "initialize_sets t (fact_id f) 0 (sets_of f) ?e1 = (None, e2)" and
        "timeless (snd (initialize_sets t (fact_id f) 0 (sets_of f) ?e1))" by simp_all
      then have t2: "timeless e2" by simp
      have init: "initialize_derived_fact now f (register_fact f e) = map_option Inr (propagate now e2 [fact_id f])"
        "initialize_derived_fact t f (register_fact f e) = map_option Inr (propagate t e2 [fact_id f])"
        using e2(1) it by (simp_all add: initialize_derived_fact_def)
      show ?thesis
        using propagate_timeless [OF e2(2) t2, of now "[fact_id f]" t] v1 vt True rt
        by (simp add: assert_fact_def init)
    qed
  qed
qed

text \<open>A propagation that ends an operation.\<close>

lemma ending_timeless:
  assumes "wf_engine e1" "timeless e1"
  shows "map_option Inr (propagate now e1 q) = map_option Inr (propagate t e1 q)"
    "propagate c e1 q = Some e' \<Longrightarrow> timeless e'"
  using propagate_timeless [OF assms, of now q t] propagate_timeless [OF assms, of c q c] by auto

lemma retract_timeless:
  assumes "wf_engine e" "timeless e"
  shows "retract_fact now k r e = retract_fact t k r e \<and>
    (\<forall>e'. retract_fact t k r e = Some (Inr e') \<longrightarrow> timeless e')"
proof -
  have e1: "wf_engine (bump (put_retracted k rs e))" "timeless (bump (put_retracted k rs e))" for rs
    using assms by simp_all
  show ?thesis
    unfolding retract_fact_def Let_def ending_timeless(1) [OF e1, of now _ "[k]" t]
    using assms(2) ending_timeless(2) [OF e1] by auto
qed

lemma invalidate_timeless:
  assumes wf: "wf_engine e" and tl: "timeless e"
  shows "invalidate_root now k e = invalidate_root t k e \<and>
    (\<forall>e'. invalidate_root t k e = Some (Inr e') \<longrightarrow> timeless e')"
proof (cases "fact_at e k")
  case (Some f)
  let ?e1 = "put_fact k (f\<lparr>manual_status := Invalid\<rparr>) e"
  let ?e2 = "bump (?e1\<lparr>collapsed_roots := set_insert k (collapsed_roots ?e1)\<rparr>)"
  have "wf_engine ?e2" using put_fact_structure [OF wf Some, of "f\<lparr>manual_status := Invalid\<rparr>"] by simp
  moreover have "timeless ?e2" using tl timeless_at [OF tl Some] by simp
  ultimately have ends: "map_option Inr (propagate now ?e2 [k]) = map_option Inr (propagate t ?e2 [k])"
    "propagate t ?e2 [k] = Some e' \<Longrightarrow> timeless e'" for e' by (rule ending_timeless)+
  show ?thesis
  proof (cases "is_root f \<and> manual_status f \<noteq> Invalid")
    case True
    then have "invalidate_root u k e = map_option Inr (propagate u ?e2 [k])" for u
      using Some by (simp add: invalidate_root_def Let_def)
    then show ?thesis using ends by auto
  next
    case False
    then show ?thesis using Some tl by (auto simp: invalidate_root_def)
  qed
qed (simp add: invalidate_root_def)

lemma confidence_timeless:
  assumes wf: "wf_engine e" and tl: "timeless e"
  shows "set_root_confidence now k c e = set_root_confidence t k c e \<and>
    (\<forall>e'. set_root_confidence t k c e = Some (Inr e') \<longrightarrow> timeless e')"
proof (cases "fact_at e k")
  case (Some f)
  let ?e1 = "put_fact k (f\<lparr>manual_status := c\<rparr>) e"
  let ?e2 = "bump (?e1\<lparr>collapsed_roots := (if c < ConfidenceThreshold then set_insert k (collapsed_roots ?e1)
    else removeAll k (collapsed_roots ?e1))\<rparr>)"
  have "wf_engine ?e2" using put_fact_structure [OF wf Some, of "f\<lparr>manual_status := c\<rparr>"] by simp
  moreover have "timeless ?e2" using tl timeless_at [OF tl Some] by simp
  ultimately have ends: "map_option Inr (propagate now ?e2 [k]) = map_option Inr (propagate t ?e2 [k])"
    "propagate t ?e2 [k] = Some e' \<Longrightarrow> timeless e'" for e' by (rule ending_timeless)+
  show ?thesis
  proof (cases "is_root f \<and> manual_status f \<noteq> c")
    case True
    then have "set_root_confidence u k c e = map_option Inr (propagate u ?e2 [k])" for u
      using Some by (simp add: set_root_confidence_def Let_def)
    then show ?thesis using ends by auto
  next
    case False
    then show ?thesis using Some tl by (auto simp: set_root_confidence_def)
  qed
qed (simp add: set_root_confidence_def)

lemma verification_timeless_fact:
  "timeless_fact (f\<lparr>metadata := verification_metadata st m ref r v (metadata f)\<rparr>) = timeless_fact f"
  by (simp add: timeless_fact_def verification_metadata_def put_unless_blank_def Let_def)

lemma verify_timeless:
  assumes wf: "wf_engine e" and tl: "timeless e" and v: "v \<noteq> 0"
  shows "set_fact_verification now k st m ref r v e = set_fact_verification t k st m ref r v e \<and>
    (\<forall>e'. set_fact_verification t k st m ref r v e = Some (Inr e') \<longrightarrow> timeless e')"
proof (cases "fact_at e k")
  case (Some f)
  let ?g = "f\<lparr>metadata := verification_metadata (normalize_verification_status st) m ref r v (metadata f)\<rparr>"
  let ?e1 = "bump (put_fact k ?g e)"
  have tl1: "timeless ?e1" using tl timeless_at [OF tl Some] by (simp add: verification_timeless_fact)
  have wf1: "wf_engine ?e1" using put_fact_structure [OF wf Some, of ?g] by simp
  obtain e2 q where e2: "recompute_children now k ?e1 = (e2, q)" by fastforce
  have e2t: "recompute_children t k ?e1 = (e2, q)" "timeless e2"
    using recompute_in_timeless(1) [OF tl1, of now "child_sets ?e1 k" t]
      recompute_in_timeless(2) [OF tl1, of now "child_sets ?e1 k"] e2
    unfolding recompute_children_def by (metis, metis fst_conv)
  have "same_graph ?e1 e2"
    using recompute_in_post [OF wf1 e2 [unfolded recompute_children_def]] by (simp add: refresh_post_def)
  then have "wf_engine e2" using wf_same_graph wf1 by blast
  then show ?thesis
    using ending_timeless(1) [of e2 now q t] ending_timeless(2) [of e2 t q] Some v e2 e2t
    by (auto simp: set_fact_verification_def Let_def)
qed (simp add: set_fact_verification_def)

lemma review_timeless:
  assumes tl: "timeless e" and v: "v \<noteq> 0"
  shows "set_fact_review now k st r v e = set_fact_review t k st r v e \<and>
    (\<forall>e'. set_fact_review t k st r v e = Inr e' \<longrightarrow> timeless e')"
proof (cases "fact_at e k")
  case (Some f)
  have "timeless_fact f" by (rule timeless_at [OF tl Some])
  then show ?thesis using Some v tl by (auto simp: set_fact_review_def Let_def timeless_fact_def)
qed (simp add: set_fact_review_def)

lemma run_op_timeless:
  assumes "wf_engine e" "timeless e" "clockless x"
  shows "run_op now x e = run_op t x e \<and> (\<forall>e'. run_op t x e = Some (Inr e') \<longrightarrow> timeless e')"
proof (cases x)
  case (OpAssert fo)
  then show ?thesis
    using assms(3) assert_timeless [OF assms(1,2), of _ now t] by (cases fo) (auto simp: assert_fact_def)
next
  case (OpReview k st r v)
  then show ?thesis using assms(3) review_timeless [OF assms(2), of v now k st r t] by auto
next
  case (OpVerify k st m ref r v)
  then show ?thesis using assms(3) verify_timeless [OF assms(1,2), of v now k st m ref r t] by simp
qed (use retract_timeless [OF assms(1,2)] invalidate_timeless [OF assms(1,2)] confidence_timeless [OF assms(1,2)]
  in simp_all)

end
