(* ===== verification/Journal.thy ===== *)
theory Journal
imports Timeless
begin

text \<open>
  store/journal.go: the file journal, one JSON entry a line, and its replay into engines. The
  JSON codec is a pair of parameters. A file is its bytes; the scanner of bufio splits it into
  lines and refuses a line of 64 KiB or more.
\<close>

section \<open>Entries\<close>

abbreviation EventAssert :: string where "EventAssert \<equiv> ''assert''"
abbreviation EventInvalidate :: string where "EventInvalidate \<equiv> ''invalidate''"
abbreviation EventRetract :: string where "EventRetract \<equiv> ''retract''"
abbreviation EventReview :: string where "EventReview \<equiv> ''review''"
abbreviation EventConfidenceAdjusted :: string where "EventConfidenceAdjusted \<equiv> ''confidence_adjusted''"
abbreviation EventFactExpired :: string where "EventFactExpired \<equiv> ''fact_expired''"
abbreviation EventFactVerification :: string where "EventFactVerification \<equiv> ''fact_verification''"

record journal_entry =
  je_type :: string
  je_session :: string
  je_actor :: string
  je_fact :: "fact option"
  je_fact_id :: string
  je_payload :: gobj
  je_timestamp :: int

definition blank_entry :: "string \<Rightarrow> string \<Rightarrow> journal_entry" where
  "blank_entry ty sid =
     \<lparr>je_type = ty, je_session = sid, je_actor = [], je_fact = None, je_fact_id = [], je_payload = None,
      je_timestamp = 0\<rparr>"

datatype journal_error =
    EncodeFailed
  | CorruptEntry nat
  | TokenTooLong
  | OrphanEntry nat
  | ReplayFailed nat string core_error

definition payload_string :: "gobj \<Rightarrow> string \<Rightarrow> string" where
  "payload_string m k = (case obj_get m k of Some (GStr s) \<Rightarrow> s | _ \<Rightarrow> [])"

definition payload_float64 :: "gobj \<Rightarrow> string \<Rightarrow> real option" where
  "payload_float64 m k = (case obj_get m k of Some (GFloat x) \<Rightarrow> Some x | _ \<Rightarrow> None)"

definition payload_int64_from_float :: "gobj \<Rightarrow> string \<Rightarrow> int option" where
  "payload_int64_from_float m k = map_option int64_of_float (payload_float64 m k)"

section \<open>The file\<close>

definition journal_append ::
  "(journal_entry \<Rightarrow> string option) \<Rightarrow> int \<Rightarrow> journal_entry \<Rightarrow> string \<Rightarrow> journal_error + string" where
  "journal_append enc now entry file =
     (case enc (entry\<lparr>je_timestamp := now\<rparr>) of
        None \<Rightarrow> Inl EncodeFailed
      | Some b \<Rightarrow> Inr (file @ b @ [CHR 0x0A]))"

definition append_assert ::
  "(journal_entry \<Rightarrow> string option) \<Rightarrow> int \<Rightarrow> string \<Rightarrow> fact option \<Rightarrow> string \<Rightarrow> journal_error + string" where
  "append_assert enc now sid fo file =
     journal_append enc now ((blank_entry EventAssert sid)\<lparr>je_fact := fo\<rparr>) file"

definition append_invalidate ::
  "(journal_entry \<Rightarrow> string option) \<Rightarrow> int \<Rightarrow> string \<Rightarrow> string \<Rightarrow> string \<Rightarrow> journal_error + string" where
  "append_invalidate enc now sid fid file =
     journal_append enc now ((blank_entry EventInvalidate sid)\<lparr>je_fact_id := fid\<rparr>) file"

text \<open>bufio.ScanLines: the final line needs no newline, and a carriage return before one is dropped.\<close>

fun raw_lines :: "string \<Rightarrow> string \<Rightarrow> string list" where
  "raw_lines acc [] = (if acc = [] then [] else [rev acc])"
| "raw_lines acc (c # cs) = (if c = CHR 0x0A then rev acc # raw_lines [] cs else raw_lines (c # acc) cs)"

definition drop_cr :: "string \<Rightarrow> string" where
  "drop_cr l = (if l \<noteq> [] \<and> last l = CHR 0x0D then butlast l else l)"

text \<open>The tokens before the first line that does not fit the buffer, and whether there is one.\<close>

definition max_token :: nat where "max_token = 65536"

definition scan_lines :: "string \<Rightarrow> string list \<times> bool" where
  "scan_lines file =
     (let ls = raw_lines [] file; ok = takeWhile (\<lambda>l. length l < max_token) ls
      in (map drop_cr ok, length ok < length ls))"

fun read_entries :: "(string \<Rightarrow> journal_entry option) \<Rightarrow> nat \<Rightarrow> string list \<Rightarrow> journal_error + journal_entry list" where
  "read_entries dec n [] = Inr []"
| "read_entries dec n (l # ls) =
     (case dec l of
        None \<Rightarrow> Inl (CorruptEntry n)
      | Some e \<Rightarrow> (case read_entries dec (Suc n) ls of Inl err \<Rightarrow> Inl err | Inr es \<Rightarrow> Inr (e # es)))"

text \<open>The entries read are returned along with the scanner's error.\<close>

definition read_history ::
  "(string \<Rightarrow> journal_entry option) \<Rightarrow> string \<Rightarrow> journal_error option \<times> journal_entry list" where
  "read_history dec file =
     (case read_entries dec 1 (fst (scan_lines file)) of
        Inl err \<Rightarrow> (Some err, [])
      | Inr es \<Rightarrow> (if snd (scan_lines file) then Some TokenTooLong else None, es))"

section \<open>Replay\<close>

type_synonym engine_map = "(string \<times> engine) list"

text \<open>An error of the engine either stops the replay or is only logged.\<close>

definition replay_strict ::
  "nat \<Rightarrow> string \<Rightarrow> engine_map \<Rightarrow> (core_error + engine) option \<Rightarrow> (journal_error option \<times> engine_map) option" where
  "replay_strict n sid m r =
     (case r of None \<Rightarrow> None
      | Some (Inl err) \<Rightarrow> Some (Some (ReplayFailed n sid err), m)
      | Some (Inr e) \<Rightarrow> Some (None, AList.update sid e m))"

definition replay_lenient ::
  "string \<Rightarrow> engine_map \<Rightarrow> (core_error + engine) option \<Rightarrow> (journal_error option \<times> engine_map) option" where
  "replay_lenient sid m r =
     (case r of None \<Rightarrow> None
      | Some (Inl err) \<Rightarrow> Some (None, m)
      | Some (Inr e) \<Rightarrow> Some (None, AList.update sid e m))"

definition entry_fact_id :: "journal_entry \<Rightarrow> string" where
  "entry_fact_id en =
     (if je_fact_id en = [] then (case je_fact en of None \<Rightarrow> [] | Some f \<Rightarrow> fact_id f) else je_fact_id en)"

definition replay_entry ::
  "int \<Rightarrow> nat \<Rightarrow> journal_entry \<Rightarrow> engine_map \<Rightarrow> (journal_error option \<times> engine_map) option" where
  "replay_entry now n en m0 =
     (if je_session en = [] then Some (Some (OrphanEntry n), m0)
      else (let sid = je_session en;
                m = (if map_of m0 sid = None then AList.update sid new_engine m0 else m0);
                e = the (map_of m sid);
                ty = je_type en; p = je_payload en
            in if ty = EventAssert then replay_strict n sid m (assert_fact now (je_fact en) e)
               else if ty = EventInvalidate then replay_strict n sid m (invalidate_root now (je_fact_id en) e)
               else if ty = EventRetract
               then replay_strict n sid m (retract_fact now (je_fact_id en) (payload_string p ''reason'') e)
               else if ty = EventReview
               then replay_strict n sid m
                      (Some (set_fact_review now (je_fact_id en) (payload_string p ''status'') (payload_string p ''reason'')
                         (case payload_int64_from_float p ''reviewed_at'' of None \<Rightarrow> je_timestamp en | Some v \<Rightarrow> v) e))
               else if ty = EventConfidenceAdjusted
               then (let c = (case payload_float64 p ''confidence'' of None \<Rightarrow> 0 | Some x \<Rightarrow> x)
                     in if entry_fact_id en \<noteq> [] \<and> c > 0
                        then replay_lenient sid m (set_root_confidence now (entry_fact_id en) c e)
                        else Some (None, m))
               else if ty = EventFactExpired
               then (if entry_fact_id en \<noteq> []
                     then replay_lenient sid m (retract_fact now (entry_fact_id en) ''expired'' e)
                     else Some (None, m))
               else if ty = EventFactVerification
               then (if entry_fact_id en \<noteq> []
                     then replay_lenient sid m
                            (set_fact_verification now (entry_fact_id en) (payload_string p ''status'')
                               (payload_string p ''method'') (payload_string p ''source_ref'') (payload_string p ''reason'')
                               (case payload_int64_from_float p ''verified_at'' of
                                  Some v \<Rightarrow> if v > 0 then v else je_timestamp en | None \<Rightarrow> je_timestamp en) e)
                     else Some (None, m))
               else Some (None, m)))"

text \<open>The clock is read for each line.\<close>

fun replay_lines ::
  "(string \<Rightarrow> journal_entry option) \<Rightarrow> (nat \<Rightarrow> int) \<Rightarrow> nat \<Rightarrow> string list \<Rightarrow> engine_map \<Rightarrow>
     (journal_error option \<times> engine_map) option" where
  "replay_lines dec clock n [] m = Some (None, m)"
| "replay_lines dec clock n (l # ls) m =
     (case dec l of
        None \<Rightarrow> Some (Some (CorruptEntry n), m)
      | Some en \<Rightarrow>
         (case replay_entry (clock n) n en m of
            None \<Rightarrow> None
          | Some (Some err, m') \<Rightarrow> Some (Some err, m')
          | Some (None, m') \<Rightarrow> replay_lines dec clock (Suc n) ls m'))"

definition replay_journal ::
  "(string \<Rightarrow> journal_entry option) \<Rightarrow> (nat \<Rightarrow> int) \<Rightarrow> string \<Rightarrow> engine_map \<Rightarrow>
     (journal_error option \<times> engine_map) option" where
  "replay_journal dec clock file m =
     map_option (\<lambda>r. case r of
         (None, m') \<Rightarrow> (if snd (scan_lines file) then Some TokenTooLong else None, m')
       | r \<Rightarrow> r)
       (replay_lines dec clock 1 (fst (scan_lines file)) m)"

section \<open>Reading back\<close>

lemma raw_lines_append:
  "CHR 0x0A \<notin> set b \<Longrightarrow> raw_lines acc (b @ CHR 0x0A # rest) = (rev acc @ b) # raw_lines [] rest"
  by (induction b arbitrary: acc) auto

lemma raw_lines_joined:
  assumes "\<forall>b \<in> set bs. CHR 0x0A \<notin> set b"
  shows "raw_lines [] (concat (map (\<lambda>b. b @ [CHR 0x0A]) bs)) = bs"
  using assms by (induction bs) (simp_all add: raw_lines_append)

text \<open>A line as the encoder writes it: it fits the buffer and contains no line break.\<close>

definition one_line :: "string \<Rightarrow> bool" where
  "one_line b \<longleftrightarrow> CHR 0x0A \<notin> set b \<and> CHR 0x0D \<notin> set b \<and> length b < max_token"

lemma scan_joined:
  assumes "\<forall>b \<in> set bs. one_line b"
  shows "scan_lines (concat (map (\<lambda>b. b @ [CHR 0x0A]) bs)) = (bs, False)"
proof -
  have r: "raw_lines [] (concat (map (\<lambda>b. b @ [CHR 0x0A]) bs)) = bs"
    by (rule raw_lines_joined) (use assms in \<open>simp add: one_line_def\<close>)
  have t: "takeWhile (\<lambda>l. length l < max_token) bs = bs"
    using assms by (simp add: takeWhile_eq_all_conv one_line_def)
  have "map drop_cr bs = bs"
    using assms by (intro map_idI) (auto simp: drop_cr_def one_line_def dest: last_in_set)
  then show ?thesis by (simp add: scan_lines_def r t)
qed

lemma scan_too_long:
  assumes "\<forall>b \<in> set bs. one_line b" "CHR 0x0A \<notin> set l" "max_token \<le> length l"
  shows "scan_lines (concat (map (\<lambda>b. b @ [CHR 0x0A]) bs) @ l @ CHR 0x0A # rest) = (bs, True)"
proof -
  have r: "raw_lines [] (concat (map (\<lambda>b. b @ [CHR 0x0A]) bs) @ l @ CHR 0x0A # rest) = bs @ l # raw_lines [] rest"
    using assms(1) by (induction bs) (simp_all add: raw_lines_append assms(2) one_line_def)
  have t: "takeWhile (\<lambda>l. length l < max_token) (bs @ l # ls) = bs" for ls
    using assms by (simp add: one_line_def)
  have "map drop_cr bs = bs"
    using assms(1) by (intro map_idI) (auto simp: drop_cr_def one_line_def dest: last_in_set)
  then show ?thesis by (simp add: scan_lines_def r t)
qed

lemma read_entries_all:
  "list_all2 (\<lambda>b e. dec b = Some e) bs es \<Longrightarrow> read_entries dec n bs = Inr es"
  by (induction bs es arbitrary: n rule: list_all2_induct) simp_all

section \<open>Replaying a run\<close>

text \<open>The entry that records an operation, and the operations whose entry carries all of them.\<close>

fun event_of :: "string \<Rightarrow> engine_op \<Rightarrow> journal_entry" where
  "event_of sid (OpAssert fo) = (blank_entry EventAssert sid)\<lparr>je_fact := fo\<rparr>"
| "event_of sid (OpInvalidate k) = (blank_entry EventInvalidate sid)\<lparr>je_fact_id := k\<rparr>"
| "event_of sid (OpConfidence k c) =
     (blank_entry EventConfidenceAdjusted sid)\<lparr>je_fact_id := k, je_payload := Some [(''confidence'', GFloat c)]\<rparr>"
| "event_of sid (OpRetract k r) =
     (blank_entry EventRetract sid)\<lparr>je_fact_id := k, je_payload := Some [(''reason'', GStr r)]\<rparr>"
| "event_of sid (OpVerify k st m ref r v) =
     (blank_entry EventFactVerification sid)\<lparr>je_fact_id := k,
        je_payload := Some [(''status'', GStr st), (''method'', GStr m), (''source_ref'', GStr ref), (''reason'', GStr r),
          (''verified_at'', GFloat (of_int v))]\<rparr>"
| "event_of sid (OpReview k st r v) =
     (blank_entry EventReview sid)\<lparr>je_fact_id := k,
        je_payload := Some [(''status'', GStr st), (''reason'', GStr r), (''reviewed_at'', GFloat (of_int v))]\<rparr>"

fun journalled :: "engine_op \<Rightarrow> bool" where
  "journalled (OpConfidence k c) \<longleftrightarrow> k \<noteq> [] \<and> c > 0"
| "journalled (OpVerify k st m ref r v) \<longleftrightarrow> k \<noteq> [] \<and> v > 0"
| "journalled x \<longleftrightarrow> clockless x"

lemma journalled_clockless: "journalled x \<Longrightarrow> clockless x"
  by (cases x) auto

lemma int64_of_int [simp]: "int64_of_float (of_int v) = v"
  by (simp add: int64_of_float_def)

lemma payload_simps [simp]:
  "payload_string (Some ((k, v) # kvs)) k' = (if k = k' then (case v of GStr s \<Rightarrow> s | _ \<Rightarrow> []) else payload_string (Some kvs) k')"
  "payload_float64 (Some ((k, v) # kvs)) k' =
     (if k = k' then (case v of GFloat x \<Rightarrow> Some x | _ \<Rightarrow> None) else payload_float64 (Some kvs) k')"
  by (simp_all add: payload_string_def payload_float64_def obj_get_def)

text \<open>The engine a session has in the map, a new one when it has none.\<close>

definition session_engine :: "engine_map \<Rightarrow> string \<Rightarrow> engine" where
  "session_engine m sid = (case map_of m sid of None \<Rightarrow> new_engine | Some e \<Rightarrow> e)"

lemma replay_event:
  assumes sid: "sid \<noteq> []" and x: "journalled x" and run: "run_op now x (session_engine m sid) = Some (Inr e)"
    and en: "en = (event_of sid x)\<lparr>je_timestamp := t\<rparr>"
  shows "\<exists>m'. replay_entry now n en m = Some (None, m') \<and> map_of m' = (map_of m)(sid \<mapsto> e)"
proof -
  define m1 where "m1 = (if map_of m sid = None then AList.update sid new_engine m else m)"
  have e1: "the (map_of m1 sid) = session_engine m sid" by (auto simp: m1_def session_engine_def)
  have upd: "map_of (AList.update sid e m1) = (map_of m)(sid \<mapsto> e)" by (rule ext) (simp add: m1_def)
  have "replay_entry now n en m = Some (None, AList.update sid e m1)"
    using run x sid unfolding en
    by (cases x) (simp_all add: replay_entry_def blank_entry_def m1_def [symmetric] Let_def e1 replay_strict_def
        replay_lenient_def entry_fact_id_def payload_int64_from_float_def)
  then show ?thesis using upd by blast
qed

text \<open>A run of the operations of several sessions, all of them successful.\<close>

fun live_run :: "(string \<times> int \<times> engine_op) list \<Rightarrow> (string \<Rightarrow> engine) \<Rightarrow> (string \<Rightarrow> engine) option" where
  "live_run [] s = Some s"
| "live_run ((sid, t, x) # xs) s =
     (case run_op t x (s sid) of Some (Inr e) \<Rightarrow> live_run xs (s(sid := e)) | _ \<Rightarrow> None)"

fun append_all ::
  "(journal_entry \<Rightarrow> string option) \<Rightarrow> (string \<times> int \<times> engine_op) list \<Rightarrow> string \<Rightarrow> journal_error + string" where
  "append_all enc [] file = Inr file"
| "append_all enc ((sid, t, x) # xs) file =
     (case journal_append enc t (event_of sid x) file of Inl err \<Rightarrow> Inl err | Inr file' \<Rightarrow> append_all enc xs file')"

definition stamped :: "string \<times> int \<times> engine_op \<Rightarrow> journal_entry" where
  "stamped y = (case y of (sid, t, x) \<Rightarrow> (event_of sid x)\<lparr>je_timestamp := t\<rparr>)"

lemma append_all_lines:
  "append_all enc xs inp = Inr out \<Longrightarrow>
     \<exists>bs. out = inp @ concat (map (\<lambda>b. b @ [CHR 0x0A]) bs) \<and> list_all2 (\<lambda>y b. enc (stamped y) = Some b) xs bs"
proof (induction enc xs inp rule: append_all.induct)
  case (2 enc sid t x xs inp)
  from 2(2) obtain b where b: "enc (stamped (sid, t, x)) = Some b"
    "append_all enc xs (inp @ b @ [CHR 0x0A]) = Inr out"
    by (auto simp: journal_append_def stamped_def split: sum.splits option.splits)
  have "journal_append enc t (event_of sid x) inp = Inr (inp @ b @ [CHR 0x0A])"
    using b(1) by (simp add: journal_append_def stamped_def)
  from 2(1) [OF this b(2)] obtain bs where
    "out = (inp @ b @ [CHR 0x0A]) @ concat (map (\<lambda>b. b @ [CHR 0x0A]) bs)"
    "list_all2 (\<lambda>y b. enc (stamped y) = Some b) xs bs" by blast
  then show ?case using b(1) by (intro exI [of _ "b # bs"]) simp
qed auto

lemma replay_run:
  assumes "live_run xs s = Some s'" "\<forall>(sid, t, x) \<in> set xs. sid \<noteq> [] \<and> journalled x"
    and "list_all2 (\<lambda>y b. dec b = Some (stamped y)) xs bs"
    and "\<forall>sid. session_engine m sid = s sid \<and> wf_engine (s sid) \<and> timeless (s sid)"
  shows "\<exists>m'. replay_lines dec clock n bs m = Some (None, m') \<and> (\<forall>sid. session_engine m' sid = s' sid) \<and>
    dom (map_of m') = dom (map_of m) \<union> fst ` set xs"
  using assms
proof (induction xs s arbitrary: m n bs rule: live_run.induct)
  case (2 sid t x xs s)
  obtain b bs' where bs: "bs = b # bs'" "dec b = Some (stamped (sid, t, x))"
    "list_all2 (\<lambda>y b. dec b = Some (stamped y)) xs bs'"
    using "2.prems"(3) by (cases bs) auto
  obtain e where e: "run_op t x (s sid) = Some (Inr e)" "live_run xs (s(sid := e)) = Some s'"
    using "2.prems"(1) by (auto split: option.splits sum.splits)
  have x: "sid \<noteq> []" "journalled x" using "2.prems"(2) by auto
  have s: "wf_engine (s sid)" "timeless (s sid)" "session_engine m sid = s sid" using "2.prems"(4) by auto
  have run: "run_op (clock n) x (session_engine m sid) = Some (Inr e)" and tl: "timeless e"
    using run_op_timeless [OF s(1,2) journalled_clockless [OF x(2)], of "clock n" t] e(1) s(3) by auto
  have wf: "wf_engine e" using running.act_keeps [OF s(1), of t x] e(1) by simp
  obtain m1 where m1: "replay_entry (clock n) n (stamped (sid, t, x)) m = Some (None, m1)"
    "map_of m1 = (map_of m)(sid \<mapsto> e)"
    using replay_event [OF x run, where t = t and en = "stamped (sid, t, x)" and n = n]
    unfolding stamped_def prod.case by blast
  have se: "\<forall>i. session_engine m1 i = (s(sid := e)) i \<and> wf_engine ((s(sid := e)) i) \<and> timeless ((s(sid := e)) i)"
    using "2.prems"(4) wf tl by (auto simp: session_engine_def m1(2))
  have "\<forall>(sid, t, x) \<in> set xs. sid \<noteq> [] \<and> journalled x" using "2.prems"(2) by auto
  from "2.IH" [OF e(1) refl e(2) this bs(3) se] obtain m' where
    "replay_lines dec clock (Suc n) bs' m1 = Some (None, m')" "\<forall>sid. session_engine m' sid = s' sid"
    "dom (map_of m') = dom (map_of m1) \<union> fst ` set xs" by blast
  then show ?case using bs(1,2) m1 by (auto simp: Un_commute)
qed simp

end
