(* ===== verification/StoreProperties.thy ===== *)
theory StoreProperties
imports Journal Samples
begin

text \<open>The properties of the file journal.\<close>

section \<open>Recovery\<close>

lemma new_engine_ready: "wf_engine new_engine \<and> timeless new_engine"
  by (simp add: new_engine_structure, simp add: timeless_def new_engine_def)

lemma written_lines:
  assumes "list_all2 (\<lambda>y b. enc (stamped y) = Some b) xs bs"
    and "\<forall>y \<in> set xs. \<forall>b. enc (stamped y) = Some b \<longrightarrow> one_line b \<and> dec b = Some (stamped y)"
  shows "(\<forall>b \<in> set bs. one_line b) \<and> list_all2 (\<lambda>y b. dec b = Some (stamped y)) xs bs"
  using assms by (induction rule: list_all2_induct) auto


definition journal_sample :: "(string \<times> int \<times> engine_op) list" where
  "journal_sample =
     [(''s'', 3, OpAssert (Some ((sample_fact ''A'' True 1 [])\<lparr>asserted_at := 2\<rparr>))),
      (''t'', 4, OpAssert (Some ((sample_fact ''A'' True 1 [])\<lparr>asserted_at := 2\<rparr>))),
      (''s'', 5, OpRetract ''A'' ''stale'')]"

definition sample_line :: "journal_entry \<Rightarrow> string option" where
  "sample_line en = Some (if je_type en = EventAssert then je_session en else ''retract'')"

definition sample_parse :: "string \<Rightarrow> journal_entry option" where
  "sample_parse b =
     (if b = ''s'' then Some (stamped (journal_sample ! 0)) else if b = ''t'' then Some (stamped (journal_sample ! 1))
      else Some (stamped (journal_sample ! 2)))"


section \<open>Long lines\<close>

text \<open>
  An entry whose encoding has 64 KiB or more makes the journal unreadable: what was
  appended before it is replayed, and then, whatever follows, the scanner's error ends the replay
  and the reading of the history.
\<close>

theorem journal_long_line:
  assumes "append_all enc xs [] = Inr out" "live_run xs (\<lambda>_. new_engine) = Some s"
    and "\<forall>(sid, t, x) \<in> set xs. sid \<noteq> [] \<and> journalled x"
    and "\<forall>y \<in> set xs. \<forall>b. enc (stamped y) = Some b \<longrightarrow> one_line b \<and> dec b = Some (stamped y)"
    and "journal_append enc now en out = Inr longer" "enc (en\<lparr>je_timestamp := now\<rparr>) = Some l"
    and "CHR 0x0A \<notin> set l" "max_token \<le> length l"
  shows "read_history dec (longer @ rest) = (Some TokenTooLong, map stamped xs) \<and>
    (\<exists>m. replay_journal dec clock (longer @ rest) [] = Some (Some TokenTooLong, m) \<and>
      (\<forall>sid. session_engine m sid = s sid))"
proof -
  obtain bs where bs: "out = concat (map (\<lambda>b. b @ [CHR 0x0A]) bs)" "list_all2 (\<lambda>y b. enc (stamped y) = Some b) xs bs"
    using append_all_lines [OF assms(1)] by auto
  have lines: "\<forall>b \<in> set bs. one_line b" and d: "list_all2 (\<lambda>y b. dec b = Some (stamped y)) xs bs"
    using written_lines [OF bs(2) assms(4)] by blast+
  have "longer @ rest = concat (map (\<lambda>b. b @ [CHR 0x0A]) bs) @ l @ CHR 0x0A # rest"
    using assms(5,6) by (simp add: journal_append_def bs(1) split: option.splits)
  then have scan: "scan_lines (longer @ rest) = (bs, True)"
    using scan_too_long [OF lines assms(7,8)] by simp
  have "list_all2 (\<lambda>b e. dec b = Some e) bs (map stamped xs)"
    using d by (auto simp: list_all2_conv_all_nth)
  then have "read_entries dec 1 bs = Inr (map stamped xs)" by (rule read_entries_all)
  moreover have "\<forall>sid. session_engine [] sid = new_engine \<and> wf_engine new_engine \<and> timeless new_engine"
    by (simp add: session_engine_def new_engine_ready)
  moreover obtain m where "replay_lines dec clock 1 bs [] = Some (None, m)" "\<forall>sid. session_engine m sid = s sid"
    using replay_run [OF assms(2,3) d calculation(2)] by blast
  ultimately show ?thesis by (auto simp: read_history_def replay_journal_def scan)
qed

lemma journal_long_line_witness:
  "\<exists>longer. journal_append (\<lambda>_. Some (replicate max_token CHR ''x'')) 7 (blank_entry EventInvalidate ''s'') [] = Inr longer \<and>
     read_history (\<lambda>_. None) (longer @ []) = (Some TokenTooLong, [])"
proof -
  let ?enc = "\<lambda>_::journal_entry. Some (replicate max_token CHR ''x'')"
  have ap: "journal_append ?enc 7 (blank_entry EventInvalidate ''s'') [] = Inr (replicate max_token CHR ''x'' @ [CHR 0x0A])"
    by (simp add: journal_append_def)
  have "CHR 0x0A \<notin> set (replicate max_token CHR ''x'')" "max_token \<le> length (replicate max_token CHR ''x'')"
    by (simp_all add: set_replicate_conv_if)
  then have "read_history (\<lambda>_. None) ((replicate max_token CHR ''x'' @ [CHR 0x0A]) @ []) = (Some TokenTooLong, map stamped [])"
    using journal_long_line [OF _ _ _ _ ap, where xs = "[]" and s = "\<lambda>_. new_engine" and dec = "\<lambda>_. None" and rest = "[]"]
    by simp
  then show ?thesis using ap by auto
qed

end
