(* ===== verification/KV.thy ===== *)
theory KV
imports Prelude "HOL-Library.Word"
begin

text \<open>
  The database under store/badger.go. BadgerDB is a parameter: a record of its operations on a
  type of databases. The laws state what its documentation promises of a transaction: a read sees
  the last write, and an iterator visits the keys in byte order. Also here: codecs, the big-endian
  counters, and the zero-padded decimals of the keys.
\<close>

section \<open>The database\<close>

record 'db kv =
  kv_get :: "'db \<Rightarrow> string \<Rightarrow> string option"
  kv_set :: "string \<Rightarrow> string \<Rightarrow> 'db \<Rightarrow> 'db"
  kv_delete :: "string \<Rightarrow> 'db \<Rightarrow> 'db"
  kv_items :: "'db \<Rightarrow> (string \<times> string) list"

definition kv_laws :: "'db kv \<Rightarrow> bool" where
  "kv_laws K \<longleftrightarrow>
     (\<forall>k v d. kv_get K (kv_set K k v d) = (kv_get K d)(k \<mapsto> v)) \<and>
     (\<forall>k d. kv_get K (kv_delete K k d) = (kv_get K d)(k := None)) \<and>
     (\<forall>d. map_of (kv_items K d) = kv_get K d \<and> sorted (map fst (kv_items K d)) \<and> distinct (map fst (kv_items K d)))"

text \<open>An iterator set to a key, upwards and downwards, and the loop over the keys with a prefix.\<close>

definition seek_up :: "'db kv \<Rightarrow> 'db \<Rightarrow> string \<Rightarrow> (string \<times> string) list" where
  "seek_up K d k = dropWhile (\<lambda>i. fst i < k) (kv_items K d)"

definition seek_down :: "'db kv \<Rightarrow> 'db \<Rightarrow> string \<Rightarrow> (string \<times> string) list" where
  "seek_down K d k = dropWhile (\<lambda>i. k < fst i) (rev (kv_items K d))"

definition scan_prefix :: "'db kv \<Rightarrow> 'db \<Rightarrow> string \<Rightarrow> (string \<times> string) list" where
  "scan_prefix K d p = takeWhile (\<lambda>i. has_prefix (fst i) p) (seek_up K d p)"

text \<open>An instance on association lists.\<close>

definition assoc_kv :: "(string \<times> string) list kv" where
  "assoc_kv = \<lparr>kv_get = map_of, kv_set = AList.update, kv_delete = AList.delete,
     kv_items = (\<lambda>al. sort_key fst (AList.clearjunk al))\<rparr>"

lemma map_of_sort_key: "distinct (map fst al) \<Longrightarrow> map_of (sort_key fst al) = map_of al"
  by (intro map_of_eqI) (auto simp: distinct_map image_iff map_of_eq_Some_iff intro: map_of_SomeD)

lemma assoc_kv_laws: "kv_laws assoc_kv"
proof -
  have "distinct (map fst (AList.clearjunk al))" for al :: "(string \<times> string) list"
    by (rule AList.distinct_clearjunk)
  moreover from this have "distinct (map fst (sort_key fst (AList.clearjunk al)))" for al :: "(string \<times> string) list"
    by (simp add: distinct_map)
  ultimately show ?thesis
    by (simp add: kv_laws_def assoc_kv_def update_conv' delete_conv' map_of_sort_key map_of_clearjunk)
qed

section \<open>What iteration gives\<close>

lemma kv_simps [simp]:
  assumes "kv_laws K"
  shows "kv_get K (kv_set K k v d) = (kv_get K d)(k \<mapsto> v)" "kv_get K (kv_delete K k d) = (kv_get K d)(k := None)"
    "map_of (kv_items K d) = kv_get K d" "sorted (map fst (kv_items K d))" "distinct (map fst (kv_items K d))"
  using assms by (simp_all add: kv_laws_def)

lemma items_iff: "kv_laws K \<Longrightarrow> (k, v) \<in> set (kv_items K d) \<longleftrightarrow> kv_get K d k = Some v"
  by (metis kv_simps(3,5) map_of_eq_Some_iff)

text \<open>A sorted list without repeated keys is given by its map.\<close>

lemma sorted_items_unique:
  fixes xs ys :: "(string \<times> 'v) list"
  assumes "sorted (map fst xs)" "distinct (map fst xs)" "sorted (map fst ys)" "distinct (map fst ys)"
    and "map_of xs = map_of ys"
  shows "xs = ys"
proof -
  have "set xs = set ys" using assms by (metis map_of_eq_Some_iff subrelI subset_antisym)
  then show ?thesis using assms
    by (metis distinct_map map_sorted_distinct_set_unique sup.idem)
qed

lemma has_prefix_append: "has_prefix s p \<longleftrightarrow> (\<exists>t. s = p @ t)"
  by (metis append_eq_conv_conj append_take_drop_id has_prefix_def)

lemma has_prefix_same [simp]: "has_prefix (p @ s) p"
  by (auto simp: has_prefix_append)

lemma append_less_same [simp]: "(p @ a < p @ b) = (a < (b :: string))"
  by (induction p) auto

lemma append_le_same [simp]: "(p @ a \<le> p @ b) = (a \<le> (b :: string))"
  by (induction p) auto

lemma le_append: "p \<le> p @ (s :: string)"
  using append_le_same [of p "[]" s] by simp

lemma prefix_convex:
  assumes "p \<le> x" "x \<le> y" "has_prefix y p"
  shows "has_prefix x (p :: string)"
  using assms
proof (induction p arbitrary: x y)
  case (Cons c p)
  then obtain y' where y: "y = c # y'" by (cases y) (auto simp: has_prefix_def)
  obtain x' where x: "x = c # x'" using Cons.prems(1,2) y by (cases x) auto
  have "has_prefix x' p" using Cons.IH [of x' y'] Cons.prems x y by (simp add: has_prefix_def)
  then show ?case by (simp add: x has_prefix_def)
qed (simp add: has_prefix_def)

lemma dropWhile_sorted:
  assumes "sorted (map fst xs)"
  shows "dropWhile (\<lambda>i. fst i < k) xs = filter (\<lambda>i. k \<le> fst i) xs"
  using assms by (induction xs) (auto intro!: filter_True [symmetric])

lemma dropWhile_rsorted:
  assumes "sorted (map fst xs)"
  shows "dropWhile (\<lambda>i. k < fst i) (rev xs) = filter (\<lambda>i. fst i \<le> k) (rev xs)"
  using assms
proof (induction xs rule: rev_induct)
  case (snoc x xs)
  then show ?case by (auto simp: sorted_append not_less intro!: filter_True [symmetric] intro: order_trans)
qed simp

lemma takeWhile_prefix:
  assumes "sorted (map fst xs)" "\<forall>i \<in> set xs. p \<le> fst i"
  shows "takeWhile (\<lambda>i. has_prefix (fst i) p) xs = filter (\<lambda>i. has_prefix (fst i) p) xs"
  using assms
proof (induction xs)
  case (Cons i xs)
  then show ?case by (auto intro!: filter_False [symmetric] dest: prefix_convex)
qed simp

lemma scan_prefix_filter:
  assumes "kv_laws K"
  shows "scan_prefix K d p = filter (\<lambda>i. has_prefix (fst i) p) (kv_items K d)"
proof -
  have s: "sorted (map fst (filter (\<lambda>i. p \<le> fst i) (kv_items K d)))"
    using kv_simps(4) [OF assms] by (rule sorted_filter)
  have le: "has_prefix k p \<Longrightarrow> p \<le> k" for k by (auto simp: has_prefix_append le_append)
  show ?thesis
    unfolding scan_prefix_def seek_up_def dropWhile_sorted [OF kv_simps(4) [OF assms]]
    by (subst takeWhile_prefix [OF s]) (auto intro: filter_cong dest: le)
qed

text \<open>A scan depends only on the keys with its prefix, and a new greatest key goes to its end.\<close>

lemma scan_keys:
  assumes "kv_laws K"
  shows "sorted (map fst (scan_prefix K d p))" "distinct (map fst (scan_prefix K d p))"
    "map_of (scan_prefix K d p) k = (if has_prefix k p then kv_get K d k else None)"
proof -
  show "sorted (map fst (scan_prefix K d p))" unfolding scan_prefix_filter [OF assms]
    using kv_simps(4) [OF assms] by (rule sorted_filter)
  show "distinct (map fst (scan_prefix K d p))" unfolding scan_prefix_filter [OF assms]
    using kv_simps(5) [OF assms, of d] by (simp add: distinct_map_filter)
  have "map_of (filter (\<lambda>i. has_prefix (fst i) p) xs) k = (if has_prefix k p then map_of xs k else None)"
    for xs :: "(string \<times> string) list" by (induction xs) auto
  then show "map_of (scan_prefix K d p) k = (if has_prefix k p then kv_get K d k else None)"
    by (simp add: scan_prefix_filter [OF assms] kv_simps(3) [OF assms])
qed

lemma scan_eqI:
  assumes "kv_laws K" "sorted (map fst xs)" "distinct (map fst xs)"
    and "\<And>k. map_of xs k = (if has_prefix k p then kv_get K d k else None)"
  shows "scan_prefix K d p = xs"
  by (rule sorted_items_unique [OF scan_keys(1,2) [OF assms(1)] assms(2,3)], rule ext)
    (simp add: scan_keys [OF assms(1)] assms(4))

lemma scan_frame:
  assumes "kv_laws K" "\<And>k. has_prefix k p \<Longrightarrow> kv_get K d k = kv_get K d' k"
  shows "scan_prefix K d p = scan_prefix K d' p"
  by (rule scan_eqI [OF assms(1) scan_keys(1,2) [OF assms(1)]]) (simp add: scan_keys [OF assms(1)] assms(2))

lemma scan_set_last:
  assumes "kv_laws K" "has_prefix k p" "\<forall>i \<in> set (scan_prefix K d p). fst i < k"
    and "\<And>k'. has_prefix k' p \<Longrightarrow> kv_get K d' k' = (if k' = k then Some v else kv_get K d k')"
  shows "scan_prefix K d' p = scan_prefix K d p @ [(k, v)]"
proof (rule scan_eqI [OF assms(1)])
  show "sorted (map fst (scan_prefix K d p @ [(k, v)]))" "distinct (map fst (scan_prefix K d p @ [(k, v)]))"
    using assms(3) scan_keys(1,2) [OF assms(1), of d p] by (fastforce simp: sorted_append)+
  have "kv_get K d k = None"
    using assms(2,3) scan_keys(3) [OF assms(1), of d p k]
    by (cases "kv_get K d k") (auto dest!: map_of_SomeD)
  then show "map_of (scan_prefix K d p @ [(k, v)]) k' = (if has_prefix k' p then kv_get K d' k' else None)" for k'
    using assms(2,4) by (auto simp: scan_keys(3) [OF assms(1)] map_add_def split: option.splits)
qed

section \<open>Codecs\<close>

text \<open>
  encoding/json at a type: Marshal, Unmarshal into a zero variable, and what an Unmarshal that
  fails leaves in the variable.
\<close>

record 'a codec =
  encode :: "'a \<Rightarrow> string option"
  decode :: "string \<Rightarrow> 'a option"
  residue :: "string \<Rightarrow> 'a"

definition decode_into :: "'a codec \<Rightarrow> string \<Rightarrow> 'a" where
  "decode_into C v = (case decode C v of Some x \<Rightarrow> x | None \<Rightarrow> residue C v)"

definition reads_back :: "'a codec \<Rightarrow> 'a \<Rightarrow> bool" where
  "reads_back C x \<longleftrightarrow> (case encode C x of None \<Rightarrow> False | Some v \<Rightarrow> decode C v = Some x)"

text \<open>A codec of one value, for samples.\<close>

definition fixed_codec :: "'a \<Rightarrow> 'a codec" where
  "fixed_codec x = \<lparr>encode = (\<lambda>_. Some ''x''), decode = (\<lambda>_. Some x), residue = (\<lambda>_. x)\<rparr>"

lemma reads_backE: "reads_back C x \<Longrightarrow> (\<And>v. encode C x = Some v \<Longrightarrow> decode C v = Some x \<Longrightarrow> P) \<Longrightarrow> P"
  by (auto simp: reads_back_def split: option.splits)

section \<open>Counters\<close>

text \<open>binary.BigEndian on eight bytes.\<close>

definition put_uint64 :: "64 word \<Rightarrow> string" where
  "put_uint64 w = map (\<lambda>i. char_of (unat (take_bit 8 (drop_bit (8 * i) w)))) [7, 6, 5, 4, 3, 2, 1, 0]"

definition get_uint64 :: "string \<Rightarrow> 64 word" where
  "get_uint64 v = foldr or (map (\<lambda>i. push_bit (8 * (7 - i)) (of_nat (char_code (v ! i)))) [0, 1, 2, 3, 4, 5, 6, 7]) 0"

lemma length_put_uint64 [simp]: "length (put_uint64 w) = 8"
  by (simp add: put_uint64_def)

lemma byte_code: "of_nat (char_code (char_of (unat (take_bit 8 (w :: 64 word))))) = take_bit 8 w"
proof -
  have "unat (take_bit 8 w) < 256" using take_bit_nat_less_exp [of 8 "unat w"] by (simp add: unsigned_take_bit_eq)
  then show ?thesis by (simp add: char_code_def of_char_of)
qed

lemma bit_foldr_or: "bit (foldr or (map f is) 0) n \<longleftrightarrow> (\<exists>i \<in> set is. bit (f i :: 64 word) n)"
  by (induction "is") (simp_all add: bit_or_iff)

lemma put_uint64_nth:
  assumes "i < 8"
  shows "put_uint64 w ! i = char_of (unat (take_bit 8 (drop_bit (8 * (7 - i)) w)))"
proof -
  have "i = 0 \<or> i = 1 \<or> i = 2 \<or> i = 3 \<or> i = 4 \<or> i = 5 \<or> i = 6 \<or> i = 7" using assms by arith
  then show ?thesis by (elim disjE) (simp_all add: put_uint64_def)
qed

lemma bit_get_put:
  assumes "i < 8" "n < 64"
  shows "bit (push_bit (8 * (7 - i)) (of_nat (char_code (put_uint64 w ! i))) :: 64 word) n \<longleftrightarrow>
    8 * (7 - i) \<le> n \<and> n - 8 * (7 - i) < 8 \<and> bit w n"
  using assms by (auto simp: put_uint64_nth byte_code bit_push_bit_iff bit_take_bit_iff bit_drop_bit_eq)

lemma get_put_uint64 [simp]: "get_uint64 (put_uint64 w) = w"
proof (rule bit_word_eqI)
  fix n assume "n < LENGTH(64)"
  then have n: "n < 64" by simp
  have "bit (get_uint64 (put_uint64 w)) n \<longleftrightarrow> (\<exists>i \<in> {..<8}. 8 * (7 - i) \<le> n \<and> n - 8 * (7 - i) < 8 \<and> bit w n)"
  proof -
    have "set [0, 1, 2, 3, 4, 5, 6, 7 :: nat] = {..<8}" by auto
    then show ?thesis unfolding get_uint64_def bit_foldr_or using bit_get_put [OF _ n] by (metis lessThan_iff)
  qed
  moreover have "\<exists>i \<in> {..<8}. 8 * (7 - i) \<le> n \<and> n - 8 * (7 - i) < 8"
    by (rule bexI [of _ "7 - n div 8"]) (use n in auto)
  ultimately show "bit (get_uint64 (put_uint64 w)) n \<longleftrightarrow> bit w n" by blast
qed

text \<open>A counter under a key: absent or of another length, it counts as 0.\<close>

definition read_counter :: "string option \<Rightarrow> 64 word" where
  "read_counter vo = (case vo of None \<Rightarrow> 0 | Some v \<Rightarrow> if length v = 8 then get_uint64 v else 0)"

lemma read_counter_put [simp]: "read_counter (Some (put_uint64 w)) = w"
  by (simp add: read_counter_def)

section \<open>Zero-padded decimals, hexadecimals\<close>

definition hex_digit :: "nat \<Rightarrow> char" where
  "hex_digit n = (if n < 10 then digit_char n else char_of (87 + n))"

definition hex_encode :: "string \<Rightarrow> string" where
  "hex_encode s = concat (map (\<lambda>c. [hex_digit (char_code c div 16), hex_digit (char_code c mod 16)]) s)"

definition pad_int :: "nat \<Rightarrow> int \<Rightarrow> string" where
  "pad_int w n =
     (let ds = show_nat (nat \<bar>n\<bar>); sign = (if n < 0 then ''-'' else [])
      in sign @ replicate (w - length sign - length ds) (CHR ''0'') @ ds)"

fun fixed_digits :: "nat \<Rightarrow> nat \<Rightarrow> string" where
  "fixed_digits 0 n = []"
| "fixed_digits (Suc w) n = fixed_digits w (n div 10) @ [digit_char (n mod 10)]"

lemma length_fixed_digits [simp]: "length (fixed_digits w n) = w"
  by (induction w arbitrary: n) simp_all

lemma digit_zero: "digit_char 0 = CHR ''0''"
  by code_simp

lemma fixed_digits_zero: "fixed_digits w 0 = replicate w (CHR ''0'')"
  by (induction w) (simp_all add: digit_zero replicate_append_same)

lemma fixed_digits_show: "0 < w \<Longrightarrow> n < 10 ^ w \<Longrightarrow> fixed_digits w n = replicate (w - length (show_nat n)) (CHR ''0'') @ show_nat n"
proof (induction w arbitrary: n)
  case (Suc w)
  show ?case
  proof (cases "n < 10")
    case True
    then show ?thesis by (simp add: show_nat.simps [of n] fixed_digits_zero)
  next
    case False
    then have "0 < w" using Suc.prems(2) by (cases w) auto
    moreover have "n div 10 < 10 ^ w" using Suc.prems(2) by auto
    ultimately show ?thesis using Suc.IH [of "n div 10"] False by (simp add: show_nat.simps [of n])
  qed
qed simp

lemma pad_int_fixed: "0 < w \<Longrightarrow> 0 \<le> n \<Longrightarrow> n < 10 ^ w \<Longrightarrow> pad_int w n = fixed_digits w (nat n)"
  by (simp add: pad_int_def fixed_digits_show nat_less_iff Let_def)

lemma snoc_less: "length a = length b \<Longrightarrow> (a @ [x] < b @ [y]) = (a < b \<or> a = b \<and> x < (y :: char))"
  by (induction a b rule: list_induct2) auto

lemma digit_char_less: "m < 10 \<Longrightarrow> n < 10 \<Longrightarrow> (digit_char m < digit_char n) = (m < n)"
  by (simp add: digit_char_def less_char_def of_char_of)

lemma mixed_less: "x < 10 \<Longrightarrow> y < 10 \<Longrightarrow> (a * 10 + x < b * 10 + y) = (a < b \<or> a = b \<and> x < (y :: nat))"
  by arith

lemma fixed_digits_less: "m < 10 ^ w \<Longrightarrow> n < 10 ^ w \<Longrightarrow> (fixed_digits w m < fixed_digits w n) = (m < n)"
proof (induction w arbitrary: m n)
  case (Suc w)
  have d: "m div 10 < 10 ^ w" "n div 10 < 10 ^ w" using Suc.prems by auto
  have e: "fixed_digits w (m div 10) = fixed_digits w (n div 10) \<longleftrightarrow> m div 10 = n div 10"
    using Suc.IH [OF d] Suc.IH [OF d(2,1)] by (metis less_irrefl nat_neq_iff)
  have "(m < n) = (m div 10 < n div 10 \<or> m div 10 = n div 10 \<and> m mod 10 < n mod 10)"
    using mixed_less [of "m mod 10" "n mod 10" "m div 10" "n div 10"] by simp
  moreover have "(fixed_digits (Suc w) m < fixed_digits (Suc w) n) =
      (m div 10 < n div 10 \<or> m div 10 = n div 10 \<and> m mod 10 < n mod 10)"
    unfolding fixed_digits.simps by (subst snoc_less) (simp_all add: Suc.IH [OF d] e digit_char_less)
  ultimately show ?case by blast
qed simp

lemma pad_int_less:
  assumes "0 < w" "0 \<le> m" "m < 10 ^ w" "0 \<le> n" "n < 10 ^ w"
  shows "(pad_int w m < pad_int w n) = (m < n)"
proof -
  have "nat m < 10 ^ w" "nat n < 10 ^ w" using assms by (simp_all add: nat_less_iff)
  then show ?thesis using assms by (auto simp: pad_int_fixed fixed_digits_less)
qed

end
