(* ===== verification/BadgerLog.thy ===== *)
theory BadgerLog
imports KV Journal
begin

text \<open>
  The session log of store/badger.go: Append with its hash chain and its retries, the version
  counter of a session, the history and its pages, the stored explanations. SHA-256 and the
  outcome of each commit are parameters, and so is what other writers do between two attempts.
\<close>

section \<open>Versions\<close>

datatype store_error = MarshalFailed | UnmarshalFailed | KeyNotFound | TxnConflict | TxnFailed | Refused string

definition session_version_key :: "string \<Rightarrow> string" where
  "session_version_key sid = ''s:'' @ sid @ '':version''"

definition bump_session_version :: "'db kv \<Rightarrow> string \<Rightarrow> 'db \<Rightarrow> 'db" where
  "bump_session_version K sid d =
     (if sid = [] then d
      else kv_set K (session_version_key sid)
             (put_uint64 (read_counter (kv_get K d (session_version_key sid)) + 1)) d)"

definition get_session_version :: "'db kv \<Rightarrow> string \<Rightarrow> 'db \<Rightarrow> int" where
  "get_session_version K sid d = sint (read_counter (kv_get K d (session_version_key sid)))"

section \<open>Appending\<close>

definition history_key :: "string \<Rightarrow> int \<Rightarrow> string" where
  "history_key sid ns = ''s:'' @ sid @ '':h:'' @ pad_int 20 ns"

definition chain_key :: "string \<Rightarrow> int \<Rightarrow> string" where
  "chain_key sid ns = ''s:'' @ sid @ '':hchain:'' @ pad_int 20 ns"

definition head_key :: "string \<Rightarrow> string" where
  "head_key sid = ''s:'' @ sid @ '':hchain:head''"

definition append_body :: "'db kv \<Rightarrow> (string \<Rightarrow> string) \<Rightarrow> string \<Rightarrow> int \<Rightarrow> string \<Rightarrow> 'db \<Rightarrow> 'db" where
  "append_body K sha sid ns val d =
     (let d1 = kv_set K (history_key sid ns) val d;
          prev = (case kv_get K d1 (head_key sid) of None \<Rightarrow> [] | Some v \<Rightarrow> v);
          sum = sha (prev @ val)
      in bump_session_version K sid (kv_set K (head_key sid) sum (kv_set K (chain_key sid ns) sum d1)))"

datatype commit = Committed | Conflict | CommitFailed

fun append_attempts ::
  "(nat \<Rightarrow> commit) \<Rightarrow> (nat \<Rightarrow> 'db \<Rightarrow> 'db) \<Rightarrow> ('db \<Rightarrow> 'db) \<Rightarrow> nat \<Rightarrow> nat \<Rightarrow> 'db \<Rightarrow> 'db \<times> store_error option" where
  "append_attempts commits others body n 0 d = (d, Some TxnConflict)"
| "append_attempts commits others body n (Suc left) d =
     (case commits n of
        Committed \<Rightarrow> (body d, None)
      | Conflict \<Rightarrow> append_attempts commits others body (Suc n) left (others n d)
      | CommitFailed \<Rightarrow> (d, Some TxnFailed))"

text \<open>The clock reading is in nanoseconds; the entry's own timestamp in milliseconds.\<close>

definition entry_at :: "int \<Rightarrow> journal_entry \<Rightarrow> journal_entry" where
  "entry_at ns en = (if je_timestamp en = 0 then en\<lparr>je_timestamp := ns div 1000000\<rparr> else en)"

definition badger_append ::
  "'db kv \<Rightarrow> journal_entry codec \<Rightarrow> (string \<Rightarrow> string) \<Rightarrow> (nat \<Rightarrow> commit) \<Rightarrow> (nat \<Rightarrow> 'db \<Rightarrow> 'db) \<Rightarrow> int \<Rightarrow>
     journal_entry \<Rightarrow> 'db \<Rightarrow> 'db \<times> store_error option" where
  "badger_append K C sha commits others ns en d =
     (case encode C (entry_at ns en) of
        None \<Rightarrow> (d, Some MarshalFailed)
      | Some val \<Rightarrow> append_attempts commits others (append_body K sha (je_session en) ns val) 0 6 d)"

section \<open>Reading\<close>

definition history_prefix :: "string \<Rightarrow> string" where
  "history_prefix sid = ''s:'' @ sid @ '':h:''"

text \<open>An entry that does not decode ends the reading; what was read is returned with the error.\<close>

fun decode_history :: "'a codec \<Rightarrow> (string \<times> string) list \<Rightarrow> 'a list \<times> store_error option" where
  "decode_history C [] = ([], None)"
| "decode_history C ((k, v) # is) =
     (case decode C v of
        None \<Rightarrow> ([], Some UnmarshalFailed)
      | Some x \<Rightarrow> (x # fst (decode_history C is), snd (decode_history C is)))"

definition get_session_history ::
  "'db kv \<Rightarrow> journal_entry codec \<Rightarrow> string \<Rightarrow> 'db \<Rightarrow> journal_entry list \<times> store_error option" where
  "get_session_history K C sid d = decode_history C (scan_prefix K d (history_prefix sid))"

definition get_session_history_after ::
  "'db kv \<Rightarrow> journal_entry codec \<Rightarrow> string \<Rightarrow> int \<Rightarrow> 'db \<Rightarrow> journal_entry list \<times> store_error option" where
  "get_session_history_after K C sid after d =
     (case get_session_history K C sid d of
        (h, Some err) \<Rightarrow> ([], Some err)
      | (h, None) \<Rightarrow> (if after \<le> 0 then h else filter (\<lambda>en. after < je_timestamp en) h, None))"

text \<open>Here an entry that does not decode is passed over.\<close>

definition decoded :: "'a codec \<Rightarrow> (string \<times> string) list \<Rightarrow> 'a list" where
  "decoded C is = List.map_filter (\<lambda>i. decode C (snd i)) is"

definition get_session_history_before ::
  "'db kv \<Rightarrow> journal_entry codec \<Rightarrow> string \<Rightarrow> int \<Rightarrow> 'db \<Rightarrow> journal_entry list" where
  "get_session_history_before K C sid before d =
     filter (\<lambda>en. je_timestamp en \<le> before) (decoded C (scan_prefix K d (history_prefix sid)))"

definition get_session_history_chain_head :: "'db kv \<Rightarrow> string \<Rightarrow> 'db \<Rightarrow> string option" where
  "get_session_history_chain_head K sid d = map_option hex_encode (kv_get K d (head_key sid))"

text \<open>A page: the loop over a downward iterator, and the key at which the next page starts.\<close>

definition next_key :: "string \<Rightarrow> (string \<times> string) list \<Rightarrow> string" where
  "next_key p is = (case is of [] \<Rightarrow> [] | (k, v) # _ \<Rightarrow> if has_prefix k p then k else [])"

fun page_walk ::
  "'a codec \<Rightarrow> ('a \<Rightarrow> string \<Rightarrow> bool) \<Rightarrow> ((string \<times> string) list \<Rightarrow> string) \<Rightarrow> string \<Rightarrow> nat \<Rightarrow> (string \<times> string) list \<Rightarrow>
     'a list \<times> string" where
  "page_walk C keep nxt p n [] = ([], [])"
| "page_walk C keep nxt p n ((k, v) # is) =
     (if \<not> has_prefix k p then ([], [])
      else (case decode C v of
          None \<Rightarrow> page_walk C keep nxt p n is
        | Some x \<Rightarrow>
            if \<not> keep x v then page_walk C keep nxt p n is
            else if n \<le> 1 then ([x], nxt is)
            else (x # fst (page_walk C keep nxt p (n - 1) is), snd (page_walk C keep nxt p (n - 1) is))))"

definition page_limit :: "int \<Rightarrow> int \<Rightarrow> int \<Rightarrow> nat" where
  "page_limit most usual limit = nat (if limit \<le> 0 \<or> most < limit then usual else limit)"

definition page_seek :: "string \<Rightarrow> string \<Rightarrow> string" where
  "page_seek p cursor = (if cursor = [] then p @ [CHR 0xFF] else cursor)"

definition history_keep :: "int \<Rightarrow> int \<Rightarrow> string \<Rightarrow> string \<Rightarrow> journal_entry \<Rightarrow> string \<Rightarrow> bool" where
  "history_keep from_ms to_ms typ q en raw \<longleftrightarrow>
     \<not> (from_ms \<noteq> 0 \<and> je_timestamp en < from_ms) \<and> \<not> (to_ms \<noteq> 0 \<and> to_ms < je_timestamp en) \<and>
     \<not> (typ \<noteq> [] \<and> je_type en \<noteq> typ) \<and> \<not> (q \<noteq> [] \<and> \<not> str_contains (to_lower raw) q)"

definition get_session_history_page ::
  "'db kv \<Rightarrow> journal_entry codec \<Rightarrow> string \<Rightarrow> string \<Rightarrow> int \<Rightarrow> int \<Rightarrow> int \<Rightarrow> string \<Rightarrow> string \<Rightarrow> 'db \<Rightarrow>
     journal_entry list \<times> string" where
  "get_session_history_page K C sid cursor limit from_ms to_ms typ q d =
     (let p = history_prefix sid
      in page_walk C (history_keep from_ms to_ms typ q) (next_key p) p (page_limit 500 100 limit)
           (seek_down K d (page_seek p cursor)))"

section \<open>Explanations\<close>

record explanation_record =
  xr_session :: string
  xr_timestamp :: int
  xr_content :: string
  xr_hash :: string
  xr_tampered :: bool

text \<open>sha stands for sha256Hash, the digest in hexadecimal.\<close>

definition explanation_key :: "string \<Rightarrow> int \<Rightarrow> string" where
  "explanation_key sid ns = ''explanations:'' @ sid @ '':'' @ pad_int 20 ns"

definition save_explanation ::
  "'db kv \<Rightarrow> explanation_record codec \<Rightarrow> (string \<Rightarrow> string) \<Rightarrow> int \<Rightarrow> string \<Rightarrow> string \<Rightarrow> 'db \<Rightarrow>
     store_error + explanation_record \<times> 'db" where
  "save_explanation K C sha ns sid content d =
     (let r = \<lparr>xr_session = sid, xr_timestamp = ns div 1000000, xr_content = content, xr_hash = sha content,
               xr_tampered = False\<rparr>
      in case encode C r of None \<Rightarrow> Inl MarshalFailed
         | Some val \<Rightarrow> Inr (r, kv_set K (explanation_key sid ns) val d))"

definition verify_explanation :: "(string \<Rightarrow> string) \<Rightarrow> explanation_record \<Rightarrow> explanation_record" where
  "verify_explanation sha r = (if sha (xr_content r) \<noteq> xr_hash r then r\<lparr>xr_tampered := True\<rparr> else r)"

definition get_session_explanations ::
  "'db kv \<Rightarrow> explanation_record codec \<Rightarrow> (string \<Rightarrow> string) \<Rightarrow> string \<Rightarrow> 'db \<Rightarrow> explanation_record list" where
  "get_session_explanations K C sha sid d =
     map (verify_explanation sha) (decoded C (scan_prefix K d (''explanations:'' @ sid @ '':'')))"

section \<open>One append\<close>

text \<open>A successful Append ran its transaction once, after conflicts only.\<close>

lemma append_attempts_once:
  "append_attempts commits others body n left d = (d', None) \<Longrightarrow>
     \<exists>m \<ge> n. m < n + left \<and> commits m = Committed \<and> (\<forall>i \<in> {n..<m}. commits i = Conflict) \<and>
       d' = body (fold others [n..<m] d)"
proof (induction left arbitrary: n d)
  case (Suc left)
  show ?case
  proof (cases "commits n")
    case Committed
    then show ?thesis using Suc.prems by (intro exI [of _ n]) simp
  next
    case Conflict
    then obtain m where m: "m \<ge> Suc n" "m < Suc n + left" "commits m = Committed"
      "\<forall>i \<in> {Suc n..<m}. commits i = Conflict" "d' = body (fold others [Suc n..<m] (others n d))"
      using Suc.IH [of "Suc n" "others n d"] Suc.prems by auto
    have "\<forall>i \<in> {n..<m}. commits i = Conflict"
      using m(4) Conflict by (metis Suc_leI atLeastLessThan_iff le_eq_less_or_eq)
    moreover have "fold others [n..<m] d = fold others [Suc n..<m] (others n d)"
      using m(1) by (simp add: upt_conv_Cons)
    ultimately show ?thesis using m by (intro exI [of _ m]) simp
  qed (use Suc.prems in simp)
qed simp

lemma append_attempts_failed:
  "append_attempts commits others body n left d = (d', Some err) \<Longrightarrow>
     \<exists>m \<ge> n. m \<le> n + left \<and> d' = fold others [n..<m] d \<and> (\<forall>i \<in> {n..<m}. commits i = Conflict)"
proof (induction left arbitrary: n d)
  case (Suc left)
  show ?case
  proof (cases "commits n")
    case Conflict
    then obtain m where m: "m \<ge> Suc n" "m \<le> Suc n + left" "d' = fold others [Suc n..<m] (others n d)"
      "\<forall>i \<in> {Suc n..<m}. commits i = Conflict"
      using Suc.IH [of "Suc n" "others n d"] Suc.prems by auto
    have "\<forall>i \<in> {n..<m}. commits i = Conflict"
      using m(4) Conflict by (metis Suc_leI atLeastLessThan_iff le_eq_less_or_eq)
    moreover have "fold others [n..<m] d = fold others [Suc n..<m] (others n d)"
      using m(1) by (simp add: upt_conv_Cons)
    ultimately show ?thesis using m by (intro exI [of _ m]) simp
  qed (use Suc.prems in auto)
qed auto

section \<open>The keys of a session\<close>

definition colon_free :: "string \<Rightarrow> bool" where
  "colon_free s \<longleftrightarrow> CHR '':'' \<notin> set s"

lemma colon_split:
  "colon_free a \<Longrightarrow> colon_free b \<Longrightarrow> (a @ CHR '':'' # x = b @ CHR '':'' # y) = (a = b \<and> x = y)"
proof (induction a arbitrary: b)
  case Nil
  then show ?case by (cases b) (auto simp: colon_free_def)
next
  case (Cons c a)
  then show ?case by (cases b) (auto simp: colon_free_def)
qed

lemma key_split:
  "colon_free a \<Longrightarrow> colon_free b \<Longrightarrow> (''s:'' @ a @ CHR '':'' # x = ''s:'' @ b @ CHR '':'' # y) = (a = b \<and> x = y)"
  by (simp add: colon_split)

lemma history_prefixed:
  assumes "colon_free a" "colon_free b"
  shows "has_prefix (''s:'' @ a @ CHR '':'' # x) (history_prefix b) \<longleftrightarrow> a = b \<and> has_prefix x ''h:''"
  using assms by (auto simp: has_prefix_append history_prefix_def colon_split)

lemma keys_other:
  assumes "colon_free a" "colon_free b"
  shows "has_prefix (history_key a ns) (history_prefix b) \<longleftrightarrow> a = b"
    "\<not> has_prefix (chain_key a ns) (history_prefix b)" "\<not> has_prefix (head_key a) (history_prefix b)"
    "\<not> has_prefix (session_version_key a) (history_prefix b)"
    "head_key a = head_key b \<longleftrightarrow> a = b" "session_version_key a = session_version_key b \<longleftrightarrow> a = b"
    "history_key a ns \<noteq> head_key b" "history_key a ns \<noteq> session_version_key b"
    "chain_key a ns \<noteq> session_version_key b" "head_key a \<noteq> session_version_key b"
  using assms history_prefixed [OF assms]
  by (simp_all add: history_key_def chain_key_def head_key_def session_version_key_def colon_split has_prefix_def)

lemma pad_head: "\<exists>c s. pad_int w n = c # s \<and> c \<noteq> CHR ''h''"
proof (cases "n < 0")
  case True
  then show ?thesis by (simp add: pad_int_def Let_def)
next
  case False
  define p where "p = pad_int w n"
  have "list_all is_digit p" "p \<noteq> []"
    using show_nat_digits [of "nat n"] False
    by (auto simp: p_def pad_int_def Let_def list_all_iff is_digit_def char_code_def)
  then obtain c s where "p = c # s" "is_digit c" by (cases p) auto
  then show ?thesis by (auto simp: p_def is_digit_def char_code_def)
qed

lemma chain_head_key: "colon_free a \<Longrightarrow> colon_free b \<Longrightarrow> chain_key a ns \<noteq> head_key b"
  using pad_head [of 20 ns] by (auto simp: chain_key_def head_key_def colon_split)

section \<open>The log of a session\<close>

definition chain :: "(string \<Rightarrow> string) \<Rightarrow> string list \<Rightarrow> string" where
  "chain sha vs = foldl (\<lambda>h v. sha (h @ v)) [] vs"

text \<open>The database holds, for a session, a list of values under their clock readings.\<close>

definition log_at :: "'db kv \<Rightarrow> (string \<Rightarrow> string) \<Rightarrow> string \<Rightarrow> (int \<times> string) list \<Rightarrow> 'db \<Rightarrow> bool" where
  "log_at K sha sid ys d \<longleftrightarrow>
     scan_prefix K d (history_prefix sid) = map (\<lambda>(ns, v). (history_key sid ns, v)) ys \<and>
     (sid \<noteq> [] \<longrightarrow> read_counter (kv_get K d (session_version_key sid)) = of_nat (length ys)) \<and>
     kv_get K d (head_key sid) = (if ys = [] then None else Some (chain sha (map snd ys)))"

lemma append_body_get:
  assumes "kv_laws K" "colon_free sid"
  shows "kv_get K (append_body K sha sid ns val d) k =
    (if k = session_version_key sid \<and> sid \<noteq> [] then Some (put_uint64 (read_counter (kv_get K d k) + 1))
     else if k = head_key sid then Some (sha ((case kv_get K d k of None \<Rightarrow> [] | Some v \<Rightarrow> v) @ val))
     else if k = chain_key sid ns then Some (sha ((case kv_get K d (head_key sid) of None \<Rightarrow> [] | Some v \<Rightarrow> v) @ val))
     else if k = history_key sid ns then Some val else kv_get K d k)"
proof (cases "sid = []")
  case True
  have f: "colon_free []" by (simp add: colon_free_def)
  show ?thesis unfolding True
    by (simp add: append_body_def bump_session_version_def Let_def assms(1) keys_other [OF f f] chain_head_key [OF f f]
        keys_other(7-10) [OF f f, THEN not_sym] chain_head_key [OF f f, THEN not_sym])
next
  case False
  then show ?thesis
    by (simp add: append_body_def bump_session_version_def Let_def assms(1) keys_other [OF assms(2,2)]
        chain_head_key [OF assms(2,2)] keys_other(7-10) [OF assms(2,2), THEN not_sym]
        chain_head_key [OF assms(2,2), THEN not_sym])
qed

lemma log_at_append:
  assumes K: "kv_laws K" and free: "colon_free sid" "colon_free sid'" and log: "log_at K sha sid ys d"
    and new: "sid' = sid \<longrightarrow> 0 \<le> ns \<and> ns < 10 ^ 20 \<and> (\<forall>(t, v) \<in> set ys. 0 \<le> t \<and> t < ns)"
  shows "log_at K sha sid (if sid' = sid then ys @ [(ns, val)] else ys) (append_body K sha sid' ns val d)"
proof (cases "sid' = sid")
  case False
  have "scan_prefix K (append_body K sha sid' ns val d) (history_prefix sid) = scan_prefix K d (history_prefix sid)"
    by (rule scan_frame [OF K]) (use keys_other [OF free(2,1)] False in \<open>auto simp: append_body_get [OF K free(2)]\<close>)
  moreover have "kv_get K (append_body K sha sid' ns val d) (session_version_key sid) = kv_get K d (session_version_key sid)"
    "kv_get K (append_body K sha sid' ns val d) (head_key sid) = kv_get K d (head_key sid)"
    using False
    by (simp_all add: append_body_get [OF K free(2)] keys_other [OF free] keys_other [OF free(2,1)] chain_head_key [OF free(2,1)]
        keys_other(7-10) [OF free(2,1), THEN not_sym] chain_head_key [OF free(2,1), THEN not_sym])
  ultimately show ?thesis using log False by (simp add: log_at_def)
next
  case True
  have scan: "scan_prefix K d (history_prefix sid) = map (\<lambda>(ns, v). (history_key sid ns, v)) ys"
    using log by (simp add: log_at_def)
  have "fst i < history_key sid ns" if i: "i \<in> set (scan_prefix K d (history_prefix sid))" for i
  proof -
    obtain t v where tv: "(t, v) \<in> set ys" "fst i = history_key sid t" using i scan by auto
    then have "0 \<le> t \<and> t < ns" "0 \<le> ns \<and> ns < 10 ^ 20" using new True by auto
    then have "pad_int 20 t < pad_int 20 ns" by (subst pad_int_less) auto
    then show ?thesis using tv(2) by (simp add: history_key_def)
  qed
  then have "scan_prefix K (append_body K sha sid ns val d) (history_prefix sid) =
      scan_prefix K d (history_prefix sid) @ [(history_key sid ns, val)]"
    by (intro scan_set_last [OF K]) (use keys_other [OF free(1,1)] in \<open>auto simp: append_body_get [OF K free(1)]\<close>)
  then show ?thesis
    using log True keys_other [OF free(1,1)]
    by (auto simp: log_at_def append_body_get [OF K free(1)] chain_def split: if_splits)
qed

section \<open>A run of appends\<close>

text \<open>Appends of any sessions, in the order of their commits, none of them contended.\<close>

fun append_run ::
  "'db kv \<Rightarrow> journal_entry codec \<Rightarrow> (string \<Rightarrow> string) \<Rightarrow> (int \<times> journal_entry) list \<Rightarrow> 'db \<Rightarrow> 'db option" where
  "append_run K C sha [] d = Some d"
| "append_run K C sha ((ns, en) # xs) d =
     (case badger_append K C sha (\<lambda>_. Committed) (\<lambda>_ d. d) ns en d of
        (d', None) \<Rightarrow> append_run K C sha xs d' | _ \<Rightarrow> None)"

definition own_entries :: "string \<Rightarrow> (int \<times> journal_entry) list \<Rightarrow> (int \<times> journal_entry) list" where
  "own_entries sid xs = map (\<lambda>(ns, en). (ns, entry_at ns en)) (filter (\<lambda>(ns, en). je_session en = sid) xs)"

definition clock_ok :: "int \<Rightarrow> bool" where
  "clock_ok ns \<longleftrightarrow> 0 \<le> ns \<and> ns < 10 ^ 20"

definition ticking :: "(int \<times> journal_entry) list \<Rightarrow> bool" where
  "ticking xs \<longleftrightarrow> sorted_wrt (\<lambda>(s, a) (t, b). je_session a = je_session b \<longrightarrow> s < t) xs \<and>
     (\<forall>(ns, en) \<in> set xs. clock_ok ns \<and> colon_free (je_session en))"

lemma own_entries_Cons:
  "own_entries sid ((ns, en) # xs) = (if je_session en = sid then [(ns, entry_at ns en)] else []) @ own_entries sid xs"
  by (simp add: own_entries_def)

lemma log_run:
  assumes K: "kv_laws K" and free: "colon_free sid"
  shows "\<lbrakk>append_run K C sha xs d = Some d'; log_at K sha sid ys d; ticking xs;
      \<forall>(t, v) \<in> set ys. 0 \<le> t \<and> (\<forall>(ns, en) \<in> set xs. je_session en = sid \<longrightarrow> t < ns)\<rbrakk> \<Longrightarrow>
    log_at K sha sid (ys @ map (\<lambda>(ns, en). (ns, the (encode C en))) (own_entries sid xs)) d'"
proof (induction xs arbitrary: d ys)
  case (Cons x xs)
  obtain ns en where x: "x = (ns, en)" by (cases x)
  obtain val where val: "encode C (entry_at ns en) = Some val"
    "append_run K C sha xs (append_body K sha (je_session en) ns val d) = Some d'"
    using Cons.prems(1) by (auto simp: x badger_append_def eval_nat_numeral split: option.splits)
  let ?ys = "if je_session en = sid then ys @ [(ns, val)] else ys"
  have tick: "clock_ok ns" "colon_free (je_session en)" "ticking xs"
    "\<forall>(t, e) \<in> set xs. je_session e = je_session en \<longrightarrow> ns < t"
    using Cons.prems(3) by (auto simp: x ticking_def)
  have "log_at K sha sid ?ys (append_body K sha (je_session en) ns val d)"
    by (rule log_at_append [OF K free tick(2) Cons.prems(2)]) (use Cons.prems(4) tick(1) in \<open>auto simp: x clock_ok_def\<close>)
  moreover have "\<forall>(t, v) \<in> set ?ys. 0 \<le> t \<and> (\<forall>(ns, en) \<in> set xs. je_session en = sid \<longrightarrow> t < ns)"
    using Cons.prems(4) tick(1,4) by (auto simp: x clock_ok_def)
  ultimately have "log_at K sha sid (?ys @ map (\<lambda>(ns, en). (ns, the (encode C en))) (own_entries sid xs)) d'"
    using Cons.IH [OF val(2)] tick(3) by blast
  then show ?case by (simp add: x own_entries_Cons val(1) split: if_splits)
qed (simp add: own_entries_def)

lemma log_at_empty: "kv_laws K \<Longrightarrow> (\<And>k. kv_get K d k = None) \<Longrightarrow> log_at K sha sid [] d"
  by (simp add: log_at_def read_counter_def) (rule scan_eqI, simp_all)

lemma decode_log:
  "\<forall>(ns, en) \<in> set ys. reads_back C en \<Longrightarrow>
     decode_history C (map (\<lambda>(ns, v). (history_key sid ns, v)) (map (\<lambda>(ns, en). (ns, the (encode C en))) ys)) =
       (map snd ys, None)"
  by (induction ys) (auto elim!: reads_backE)

section \<open>Pages\<close>

definition kept :: "'a codec \<Rightarrow> ('a \<Rightarrow> string \<Rightarrow> bool) \<Rightarrow> (string \<times> string) list \<Rightarrow> 'a list" where
  "kept C keep is =
     List.map_filter (\<lambda>(k, v). case decode C v of None \<Rightarrow> None | Some x \<Rightarrow> if keep x v then Some x else None) is"

lemma kept_simps [simp]:
  "kept C keep [] = []"
  "kept C keep ((k, v) # is) =
     (case decode C v of None \<Rightarrow> [] | Some x \<Rightarrow> if keep x v then [x] else []) @ kept C keep is"
  by (simp_all add: kept_def List.map_filter_simps split: option.splits)

text \<open>A walk splits its items: those it read, and those at whose first key the next page starts.\<close>

lemma page_walk_spec:
  "page_walk C keep (next_key p) p n is = (out, nxt) \<Longrightarrow>
     \<exists>is1 is2. is = is1 @ is2 \<and> (\<forall>i \<in> set is1. has_prefix (fst i) p) \<and> out = kept C keep is1 \<and>
       nxt = next_key p is2 \<and> (is1 = [] \<longrightarrow> nxt = []) \<and> length out \<le> max n 1 \<and> (nxt \<noteq> [] \<longrightarrow> length out = max n 1)"
proof (induction "is" arbitrary: n out)
  case (Cons i js)
  obtain k v where i: "i = (k, v)" by (cases i)
  have step: ?case
    if walk: "page_walk C keep (next_key p) p m js = (out', nxt)" and more: "has_prefix k p" "out = kept C keep [i] @ out'"
      "max n 1 = length (kept C keep [i]) + max m 1" for m out'
  proof -
    obtain is1 is2 where "js = is1 @ is2" "\<forall>i \<in> set is1. has_prefix (fst i) p" "out' = kept C keep is1"
      "nxt = next_key p is2" "length out' \<le> max m 1 \<and> (nxt \<noteq> [] \<longrightarrow> length out' = max m 1)"
      using Cons.IH [OF walk] by metis
    then show ?thesis using more by (intro exI [of _ "i # is1"] exI [of _ is2]) (simp add: i)
  qed
  consider "\<not> has_prefix k p" | "has_prefix k p" "kept C keep [i] = []"
    | x where "has_prefix k p" "decode C v = Some x" "keep x v" "n \<le> 1"
    | x where "has_prefix k p" "decode C v = Some x" "keep x v" "\<not> n \<le> 1"
    by (cases "has_prefix k p"; cases "decode C v"; cases "keep (the (decode C v)) v"; cases "n \<le> 1") (auto simp: i)
  then show ?case
  proof cases
    case 1
    then show ?thesis using Cons.prems by (intro exI [of _ "[]"] exI [of _ "i # js"]) (simp add: i next_key_def)
  next
    case 2
    then have "page_walk C keep (next_key p) p n js = (out, nxt)"
      using Cons.prems by (auto simp: i split: option.splits if_splits)
    then show ?thesis using step [of n out] 2 by simp
  next
    case 3
    then show ?thesis using Cons.prems by - (rule exI [of _ "[i]"], rule exI [of _ js], auto simp: i)
  next
    case 4
    obtain out' where out: "page_walk C keep (next_key p) p (n - 1) js = (out', nxt)" "out = x # out'"
      using Cons.prems 4 by (auto simp: i prod_eq_iff)
    show ?thesis by (rule step [OF out(1) 4(1)]) (use 4 out(2) in \<open>simp_all add: i\<close>)
  qed
qed (simp add: next_key_def)

lemma next_key_Some: "p \<noteq> [] \<Longrightarrow> next_key p is \<noteq> [] \<longleftrightarrow> (\<exists>v js. is = (next_key p is, v) # js \<and> has_prefix (next_key p is) p)"
  by (cases "is") (auto simp: next_key_def has_prefix_def split: if_splits)

lemma seek_down_at:
  assumes "kv_laws K" "rev (kv_items K d) = A @ (k, v) # B"
  shows "seek_down K d k = (k, v) # B"
proof -
  have items: "kv_items K d = rev B @ (k, v) # rev A" using arg_cong [OF assms(2), of rev] by simp
  have "\<forall>i \<in> set A. k < fst i"
  proof
    fix i assume "i \<in> set A"
    moreover have "\<forall>i \<in> set A. k \<le> fst i" "k \<notin> fst ` set A"
      using kv_simps(4,5) [OF assms(1), of d] unfolding items by (simp_all add: sorted_append)
    ultimately show "k < fst i" by (auto simp: order_less_le)
  qed
  then show ?thesis by (simp add: seek_down_def assms(2) dropWhile_append2)
qed

text \<open>The pages from a cursor on, one after the other.\<close>

fun follow_pages :: "(string \<Rightarrow> 'a list \<times> string) \<Rightarrow> nat \<Rightarrow> string \<Rightarrow> 'a list" where
  "follow_pages page 0 cursor = []"
| "follow_pages page (Suc f) cursor =
     fst (page cursor) @ (if snd (page cursor) = [] then [] else follow_pages page f (snd (page cursor)))"

lemma follow_pages_all:
  assumes K: "kv_laws K" and p: "p \<noteq> []"
    and page: "\<And>c. page c = page_walk C keep (next_key p) p n (seek_down K d (page_seek p c))"
  shows "rev (kv_items K d) = A @ seek_down K d (page_seek p c) \<Longrightarrow>
    length (takeWhile (\<lambda>i. has_prefix (fst i) p) (seek_down K d (page_seek p c))) < f \<Longrightarrow>
    follow_pages page f c = kept C keep (takeWhile (\<lambda>i. has_prefix (fst i) p) (seek_down K d (page_seek p c)))"
proof (induction f arbitrary: c A)
  case (Suc f)
  let ?s = "seek_down K d (page_seek p c)"
  obtain out nxt where w: "page c = (out, nxt)" by (cases "page c")
  obtain is1 is2 where sp: "?s = is1 @ is2" "\<forall>i \<in> set is1. has_prefix (fst i) p" "out = kept C keep is1"
    "nxt = next_key p is2" "is1 = [] \<longrightarrow> nxt = []"
    using page_walk_spec [of C keep p n ?s out nxt] w page by auto
  have tw: "takeWhile (\<lambda>i. has_prefix (fst i) p) ?s = is1 @ takeWhile (\<lambda>i. has_prefix (fst i) p) is2"
    using sp(1,2) by simp
  have app: "kept C keep (xs @ ys) = kept C keep xs @ kept C keep ys" for xs ys by (induction xs) auto
  show ?case
  proof (cases "nxt = []")
    case True
    then have "takeWhile (\<lambda>i. has_prefix (fst i) p) is2 = []"
      using sp(4) p by (auto simp: next_key_def has_prefix_def split: list.splits if_splits)
    then show ?thesis using True tw by (simp add: w sp(3))
  next
    case False
    then obtain v js where is2: "is2 = (nxt, v) # js" "has_prefix nxt p" using next_key_Some [OF p, of is2] sp(4) by auto
    have sd: "seek_down K d nxt = is2" unfolding is2(1)
      by (rule seek_down_at [OF K, where A = "A @ is1"]) (use Suc.prems(1) sp(1) is2 in simp)
    have ps: "page_seek p nxt = nxt" using False by (simp add: page_seek_def)
    have "follow_pages page f nxt = kept C keep (takeWhile (\<lambda>i. has_prefix (fst i) p) is2)"
    proof -
      have "is1 \<noteq> []" using sp(5) False by blast
      then have "0 < length is1" by simp
      then have "length (takeWhile (\<lambda>i. has_prefix (fst i) p) is2) < f"
        using Suc.prems(2) unfolding tw length_append by linarith
      moreover have "rev (kv_items K d) = (A @ is1) @ is2" using Suc.prems(1) sp(1) by simp
      ultimately show ?thesis using Suc.IH [of "A @ is1" nxt] by (simp only: ps sd)
    qed
    then show ?thesis using False tw by (simp add: w sp(3) app)
  qed
qed simp

lemma seek_first:
  assumes K: "kv_laws K" and last: "\<forall>i \<in> set (scan_prefix K d p). fst i \<le> p @ [CHR 0xFF]"
  shows "takeWhile (\<lambda>i. has_prefix (fst i) p) (seek_down K d (page_seek p [])) = rev (scan_prefix K d p)"
    "\<exists>A. rev (kv_items K d) = A @ seek_down K d (page_seek p [])"
proof -
  let ?P = "\<lambda>i. has_prefix (fst i) p" and ?q = "p @ [CHR 0xFF]"
  have down: "seek_down K d ?q = rev (filter (\<lambda>i. fst i \<le> ?q) (kv_items K d))"
    by (simp add: seek_down_def dropWhile_rsorted [OF kv_simps(4) [OF K]] rev_filter)
  have tw: "takeWhile ?P (rev xs) = rev (filter ?P xs)"
    if "sorted (map fst xs)" "\<forall>i \<in> set xs. fst i \<le> ?q" for xs :: "(string \<times> string) list"
    using that
  proof (induction xs rule: rev_induct)
    case (snoc x xs)
    have "filter ?P xs = []" if "\<not> ?P x"
    proof -
      have "\<not> ?P y" if "y \<in> set xs" for y
      proof
        assume "?P y"
        then have "p \<le> fst y" by (auto simp: has_prefix_append le_append)
        then have "p \<le> fst x" using snoc.prems(1) that by (force simp: sorted_append)
        moreover have "fst x \<le> ?q" using snoc.prems(2) by simp
        ultimately show False using prefix_convex [of p "fst x" ?q] \<open>\<not> ?P x\<close> by simp
      qed
      then show ?thesis by simp
    qed
    then show ?case using snoc by (auto simp: sorted_append)
  qed simp
  have "sorted (map fst (filter (\<lambda>i. fst i \<le> ?q) (kv_items K d)))"
    using kv_simps(4) [OF K] by (rule sorted_filter)
  then have "takeWhile ?P (seek_down K d ?q) = rev (filter ?P (filter (\<lambda>i. fst i \<le> ?q) (kv_items K d)))"
    unfolding down by (rule tw) simp
  also have "filter ?P (filter (\<lambda>i. fst i \<le> ?q) (kv_items K d)) = scan_prefix K d p"
    using last unfolding scan_prefix_filter [OF K] by (auto simp: filter_filter intro!: filter_cong)
  finally show "takeWhile ?P (seek_down K d (page_seek p [])) = rev (scan_prefix K d p)" by (simp add: page_seek_def)
  show "\<exists>A. rev (kv_items K d) = A @ seek_down K d (page_seek p [])"
    by (metis seek_down_def takeWhile_dropWhile_id)
qed

section \<open>The chain\<close>

definition collision :: "(string \<Rightarrow> string) \<Rightarrow> bool" where
  "collision sha \<longleftrightarrow> (\<exists>x y. x \<noteq> y \<and> sha x = sha y)"

lemma chain_snoc: "chain sha (vs @ [v]) = sha (chain sha vs @ v)"
  by (simp add: chain_def)

lemma chain_inject:
  assumes "length vs = length ws" "chain sha vs = chain sha ws" "\<forall>x y. length (sha x) = length (sha y)"
  shows "vs = ws \<or> collision sha"
  using assms
proof (induction vs ws rule: rev_induct2)
  case (4 v vs w ws)
  have "length (chain sha vs) = length (chain sha ws)"
    using "4.prems"(1,3) by (cases vs rule: rev_cases; cases ws rule: rev_cases) (simp_all add: chain_snoc)
  then have "chain sha vs @ v = chain sha ws @ w \<longleftrightarrow> chain sha vs = chain sha ws \<and> v = w" by simp
  moreover have "chain sha vs @ v = chain sha ws @ w" if "\<not> collision sha"
    using that "4.prems"(2) by (simp only: chain_snoc collision_def) blast
  ultimately show ?case using "4.IH" "4.prems"(1,3) by auto
qed simp_all

end
