(* ===== verification/LogProperties.thy ===== *)
theory LogProperties
imports BadgerLog
begin

text \<open>The properties of the session log.\<close>

section \<open>The log\<close>

text \<open>
  C17: The session log refines a list of entries for each session: after any appends of any
  sessions, the history of a session is its own entries in the order of the appends, stamped with
  the clock where they had no time, its version counts them modulo 2 to the 64, and the head of its
  hash chain is the hash of all of them. Session identifiers must have no colon, and the clock must
  not give one session the same nanosecond twice.
\<close>

theorem log_refines:
  assumes "kv_laws K" "\<forall>k. kv_get K d k = None" "append_run K C sha xs d = Some d'" "ticking xs"
    and "colon_free sid" "sid \<noteq> []" "\<forall>(ns, en) \<in> set (own_entries sid xs). reads_back C en"
  shows "get_session_history K C sid d' = (map snd (own_entries sid xs), None) \<and>
    get_session_version K sid d' = sint (of_nat (length (own_entries sid xs)) :: 64 word) \<and>
    get_session_history_chain_head K sid d' =
      (if own_entries sid xs = [] then None
       else Some (hex_encode (chain sha (map (\<lambda>(ns, en). the (encode C en)) (own_entries sid xs)))))"
proof -
  have log: "log_at K sha sid (map (\<lambda>(ns, en). (ns, the (encode C en))) (own_entries sid xs)) d'"
    using log_run [OF assms(1,5,3) log_at_empty [OF assms(1)] assms(4)] assms(2) by simp
  then show ?thesis
    using decode_log [OF assms(7), of sid] assms(6)
    by (simp add: log_at_def get_session_history_def get_session_version_def get_session_history_chain_head_def
        split_def o_def)
qed

definition log_codec :: "journal_entry codec" where
  "log_codec = \<lparr>encode = (\<lambda>en. Some (je_session en @ '','' @ je_fact_id en)),
     decode = (\<lambda>v. Some ((blank_entry EventInvalidate (take 1 v))\<lparr>je_fact_id := drop 2 v, je_timestamp := 1\<rparr>)),
     residue = (\<lambda>_. blank_entry [] [])\<rparr>"

definition log_entry :: "string \<Rightarrow> string \<Rightarrow> journal_entry" where
  "log_entry sid i = (blank_entry EventInvalidate sid)\<lparr>je_fact_id := i, je_timestamp := 1\<rparr>"

definition log_sample :: "(int \<times> journal_entry) list" where
  "log_sample = [(9, log_entry ''s'' ''A''), (10, log_entry ''t'' ''B''), (11, log_entry ''s'' ''C'')]"

definition len_hash :: "string \<Rightarrow> string" where
  "len_hash v = [char_of (length v), char_of (fold (\<lambda>c n. n + char_code c) v 0)]"

lemma log_sample_runs: "append_run assoc_kv log_codec len_hash log_sample [] \<noteq> None"
  by code_simp

lemma log_refines_witness:
  "\<exists>d'. append_run assoc_kv log_codec len_hash log_sample [] = Some d' \<and>
     get_session_history assoc_kv log_codec ''s'' d' = ([log_entry ''s'' ''A'', log_entry ''s'' ''C''], None) \<and>
     get_session_version assoc_kv ''s'' d' = 2"
proof -
  obtain d' where d': "append_run assoc_kv log_codec len_hash log_sample [] = Some d'"
    using log_sample_runs by blast
  have own: "map snd (own_entries ''s'' log_sample) = [log_entry ''s'' ''A'', log_entry ''s'' ''C'']"
    by (simp add: own_entries_def log_sample_def log_entry_def blank_entry_def entry_at_def)
  have "get_session_history assoc_kv log_codec ''s'' d' = (map snd (own_entries ''s'' log_sample), None) \<and>
      get_session_version assoc_kv ''s'' d' = sint (of_nat (length (own_entries ''s'' log_sample)) :: 64 word) \<and>
      get_session_history_chain_head assoc_kv ''s'' d' =
        (if own_entries ''s'' log_sample = [] then None
         else Some (hex_encode (chain len_hash (map (\<lambda>(ns, en). the (encode log_codec en)) (own_entries ''s'' log_sample)))))"
    by (rule log_refines [OF assoc_kv_laws _ d'])
      (simp_all add: assoc_kv_def ticking_def log_sample_def clock_ok_def log_entry_def colon_free_def own_entries_def
        blank_entry_def entry_at_def reads_back_def log_codec_def)
  moreover have "length (own_entries ''s'' log_sample) = 2" using arg_cong [OF own, of length] by simp
  ultimately show ?thesis using d' own by simp
qed

text \<open>
  C18: An Append that succeeds has run its transaction exactly once, on what the other
  writers had left after its conflicts, at most five of them. An Append that fails has written
  nothing of its own.
\<close>

theorem append_at_most_once:
  assumes "badger_append K C sha commits others ns en d = (d', err)"
  shows "case err of
      None \<Rightarrow> \<exists>m val. m < 6 \<and> encode C (entry_at ns en) = Some val \<and> commits m = Committed \<and>
        (\<forall>i < m. commits i = Conflict) \<and> d' = append_body K sha (je_session en) ns val (fold others [0..<m] d)
    | Some _ \<Rightarrow> \<exists>m \<le> 6. d' = fold others [0..<m] d"
proof (cases "encode C (entry_at ns en)")
  case None
  then show ?thesis using assms by (auto simp: badger_append_def intro!: exI [of _ 0])
next
  case (Some val)
  then have att: "append_attempts commits others (append_body K sha (je_session en) ns val) 0 6 d = (d', err)"
    using assms by (simp add: badger_append_def)
  show ?thesis
  proof (cases err)
    case None
    then show ?thesis using append_attempts_once [OF att [unfolded None]] Some by auto
  next
    case err: (Some x)
    then show ?thesis using append_attempts_failed [OF att [unfolded err]] by auto
  qed
qed

lemma append_at_most_once_witness:
  "\<exists>d' err. badger_append assoc_kv log_codec len_hash (\<lambda>n. if n < 2 then Conflict else Committed) (\<lambda>n. AList.update ''k'' [])
       7 (log_entry ''s'' ''A'') [] = (d', err) \<and> err = None \<and> kv_get assoc_kv d' ''k'' = Some [] \<and>
     (\<exists>m val. m < 6 \<and> encode log_codec (entry_at 7 (log_entry ''s'' ''A'')) = Some val \<and>
        d' = append_body assoc_kv len_hash ''s'' 7 val (fold (\<lambda>n. AList.update ''k'' []) [0..<m] []))"
proof -
  obtain d' err where r: "badger_append assoc_kv log_codec len_hash (\<lambda>n. if n < 2 then Conflict else Committed)
      (\<lambda>n. AList.update ''k'' []) 7 (log_entry ''s'' ''A'') [] = (d', err)" by fastforce
  have "snd (badger_append assoc_kv log_codec len_hash (\<lambda>n. if n < 2 then Conflict else Committed)
      (\<lambda>n. AList.update ''k'' []) 7 (log_entry ''s'' ''A'') []) = None \<and>
    kv_get assoc_kv (fst (badger_append assoc_kv log_codec len_hash (\<lambda>n. if n < 2 then Conflict else Committed)
      (\<lambda>n. AList.update ''k'' []) 7 (log_entry ''s'' ''A'') [])) ''k'' = Some []" by code_simp
  then have e: "err = None" "kv_get assoc_kv d' ''k'' = Some []" by (simp_all add: r)
  then show ?thesis using append_at_most_once [OF r] r by (auto simp: log_entry_def blank_entry_def)
qed

section \<open>Tampering\<close>

lemma hex_digit_inject:
  assumes "m < 16" "n < 16" "hex_digit m = hex_digit n"
  shows "m = n"
proof -
  have code: "char_code (hex_digit k) = (if k < 10 then 48 + k else 87 + k)" if "k < 16" for k
  proof (cases "k < 10")
    case True
    then show ?thesis by (simp add: hex_digit_def code_digit_char)
  next
    case False
    then show ?thesis using that by (simp add: hex_digit_def char_code_def of_char_of)
  qed
  have "(if m < 10 then 48 + m else 87 + m) = (if n < 10 then 48 + n else 87 + n)"
    unfolding code [OF assms(1), symmetric] code [OF assms(2), symmetric] assms(3) ..
  then show ?thesis by (simp split: if_splits)
qed

lemma hex_encode_inject: "hex_encode s = hex_encode t \<Longrightarrow> s = t"
proof (induction s arbitrary: t)
  case Nil
  then show ?case by (cases t) (simp_all add: hex_encode_def)
next
  case (Cons c s)
  then obtain c' t' where t: "t = c' # t'" by (cases t) (simp_all add: hex_encode_def)
  have lt: "char_code x div 16 < 16 \<and> char_code x mod 16 < 16" for x
    using nat_of_char_less_256 [of x] by (auto simp: char_code_def less_mult_imp_div_less)
  have "char_code c div 16 = char_code c' div 16" "char_code c mod 16 = char_code c' mod 16"
    and e: "hex_encode s = hex_encode t'"
    using Cons.prems hex_digit_inject lt [of c] lt [of c'] by (auto simp: t hex_encode_def)
  then have "char_code c = char_code c'" by (metis div_mult_mod_eq)
  then have "c = c'" by (simp add: char_code_def)
  then show ?case using Cons.IH [OF e] t by simp
qed


definition fixed_hash :: "string \<Rightarrow> string" where
  "fixed_hash v = [char_of (fold (\<lambda>c n. n + char_code c) v 0)]"


section \<open>Pages\<close>

text \<open>
  C20: Following the cursors of GetSessionHistoryPage from the start gives every entry of
  the session that decodes and passes the filter exactly once, newest key first, whatever the page
  size, provided no key of the session is above the seek key, which holds for the keys Append makes.
\<close>

theorem history_pages_complete:
  assumes "kv_laws K" "\<forall>i \<in> set (scan_prefix K d (history_prefix sid)). fst i \<le> history_prefix sid @ [CHR 0xFF]"
    and "length (scan_prefix K d (history_prefix sid)) < f"
  shows "follow_pages (\<lambda>c. get_session_history_page K C sid c limit from_ms to_ms typ q d) f [] =
    kept C (history_keep from_ms to_ms typ q) (rev (scan_prefix K d (history_prefix sid)))"
proof -
  have ne: "history_prefix sid \<noteq> []" by (simp add: history_prefix_def)
  obtain A where "rev (kv_items K d) = A @ seek_down K d (page_seek (history_prefix sid) [])"
    using seek_first(2) [OF assms(1,2)] by blast
  then show ?thesis
    using follow_pages_all [OF assms(1) ne, where page = "\<lambda>c. get_session_history_page K C sid c limit from_ms to_ms typ q d"
        and c = "[]" and f = f] assms(3) seek_first(1) [OF assms(1,2)]
    by (simp add: get_session_history_page_def Let_def)
qed

lemma history_pages_complete_witness:
  "\<exists>d. append_run assoc_kv log_codec len_hash log_sample [] = Some d \<and>
     follow_pages (\<lambda>c. get_session_history_page assoc_kv log_codec ''s'' c 1 0 0 [] [] d) 9 [] =
       kept log_codec (history_keep 0 0 [] []) (rev (scan_prefix assoc_kv d (history_prefix ''s''))) \<and>
     length (scan_prefix assoc_kv d (history_prefix ''s'')) = 2"
proof -
  have c: "case append_run assoc_kv log_codec len_hash log_sample [] of None \<Rightarrow> False
    | Some d \<Rightarrow> list_all (\<lambda>i. fst i \<le> history_prefix ''s'' @ [CHR 0xFF]) (scan_prefix assoc_kv d (history_prefix ''s'')) \<and>
        length (scan_prefix assoc_kv d (history_prefix ''s'')) = 2"
    by code_simp
  then obtain d where d: "append_run assoc_kv log_codec len_hash log_sample [] = Some d"
    "\<forall>i \<in> set (scan_prefix assoc_kv d (history_prefix ''s'')). fst i \<le> history_prefix ''s'' @ [CHR 0xFF]"
    "length (scan_prefix assoc_kv d (history_prefix ''s'')) = 2"
    by (auto simp: list_all_iff split: option.splits)
  then show ?thesis using history_pages_complete [OF assoc_kv_laws d(2), of 9] by simp
qed

section \<open>Sessions that share keys\<close>

text \<open>
  An entry appended to the session "a:h:x", whoever owns it, is in the key range that
  the history of session "a" reads, so it is part of that history and is replayed into its engine.
\<close>

theorem history_alias:
  assumes "kv_laws K" "badger_append K C sha commits others ns en d = (d', None)" "je_session en = sid @ '':h:'' @ t"
  shows "\<exists>val. encode C (entry_at ns en) = Some val \<and>
    (history_key (je_session en) ns, val) \<in> set (scan_prefix K d' (history_prefix sid))"
proof -
  obtain val where val: "encode C (entry_at ns en) = Some val"
    using assms(2) by (cases "encode C (entry_at ns en)") (simp_all add: badger_append_def)
  then obtain d0 where d': "d' = append_body K sha (je_session en) ns val d0"
    using append_attempts_once [of commits others "append_body K sha (je_session en) ns val" 0 6 d d'] assms(2)
    by (auto simp: badger_append_def)
  have "history_key s ns \<noteq> session_version_key s" "history_key s ns \<noteq> head_key s" "history_key s ns \<noteq> chain_key s ns" for s
    by (simp_all add: history_key_def session_version_key_def head_key_def chain_key_def)
  then have "kv_get K d' (history_key (je_session en) ns) = Some val"
    by (simp add: d' append_body_def bump_session_version_def Let_def assms(1))
  moreover have "has_prefix (history_key (je_session en) ns) (history_prefix sid)"
    by (simp add: assms(3) history_key_def history_prefix_def has_prefix_append)
  ultimately have "map_of (scan_prefix K d' (history_prefix sid)) (history_key (je_session en) ns) = Some val"
    by (simp add: scan_keys(3) [OF assms(1)])
  then show ?thesis using val by (auto dest: map_of_SomeD)
qed

lemma history_alias_witness:
  "\<exists>d' val. badger_append assoc_kv log_codec len_hash (\<lambda>_. Committed) (\<lambda>_ d. d) 7 (log_entry ''a:h:b'' ''A'') [] = (d', None) \<and>
     (history_key ''a:h:b'' 7, val) \<in> set (scan_prefix assoc_kv d' (history_prefix ''a''))"
proof -
  obtain d' err where r: "badger_append assoc_kv log_codec len_hash (\<lambda>_. Committed) (\<lambda>_ d. d) 7 (log_entry ''a:h:b'' ''A'') [] =
      (d', err)" by fastforce
  have "snd (badger_append assoc_kv log_codec len_hash (\<lambda>_. Committed) (\<lambda>_ d. d) 7 (log_entry ''a:h:b'' ''A'') []) = None"
    by code_simp
  then have r': "badger_append assoc_kv log_codec len_hash (\<lambda>_. Committed) (\<lambda>_ d. d) 7 (log_entry ''a:h:b'' ''A'') [] = (d', None)"
    using r by simp
  have "je_session (log_entry ''a:h:b'' ''A'') = ''a'' @ '':h:'' @ ''b''" by (simp add: log_entry_def blank_entry_def)
  from history_alias [OF assoc_kv_laws r' this] show ?thesis using r' by (auto simp: log_entry_def blank_entry_def)
qed

end
