(* ===== verification/BadgerRecords.thy ===== *)
theory BadgerRecords
imports BadgerLog
begin

text \<open>
  The records of an organization in store/badger.go: settings of sessions, snapshots, users and
  their API keys, organizations, integrations, billing, invitations, tickets, policies, export jobs,
  idempotency records. Each is a JSON value under its key. The database transaction of every
  operation is one that commits; one that does not leaves the database as it was.
\<close>

section \<open>JSON values under keys\<close>

definition get_json :: "'db kv \<Rightarrow> 'a codec \<Rightarrow> string \<Rightarrow> 'db \<Rightarrow> store_error + 'a" where
  "get_json K C k d =
     (case kv_get K d k of
        None \<Rightarrow> Inl KeyNotFound
      | Some v \<Rightarrow> (case decode C v of None \<Rightarrow> Inl UnmarshalFailed | Some x \<Rightarrow> Inr x))"

definition put_json :: "'db kv \<Rightarrow> 'a codec \<Rightarrow> string \<Rightarrow> 'a \<Rightarrow> 'db \<Rightarrow> store_error + 'db" where
  "put_json K C k x d = (case encode C x of None \<Rightarrow> Inl MarshalFailed | Some v \<Rightarrow> Inr (kv_set K k v d))"

text \<open>The order of sort.Slice; equal elements, whose order Go leaves open, keep the order of their keys.\<close>

definition sort_desc :: "('a \<Rightarrow> 'k :: linorder) \<Rightarrow> 'a list \<Rightarrow> 'a list" where
  "sort_desc key xs = rev (sort_key key (rev xs))"

lemma get_put_json:
  assumes "kv_laws K" "put_json K C k x d = Inr d'" "reads_back C x"
  shows "get_json K C k d' = Inr x" "k' \<noteq> k \<Longrightarrow> kv_get K d' k' = kv_get K d k'"
  using assms by (auto simp: put_json_def get_json_def reads_back_def split: option.splits)

section \<open>Sessions\<close>

record session_config =
  cfg_schema :: string
  cfg_enforcement_mode :: string
  cfg_auto_retract :: bool

definition config_key :: "string \<Rightarrow> string" where
  "config_key sid = ''s:'' @ sid @ '':c''"

definition save_config :: "'db kv \<Rightarrow> 'c codec \<Rightarrow> string \<Rightarrow> 'c \<Rightarrow> 'db \<Rightarrow> store_error + 'db" where
  "save_config K C sid c d = map_sum id (bump_session_version K sid) (put_json K C (config_key sid) c d)"

text \<open>GetConfig returns the variable along with the error.\<close>

definition get_config :: "'db kv \<Rightarrow> session_config codec \<Rightarrow> string \<Rightarrow> 'db \<Rightarrow> store_error + session_config" where
  "get_config K C sid d = get_json K C (config_key sid) d"

definition snapshot_key :: "string \<Rightarrow> string" where
  "snapshot_key sid = ''s:'' @ sid @ '':snap''"

definition save_snapshot :: "'db kv \<Rightarrow> 's codec \<Rightarrow> string \<Rightarrow> 's \<Rightarrow> 'db \<Rightarrow> store_error + 'db" where
  "save_snapshot K C sid s d = map_sum id (bump_session_version K sid) (put_json K C (snapshot_key sid) s d)"

definition get_latest_snapshot :: "'db kv \<Rightarrow> 's codec \<Rightarrow> string \<Rightarrow> 'db \<Rightarrow> store_error + 's" where
  "get_latest_snapshot K C sid d = get_json K C (snapshot_key sid) d"

definition session_org_key :: "string \<Rightarrow> string" where
  "session_org_key sid = ''s:'' @ sid @ '':org''"

definition set_session_organization :: "'db kv \<Rightarrow> string \<Rightarrow> string \<Rightarrow> 'db \<Rightarrow> 'db" where
  "set_session_organization K sid oid d = bump_session_version K sid (kv_set K (session_org_key sid) oid d)"

definition get_session_organization :: "'db kv \<Rightarrow> string \<Rightarrow> 'db \<Rightarrow> string option" where
  "get_session_organization K sid d = kv_get K d (session_org_key sid)"

section \<open>Export jobs\<close>

record export_job =
  job_id :: string
  job_session :: string
  job_org :: string
  job_format :: string
  job_status :: string
  job_error :: string
  job_created_at :: int
  job_completed_at :: int
  job_content_type :: string
  job_filename :: string
  job_size :: int

definition export_job_key :: "string \<Rightarrow> string \<Rightarrow> string" where
  "export_job_key sid i = ''s:'' @ sid @ '':exportjob:'' @ i"

definition export_job_data_key :: "string \<Rightarrow> string \<Rightarrow> string" where
  "export_job_data_key sid i = ''s:'' @ sid @ '':exportjob:'' @ i @ '':data''"

definition save_export_job :: "'db kv \<Rightarrow> export_job codec \<Rightarrow> export_job \<Rightarrow> 'db \<Rightarrow> store_error + 'db" where
  "save_export_job K C j d = put_json K C (export_job_key (job_session j) (job_id j)) j d"

definition get_export_job :: "'db kv \<Rightarrow> export_job codec \<Rightarrow> string \<Rightarrow> string \<Rightarrow> 'db \<Rightarrow> store_error + export_job" where
  "get_export_job K C sid i d = get_json K C (export_job_key sid i) d"

definition finish_job :: "int \<Rightarrow> string \<Rightarrow> string \<Rightarrow> string \<Rightarrow> string \<Rightarrow> export_job \<Rightarrow> export_job" where
  "finish_job now ct fname data err j =
     (if err \<noteq> [] then j\<lparr>job_completed_at := now, job_status := ''error'', job_error := err\<rparr>
      else j\<lparr>job_completed_at := now, job_status := ''done'', job_content_type := ct, job_filename := fname,
             job_size := int (length data)\<rparr>)"

definition save_export_job_result ::
  "'db kv \<Rightarrow> export_job codec \<Rightarrow> int \<Rightarrow> string \<Rightarrow> string \<Rightarrow> string \<Rightarrow> string \<Rightarrow> string \<Rightarrow> string \<Rightarrow> 'db \<Rightarrow> store_error + 'db" where
  "save_export_job_result K C now sid i ct fname data err d =
     (case get_json K C (export_job_key sid i) d of
        Inl e \<Rightarrow> Inl e
      | Inr j \<Rightarrow> put_json K C (export_job_key sid i) (finish_job now ct fname data err j)
                  (if err \<noteq> [] then d else kv_set K (export_job_data_key sid i) data d))"

definition get_export_job_data :: "'db kv \<Rightarrow> string \<Rightarrow> string \<Rightarrow> 'db \<Rightarrow> store_error + string" where
  "get_export_job_data K sid i d =
     (case kv_get K d (export_job_data_key sid i) of None \<Rightarrow> Inl KeyNotFound | Some v \<Rightarrow> Inr v)"

definition has_suffix :: "string \<Rightarrow> string \<Rightarrow> bool" where
  "has_suffix s t \<longleftrightarrow> has_prefix (rev s) (rev t)"

definition list_export_jobs :: "'db kv \<Rightarrow> export_job codec \<Rightarrow> string \<Rightarrow> int \<Rightarrow> 'db \<Rightarrow> export_job list" where
  "list_export_jobs K C sid limit d =
     take (page_limit 200 50 limit)
       (sort_desc job_created_at
         (decoded C (filter (\<lambda>i. \<not> has_suffix (fst i) '':data'')
            (scan_prefix K d (''s:'' @ sid @ '':exportjob:'')))))"

section \<open>Users and keys\<close>

record api_key =
  key_raw :: string
  key_id :: string
  key_hash :: string
  key_prefix :: string
  key_last4 :: string
  key_label :: string
  key_created_at :: int
  key_last_used_at :: int
  key_expires_at :: int
  key_is_revoked :: bool
  key_scopes :: "string list"

record user =
  user_email :: string
  user_hashed_password :: string
  user_org :: string
  user_role :: string
  user_token_version :: int
  user_keys :: "api_key list"
  user_reset_token :: string
  user_reset_expiry :: int
  user_onboarding :: "(string \<times> bool) list option"

definition get_token_version :: "user option \<Rightarrow> int" where
  "get_token_version u = (case u of None \<Rightarrow> 0 | Some u \<Rightarrow> user_token_version u)"

definition get_user :: "'db kv \<Rightarrow> user codec \<Rightarrow> string \<Rightarrow> 'db \<Rightarrow> store_error + user" where
  "get_user K C email d = get_json K C (''u:'' @ email) d"

definition index_key :: "'db kv \<Rightarrow> string \<Rightarrow> api_key \<Rightarrow> 'db \<Rightarrow> 'db" where
  "index_key K email k d =
     (let h = (if key_hash k = [] then key_id k else key_hash k);
          act = (if key_is_revoked k then kv_delete K else (\<lambda>x. kv_set K x email));
          d1 = (if h \<noteq> [] then act (''kh:'' @ h) d else d)
      in if key_raw k \<noteq> [] then act (''k:'' @ key_raw k) d1 else d1)"

definition save_user :: "'db kv \<Rightarrow> user codec \<Rightarrow> user \<Rightarrow> 'db \<Rightarrow> store_error + 'db" where
  "save_user K C u d =
     map_sum id (\<lambda>d. kv_set K (''org:'' @ user_org u @ '':user:'' @ user_email u) [CHR 0x01]
                       (fold (index_key K (user_email u)) (user_keys u) d))
       (put_json K C (''u:'' @ user_email u) u d)"

definition list_org_users :: "'db kv \<Rightarrow> string \<Rightarrow> 'db \<Rightarrow> string list" where
  "list_org_users K oid d =
     (let p = ''org:'' @ oid @ '':user:''
      in sort (filter (\<lambda>e. e \<noteq> []) (map (\<lambda>i. trim_prefix (fst i) p) (scan_prefix K d p))))"

definition get_api_key_owner :: "'db kv \<Rightarrow> string \<Rightarrow> 'db \<Rightarrow> string option" where
  "get_api_key_owner K k d = kv_get K d (''k:'' @ k)"

definition save_api_key :: "'db kv \<Rightarrow> string \<Rightarrow> string \<Rightarrow> 'db \<Rightarrow> 'db" where
  "save_api_key K k email d = kv_set K (''k:'' @ k) email d"

definition get_api_key_owner_by_hash :: "'db kv \<Rightarrow> string \<Rightarrow> 'db \<Rightarrow> string option" where
  "get_api_key_owner_by_hash K h d = kv_get K d (''kh:'' @ h)"

definition save_api_key_hash :: "'db kv \<Rightarrow> string \<Rightarrow> string \<Rightarrow> 'db \<Rightarrow> 'db" where
  "save_api_key_hash K h email d = kv_set K (''kh:'' @ h) email d"

definition delete_api_key_hash :: "'db kv \<Rightarrow> string \<Rightarrow> 'db \<Rightarrow> 'db" where
  "delete_api_key_hash K h d = kv_delete K (''kh:'' @ h) d"

definition delete_api_key :: "'db kv \<Rightarrow> string \<Rightarrow> 'db \<Rightarrow> 'db" where
  "delete_api_key K k d = kv_delete K (''k:'' @ k) d"

definition validate_api_key :: "'db kv \<Rightarrow> string \<Rightarrow> 'db \<Rightarrow> bool" where
  "validate_api_key K k d \<longleftrightarrow> kv_get K d (''k:'' @ k) \<noteq> None"

text \<open>The window of a key, a list of times; a key without one has the empty window.\<close>

definition get_rate_limit :: "'db kv \<Rightarrow> int list codec \<Rightarrow> string \<Rightarrow> 'db \<Rightarrow> store_error + int list" where
  "get_rate_limit K C k d = (if kv_get K d (''rl:'' @ k) = None then Inr [] else get_json K C (''rl:'' @ k) d)"

definition save_rate_limit :: "'db kv \<Rightarrow> int list codec \<Rightarrow> string \<Rightarrow> int list \<Rightarrow> 'db \<Rightarrow> store_error + 'db" where
  "save_rate_limit K C k ts d = put_json K C (''rl:'' @ k) ts d"

end
