(* ===== verification/BadgerCatalog.thy ===== *)
theory BadgerCatalog
imports BadgerRecords Facts Dependencies "HOL-Library.Product_Lexorder"
begin

text \<open>
  The catalogue of an organization in store/badger.go: its settings, the index of its sessions,
  notifications, access log and activity, integrations, billing, invitations, tickets, policies,
  idempotency records, metrics, and the retention of old entries.
\<close>

section \<open>Organizations\<close>

record organization =
  org_id :: string
  org_name :: string
  org_created_at :: int
  org_suspended :: bool
  org_settings :: gobj

definition get_organization :: "'db kv \<Rightarrow> organization codec \<Rightarrow> string \<Rightarrow> 'db \<Rightarrow> store_error + organization" where
  "get_organization K C i d = get_json K C (''o:'' @ i) d"

definition save_organization :: "'db kv \<Rightarrow> organization codec \<Rightarrow> organization \<Rightarrow> 'db \<Rightarrow> store_error + 'db" where
  "save_organization K C x d = put_json K C (''o:'' @ org_id x) x d"

section \<open>The index of sessions\<close>

record org_session_meta =
  osm_id :: string
  osm_name :: string
  osm_description :: string
  osm_created_at :: int
  osm_last_activity :: int
  osm_fact_count :: int
  osm_archived :: bool

definition blank_meta :: org_session_meta where
  "blank_meta = \<lparr>osm_id = [], osm_name = [], osm_description = [], osm_created_at = 0, osm_last_activity = 0,
     osm_fact_count = 0, osm_archived = False\<rparr>"

definition session_index_key :: "string \<Rightarrow> string \<Rightarrow> string" where
  "session_index_key oid sid = ''org:'' @ oid @ '':sessions:'' @ sid"

text \<open>The errors of reading the old value are ignored: the variable keeps what was decoded.\<close>

definition read_meta :: "'db kv \<Rightarrow> org_session_meta codec \<Rightarrow> string \<Rightarrow> 'db \<Rightarrow> org_session_meta" where
  "read_meta K C k d = (case kv_get K d k of None \<Rightarrow> blank_meta | Some v \<Rightarrow> decode_into C v)"

definition upsert_org_session_index ::
  "'db kv \<Rightarrow> org_session_meta codec \<Rightarrow> string \<Rightarrow> string \<Rightarrow> int \<Rightarrow> 'db \<Rightarrow> store_error + 'db" where
  "upsert_org_session_index K C oid sid created d =
     (let k = session_index_key oid sid; m = read_meta K C k d;
          m' = (if osm_id m = []
                then blank_meta\<lparr>osm_id := sid, osm_created_at := created, osm_last_activity := created\<rparr> else m)
      in put_json K C k m' d)"

definition touch_org_session ::
  "'db kv \<Rightarrow> org_session_meta codec \<Rightarrow> int \<Rightarrow> string \<Rightarrow> string \<Rightarrow> int \<Rightarrow> 'db \<Rightarrow> store_error + 'db" where
  "touch_org_session K C now oid sid delta d =
     (let k = session_index_key oid sid; m = read_meta K C k d;
          m1 = (if osm_id m = [] then m\<lparr>osm_id := sid, osm_created_at := now\<rparr> else m)
      in put_json K C k (m1\<lparr>osm_last_activity := now, osm_fact_count := max 0 (osm_fact_count m1 + delta)\<rparr>) d)"

definition session_cursor :: "org_session_meta \<Rightarrow> string" where
  "session_cursor m = show_int (osm_last_activity m) @ '':'' @ osm_id m"

text \<open>A page starts after the session the cursor names, at the first one when there is none.\<close>

definition session_page :: "string \<Rightarrow> nat \<Rightarrow> org_session_meta list \<Rightarrow> org_session_meta list \<times> string" where
  "session_page cursor limit ms =
     (let rest = dropWhile (\<lambda>m. session_cursor m \<noteq> cursor) ms;
          from_here = (if cursor = [] \<or> rest = [] then ms else tl rest);
          page = take limit from_here
      in (page, if limit < length from_here \<and> page \<noteq> [] then session_cursor (last page) else []))"

definition list_org_sessions ::
  "'db kv \<Rightarrow> org_session_meta codec \<Rightarrow> string \<Rightarrow> string \<Rightarrow> int \<Rightarrow> 'db \<Rightarrow> org_session_meta list \<times> string" where
  "list_org_sessions K C oid cursor limit d =
     session_page cursor (page_limit 200 50 limit)
       (sort_desc (\<lambda>m. (osm_last_activity m, osm_id m))
         (filter (\<lambda>m. osm_id m \<noteq> [] \<and> \<not> osm_archived m) (decoded C (scan_prefix K d (''org:'' @ oid @ '':sessions:'')))))"

definition patch_org_session_meta ::
  "'db kv \<Rightarrow> org_session_meta codec \<Rightarrow> string \<Rightarrow> string \<Rightarrow> string \<Rightarrow> string \<Rightarrow> 'db \<Rightarrow> store_error + 'db" where
  "patch_org_session_meta K C oid sid name desc d =
     (let k = session_index_key oid sid
      in if kv_get K d k = None then Inl KeyNotFound
         else put_json K C k ((read_meta K C k d)\<lparr>osm_name := name, osm_description := desc\<rparr>) d)"

definition delete_org_session ::
  "'db kv \<Rightarrow> org_session_meta codec \<Rightarrow> string \<Rightarrow> string \<Rightarrow> 'db \<Rightarrow> store_error + 'db" where
  "delete_org_session K C oid sid d =
     (let k = session_index_key oid sid
      in if kv_get K d k = None then Inl KeyNotFound
         else put_json K C k ((read_meta K C k d)\<lparr>osm_archived := True\<rparr>) d)"

section \<open>Notifications, access log, activity\<close>

record notification =
  ntf_id :: string
  ntf_type :: string
  ntf_title :: string
  ntf_body :: string
  ntf_created_at :: int
  ntf_read_at :: int

definition notif_prefix :: "string \<Rightarrow> string" where
  "notif_prefix oid = ''org:'' @ oid @ '':notif:''"

definition save_notification :: "'db kv \<Rightarrow> notification codec \<Rightarrow> string \<Rightarrow> notification \<Rightarrow> 'db \<Rightarrow> store_error + 'db" where
  "save_notification K C oid n d =
     put_json K C (notif_prefix oid @ pad_int 20 (ntf_created_at n) @ '':'' @ ntf_id n) n d"

text \<open>Here the next cursor is the next key of the iterator, whatever its prefix.\<close>

definition first_key :: "(string \<times> string) list \<Rightarrow> string" where
  "first_key is = (case is of [] \<Rightarrow> [] | i # _ \<Rightarrow> fst i)"

definition list_notifications ::
  "'db kv \<Rightarrow> notification codec \<Rightarrow> string \<Rightarrow> string \<Rightarrow> int \<Rightarrow> 'db \<Rightarrow> notification list \<times> string" where
  "list_notifications K C oid cursor limit d =
     (let p = notif_prefix oid
      in page_walk C (\<lambda>_ _. True) first_key p (page_limit 200 50 limit) (seek_down K d (page_seek p cursor)))"

fun mark_first :: "'db kv \<Rightarrow> notification codec \<Rightarrow> int \<Rightarrow> string \<Rightarrow> (string \<times> string) list \<Rightarrow> 'db \<Rightarrow> store_error + 'db" where
  "mark_first K C now i [] d = Inl KeyNotFound"
| "mark_first K C now i ((k, v) # is) d =
     (case decode C v of
        None \<Rightarrow> mark_first K C now i is d
      | Some n \<Rightarrow>
          if ntf_id n \<noteq> i then mark_first K C now i is d
          else put_json K C k (if ntf_read_at n = 0 then n\<lparr>ntf_read_at := now\<rparr> else n) d)"

definition mark_notification_read :: "'db kv \<Rightarrow> notification codec \<Rightarrow> int \<Rightarrow> string \<Rightarrow> string \<Rightarrow> 'db \<Rightarrow> store_error + 'db" where
  "mark_notification_read K C now oid i d = mark_first K C now i (scan_prefix K d (notif_prefix oid)) d"

record access_log_entry =
  acc_id :: string
  acc_actor :: string
  acc_role :: string
  acc_method :: string
  acc_pattern :: string
  acc_path :: string
  acc_status :: int
  acc_duration_ms :: int
  acc_trace :: string
  acc_ip :: string
  acc_agent :: string
  acc_created_at :: int

definition access_prefix :: "string \<Rightarrow> string" where
  "access_prefix oid = ''org:'' @ oid @ '':access:''"

definition method_tag :: "string \<Rightarrow> string" where
  "method_tag m = (let t = hex_encode m in take 6 (t @ replicate (6 - length t) (CHR ''0'')))"

definition append_access_log ::
  "'db kv \<Rightarrow> access_log_entry codec \<Rightarrow> int \<Rightarrow> string \<Rightarrow> access_log_entry \<Rightarrow> 'db \<Rightarrow> store_error + 'db" where
  "append_access_log K C ns oid e d =
     (let e' = (if acc_created_at e = 0 then e\<lparr>acc_created_at := ns div 1000000\<rparr> else e)
      in put_json K C (access_prefix oid @ pad_int 20 ns @ '':'' @ method_tag (acc_method e')) e' d)"

definition list_access_logs_page ::
  "'db kv \<Rightarrow> access_log_entry codec \<Rightarrow> string \<Rightarrow> string \<Rightarrow> int \<Rightarrow> 'db \<Rightarrow> access_log_entry list \<times> string" where
  "list_access_logs_page K C oid cursor limit d =
     (let p = access_prefix oid
      in page_walk C (\<lambda>_ _. True) (next_key p) p (page_limit 500 100 limit) (seek_down K d (page_seek p cursor)))"

definition activity_prefix :: "string \<Rightarrow> string" where
  "activity_prefix oid = ''org:'' @ oid @ '':activity:''"

text \<open>None is the panic of the slice expression on an event type of less than three bytes.\<close>

definition append_org_activity ::
  "'db kv \<Rightarrow> journal_entry codec \<Rightarrow> int \<Rightarrow> string \<Rightarrow> journal_entry \<Rightarrow> 'db \<Rightarrow> (store_error + 'db) option" where
  "append_org_activity K C ns oid en d =
     (if encode C en = None then Some (Inl MarshalFailed)
      else if length (hex_encode (je_type en)) < 6 then None
      else Some (put_json K C (activity_prefix oid @ pad_int 20 ns @ '':'' @ take 6 (hex_encode (je_type en))) en d))"

definition list_org_activity_page ::
  "'db kv \<Rightarrow> journal_entry codec \<Rightarrow> string \<Rightarrow> string \<Rightarrow> int \<Rightarrow> 'db \<Rightarrow> journal_entry list \<times> string" where
  "list_org_activity_page K C oid cursor limit d =
     (let p = activity_prefix oid
      in page_walk C (\<lambda>_ _. True) (next_key p) p (page_limit 500 100 limit) (seek_down K d (page_seek p cursor)))"

section \<open>Integrations, billing, invitations, tickets, policies\<close>

record integration =
  int_id :: string
  int_name :: string
  int_kind :: string
  int_enabled :: bool
  int_config :: gobj
  int_created_at :: int
  int_updated_at :: int

definition integration_key :: "string \<Rightarrow> string \<Rightarrow> string" where
  "integration_key oid i = ''org:'' @ oid @ '':integration:'' @ i"

definition save_integration :: "'db kv \<Rightarrow> integration codec \<Rightarrow> string \<Rightarrow> integration \<Rightarrow> 'db \<Rightarrow> store_error + 'db" where
  "save_integration K C oid x d = put_json K C (integration_key oid (int_id x)) x d"

definition get_integration :: "'db kv \<Rightarrow> integration codec \<Rightarrow> string \<Rightarrow> string \<Rightarrow> 'db \<Rightarrow> store_error + integration" where
  "get_integration K C oid i d = get_json K C (integration_key oid i) d"

definition delete_integration :: "'db kv \<Rightarrow> string \<Rightarrow> string \<Rightarrow> 'db \<Rightarrow> 'db" where
  "delete_integration K oid i d = kv_delete K (integration_key oid i) d"

definition list_integrations :: "'db kv \<Rightarrow> integration codec \<Rightarrow> string \<Rightarrow> 'db \<Rightarrow> integration list" where
  "list_integrations K C oid d = decoded C (scan_prefix K d (''org:'' @ oid @ '':integration:''))"

record billing_subscription =
  bill_plan :: string
  bill_status :: string
  bill_email :: string
  bill_customer :: string
  bill_subscription :: string
  bill_period_end :: int
  bill_seats :: int
  bill_features :: "(string \<times> bool) list option"
  bill_metadata :: "(string \<times> string) list option"
  bill_updated_at :: int

definition billing_key :: "string \<Rightarrow> string" where
  "billing_key oid = ''org:'' @ oid @ '':billing''"

definition get_billing :: "'db kv \<Rightarrow> billing_subscription codec \<Rightarrow> string \<Rightarrow> 'db \<Rightarrow> store_error + billing_subscription" where
  "get_billing K C oid d = get_json K C (billing_key oid) d"

definition save_billing :: "'db kv \<Rightarrow> billing_subscription codec \<Rightarrow> string \<Rightarrow> billing_subscription \<Rightarrow> 'db \<Rightarrow> store_error + 'db" where
  "save_billing K C oid x d = put_json K C (billing_key oid) x d"

record invitation =
  inv_id :: string
  inv_email :: string
  inv_role :: string
  inv_token :: string
  inv_created_at :: int
  inv_expires_at :: int
  inv_accepted_at :: int
  inv_revoked_at :: int

definition invite_key :: "string \<Rightarrow> string \<Rightarrow> string" where
  "invite_key oid i = ''org:'' @ oid @ '':invite:'' @ i"

definition invite_token_key :: "string \<Rightarrow> string" where
  "invite_token_key t = ''invite:token:'' @ t"

definition save_invitation :: "'db kv \<Rightarrow> invitation codec \<Rightarrow> string \<Rightarrow> invitation \<Rightarrow> 'db \<Rightarrow> store_error + 'db" where
  "save_invitation K C oid x d =
     map_sum id (kv_set K (invite_token_key (inv_token x)) (oid @ '':'' @ inv_id x)) (put_json K C (invite_key oid (inv_id x)) x d)"

definition list_invitations :: "'db kv \<Rightarrow> invitation codec \<Rightarrow> string \<Rightarrow> 'db \<Rightarrow> invitation list" where
  "list_invitations K C oid d = sort_desc inv_created_at (decoded C (scan_prefix K d (''org:'' @ oid @ '':invite:'')))"

definition get_invitation :: "'db kv \<Rightarrow> invitation codec \<Rightarrow> string \<Rightarrow> string \<Rightarrow> 'db \<Rightarrow> store_error + invitation" where
  "get_invitation K C oid i d = get_json K C (invite_key oid i) d"

text \<open>The reference of a token is split at its first colon.\<close>

definition get_invitation_by_token ::
  "'db kv \<Rightarrow> invitation codec \<Rightarrow> string \<Rightarrow> 'db \<Rightarrow> store_error + string \<times> invitation" where
  "get_invitation_by_token K C t d =
     (case kv_get K d (invite_token_key t) of
        None \<Rightarrow> Inl KeyNotFound
      | Some r \<Rightarrow>
          (case dropWhile (\<lambda>c. c \<noteq> CHR '':'') r of
             [] \<Rightarrow> Inl (Refused ''corrupt invite token ref'')
           | _ # i \<Rightarrow> (let oid = takeWhile (\<lambda>c. c \<noteq> CHR '':'') r
                      in map_sum id (Pair oid) (get_invitation K C oid i d))))"

definition update_invitation :: "'db kv \<Rightarrow> invitation codec \<Rightarrow> string \<Rightarrow> invitation \<Rightarrow> 'db \<Rightarrow> store_error + 'db" where
  "update_invitation K C oid x d = put_json K C (invite_key oid (inv_id x)) x d"

record support_ticket =
  tkt_id :: string
  tkt_subject :: string
  tkt_body :: string
  tkt_status :: string
  tkt_created_at :: int
  tkt_updated_at :: int
  tkt_created_by :: string

definition ticket_key :: "string \<Rightarrow> string \<Rightarrow> string" where
  "ticket_key oid i = ''org:'' @ oid @ '':ticket:'' @ i"

definition save_ticket :: "'db kv \<Rightarrow> support_ticket codec \<Rightarrow> string \<Rightarrow> support_ticket \<Rightarrow> 'db \<Rightarrow> store_error + 'db" where
  "save_ticket K C oid x d = put_json K C (ticket_key oid (tkt_id x)) x d"

definition list_tickets :: "'db kv \<Rightarrow> support_ticket codec \<Rightarrow> string \<Rightarrow> 'db \<Rightarrow> support_ticket list" where
  "list_tickets K C oid d = sort_desc tkt_updated_at (decoded C (scan_prefix K d (''org:'' @ oid @ '':ticket:'')))"

definition get_ticket :: "'db kv \<Rightarrow> support_ticket codec \<Rightarrow> string \<Rightarrow> string \<Rightarrow> 'db \<Rightarrow> store_error + support_ticket" where
  "get_ticket K C oid i d = get_json K C (ticket_key oid i) d"

record policy =
  pol_id :: string
  pol_name :: string
  pol_enabled :: bool
  pol_rules :: gobj
  pol_created_at :: int
  pol_updated_at :: int

definition policy_key :: "string \<Rightarrow> string \<Rightarrow> string" where
  "policy_key oid i = ''org:'' @ oid @ '':policy:'' @ i"

definition save_policy :: "'db kv \<Rightarrow> policy codec \<Rightarrow> string \<Rightarrow> policy \<Rightarrow> 'db \<Rightarrow> store_error + 'db" where
  "save_policy K C oid x d = put_json K C (policy_key oid (pol_id x)) x d"

definition list_policies :: "'db kv \<Rightarrow> policy codec \<Rightarrow> string \<Rightarrow> 'db \<Rightarrow> policy list" where
  "list_policies K C oid d = sort_desc pol_updated_at (decoded C (scan_prefix K d (''org:'' @ oid @ '':policy:'')))"

definition delete_policy :: "'db kv \<Rightarrow> string \<Rightarrow> string \<Rightarrow> 'db \<Rightarrow> 'db" where
  "delete_policy K oid i d = kv_delete K (policy_key oid i) d"

definition get_policy :: "'db kv \<Rightarrow> policy codec \<Rightarrow> string \<Rightarrow> string \<Rightarrow> 'db \<Rightarrow> store_error + policy" where
  "get_policy K C oid i d = get_json K C (policy_key oid i) d"

section \<open>Requests seen before\<close>

definition stripe_event_key :: "string \<Rightarrow> string" where
  "stripe_event_key i = ''stripe:evt:'' @ i"

definition is_stripe_event_processed :: "'db kv \<Rightarrow> string \<Rightarrow> 'db \<Rightarrow> bool" where
  "is_stripe_event_processed K i d \<longleftrightarrow> kv_get K d (stripe_event_key i) \<noteq> None"

definition mark_stripe_event_processed :: "'db kv \<Rightarrow> int \<Rightarrow> string \<Rightarrow> 'db \<Rightarrow> 'db" where
  "mark_stripe_event_processed K now i d = kv_set K (stripe_event_key i) (show_int now) d"

record idempotency_record =
  idem_status :: int
  idem_content_type :: string
  idem_body :: string
  idem_headers :: "(string \<times> string) list option"
  idem_created_at :: int

definition idempotency_key :: "string \<Rightarrow> string \<Rightarrow> string" where
  "idempotency_key oid h = ''org:'' @ oid @ '':idem:'' @ h"

definition delete_idempotency :: "'db kv \<Rightarrow> string \<Rightarrow> string \<Rightarrow> 'db \<Rightarrow> 'db" where
  "delete_idempotency K oid h d = kv_delete K (idempotency_key oid h) d"

text \<open>The clock and the maximal age are in nanoseconds, the record's time in milliseconds.\<close>

definition get_idempotency ::
  "'db kv \<Rightarrow> idempotency_record codec \<Rightarrow> int \<Rightarrow> string \<Rightarrow> string \<Rightarrow> int \<Rightarrow> 'db \<Rightarrow> (store_error + idempotency_record) \<times> 'db" where
  "get_idempotency K C ns oid h max_age d =
     (case get_json K C (idempotency_key oid h) d of
        Inl e \<Rightarrow> (Inl e, d)
      | Inr r \<Rightarrow>
          if max_age > 0 \<and> idem_created_at r > 0 \<and> ns - idem_created_at r * 1000000 > max_age
          then (Inl KeyNotFound, delete_idempotency K oid h d) else (Inr r, d))"

definition save_idempotency ::
  "'db kv \<Rightarrow> idempotency_record codec \<Rightarrow> int \<Rightarrow> string \<Rightarrow> string \<Rightarrow> idempotency_record \<Rightarrow> 'db \<Rightarrow> store_error + 'db" where
  "save_idempotency K C now oid h r d =
     put_json K C (idempotency_key oid h) (if idem_created_at r = 0 then r\<lparr>idem_created_at := now\<rparr> else r) d"

section \<open>Metrics\<close>

text \<open>The merge operator; a value of less than eight bytes makes the decoder panic.\<close>

definition uint64_add :: "string \<Rightarrow> string \<Rightarrow> string option" where
  "uint64_add old new =
     (if (0 < length old \<and> length old < 8) \<or> length new < 8 then None
      else Some (put_uint64 ((if old = [] then 0 else get_uint64 old) + get_uint64 new)))"

definition add_counter :: "'db kv \<Rightarrow> string \<Rightarrow> 64 word \<Rightarrow> 'db \<Rightarrow> 'db" where
  "add_counter K k delta d = kv_set K k (put_uint64 (read_counter (kv_get K d k) + delta)) d"

definition metric_key :: "string \<Rightarrow> string \<Rightarrow> string" where
  "metric_key oid m = ''org:'' @ oid @ '':m:'' @ m"

definition metric_ts_prefix :: "string \<Rightarrow> string \<Rightarrow> string" where
  "metric_ts_prefix oid m = ''org:'' @ oid @ '':ts:'' @ m @ '':''"

definition metric_ts_key :: "string \<Rightarrow> string \<Rightarrow> int \<Rightarrow> string" where
  "metric_ts_key oid m start = metric_ts_prefix oid m @ pad_int 13 start"

definition increment_metric :: "'db kv \<Rightarrow> string \<Rightarrow> string \<Rightarrow> 'db \<Rightarrow> 'db" where
  "increment_metric K oid m d = add_counter K (metric_key oid m) 1 d"

definition minute_of :: "int \<Rightarrow> int" where
  "minute_of t = go_quot t 60000 * 60000"

definition increment_org_metric :: "'db kv \<Rightarrow> int \<Rightarrow> string \<Rightarrow> string \<Rightarrow> 64 word \<Rightarrow> 'db \<Rightarrow> 'db" where
  "increment_org_metric K now oid m delta d =
     add_counter K (metric_ts_key oid m (minute_of now)) delta (add_counter K (metric_key oid m) delta d)"

definition add_to :: "'k \<Rightarrow> 64 word \<Rightarrow> ('k \<times> 64 word) list \<Rightarrow> ('k \<times> 64 word) list" where
  "add_to k x m = AList.update k ((case map_of m k of None \<Rightarrow> 0 | Some y \<Rightarrow> y) + x) m"

fun series_walk :: "string \<Rightarrow> int \<Rightarrow> int \<Rightarrow> (string \<times> string) list \<Rightarrow> (int \<times> 64 word) list \<Rightarrow> (int \<times> 64 word) list" where
  "series_walk p to_minute bucket [] agg = agg"
| "series_walk p to_minute bucket ((k, v) # is) agg =
     (if \<not> has_prefix k p then agg
      else (let parts = split_at (CHR '':'') [] k in
        if length parts < 5 then series_walk p to_minute bucket is agg
        else (case parse_int (last parts) of
            None \<Rightarrow> series_walk p to_minute bucket is agg
          | Some ts \<Rightarrow>
              if ts > to_minute then agg
              else series_walk p to_minute bucket is
                     (add_to (go_quot ts bucket * bucket) (read_counter (Some v)) agg))))"

definition get_org_metric_timeseries ::
  "'db kv \<Rightarrow> string \<Rightarrow> string \<Rightarrow> int \<Rightarrow> int \<Rightarrow> int \<Rightarrow> 'db \<Rightarrow> (int \<times> 64 word) list" where
  "get_org_metric_timeseries K oid m from_ms to_ms bucket_ms d =
     (let bucket = (if bucket_ms \<le> 0 then 60000 else bucket_ms)
      in sort_key fst (series_walk (metric_ts_prefix oid m) (minute_of to_ms) bucket
           (seek_up K d (metric_ts_key oid m (minute_of from_ms))) []))"

definition inc_org_request_breakdown :: "'db kv \<Rightarrow> string \<Rightarrow> string \<Rightarrow> int \<Rightarrow> 64 word \<Rightarrow> 'db \<Rightarrow> 'db" where
  "inc_org_request_breakdown K oid endpoint status delta d =
     add_counter K (''org:'' @ oid @ '':req:'' @ endpoint @ '':'' @ show_int status) delta d"

record usage_breakdown =
  by_endpoint :: "(string \<times> 64 word) list"
  by_status :: "(string \<times> 64 word) list"
  by_both :: "(string \<times> (string \<times> 64 word) list) list"

text \<open>The key is cut at its last colon, and left out when there is none or nothing before it.\<close>

definition breakdown_step :: "string \<Rightarrow> string \<times> string \<Rightarrow> usage_breakdown \<Rightarrow> usage_breakdown" where
  "breakdown_step p i u =
     (let k = trim_prefix (fst i) p;
          status = rev (takeWhile (\<lambda>c. c \<noteq> CHR '':'') (rev k));
          before = length k - length status - 1;
          endpoint = take before k;
          x = read_counter (Some (snd i))
      in if length status = length k \<or> before = 0 then u
         else u\<lparr>by_endpoint := add_to endpoint x (by_endpoint u), by_status := add_to status x (by_status u),
                by_both := AList.update endpoint
                  (add_to status x (case map_of (by_both u) endpoint of None \<Rightarrow> [] | Some m \<Rightarrow> m)) (by_both u)\<rparr>)"

definition get_org_usage_breakdown :: "'db kv \<Rightarrow> string \<Rightarrow> 'db \<Rightarrow> usage_breakdown" where
  "get_org_usage_breakdown K oid d =
     (let p = ''org:'' @ oid @ '':req:''
      in fold (breakdown_step p) (scan_prefix K d p) \<lparr>by_endpoint = [], by_status = [], by_both = []\<rparr>)"

definition usage_metrics :: "string list" where
  "usage_metrics = [''api_requests'', ''facts_asserted'', ''schema_violations'', ''facts_pruned'', ''sessions_created'',
     ''revalidation_runs'']"

definition get_org_usage :: "'db kv \<Rightarrow> string \<Rightarrow> 'db \<Rightarrow> (string \<times> 64 word) list" where
  "get_org_usage K oid d =
     List.map_filter (\<lambda>m. case kv_get K d (metric_key oid m) of
         None \<Rightarrow> Some (m, 0)
       | Some v \<Rightarrow> if length v = 8 then Some (m, get_uint64 v) else None) usage_metrics"

end
