(* ===== verification/Retention.thy ===== *)
theory Retention
imports BadgerCatalog
begin

text \<open>
  EnforceRetention of store/badger.go and the handler that sets the retention days,
  handlePatchOrgSettings of api/console_contracts.go.
\<close>

section \<open>Settings\<close>

definition org_setting_as_int :: "organization option \<Rightarrow> string \<Rightarrow> int \<Rightarrow> int" where
  "org_setting_as_int oo key def_value =
     (case oo of None \<Rightarrow> def_value
      | Some org \<Rightarrow> (case obj_get (org_settings org) key of
            Some (GFloat x) \<Rightarrow> int64_of_float x
          | Some (GInt n) \<Rightarrow> n
          | _ \<Rightarrow> def_value))"

definition as_int :: "gval \<Rightarrow> int option" where
  "as_int v = (case v of GFloat x \<Rightarrow> Some (int64_of_float x) | GInt n \<Rightarrow> Some n | _ \<Rightarrow> None)"

definition retention_keys :: "string list" where
  "retention_keys = [''retention_days_activity'', ''retention_days_access_logs'', ''retention_days_notifications'']"

definition rate_keys :: "string list" where
  "rate_keys = [''rate_limit_rpm'', ''rate_limit_window_seconds'']"

definition setting_within :: "gobj \<Rightarrow> int \<Rightarrow> string \<Rightarrow> bool" where
  "setting_within body most key \<longleftrightarrow>
     (case obj_get body key of None \<Rightarrow> True
      | Some v \<Rightarrow> (case as_int v of None \<Rightarrow> False | Some n \<Rightarrow> 1 \<le> n \<and> n \<le> most))"

text \<open>
  The handler's answer: a status, and the settings that it saved. The body is None when it
  does not decode; a body null decodes to a map without entries.
\<close>

definition handle_patch_org_settings ::
  "'db kv \<Rightarrow> organization codec \<Rightarrow> string \<Rightarrow> string \<Rightarrow> gobj option \<Rightarrow> 'db \<Rightarrow> (nat \<times> gobj) \<times> 'db" where
  "handle_patch_org_settings K C role oid body_opt d =
     (if role \<noteq> ''admin'' then ((403, None), d)
      else (case get_organization K C oid d of
        Inl _ \<Rightarrow> ((404, None), d)
      | Inr org \<Rightarrow>
          (case body_opt of None \<Rightarrow> ((400, None), d)
           | Some body \<Rightarrow>
               (let kvs = (case body of None \<Rightarrow> [] | Some kvs \<Rightarrow> kvs);
                    start = (case org_settings org of None \<Rightarrow> Some [] | s \<Rightarrow> s);
                    new = fold (\<lambda>(k, v). obj_put k v) kvs start
                in if \<not> set (map fst kvs) \<subseteq> set (retention_keys @ rate_keys) then ((400, None), d)
                   else if \<not> list_all (setting_within body 3650) retention_keys then ((400, None), d)
                   else if \<not> list_all (setting_within body 100000) rate_keys then ((400, None), d)
                   else (case save_organization K C (org\<lparr>org_settings := new\<rparr>) d of
                       Inl _ \<Rightarrow> ((500, None), d)
                     | Inr d' \<Rightarrow> ((200, new), d'))))))"

section \<open>Retention\<close>

text \<open>time.Duration arithmetic wraps at 64 bits; the clock is in nanoseconds, the result in milliseconds.\<close>

definition retention_cutoff :: "int \<Rightarrow> int \<Rightarrow> int" where
  "retention_cutoff ns days = (ns + sint (word_of_int (- days * 24 * 3600000000000) :: 64 word)) div 1000000"

record retention_report =
  activity_deleted :: nat
  access_logs_deleted :: nat
  notifications_deleted :: nat

definition stale :: "'db kv \<Rightarrow> 'db \<Rightarrow> string \<Rightarrow> int \<Rightarrow> (string \<Rightarrow> int option) \<Rightarrow> string list" where
  "stale K d p cutoff ts =
     map fst (filter (\<lambda>i. case ts (snd i) of None \<Rightarrow> False | Some t \<Rightarrow> 0 < t \<and> t < cutoff) (scan_prefix K d p))"

text \<open>The prefix, the setting and the time of each kind of entry.\<close>

definition entry_time :: "'a codec \<Rightarrow> ('a \<Rightarrow> int) \<Rightarrow> string \<Rightarrow> int option" where
  "entry_time C t v = map_option t (decode C v)"

text \<open>One transaction for each organization: its iterator sees the database as it was at the start.\<close>

definition retain_org ::
  "'db kv \<Rightarrow> journal_entry codec \<Rightarrow> access_log_entry codec \<Rightarrow> notification codec \<Rightarrow> int \<Rightarrow> organization \<Rightarrow>
     'db \<times> retention_report \<Rightarrow> 'db \<times> retention_report" where
  "retain_org K CJ CA CN ns org s =
     (let d = fst s; r = snd s; oid = org_id org;
          cut = (\<lambda>key. retention_cutoff ns (org_setting_as_int (Some org) key 30));
          act = stale K d (activity_prefix oid) (cut ''retention_days_activity'') (entry_time CJ je_timestamp);
          acc = stale K d (access_prefix oid) (cut ''retention_days_access_logs'') (entry_time CA acc_created_at);
          ntf = stale K d (notif_prefix oid) (cut ''retention_days_notifications'') (entry_time CN ntf_created_at)
      in (fold (kv_delete K) (act @ acc @ ntf) d,
          r\<lparr>activity_deleted := activity_deleted r + length act,
            access_logs_deleted := access_logs_deleted r + length acc,
            notifications_deleted := notifications_deleted r + length ntf\<rparr>))"

definition enforce_retention ::
  "'db kv \<Rightarrow> organization codec \<Rightarrow> journal_entry codec \<Rightarrow> access_log_entry codec \<Rightarrow> notification codec \<Rightarrow> int \<Rightarrow> 'db \<Rightarrow>
     'db \<times> retention_report" where
  "enforce_retention K CO CJ CA CN ns d =
     fold (retain_org K CJ CA CN ns) (decoded CO (scan_prefix K d ''o:''))
       (d, \<lparr>activity_deleted = 0, access_logs_deleted = 0, notifications_deleted = 0\<rparr>)"

section \<open>The cutoff\<close>

definition settings_ok :: "organization \<Rightarrow> bool" where
  "settings_ok org \<longleftrightarrow> list_all (setting_within (org_settings org) 3650) retention_keys"

lemma setting_range:
  assumes "settings_ok org" "key \<in> set retention_keys"
  shows "1 \<le> org_setting_as_int (Some org) key 30" "org_setting_as_int (Some org) key 30 \<le> 3650"
  using assms by (auto simp: settings_ok_def list_all_iff setting_within_def as_int_def org_setting_as_int_def
      split: option.splits gval.splits)

text \<open>The arithmetic of the cutoff does not wrap for the settings the handler accepts.\<close>

lemma retention_cutoff_exact:
  assumes "1 \<le> days" "days \<le> 3650"
  shows "retention_cutoff ns days = ns div 1000000 - days * 86400000"
proof -
  have wrap: "sint (word_of_int n :: 64 word) = n" if "- (2 ^ 63) \<le> n" "n < 2 ^ 63" for n
    using that by (simp add: signed_of_int signed_take_bit_int_eq_self)
  have "sint (word_of_int (- days * 24 * 3600000000000) :: 64 word) = - days * 24 * 3600000000000"
    by (rule wrap) (use assms in simp_all)
  moreover have "(ns + - days * 24 * 3600000000000) div 1000000 = ns div 1000000 - days * 86400000"
  proof -
    have "ns + - days * 24 * 3600000000000 = ns + (- days * 86400000) * 1000000" by simp
    then show ?thesis by (simp only: div_mult_self1)
  qed
  ultimately show ?thesis by (simp add: retention_cutoff_def)
qed

lemma fold_obj_put:
  "distinct (map fst kvs) \<Longrightarrow>
     obj_get (fold (\<lambda>(k, v). obj_put k v) kvs s) k = (case map_of kvs k of None \<Rightarrow> obj_get s k | v \<Rightarrow> v)"
proof (induction kvs arbitrary: s)
  case (Cons kv kvs)
  obtain k' v where kv: "kv = (k', v)" by (cases kv)
  have "k' = k \<Longrightarrow> map_of kvs k = None" using Cons.prems by (auto simp: kv map_of_eq_None_iff)
  then show ?case using Cons.IH [of "obj_put k' v s"] Cons.prems by (auto simp: kv split: option.splits)
qed simp

text \<open>Settings in range stay in range.\<close>

lemma patch_settings_ok:
  assumes "settings_ok org" "distinct (map fst kvs)" "list_all (setting_within (Some kvs) 3650) retention_keys"
    and "obj_get s = obj_get (org_settings org)"
  shows "settings_ok (org\<lparr>org_settings := fold (\<lambda>(k, v). obj_put k v) kvs s\<rparr>)"
proof -
  have "setting_within (fold (\<lambda>(k, v). obj_put k v) kvs s) 3650 key" if "key \<in> set retention_keys" for key
  proof (cases "map_of kvs key")
    case None
    have "setting_within (org_settings org) 3650 key" using assms(1) that by (simp add: settings_ok_def list_all_iff)
    then show ?thesis by (simp add: setting_within_def fold_obj_put [OF assms(2)] None assms(4))
  next
    case (Some v)
    have "setting_within (Some kvs) 3650 key" using assms(3) that by (simp add: list_all_iff)
    then show ?thesis by (simp add: setting_within_def fold_obj_put [OF assms(2)] Some obj_get_def [of "Some kvs"])
  qed
  then show ?thesis by (simp add: settings_ok_def list_all_iff)
qed

section \<open>What is deleted\<close>

lemma fold_delete_get: "kv_laws K \<Longrightarrow> kv_get K (fold (kv_delete K) ks d) k = (if k \<in> set ks then None else kv_get K d k)"
  by (induction ks arbitrary: d) auto

text \<open>An entry under the prefix whose time is known and before the cutoff.\<close>

definition lapsed_under :: "'db kv \<Rightarrow> 'db \<Rightarrow> string \<Rightarrow> int \<Rightarrow> (string \<Rightarrow> int option) \<Rightarrow> string \<Rightarrow> bool" where
  "lapsed_under K d p cutoff ts k \<longleftrightarrow>
     has_prefix k p \<and> (\<exists>v t. kv_get K d k = Some v \<and> ts v = Some t \<and> 0 < t \<and> t < cutoff)"

lemma stale_iff: "kv_laws K \<Longrightarrow> k \<in> set (stale K d p cutoff ts) \<longleftrightarrow> lapsed_under K d p cutoff ts k"
  unfolding stale_def lapsed_under_def scan_prefix_filter
  by (auto simp: items_iff image_iff split: option.splits)

text \<open>The milliseconds of a number of days ago.\<close>

definition days_ago :: "int \<Rightarrow> organization \<Rightarrow> string \<Rightarrow> int" where
  "days_ago ns org key = ns div 1000000 - org_setting_as_int (Some org) key 30 * 86400000"

definition lapsed_of ::
  "'db kv \<Rightarrow> journal_entry codec \<Rightarrow> access_log_entry codec \<Rightarrow> notification codec \<Rightarrow> int \<Rightarrow> 'db \<Rightarrow> organization \<Rightarrow> string \<Rightarrow> bool" where
  "lapsed_of K CJ CA CN ns d org k \<longleftrightarrow>
     lapsed_under K d (activity_prefix (org_id org)) (days_ago ns org ''retention_days_activity'') (entry_time CJ je_timestamp) k \<or>
     lapsed_under K d (access_prefix (org_id org)) (days_ago ns org ''retention_days_access_logs'') (entry_time CA acc_created_at) k \<or>
     lapsed_under K d (notif_prefix (org_id org)) (days_ago ns org ''retention_days_notifications'') (entry_time CN ntf_created_at) k"

lemma retain_org_get:
  assumes "kv_laws K" "settings_ok org"
  shows "kv_get K (fst (retain_org K CJ CA CN ns org (d, r))) k =
    (if lapsed_of K CJ CA CN ns d org k then None else kv_get K d k)"
proof -
  have cut: "retention_cutoff ns (org_setting_as_int (Some org) key 30) = days_ago ns org key"
    if "key \<in> set retention_keys" for key
    unfolding days_ago_def by (rule retention_cutoff_exact [OF setting_range [OF assms(2) that]])
  show ?thesis
    by (simp add: retain_org_def Let_def fold_delete_get [OF assms(1)] stale_iff [OF assms(1)] lapsed_of_def cut
        retention_keys_def)
qed

lemma lapsed_shrinks:
  assumes "\<And>k. kv_get K d' k = (if gone k then None else kv_get K d k)"
  shows "lapsed_of K CJ CA CN ns d' org k \<longleftrightarrow> \<not> gone k \<and> lapsed_of K CJ CA CN ns d org k"
  by (auto simp: lapsed_of_def lapsed_under_def assms)

lemma enforce_fold:
  assumes "kv_laws K" "\<forall>org \<in> set orgs. settings_ok org"
  shows "kv_get K (fst (fold (retain_org K CJ CA CN ns) orgs (d, r))) k =
    (if \<exists>org \<in> set orgs. lapsed_of K CJ CA CN ns d org k then None else kv_get K d k)"
  using assms(2)
proof (induction orgs arbitrary: d r)
  case (Cons org orgs)
  obtain d1 r1 where s: "retain_org K CJ CA CN ns org (d, r) = (d1, r1)" by fastforce
  have g: "kv_get K d1 k = (if lapsed_of K CJ CA CN ns d org k then None else kv_get K d k)" for k
    using retain_org_get [OF assms(1), of org CJ CA CN ns d r k] Cons.prems s by simp
  show ?case using Cons.IH [of d1 r1] Cons.prems lapsed_shrinks [OF g] by (auto simp: s g)
qed simp

section \<open>Settings stay in range\<close>

text \<open>
  A request that handlePatchOrgSettings accepts saves settings whose retention days
  are between 1 and 3650, so that the arithmetic of EnforceRetention does not wrap, and leaves the
  other settings as they were; a request it refuses changes nothing.
\<close>

theorem patch_settings_safe:
  assumes "kv_laws K" "handle_patch_org_settings K C role oid body d = ((status, saved), d')"
    and "get_organization K C oid d = Inr org" "settings_ok org" "reads_back C (org\<lparr>org_settings := saved\<rparr>)" "org_id org = oid"
    and "\<forall>kvs. body = Some (Some kvs) \<longrightarrow> distinct (map fst kvs)"
  shows "if status = 200
    then role = ''admin'' \<and> (\<exists>new. get_organization K C oid d' = Inr new \<and> settings_ok new \<and> org_settings new = saved \<and>
      (\<forall>key. key \<notin> set (retention_keys @ rate_keys) \<longrightarrow> obj_get saved key = obj_get (org_settings org) key))
    else d' = d"
proof (cases "status = 200")
  case False
  then show ?thesis using assms(2)
    by (auto simp: handle_patch_org_settings_def Let_def split: if_splits sum.splits option.splits)
next
  case True
  define start where "start = (case org_settings org of None \<Rightarrow> Some [] | s \<Rightarrow> s)"
  obtain b where b: "body = Some b" and admin: "role = ''admin''"
    using assms(2,3) True by (auto simp: handle_patch_org_settings_def split: if_splits sum.splits option.splits)
  define kvs where "kvs = (case b of None \<Rightarrow> [] | Some kvs \<Rightarrow> kvs)"
  let ?new = "fold (\<lambda>(k, v). obj_put k v) kvs start"
  have r: "set (map fst kvs) \<subseteq> set (retention_keys @ rate_keys)" "list_all (setting_within b 3650) retention_keys"
    "save_organization K C (org\<lparr>org_settings := ?new\<rparr>) d = Inr d'" "saved = ?new"
    using assms(2,3) True admin
    by (auto simp: handle_patch_org_settings_def Let_def b kvs_def start_def split: if_splits sum.splits option.splits)
  have dist: "distinct (map fst kvs)" using assms(7) b by (cases b) (simp_all add: kvs_def)
  have start: "obj_get start = obj_get (org_settings org)"
    by (rule ext) (simp add: start_def obj_get_def split: option.splits)
  have "obj_get b = obj_get (Some kvs)" by (rule ext) (simp add: kvs_def obj_get_def split: option.splits)
  then have "list_all (setting_within (Some kvs) 3650) retention_keys"
    using r(2) by (simp add: setting_within_def list_all_iff)
  then have ok: "settings_ok (org\<lparr>org_settings := ?new\<rparr>)"
    by (rule patch_settings_ok [OF assms(4) dist _ start])
  have get: "get_organization K C oid d' = Inr (org\<lparr>org_settings := ?new\<rparr>)"
    using get_put_json(1) [OF assms(1), of C "''o:'' @ oid"] r(3,4) assms(5,6)
    by (simp add: save_organization_def get_organization_def)
  have "obj_get ?new key = obj_get (org_settings org) key" if "key \<notin> set (retention_keys @ rate_keys)" for key
  proof -
    have "map_of kvs key = None" using r(1) that by (auto simp: map_of_eq_None_iff)
    then show ?thesis by (simp add: fold_obj_put [OF dist] start)
  qed
  then show ?thesis using True admin get ok r(4) by auto
qed

section \<open>Retention\<close>

text \<open>
  C21: With settings in that range, EnforceRetention deletes exactly the entries of the
  activity, the access log and the notifications of an organization that are older than its days,
  and no other key of the database.
\<close>

theorem retention_exact:
  assumes "kv_laws K" "\<forall>org \<in> set (decoded CO (scan_prefix K d ''o:'')). settings_ok org"
  shows "kv_get K (fst (enforce_retention K CO CJ CA CN ns d)) k =
    (if \<exists>org \<in> set (decoded CO (scan_prefix K d ''o:'')). lapsed_of K CJ CA CN ns d org k then None else kv_get K d k)"
  unfolding enforce_retention_def by (rule enforce_fold [OF assms])

definition sample_org :: organization where
  "sample_org = \<lparr>org_id = ''x'', org_name = [], org_created_at = 1, org_suspended = False, org_settings = Some []\<rparr>"

definition patched_org :: organization where
  "patched_org = sample_org\<lparr>org_settings := Some [(''retention_days_activity'', GInt 60)]\<rparr>"

definition org_codec :: "organization codec" where
  "org_codec = \<lparr>encode = (\<lambda>x. Some (if org_settings x = Some [] then ''0'' else ''1'')),
     decode = (\<lambda>v. if v = ''0'' then Some sample_org else if v = ''1'' then Some patched_org else None),
     residue = (\<lambda>_. sample_org)\<rparr>"

definition sample_access :: "int \<Rightarrow> access_log_entry" where
  "sample_access t = \<lparr>acc_id = [], acc_actor = [], acc_role = [], acc_method = ''GET'', acc_pattern = [], acc_path = [],
     acc_status = 200, acc_duration_ms = 1, acc_trace = [], acc_ip = [], acc_agent = [], acc_created_at = t\<rparr>"

definition access_codec :: "access_log_entry codec" where
  "access_codec = \<lparr>encode = (\<lambda>_. None),
     decode = (\<lambda>v. if v = ''a'' then Some (sample_access 5) else if v = ''b'' then Some (sample_access (10 ^ 11)) else None),
     residue = (\<lambda>_. sample_access 0)\<rparr>"

definition blank_notification :: notification where
  "blank_notification = \<lparr>ntf_id = [], ntf_type = [], ntf_title = [], ntf_body = [], ntf_created_at = 0, ntf_read_at = 0\<rparr>"

definition null_codec :: "'a \<Rightarrow> 'a codec" where
  "null_codec x = \<lparr>encode = (\<lambda>_. None), decode = (\<lambda>_. None), residue = (\<lambda>_. x)\<rparr>"

lemma patch_settings_safe_witness:
  "\<exists>d'. handle_patch_org_settings assoc_kv org_codec ''admin'' ''x'' (Some (Some [(''retention_days_activity'', GInt 60)]))
       [(''o:x'', ''0'')] = ((200, org_settings patched_org), d') \<and>
     (\<exists>new. get_organization assoc_kv org_codec ''x'' d' = Inr new \<and> settings_ok new)"
proof -
  have h: "handle_patch_org_settings assoc_kv org_codec ''admin'' ''x'' (Some (Some [(''retention_days_activity'', GInt 60)]))
       [(''o:x'', ''0'')] = ((200, org_settings patched_org), [(''o:x'', ''1'')])"
    by (simp add: handle_patch_org_settings_def get_organization_def get_json_def save_organization_def put_json_def
        assoc_kv_def org_codec_def sample_org_def patched_org_def retention_keys_def rate_keys_def setting_within_def
        obj_get_def obj_put_def as_int_def)
  moreover have g: "get_organization assoc_kv org_codec ''x'' [(''o:x'', ''0'')] = Inr sample_org"
    by (simp add: get_organization_def get_json_def assoc_kv_def org_codec_def)
  ultimately show ?thesis using patch_settings_safe [OF assoc_kv_laws h g]
    by (simp add: settings_ok_def setting_within_def retention_keys_def obj_get_def sample_org_def patched_org_def
        reads_back_def org_codec_def) blast
qed

definition retention_sample :: "(string \<times> string) list" where
  "retention_sample = [(''o:x'', ''0''), (access_prefix ''x'' @ ''1'', ''a''), (access_prefix ''x'' @ ''2'', ''b'')]"

lemma retention_exact_witness:
  "kv_get assoc_kv (fst (enforce_retention assoc_kv org_codec (null_codec (blank_entry [] [])) access_codec
       (null_codec blank_notification) (10 ^ 17) retention_sample)) (access_prefix ''x'' @ ''1'') = None \<and>
   lapsed_of assoc_kv (null_codec (blank_entry [] [])) access_codec (null_codec blank_notification) (10 ^ 17) retention_sample
     sample_org (access_prefix ''x'' @ ''1'')"
proof -
  have orgs: "decoded org_codec (scan_prefix assoc_kv retention_sample ''o:'') = [sample_org]" by code_simp
  have ok: "settings_ok sample_org"
    by (simp add: settings_ok_def setting_within_def retention_keys_def obj_get_def sample_org_def)
  have lapsed: "lapsed_of assoc_kv (null_codec (blank_entry [] [])) access_codec (null_codec blank_notification) (10 ^ 17)
      retention_sample sample_org (access_prefix ''x'' @ ''1'')"
    by (simp add: lapsed_of_def lapsed_under_def access_prefix_def activity_prefix_def notif_prefix_def days_ago_def
        org_setting_as_int_def sample_org_def obj_get_def entry_time_def access_codec_def retention_sample_def
        assoc_kv_def sample_access_def has_prefix_def)
  then show ?thesis
    using retention_exact [OF assoc_kv_laws, of org_codec retention_sample "null_codec (blank_entry [] [])" access_codec
        "null_codec blank_notification" "10 ^ 17" "access_prefix ''x'' @ ''1''"] orgs ok
    by simp
qed

end
