(* ===== verification/BadgerDecisions.thy ===== *)
theory BadgerDecisions
imports BadgerRecords Facts "HOL-Library.Product_Lexorder"
begin

text \<open>
  The decisions, their dependencies and checks, and the search documents of store/badger.go, with
  their records of store/models_decision.go and store/models_search.go.
\<close>

section \<open>Records\<close>

record decision =
  dc_id :: string
  dc_session :: string
  dc_org :: string
  dc_fact :: string
  dc_type :: string
  dc_subject :: string
  dc_target :: string
  dc_status :: string
  dc_execution_status :: string
  dc_action :: string
  dc_policy_version :: string
  dc_summary :: string
  dc_created_by :: string
  dc_created_at :: int
  dc_updated_at :: int
  dc_last_checked_at :: int
  dc_executed_at :: int
  dc_executed_by :: string
  dc_metadata :: gobj

record decision_dependency =
  dd_decision :: string
  dd_session :: string
  dd_fact :: string
  dd_type :: string
  dd_required_status :: string
  dd_current_status :: real
  dd_source_type :: string
  dd_source_ref :: string
  dd_verification_status :: string
  dd_verified_at :: int
  dd_asserted_at :: int
  dd_policy_version :: string
  dd_hint :: string
  dd_entrenchment :: real
  dd_review_status :: string
  dd_review_required :: bool

record decision_blocker =
  db_fact :: string
  db_type :: string
  db_required_status :: string
  db_current_status :: real
  db_reason_code :: string
  db_source_type :: string
  db_source_ref :: string
  db_verification_status :: string
  db_verified_at :: int
  db_asserted_at :: int
  db_policy_version :: string
  db_hint :: string
  db_entrenchment :: real
  db_review_status :: string
  db_review_required :: bool

record decision_check =
  ck_decision :: string
  ck_session :: string
  ck_executable :: bool
  ck_blocked_by :: "decision_blocker list"
  ck_reason_codes :: "string list"
  ck_checked_at :: int
  ck_decision_version :: int
  ck_session_version :: int
  ck_expires_at :: int
  ck_token :: string
  ck_summary :: string
  ck_snapshots :: "decision_dependency list"

record decision_filter =
  df_status :: string
  df_subject :: string
  df_from_ms :: int
  df_to_ms :: int
  df_limit :: int

section \<open>Decisions\<close>

definition decision_key :: "string \<Rightarrow> string \<Rightarrow> string" where
  "decision_key sid i = ''s:'' @ sid @ '':decision:'' @ i"

definition decision_org_index_key :: "string \<Rightarrow> string \<Rightarrow> string \<Rightarrow> string" where
  "decision_org_index_key oid sid i = ''org:'' @ oid @ '':decision:'' @ sid @ '':'' @ i"

definition stamped_decision :: "int \<Rightarrow> decision \<Rightarrow> decision" where
  "stamped_decision now x =
     (let x1 = (if dc_created_at x = 0 then x\<lparr>dc_created_at := now\<rparr> else x)
      in if dc_updated_at x1 = 0 then x1\<lparr>dc_updated_at := dc_created_at x1\<rparr> else x1)"

text \<open>The stamped decision is also what the caller's pointer holds afterwards.\<close>

definition save_decision ::
  "'db kv \<Rightarrow> decision codec \<Rightarrow> int \<Rightarrow> decision option \<Rightarrow> 'db \<Rightarrow> store_error + decision \<times> 'db" where
  "save_decision K C now xo d =
     (case xo of
        None \<Rightarrow> Inl (Refused ''decision is required'')
      | Some x0 \<Rightarrow>
          if dc_session x0 = [] \<or> dc_id x0 = []
          then Inl (Refused ''decision session_id and decision_id are required'')
          else (let x = stamped_decision now x0
            in map_sum id (\<lambda>d. (x, if dc_org x \<noteq> []
                   then kv_set K (decision_org_index_key (dc_org x) (dc_session x) (dc_id x)) (dc_status x) d else d))
                 (put_json K C (decision_key (dc_session x) (dc_id x)) x d)))"

definition get_decision :: "'db kv \<Rightarrow> decision codec \<Rightarrow> string \<Rightarrow> string \<Rightarrow> 'db \<Rightarrow> store_error + decision" where
  "get_decision K C sid i d = get_json K C (decision_key sid i) d"

definition decision_matches_filter :: "decision \<Rightarrow> decision_filter \<Rightarrow> bool" where
  "decision_matches_filter x f \<longleftrightarrow>
     \<not> (df_status f \<noteq> [] \<and> dc_status x \<noteq> df_status f \<and> dc_execution_status x \<noteq> df_status f) \<and>
     \<not> (df_subject f \<noteq> [] \<and> dc_subject x \<noteq> df_subject f) \<and>
     \<not> (df_from_ms f \<noteq> 0 \<and> dc_created_at x < df_from_ms f) \<and>
     \<not> (df_to_ms f \<noteq> 0 \<and> dc_created_at x > df_to_ms f)"

definition newest_decisions :: "decision_filter \<Rightarrow> decision list \<Rightarrow> decision list" where
  "newest_decisions f xs =
     (let out = sort_desc dc_created_at (filter (\<lambda>x. decision_matches_filter x f) xs)
      in if df_limit f > 0 then take (nat (df_limit f)) out else out)"

definition list_decisions_by_prefix :: "'db kv \<Rightarrow> decision codec \<Rightarrow> string \<Rightarrow> decision_filter \<Rightarrow> 'db \<Rightarrow> decision list" where
  "list_decisions_by_prefix K C p f d =
     newest_decisions f (decoded C (filter (\<lambda>i. \<not> has_suffix (fst i) '':latest'') (scan_prefix K d p)))"

definition list_session_decisions :: "'db kv \<Rightarrow> decision codec \<Rightarrow> string \<Rightarrow> decision_filter \<Rightarrow> 'db \<Rightarrow> decision list" where
  "list_session_decisions K C sid f d = list_decisions_by_prefix K C (''s:'' @ sid @ '':decision:'') f d"

text \<open>The index keys are split at their colons to find the session and the decision.\<close>

definition indexed_decision :: "'db kv \<Rightarrow> decision codec \<Rightarrow> 'db \<Rightarrow> string \<Rightarrow> decision option" where
  "indexed_decision K C d k =
     (let parts = split_at (CHR '':'') [] k
      in if length parts < 5 then None
         else (case get_decision K C (parts ! 3) (parts ! 4) d of Inl _ \<Rightarrow> None | Inr x \<Rightarrow> Some x))"

definition list_org_decisions :: "'db kv \<Rightarrow> decision codec \<Rightarrow> string \<Rightarrow> decision_filter \<Rightarrow> 'db \<Rightarrow> decision list" where
  "list_org_decisions K C oid f d =
     newest_decisions f (List.map_filter (\<lambda>i. indexed_decision K C d (fst i))
       (scan_prefix K d (''org:'' @ oid @ '':decision:'')))"

section \<open>Dependencies and checks\<close>

definition decision_deps_prefix :: "string \<Rightarrow> string \<Rightarrow> string" where
  "decision_deps_prefix sid i = ''s:'' @ sid @ '':decisiondeps:'' @ i @ '':''"

text \<open>
  The keys written are append(prefix, fact...) on one slice of capacity cap. A key that fits is
  built in the array of that slice, over the key built there before, while the transaction keeps a
  reference to it: at the commit it has its own length and the bytes written there last. A longer
  key has an array of its own.
\<close>

fun shared_keys :: "nat \<Rightarrow> string \<Rightarrow> string \<Rightarrow> string list \<Rightarrow> (bool \<times> string) list \<times> string" where
  "shared_keys cap p buf [] = ([], buf)"
| "shared_keys cap p buf (f # fs) =
     (if length p + length f \<le> cap
      then (let r = shared_keys cap p (f @ drop (length f) buf) fs in ((True, f) # fst r, snd r))
      else (let r = shared_keys cap p buf fs in ((False, f) # fst r, snd r)))"

definition committed_keys :: "nat \<Rightarrow> string \<Rightarrow> string list \<Rightarrow> string list" where
  "committed_keys cap p fs =
     (let r = shared_keys cap p [] fs
      in map (\<lambda>(shared, f). p @ (if shared then take (length f) (snd r) else f)) (fst r))"

definition own_dependency :: "string \<Rightarrow> string \<Rightarrow> decision_dependency \<Rightarrow> decision_dependency" where
  "own_dependency sid i x = x\<lparr>dd_session := sid, dd_decision := i\<rparr>"

text \<open>
  BadgerDB asks that a key is not modified until the commit. What it does otherwise is the
  parameter misuse, a function of the keys and values at the commit.
\<close>

definition save_decision_dependencies ::
  "'db kv \<Rightarrow> decision_dependency codec \<Rightarrow> (string \<Rightarrow> nat) \<Rightarrow> ((string \<times> string) list \<Rightarrow> 'db \<Rightarrow> 'db) \<Rightarrow> string \<Rightarrow> string \<Rightarrow>
     decision_dependency list \<Rightarrow> 'db \<Rightarrow> store_error + 'db" where
  "save_decision_dependencies K C cap misuse sid i xs d =
     (let p = decision_deps_prefix sid i;
          d1 = fold (\<lambda>it. kv_delete K (fst it)) (scan_prefix K d p) d;
          vals = map (\<lambda>x. encode C (own_dependency sid i x)) xs;
          ks = map (\<lambda>x. p @ dd_fact x) xs;
          at_commit = committed_keys (cap p) p (map dd_fact xs)
      in if None \<in> set vals then Inl MarshalFailed
         else if at_commit = ks then Inr (fold (\<lambda>(k, v). kv_set K k v) (zip ks (map the vals)) d1)
         else Inr (misuse (zip at_commit (map the vals)) d1))"

definition get_decision_dependencies ::
  "'db kv \<Rightarrow> decision_dependency codec \<Rightarrow> string \<Rightarrow> string \<Rightarrow> 'db \<Rightarrow> decision_dependency list" where
  "get_decision_dependencies K C sid i d = sort_key dd_fact (decoded C (scan_prefix K d (decision_deps_prefix sid i)))"

definition decision_check_latest_key :: "string \<Rightarrow> string \<Rightarrow> string" where
  "decision_check_latest_key sid i = ''s:'' @ sid @ '':decisioncheck:'' @ i @ '':latest''"

definition decision_check_history_key :: "string \<Rightarrow> string \<Rightarrow> int \<Rightarrow> string" where
  "decision_check_history_key sid i t = ''s:'' @ sid @ '':decisioncheck:'' @ i @ '':'' @ pad_int 20 t"

definition stamped_check :: "int \<Rightarrow> string \<Rightarrow> string \<Rightarrow> decision_check \<Rightarrow> decision_check" where
  "stamped_check now sid i c =
     (if ck_checked_at c = 0 then c\<lparr>ck_checked_at := now\<rparr> else c)\<lparr>ck_session := sid, ck_decision := i\<rparr>"

definition save_decision_check ::
  "'db kv \<Rightarrow> decision_check codec \<Rightarrow> int \<Rightarrow> string \<Rightarrow> string \<Rightarrow> decision_check option \<Rightarrow> 'db \<Rightarrow>
     store_error + decision_check \<times> 'db" where
  "save_decision_check K C now sid i co d =
     (case co of
        None \<Rightarrow> Inl (Refused ''check is required'')
      | Some c0 \<Rightarrow> (let c = stamped_check now sid i c0
          in case encode C c of
               None \<Rightarrow> Inl MarshalFailed
             | Some v \<Rightarrow> Inr (c, kv_set K (decision_check_history_key sid i (ck_checked_at c)) v
                                 (kv_set K (decision_check_latest_key sid i) v d))))"

definition get_latest_decision_check ::
  "'db kv \<Rightarrow> decision_check codec \<Rightarrow> string \<Rightarrow> string \<Rightarrow> 'db \<Rightarrow> store_error + decision_check" where
  "get_latest_decision_check K C sid i d = get_json K C (decision_check_latest_key sid i) d"

section \<open>Search documents\<close>

record search_document =
  sd_id :: string
  sd_org :: string
  sd_session :: string
  sd_type :: string
  sd_title :: string
  sd_body :: string
  sd_status :: string
  sd_subject :: string
  sd_target :: string
  sd_fact :: string
  sd_decision :: string
  sd_created_at :: int
  sd_updated_at :: int
  sd_metadata :: gobj

record search_filter =
  sf_query :: string
  sf_type :: string
  sf_status :: string
  sf_subject :: string
  sf_from_ms :: int
  sf_to_ms :: int
  sf_limit :: int
  sf_cursor :: string

definition search_document_key :: "search_document \<Rightarrow> string" where
  "search_document_key x = ''org:'' @ sd_org x @ '':search:'' @ sd_type x @ '':'' @ sd_id x"

definition stamped_document :: "int \<Rightarrow> search_document \<Rightarrow> search_document" where
  "stamped_document now x =
     (let x1 = (if sd_updated_at x = 0 then x\<lparr>sd_updated_at := now\<rparr> else x)
      in if sd_created_at x1 = 0 then x1\<lparr>sd_created_at := sd_updated_at x1\<rparr> else x1)"

text \<open>One transaction: a document that does not encode undoes them all. The clock is read for each.\<close>

fun upsert_search_documents ::
  "'db kv \<Rightarrow> search_document codec \<Rightarrow> int \<Rightarrow> search_document list \<Rightarrow> 'db \<Rightarrow> store_error + 'db" where
  "upsert_search_documents K C now [] d = Inr d"
| "upsert_search_documents K C now (x # xs) d =
     (if sd_id x = [] \<or> sd_org x = [] then upsert_search_documents K C now xs d
      else (case put_json K C (search_document_key (stamped_document now x)) (stamped_document now x) d of
          Inl e \<Rightarrow> Inl e
        | Inr d' \<Rightarrow> upsert_search_documents K C now xs d'))"

definition search_document_matches :: "search_document \<Rightarrow> search_filter \<Rightarrow> bool" where
  "search_document_matches x f \<longleftrightarrow>
     \<not> (sf_type f \<noteq> [] \<and> sd_type x \<noteq> sf_type f) \<and> \<not> (sf_status f \<noteq> [] \<and> sd_status x \<noteq> sf_status f) \<and>
     \<not> (sf_subject f \<noteq> [] \<and> sd_subject x \<noteq> sf_subject f) \<and>
     \<not> (sf_from_ms f \<noteq> 0 \<and> sd_updated_at x < sf_from_ms f) \<and> \<not> (sf_to_ms f \<noteq> 0 \<and> sd_updated_at x > sf_to_ms f) \<and>
     (let q = trim_space (to_lower (sf_query f))
      in q = [] \<or> list_ex (\<lambda>s. str_contains (to_lower s) q)
           [sd_title x, sd_body x, sd_subject x, sd_target x, sd_decision x, sd_fact x])"

definition search_offset :: "string \<Rightarrow> nat" where
  "search_offset cursor =
     (if cursor \<noteq> [] \<and> has_prefix cursor ''o:''
      then (case parse_int (trim_prefix cursor ''o:'') of Some n \<Rightarrow> if n \<ge> 0 then nat n else 0 | None \<Rightarrow> 0) else 0)"

definition search_documents ::
  "'db kv \<Rightarrow> search_document codec \<Rightarrow> string \<Rightarrow> search_filter \<Rightarrow> 'db \<Rightarrow> search_document list \<times> string" where
  "search_documents K C oid f d =
     (let out = sort_desc (\<lambda>x. (sd_updated_at x, sd_id x))
            (filter (\<lambda>x. search_document_matches x f) (decoded C (scan_prefix K d (''org:'' @ oid @ '':search:''))));
          offset = min (search_offset (sf_cursor f)) (length out);
          last_one = min (offset + page_limit 200 50 (sf_limit f)) (length out)
      in (take (last_one - offset) (drop offset out),
          if last_one < length out then ''o:'' @ show_nat last_one else []))"

section \<open>Dependencies read back\<close>

lemma shared_keys_long: "\<forall>f \<in> set fs. cap < length p + length f \<Longrightarrow> shared_keys cap p buf fs = (map (Pair False) fs, buf)"
  by (induction fs) auto

lemma committed_long: "\<forall>f \<in> set fs. cap < length p + length f \<Longrightarrow> committed_keys cap p fs = map (\<lambda>f. p @ f) fs"
  by (simp add: committed_keys_def shared_keys_long o_def)

text \<open>Without room to spare in the slice the contract is kept.\<close>

lemma fold_set_get:
  "kv_laws K \<Longrightarrow> distinct (map fst kvs) \<Longrightarrow>
     kv_get K (fold (\<lambda>(k, v). kv_set K k v) kvs d) k = (case map_of kvs k of None \<Rightarrow> kv_get K d k | v \<Rightarrow> v)"
proof (induction kvs arbitrary: d)
  case (Cons kv kvs)
  obtain k' v where kv: "kv = (k', v)" by (cases kv)
  have "k' = k \<Longrightarrow> map_of kvs k = None" using Cons.prems by (auto simp: kv map_of_eq_None_iff)
  then show ?case using Cons.IH [OF Cons.prems(1), of "kv_set K k' v d"] Cons.prems by (auto simp: kv split: option.splits)
qed simp

lemma map_of_same_set:
  "distinct (map fst xs) \<Longrightarrow> distinct (map fst ys) \<Longrightarrow> set xs = set ys \<Longrightarrow> map_of xs = map_of ys"
  by (rule ext) (metis map_of_eq_Some_iff not_None_eq)

lemma fold_delete_items:
  "kv_laws K \<Longrightarrow> kv_get K (fold (\<lambda>it. kv_delete K (fst it)) its d) k = (if k \<in> fst ` set its then None else kv_get K d k)"
  by (induction its arbitrary: d) auto

lemma dependencies_saved:
  assumes K: "kv_laws K" and saved: "save_decision_dependencies K C cap misuse sid i xs d = Inr d'"
    and fit: "committed_keys (cap (decision_deps_prefix sid i)) (decision_deps_prefix sid i) (map dd_fact xs) =
      map (\<lambda>x. decision_deps_prefix sid i @ dd_fact x) xs"
    and dist: "distinct (map dd_fact xs)" and codec: "\<forall>x \<in> set xs. reads_back C (own_dependency sid i x)"
  shows "get_decision_dependencies K C sid i d' = map (own_dependency sid i) (sort_key dd_fact xs)"
    "\<And>k. \<not> has_prefix k (decision_deps_prefix sid i) \<Longrightarrow> kv_get K d' k = kv_get K d k"
proof -
  define p where "p = decision_deps_prefix sid i"
  define item where "item x = (p @ dd_fact x, the (encode C (own_dependency sid i x)))" for x
  define d1 where "d1 = fold (\<lambda>it. kv_delete K (fst it)) (scan_prefix K d p) d"
  have zip_item: "zip (map (\<lambda>x. p @ dd_fact x) xs) (map (the \<circ> (\<lambda>x. encode C (own_dependency sid i x))) xs) = map item xs"
    by (simp add: item_def zip_map_map zip_same_conv_map o_def)
  have d': "d' = fold (\<lambda>(k, v). kv_set K k v) (map item xs) d1"
    using saved fit unfolding save_decision_dependencies_def p_def [symmetric]
    by (auto simp: Let_def d1_def zip_item split: if_splits)
  have dist': "distinct (map fst (map item ys))" if "distinct (map dd_fact ys)" for ys
    using that by (simp add: item_def distinct_map inj_on_def o_def)
  have g1: "kv_get K d1 k = (if has_prefix k p then None else kv_get K d k)" for k
  proof -
    have "has_prefix k p \<Longrightarrow> k \<notin> fst ` set (scan_prefix K d p) \<Longrightarrow> kv_get K d k = None"
      using scan_keys(3) [OF K, of d p k] by (metis map_of_eq_None_iff)
    moreover have "k \<in> fst ` set (scan_prefix K d p) \<Longrightarrow> has_prefix k p"
      by (auto simp: scan_prefix_filter [OF K])
    ultimately show ?thesis unfolding d1_def by (auto simp: fold_delete_items [OF K])
  qed
  have g: "kv_get K d' k = (case map_of (map item xs) k of None \<Rightarrow> kv_get K d1 k | v \<Rightarrow> v)" for k
    unfolding d' by (rule fold_set_get [OF K dist' [OF dist]])
  show "kv_get K d' k = kv_get K d k" if "\<not> has_prefix k (decision_deps_prefix sid i)" for k
  proof -
    have "map_of (map item xs) k = None"
      using that by (auto simp: map_of_eq_None_iff item_def p_def)
    then show ?thesis using that by (simp add: g g1 p_def)
  qed
  let ?s = "sort_key dd_fact xs"
  have "sorted (map fst (map item ?s))"
  proof -
    have "map fst (map item ?s) = map (\<lambda>f. p @ f) (map dd_fact ?s)" by (simp add: item_def o_def)
    moreover have "sorted (map (\<lambda>f. p @ f) fs)" if "sorted fs" for fs :: "string list"
      using that by (induction fs) auto
    ultimately show ?thesis using sorted_sort_key [of dd_fact xs] by metis
  qed
  moreover have "map_of (map item ?s) = map_of (map item xs)"
    by (rule map_of_same_set) (use dist' [of ?s] dist' [of xs] dist in \<open>simp_all add: distinct_map\<close>)
  ultimately have "scan_prefix K d' p = map item ?s"
    by (intro scan_eqI [OF K]) (use dist dist' in \<open>auto simp: g g1 distinct_map item_def map_of_eq_None_iff
        dest: map_of_SomeD split: option.splits\<close>)
  then have "get_decision_dependencies K C sid i d' = sort_key dd_fact (decoded C (map item ?s))"
    by (simp add: get_decision_dependencies_def p_def)
  also have "decoded C (map item ys) = map (own_dependency sid i) ys" if "set ys \<subseteq> set xs" for ys
    using that codec by (induction ys) (auto simp: decoded_def item_def List.map_filter_simps elim!: reads_backE)
  then have "decoded C (map item ?s) = map (own_dependency sid i) ?s" by simp
  also have "sort_key dd_fact (map (own_dependency sid i) ?s) = map (own_dependency sid i) ?s"
    by (rule sort_key_id_if_sorted) (simp add: own_dependency_def o_def)
  finally show "get_decision_dependencies K C sid i d' = map (own_dependency sid i) (sort_key dd_fact xs)" .
qed

end
