(* ===== verification/SessionBoot.thy ===== *)
theory SessionBoot
imports BadgerCatalog Snapshot
begin

text \<open>
  getEngine of api/server.go on the Badger store: the cache of engines, the organization a session
  belongs to, and the reconstruction of an engine from its snapshot and its log. The server has no
  global truth attached here. None stands for a call that does not return.
\<close>

section \<open>The server\<close>

record 'db server =
  sv_db :: 'db
  sv_engines :: "(string \<times> engine) list"
  sv_configs :: "(string \<times> session_config) list"
  sv_versions :: "(string \<times> int) list"
  sv_last_access :: "(string \<times> int) list"

record boot_codecs =
  bx_journal :: "journal_entry codec"
  bx_snapshot :: "snapshot codec"
  bx_gob :: "bytes \<Rightarrow> payload option"
  bx_config :: "session_config codec"
  bx_meta :: "org_session_meta codec"

definition default_config :: session_config where
  "default_config = \<lparr>cfg_schema = [], cfg_enforcement_mode = ''strict'', cfg_auto_retract = False\<rparr>"

section \<open>Replaying an entry\<close>

text \<open>The errors of the engine are ignored.\<close>

definition ignoring :: "engine \<Rightarrow> (core_error + engine) option \<Rightarrow> engine option" where
  "ignoring e r = (case r of None \<Rightarrow> None | Some (Inl _) \<Rightarrow> Some e | Some (Inr e') \<Rightarrow> Some e')"

definition boot_entry :: "int \<Rightarrow> journal_entry \<Rightarrow> engine \<Rightarrow> engine option" where
  "boot_entry now en e =
     (let ty = je_type en; p = je_payload en; fid = entry_fact_id en
      in if ty = EventAssert then ignoring e (assert_fact now (je_fact en) e)
         else if ty = EventInvalidate then ignoring e (invalidate_root now (je_fact_id en) e)
         else if ty = EventRetract then ignoring e (retract_fact now (je_fact_id en) (payload_string p ''reason'') e)
         else if ty = EventReview
         then ignoring e (Some (set_fact_review now (je_fact_id en) (payload_string p ''status'') (payload_string p ''reason'')
                (case payload_int64_from_float p ''reviewed_at'' of None \<Rightarrow> je_timestamp en | Some v \<Rightarrow> v) e))
         else if ty = EventFactExpired
         then (if trim_space fid \<noteq> [] then ignoring e (retract_fact now fid ''expired'' e) else Some e)
         else if ty = EventFactVerification
         then (if trim_space fid \<noteq> []
               then ignoring e (set_fact_verification now fid (payload_string p ''status'') (payload_string p ''method'')
                      (payload_string p ''source_ref'') (payload_string p ''reason'')
                      (case payload_int64_from_float p ''verified_at'' of
                         Some v \<Rightarrow> if v > 0 then v else je_timestamp en | None \<Rightarrow> je_timestamp en) e)
               else Some e)
         else Some e)"

fun boot_entries :: "int \<Rightarrow> journal_entry list \<Rightarrow> engine \<Rightarrow> engine option" where
  "boot_entries now [] e = Some e"
| "boot_entries now (en # es) e =
     (case boot_entry now en e of None \<Rightarrow> None | Some e' \<Rightarrow> boot_entries now es e')"

section \<open>Reconstruction\<close>

text \<open>The engine of the snapshot with its time, or a new one and 0.\<close>

definition boot_snapshot :: "'db kv \<Rightarrow> boot_codecs \<Rightarrow> string \<Rightarrow> 'db \<Rightarrow> engine \<times> int" where
  "boot_snapshot K X sid d =
     (case get_latest_snapshot K (bx_snapshot X) sid d of
        Inl _ \<Rightarrow> (new_engine, 0)
      | Inr sn \<Rightarrow>
          (case from_snapshot (bx_gob X) (Some sn) new_engine of
             Inl _ \<Rightarrow> (new_engine, 0) | Inr e \<Rightarrow> (e, sn_timestamp sn)))"

definition boot_history :: "'db kv \<Rightarrow> boot_codecs \<Rightarrow> string \<Rightarrow> int \<Rightarrow> 'db \<Rightarrow> journal_entry list \<times> store_error option" where
  "boot_history K X sid ts d =
     (if ts > 0 then get_session_history_after K (bx_journal X) sid ts d
      else get_session_history K (bx_journal X) sid d)"

definition boot_engine :: "'db kv \<Rightarrow> boot_codecs \<Rightarrow> int \<Rightarrow> string \<Rightarrow> 'db \<Rightarrow> engine option" where
  "boot_engine K X now sid d =
     (let (e, ts) = boot_snapshot K X sid d; (h, err) = boot_history K X sid ts d
      in if err = None then boot_entries now h e else Some e)"

section \<open>getEngine\<close>

definition or_same :: "'db \<Rightarrow> store_error + 'db \<Rightarrow> 'db" where
  "or_same d r = (case r of Inl _ \<Rightarrow> d | Inr d' \<Rightarrow> d')"

text \<open>A session without an organization is linked to that of the request, and counted.\<close>

definition link_session :: "'db kv \<Rightarrow> boot_codecs \<Rightarrow> int \<Rightarrow> string \<Rightarrow> string \<Rightarrow> 'db \<Rightarrow> 'db" where
  "link_session K X now sid oid d =
     (let d1 = set_session_organization K sid oid d;
          d2 = or_same d1 (upsert_org_session_index K (bx_meta X) oid sid now d1)
      in increment_org_metric K now oid ''sessions_created'' 1 d2)"

definition foreign :: string where
  "foreign = ''unauthorized: session belongs to a different organization''"

definition load_session ::
  "'db kv \<Rightarrow> boot_codecs \<Rightarrow> int \<Rightarrow> string \<Rightarrow> string \<Rightarrow> 'db server \<Rightarrow> ((string + engine \<times> session_config option) \<times> 'db server) option" where
  "load_session K X now sid oid s =
     (let stored = get_session_organization K sid (sv_db s)
      in if stored \<noteq> None \<and> stored \<noteq> Some oid then Some (Inl foreign, s)
         else (let d1 = (if stored = None then link_session K X now sid oid (sv_db s) else sv_db s);
                   version = get_session_version K sid d1;
                   d2 = or_same d1 (touch_org_session K (bx_meta X) now oid sid 0 d1);
                   cfg = (case get_config K (bx_config X) sid d2 of Inl _ \<Rightarrow> default_config | Inr c \<Rightarrow> c)
           in map_option (\<lambda>e. (Inr (e, Some cfg),
                s\<lparr>sv_db := d2, sv_engines := AList.update sid e (sv_engines s),
                  sv_configs := AList.update sid cfg (sv_configs s),
                  sv_versions := AList.update sid version (sv_versions s)\<rparr>)) (boot_engine K X now sid d2)))"

definition cached_version :: "string \<Rightarrow> 'db server \<Rightarrow> int" where
  "cached_version sid s = (case map_of (sv_versions s) sid of None \<Rightarrow> 0 | Some v \<Rightarrow> v)"

definition get_engine ::
  "'db kv \<Rightarrow> boot_codecs \<Rightarrow> int \<Rightarrow> string \<Rightarrow> string \<Rightarrow> 'db server \<Rightarrow> ((string + engine \<times> session_config option) \<times> 'db server) option" where
  "get_engine K X now sid oid s0 =
     (let s = s0\<lparr>sv_last_access := AList.update sid now (sv_last_access s0)\<rparr>
      in case map_of (sv_engines s) sid of
           None \<Rightarrow> load_session K X now sid oid s
         | Some e \<Rightarrow>
             (let stored = get_session_organization K sid (sv_db s)
              in if stored \<noteq> None \<and> stored \<noteq> Some oid then Some (Inl foreign, s)
                 else if cached_version sid s = get_session_version K sid (sv_db s)
                 then Some (Inr (e, map_of (sv_configs s) sid), s)
                 else load_session K X now sid oid s))"

end
