(* ===== verification/Governance.thy ===== *)
theory Governance
imports BadgerCatalog
begin

text \<open>
  The policies of an organization, from api/governance.go: the rules read from a policy, the
  controls loaded from all enabled policies, their application to a new fact, and the override of
  protected facts. pf stands for strconv.ParseFloat.
\<close>

section \<open>Rules\<close>

definition float_rule :: "(string \<Rightarrow> real option) \<Rightarrow> gobj \<Rightarrow> string \<Rightarrow> real \<Rightarrow> real" where
  "float_rule pf rules key fallback =
     (case obj_get rules key of
        Some (GFloat x) \<Rightarrow> x
      | Some (GInt n) \<Rightarrow> of_int n
      | Some (GStr s) \<Rightarrow> (case pf (trim_space s) of Some x \<Rightarrow> x | None \<Rightarrow> fallback)
      | _ \<Rightarrow> fallback)"

definition text_item :: "gval \<Rightarrow> string option" where
  "text_item v = (case v of GStr s \<Rightarrow> if trim_space s \<noteq> [] then Some (trim_space s) else None | _ \<Rightarrow> None)"

definition string_slice_rule :: "gobj \<Rightarrow> string \<Rightarrow> string list" where
  "string_slice_rule rules key =
     (case obj_get rules key of
        Some (GStrs ss) \<Rightarrow> ss
      | Some (GList vs) \<Rightarrow> List.map_filter text_item vs
      | _ \<Rightarrow> [])"

definition float_map_rule :: "(string \<Rightarrow> real option) \<Rightarrow> gobj \<Rightarrow> string \<Rightarrow> (string \<times> real) list" where
  "float_map_rule pf rules key =
     (case obj_get rules key of
        Some (GFloatMap m) \<Rightarrow> fold (\<lambda>(k, x). AList.update (trim_space k) x) m []
      | Some (GObj m) \<Rightarrow>
          fold (\<lambda>(k, v). AList.update (trim_space k) (float_rule pf (Some [(''value'', v)]) ''value'' 0)) m []
      | _ \<Rightarrow> [])"

section \<open>Controls\<close>

record policy_control_set =
  pc_policy_ids :: "string list"
  pc_human_review_threshold :: real
  pc_protected_mutation_threshold :: real
  pc_default_entrenchment :: real
  pc_auto_entrenchment :: "(string \<times> real) list"
  pc_review_source_types :: "string list"
  pc_review_fact_ids :: "string list"
  pc_protected_fact_ids :: "string list"
  pc_allowed_source_types :: "string list"
  pc_require_verified :: bool
  pc_max_age_seconds :: int
  pc_verified_claim_keys :: "string list"
  pc_verified_source_types :: "string list"

definition no_controls :: policy_control_set where
  "no_controls = \<lparr>pc_policy_ids = [], pc_human_review_threshold = 0, pc_protected_mutation_threshold = 0,
     pc_default_entrenchment = 0, pc_auto_entrenchment = [], pc_review_source_types = [], pc_review_fact_ids = [],
     pc_protected_fact_ids = [], pc_allowed_source_types = [], pc_require_verified = False, pc_max_age_seconds = 0,
     pc_verified_claim_keys = [], pc_verified_source_types = []\<rparr>"

text \<open>The least of the positive thresholds, 0 when there is none.\<close>

definition tighten :: "real \<Rightarrow> real \<Rightarrow> real" where
  "tighten v old = (if v > 0 \<and> (old = 0 \<or> v < old) then v else old)"

definition tighten_age :: "real \<Rightarrow> int \<Rightarrow> int" where
  "tighten_age v old =
     (if v > 0 then (let age = int64_of_float v in if old = 0 \<or> age < old then age else old) else old)"

definition raise_entrenchment :: "string \<times> real \<Rightarrow> (string \<times> real) list \<Rightarrow> (string \<times> real) list" where
  "raise_entrenchment kv m =
     (case map_of m (fst kv) of
        None \<Rightarrow> AList.update (fst kv) (snd kv) m
      | Some old \<Rightarrow> if snd kv > old then AList.update (fst kv) (snd kv) m else m)"

definition add_policy :: "(string \<Rightarrow> real option) \<Rightarrow> policy \<Rightarrow> policy_control_set \<Rightarrow> policy_control_set" where
  "add_policy pf p c =
     (if \<not> pol_enabled p then c
      else (let r = pol_rules p; add = (\<lambda>key ss. fold List.insert (string_slice_rule r key) ss) in
        \<lparr>pc_policy_ids = pc_policy_ids c @ [pol_id p],
         pc_human_review_threshold = tighten (float_rule pf r ''human_review_threshold'' 0) (pc_human_review_threshold c),
         pc_protected_mutation_threshold =
           tighten (float_rule pf r ''protected_mutation_threshold'' 0) (pc_protected_mutation_threshold c),
         pc_default_entrenchment = max (float_rule pf r ''default_entrenchment'' 0) (pc_default_entrenchment c),
         pc_auto_entrenchment =
           fold raise_entrenchment (float_map_rule pf r ''entrenchment_by_source_type'') (pc_auto_entrenchment c),
         pc_review_source_types = add ''review_source_types'' (pc_review_source_types c),
         pc_review_fact_ids = add ''review_fact_ids'' (pc_review_fact_ids c),
         pc_protected_fact_ids = add ''protected_fact_ids'' (pc_protected_fact_ids c),
         pc_allowed_source_types = add ''grounding_allowed_source_types'' (pc_allowed_source_types c),
         pc_require_verified = (metadata_bool r ''grounding_require_verified'' \<or> pc_require_verified c),
         pc_max_age_seconds = tighten_age (float_rule pf r ''grounding_max_age_seconds'' 0) (pc_max_age_seconds c),
         pc_verified_claim_keys = add ''verification_required_claim_keys'' (pc_verified_claim_keys c),
         pc_verified_source_types = add ''verification_required_source_types'' (pc_verified_source_types c)\<rparr>))"

definition load_policy_controls :: "(string \<Rightarrow> real option) \<Rightarrow> policy list \<Rightarrow> policy_control_set" where
  "load_policy_controls pf ps =
     (let c = fold (add_policy pf) ps no_controls in c\<lparr>pc_policy_ids := sort (pc_policy_ids c)\<rparr>)"

section \<open>Application to a fact\<close>

definition set_meta :: "string \<Rightarrow> gval \<Rightarrow> fact \<Rightarrow> fact" where
  "set_meta k v f = f\<lparr>metadata := obj_put k v (metadata f)\<rparr>"

definition governed_entrenchment :: "policy_control_set \<Rightarrow> fact \<Rightarrow> real" where
  "governed_entrenchment c f =
     clamp_unit_float
       (if entrenchment f > 0 then entrenchment f
        else (let st = metadata_string (metadata f) ''source_type'';
                  e = (if st \<noteq> [] then
                         (case map_of (pc_auto_entrenchment c) st of
                            Some x \<Rightarrow> if x > entrenchment f then x else entrenchment f
                          | None \<Rightarrow> entrenchment f)
                       else entrenchment f)
              in if e \<le> 0 \<and> pc_default_entrenchment c > 0 then pc_default_entrenchment c else e))"

definition review_required :: "policy_control_set \<Rightarrow> fact \<Rightarrow> bool" where
  "review_required c f \<longleftrightarrow>
     (let st = metadata_string (metadata f) ''source_type'' in
      metadata_bool (metadata f) ''requires_human_review'' \<or> fact_id f \<in> set (pc_review_fact_ids c) \<or>
      (st \<noteq> [] \<and> st \<in> set (pc_review_source_types c)) \<or>
      (pc_human_review_threshold c > 0 \<and> effective_entrenchment (Some f) \<ge> pc_human_review_threshold c))"

definition govern_review :: "policy_control_set \<Rightarrow> fact \<Rightarrow> fact" where
  "govern_review c f =
     (if review_required c f
      then (let f1 = set_meta ''requires_human_review'' (GBool True) f
            in if normalize_review_status (review_status f1) = []
               then set_meta ''review_status'' (GStr ReviewPending) (f1\<lparr>review_status := ReviewPending\<rparr>) else f1)
      else f)"

definition govern_mutation :: "policy_control_set \<Rightarrow> fact \<Rightarrow> fact" where
  "govern_mutation c f =
     (if metadata_bool (metadata f) ''protected_mutation'' \<or> fact_id f \<in> set (pc_protected_fact_ids c) \<or>
         (pc_protected_mutation_threshold c > 0 \<and> effective_entrenchment (Some f) \<ge> pc_protected_mutation_threshold c)
      then set_meta ''protected_mutation'' (GBool True) f else f)"

definition govern_verification :: "int \<Rightarrow> policy_control_set \<Rightarrow> fact \<Rightarrow> fact" where
  "govern_verification now c f =
     (let st = metadata_string (metadata f) ''source_type'';
          ck0 = metadata_string (metadata f) ''claim_key'';
          ck = (if ck0 = [] then metadata_string (payload f) ''claim_key'' else ck0);
          req = (metadata_bool (metadata f) ''requires_verification'' \<or> st \<in> set (pc_verified_source_types c) \<or>
                 (ck \<noteq> [] \<and> ck \<in> set (pc_verified_claim_keys c)) \<or> st = ''llm_output'' \<or> st = ''v-logic'');
          f1 = (if req
                then (let g = set_meta ''requires_verification'' (GBool True) f
                      in if metadata_string (metadata g) ''verification_status'' = []
                         then set_meta ''verification_status'' (GStr VerificationUnverified) g else g)
                else f)
      in if metadata_string (metadata f1) ''verification_status'' = [] \<and>
            (st = ''perception'' \<or> st = ''user'' \<or> metadata_bool (metadata f1) ''_global_truth'')
         then set_meta ''verified_at'' (GInt now)
                (set_meta ''verification_method'' (GStr st) (set_meta ''verification_status'' (GStr VerificationVerified) f1))
         else f1)"

definition action_like :: "fact \<Rightarrow> bool" where
  "action_like f \<longleftrightarrow>
     (case obj_get (payload f) ''type'' of Some (GStr v) \<Rightarrow> equal_fold (trim_space v) ''action'' | _ \<Rightarrow> False) \<or>
     has_prefix (fact_id f) ''decision.'' \<or> metadata_bool (metadata f) ''execution_critical''"

definition govern_grounding :: "policy_control_set \<Rightarrow> fact \<Rightarrow> fact" where
  "govern_grounding c f =
     (if \<not> action_like f then f
      else (let f1 = (if pc_allowed_source_types c \<noteq> []
                      then set_meta ''grounding_allowed_source_types'' (GStrs (sort (pc_allowed_source_types c))) f else f);
                f2 = (if pc_require_verified c then set_meta ''grounding_require_verified'' (GBool True) f1 else f1)
            in if pc_max_age_seconds c > 0
               then set_meta ''grounding_max_age_seconds'' (GInt (pc_max_age_seconds c)) f2 else f2))"

definition apply_fact_governance :: "int \<Rightarrow> policy_control_set \<Rightarrow> fact option \<Rightarrow> fact option" where
  "apply_fact_governance now c fo =
     map_option (\<lambda>f.
       let f0 = (if metadata f = None then f\<lparr>metadata := Some []\<rparr> else f);
           f1 = f0\<lparr>entrenchment := governed_entrenchment c f0\<rparr>;
           f2 = govern_mutation c (govern_review c f1);
           f3 = (if pc_policy_ids c \<noteq> [] then set_meta ''policy_ids'' (GStrs (pc_policy_ids c)) f2 else f2)
       in govern_grounding c (govern_verification now c f3)) fo"

text \<open>None is that the mutation may go on, Some the message of the error.\<close>

definition mutation_requires_override :: "fact option \<Rightarrow> string \<Rightarrow> bool \<Rightarrow> string option" where
  "mutation_requires_override fo role force =
     (case fo of None \<Rightarrow> None
      | Some f \<Rightarrow>
          if \<not> metadata_bool (metadata f) ''protected_mutation'' \<and> effective_entrenchment fo < 9 / 10 then None
          else if role = ''admin'' \<and> force then None
          else Some (''fact '' @ fact_id f @ '' is protected by governance controls; admin force=true is required''))"

end
