(* ===== verification/Decisions.thy ===== *)
theory Decisions
imports BadgerDecisions SessionBoot Governance Explain GetStatus DependencyIDs
begin

text \<open>
  The computations of api/decision_contracts.go: the dependencies of a decision, the check of them
  against the engine and the policies, the quorum of verified sources, and the search documents.
  GetStatus may rebuild the dominators, so the engine is threaded; None stands for a call that
  does not return.
\<close>

section \<open>Readers\<close>

definition fact_metadata_string :: "fact option \<Rightarrow> string \<Rightarrow> string" where
  "fact_metadata_string fo key =
     (case fo of None \<Rightarrow> [] | Some f \<Rightarrow> (case obj_get (metadata f) key of Some (GStr v) \<Rightarrow> v | _ \<Rightarrow> []))"

definition unique_strings :: "string list \<Rightarrow> string list" where
  "unique_strings vs = sort (remdups (filter (\<lambda>v. v \<noteq> []) (map trim_space vs)))"

fun first_text :: "string list \<Rightarrow> string" where
  "first_text [] = []"
| "first_text (v # vs) = (if trim_space v \<noteq> [] then v else first_text vs)"

definition decision_version :: "decision \<Rightarrow> int" where
  "decision_version x = (if dc_updated_at x > 0 then dc_updated_at x else dc_created_at x)"

definition verified_at_of :: "fact option \<Rightarrow> int" where
  "verified_at_of fo =
     (case fo of None \<Rightarrow> 0
      | Some f \<Rightarrow> (case obj_get (metadata f) ''verified_at'' of
                    Some (GFloat v) \<Rightarrow> if int64_of_float v > 0 then int64_of_float v else 0
                  | Some (GInt v) \<Rightarrow> if v > 0 then v else 0
                  | _ \<Rightarrow> 0))"

definition asserted_at_of :: "fact option \<Rightarrow> int" where
  "asserted_at_of fo = (case fo of None \<Rightarrow> 0 | Some f \<Rightarrow> asserted_at f)"

section \<open>Dependencies\<close>

datatype request_failure = Panicked | CoreFailed core_error

text \<open>The review status of a fact that is not there is read through a nil pointer.\<close>

definition build_dependency ::
  "int \<Rightarrow> decision \<Rightarrow> string \<Rightarrow> engine \<Rightarrow> ((request_failure + decision_dependency) \<times> engine) option" where
  "build_dependency now x i e =
     (let fo = get_fact e i
      in map_option (\<lambda>(e', st).
           (case fo of None \<Rightarrow> Inl Panicked
            | Some f \<Rightarrow> Inr \<lparr>dd_decision = dc_id x, dd_session = dc_session x, dd_fact = i, dd_type = ''fact'',
                dd_required_status = ''valid'', dd_current_status = st, dd_source_type = fact_source_type fo,
                dd_source_ref = fact_metadata_string fo ''source_ref'',
                dd_verification_status = fact_verification_status fo, dd_verified_at = verified_at_of fo,
                dd_asserted_at = asserted_at_of fo,
                dd_policy_version = first_text [dc_policy_version x, fact_metadata_string fo ''policy_version''],
                dd_hint = fact_metadata_string fo ''explanation_hint'', dd_entrenchment = effective_entrenchment fo,
                dd_review_status = review_status f, dd_review_required = requires_human_review fo\<rparr>, e'))
         (get_status now i e))"

fun build_dependency_list ::
  "int \<Rightarrow> decision \<Rightarrow> string list \<Rightarrow> engine \<Rightarrow> ((request_failure + decision_dependency list) \<times> engine) option" where
  "build_dependency_list now x [] e = Some (Inr [], e)"
| "build_dependency_list now x (i # is) e =
     (case build_dependency now x i e of
        None \<Rightarrow> None
      | Some (Inl q, e') \<Rightarrow> Some (Inl q, e')
      | Some (Inr y, e') \<Rightarrow> map_option (\<lambda>(r, e''). (map_sum id (\<lambda>ys. y # ys) r, e'')) (build_dependency_list now x is e'))"

definition dependency_names :: "engine \<Rightarrow> decision \<Rightarrow> string list \<Rightarrow> (core_error + string list) option" where
  "dependency_names e x given =
     (if dc_fact x \<noteq> [] \<and> given = [] then dependency_ids e (dc_fact x) True else Some (Inr given))"

definition build_decision_dependencies ::
  "int \<Rightarrow> decision \<Rightarrow> string list \<Rightarrow> engine \<Rightarrow> ((request_failure + decision_dependency list) \<times> engine) option" where
  "build_decision_dependencies now x given e =
     (case dependency_names e x given of
        None \<Rightarrow> None
      | Some (Inl err) \<Rightarrow> Some (Inl (CoreFailed err), e)
      | Some (Inr ids) \<Rightarrow> build_dependency_list now x (unique_strings ids) e)"

section \<open>The check\<close>

definition refreshed_dependency :: "status \<Rightarrow> fact option \<Rightarrow> decision_dependency \<Rightarrow> decision_dependency" where
  "refreshed_dependency st fo dep = dep
     \<lparr>dd_current_status := st, dd_source_type := fact_source_type fo,
      dd_verification_status := fact_verification_status fo, dd_verified_at := verified_at_of fo,
      dd_asserted_at := asserted_at_of fo\<rparr>"

definition blocker_of :: "string \<Rightarrow> decision_dependency \<Rightarrow> decision_blocker" where
  "blocker_of reason y =
     \<lparr>db_fact = dd_fact y, db_type = dd_type y, db_required_status = dd_required_status y,
      db_current_status = dd_current_status y, db_reason_code = reason, db_source_type = dd_source_type y,
      db_source_ref = dd_source_ref y, db_verification_status = dd_verification_status y,
      db_verified_at = dd_verified_at y, db_asserted_at = dd_asserted_at y,
      db_policy_version = dd_policy_version y, db_hint = dd_hint y, db_entrenchment = dd_entrenchment y,
      db_review_status = dd_review_status y, db_review_required = dd_review_required y\<rparr>"

definition block_with :: "decision_blocker \<Rightarrow> decision_check \<Rightarrow> decision_check" where
  "block_with b c = c\<lparr>ck_executable := False, ck_reason_codes := ck_reason_codes c @ [db_reason_code b],
     ck_blocked_by := ck_blocked_by c @ [b]\<rparr>"

definition grounding_relevant :: "fact option \<Rightarrow> bool" where
  "grounding_relevant fo =
     (case fo of None \<Rightarrow> False
      | Some f \<Rightarrow> is_root f \<or> metadata_bool (metadata f) ''requires_verification'' \<or> trim_space (fact_source_type fo) \<noteq> [])"

definition wrap64 :: "int \<Rightarrow> int" where
  "wrap64 n = sint (word_of_int n :: 64 word)"

text \<open>The reasons against a dependency, in the order of the tests, from its refreshed copy.\<close>

definition gate_reasons :: "int \<Rightarrow> policy_control_set \<Rightarrow> fact option \<Rightarrow> decision_dependency \<Rightarrow> string list" where
  "gate_reasons now pc fo y =
     (if dd_current_status y < ConfidenceThreshold
      then [if dd_current_status y = 0 then ''dependency_missing_or_invalid'' else ''dependency_invalid'']
      else (if grounding_relevant fo \<and> pc_allowed_source_types pc \<noteq> [] \<and> dd_source_type y \<notin> set (pc_allowed_source_types pc)
            then [''untrusted_source''] else []) @
           (if grounding_relevant fo \<and> pc_require_verified pc \<and> dd_verification_status y \<noteq> VerificationVerified
            then [''unverified_dependency''] else []) @
           (if grounding_relevant fo \<and> pc_max_age_seconds pc > 0 \<and> dd_asserted_at y > 0 \<and>
               wrap64 (now - dd_asserted_at y) > wrap64 (pc_max_age_seconds pc * 1000)
            then [''dependency_too_old''] else []) @
           (if dd_review_required y then [''human_review_required''] else []))"

definition check_dependency ::
  "int \<Rightarrow> policy_control_set \<Rightarrow> decision_dependency \<Rightarrow> decision_check \<times> engine \<Rightarrow> (decision_check \<times> engine) option" where
  "check_dependency now pc dep s =
     (case s of (c, e) \<Rightarrow>
        map_option (\<lambda>(e', st).
            let fo = get_fact e' (dd_fact dep);
                y = refreshed_dependency (if fo = None then 0 else st) fo dep;
                c1 = c\<lparr>ck_snapshots := ck_snapshots c @ [y]\<rparr>
            in (fold (\<lambda>r. block_with (blocker_of r y)) (gate_reasons now pc fo y) c1, e'))
          (get_status now (dd_fact dep) e))"

fun check_dependencies ::
  "int \<Rightarrow> policy_control_set \<Rightarrow> decision_dependency list \<Rightarrow> decision_check \<times> engine \<Rightarrow> (decision_check \<times> engine) option" where
  "check_dependencies now pc [] s = Some s"
| "check_dependencies now pc (dep # ds) s =
     (case check_dependency now pc dep s of None \<Rightarrow> None | Some s' \<Rightarrow> check_dependencies now pc ds s')"

section \<open>The quorum\<close>

definition quorum_number :: "gval \<Rightarrow> int" where
  "quorum_number v =
     (case v of GFloat x \<Rightarrow> int64_of_float x | GInt n \<Rightarrow> n
      | GStr s \<Rightarrow> (case parse_int (trim_space s) of Some n \<Rightarrow> n | None \<Rightarrow> 0) | _ \<Rightarrow> 0)"

definition quorum_of :: "gobj \<Rightarrow> (string \<times> int) list" where
  "quorum_of m =
     (case obj_get m ''verification_quorum_by_claim_key'' of
        Some (GIntMap q) \<Rightarrow> fold (\<lambda>(k, n). AList.update (trim_space k) n) q []
      | Some (GObj q) \<Rightarrow>
          fold (\<lambda>(k, v) acc. if trim_space k \<noteq> [] \<and> quorum_number v > 0
                              then AList.update (trim_space k) (quorum_number v) acc else acc) q []
      | _ \<Rightarrow> [])"

definition quorum_ref :: "engine \<Rightarrow> string \<Rightarrow> decision_dependency \<Rightarrow> string option" where
  "quorum_ref e key y =
     (if dd_verification_status y \<noteq> VerificationVerified then None
      else (case get_fact e (dd_fact y) of
              None \<Rightarrow> None
            | Some f \<Rightarrow>
                if fact_claim_key (Some f) \<noteq> key then None
                else Some (let r = trim_space (dd_source_ref y);
                               r' = (if r = [] then trim_space (metadata_string (metadata f) ''verification_source_ref'') else r)
                           in if r' = [] then dd_source_type y else r')))"

definition quorum_refs :: "engine \<Rightarrow> string \<Rightarrow> decision_dependency list \<Rightarrow> string list" where
  "quorum_refs e key ys = remdups (List.map_filter (quorum_ref e key) ys)"

definition quorum_blocker :: "string \<Rightarrow> string \<Rightarrow> int \<Rightarrow> nat \<Rightarrow> decision_blocker" where
  "quorum_blocker fid key needed have_now =
     \<lparr>db_fact = fid, db_type = ''quorum'', db_required_status = ''verified_quorum_'' @ show_int needed,
      db_current_status = of_nat have_now, db_reason_code = ''verification_quorum_not_met'', db_source_type = [],
      db_source_ref = [], db_verification_status = [], db_verified_at = 0, db_asserted_at = 0, db_policy_version = [],
      db_hint = ''claim_key='' @ key @ '' requires '' @ show_int needed @
        '' independent verified sources, have '' @ show_nat have_now,
      db_entrenchment = 0, db_review_status = [], db_review_required = False\<rparr>"

definition check_quorum :: "engine \<Rightarrow> decision \<Rightarrow> string \<times> int \<Rightarrow> decision_check \<Rightarrow> decision_check" where
  "check_quorum e x q c =
     (case q of (key, needed) \<Rightarrow>
        let n = length (quorum_refs e key (ck_snapshots c))
        in if key = [] \<or> needed \<le> 1 \<or> int n \<ge> needed then c
           else block_with (quorum_blocker (dc_fact x) key needed n) c)"

definition check_summary :: "int \<Rightarrow> engine \<Rightarrow> decision \<Rightarrow> bool \<Rightarrow> string" where
  "check_summary now e x executable =
     (let s = (if dc_fact x \<noteq> [] then (case explain_reasoning now e (dc_fact x) of Inr o1 \<Rightarrow> ex_summary o1 | Inl _ \<Rightarrow> [])
               else [])
      in if s \<noteq> [] then s
         else if executable then ''Decision is executable against the current dependency set.''
         else ''Decision is blocked because one or more dependencies are stale.'')"

definition blank_check :: "int \<Rightarrow> decision \<Rightarrow> decision_check" where
  "blank_check now x =
     \<lparr>ck_decision = dc_id x, ck_session = dc_session x, ck_executable = True, ck_blocked_by = [], ck_reason_codes = [],
      ck_checked_at = now, ck_decision_version = 0, ck_session_version = 0, ck_expires_at = 0, ck_token = [],
      ck_summary = [], ck_snapshots = []\<rparr>"

definition compute_decision_check ::
  "int \<Rightarrow> policy_control_set \<Rightarrow> decision \<Rightarrow> decision_dependency list \<Rightarrow> engine \<Rightarrow> (decision_check \<times> engine) option" where
  "compute_decision_check now pc x ds e =
     map_option (\<lambda>(c, e').
         let c1 = fold (check_quorum e' x) (quorum_of (dc_metadata x)) c
         in (c1\<lparr>ck_reason_codes := unique_strings (ck_reason_codes c1),
               ck_summary := check_summary now e' x (ck_executable c1)\<rparr>, e'))
       (check_dependencies now pc ds (blank_check now x, e))"

definition decision_status_from_check :: "decision_check option \<Rightarrow> string \<Rightarrow> string \<times> string" where
  "decision_status_from_check co existing =
     (case co of None \<Rightarrow> (''active'', existing)
      | Some c \<Rightarrow> if ck_executable c
                 then (if existing = ''executed'' then (''executed'', ''executed'') else (''active'', ''pending''))
                 else (''blocked'', ''blocked''))"

section \<open>Search documents\<close>

definition decision_search_document :: "decision \<Rightarrow> search_document" where
  "decision_search_document x =
     \<lparr>sd_id = ''decision:'' @ dc_id x, sd_org = dc_org x, sd_session = dc_session x, sd_type = ''decision'',
      sd_title = dc_type x,
      sd_body = trim_space (str_join '' '' [dc_type x, dc_action x, dc_subject x, dc_target x, dc_summary x]),
      sd_status = dc_status x, sd_subject = dc_subject x, sd_target = dc_target x, sd_fact = [], sd_decision = dc_id x,
      sd_created_at = dc_created_at x, sd_updated_at = dc_updated_at x,
      sd_metadata = Some [(''execution_status'', GStr (dc_execution_status x)), (''recommended_action'', GStr (dc_action x)),
        (''policy_version'', GStr (dc_policy_version x))]\<rparr>"

text \<open>js stands for the JSON of the payload, f2 for the verb with two decimals.\<close>

definition decision_fact_search_documents ::
  "(gobj \<Rightarrow> string) \<Rightarrow> (real \<Rightarrow> string) \<Rightarrow> string \<Rightarrow> string \<Rightarrow> fact option \<Rightarrow> int \<Rightarrow> search_document list" where
  "decision_fact_search_documents js f2 oid sid fo t =
     (case fo of None \<Rightarrow> []
      | Some f \<Rightarrow> [\<lparr>sd_id = ''fact:'' @ sid @ '':'' @ fact_id f, sd_org = oid, sd_session = sid, sd_type = ''fact'',
          sd_title = fact_id f, sd_body = js (payload f), sd_status = f2 (resolved_status f), sd_subject = [],
          sd_target = [], sd_fact = fact_id f, sd_decision = [], sd_created_at = t, sd_updated_at = t, sd_metadata = None\<rparr>])"

definition session_search_document :: "string \<Rightarrow> string \<Rightarrow> session_config option \<Rightarrow> int \<Rightarrow> search_document" where
  "session_search_document oid sid co t =
     \<lparr>sd_id = ''session:'' @ sid, sd_org = oid, sd_session = sid, sd_type = ''session'', sd_title = sid,
      sd_body = ''session '' @ sid, sd_status = (case co of None \<Rightarrow> [] | Some c \<Rightarrow> cfg_enforcement_mode c),
      sd_subject = [], sd_target = [], sd_fact = [], sd_decision = [], sd_created_at = t, sd_updated_at = t,
      sd_metadata = None\<rparr>"

definition dependency_search_document :: "decision \<Rightarrow> decision_dependency \<Rightarrow> search_document" where
  "dependency_search_document x y =
     \<lparr>sd_id = ''dependency:'' @ dc_id x @ '':'' @ dd_fact y, sd_org = dc_org x, sd_session = dc_session x,
      sd_type = ''dependency'', sd_title = dd_fact y, sd_body = first_text [dd_hint y, dd_source_ref y, dd_policy_version y],
      sd_status = dd_required_status y, sd_subject = dc_subject x, sd_target = [], sd_fact = dd_fact y,
      sd_decision = dc_id x, sd_created_at = dc_created_at x, sd_updated_at = dc_updated_at x, sd_metadata = None\<rparr>"

definition persist_decision_read_models ::
  "'db kv \<Rightarrow> search_document codec \<Rightarrow> int \<Rightarrow> decision \<Rightarrow> decision_dependency list \<Rightarrow> 'db \<Rightarrow> 'db" where
  "persist_decision_read_models K C now x ds d =
     or_same d (upsert_search_documents K C now (decision_search_document x # map (dependency_search_document x) ds) d)"

text \<open>q stands for the parameters of the URL.\<close>

definition parse_decision_filter :: "(string \<Rightarrow> string) \<Rightarrow> decision_filter" where
  "parse_decision_filter q =
     (let num = (\<lambda>k. case parse_int (q k) of Some n \<Rightarrow> n | None \<Rightarrow> 0)
      in \<lparr>df_status = trim_space (q ''status''), df_subject = trim_space (q ''subject''), df_from_ms = num ''from'',
          df_to_ms = num ''to'', df_limit = (if num ''limit'' > 0 \<and> num ''limit'' \<le> 200 then num ''limit'' else 50)\<rparr>)"

end
