(* ===== verification/DecisionHandlers.thy ===== *)
theory DecisionHandlers
imports Decisions
begin

text \<open>
  The handlers of api/decision_contracts.go on the Badger store: a request is its path values,
  the organization and actor the middleware found, and its decoded body. ns is the clock in
  nanoseconds. None is a call that does not return.
\<close>

section \<open>The environment\<close>

record execution_claims =
  tk_session :: string
  tk_decision :: string
  tk_org :: string
  tk_decision_version :: int
  tk_session_version :: int
  tk_check_timestamp :: int
  tk_expires_at :: int
  tk_issued_at :: int
  tk_not_before :: int
  tk_subject :: string

text \<open>
  en_sign and en_verify stand for the JWT library with the key of the server: Inl is the error
  message. Times are in milliseconds, before the library rounds them. en_float stands for
  strconv.ParseFloat, en_cap and en_misuse are those of the dependencies.
\<close>

record 'db decision_env =
  en_kv :: "'db kv"
  en_boot :: boot_codecs
  en_decision :: "decision codec"
  en_dependency :: "decision_dependency codec"
  en_check :: "decision_check codec"
  en_search :: "search_document codec"
  en_policy :: "policy codec"
  en_cap :: "string \<Rightarrow> nat"
  en_misuse :: "(string \<times> string) list \<Rightarrow> 'db \<Rightarrow> 'db"
  en_float :: "string \<Rightarrow> real option"
  en_sign :: "execution_claims \<Rightarrow> string option"
  en_verify :: "int \<Rightarrow> string \<Rightarrow> string + execution_claims"

datatype 'b reply = Failed nat string | CoreRejected nat core_error | Crashed | Done nat 'b

definition millis :: "int \<Rightarrow> int" where
  "millis ns = ns div 1000000"

definition executionTokenTTL :: int where
  "executionTokenTTL = 30000"

section \<open>Shared steps\<close>

text \<open>The engine is the one the cache points to.\<close>

definition put_engine :: "string \<Rightarrow> engine \<Rightarrow> 'db server \<Rightarrow> 'db server" where
  "put_engine sid e s = s\<lparr>sv_engines := AList.update sid e (sv_engines s)\<rparr>"

definition controls_of :: "'db decision_env \<Rightarrow> string \<Rightarrow> 'db \<Rightarrow> policy_control_set" where
  "controls_of E oid d = load_policy_controls (en_float E) (list_policies (en_kv E) (en_policy E) oid d)"

definition stored_decision :: "'db decision_env \<Rightarrow> string \<Rightarrow> string \<Rightarrow> 'db \<Rightarrow> store_error + decision" where
  "stored_decision E sid did d = get_decision (en_kv E) (en_decision E) sid did d"

definition stored_dependencies :: "'db decision_env \<Rightarrow> string \<Rightarrow> string \<Rightarrow> 'db \<Rightarrow> decision_dependency list" where
  "stored_dependencies E sid did d = get_decision_dependencies (en_kv E) (en_dependency E) sid did d"

text \<open>Stores whose errors are ignored, with the stamps the store puts on what it was given.\<close>

definition keep_decision :: "'db decision_env \<Rightarrow> int \<Rightarrow> decision \<Rightarrow> 'db \<Rightarrow> decision \<times> 'db" where
  "keep_decision E ns x d =
     (case save_decision (en_kv E) (en_decision E) (millis ns) (Some x) d of Inl _ \<Rightarrow> (x, d) | Inr r \<Rightarrow> r)"

definition keep_check :: "'db decision_env \<Rightarrow> int \<Rightarrow> string \<Rightarrow> string \<Rightarrow> decision_check \<Rightarrow> 'db \<Rightarrow> decision_check \<times> 'db" where
  "keep_check E ns sid did c d =
     (case save_decision_check (en_kv E) (en_check E) (millis ns) sid did (Some c) d of
        Inl _ \<Rightarrow> (stamped_check (millis ns) sid did c, d) | Inr r \<Rightarrow> r)"

definition keep_documents :: "'db decision_env \<Rightarrow> int \<Rightarrow> decision \<Rightarrow> decision_dependency list \<Rightarrow> 'db \<Rightarrow> 'db" where
  "keep_documents E ns x ys d = persist_decision_read_models (en_kv E) (en_search E) (millis ns) x ys d"

text \<open>The type of these entries is long enough for the slice expression of AppendOrgActivity.\<close>

definition keep_activity :: "'db decision_env \<Rightarrow> int \<Rightarrow> string \<Rightarrow> string \<Rightarrow> string \<Rightarrow> gobj \<Rightarrow> 'db \<Rightarrow> 'db" where
  "keep_activity E ns oid sid actor p d =
     (case append_org_activity (en_kv E) (bx_journal (en_boot E)) ns oid
             ((blank_entry ''decision_record'' sid)\<lparr>je_actor := actor, je_payload := p, je_timestamp := millis ns\<rparr>) d of
        Some (Inr d') \<Rightarrow> d' | _ \<Rightarrow> d)"

text \<open>Three stores in a row, each of which can fail the request.\<close>

definition save_all ::
  "'db decision_env \<Rightarrow> int \<Rightarrow> string \<Rightarrow> decision \<Rightarrow> decision_dependency list \<Rightarrow> decision_check \<Rightarrow> string \<Rightarrow> 'db \<Rightarrow>
     (string + decision \<times> decision_check) \<times> 'db" where
  "save_all E ns sid x0 ys c0 dependencies d =
     (case save_decision (en_kv E) (en_decision E) (millis ns) (Some x0) d of
        Inl _ \<Rightarrow> (Inl ''failed to save decision'', d)
      | Inr (x, d1) \<Rightarrow>
          (case save_decision_dependencies (en_kv E) (en_dependency E) (en_cap E) (en_misuse E) sid (dc_id x) ys d1 of
             Inl _ \<Rightarrow> (Inl (''failed to save '' @ dependencies), d1)
           | Inr d2 \<Rightarrow>
               (case save_decision_check (en_kv E) (en_check E) (millis ns) sid (dc_id x) (Some c0) d2 of
                  Inl _ \<Rightarrow> (Inl ''failed to save decision check'', d2)
                | Inr (c, d3) \<Rightarrow> (Inr (x, c), d3))))"

text \<open>The engine of the session and the decision of the path.\<close>

definition with_decision ::
  "'db decision_env \<Rightarrow> int \<Rightarrow> string \<Rightarrow> string \<Rightarrow> string \<Rightarrow> 'db server \<Rightarrow>
     (engine \<Rightarrow> decision \<Rightarrow> 'db server \<Rightarrow> ('b reply \<times> 'db server) option) \<Rightarrow> ('b reply \<times> 'db server) option" where
  "with_decision E ns sid oid did s k =
     (case get_engine (en_kv E) (en_boot E) (millis ns) sid oid s of
        None \<Rightarrow> None
      | Some (Inl msg, s1) \<Rightarrow> Some (Failed 403 msg, s1)
      | Some (Inr (e, _), s1) \<Rightarrow>
          (case stored_decision E sid did (sv_db s1) of
             Inl _ \<Rightarrow> Some (Failed 404 ''decision not found'', s1)
           | Inr x \<Rightarrow> k e x s1))"

section \<open>Creating\<close>

record create_request =
  cr_id :: string
  cr_fact :: string
  cr_type :: string
  cr_subject :: string
  cr_target :: string
  cr_action :: string
  cr_policy_version :: string
  cr_summary :: string
  cr_dependencies :: "string list"
  cr_metadata :: gobj

definition new_decision_id :: "string \<Rightarrow> string" where
  "new_decision_id random = ''dec_'' @ hex_encode random"

definition requested_decision ::
  "int \<Rightarrow> string \<Rightarrow> string \<Rightarrow> string \<Rightarrow> string \<Rightarrow> session_config \<Rightarrow> create_request \<Rightarrow> decision" where
  "requested_decision now random sid oid actor cfg b =
     \<lparr>dc_id = (if trim_space (cr_id b) = [] then new_decision_id random else trim_space (cr_id b)),
      dc_session = sid, dc_org = oid, dc_fact = trim_space (cr_fact b), dc_type = trim_space (cr_type b),
      dc_subject = trim_space (cr_subject b), dc_target = trim_space (cr_target b),
      dc_status = ''active'', dc_execution_status = ''pending'',
      dc_action = trim_space (cr_action b), dc_policy_version = first_text [trim_space (cr_policy_version b), cfg_schema cfg],
      dc_summary = trim_space (cr_summary b), dc_created_by = actor, dc_created_at = now, dc_updated_at = now,
      dc_last_checked_at = 0, dc_executed_at = 0, dc_executed_by = [], dc_metadata = cr_metadata b\<rparr>"

definition checked_decision :: "decision_check \<Rightarrow> decision \<Rightarrow> decision" where
  "checked_decision c x =
     (let (st, ex) = decision_status_from_check (Some c) (dc_execution_status x)
      in x\<lparr>dc_status := st, dc_execution_status := ex, dc_last_checked_at := ck_checked_at c\<rparr>)"

text \<open>The dependencies and the check of a decision, with the failures of the request.\<close>

definition dependencies_and_check ::
  "'db decision_env \<Rightarrow> int \<Rightarrow> decision \<Rightarrow> string list \<Rightarrow> engine \<Rightarrow> 'db server \<Rightarrow>
     (decision_dependency list \<Rightarrow> decision_check \<Rightarrow> 'db server \<Rightarrow> 'b reply \<times> 'db server) \<Rightarrow> ('b reply \<times> 'db server) option" where
  "dependencies_and_check E ns x given e s k =
     (case build_decision_dependencies (millis ns) x given e of
        None \<Rightarrow> None
      | Some (Inl Panicked, e1) \<Rightarrow> Some (Crashed, put_engine (dc_session x) e1 s)
      | Some (Inl (CoreFailed err), e1) \<Rightarrow> Some (CoreRejected 400 err, put_engine (dc_session x) e1 s)
      | Some (Inr ys, e1) \<Rightarrow>
          map_option (\<lambda>(c, e2). k ys c (put_engine (dc_session x) e2 s))
            (compute_decision_check (millis ns) (controls_of E (dc_org x) (sv_db s)) x ys e1))"

definition handle_create_decision ::
  "'db decision_env \<Rightarrow> int \<Rightarrow> string \<Rightarrow> string \<Rightarrow> string \<Rightarrow> string \<Rightarrow> create_request option \<Rightarrow> 'db server \<Rightarrow>
     (decision reply \<times> 'db server) option" where
  "handle_create_decision E ns random sid oid actor body s =
     (case get_engine (en_kv E) (en_boot E) (millis ns) sid oid s of
        None \<Rightarrow> None
      | Some (Inl msg, s1) \<Rightarrow> Some (Failed 403 msg, s1)
      | Some (Inr (e, cfg), s1) \<Rightarrow>
          (case body of
             None \<Rightarrow> Some (Failed 400 ''invalid request'', s1)
           | Some b \<Rightarrow>
               if trim_space (cr_type b) = [] then Some (Failed 400 ''decision_type is required'', s1)
               else (case cfg of
                  None \<Rightarrow> Some (Crashed, s1)
                | Some cf \<Rightarrow>
                    let x = requested_decision (millis ns) random sid oid actor cf b
                    in dependencies_and_check E ns x (cr_dependencies b) e s1 (\<lambda>ys c s2.
                         let x1 = checked_decision c x;
                             x2 = (if dc_summary x1 = [] then x1\<lparr>dc_summary := ck_summary c\<rparr> else x1);
                             (saved, d) = save_all E ns sid x2 ys c ''decision dependencies'' (sv_db s2)
                         in case saved of
                              Inl msg \<Rightarrow> (Failed 500 msg, s2\<lparr>sv_db := d\<rparr>)
                            | Inr (x3, _) \<Rightarrow> (Done 201 x3, s2\<lparr>sv_db := keep_activity E ns oid sid actor
                                (Some [(''action'', GStr ''decision_created''), (''decision_id'', GStr (dc_id x3)),
                                  (''status'', GStr (dc_status x3))]) (keep_documents E ns x3 ys d)\<rparr>)))))"

section \<open>Reading\<close>

definition owned :: "'db decision_env \<Rightarrow> string \<Rightarrow> string \<Rightarrow> 'db \<Rightarrow> bool" where
  "owned E sid oid d \<longleftrightarrow> get_session_organization (en_kv E) sid d = Some oid"

definition handle_get_decision :: "'db decision_env \<Rightarrow> string \<Rightarrow> string \<Rightarrow> string \<Rightarrow> 'db \<Rightarrow> decision reply" where
  "handle_get_decision E sid oid did d =
     (if \<not> owned E sid oid d then Failed 403 ''unauthorized''
      else (case stored_decision E sid did d of Inl _ \<Rightarrow> Failed 404 ''decision not found'' | Inr x \<Rightarrow> Done 200 x))"

definition handle_list_session_decisions ::
  "'db decision_env \<Rightarrow> (string \<Rightarrow> string) \<Rightarrow> string \<Rightarrow> string \<Rightarrow> 'db \<Rightarrow> decision list reply" where
  "handle_list_session_decisions E q sid oid d =
     (if \<not> owned E sid oid d then Failed 403 ''unauthorized''
      else Done 200 (list_session_decisions (en_kv E) (en_decision E) sid (parse_decision_filter q) d))"

definition handle_decision_lineage ::
  "'db decision_env \<Rightarrow> string \<Rightarrow> string \<Rightarrow> string \<Rightarrow> 'db \<Rightarrow>
     (decision \<times> decision_dependency list \<times> decision_check option) reply" where
  "handle_decision_lineage E sid oid did d =
     (if \<not> owned E sid oid d then Failed 403 ''unauthorized''
      else (case stored_decision E sid did d of
          Inl _ \<Rightarrow> Failed 404 ''decision not found''
        | Inr x \<Rightarrow> Done 200 (x, stored_dependencies E sid did d,
            (case get_latest_decision_check (en_kv E) (en_check E) sid did d of Inl _ \<Rightarrow> None | Inr c \<Rightarrow> Some c))))"

definition handle_list_org_decisions :: "'db decision_env \<Rightarrow> (string \<Rightarrow> string) \<Rightarrow> string \<Rightarrow> 'db \<Rightarrow> decision list reply" where
  "handle_list_org_decisions E q oid d =
     Done 200 (list_org_decisions (en_kv E) (en_decision E) oid (parse_decision_filter q) d)"

definition handle_list_blocked_org_decisions ::
  "'db decision_env \<Rightarrow> (string \<Rightarrow> string) \<Rightarrow> string \<Rightarrow> 'db \<Rightarrow> decision list reply" where
  "handle_list_blocked_org_decisions E q oid d =
     Done 200 (list_org_decisions (en_kv E) (en_decision E) oid ((parse_decision_filter q)\<lparr>df_status := ''blocked''\<rparr>) d)"

definition handle_decision_why_blocked ::
  "'db decision_env \<Rightarrow> int \<Rightarrow> string \<Rightarrow> string \<Rightarrow> string \<Rightarrow> 'db server \<Rightarrow>
     ((decision \<times> decision_check \<times> explanation option) reply \<times> 'db server) option" where
  "handle_decision_why_blocked E ns sid oid did s =
     with_decision E ns sid oid did s (\<lambda>e x s1.
       let explain = (\<lambda>e. if dc_fact x = [] then None
                         else (case explain_reasoning (millis ns) e (dc_fact x) of Inl _ \<Rightarrow> None | Inr o1 \<Rightarrow> Some o1))
       in case get_latest_decision_check (en_kv E) (en_check E) sid did (sv_db s1) of
            Inr c \<Rightarrow> Some (Done 200 (x, c, explain e), s1)
          | Inl _ \<Rightarrow>
              map_option (\<lambda>(c0, e').
                  let (c, d) = keep_check E ns sid did c0 (sv_db s1)
                  in (Done 200 (x, c, explain e'), (put_engine sid e' s1)\<lparr>sv_db := d\<rparr>))
                (compute_decision_check (millis ns) (controls_of E (dc_org x) (sv_db s1)) x
                   (stored_dependencies E sid did (sv_db s1)) e))"

section \<open>Recomputing\<close>

record recompute_request =
  rr_fact :: string
  rr_dependencies :: "string list"

text \<open>A body that does not parse is taken as far as it went.\<close>

definition handle_recompute_decision ::
  "'db decision_env \<Rightarrow> int \<Rightarrow> string \<Rightarrow> string \<Rightarrow> string \<Rightarrow> recompute_request \<Rightarrow> 'db server \<Rightarrow>
     ((decision \<times> decision_check) reply \<times> 'db server) option" where
  "handle_recompute_decision E ns sid oid did b s =
     with_decision E ns sid oid did s (\<lambda>e x0 s1.
       let x = (if trim_space (rr_fact b) \<noteq> [] then x0\<lparr>dc_fact := trim_space (rr_fact b)\<rparr> else x0)
       in dependencies_and_check E ns x (rr_dependencies b) e s1 (\<lambda>ys c s2.
            let x2 = (checked_decision c x)\<lparr>dc_summary := ck_summary c, dc_updated_at := millis ns\<rparr>;
                (saved, d) = save_all E ns sid x2 ys c ''dependencies'' (sv_db s2)
            in case saved of
                 Inl msg \<Rightarrow> (Failed 500 msg, s2\<lparr>sv_db := d\<rparr>)
               | Inr (x3, c3) \<Rightarrow> (Done 200 (x3, c3), s2\<lparr>sv_db := keep_documents E ns x3 ys d\<rparr>)))"

section \<open>Tokens\<close>

definition issue_execution_token :: "'db decision_env \<Rightarrow> string \<Rightarrow> decision \<Rightarrow> decision_check \<Rightarrow> string option" where
  "issue_execution_token E oid x c =
     en_sign E \<lparr>tk_session = dc_session x, tk_decision = dc_id x, tk_org = oid, tk_decision_version = ck_decision_version c,
       tk_session_version = ck_session_version c, tk_check_timestamp = ck_checked_at c, tk_expires_at = ck_expires_at c,
       tk_issued_at = ck_checked_at c, tk_not_before = ck_checked_at c, tk_subject = dc_id x\<rparr>"

definition parse_execution_token :: "'db decision_env \<Rightarrow> int \<Rightarrow> string \<Rightarrow> string + execution_claims" where
  "parse_execution_token E now raw =
     (if trim_space raw = [] then Inl ''execution_token is required'' else en_verify E now (trim_space raw))"

section \<open>Execute-check\<close>

definition check_to_execute ::
  "'db decision_env \<Rightarrow> int \<Rightarrow> string \<Rightarrow> decision_check \<Rightarrow> decision \<Rightarrow> 'db \<Rightarrow> decision \<times> decision_check" where
  "check_to_execute E ns sid c x d =
     (let x1 = (checked_decision c x)\<lparr>dc_summary := ck_summary c, dc_updated_at := millis ns\<rparr>
      in (x1, c\<lparr>ck_session_version := get_session_version (en_kv E) sid d, ck_decision_version := decision_version x1\<rparr>))"

definition handle_execute_decision_check ::
  "'db decision_env \<Rightarrow> int \<Rightarrow> string \<Rightarrow> string \<Rightarrow> string \<Rightarrow> 'db server \<Rightarrow> (decision_check reply \<times> 'db server) option" where
  "handle_execute_decision_check E ns sid oid did s =
     with_decision E ns sid oid did s (\<lambda>e x s1.
       let ys = stored_dependencies E sid did (sv_db s1)
       in map_option (\<lambda>(c0, e').
            let s2 = put_engine sid e' s1;
                (x1, c1) = check_to_execute E ns sid c0 x (sv_db s1);
                finish = (\<lambda>c. let (x2, d1) = keep_decision E ns x1 (sv_db s2); (c3, d2) = keep_check E ns sid did c d1
                             in (Done 200 c3, s2\<lparr>sv_db := keep_documents E ns x2 ys d2\<rparr>))
            in if \<not> ck_executable c1 then finish c1
               else (let c2 = c1\<lparr>ck_expires_at := ck_checked_at c1 + executionTokenTTL\<rparr>
                     in case issue_execution_token E oid x1 c2 of
                          None \<Rightarrow> (Failed 500 ''failed to issue execution token'', s2)
                        | Some t \<Rightarrow> finish (c2\<lparr>ck_token := t\<rparr>)))
          (compute_decision_check (millis ns) (controls_of E (dc_org x) (sv_db s1)) x ys e))"

section \<open>Execute\<close>

text \<open>The tests before the check. A body that is not there gives the empty token.\<close>

definition execution_claims_ok ::
  "'db decision_env \<Rightarrow> int \<Rightarrow> string \<Rightarrow> string \<Rightarrow> string \<Rightarrow> string option \<Rightarrow> decision \<Rightarrow> 'db \<Rightarrow> (nat \<times> string) + execution_claims" where
  "execution_claims_ok E ns sid oid did body x d =
     (if dc_execution_status x = ''executed'' then Inl (409, ''decision already executed'')
      else (case body of
          None \<Rightarrow> Inl (400, ''invalid request'')
        | Some raw \<Rightarrow>
            (case parse_execution_token E (millis ns) raw of
               Inl msg \<Rightarrow> Inl (409, msg)
             | Inr t \<Rightarrow>
                 if tk_session t \<noteq> sid \<or> tk_decision t \<noteq> did \<or> tk_org t \<noteq> oid
                 then Inl (409, ''execution token does not match this decision'')
                 else if tk_session_version t \<noteq> get_session_version (en_kv E) sid d
                 then Inl (409, ''execution token is stale; run execute-check again'')
                 else if tk_decision_version t \<noteq> decision_version x \<or> tk_check_timestamp t \<noteq> dc_last_checked_at x
                 then Inl (409, ''execution token no longer matches the latest decision state'')
                 else Inr t)))"

text \<open>
  What follows the check. The activity entry of a success also has the snapshots, a value that is
  no map or list of the model: snaps stands for it.
\<close>

definition execute_commit ::
  "'db decision_env \<Rightarrow> (decision_dependency list \<Rightarrow> gval) \<Rightarrow> int \<Rightarrow> string \<Rightarrow> string \<Rightarrow> string \<Rightarrow> string \<Rightarrow> execution_claims \<Rightarrow> int \<Rightarrow>
     decision \<Rightarrow> decision_dependency list \<Rightarrow> decision_check \<Rightarrow> 'db \<Rightarrow> (decision option \<times> decision_check) reply \<times> 'db" where
  "execute_commit E snaps ns sid oid did actor t version x ys c0 d =
     (let (c, d1) = keep_check E ns sid did (c0\<lparr>ck_session_version := version, ck_decision_version := tk_decision_version t\<rparr>) d
      in if \<not> ck_executable c
         then (let x1 = x\<lparr>dc_status := ''blocked'', dc_execution_status := ''blocked'', dc_last_checked_at := ck_checked_at c,
                 dc_summary := ck_summary c, dc_updated_at := millis ns\<rparr>;
               (x2, d2) = keep_decision E ns x1 d1
           in (Done 409 (None, c), keep_activity E ns oid sid actor
                (Some [(''action'', GStr ''decision_execute_blocked''), (''decision_id'', GStr (dc_id x2)),
                  (''reason_codes'', GStrs (ck_reason_codes c))])
                (keep_documents E ns x2 ys d2)))
         else (let x1 = x\<lparr>dc_status := ''executed'', dc_execution_status := ''executed'', dc_last_checked_at := ck_checked_at c,
                 dc_executed_at := millis ns, dc_executed_by := actor, dc_updated_at := millis ns, dc_summary := ck_summary c\<rparr>
           in case save_decision (en_kv E) (en_decision E) (millis ns) (Some x1) d1 of
                Inl _ \<Rightarrow> (Failed 500 ''failed to save decision'', d1)
              | Inr (x2, d2) \<Rightarrow> (Done 200 (Some x2, c), keep_activity E ns oid sid actor
                  (Some [(''action'', GStr ''decision_executed''), (''decision_id'', GStr (dc_id x2)),
                    (''checked_at'', GInt (ck_checked_at c)), (''dependencies'', snaps (ck_snapshots c))])
                  (keep_documents E ns x2 ys d2))))"

definition handle_execute_decision ::
  "'db decision_env \<Rightarrow> (decision_dependency list \<Rightarrow> gval) \<Rightarrow> int \<Rightarrow> string \<Rightarrow> string \<Rightarrow> string \<Rightarrow> string \<Rightarrow> string option \<Rightarrow> 'db server \<Rightarrow>
     ((decision option \<times> decision_check) reply \<times> 'db server) option" where
  "handle_execute_decision E snaps ns sid oid did actor body s =
     with_decision E ns sid oid did s (\<lambda>e x s1.
       let ys = stored_dependencies E sid did (sv_db s1)
       in case execution_claims_ok E ns sid oid did body x (sv_db s1) of
            Inl (code, msg) \<Rightarrow> Some (Failed code msg, s1)
          | Inr t \<Rightarrow>
              map_option (\<lambda>(c, e').
                  let (r, d) = execute_commit E snaps ns sid oid did actor t (get_session_version (en_kv E) sid (sv_db s1)) x ys c (sv_db s1)
                  in (r, (put_engine sid e' s1)\<lparr>sv_db := d\<rparr>))
                (compute_decision_check (millis ns) (controls_of E (dc_org x) (sv_db s1)) x ys e))"

end
