(* ===== verification/DecisionProperties.thy ===== *)
theory DecisionProperties
imports Decisions Samples
begin

text \<open>What the check of a decision decides, and which blockers it names.\<close>

section \<open>Statuses\<close>

definition ready_engine :: "engine \<Rightarrow> engine option" where
  "ready_engine e = (if dirty_dominators e then recompute_dominators e else Some e)"

lemma get_status_ready: "get_status now k e = map_option (\<lambda>e'. (e', pruned_status now k e')) (ready_engine e)"
  by (simp add: get_status_def ready_engine_def)

lemma ready_clean: "ready_engine e = Some e' \<Longrightarrow> \<not> dirty_dominators e'"
  by (auto simp: ready_engine_def recompute_dominators_def bind_eq_Some_conv split: if_splits)

lemma ready_again: "ready_engine e = Some e' \<Longrightarrow> ready_engine e' = Some e'"
  using ready_clean [of e e'] by (simp add: ready_engine_def)

lemma pruned_status_cases: "pruned_status now k e = 0 \<or> pruned_status now k e \<ge> ConfidenceThreshold"
  by (auto simp: pruned_status_def Let_def Invalid_def split: option.split)

lemma pruned_status_missing: "fact_at e k = None \<Longrightarrow> pruned_status now k e = 0"
  by (simp add: pruned_status_def Invalid_def)

section \<open>The blockers of the dependencies\<close>

definition snapshot_of :: "int \<Rightarrow> engine \<Rightarrow> decision_dependency \<Rightarrow> decision_dependency" where
  "snapshot_of now e y = refreshed_dependency (pruned_status now (dd_fact y) e) (fact_at e (dd_fact y)) y"

definition dependency_blockers :: "int \<Rightarrow> policy_control_set \<Rightarrow> engine \<Rightarrow> decision_dependency \<Rightarrow> decision_blocker list" where
  "dependency_blockers now pc e y =
     map (\<lambda>r. blocker_of r (snapshot_of now e y)) (gate_reasons now pc (fact_at e (dd_fact y)) (snapshot_of now e y))"

text \<open>A check tells its blockers: their codes are the reasons, and it is executable when there are none.\<close>

definition telling :: "decision_check \<Rightarrow> bool" where
  "telling c \<longleftrightarrow> ck_reason_codes c = map db_reason_code (ck_blocked_by c) \<and> (ck_executable c \<longleftrightarrow> ck_blocked_by c = [])"

lemma telling_block [simp]: "telling c \<Longrightarrow> telling (block_with b c)"
  by (simp add: telling_def block_with_def)

lemma fold_block:
  "ck_blocked_by (fold (\<lambda>r. block_with (g r)) rs c) = ck_blocked_by c @ map g rs"
  "ck_snapshots (fold (\<lambda>r. block_with (g r)) rs c) = ck_snapshots c"
  "telling c \<Longrightarrow> telling (fold (\<lambda>r. block_with (g r)) rs c)"
  by (induction rs arbitrary: c) (simp_all, simp_all add: block_with_def)

lemma check_dependency_ready:
  assumes "ready_engine e = Some e'"
  shows "check_dependency now pc y (c, e) =
    Some (fold (\<lambda>r. block_with (blocker_of r (snapshot_of now e' y)))
      (gate_reasons now pc (fact_at e' (dd_fact y)) (snapshot_of now e' y)) (c\<lparr>ck_snapshots := ck_snapshots c @ [snapshot_of now e' y]\<rparr>), e')"
proof -
  have "(if fact_at e' (dd_fact y) = None then 0 else pruned_status now (dd_fact y) e') = pruned_status now (dd_fact y) e'"
    by (simp add: pruned_status_missing)
  then show ?thesis using assms by (simp add: check_dependency_def get_status_ready snapshot_of_def Let_def)
qed

lemma check_dependencies_ready:
  assumes "check_dependencies now pc ys (c, e) = Some (c', e')" "telling c"
  shows "telling c' \<and> ck_snapshots c' = ck_snapshots c @ map (snapshot_of now e') ys \<and>
    ck_blocked_by c' = ck_blocked_by c @ concat (map (dependency_blockers now pc e') ys) \<and>
    (if ys = [] then e' = e else ready_engine e = Some e')"
  using assms
proof (induction ys arbitrary: c e)
  case (Cons y ys)
  obtain e1 where e1: "ready_engine e = Some e1"
    using Cons.prems(1) by (cases "ready_engine e") (simp_all add: check_dependency_def get_status_ready)
  let ?c = "fold (\<lambda>r. block_with (blocker_of r (snapshot_of now e1 y)))
      (gate_reasons now pc (fact_at e1 (dd_fact y)) (snapshot_of now e1 y)) (c\<lparr>ck_snapshots := ck_snapshots c @ [snapshot_of now e1 y]\<rparr>)"
  have run: "check_dependencies now pc ys (?c, e1) = Some (c', e')"
    using Cons.prems(1) by (simp add: check_dependency_ready [OF e1])
  have t: "telling ?c" using Cons.prems(2) by (intro fold_block(3)) (simp add: telling_def)
  have ih: "telling c' \<and> ck_snapshots c' = ck_snapshots ?c @ map (snapshot_of now e') ys \<and>
      ck_blocked_by c' = ck_blocked_by ?c @ concat (map (dependency_blockers now pc e') ys) \<and> (if ys = [] then e' = e1 else ready_engine e1 = Some e')"
    by (rule Cons.IH [OF run t])
  then have "e' = e1" using ready_again [OF e1] by (auto split: if_splits)
  then show ?case using ih e1 by (simp add: fold_block dependency_blockers_def [of now pc e1 y])
qed simp

lemma check_dependencies_total:
  assumes "ready_engine e \<noteq> None"
  shows "check_dependencies now pc ys (c, e) \<noteq> None"
  using assms
proof (induction ys arbitrary: c e)
  case (Cons y ys)
  then obtain e1 where e1: "ready_engine e = Some e1" by auto
  then show ?case using Cons.IH [of e1] ready_again [OF e1] by (simp add: check_dependency_ready [OF e1])
qed simp

section \<open>The quorum\<close>

definition quorum_met :: "engine \<Rightarrow> decision_dependency list \<Rightarrow> string \<times> int \<Rightarrow> bool" where
  "quorum_met e ys q \<longleftrightarrow>
     (case q of (key, needed) \<Rightarrow>
        key = [] \<or> needed \<le> 1 \<or> int (card {r. \<exists>y \<in> set ys. quorum_ref e key y = Some r}) \<ge> needed)"

lemma quorum_refs_card: "length (quorum_refs e key ys) = card {r. \<exists>y \<in> set ys. quorum_ref e key y = Some r}"
proof -
  have "set (List.map_filter (quorum_ref e key) ys) = {r. \<exists>y \<in> set ys. quorum_ref e key y = Some r}"
    by (auto simp: List.map_filter_def image_iff) (metis option.sel)
  then show ?thesis by (simp add: quorum_refs_def length_remdups_card_conv)
qed

lemma check_quorum_cases:
  "check_quorum e x q c = (if quorum_met e (ck_snapshots c) q then c
     else block_with (quorum_blocker (dc_fact x) (fst q) (snd q) (length (quorum_refs e (fst q) (ck_snapshots c)))) c)"
  by (cases q) (simp add: check_quorum_def quorum_met_def quorum_refs_card Let_def)

lemma fold_quorum:
  assumes "telling c"
  shows "telling (fold (check_quorum e x) qs c) \<and> ck_snapshots (fold (check_quorum e x) qs c) = ck_snapshots c \<and>
    (\<exists>bs. ck_blocked_by (fold (check_quorum e x) qs c) = ck_blocked_by c @ bs \<and>
      (bs = [] \<longleftrightarrow> (\<forall>q \<in> set qs. quorum_met e (ck_snapshots c) q)) \<and> (\<forall>b \<in> set bs. db_reason_code b = ''verification_quorum_not_met''))"
  using assms
proof (induction qs arbitrary: c)
  case (Cons q qs)
  show ?case
  proof (cases "quorum_met e (ck_snapshots c) q")
    case True
    then show ?thesis using Cons by (simp add: check_quorum_cases)
  next
    case False
    define b where "b = quorum_blocker (dc_fact x) (fst q) (snd q) (length (quorum_refs e (fst q) (ck_snapshots c)))"
    have code: "db_reason_code b = ''verification_quorum_not_met''" by (simp add: b_def quorum_blocker_def)
    have step: "fold (check_quorum e x) (q # qs) c = fold (check_quorum e x) qs (block_with b c)"
      using False by (simp add: check_quorum_cases b_def)
    have kept: "ck_snapshots (block_with b c) = ck_snapshots c" "ck_blocked_by (block_with b c) = ck_blocked_by c @ [b]"
      by (simp_all add: block_with_def)
    obtain bs where bs: "ck_blocked_by (fold (check_quorum e x) qs (block_with b c)) = ck_blocked_by (block_with b c) @ bs"
      "\<forall>b \<in> set bs. db_reason_code b = ''verification_quorum_not_met''"
      "telling (fold (check_quorum e x) qs (block_with b c))"
      "ck_snapshots (fold (check_quorum e x) qs (block_with b c)) = ck_snapshots (block_with b c)"
      using Cons.IH [OF telling_block [OF Cons.prems, of b]] by blast
    show ?thesis unfolding step using bs kept False code by (intro conjI exI [of _ "b # bs"]) auto
  qed
qed simp

text \<open>The time of a check is the one it starts with.\<close>

lemma checked_at_block [simp]: "ck_checked_at (block_with b c) = ck_checked_at c"
  by (simp add: block_with_def)

lemma checked_at_fold: "ck_checked_at (fold (\<lambda>r. block_with (g r)) rs c) = ck_checked_at c"
  by (induction rs arbitrary: c) simp_all

lemma checked_at_quorum: "ck_checked_at (fold (check_quorum e x) qs c) = ck_checked_at c"
  by (induction qs arbitrary: c) (simp_all add: check_quorum_cases)

lemma checked_at_dependencies: "check_dependencies now pc ys s = Some s' \<Longrightarrow> ck_checked_at (fst s') = ck_checked_at (fst s)"
proof (induction ys arbitrary: s)
  case (Cons y ys)
  obtain s1 where s1: "check_dependency now pc y s = Some s1" "check_dependencies now pc ys s1 = Some s'"
    using Cons.prems by (auto split: option.splits)
  then have "ck_checked_at (fst s1) = ck_checked_at (fst s)"
    by (auto simp: check_dependency_def Let_def checked_at_fold split: prod.splits)
  then show ?case using Cons.IH [OF s1(2)] by simp
qed simp

lemma compute_check_time: "compute_decision_check now pc x ys e = Some (c, e') \<Longrightarrow> ck_checked_at c = now"
  using checked_at_dependencies [of now pc ys "(blank_check now x, e)"]
  by (fastforce simp: compute_decision_check_def Let_def checked_at_quorum blank_check_def)

section \<open>The verdict\<close>

text \<open>What a decision asks of a dependency, at the statuses and facts of the engine.\<close>

definition dependency_met :: "int \<Rightarrow> policy_control_set \<Rightarrow> engine \<Rightarrow> decision_dependency \<Rightarrow> bool" where
  "dependency_met now pc e y \<longleftrightarrow>
     (\<exists>f. fact_at e (dd_fact y) = Some f \<and> pruned_status now (dd_fact y) e \<ge> ConfidenceThreshold \<and>
        \<not> dd_review_required y \<and>
        (grounding_relevant (Some f) \<longrightarrow>
           (pc_allowed_source_types pc = [] \<or> fact_source_type (Some f) \<in> set (pc_allowed_source_types pc)) \<and>
           (pc_require_verified pc \<longrightarrow> fact_verification_status (Some f) = VerificationVerified) \<and>
           (pc_max_age_seconds pc > 0 \<and> asserted_at f > 0 \<longrightarrow>
              wrap64 (now - asserted_at f) \<le> wrap64 (pc_max_age_seconds pc * 1000))))"

lemma dependency_blockers_none: "dependency_blockers now pc e y = [] \<longleftrightarrow> dependency_met now pc e y"
  using pruned_status_missing [of e "dd_fact y" now]
  by (cases "fact_at e (dd_fact y)")
    (auto simp: dependency_blockers_def dependency_met_def gate_reasons_def snapshot_of_def refreshed_dependency_def
      asserted_at_of_def ConfidenceThreshold_def)

definition reason_codes :: "string set" where
  "reason_codes = {''dependency_missing_or_invalid'', ''untrusted_source'', ''unverified_dependency'', ''dependency_too_old'',
     ''human_review_required'', ''verification_quorum_not_met''}"

lemma dependency_blockers_codes:
  assumes "b \<in> set (dependency_blockers now pc e y)"
  shows "db_reason_code b \<in> reason_codes" "db_fact b = dd_fact y"
proof -
  have "r \<in> reason_codes" if "r \<in> set (gate_reasons now pc fo (snapshot_of now e y))" for r fo
    using that pruned_status_cases [of now "dd_fact y" e]
    by (auto simp: gate_reasons_def reason_codes_def snapshot_of_def refreshed_dependency_def split: if_splits)
  then show "db_reason_code b \<in> reason_codes" "db_fact b = dd_fact y" using assms
    by (auto simp: dependency_blockers_def blocker_of_def snapshot_of_def refreshed_dependency_def)
qed

lemma reason_codes_trimmed: "set rs \<subseteq> reason_codes \<Longrightarrow> set (unique_strings rs) = set rs"
proof -
  assume rs: "set rs \<subseteq> reason_codes"
  have "trim_space r = r \<and> r \<noteq> []" if "r \<in> reason_codes" for r
    using that unfolding reason_codes_def by (elim insertE emptyE) (simp_all add: trim_space_def is_space_def char_code_def)
  with rs have t: "\<forall>r \<in> set rs. trim_space r = r \<and> r \<noteq> []" by blast
  then have "map trim_space rs = rs" by (simp add: map_idI)
  moreover have "filter (\<lambda>v. v \<noteq> []) rs = rs" using t by (simp add: filter_id_conv)
  ultimately show ?thesis by (simp add: unique_strings_def)
qed

lemma compute_check:
  assumes "compute_decision_check now pc x ys e = Some (c, e')"
  obtains bs where "ck_snapshots c = map (snapshot_of now e') ys"
    and "ck_blocked_by c = concat (map (dependency_blockers now pc e') ys) @ bs"
    and "bs = [] \<longleftrightarrow> (\<forall>q \<in> set (quorum_of (dc_metadata x)). quorum_met e' (map (snapshot_of now e') ys) q)"
    and "\<forall>b \<in> set bs. db_reason_code b = ''verification_quorum_not_met''"
    and "ck_executable c \<longleftrightarrow> ck_blocked_by c = []" "ck_reason_codes c = unique_strings (map db_reason_code (ck_blocked_by c))"
    and "if ys = [] then e' = e else ready_engine e = Some e'"
proof -
  obtain c1 where c1: "check_dependencies now pc ys (blank_check now x, e) = Some (c1, e')"
    and c: "c = (fold (check_quorum e' x) (quorum_of (dc_metadata x)) c1)\<lparr>
        ck_reason_codes := unique_strings (ck_reason_codes (fold (check_quorum e' x) (quorum_of (dc_metadata x)) c1)),
        ck_summary := check_summary now e' x (ck_executable (fold (check_quorum e' x) (quorum_of (dc_metadata x)) c1))\<rparr>"
    using assms by (auto simp: compute_decision_check_def Let_def)
  have "telling (blank_check now x)" by (simp add: telling_def blank_check_def)
  from check_dependencies_ready [OF c1 this] have r: "telling c1" "ck_snapshots c1 = map (snapshot_of now e') ys"
    "ck_blocked_by c1 = concat (map (dependency_blockers now pc e') ys)" "if ys = [] then e' = e else ready_engine e = Some e'"
    by (simp_all add: blank_check_def)
  obtain bs where "telling (fold (check_quorum e' x) (quorum_of (dc_metadata x)) c1)"
    "ck_snapshots (fold (check_quorum e' x) (quorum_of (dc_metadata x)) c1) = ck_snapshots c1"
    "ck_blocked_by (fold (check_quorum e' x) (quorum_of (dc_metadata x)) c1) = ck_blocked_by c1 @ bs"
    "bs = [] \<longleftrightarrow> (\<forall>q \<in> set (quorum_of (dc_metadata x)). quorum_met e' (ck_snapshots c1) q)"
    "\<forall>b \<in> set bs. db_reason_code b = ''verification_quorum_not_met''"
    using fold_quorum [OF r(1), of e' x "quorum_of (dc_metadata x)"] by blast
  then show thesis using that [of bs] r by (simp add: c telling_def)
qed

lemma check_verdict:
  assumes "compute_decision_check now pc x ys e = Some (c, e')"
  shows "(ck_executable c \<longleftrightarrow> (\<forall>y \<in> set ys. dependency_met now pc e' y) \<and>
      (\<forall>q \<in> set (quorum_of (dc_metadata x)). quorum_met e' (ck_snapshots c) q)) \<and>
    (ck_executable c \<longleftrightarrow> ck_blocked_by c = []) \<and>
    set (ck_reason_codes c) = db_reason_code ` set (ck_blocked_by c) \<and> sorted_wrt (<) (ck_reason_codes c) \<and>
    (\<forall>y \<in> set ys. \<not> dependency_met now pc e' y \<longrightarrow> (\<exists>b \<in> set (ck_blocked_by c). db_fact b = dd_fact y)) \<and>
    ''dependency_invalid'' \<notin> set (ck_reason_codes c)"
proof -
  obtain bs where c: "ck_snapshots c = map (snapshot_of now e') ys"
    "ck_blocked_by c = concat (map (dependency_blockers now pc e') ys) @ bs"
    "bs = [] \<longleftrightarrow> (\<forall>q \<in> set (quorum_of (dc_metadata x)). quorum_met e' (map (snapshot_of now e') ys) q)"
    "\<forall>b \<in> set bs. db_reason_code b = ''verification_quorum_not_met''" "ck_executable c \<longleftrightarrow> ck_blocked_by c = []"
    "ck_reason_codes c = unique_strings (map db_reason_code (ck_blocked_by c))"
    by (rule compute_check [OF assms])
  have codes: "db_reason_code ` set (ck_blocked_by c) \<subseteq> reason_codes"
    using c(4) dependency_blockers_codes(1) by (fastforce simp: c(2) reason_codes_def)
  then have set: "set (ck_reason_codes c) = db_reason_code ` set (ck_blocked_by c)"
    using reason_codes_trimmed [of "map db_reason_code (ck_blocked_by c)"] by (simp add: c(6))
  have "ck_executable c \<longleftrightarrow> (\<forall>y \<in> set ys. dependency_met now pc e' y) \<and>
      (\<forall>q \<in> set (quorum_of (dc_metadata x)). quorum_met e' (ck_snapshots c) q)"
    unfolding c(5) c(1) using c(2,3) dependency_blockers_none by auto
  moreover have "\<exists>b \<in> set (ck_blocked_by c). db_fact b = dd_fact y"
    if y: "y \<in> set ys" and n: "\<not> dependency_met now pc e' y" for y
  proof -
    obtain b where "b \<in> set (dependency_blockers now pc e' y)"
      using n dependency_blockers_none by (metis list.set_intros(1) neq_Nil_conv)
    then show ?thesis using y dependency_blockers_codes(2) [of b now pc e' y] by (intro bexI [of _ b]) (auto simp: c(2))
  qed
  moreover have "sorted_wrt (<) (ck_reason_codes c)"
    by (simp add: c(6) unique_strings_def strict_sorted_iff)
  moreover have "''dependency_invalid'' \<notin> reason_codes" by (simp add: reason_codes_def)
  ultimately show ?thesis using c(5) set codes by blast
qed

lemma decision_check_returns:
  assumes "any_history e" "dirty_dominators e \<or> dominators_fresh e"
  obtains c e' where "compute_decision_check now pc x ys e = Some (c, e')" "plain_of e' = plain_of e"
proof -
  have wf: "wf_engine e" using any_history_inv [OF assms(1)] by simp
  obtain e1 where "get_status now [] e = Some (e1, pruned_status now [] e1)" and e1: "plain_of e1 = plain_of e"
    by (rule get_status_total [OF wf assms(2)])
  then have ready: "ready_engine e = Some e1" by (auto simp: get_status_ready)
  then have "check_dependencies now pc ys (blank_check now x, e) \<noteq> None" by (intro check_dependencies_total) simp
  then obtain s where s: "check_dependencies now pc ys (blank_check now x, e) = Some s" by blast
  obtain c0 e' where "s = (c0, e')" by (cases s)
  then obtain c where c: "compute_decision_check now pc x ys e = Some (c, e')"
    using s by (simp add: compute_decision_check_def Let_def)
  obtain bs where "if ys = [] then e' = e else ready_engine e = Some e'" by (rule compute_check [OF c])
  then have "plain_of e' = plain_of e" using ready e1 by (auto split: if_splits)
  then show thesis using that c by blast
qed

text \<open>
  C23: The check of a decision returns on every reachable engine and changes nothing in it but the
  dominators. It finds the decision executable exactly when every dependency is met and every
  requested quorum is reached, at the statuses GetStatus gives. It then has no blockers; otherwise
  the reason codes are those of its blockers, sorted and without duplicates, and each dependency
  that is not met is named by one. The code dependency_invalid never occurs.
\<close>

theorem decision_check_exact:
  assumes "any_history e" "dirty_dominators e \<or> dominators_fresh e"
  shows "\<exists>c e'. compute_decision_check now pc x ys e = Some (c, e') \<and> plain_of e' = plain_of e \<and>
    (ck_executable c \<longleftrightarrow> (\<forall>y \<in> set ys. dependency_met now pc e' y) \<and>
      (\<forall>q \<in> set (quorum_of (dc_metadata x)). quorum_met e' (ck_snapshots c) q)) \<and>
    (ck_executable c \<longleftrightarrow> ck_blocked_by c = []) \<and>
    set (ck_reason_codes c) = db_reason_code ` set (ck_blocked_by c) \<and> sorted_wrt (<) (ck_reason_codes c) \<and>
    (\<forall>y \<in> set ys. \<not> dependency_met now pc e' y \<longrightarrow> (\<exists>b \<in> set (ck_blocked_by c). db_fact b = dd_fact y)) \<and>
    ''dependency_invalid'' \<notin> set (ck_reason_codes c)"
proof -
  obtain c e' where c: "compute_decision_check now pc x ys e = Some (c, e')" "plain_of e' = plain_of e"
    by (rule decision_check_returns [OF assms])
  then show ?thesis using check_verdict [OF c(1)] by blast
qed

definition sample_decision :: decision where
  "sample_decision =
     \<lparr>dc_id = ''d1'', dc_session = ''s'', dc_org = ''org1'', dc_fact = [], dc_type = ''pay'', dc_subject = [], dc_target = [],
      dc_status = ''active'', dc_execution_status = ''pending'', dc_action = [], dc_policy_version = [], dc_summary = [],
      dc_created_by = ''u'', dc_created_at = 3, dc_updated_at = 3, dc_last_checked_at = 0, dc_executed_at = 0,
      dc_executed_by = [], dc_metadata = None\<rparr>"

definition sample_dependency :: "string \<Rightarrow> decision_dependency" where
  "sample_dependency i =
     \<lparr>dd_decision = ''d1'', dd_session = ''s'', dd_fact = i, dd_type = ''fact'', dd_required_status = ''valid'',
      dd_current_status = 1, dd_source_type = [], dd_source_ref = [], dd_verification_status = [], dd_verified_at = 0,
      dd_asserted_at = 0, dd_policy_version = [], dd_hint = [], dd_entrenchment = 0, dd_review_status = [],
      dd_review_required = False\<rparr>"

lemma decision_check_exact_witness:
  "\<exists>c e'. compute_decision_check 5 no_controls sample_decision [sample_dependency ''D'', sample_dependency ''Z''] sample_engine =
      Some (c, e') \<and> \<not> ck_executable c \<and> (\<exists>b \<in> set (ck_blocked_by c). db_fact b = ''Z'')"
proof -
  have "fact_at sample_engine ''Z'' = None" by code_simp
  then have z: "\<not> dependency_met 5 no_controls e' (sample_dependency ''Z'')" if "plain_of e' = plain_of sample_engine" for e'
    using plain_at(1) [of e' "''Z''"] plain_at(1) [of sample_engine "''Z''"] that
    by (auto simp: dependency_met_def sample_dependency_def)
  obtain c e' where "compute_decision_check 5 no_controls sample_decision [sample_dependency ''D'', sample_dependency ''Z'']
      sample_engine = Some (c, e')" "plain_of e' = plain_of sample_engine"
    and x: "ck_executable c \<longleftrightarrow> (\<forall>y \<in> set [sample_dependency ''D'', sample_dependency ''Z'']. dependency_met 5 no_controls e' y) \<and>
      (\<forall>q \<in> set (quorum_of (dc_metadata sample_decision)). quorum_met e' (ck_snapshots c) q)"
    and y: "\<forall>y \<in> set [sample_dependency ''D'', sample_dependency ''Z'']. \<not> dependency_met 5 no_controls e' y \<longrightarrow>
      (\<exists>b \<in> set (ck_blocked_by c). db_fact b = dd_fact y)"
    using decision_check_exact [OF sample_any_history disjI1 [OF sample_facts(4)], of 5 no_controls sample_decision
        "[sample_dependency ''D'', sample_dependency ''Z'']"] by blast
  moreover have "dd_fact (sample_dependency ''Z'') = ''Z''" by (simp add: sample_dependency_def)
  ultimately show ?thesis using z by auto
qed

end
