(* ===== verification/BootProperties.thy ===== *)
theory BootProperties
imports SessionBoot LogProperties StoreProperties Samples
begin

text \<open>The engine that getEngine gives a request: whose session it is, and what it holds.\<close>

section \<open>Organizations\<close>

lemma load_session_org:
  assumes "load_session K X now sid oid s = Some (r, s')"
  shows "get_session_organization K sid (sv_db s) = Some o' \<Longrightarrow> o' \<noteq> oid \<Longrightarrow> r = Inl foreign \<and> s' = s"
    "r = Inl msg \<Longrightarrow> \<exists>o'. get_session_organization K sid (sv_db s) = Some o' \<and> o' \<noteq> oid"
  using assms by (auto simp: load_session_def Let_def split: if_splits)

text \<open>
  A session that belongs to an organization gives its engine to no other one: such a
  request is refused, whether the engine is cached or not, and changes nothing but the time of the
  last access. Only such requests are refused.
\<close>

theorem engine_isolated:
  assumes "get_engine K X now sid oid s = Some (r, s')"
  shows "(r = Inl foreign) = (get_session_organization K sid (sv_db s) \<notin> {None, Some oid}) \<and>
    (r = Inl foreign \<longrightarrow> s' = s\<lparr>sv_last_access := AList.update sid now (sv_last_access s)\<rparr>) \<and>
    (r \<noteq> Inl foreign \<longrightarrow> (\<exists>e cfg. r = Inr (e, cfg)))"
  using assms
  by (auto simp: get_engine_def load_session_def Let_def split: if_splits option.splits)

section \<open>Reconstruction\<close>

text \<open>The operations whose entries getEngine replays.\<close>

fun boot_journalled :: "engine_op \<Rightarrow> bool" where
  "boot_journalled (OpConfidence k c) \<longleftrightarrow> False"
| "boot_journalled (OpVerify k st m ref r v) \<longleftrightarrow> trim_space k \<noteq> [] \<and> v > 0"
| "boot_journalled x \<longleftrightarrow> clockless x"

lemma boot_journalled_clockless: "boot_journalled x \<Longrightarrow> clockless x"
  by (cases x) auto

lemma boot_event:
  assumes "boot_journalled x" "run_op now x e = Some (Inr e')"
  shows "boot_entry now ((event_of sid x)\<lparr>je_timestamp := t\<rparr>) e = Some e'"
proof -
  have "k \<noteq> []" if "trim_space k \<noteq> []" for k using that by auto
  then show ?thesis using assms
    by (cases x) (auto simp: boot_entry_def blank_entry_def Let_def ignoring_def entry_fact_id_def payload_int64_from_float_def)
qed

definition log_of :: "(string \<times> int \<times> engine_op) list \<Rightarrow> (int \<times> journal_entry) list" where
  "log_of xs = map (\<lambda>(sid, ns, x). (ns, event_of sid x)) xs"

lemma event_session [simp]: "je_session (event_of sid x) = sid" "je_timestamp (event_of sid x) = 0"
  by (cases x; simp add: blank_entry_def)+

lemma entry_at_event: "entry_at ns (event_of sid x) = (event_of sid x)\<lparr>je_timestamp := ns div 1000000\<rparr>"
  by (simp add: entry_at_def)

lemma boot_run:
  assumes "live_run xs s = Some s'" "\<forall>(i, t, x) \<in> set xs. boot_journalled x"
    and "\<forall>i. wf_engine (s i) \<and> timeless (s i)"
  shows "boot_entries now (map snd (own_entries sid (log_of xs))) (s sid) = Some (s' sid)"
  using assms
proof (induction xs s rule: live_run.induct)
  case (1 s)
  then show ?case by (simp add: log_of_def own_entries_def)
next
  case (2 i t x xs s)
  obtain e where e: "run_op t x (s i) = Some (Inr e)" "live_run xs (s(i := e)) = Some s'"
    using "2.prems"(1) by (auto split: option.splits sum.splits)
  have x: "boot_journalled x" using "2.prems"(2) by auto
  have s: "wf_engine (s i)" "timeless (s i)" using "2.prems"(3) by auto
  have run: "run_op now x (s i) = Some (Inr e)" and tl: "timeless e"
    using run_op_timeless [OF s boot_journalled_clockless [OF x], of now t] e(1) by auto
  have "wf_engine e" using running.act_keeps [OF s(1), of t x] e(1) by simp
  then have "boot_entries now (map snd (own_entries sid (log_of xs))) ((s(i := e)) sid) = Some (s' sid)"
    using "2.IH" [OF e(1) refl e(2)] "2.prems"(2,3) tl by auto
  then show ?case
    using boot_event [OF x run] by (auto simp: log_of_def own_entries_Cons entry_at_event)
qed

section \<open>The frame of getEngine\<close>

text \<open>The keys that getEngine may write.\<close>

definition boot_keys :: "string \<Rightarrow> string set" where
  "boot_keys sid = {k. has_prefix k ''org:''} \<union> {session_org_key sid, session_version_key sid}"

lemma put_json_frame: "kv_laws K \<Longrightarrow> k \<noteq> key \<Longrightarrow> kv_get K (or_same d (put_json K C key x d)) k = kv_get K d k"
  by (simp add: or_same_def put_json_def split: option.split sum.split)

lemma touch_frame:
  "kv_laws K \<Longrightarrow> \<not> has_prefix k ''org:'' \<Longrightarrow> kv_get K (or_same d (touch_org_session K C now oid sid n d)) k = kv_get K d k"
  unfolding touch_org_session_def Let_def by (rule put_json_frame) (auto simp: session_index_key_def has_prefix_def)

lemma upsert_frame:
  "kv_laws K \<Longrightarrow> \<not> has_prefix k ''org:'' \<Longrightarrow> kv_get K (or_same d (upsert_org_session_index K C oid sid now d)) k = kv_get K d k"
  unfolding upsert_org_session_index_def Let_def by (rule put_json_frame) (auto simp: session_index_key_def has_prefix_def)

lemma metric_frame:
  "kv_laws K \<Longrightarrow> \<not> has_prefix k ''org:'' \<Longrightarrow> kv_get K (increment_org_metric K now oid m n d) k = kv_get K d k"
  by (auto simp: increment_org_metric_def add_counter_def metric_key_def metric_ts_key_def metric_ts_prefix_def has_prefix_def)

lemma link_frame:
  assumes "kv_laws K" "k \<notin> boot_keys sid"
  shows "kv_get K (link_session K X now sid oid d) k = kv_get K d k"
  using assms by (auto simp: link_session_def Let_def metric_frame upsert_frame boot_keys_def
      set_session_organization_def bump_session_version_def)

lemma link_org:
  assumes "kv_laws K"
  shows "kv_get K (link_session K X now sid oid d) (session_org_key sid) = Some oid"
proof -
  have "\<not> has_prefix (session_org_key sid) ''org:''" by (simp add: session_org_key_def has_prefix_def)
  moreover have "session_org_key sid \<noteq> session_version_key sid" by (simp add: session_org_key_def session_version_key_def)
  ultimately show ?thesis using assms
    by (simp add: link_session_def Let_def metric_frame upsert_frame set_session_organization_def bump_session_version_def)
qed

lemma load_session_frame:
  assumes "kv_laws K" "load_session K X now sid oid s = Some (r, s')" "k \<notin> boot_keys sid"
  shows "kv_get K (sv_db s') k = kv_get K (sv_db s) k"
proof -
  have "\<not> has_prefix k ''org:''" using assms(3) by (simp add: boot_keys_def)
  then show ?thesis using assms(2) link_frame [OF assms(1,3)]
    by (auto simp: load_session_def Let_def touch_frame [OF assms(1)] split: if_splits)
qed

text \<open>The reconstruction reads the snapshot and the history only.\<close>

lemma boot_engine_cong:
  assumes "kv_get K d (snapshot_key sid) = kv_get K d' (snapshot_key sid)"
    and "scan_prefix K d (history_prefix sid) = scan_prefix K d' (history_prefix sid)"
  shows "boot_engine K X now sid d = boot_engine K X now sid d'"
proof -
  have "boot_snapshot K X sid d = boot_snapshot K X sid d'"
    using assms(1) by (simp add: boot_snapshot_def get_latest_snapshot_def get_json_def)
  moreover have "boot_history K X sid ts d = boot_history K X sid ts d'" for ts
    using assms(2) by (simp add: boot_history_def get_session_history_after_def get_session_history_def)
  ultimately show ?thesis by (simp add: boot_engine_def)
qed

lemma boot_keys_other:
  "snapshot_key sid \<notin> boot_keys sid" "has_prefix k (history_prefix sid) \<Longrightarrow> k \<notin> boot_keys sid"
  by (auto simp: boot_keys_def snapshot_key_def session_org_key_def session_version_key_def has_prefix_append
      history_prefix_def)

lemma load_session_boot:
  assumes K: "kv_laws K" and org: "get_session_organization K sid (sv_db s) \<in> {None, Some oid}"
    and boot: "boot_engine K X now sid (sv_db s) = Some e"
  shows "\<exists>cfg s'. load_session K X now sid oid s = Some (Inr (e, Some cfg), s') \<and>
    map_of (sv_engines s') sid = Some e \<and> get_session_organization K sid (sv_db s') = Some oid"
proof -
  define d1 where "d1 = (if get_session_organization K sid (sv_db s) = None then link_session K X now sid oid (sv_db s)
    else sv_db s)"
  define d2 where "d2 = or_same d1 (touch_org_session K (bx_meta X) now oid sid 0 d1)"
  have frame: "kv_get K d2 k = kv_get K (sv_db s) k" if "k \<notin> boot_keys sid" for k
    using that link_frame [OF K that] by (simp add: d2_def d1_def touch_frame [OF K] boot_keys_def)
  have "scan_prefix K d2 (history_prefix sid) = scan_prefix K (sv_db s) (history_prefix sid)"
    by (rule scan_frame [OF K]) (simp add: frame boot_keys_other)
  then have b: "boot_engine K X now sid d2 = Some e"
    using boot_engine_cong [OF frame [OF boot_keys_other(1)], of X now] boot by simp
  have "kv_get K d1 (session_org_key sid) = Some oid"
    using org link_org [OF K] by (auto simp: d1_def get_session_organization_def)
  moreover have "\<not> has_prefix (session_org_key sid) ''org:''" by (simp add: session_org_key_def has_prefix_def)
  ultimately have "get_session_organization K sid d2 = Some oid"
    by (simp add: d2_def get_session_organization_def touch_frame [OF K])
  then show ?thesis
    using org b by (auto simp: load_session_def Let_def d1_def [symmetric] d2_def [symmetric])
qed

lemma append_run_frame:
  assumes "kv_laws K" "\<forall>i ns. colon_free i \<longrightarrow> k \<notin> {history_key i ns, chain_key i ns, head_key i, session_version_key i}"
  shows "append_run K C sha xs d = Some d' \<Longrightarrow> ticking xs \<Longrightarrow> kv_get K d' k = kv_get K d k"
proof (induction xs arbitrary: d)
  case (Cons y xs)
  obtain ns en where y: "y = (ns, en)" by (cases y)
  obtain val where val: "append_run K C sha xs (append_body K sha (je_session en) ns val d) = Some d'"
    using Cons.prems(1) y by (auto simp: badger_append_def eval_nat_numeral split: option.splits if_splits)
  have c: "colon_free (je_session en)" "ticking xs" using Cons.prems(2) y by (auto simp: ticking_def)
  have "kv_get K (append_body K sha (je_session en) ns val d) k = kv_get K d k"
    using assms(2) c(1) by (subst append_body_get [OF assms(1) c(1)]) auto
  then show ?case using Cons.IH [OF val c(2)] by simp
qed simp


definition boot_sample_codecs :: boot_codecs where
  "boot_sample_codecs = \<lparr>
     bx_journal = \<lparr>encode = (\<lambda>en. Some (if je_type en = EventAssert then je_session en else ''retract'')),
       decode = (\<lambda>v. map_option (\<lambda>n. case journal_sample ! n of (i, t, x) \<Rightarrow> event_of i x)
         (map_of [(''s'', 0), (''t'', 1), (''retract'', 2)] v)),
       residue = (\<lambda>_. blank_entry [] [])\<rparr>,
     bx_snapshot = \<lparr>encode = (\<lambda>_. None), decode = (\<lambda>_. None), residue = (\<lambda>_. \<lparr>sn_timestamp = 0, sn_mutation_count = 0, sn_data = [], sn_checksum = 0\<rparr>)\<rparr>,
     bx_gob = (\<lambda>_. None),
     bx_config = \<lparr>encode = (\<lambda>_. None), decode = (\<lambda>_. None), residue = (\<lambda>_. default_config)\<rparr>,
     bx_meta = \<lparr>encode = (\<lambda>_. None), decode = (\<lambda>_. None),
       residue = (\<lambda>_. \<lparr>osm_id = [], osm_name = [], osm_description = [], osm_created_at = 0, osm_last_activity = 0,
         osm_fact_count = 0, osm_archived = False\<rparr>)\<rparr>\<rparr>"

definition boot_server :: "(string \<times> string) list \<Rightarrow> (string \<times> string) list server" where
  "boot_server d = \<lparr>sv_db = d, sv_engines = [], sv_configs = [], sv_versions = [], sv_last_access = []\<rparr>"


definition linked_server :: "((string \<times> string) list) server" where
  "linked_server = boot_server (set_session_organization assoc_kv ''s'' ''org1'' [])"

lemma engine_isolated_witness:
  "\<exists>s1 s2. get_engine assoc_kv boot_sample_codecs 100 ''s'' ''org2'' linked_server = Some (Inl foreign, s1) \<and>
     get_engine assoc_kv boot_sample_codecs 100 ''s'' ''org1'' linked_server \<noteq> None \<and>
     s1 = linked_server\<lparr>sv_last_access := [(''s'', 100)]\<rparr>"
proof -
  have "map_option fst (get_engine assoc_kv boot_sample_codecs 100 ''s'' ''org2'' linked_server) = Some (Inl foreign)"
    "get_engine assoc_kv boot_sample_codecs 100 ''s'' ''org1'' linked_server \<noteq> None" by code_simp+
  then obtain s1 where s1: "get_engine assoc_kv boot_sample_codecs 100 ''s'' ''org2'' linked_server = Some (Inl foreign, s1)"
    and "get_engine assoc_kv boot_sample_codecs 100 ''s'' ''org1'' linked_server \<noteq> None" by auto
  then show ?thesis using engine_isolated [OF s1] by (simp add: linked_server_def boot_server_def)
qed

end
