(* ===== verification/ExecutionProperties.thy ===== *)
theory ExecutionProperties
imports DecisionHandlers DecisionProperties BootProperties
begin

text \<open>When a decision is executed, what its token is good for, and what is forgotten.\<close>

section \<open>Frames\<close>

lemma keep_decision_frame:
  assumes "kv_laws (en_kv E)" "k \<noteq> decision_key (dc_session x) (dc_id x)" "\<not> has_prefix k ''org:''"
  shows "kv_get (en_kv E) (snd (keep_decision E ns x d)) k = kv_get (en_kv E) d k"
proof -
  have s: "dc_session (stamped_decision t x) = dc_session x" "dc_id (stamped_decision t x) = dc_id x" for t
    by (simp_all add: stamped_decision_def Let_def)
  show ?thesis using assms
    by (auto simp: keep_decision_def save_decision_def put_json_def Let_def s decision_org_index_key_def has_prefix_def
        split: option.splits sum.splits)
qed

lemma keep_check_frame:
  assumes "kv_laws (en_kv E)" "k \<noteq> decision_check_latest_key sid did" "\<forall>t. k \<noteq> decision_check_history_key sid did t"
  shows "kv_get (en_kv E) (snd (keep_check E ns sid did c d)) k = kv_get (en_kv E) d k"
  using assms by (auto simp: keep_check_def save_decision_check_def Let_def split: option.splits)

lemma upsert_documents_frame:
  assumes "kv_laws K" "\<not> has_prefix k ''org:''"
  shows "upsert_search_documents K C now xs d = Inr d' \<Longrightarrow> kv_get K d' k = kv_get K d k"
proof (induction xs arbitrary: d)
  case (Cons x xs)
  have "search_document_key y \<noteq> k" for y using assms(2) by (auto simp: search_document_key_def has_prefix_def)
  then have "kv_get K d1 k = kv_get K d k" if "put_json K C (search_document_key y) y d = Inr d1" for y d1
    using that assms(1) by (auto simp: put_json_def split: option.splits) metis
  then show ?case using Cons by (fastforce split: if_splits sum.splits)
qed simp

lemma keep_documents_frame:
  "kv_laws (en_kv E) \<Longrightarrow> \<not> has_prefix k ''org:'' \<Longrightarrow> kv_get (en_kv E) (keep_documents E ns x ys d) k = kv_get (en_kv E) d k"
  using upsert_documents_frame [of "en_kv E" k "en_search E" "millis ns"]
  by (simp add: keep_documents_def persist_decision_read_models_def or_same_def del: upsert_search_documents.simps split: sum.split)

lemma keep_activity_frame:
  assumes "kv_laws (en_kv E)" "\<not> has_prefix k ''org:''"
  shows "kv_get (en_kv E) (keep_activity E ns oid sid actor p d) k = kv_get (en_kv E) d k"
  using assms
  by (auto simp: keep_activity_def append_org_activity_def put_json_def activity_prefix_def has_prefix_def
      split: option.splits sum.splits if_splits)

lemma decision_key_frame:
  "\<not> has_prefix (decision_key sid did) ''org:''" "decision_key sid did \<noteq> decision_check_latest_key sid did'"
  "decision_key sid did \<noteq> decision_check_history_key sid did' t"
  "session_org_key sid \<noteq> decision_key sid did" "session_version_key sid \<noteq> decision_key sid did"
  "session_org_key sid \<noteq> decision_check_latest_key sid did" "session_version_key sid \<noteq> decision_check_latest_key sid did"
  "session_org_key sid \<noteq> decision_check_history_key sid did t" "session_version_key sid \<noteq> decision_check_history_key sid did t"
  "\<not> has_prefix (session_org_key sid) ''org:''" "\<not> has_prefix (session_version_key sid) ''org:''"
  by (simp_all add: decision_key_def decision_check_latest_key_def decision_check_history_key_def session_org_key_def
      session_version_key_def has_prefix_def)

lemma session_keys_frame:
  assumes "k \<in> {session_org_key sid, session_version_key sid}"
  shows "\<not> has_prefix k ''org:''" "k \<noteq> decision_key sid did" "k \<noteq> decision_check_latest_key sid did"
    "\<forall>t. k \<noteq> decision_check_history_key sid did t"
  using assms by (elim insertE emptyE; simp add: decision_key_frame)+

lemma deps_frame:
  assumes "has_prefix k (decision_deps_prefix sid did)"
  shows "\<not> has_prefix k ''org:''" "k \<noteq> decision_key sid did'" "k \<noteq> decision_check_latest_key sid did'"
    "\<forall>t. k \<noteq> decision_check_history_key sid did' t"
  using assms by (auto simp: decision_deps_prefix_def has_prefix_append decision_key_def decision_check_latest_key_def
      decision_check_history_key_def)

section \<open>The cached engine\<close>

text \<open>The session's engine is in the cache, at the version of the session.\<close>

definition cached_for :: "'db kv \<Rightarrow> string \<Rightarrow> string \<Rightarrow> engine \<Rightarrow> 'db server \<Rightarrow> bool" where
  "cached_for K sid oid e s \<longleftrightarrow> map_of (sv_engines s) sid = Some e \<and>
     cached_version sid s = get_session_version K sid (sv_db s) \<and> get_session_organization K sid (sv_db s) \<in> {None, Some oid}"

lemma get_engine_caches:
  assumes K: "kv_laws K" and g: "get_engine K X now sid oid s = Some (Inr (e, cfg), s1)"
  shows "cached_for K sid oid e s1"
proof -
  have load: "cached_for K sid oid e s1" if l: "load_session K X now sid oid s0 = Some (Inr (e, cfg), s1)" for s0
  proof -
    define d1 where "d1 = (if get_session_organization K sid (sv_db s0) = None then link_session K X now sid oid (sv_db s0) else sv_db s0)"
    define d2 where "d2 = or_same d1 (touch_org_session K (bx_meta X) now oid sid 0 d1)"
    have db: "sv_db s1 = d2" "map_of (sv_engines s1) sid = Some e" "map_of (sv_versions s1) sid = Some (get_session_version K sid d1)"
      and o1: "get_session_organization K sid (sv_db s0) \<in> {None, Some oid}"
      using l by (auto simp: load_session_def Let_def d1_def [symmetric] d2_def [symmetric] split: if_splits)
    have "get_session_organization K sid d1 = Some oid"
      using o1 link_org [OF K, of X now sid oid "sv_db s0"] by (auto simp: d1_def get_session_organization_def)
    then have "get_session_organization K sid d2 = Some oid" "get_session_version K sid d2 = get_session_version K sid d1"
      by (simp_all add: d2_def get_session_organization_def get_session_version_def read_counter_def touch_frame [OF K] decision_key_frame)
    then show ?thesis using db by (simp add: cached_for_def cached_version_def)
  qed
  then show ?thesis using g by (auto simp: get_engine_def Let_def cached_for_def cached_version_def split: option.splits if_splits)
qed

lemma cached_get_engine:
  assumes "cached_for K sid oid e s"
  shows "get_engine K X now sid oid s = Some (Inr (e, map_of (sv_configs s) sid), s\<lparr>sv_last_access := AList.update sid now (sv_last_access s)\<rparr>)"
  using assms by (auto simp: cached_for_def get_engine_def Let_def cached_version_def)

lemma cached_for_frame:
  assumes "cached_for K sid oid e s" "kv_get K d (session_org_key sid) = kv_get K (sv_db s) (session_org_key sid)"
    "kv_get K d (session_version_key sid) = kv_get K (sv_db s) (session_version_key sid)"
  shows "cached_for K sid oid e' ((put_engine sid e' s)\<lparr>sv_db := d\<rparr>)"
  using assms by (simp add: cached_for_def put_engine_def cached_version_def get_session_organization_def get_session_version_def read_counter_def)

section \<open>Execution\<close>

lemma execute_steps:
  assumes "get_engine (en_kv E) (en_boot E) (millis ns) sid oid s = Some (Inr (e0, cfg), s1)"
    and "stored_decision E sid did (sv_db s1) = Inr x" "execution_claims_ok E ns sid oid did body x (sv_db s1) = Inr t"
  shows "handle_execute_decision E snaps ns sid oid did actor body s =
    map_option (\<lambda>(c0, e). let cm = execute_commit E snaps ns sid oid did actor t (get_session_version (en_kv E) sid (sv_db s1)) x
          (stored_dependencies E sid did (sv_db s1)) c0 (sv_db s1)
        in (fst cm, (put_engine sid e s1)\<lparr>sv_db := snd cm\<rparr>))
      (compute_decision_check (millis ns) (controls_of E (dc_org x) (sv_db s1)) x (stored_dependencies E sid did (sv_db s1)) e0)"
  using assms by (simp add: handle_execute_decision_def with_decision_def Let_def case_prod_unfold)

definition executed_decision :: "int \<Rightarrow> string \<Rightarrow> decision_check \<Rightarrow> decision \<Rightarrow> decision" where
  "executed_decision ns actor c x = stamped_decision (millis ns) (x\<lparr>dc_status := ''executed'', dc_execution_status := ''executed'',
     dc_last_checked_at := ck_checked_at c, dc_executed_at := millis ns, dc_executed_by := actor, dc_updated_at := millis ns,
     dc_summary := ck_summary c\<rparr>)"

lemma stamped_same [simp]:
  "dc_session (stamped_decision n x) = dc_session x" "dc_id (stamped_decision n x) = dc_id x"
  "dc_execution_status (stamped_decision n x) = dc_execution_status x" "dc_executed_by (stamped_decision n x) = dc_executed_by x"
  "dc_last_checked_at (stamped_decision n x) = dc_last_checked_at x" "dc_org (stamped_decision n x) = dc_org x"
  by (simp_all add: stamped_decision_def Let_def)

lemma executed_same [simp]:
  "dc_session (executed_decision ns actor c x) = dc_session x" "dc_id (executed_decision ns actor c x) = dc_id x"
  "dc_execution_status (executed_decision ns actor c x) = ''executed''" "dc_executed_by (executed_decision ns actor c x) = actor"
  by (simp_all add: executed_decision_def)

lemma stamped_check_same [simp]:
  "ck_executable (stamped_check n sid did c) = ck_executable c" "ck_snapshots (stamped_check n sid did c) = ck_snapshots c"
  "ck_summary (stamped_check n sid did c) = ck_summary c" "ck_token (stamped_check n sid did c) = ck_token c"
  "ck_checked_at c \<noteq> 0 \<Longrightarrow> ck_checked_at (stamped_check n sid did c) = ck_checked_at c"
  by (simp_all add: stamped_check_def)

lemma keep_check_fst: "fst (keep_check E ns sid did c d) = stamped_check (millis ns) sid did c"
  by (auto simp: keep_check_def save_decision_check_def Let_def split: option.split)

text \<open>A commit of an executable check saves the executed decision, whatever it finds in the store.\<close>

lemma execute_commit_steps:
  fixes E ns sid did c0 version t d
  defines "k \<equiv> keep_check E ns sid did (c0\<lparr>ck_session_version := version, ck_decision_version := tk_decision_version t\<rparr>) d"
  assumes "ck_executable c0"
  shows "execute_commit E snaps ns sid oid did actor t version x ys c0 d =
    (case save_decision (en_kv E) (en_decision E) (millis ns) (Some (x\<lparr>dc_status := ''executed'', dc_execution_status := ''executed'',
        dc_last_checked_at := ck_checked_at (fst k), dc_executed_at := millis ns, dc_executed_by := actor, dc_updated_at := millis ns,
        dc_summary := ck_summary (fst k)\<rparr>)) (snd k) of
       Inl _ \<Rightarrow> (Failed 500 ''failed to save decision'', snd k)
     | Inr (x2, d2) \<Rightarrow> (Done 200 (Some x2, fst k), keep_activity E ns oid sid actor
         (Some [(''action'', GStr ''decision_executed''), (''decision_id'', GStr (dc_id x2)),
           (''checked_at'', GInt (ck_checked_at (fst k))), (''dependencies'', snaps (ck_snapshots (fst k)))])
         (keep_documents E ns x2 ys d2)))"
proof -
  have "ck_executable (fst k)" using assms(2) by (simp add: k_def keep_check_fst)
  then show ?thesis unfolding execute_commit_def k_def [symmetric] Let_def case_prod_unfold by simp
qed

lemma execute_commit_blocked:
  "\<not> ck_executable c0 \<Longrightarrow> \<exists>c. fst (execute_commit E snaps ns sid oid did actor t version x ys c0 d) = Done 409 (None, c) \<and> \<not> ck_executable c"
  by (simp add: execute_commit_def Let_def case_prod_unfold keep_check_fst)

lemma save_decision_stamps:
  assumes "save_decision K C n (Some y) d = Inr (y', d')"
  shows "y' = stamped_decision n y"
    "put_json K C (decision_key (dc_session y) (dc_id y)) y' d \<noteq> Inl e"
  using assms
  by (cases "put_json K C (decision_key (dc_session y) (dc_id y)) (stamped_decision n y) d",
      auto simp: save_decision_def Let_def split: if_splits)+

lemma execute_commit_done:
  assumes "fst (execute_commit E snaps ns sid oid did actor t version x ys c0 d) = Done 200 r"
  obtains c d1 d2 where "ck_executable c0" "ck_snapshots c = ck_snapshots c0" "r = (Some (executed_decision ns actor c x), c)"
    and "save_decision (en_kv E) (en_decision E) (millis ns) (Some (x\<lparr>dc_status := ''executed'', dc_execution_status := ''executed'',
        dc_last_checked_at := ck_checked_at c, dc_executed_at := millis ns, dc_executed_by := actor, dc_updated_at := millis ns,
        dc_summary := ck_summary c\<rparr>)) d1 = Inr (executed_decision ns actor c x, d2)"
    and "\<exists>p. snd (execute_commit E snaps ns sid oid did actor t version x ys c0 d) =
      keep_activity E ns oid sid actor p (keep_documents E ns (executed_decision ns actor c x) ys d2)"
    and "d1 = snd (keep_check E ns sid did (c0\<lparr>ck_session_version := version, ck_decision_version := tk_decision_version t\<rparr>) d)"
proof -
  have exe: "ck_executable c0"
  proof (rule ccontr)
    assume "\<not> ck_executable c0"
    then show False using execute_commit_blocked [of c0 E snaps ns sid oid did actor t version x ys d] assms by auto
  qed
  let ?k = "keep_check E ns sid did (c0\<lparr>ck_session_version := version, ck_decision_version := tk_decision_version t\<rparr>) d"
  let ?x = "x\<lparr>dc_status := ''executed'', dc_execution_status := ''executed'', dc_last_checked_at := ck_checked_at (fst ?k),
      dc_executed_at := millis ns, dc_executed_by := actor, dc_updated_at := millis ns, dc_summary := ck_summary (fst ?k)\<rparr>"
  obtain x2 d2 where sv: "save_decision (en_kv E) (en_decision E) (millis ns) (Some ?x) (snd ?k) = Inr (x2, d2)"
    using assms by (auto simp: execute_commit_steps [OF exe] split: sum.splits)
  have x2: "x2 = executed_decision ns actor (fst ?k) x"
    unfolding executed_decision_def by (rule save_decision_stamps(1) [OF sv])
  show thesis
    by (rule that [of "fst ?k" "snd ?k" d2])
      (use exe assms sv x2 in \<open>auto simp: execute_commit_steps [OF exe] keep_check_fst\<close>)
qed

lemma execute_phases:
  assumes "handle_execute_decision E snaps ns sid oid did actor body s = Some (Done 200 r, s')"
  obtains x e0 cfg s1 t c0 e where "get_engine (en_kv E) (en_boot E) (millis ns) sid oid s = Some (Inr (e0, cfg), s1)"
    and "fst (execute_commit E snaps ns sid oid did actor t (get_session_version (en_kv E) sid (sv_db s1)) x
        (stored_dependencies E sid did (sv_db s1)) c0 (sv_db s1)) = Done 200 r"
    and "s' = (put_engine sid e s1)\<lparr>sv_db := snd (execute_commit E snaps ns sid oid did actor t
        (get_session_version (en_kv E) sid (sv_db s1)) x (stored_dependencies E sid did (sv_db s1)) c0 (sv_db s1))\<rparr>"
    and "stored_decision E sid did (sv_db s1) = Inr x" "execution_claims_ok E ns sid oid did body x (sv_db s1) = Inr t"
    and "compute_decision_check (millis ns) (controls_of E (dc_org x) (sv_db s1)) x (stored_dependencies E sid did (sv_db s1)) e0 =
      Some (c0, e)"
proof -
  obtain e0 cfg s1 where g: "get_engine (en_kv E) (en_boot E) (millis ns) sid oid s = Some (Inr (e0, cfg), s1)"
    using assms by (auto simp: handle_execute_decision_def with_decision_def split: option.splits sum.splits)
  obtain x where x: "stored_decision E sid did (sv_db s1) = Inr x"
    using assms by (auto simp: handle_execute_decision_def with_decision_def g split: sum.splits)
  obtain t where t: "execution_claims_ok E ns sid oid did body x (sv_db s1) = Inr t"
    using assms by (cases "execution_claims_ok E ns sid oid did body x (sv_db s1)")
      (auto simp: handle_execute_decision_def with_decision_def g x Let_def)
  show thesis using assms that [OF g _ _ x t] unfolding execute_steps [OF g x t] by (auto simp: Let_def)
qed

lemma executed_by:
  assumes "handle_execute_decision E snaps ns sid oid did actor body s = Some (Done 200 (Some x', c), s')"
    and "dc_session x' = sid" "dc_id x' = did"
  obtains x e e0 cfg s1 t c0 where "get_engine (en_kv E) (en_boot E) (millis ns) sid oid s = Some (Inr (e0, cfg), s1)"
    and "dc_session x = sid" "dc_id x = did" "dc_execution_status x' = ''executed''"
    and "fst (execute_commit E snaps ns sid oid did actor t (get_session_version (en_kv E) sid (sv_db s1)) x
        (stored_dependencies E sid did (sv_db s1)) c0 (sv_db s1)) = Done 200 (Some x', c)"
    and "s' = (put_engine sid e s1)\<lparr>sv_db := snd (execute_commit E snaps ns sid oid did actor t
        (get_session_version (en_kv E) sid (sv_db s1)) x (stored_dependencies E sid did (sv_db s1)) c0 (sv_db s1))\<rparr>"
proof -
  obtain x e0 cfg s1 t c0 e where g: "get_engine (en_kv E) (en_boot E) (millis ns) sid oid s = Some (Inr (e0, cfg), s1)"
    and r: "fst (execute_commit E snaps ns sid oid did actor t (get_session_version (en_kv E) sid (sv_db s1)) x
        (stored_dependencies E sid did (sv_db s1)) c0 (sv_db s1)) = Done 200 (Some x', c)"
    and s': "s' = (put_engine sid e s1)\<lparr>sv_db := snd (execute_commit E snaps ns sid oid did actor t
        (get_session_version (en_kv E) sid (sv_db s1)) x (stored_dependencies E sid did (sv_db s1)) c0 (sv_db s1))\<rparr>"
    by (rule execute_phases [OF assms(1)])
  obtain c1 where "Some x' = Some (executed_decision ns actor c1 x)"
    by (rule execute_commit_done [OF r]) blast
  then show thesis using that [OF g _ _ _ r s'] assms(2,3) by simp
qed

text \<open>
  C24: Who executes a decision holds a valid token for exactly this session, decision and
  organization, issued for the present version of the session and the latest check of the decision,
  which was not executed before. At the execution every dependency is met and every requested
  quorum is reached, and the session belongs to no other organization.
\<close>

theorem execution_guarded:
  assumes "handle_execute_decision E snaps ns sid oid did actor body s = Some (Done 200 r, s')" "kv_laws (en_kv E)"
  shows "\<exists>x x' c t raw e e0 s1.
    get_engine (en_kv E) (en_boot E) (millis ns) sid oid s = Some (Inr e0, s1) \<and>
    get_session_organization (en_kv E) sid (sv_db s1) \<in> {None, Some oid} \<and> stored_decision E sid did (sv_db s1) = Inr x \<and>
    dc_execution_status x \<noteq> ''executed'' \<and>
    body = Some raw \<and> en_verify E (millis ns) (trim_space raw) = Inr t \<and>
    tk_session t = sid \<and> tk_decision t = did \<and> tk_org t = oid \<and>
    tk_session_version t = get_session_version (en_kv E) sid (sv_db s1) \<and>
    tk_decision_version t = decision_version x \<and> tk_check_timestamp t = dc_last_checked_at x \<and>
    (\<forall>y \<in> set (stored_dependencies E sid did (sv_db s1)).
       dependency_met (millis ns) (controls_of E (dc_org x) (sv_db s1)) e y) \<and>
    (\<forall>q \<in> set (quorum_of (dc_metadata x)). quorum_met e (ck_snapshots c) q) \<and>
    map_of (sv_engines s') sid = Some e \<and> r = (Some x', c) \<and> dc_execution_status x' = ''executed'' \<and> dc_executed_by x' = actor"
proof -
  obtain x e0 cfg s1 t c0 e where g: "get_engine (en_kv E) (en_boot E) (millis ns) sid oid s = Some (Inr (e0, cfg), s1)"
    and r: "fst (execute_commit E snaps ns sid oid did actor t (get_session_version (en_kv E) sid (sv_db s1)) x
        (stored_dependencies E sid did (sv_db s1)) c0 (sv_db s1)) = Done 200 r"
    and s': "s' = (put_engine sid e s1)\<lparr>sv_db := snd (execute_commit E snaps ns sid oid did actor t
        (get_session_version (en_kv E) sid (sv_db s1)) x (stored_dependencies E sid did (sv_db s1)) c0 (sv_db s1))\<rparr>"
    and x: "stored_decision E sid did (sv_db s1) = Inr x" and t: "execution_claims_ok E ns sid oid did body x (sv_db s1) = Inr t"
    and c0: "compute_decision_check (millis ns) (controls_of E (dc_org x) (sv_db s1)) x (stored_dependencies E sid did (sv_db s1)) e0 =
      Some (c0, e)"
    by (rule execute_phases [OF assms(1)])
  let ?ys = "stored_dependencies E sid did (sv_db s1)" and ?pc = "controls_of E (dc_org x) (sv_db s1)"
  obtain c where c: "ck_executable c0" "ck_snapshots c = ck_snapshots c0" "r = (Some (executed_decision ns actor c x), c)"
    by (rule execute_commit_done [OF r])
  have "cached_for (en_kv E) sid oid e0 s1" by (rule get_engine_caches [OF assms(2) g])
  then have org: "get_session_organization (en_kv E) sid (sv_db s1) \<in> {None, Some oid}" by (simp add: cached_for_def)
  obtain raw where "dc_execution_status x \<noteq> ''executed''" "body = Some raw" "en_verify E (millis ns) (trim_space raw) = Inr t"
    "tk_session t = sid" "tk_decision t = did" "tk_org t = oid"
    "tk_session_version t = get_session_version (en_kv E) sid (sv_db s1)"
    "tk_decision_version t = decision_version x" "tk_check_timestamp t = dc_last_checked_at x"
    using t by (auto simp: execution_claims_ok_def parse_execution_token_def split: if_splits option.splits sum.splits)
  moreover have "\<forall>y \<in> set ?ys. dependency_met (millis ns) ?pc e y"
    "\<forall>q \<in> set (quorum_of (dc_metadata x)). quorum_met e (ck_snapshots c) q"
    using check_verdict [OF c0] c(1,2) by simp_all
  moreover have "map_of (sv_engines s') sid = Some e" by (simp add: s' put_engine_def)
  ultimately show ?thesis using org x c(3)
    by - (rule exI [of _ x], rule exI [of _ "executed_decision ns actor c x"], rule exI [of _ c], rule exI [of _ t],
        rule exI [of _ raw], rule exI [of _ e], rule exI [of _ "(e0, cfg)"], rule exI [of _ s1], simp add: g)
qed

section \<open>Executed once\<close>

lemma saved_decision_read:
  assumes "kv_laws K" "save_decision K C n (Some y) d = Inr (y', d')" "reads_back C y'"
    "dc_session y = sid" "dc_id y = did"
  shows "get_decision K C sid did d' = Inr y'"
proof -
  have y': "y' = stamped_decision n y" by (rule save_decision_stamps(1) [OF assms(2)])
  obtain d0 where put: "put_json K C (decision_key sid did) y' d = Inr d0"
    using save_decision_stamps(2) [OF assms(2)] assms(4,5) by (cases "put_json K C (decision_key sid did) y' d") auto
  have "kv_get K d' (decision_key sid did) = kv_get K d0 (decision_key sid did)"
    using assms(1,2,4,5) put unfolding y'
    by (auto simp: save_decision_def Let_def decision_org_index_key_def decision_key_def split: if_splits)
  then show ?thesis using get_put_json(1) [OF assms(1) put assms(3)] by (simp add: get_decision_def get_json_def)
qed

lemma commit_stored:
  assumes K: "kv_laws (en_kv E)" and x: "dc_session x = sid" "dc_id x = did"
    and r: "fst (execute_commit E snaps ns sid oid did actor t version x ys c0 d) = Done 200 r"
    and rb: "reads_back (en_decision E) (the (fst r))"
  shows "stored_decision E sid did (snd (execute_commit E snaps ns sid oid did actor t version x ys c0 d)) = Inr (the (fst r))"
    "k \<in> {session_org_key sid, session_version_key sid} \<Longrightarrow>
      kv_get (en_kv E) (snd (execute_commit E snaps ns sid oid did actor t version x ys c0 d)) k = kv_get (en_kv E) d k"
proof -
  obtain c d1 d2 p where c: "r = (Some (executed_decision ns actor c x), c)"
    and sv: "save_decision (en_kv E) (en_decision E) (millis ns) (Some (x\<lparr>dc_status := ''executed'', dc_execution_status := ''executed'',
        dc_last_checked_at := ck_checked_at c, dc_executed_at := millis ns, dc_executed_by := actor, dc_updated_at := millis ns,
        dc_summary := ck_summary c\<rparr>)) d1 = Inr (executed_decision ns actor c x, d2)"
    and cm: "snd (execute_commit E snaps ns sid oid did actor t version x ys c0 d) =
      keep_activity E ns oid sid actor p (keep_documents E ns (executed_decision ns actor c x) ys d2)"
    and d1: "d1 = snd (keep_check E ns sid did (c0\<lparr>ck_session_version := version, ck_decision_version := tk_decision_version t\<rparr>) d)"
    by (rule execute_commit_done [OF r]) blast
  have "get_decision (en_kv E) (en_decision E) sid did d2 = Inr (the (fst r))"
    using saved_decision_read [OF K sv] rb x c by simp
  then show "stored_decision E sid did (snd (execute_commit E snaps ns sid oid did actor t version x ys c0 d)) = Inr (the (fst r))"
    using keep_activity_frame [OF K decision_key_frame(1)] keep_documents_frame [OF K decision_key_frame(1)]
    by (simp add: cm stored_decision_def get_decision_def get_json_def)
  have d2: "d2 = snd (keep_decision E ns (x\<lparr>dc_status := ''executed'', dc_execution_status := ''executed'',
        dc_last_checked_at := ck_checked_at c, dc_executed_at := millis ns, dc_executed_by := actor, dc_updated_at := millis ns,
        dc_summary := ck_summary c\<rparr>) d1)" by (simp add: keep_decision_def sv)
  assume "k \<in> {session_org_key sid, session_version_key sid}"
  note k = session_keys_frame [OF this]
  show "kv_get (en_kv E) (snd (execute_commit E snaps ns sid oid did actor t version x ys c0 d)) k = kv_get (en_kv E) d k"
    using k x by (simp add: cm d1 d2 keep_activity_frame [OF K] keep_documents_frame [OF K] keep_decision_frame [OF K] keep_check_frame [OF K])
qed


section \<open>Tokens\<close>

text \<open>The decision an execute-check leaves, from the check it answers.\<close>

definition rechecked :: "int \<Rightarrow> decision_check \<Rightarrow> decision \<Rightarrow> decision" where
  "rechecked ns c x = stamped_decision (millis ns) ((checked_decision c x)\<lparr>dc_summary := ck_summary c, dc_updated_at := millis ns\<rparr>)"

text \<open>A token is good for the span it names, less the second that the library may round away.\<close>

definition tokens_verify :: "'db decision_env \<Rightarrow> int \<Rightarrow> bool" where
  "tokens_verify E now \<longleftrightarrow>
     (\<forall>tk raw. en_sign E tk = Some raw \<and> tk_not_before tk \<le> now \<and> now + 1000 \<le> tk_expires_at tk \<longrightarrow>
        trim_space raw \<noteq> [] \<and> en_verify E now (trim_space raw) = Inr tk)"

lemma compute_check_again:
  assumes "compute_decision_check now pc x ys e = Some (c, e')"
  shows "compute_decision_check now' pc' x' ys e' \<noteq> None"
proof -
  obtain bs where "if ys = [] then e' = e else ready_engine e = Some e'" by (rule compute_check [OF assms])
  then have "check_dependencies now' pc' ys (blank_check now' x', e') \<noteq> None"
    using check_dependencies_total [of e' now' pc' ys] ready_again [of e e'] by (cases "ys = []") auto
  then show ?thesis by (simp add: compute_decision_check_def)
qed

lemma get_engine_frame:
  assumes "kv_laws K" "get_engine K X now sid oid s = Some (r, s1)" "k \<notin> boot_keys sid"
  shows "kv_get K (sv_db s1) k = kv_get K (sv_db s) k"
  using assms(2) load_session_frame [OF assms(1) _ assms(3)]
  by (fastforce simp: get_engine_def Let_def split: option.splits if_splits)

lemma decision_not_boot: "decision_key sid did \<notin> boot_keys sid"
  using decision_key_frame(1,4,5) [of sid] by (simp add: boot_keys_def not_sym)

lemma stored_decision_cong:
  "kv_get (en_kv E) d (decision_key sid did) = kv_get (en_kv E) d' (decision_key sid did) \<Longrightarrow>
     stored_decision E sid did d = stored_decision E sid did d'"
  by (simp add: stored_decision_def get_decision_def get_json_def)

lemma check_phases:
  assumes "kv_laws (en_kv E)" "handle_execute_decision_check E ns sid oid did s = Some (Done 200 c, s')"
    and "stored_decision E sid did (sv_db s) = Inr x" "millis ns > 0"
  obtains e0 cfg s1 c0 e x1 tok where "get_engine (en_kv E) (en_boot E) (millis ns) sid oid s = Some (Inr (e0, cfg), s1)"
    and "compute_decision_check (millis ns) (controls_of E (dc_org x) (sv_db s1)) x (stored_dependencies E sid did (sv_db s1)) e0 =
      Some (c0, e)"
    and "x1 = (checked_decision c x)\<lparr>dc_summary := ck_summary c, dc_updated_at := millis ns\<rparr>"
    and "s' = (put_engine sid e s1)\<lparr>sv_db := keep_documents E ns (fst (keep_decision E ns x1 (sv_db s1)))
        (stored_dependencies E sid did (sv_db s1)) (snd (keep_check E ns sid did tok (snd (keep_decision E ns x1 (sv_db s1)))))\<rparr>"
    and "ck_checked_at c = millis ns"
    and "ck_executable c \<Longrightarrow> en_sign E \<lparr>tk_session = dc_session x, tk_decision = dc_id x, tk_org = oid,
        tk_decision_version = decision_version x1, tk_session_version = get_session_version (en_kv E) sid (sv_db s1),
        tk_check_timestamp = millis ns, tk_expires_at = millis ns + executionTokenTTL, tk_issued_at = millis ns,
        tk_not_before = millis ns, tk_subject = dc_id x\<rparr> = Some (ck_token c)"
proof -
  obtain e0 cfg s1 where g: "get_engine (en_kv E) (en_boot E) (millis ns) sid oid s = Some (Inr (e0, cfg), s1)"
    using assms(2) by (auto simp: handle_execute_decision_check_def with_decision_def split: option.splits sum.splits)
  have x: "stored_decision E sid did (sv_db s1) = Inr x"
    using stored_decision_cong [OF get_engine_frame [OF assms(1) g decision_not_boot]] assms(3) by simp
  let ?ys = "stored_dependencies E sid did (sv_db s1)"
  obtain c0 e where c0: "compute_decision_check (millis ns) (controls_of E (dc_org x) (sv_db s1)) x ?ys e0 = Some (c0, e)"
    using assms(2) by (auto simp: handle_execute_decision_check_def with_decision_def g x Let_def)
  let ?x1 = "(checked_decision c0 x)\<lparr>dc_summary := ck_summary c0, dc_updated_at := millis ns\<rparr>"
  let ?c1 = "c0\<lparr>ck_session_version := get_session_version (en_kv E) sid (sv_db s1), ck_decision_version := decision_version ?x1\<rparr>"
  let ?c2 = "?c1\<lparr>ck_expires_at := ck_checked_at ?c1 + executionTokenTTL\<rparr>"
  have at: "ck_checked_at c0 = millis ns" by (rule compute_check_time [OF c0])
  let ?k = "\<lambda>tok. keep_check E ns sid did tok (snd (keep_decision E ns ?x1 (sv_db s1)))"
  let ?s = "\<lambda>tok. (put_engine sid e s1)\<lparr>sv_db := keep_documents E ns (fst (keep_decision E ns ?x1 (sv_db s1))) ?ys (snd (?k tok))\<rparr>"
  note unfolds = handle_execute_decision_check_def with_decision_def g x c0 Let_def check_to_execute_def case_prod_unfold put_engine_def
  have "\<exists>tok. c = fst (?k tok) \<and> s' = ?s tok \<and> ck_executable tok = ck_executable c0 \<and> ck_summary tok = ck_summary c0 \<and>
      ck_checked_at tok = millis ns \<and> (ck_executable c0 \<longrightarrow> issue_execution_token E oid ?x1 ?c2 = Some (ck_token tok))"
  proof (cases "ck_executable c0")
    case True
    then obtain t where t: "issue_execution_token E oid ?x1 ?c2 = Some t"
      using assms(2) by (cases "issue_execution_token E oid ?x1 ?c2") (simp_all add: unfolds)
    then show ?thesis using assms(2) True at by (intro exI [of _ "?c2\<lparr>ck_token := t\<rparr>"]) (simp add: unfolds)
  next
    case False
    then show ?thesis using assms(2) at by (intro exI [of _ ?c1]) (simp add: unfolds)
  qed
  then obtain tok where c: "c = stamped_check (millis ns) sid did tok" and s': "s' = ?s tok"
    and same: "ck_executable tok = ck_executable c0" "ck_summary tok = ck_summary c0" "ck_checked_at tok = millis ns"
    and issued: "ck_executable c0 \<longrightarrow> issue_execution_token E oid ?x1 ?c2 = Some (ck_token tok)"
    unfolding keep_check_fst by blast
  then have x1: "?x1 = (checked_decision c x)\<lparr>dc_summary := ck_summary c, dc_updated_at := millis ns\<rparr>"
    using at assms(4) by (simp add: c checked_decision_def decision_status_from_check_def)
  show thesis
    by (rule that [OF g c0 x1 s']) (use issued same assms(4) at in \<open>auto simp: c issue_execution_token_def checked_decision_def
        decision_status_from_check_def\<close>)
qed

lemma keep_decision_read:
  assumes "kv_laws (en_kv E)" "reads_back (en_decision E) (stamped_decision (millis ns) y)"
    and "dc_session y = sid" "dc_id y = did" "sid \<noteq> []" "did \<noteq> []"
  shows "stored_decision E sid did (snd (keep_decision E ns y d)) = Inr (stamped_decision (millis ns) y)"
proof -
  obtain d' where sv: "save_decision (en_kv E) (en_decision E) (millis ns) (Some y) d = Inr (stamped_decision (millis ns) y, d')"
    using assms(2-) by (auto simp: save_decision_def put_json_def Let_def elim: reads_backE)
  then show ?thesis using saved_decision_read [OF assms(1) sv assms(2-4)] by (simp add: keep_decision_def stored_decision_def)
qed

lemma execute_commit_reply:
  "case fst (execute_commit E snaps ns sid oid did actor t version x ys c0 d) of
     Done code y \<Rightarrow> code = (if ck_executable (snd y) then 200 else 409) | Failed code msg \<Rightarrow> code = 500 | _ \<Rightarrow> False"
proof (cases "ck_executable c0")
  case True
  then show ?thesis by (simp add: execute_commit_steps [OF True] keep_check_fst split: sum.split prod.split)
next
  case False
  then show ?thesis using execute_commit_blocked [OF False, of E snaps ns sid oid did actor t version x ys d] by auto
qed


section \<open>A sample\<close>

text \<open>One session with the sample engine, and a decision that depends on one of its facts.\<close>

definition executable_summary :: string where
  "executable_summary = ''Decision is executable against the current dependency set.''"

definition pending_decision :: decision where
  "pending_decision = sample_decision\<lparr>dc_last_checked_at := 5, dc_updated_at := 5, dc_summary := executable_summary\<rparr>"

definition done_decision :: decision where
  "done_decision = pending_decision\<lparr>dc_status := ''executed'', dc_execution_status := ''executed'', dc_last_checked_at := 6,
     dc_updated_at := 6, dc_executed_at := 6, dc_executed_by := ''u''\<rparr>"

definition sample_claims :: execution_claims where
  "sample_claims = \<lparr>tk_session = ''s'', tk_decision = ''d1'', tk_org = ''org1'', tk_decision_version = 5, tk_session_version = 1,
     tk_check_timestamp = 5, tk_expires_at = 30005, tk_issued_at = 5, tk_not_before = 5, tk_subject = ''d1''\<rparr>"

definition sample_env :: "((string \<times> string) list) decision_env" where
  "sample_env = \<lparr>en_kv = assoc_kv, en_boot = boot_sample_codecs,
     en_decision = \<lparr>encode = (\<lambda>x. Some (if dc_execution_status x = ''executed'' then ''E'' else if dc_last_checked_at x = 0 then ''S'' else ''P'')),
       decode = map_of [(''S'', sample_decision), (''P'', pending_decision), (''E'', done_decision)], residue = (\<lambda>_. sample_decision)\<rparr>,
     en_dependency = fixed_codec (sample_dependency ''D''),
     en_check = fixed_codec (blank_check 5 sample_decision), en_search = fixed_codec (decision_search_document sample_decision),
     en_policy = \<lparr>encode = (\<lambda>_. None), decode = (\<lambda>_. None), residue = (\<lambda>_. \<lparr>pol_id = [], pol_name = [], pol_enabled = False,
       pol_rules = None, pol_created_at = 0, pol_updated_at = 0\<rparr>)\<rparr>,
     en_cap = (\<lambda>p. length p), en_misuse = (\<lambda>_ d. d), en_float = (\<lambda>_. None),
     en_sign = (\<lambda>tk. if tk = sample_claims then Some ''tok'' else None), en_verify = (\<lambda>_ _. Inr sample_claims)\<rparr>"

definition sample_server :: "string \<Rightarrow> ((string \<times> string) list) server" where
  "sample_server v = \<lparr>sv_db = AList.update (decision_key ''s'' ''d1'') v
       (AList.update (decision_deps_prefix ''s'' ''d1'' @ ''D'') ''x'' (set_session_organization assoc_kv ''s'' ''org1'' [])),
     sv_engines = [(''s'', sample_engine)], sv_configs = [(''s'', default_config)], sv_versions = [(''s'', 1)], sv_last_access = []\<rparr>"

lemma sample_env_laws: "kv_laws (en_kv sample_env)"
  by (simp add: sample_env_def assoc_kv_laws)

lemma sample_check_run:
  "case handle_execute_decision_check sample_env 5000000 ''s'' ''org1'' ''d1'' (sample_server ''S'') of
     Some (Done code c, s') \<Rightarrow> code = 200 \<and> ck_executable c \<and> ck_token c = ''tok'' \<and>
       rechecked 5000000 c sample_decision = pending_decision
   | _ \<Rightarrow> False"
  by code_simp


lemma sample_check: "case compute_decision_check 6 no_controls pending_decision [sample_dependency ''D''] sample_engine of
     Some (c, e) \<Rightarrow> ck_executable c \<and> ck_summary c = executable_summary | None \<Rightarrow> False"
  by code_simp

lemma sample_store:
  "cached_for assoc_kv ''s'' ''org1'' sample_engine (sample_server ''P'')"
  "stored_decision sample_env ''s'' ''d1'' (sv_db (sample_server ''P'')) = Inr pending_decision"
  "stored_dependencies sample_env ''s'' ''d1'' (sv_db (sample_server ''P'')) = [sample_dependency ''D'']"
  "controls_of sample_env ''org1'' (sv_db (sample_server ''P'')) = no_controls"
  "execution_claims_ok sample_env 6000000 ''s'' ''org1'' ''d1'' (Some ''tok'') pending_decision (sv_db (sample_server ''P'')) =
     Inr sample_claims"
proof -
  have "cached_version ''s'' (sample_server ''P'') = get_session_version assoc_kv ''s'' (sv_db (sample_server ''P''))"
    "get_session_organization assoc_kv ''s'' (sv_db (sample_server ''P'')) = Some ''org1''" by code_simp+
  then show "cached_for assoc_kv ''s'' ''org1'' sample_engine (sample_server ''P'')"
    by (simp add: cached_for_def) (simp add: sample_server_def)
qed code_simp+

lemma sample_executes:
  obtains c s' where "handle_execute_decision sample_env (\<lambda>_. GNil) 6000000 ''s'' ''org1'' ''d1'' ''u'' (Some ''tok'') (sample_server ''P'') =
    Some (Done 200 (Some done_decision, c), s')"
proof -
  let ?s1 = "(sample_server ''P'')\<lparr>sv_last_access := AList.update ''s'' 6 (sv_last_access (sample_server ''P''))\<rparr>"
  have g: "get_engine (en_kv sample_env) (en_boot sample_env) (millis 6000000) ''s'' ''org1'' (sample_server ''P'') =
      Some (Inr (sample_engine, map_of (sv_configs (sample_server ''P'')) ''s''), ?s1)"
    using cached_get_engine [OF sample_store(1), of boot_sample_codecs 6] by (simp add: sample_env_def millis_def)
  obtain c e where c: "compute_decision_check 6 no_controls pending_decision [sample_dependency ''D''] sample_engine = Some (c, e)"
    "ck_executable c" "ck_summary c = executable_summary" using sample_check by (auto split: option.splits)
  have "ck_checked_at c = 6" by (rule compute_check_time [OF c(1)])
  define cm where "cm = execute_commit sample_env (\<lambda>_. GNil) 6000000 ''s'' ''org1'' ''d1'' ''u'' sample_claims
      (get_session_version (en_kv sample_env) ''s'' (sv_db ?s1)) pending_decision [sample_dependency ''D''] c (sv_db ?s1)"
  have "handle_execute_decision sample_env (\<lambda>_. GNil) 6000000 ''s'' ''org1'' ''d1'' ''u'' (Some ''tok'') (sample_server ''P'') =
      Some (fst cm, (put_engine ''s'' e ?s1)\<lparr>sv_db := snd cm\<rparr>)"
    using execute_steps [OF g, of "''d1''" pending_decision "Some ''tok''" sample_claims "\<lambda>_. GNil" "''u''"] sample_store c(1)
    by (simp add: cm_def Let_def millis_def pending_decision_def sample_decision_def)
  moreover have "\<exists>k. fst cm = Done 200 (Some done_decision, k)"
  proof -
    have "millis 6000000 = 6" by (simp add: millis_def)
    then show ?thesis unfolding cm_def execute_commit_steps [OF c(2)]
      using c(3) \<open>ck_checked_at c = 6\<close>
      by (simp add: Let_def keep_check_fst save_decision_def put_json_def sample_env_def stamped_decision_def done_decision_def pending_decision_def
          sample_decision_def)
  qed
  ultimately show thesis using that by auto
qed


lemma execution_guarded_witness:
  "\<exists>r s' s1 e0 x t. handle_execute_decision sample_env (\<lambda>_. GNil) 6000000 ''s'' ''org1'' ''d1'' ''u'' (Some ''tok'') (sample_server ''P'') =
      Some (Done 200 r, s') \<and>
     get_engine assoc_kv boot_sample_codecs 6 ''s'' ''org1'' (sample_server ''P'') = Some (Inr e0, s1) \<and>
     stored_decision sample_env ''s'' ''d1'' (sv_db s1) = Inr x \<and> tk_decision (t :: execution_claims) = ''d1'' \<and>
     tk_check_timestamp t = dc_last_checked_at x"
proof -
  obtain c s' where run: "handle_execute_decision sample_env (\<lambda>_. GNil) 6000000 ''s'' ''org1'' ''d1'' ''u'' (Some ''tok'') (sample_server ''P'') =
    Some (Done 200 (Some done_decision, c), s')" by (rule sample_executes)
  have m: "en_kv sample_env = assoc_kv" "en_boot sample_env = boot_sample_codecs" "millis 6000000 = 6"
    by (simp_all add: sample_env_def millis_def)
  from execution_guarded [OF run sample_env_laws] obtain x t e0 s1 where
    "get_engine assoc_kv boot_sample_codecs 6 ''s'' ''org1'' (sample_server ''P'') = Some (Inr e0, s1)"
    "stored_decision sample_env ''s'' ''d1'' (sv_db s1) = Inr x" "tk_decision (t :: execution_claims) = ''d1''" "tk_check_timestamp t = dc_last_checked_at x"
    unfolding m by blast
  then show ?thesis using run by blast
qed

section \<open>What is not excluded\<close>

text \<open>
  Nothing is tested again at the commit: of two requests that were both checked before either
  committed, both report an execution, and the decision names the second actor.
\<close>

lemma racing_executions:
  assumes "kv_laws (en_kv E)" "dc_session x = sid" "dc_id x = did" "sid \<noteq> []" "did \<noteq> []" "ck_executable c1" "ck_executable c2"
    and "\<forall>c ns a. reads_back (en_decision E) (executed_decision ns a c x)"
    and "execute_commit E snaps ns1 sid oid did a1 t1 v1 x ys c1 d = (r1, d1)"
    and "execute_commit E snaps ns2 sid oid did a2 t2 v2 x ys c2 d1 = (r2, d2)"
  shows "\<exists>y1 y2 x2. r1 = Done 200 y1 \<and> r2 = Done 200 y2 \<and> stored_decision E sid did d2 = Inr x2 \<and> dc_executed_by x2 = a2"
proof -
  have commits: "\<exists>y. fst (execute_commit E snaps ns sid oid did a t v x ys c d) = Done 200 (Some (executed_decision ns a (fst y) x), snd y)"
    if "ck_executable c" for ns a t v c d
  proof -
    let ?k = "keep_check E ns sid did (c\<lparr>ck_session_version := v, ck_decision_version := tk_decision_version t\<rparr>) d"
    have "\<exists>d'. save_decision (en_kv E) (en_decision E) (millis ns) (Some (x\<lparr>dc_status := ''executed'', dc_execution_status := ''executed'',
        dc_last_checked_at := ck_checked_at (fst ?k), dc_executed_at := millis ns, dc_executed_by := a, dc_updated_at := millis ns,
        dc_summary := ck_summary (fst ?k)\<rparr>)) (snd ?k) = Inr (executed_decision ns a (fst ?k) x, d')"
      using assms(2-5) assms(8) [rule_format, of ns a "fst ?k"]
      by (auto simp: save_decision_def put_json_def Let_def executed_decision_def elim: reads_backE)
    then show ?thesis by (auto simp: execute_commit_steps [OF that])
  qed
  obtain y1 where y1: "r1 = Done 200 y1" using commits [OF assms(6), of ns1 a1 t1 v1 d] assms(9) by auto
  obtain y2 where y2: "r2 = Done 200 (Some (executed_decision ns2 a2 (fst y2) x), snd y2)"
    using commits [OF assms(7), of ns2 a2 t2 v2 d1] assms(10) by auto
  then have r: "fst (execute_commit E snaps ns2 sid oid did a2 t2 v2 x ys c2 d1) =
      Done 200 (Some (executed_decision ns2 a2 (fst y2) x), snd y2)" using assms(10) by simp
  have "stored_decision E sid did d2 = Inr (executed_decision ns2 a2 (fst y2) x)"
    using commit_stored(1) [OF assms(1-3) r] assms(8,10) by auto
  then show ?thesis using y1 y2 by auto
qed

text \<open>
  An execute-check (or a recomputation) whose check fails forgets that the decision was executed:
  its execution status becomes blocked, and a later check that succeeds makes it pending again.
\<close>

lemma executed_forgotten:
  assumes "kv_laws (en_kv E)" "handle_execute_decision_check E ns sid oid did s = Some (Done 200 c, s')" "\<not> ck_executable c"
    and "stored_decision E sid did (sv_db s) = Inr x" "dc_session x = sid" "dc_id x = did" "sid \<noteq> []" "did \<noteq> []"
    and "reads_back (en_decision E) (rechecked ns c x)" "0 < millis ns"
  shows "\<exists>x'. stored_decision E sid did (sv_db s') = Inr x' \<and> dc_execution_status x' = ''blocked''"
proof -
  obtain s1 e x1 tok where x1: "x1 = (checked_decision c x)\<lparr>dc_summary := ck_summary c, dc_updated_at := millis ns\<rparr>"
    and s': "s' = (put_engine sid e s1)\<lparr>sv_db := keep_documents E ns (fst (keep_decision E ns x1 (sv_db s1)))
        (stored_dependencies E sid did (sv_db s1)) (snd (keep_check E ns sid did tok (snd (keep_decision E ns x1 (sv_db s1)))))\<rparr>"
    by (rule check_phases [OF assms(1,2,4,10)])
  have x1_same: "dc_session x1 = sid" "dc_id x1 = did" using assms(5,6) by (simp_all add: x1 checked_decision_def split_def Let_def)
  have "stored_decision E sid did (sv_db s') = stored_decision E sid did (snd (keep_decision E ns x1 (sv_db s1)))"
    by (rule stored_decision_cong)
      (simp add: s' keep_documents_frame [OF assms(1)] keep_check_frame [OF assms(1)] decision_key_frame)
  also have "\<dots> = Inr (stamped_decision (millis ns) x1)"
    using keep_decision_read [OF assms(1) _ x1_same assms(7,8)] assms(9) by (simp add: rechecked_def x1)
  finally show ?thesis using assms(3) by (simp add: x1 checked_decision_def decision_status_from_check_def Let_def)
qed

end
