(* ===== verification/Access.thy ===== *)
theory Access
imports BadgerCatalog Retention "HOL-Library.Sublist"
begin

text \<open>
  Who may do what, from api/server.go, api/runtime_security.go and api/enterprise_controls.go: the
  scopes of roles and requests, the rate limit, and the middleware that authenticates a request by
  the bootstrap key, a token of a user or an API key, on the Badger store.
\<close>

section \<open>Scopes\<close>

definition scopes_for_role :: "string \<Rightarrow> string list" where
  "scopes_for_role role =
     (if role = ''admin'' then [''read'', ''write'', ''export'', ''admin'']
      else if role = ''auditor'' then [''read'', ''export''] else [''read'', ''write'', ''export''])"

definition normal_scope :: "string \<Rightarrow> string" where
  "normal_scope s = trim_space (to_lower s)"

definition scopes_for_role_cap :: "string \<Rightarrow> string list \<Rightarrow> string list" where
  "scopes_for_role_cap role scopes =
     (let out = sort (remdups (filter (\<lambda>s. s \<noteq> [] \<and> s \<in> set (scopes_for_role role)) (map normal_scope scopes)))
      in if out = [] then [''read''] else out)"

definition has_scope :: "string list \<Rightarrow> string \<Rightarrow> bool" where
  "has_scope scopes want \<longleftrightarrow> normal_scope want = [] \<or> list_ex (\<lambda>s. to_lower s = normal_scope want) scopes"

definition required_scope_for_request :: "string \<Rightarrow> string \<Rightarrow> string" where
  "required_scope_for_request path meth =
     (if path = ''/v1/org/backup'' \<or> path = ''/v1/org/restore'' then ''admin''
      else if has_prefix path ''/v1/keys'' then ''admin''
      else if has_prefix path ''/v1/org/invitations'' then ''admin''
      else if has_prefix path ''/v1/policies'' then ''admin''
      else if has_prefix path ''/v1/org/settings'' \<and> meth \<noteq> ''GET'' then ''admin''
      else if has_prefix path ''/v1/org/access-logs'' then ''export''
      else if has_prefix path ''/v1/org/compliance-export'' then ''export''
      else if path = ''/v1/org'' \<and> meth \<noteq> ''GET'' then ''admin''
      else if path = ''/v1/billing/subscription'' \<and> meth \<noteq> ''GET'' then ''admin''
      else if str_contains path ''/export'' \<or> str_contains path ''/export-jobs'' then ''export''
      else if meth = ''GET'' \<or> meth = ''HEAD'' \<or> meth = ''OPTIONS'' then ''read''
      else ''write'')"

definition authorize_request :: "string \<Rightarrow> string list \<Rightarrow> bool" where
  "authorize_request required scopes \<longleftrightarrow> has_scope scopes required"

section \<open>The rate limit\<close>

text \<open>Times and durations are in nanoseconds. The errors of the store but a missing key refuse.\<close>

definition rate_window :: "int \<Rightarrow> int \<Rightarrow> int list \<Rightarrow> int list" where
  "rate_window now window ts = filter (\<lambda>t. t > now - window) ts"

definition check_rate_limit ::
  "'db kv \<Rightarrow> int list codec \<Rightarrow> int \<Rightarrow> string \<Rightarrow> int \<Rightarrow> int \<Rightarrow> 'db \<Rightarrow> (bool \<times> int) \<times> 'db" where
  "check_rate_limit K C now key limit0 window0 d =
     (let limit = (if limit0 \<le> 0 then 60 else limit0);
          window = (if window0 \<le> 0 then 60000000000 else window0)
      in case get_rate_limit K C key d of
           Inl e \<Rightarrow> ((False, window), d)
         | Inr ts \<Rightarrow>
             (let valid = rate_window now window ts
              in if int (length valid) \<ge> limit
                 then ((False, if valid = [] then 1000000000 else max 1000000000 (Min (set valid) + window - now)), d)
                 else ((True, 0), case save_rate_limit K C key (valid @ [now]) d of Inl _ \<Rightarrow> d | Inr d' \<Rightarrow> d')))"

definition effective_rate_limit_config :: "organization option \<Rightarrow> billing_subscription option \<Rightarrow> int \<times> int" where
  "effective_rate_limit_config oo so =
     (let setting = (\<lambda>key upper. case oo of None \<Rightarrow> None
            | Some x \<Rightarrow> (case obj_get (org_settings x) key of None \<Rightarrow> None
                | Some raw \<Rightarrow> (case as_int raw of Some n \<Rightarrow> if n > 0 \<and> n \<le> upper then Some n else None | None \<Rightarrow> None)));
          limit = (case setting ''rate_limit_rpm'' 100000 of None \<Rightarrow> 60 | Some n \<Rightarrow> n);
          window = (case setting ''rate_limit_window_seconds'' 3600 of None \<Rightarrow> 60 | Some n \<Rightarrow> n) * 1000000000;
          plan = (case so of None \<Rightarrow> [] | Some x \<Rightarrow> to_lower (trim_space (bill_plan x)))
      in (if plan = ''pro'' then max limit 180 else if plan = ''enterprise'' then max limit 600 else limit, window))"

definition plan_limits :: "billing_subscription option \<Rightarrow> int \<times> int" where
  "plan_limits so =
     (let plan = (case so of None \<Rightarrow> ''free'' | Some x \<Rightarrow> to_lower (trim_space (bill_plan x)))
      in if plan = ''pro'' then (500, 0) else if plan = ''enterprise'' then (0, 0) else (50, 0))"

section \<open>Requests\<close>

record auth_request =
  rq_path :: string
  rq_method :: string
  rq_authorization :: string
  rq_cookies :: "(string \<times> string) list"

record identity =
  id_org :: string
  id_actor :: string
  id_role :: string
  id_email :: string
  id_scopes :: "string list"

text \<open>Passed None is a path that needs no authentication.\<close>

datatype auth_result = Denied nat string | Limited int int int | AuthPanic | Passed "identity option"

record jwt_claims =
  jc_email :: string
  jc_token_version :: int

text \<open>
  ae_jwt stands for the JWT library: the claims of a token that is valid at a time. ae_sha is
  SHA-256; the others are the environment of the process.
\<close>

record 'db auth_env =
  ae_kv :: "'db kv"
  ae_user :: "user codec"
  ae_org :: "organization codec"
  ae_billing :: "billing_subscription codec"
  ae_rate :: "int list codec"
  ae_sha :: "string \<Rightarrow> string"
  ae_jwt :: "int \<Rightarrow> string \<Rightarrow> jwt_claims option"
  ae_admin_key :: string
  ae_bootstrap :: bool
  ae_dev :: bool
  ae_lite :: bool

definition normalize_email :: "string \<Rightarrow> string" where
  "normalize_email email = trim_space (to_lower email)"

definition current_user_token_version :: "user \<Rightarrow> int" where
  "current_user_token_version u = (if user_token_version u > 0 then user_token_version u else 1)"

definition auth_token_from_request :: "auth_request \<Rightarrow> string" where
  "auth_token_from_request r =
     (if trim_space (rq_authorization r) \<noteq> [] then trim_space (trim_prefix (trim_space (rq_authorization r)) ''Bearer '')
      else (case List.find (\<lambda>t. t \<noteq> []) (List.map_filter (\<lambda>n. map_option trim_space (map_of (rq_cookies r) n)) [''velarix_token'', ''token'']) of
              None \<Rightarrow> [] | Some t \<Rightarrow> t))"

definition open_path :: "string \<Rightarrow> bool" where
  "open_path p \<longleftrightarrow> p = ''/health'' \<or> list_ex (has_prefix p) [''/auth/'', ''/v1/auth/'', ''/docs/'', ''/v1/docs/'', ''/v1/legal/''] \<or>
     p = ''/v1/invitations/accept''"

section \<open>API keys\<close>

definition key_matches :: "string \<Rightarrow> string \<Rightarrow> api_key \<Rightarrow> bool" where
  "key_matches token hash k \<longleftrightarrow>
     (if key_hash k \<noteq> [] then key_hash k = hash \<or> key_id k = hash
      else if key_id k \<noteq> [] then key_id k = hash
      else if key_raw k \<noteq> [] then key_raw k = token else False)"

definition key_valid :: "int \<Rightarrow> string \<Rightarrow> string \<Rightarrow> api_key \<Rightarrow> bool" where
  "key_valid now token hash k \<longleftrightarrow> key_matches token hash k \<and> \<not> key_is_revoked k \<and> key_expires_at k > now"

text \<open>A key without a hash is migrated: its hash replaces it.\<close>

definition migrated_key :: "int \<Rightarrow> string \<Rightarrow> string \<Rightarrow> api_key \<Rightarrow> api_key" where
  "migrated_key now token hash k =
     (let k1 = k\<lparr>key_last_used_at := now\<rparr>
      in if key_hash k1 \<noteq> [] then k1
         else k1\<lparr>key_hash := hash, key_id := hash,
                 key_prefix := (if key_prefix k1 = [] then take 10 token else key_prefix k1),
                 key_last4 := (if key_last4 k1 = [] then drop (length token - 4) token else key_last4 k1),
                 key_raw := []\<rparr>)"

definition key_actor :: "string \<Rightarrow> api_key \<Rightarrow> string" where
  "key_actor token k =
     (if key_label k \<noteq> [] then key_label k else if key_prefix k \<noteq> [] then key_prefix k else take 8 token)"

definition key_scopes_or_all :: "api_key \<Rightarrow> string list" where
  "key_scopes_or_all k = (if key_scopes k \<noteq> [] then key_scopes k else [''read'', ''write'', ''export''])"

text \<open>The first valid key, with the user whose key is updated.\<close>

fun use_key :: "int \<Rightarrow> string \<Rightarrow> string \<Rightarrow> api_key list \<Rightarrow> (api_key \<times> api_key list) option" where
  "use_key now token hash [] = None"
| "use_key now token hash (k # ks) =
     (if key_valid now token hash k then Some (k, migrated_key now token hash k # ks)
      else map_option (\<lambda>(k', ks'). (k', k # ks')) (use_key now token hash ks))"

section \<open>The middleware\<close>

definition token_hash_of :: "'db auth_env \<Rightarrow> string \<Rightarrow> string" where
  "token_hash_of E token = hex_encode (ae_sha E token)"

text \<open>The limit of an organization, then the scope of the request.\<close>

definition limited_and_scoped ::
  "'db auth_env \<Rightarrow> int \<Rightarrow> auth_request \<Rightarrow> string \<Rightarrow> int \<times> int \<Rightarrow> identity \<Rightarrow> 'db \<Rightarrow> auth_result \<times> 'db" where
  "limited_and_scoped E ns r rate_key rate who d =
     (case check_rate_limit (ae_kv E) (ae_rate E) ns rate_key (fst rate) (snd rate) d of
        ((False, retry), d1) \<Rightarrow> (Limited (fst rate) (snd rate) retry, d1)
      | ((True, _), d1) \<Rightarrow>
          if authorize_request (required_scope_for_request (rq_path r) (rq_method r)) (id_scopes who)
          then (Passed (Some who), d1) else (Denied 403 ''forbidden'', d1))"

definition org_limits :: "'db auth_env \<Rightarrow> organization \<Rightarrow> string \<Rightarrow> 'db \<Rightarrow> int \<times> int" where
  "org_limits E org oid d =
     effective_rate_limit_config (Some org)
       (case get_billing (ae_kv E) (ae_billing E) oid d of Inl _ \<Rightarrow> None | Inr b \<Rightarrow> Some b)"

definition active_org :: "'db auth_env \<Rightarrow> string \<Rightarrow> 'db \<Rightarrow> organization option" where
  "active_org E oid d =
     (case get_organization (ae_kv E) (ae_org E) oid d of
        Inl _ \<Rightarrow> None | Inr x \<Rightarrow> if org_suspended x then None else Some x)"

definition auth_bootstrap :: "'db auth_env \<Rightarrow> int \<Rightarrow> auth_request \<Rightarrow> string \<Rightarrow> 'db \<Rightarrow> auth_result \<times> 'db" where
  "auth_bootstrap E ns r token d =
     limited_and_scoped E ns r (''bootstrap:'' @ token_hash_of E token) (if ae_dev E then 5000 else 300, 60000000000)
       \<lparr>id_org = ''admin'', id_actor = ''system'', id_role = ''admin'', id_email = [],
        id_scopes = [''read'', ''write'', ''export'', ''admin'']\<rparr> d"

definition auth_jwt :: "'db auth_env \<Rightarrow> int \<Rightarrow> auth_request \<Rightarrow> jwt_claims \<Rightarrow> 'db \<Rightarrow> auth_result \<times> 'db" where
  "auth_jwt E ns r claims d =
     (case get_user (ae_kv E) (ae_user E) (normalize_email (jc_email claims)) d of
        Inl _ \<Rightarrow> (Denied 401 ''User not found'', d)
      | Inr u \<Rightarrow>
          if jc_token_version claims \<noteq> current_user_token_version u then (Denied 401 ''Invalid or expired API key'', d)
          else (case active_org E (user_org u) d of
              None \<Rightarrow> (Denied 401 ''Invalid or expired API key'', d)
            | Some org \<Rightarrow>
                limited_and_scoped E ns r (''jwt:'' @ user_email u @ '':'' @ show_int (jc_token_version claims))
                  (org_limits E org (user_org u) d)
                  \<lparr>id_org = user_org u, id_actor = user_email u, id_role = user_role u, id_email = user_email u,
                   id_scopes = scopes_for_role (user_role u)\<rparr> d))"

text \<open>The owner of a key may be gone: its organization is then read through a nil pointer.\<close>

definition auth_key :: "'db auth_env \<Rightarrow> int \<Rightarrow> auth_request \<Rightarrow> string \<Rightarrow> 'db \<Rightarrow> auth_result \<times> 'db" where
  "auth_key E ns r token d =
     (let K = ae_kv E; hash = token_hash_of E token; now = ns div 1000000; bad = Denied 401 ''Invalid or expired API key''
      in case (case get_api_key_owner_by_hash K hash d of None \<Rightarrow> get_api_key_owner K token d | o1 \<Rightarrow> o1) of
           None \<Rightarrow> (bad, d)
         | Some email \<Rightarrow>
             (case get_user K (ae_user E) email d of
                Inl _ \<Rightarrow> (AuthPanic, d)
              | Inr u \<Rightarrow>
                  (case active_org E (user_org u) d of
                     None \<Rightarrow> (bad, d)
                   | Some org \<Rightarrow>
                       (case use_key now token hash (user_keys u) of
                          None \<Rightarrow> (bad, d)
                        | Some (k, ks) \<Rightarrow>
                            (let d1 = (if key_hash k = [] then save_api_key_hash K hash (user_email u) d else d);
                                 res = limited_and_scoped E ns r hash (org_limits E org (user_org u) d1)
                                   \<lparr>id_org = user_org u, id_actor = key_actor token k, id_role = user_role u, id_email = user_email u,
                                    id_scopes = scopes_for_role_cap (user_role u) (key_scopes_or_all k)\<rparr> d1
                             in case res of
                                  (Passed who, d2) \<Rightarrow>
                                    (Passed who, case save_user K (ae_user E) (u\<lparr>user_keys := ks\<rparr>) d2 of Inl _ \<Rightarrow> d2 | Inr d3 \<Rightarrow> d3)
                                | other \<Rightarrow> other)))))"

definition auth_middleware :: "'db auth_env \<Rightarrow> int \<Rightarrow> auth_request \<Rightarrow> 'db \<Rightarrow> auth_result \<times> 'db" where
  "auth_middleware E ns r d =
     (if ae_lite E
      then (Passed (Some \<lparr>id_org = ''local'', id_actor = ''local_user'', id_role = ''admin'', id_email = [],
              id_scopes = [''read'', ''write'', ''export'', ''admin'']\<rparr>), d)
      else if open_path (rq_path r) then (Passed None, d)
      else (let token = auth_token_from_request r
        in if token = [] then (Denied 401 ''Invalid or expired API key'', d)
           else if ae_admin_key E \<noteq> [] \<and> token = ae_admin_key E \<and> ae_bootstrap E then auth_bootstrap E ns r token d
           else (case ae_jwt E ns token of
                   Some claims \<Rightarrow> auth_jwt E ns r claims d
                 | None \<Rightarrow> auth_key E ns r token d)))"

end
