(* ===== verification/AccessProperties.thy ===== *)
theory AccessProperties
imports Access
begin

text \<open>Whom the authentication lets through, and how many requests the rate limit admits.\<close>

section \<open>Scopes\<close>

lemma required_scope_cases: "required_scope_for_request p m \<in> {''read'', ''write'', ''export'', ''admin''}"
  by (simp add: required_scope_for_request_def)

lemma scope_names: "s \<in> {''read'', ''write'', ''export'', ''admin''} \<Longrightarrow> normal_scope s = s \<and> to_lower s = s"
  by (elim insertE emptyE; simp add: normal_scope_def to_lower_def lower_char_def char_code_def trim_space_def is_space_def)

lemma role_scopes: "set (scopes_for_role role) \<subseteq> {''read'', ''write'', ''export'', ''admin''}" "''read'' \<in> set (scopes_for_role role)"
  by (auto simp: scopes_for_role_def)

lemma cap_scopes: "set (scopes_for_role_cap role ss) \<subseteq> set (scopes_for_role role)"
  using role_scopes(2) [of role] by (auto simp: scopes_for_role_cap_def Let_def)

lemma authorized_scope:
  assumes "authorize_request (required_scope_for_request p m) ss" "set ss \<subseteq> set (scopes_for_role role)"
  shows "required_scope_for_request p m \<in> set ss"
proof -
  let ?w = "required_scope_for_request p m"
  have mem: "?w \<in> {''read'', ''write'', ''export'', ''admin''}" by (rule required_scope_cases)
  have w: "normal_scope ?w = ?w" "?w \<noteq> []" using scope_names [OF mem] mem by (simp, elim insertE emptyE) simp_all
  then obtain s where "s \<in> set ss" "to_lower s = ?w"
    using assms(1) by (auto simp: authorize_request_def has_scope_def list_ex_iff)
  moreover have "to_lower s = s" using calculation(1) assms(2) role_scopes(1) [of role] scope_names by blast
  ultimately show ?thesis by simp
qed

section \<open>Authentication\<close>

lemma limited_passed:
  assumes "limited_and_scoped E ns r key rate who d = (Passed w, d')"
  shows "w = Some who \<and> authorize_request (required_scope_for_request (rq_path r) (rq_method r)) (id_scopes who)"
  using assms by (auto simp: limited_and_scoped_def split: prod.splits bool.splits if_splits)

lemma use_key_valid:
  "use_key now token hash ks = Some (k, ks') \<Longrightarrow> k \<in> set ks \<and> key_valid now token hash k"
  by (induction ks arbitrary: ks') (auto split: if_splits)

lemma active_orgD: "active_org E oid d = Some x \<Longrightarrow> get_organization (ae_kv E) (ae_org E) oid d = Inr x \<and> \<not> org_suspended x"
  by (auto simp: active_org_def split: sum.splits if_splits)

text \<open>
  C27: A request passes only with the scope it requires, and its scopes are within its role. Its
  token is the bootstrap key, where that is enabled, or belongs to a user of an organization that is
  not suspended: a valid token of the user's present token version, or an API key of the user that
  is neither revoked nor expired.
\<close>

theorem authenticated:
  assumes "auth_middleware E ns r d = (Passed (Some who), d')" "\<not> ae_lite E"
  shows "required_scope_for_request (rq_path r) (rq_method r) \<in> set (id_scopes who) \<and>
    set (id_scopes who) \<subseteq> set (scopes_for_role (id_role who)) \<and>
    (let token = auth_token_from_request r; hash = hex_encode (ae_sha E token)
     in token \<noteq> [] \<and>
       (token = ae_admin_key E \<and> ae_bootstrap E \<and> id_org who = ''admin'' \<or>
        (\<exists>u org. id_org who = user_org u \<and> id_role who = user_role u \<and>
           get_organization (ae_kv E) (ae_org E) (user_org u) d = Inr org \<and> \<not> org_suspended org \<and>
           ((\<exists>c. ae_jwt E ns token = Some c \<and> get_user (ae_kv E) (ae_user E) (normalize_email (jc_email c)) d = Inr u \<and>
               jc_token_version c = current_user_token_version u) \<or>
            (\<exists>email k. get_user (ae_kv E) (ae_user E) email d = Inr u \<and>
               (get_api_key_owner_by_hash (ae_kv E) hash d = Some email \<or> get_api_key_owner (ae_kv E) token d = Some email) \<and>
               k \<in> set (user_keys u) \<and> key_matches token hash k \<and> \<not> key_is_revoked k \<and> key_expires_at k > ns div 1000000)))))"
proof -
  let ?token = "auth_token_from_request r" let ?hash = "hex_encode (ae_sha E ?token)"
  have t: "\<not> open_path (rq_path r)" "?token \<noteq> []"
    using assms by (auto simp: auth_middleware_def Let_def split: if_splits)
  consider (boot) "?token = ae_admin_key E" "ae_bootstrap E" "auth_bootstrap E ns r ?token d = (Passed (Some who), d')"
    | (jwt) c where "ae_jwt E ns ?token = Some c" "auth_jwt E ns r c d = (Passed (Some who), d')"
    | (key) "auth_key E ns r ?token d = (Passed (Some who), d')"
    using assms t by (auto simp: auth_middleware_def Let_def split: if_splits option.splits)
  then show ?thesis
  proof cases
    case boot
    note p = limited_passed [OF boot(3) [unfolded auth_bootstrap_def]]
    then have "set (id_scopes who) \<subseteq> set (scopes_for_role (id_role who))" "id_org who = ''admin''"
      by (auto simp: scopes_for_role_def)
    then show ?thesis using authorized_scope [of "rq_path r" "rq_method r" "id_scopes who"] p boot(1,2) t(2) by (simp add: Let_def)
  next
    case jwt
    obtain u where u: "get_user (ae_kv E) (ae_user E) (normalize_email (jc_email c)) d = Inr u"
      "jc_token_version c = current_user_token_version u"
      using jwt(2) by (auto simp: auth_jwt_def split: sum.splits if_splits)
    obtain org where org: "active_org E (user_org u) d = Some org"
      using jwt(2) by (auto simp: auth_jwt_def u split: option.splits)
    have "limited_and_scoped E ns r (''jwt:'' @ user_email u @ '':'' @ show_int (jc_token_version c)) (org_limits E org (user_org u) d)
        \<lparr>id_org = user_org u, id_actor = user_email u, id_role = user_role u, id_email = user_email u,
         id_scopes = scopes_for_role (user_role u)\<rparr> d = (Passed (Some who), d')"
      using jwt(2) by (simp add: auth_jwt_def u org)
    note p = limited_passed [OF this]
    then have "set (id_scopes who) \<subseteq> set (scopes_for_role (id_role who))" "id_org who = user_org u" "id_role who = user_role u" by auto
    then show ?thesis
      using authorized_scope [of "rq_path r" "rq_method r" "id_scopes who"] p jwt(1) u active_orgD [OF org] t(2)
      unfolding Let_def by blast
  next
    case key
    obtain email where email: "(case get_api_key_owner_by_hash (ae_kv E) ?hash d of None \<Rightarrow> get_api_key_owner (ae_kv E) ?token d | o1 \<Rightarrow> o1) =
        Some email"
      using key by (auto simp: auth_key_def Let_def token_hash_of_def split: option.splits)
    then have own: "get_api_key_owner_by_hash (ae_kv E) ?hash d = Some email \<or> get_api_key_owner (ae_kv E) ?token d = Some email"
      by (auto split: option.splits)
    obtain u where u: "get_user (ae_kv E) (ae_user E) email d = Inr u"
      using key by (auto simp: auth_key_def Let_def token_hash_of_def email split: sum.splits)
    obtain org where org: "active_org E (user_org u) d = Some org"
      using key by (auto simp: auth_key_def Let_def token_hash_of_def email u split: option.splits)
    obtain k ks where k: "use_key (ns div 1000000) ?token ?hash (user_keys u) = Some (k, ks)"
      using key by (auto simp: auth_key_def Let_def token_hash_of_def email u org split: option.splits)
    define d1 where "d1 = (if key_hash k = [] then save_api_key_hash (ae_kv E) ?hash (user_email u) d else d)"
    have "\<exists>d2. limited_and_scoped E ns r ?hash (org_limits E org (user_org u) d1)
        \<lparr>id_org = user_org u, id_actor = key_actor ?token k, id_role = user_role u, id_email = user_email u,
         id_scopes = scopes_for_role_cap (user_role u) (key_scopes_or_all k)\<rparr> d1 = (Passed (Some who), d2)"
      using key by (auto simp: auth_key_def Let_def token_hash_of_def email u org k d1_def [symmetric] split: prod.splits auth_result.splits)
    then obtain d2 where "limited_and_scoped E ns r ?hash (org_limits E org (user_org u) d1)
        \<lparr>id_org = user_org u, id_actor = key_actor ?token k, id_role = user_role u, id_email = user_email u,
         id_scopes = scopes_for_role_cap (user_role u) (key_scopes_or_all k)\<rparr> d1 = (Passed (Some who), d2)" by blast
    note p = limited_passed [OF this]
    then have w: "set (id_scopes who) \<subseteq> set (scopes_for_role (id_role who))" "id_org who = user_org u" "id_role who = user_role u"
      using cap_scopes by auto
    have "k \<in> set (user_keys u)" "key_matches ?token ?hash k" "\<not> key_is_revoked k" "key_expires_at k > ns div 1000000"
      using use_key_valid [OF k] by (auto simp: key_valid_def)
    then show ?thesis
      using authorized_scope [of "rq_path r" "rq_method r" "id_scopes who"] p w own u active_orgD [OF org] t(2)
      unfolding Let_def by blast
  qed
qed

definition sample_user :: user where
  "sample_user = \<lparr>user_email = ''a'', user_hashed_password = [], user_org = ''o1'', user_role = ''auditor'', user_token_version = 2,
     user_keys = [\<lparr>key_raw = [], key_id = [], key_hash = ''6b'', key_prefix = [], key_last4 = [], key_label = ''ci'', key_created_at = 1,
       key_last_used_at = 0, key_expires_at = 90, key_is_revoked = False, key_scopes = [''write'', ''read'']\<rparr>],
     user_reset_token = [], user_reset_expiry = 0, user_onboarding = None\<rparr>"

definition sample_auth :: "((string \<times> string) list) auth_env" where
  "sample_auth = \<lparr>ae_kv = assoc_kv, ae_user = fixed_codec sample_user,
     ae_org = fixed_codec \<lparr>org_id = ''o1'', org_name = [], org_created_at = 0, org_suspended = False, org_settings = None\<rparr>,
     ae_billing = fixed_codec \<lparr>bill_plan = ''pro'', bill_status = [], bill_email = [], bill_customer = [], bill_subscription = [],
       bill_period_end = 0, bill_seats = 0, bill_features = None, bill_metadata = None, bill_updated_at = 0\<rparr>,
     ae_rate = fixed_codec [], ae_sha = (\<lambda>t. take 1 t), ae_jwt = (\<lambda>_ _. None), ae_admin_key = [], ae_bootstrap = False,
     ae_dev = False, ae_lite = False\<rparr>"

definition sample_request :: auth_request where
  "sample_request = \<lparr>rq_path = ''/v1/s'', rq_method = ''GET'', rq_authorization = ''Bearer k'', rq_cookies = []\<rparr>"

lemma authenticated_witness:
  "\<exists>who d'. auth_middleware sample_auth 80000000 sample_request [(''kh:6b'', ''a''), (''u:a'', ''x''), (''o:o1'', ''x'')] =
      (Passed (Some who), d') \<and> ''read'' \<in> set (id_scopes who) \<and> set (id_scopes who) \<subseteq> set (scopes_for_role (id_role who)) \<and>
     id_scopes who = [''read'']"
proof -
  have "case fst (auth_middleware sample_auth 80000000 sample_request [(''kh:6b'', ''a''), (''u:a'', ''x''), (''o:o1'', ''x'')]) of
      Passed (Some w) \<Rightarrow> id_scopes w = [''read''] | _ \<Rightarrow> False" by code_simp
  then obtain w d' where w: "auth_middleware sample_auth 80000000 sample_request [(''kh:6b'', ''a''), (''u:a'', ''x''), (''o:o1'', ''x'')] =
      (Passed (Some w), d')" "id_scopes w = [''read'']"
    by (cases "auth_middleware sample_auth 80000000 sample_request [(''kh:6b'', ''a''), (''u:a'', ''x''), (''o:o1'', ''x'')]")
      (auto split: auth_result.splits option.splits)
  have "\<not> ae_lite sample_auth" by (simp add: sample_auth_def)
  note a = authenticated [OF w(1) this]
  then have "set (id_scopes w) \<subseteq> set (scopes_for_role (id_role w))" by blast
  then show ?thesis using w by auto
qed

section \<open>The rate limit\<close>

text \<open>The requests of one key, in the order of their times, with the answers they get.\<close>

fun run_rate :: "'db kv \<Rightarrow> int list codec \<Rightarrow> string \<Rightarrow> int \<Rightarrow> int \<Rightarrow> int list \<Rightarrow> 'db \<Rightarrow> bool list" where
  "run_rate K C key limit window [] d = []"
| "run_rate K C key limit window (t # ts) d =
     (case check_rate_limit K C t key limit window d of (a, d') \<Rightarrow> fst a # run_rate K C key limit window ts d')"

text \<open>The specification: a request is admitted when fewer than limit were in the window before it.\<close>

fun admitted :: "int \<Rightarrow> int \<Rightarrow> int list \<Rightarrow> int list \<Rightarrow> bool list" where
  "admitted limit window past [] = []"
| "admitted limit window past (t # ts) =
     (let ok = int (length (rate_window t window past)) < limit
      in ok # admitted limit window (if ok then past @ [t] else past) ts)"

lemma rate_window_later: "s \<le> t \<Longrightarrow> rate_window t window (rate_window s window xs) = rate_window t window xs"
  by (auto simp: rate_window_def intro: filter_cong)

lemma rate_window_append: "rate_window t window (xs @ ys) = rate_window t window xs @ rate_window t window ys"
  by (simp add: rate_window_def)

lemma check_rate_found:
  assumes "get_rate_limit K C key d = Inr st" "limit > 0" "window > 0"
  shows "fst (fst (check_rate_limit K C t key limit window d)) = (int (length (rate_window t window st)) < limit)"
    "snd (check_rate_limit K C t key limit window d) =
      (if int (length (rate_window t window st)) < limit
       then (case save_rate_limit K C key (rate_window t window st @ [t]) d of Inl _ \<Rightarrow> d | Inr d' \<Rightarrow> d') else d)"
  using assms by (simp_all add: check_rate_limit_def Let_def)

lemma save_rate_found:
  assumes "kv_laws K" "reads_back C ts"
  obtains d' where "save_rate_limit K C key ts d = Inr d'" "get_rate_limit K C key d' = Inr ts"
proof -
  obtain v where v: "encode C ts = Some v" "decode C v = Some ts" using assms(2) by (rule reads_backE)
  show thesis
    by (rule that [of "kv_set K (''rl:'' @ key) v d"])
      (use v assms(1) in \<open>simp_all add: save_rate_limit_def put_json_def get_rate_limit_def get_json_def\<close>)
qed

lemma run_rate_admitted:
  assumes K: "kv_laws K" and pos: "limit > 0" "window > 0"
    and st: "get_rate_limit K C key d = Inr st" "st = rate_window s window past" "\<forall>t \<in> set ts. s \<le> t" "sorted ts"
    and codec: "\<forall>xs. subseq xs (past @ ts) \<longrightarrow> reads_back C xs"
  shows "run_rate K C key limit window ts d = admitted limit window past ts"
  using st codec
proof (induction ts arbitrary: d st s past)
  case (Cons t ts)
  have w: "rate_window t window st = rate_window t window past" using Cons.prems(2,3) by (simp add: rate_window_later)
  let ?ok = "int (length (rate_window t window past)) < limit"
  note step = check_rate_found [OF Cons.prems(1) pos, of t, unfolded w]
  let ?d = "snd (check_rate_limit K C t key limit window d)"
  have run: "run_rate K C key limit window (t # ts) d = ?ok # run_rate K C key limit window ts ?d"
    using step(1) by (simp add: case_prod_unfold)
  show ?case
  proof (cases ?ok)
    case True
    have "subseq (rate_window t window past @ [t]) (past @ t # ts)"
      unfolding rate_window_def by (intro list_emb_append_mono subseq_filter_left) simp
    then obtain d' where d': "save_rate_limit K C key (rate_window t window past @ [t]) d = Inr d'"
      "get_rate_limit K C key d' = Inr (rate_window t window past @ [t])"
      using save_rate_found [OF K] Cons.prems(5) by metis
    have "run_rate K C key limit window ts d' = admitted limit window (past @ [t]) ts"
      by (rule Cons.IH [OF d'(2), of t]) (use Cons.prems(4,5) pos(2) in \<open>auto simp: rate_window_append rate_window_def\<close>)
    then show ?thesis using run step(2) True d'(1) by simp
  next
    case False
    have "run_rate K C key limit window ts d = admitted limit window past ts"
    proof (rule Cons.IH [OF Cons.prems(1,2)])
      have "subseq (past @ ts) (past @ t # ts)" by (rule list_emb_append_mono) (auto intro: list_emb_Cons)
      then show "\<forall>xs. subseq xs (past @ ts) \<longrightarrow> reads_back C xs"
        using Cons.prems(5) subseq_order.order_trans by blast
    qed (use Cons.prems in simp_all)
    then show ?thesis using run step(2) False by simp
  qed
qed simp

definition in_window :: "int \<Rightarrow> int \<Rightarrow> int list \<Rightarrow> int list" where
  "in_window window t xs = filter (\<lambda>u. t - window < u \<and> u \<le> t) xs"

lemma admitted_bound:
  assumes "sorted (past @ ts)" "limit > 0" "\<forall>t. int (length (in_window window t past)) \<le> limit"
  shows "int (length (in_window window t (past @ map fst (filter snd (zip ts (admitted limit window past ts)))))) \<le> limit"
  using assms
proof (induction ts arbitrary: past)
  case (Cons u ts)
  show ?case
  proof (cases "int (length (rate_window u window past)) < limit")
    case True
    have "int (length (in_window window v (past @ [u]))) \<le> limit" for v
    proof (cases "v < u")
      case True
      then show ?thesis using Cons.prems(3) by (simp add: in_window_def)
    next
      case False
      have "in_window window v past = filter (\<lambda>x. v - window < x \<and> x \<le> v) (rate_window u window past)"
        using False by (auto simp: in_window_def rate_window_def intro: filter_cong)
      then have "length (in_window window v past) \<le> length (rate_window u window past)" by simp
      then show ?thesis using \<open>int (length (rate_window u window past)) < limit\<close> by (simp add: in_window_def)
    qed
    then have "int (length (in_window window t ((past @ [u]) @ map fst (filter snd (zip ts (admitted limit window (past @ [u]) ts)))))) \<le> limit"
      using Cons.prems by (intro Cons.IH) simp_all
    then show ?thesis using True by (simp add: Let_def)
  next
    case False
    have "int (length (in_window window t (past @ map fst (filter snd (zip ts (admitted limit window past ts)))))) \<le> limit"
      using Cons.prems by (intro Cons.IH) (auto simp: sorted_append)
    then show ?thesis using False by (simp add: Let_def)
  qed
qed simp

text \<open>
  C28: The rate limit is exact: of the requests of one key, each is admitted just when fewer than
  limit were admitted in the window before it. So no stretch of time as long as the window ever
  has more than limit of them.
\<close>

theorem rate_limit_exact:
  assumes "kv_laws K" "kv_get K d (''rl:'' @ key) = None" "limit > 0" "window > 0" "sorted ts"
    and "\<forall>xs. subseq xs ts \<longrightarrow> reads_back C xs"
  shows "run_rate K C key limit window ts d = admitted limit window [] ts \<and>
    (\<forall>t. int (length (in_window window t (map fst (filter snd (zip ts (run_rate K C key limit window ts d)))))) \<le> limit)"
proof -
  have "run_rate K C key limit window ts d = admitted limit window [] ts"
  proof (rule run_rate_admitted [OF assms(1,3,4)])
    show "get_rate_limit K C key d = Inr []" using assms(2) by (simp add: get_rate_limit_def)
    show "[] = rate_window (if ts = [] then 0 else hd ts) window []" by (simp add: rate_window_def)
    show "\<forall>t \<in> set ts. (if ts = [] then 0 else hd ts) \<le> t" using assms(5) by (cases ts) auto
  qed (use assms in simp_all)
  then show ?thesis using admitted_bound [of "[]" ts limit window] assms(3,5) by (simp add: in_window_def)
qed

definition times_codec :: "int list codec" where
  "times_codec = \<lparr>encode = (\<lambda>ts. if list_all (\<lambda>t. t \<in> {1, 3, 4, 12, 14}) ts then Some (map (\<lambda>t. char_of (nat t)) ts) else None),
     decode = (\<lambda>v. Some (map (\<lambda>c. int (char_code c)) v)), residue = (\<lambda>_. [])\<rparr>"

lemma rate_limit_exact_witness:
  "run_rate assoc_kv times_codec ''u'' 2 10 [1, 3, 4, 12, 14] [] = [True, True, False, True, True] \<and>
   length (in_window 10 14 [1, 3, 12, 14]) = 2"
proof -
  have "reads_back times_codec xs" if "subseq xs [1, 3, 4, 12, 14]" for xs
  proof -
    have m: "\<forall>t \<in> set xs. t \<in> {1, 3, 4, 12, 14}" by (rule ballI, erule list_emb_set [OF that]) auto
    then have "map (\<lambda>t. int (char_code (char_of (nat t)))) xs = xs" by (intro map_idI) (auto simp: char_code_def)
    then show ?thesis using m by (simp add: reads_back_def times_codec_def list_all_iff o_def)
  qed
  from rate_limit_exact [of assoc_kv "[]" "''u''" 2 10 "[1, 3, 4, 12, 14]" times_codec] this
  have "run_rate assoc_kv times_codec ''u'' 2 10 [1, 3, 4, 12, 14] [] = admitted 2 10 [] [1, 3, 4, 12, 14]"
    using assoc_kv_laws by (simp add: assoc_kv_def)
  then show ?thesis by (simp add: rate_window_def Let_def in_window_def)
qed

end
