(* ===== verification/Sessions.thy ===== *)
theory Sessions
imports DecisionHandlers
begin

text \<open>
  The handlers of api/server.go, api/governance.go, api/verification.go and
  api/reasoning_contracts.go that change the facts of a session, on the Badger store, without a
  global truth and without a verification webhook. A request is its path values, the organization,
  actor and role the middleware found, and its decoded body: Inl is the message of a body that does
  not decode. ns is the clock in nanoseconds, read once; the texts of store errors are left out of
  the messages. None is a call that does not return.
\<close>

section \<open>The node\<close>

text \<open>
  se_schema stands for gojsonschema.Validate: None is a schema it cannot load, Some the list of
  errors. se_commit and se_others are the outcomes of the transactions of Append. se_json is the
  JSON of a payload, se_f2 the verb with two decimals, se_random the identifiers of randID.
\<close>

record 'db session_env =
  se_env :: "'db decision_env"
  se_sha :: "string \<Rightarrow> string"
  se_commit :: "int \<Rightarrow> nat \<Rightarrow> commit"
  se_others :: "int \<Rightarrow> nat \<Rightarrow> 'db \<Rightarrow> 'db"
  se_notification :: "notification codec"
  se_explanation :: "explanation_record codec"
  se_schema :: "string \<Rightarrow> gobj \<Rightarrow> string list option"
  se_random :: "int \<Rightarrow> string"
  se_json :: "gobj \<Rightarrow> string"
  se_f2 :: "real \<Rightarrow> string"

text \<open>
  The server with its slice cache (the facts and the time, in nanoseconds) and the snapshots its
  background tasks have still to take: the session, the time of the request and the engine the
  request left.
\<close>

record 'db node =
  nd_server :: "'db server"
  nd_slices :: "(string \<times> (fact list \<times> int)) list"
  nd_snapshots :: "(string \<times> int \<times> engine) list"

definition node_db :: "'db node \<Rightarrow> 'db" where
  "node_db n = sv_db (nd_server n)"

definition on_db :: "('db \<Rightarrow> 'db) \<Rightarrow> 'db node \<Rightarrow> 'db node" where
  "on_db g n = n\<lparr>nd_server := (nd_server n)\<lparr>sv_db := g (sv_db (nd_server n))\<rparr>\<rparr>"

definition keep_engine :: "string \<Rightarrow> engine \<Rightarrow> 'db node \<Rightarrow> 'db node" where
  "keep_engine sid e n = n\<lparr>nd_server := put_engine sid e (nd_server n)\<rparr>"

definition invalidate_slice_cache :: "string \<Rightarrow> 'db node \<Rightarrow> 'db node" where
  "invalidate_slice_cache sid n =
     n\<lparr>nd_slices := filter (\<lambda>kv. fst kv \<noteq> sid \<and> \<not> has_prefix (fst kv) (sid @ ''|'')) (nd_slices n)\<rparr>"

definition with_engine ::
  "'db session_env \<Rightarrow> int \<Rightarrow> string \<Rightarrow> string \<Rightarrow> 'db node \<Rightarrow>
     (engine \<Rightarrow> session_config option \<Rightarrow> 'db node \<Rightarrow> ('b reply \<times> 'db node) option) \<Rightarrow> ('b reply \<times> 'db node) option" where
  "with_engine E ns sid oid n k =
     (case get_engine (en_kv (se_env E)) (en_boot (se_env E)) (millis ns) sid oid (nd_server n) of
        None \<Rightarrow> None
      | Some (Inl msg, s) \<Rightarrow> Some (Failed 403 msg, n\<lparr>nd_server := s\<rparr>)
      | Some (Inr (e, cfg), s) \<Rightarrow> k e cfg (n\<lparr>nd_server := s\<rparr>))"

section \<open>What a handler writes\<close>

definition append_entry :: "'db session_env \<Rightarrow> int \<Rightarrow> journal_entry \<Rightarrow> 'db node \<Rightarrow> 'db node \<times> store_error option" where
  "append_entry E ns en n =
     (let (d, err) = badger_append (en_kv (se_env E)) (bx_journal (en_boot (se_env E))) (se_sha E) (se_commit E ns)
            (se_others E ns) ns en (node_db n)
      in (on_db (\<lambda>_. d) n, err))"

text \<open>Activity, notifications and documents are written with their errors ignored.\<close>

definition log_activity :: "'db session_env \<Rightarrow> int \<Rightarrow> string \<Rightarrow> journal_entry \<Rightarrow> 'db \<Rightarrow> 'db" where
  "log_activity E ns oid en d =
     (case append_org_activity (en_kv (se_env E)) (bx_journal (en_boot (se_env E))) ns oid en d of
        Some (Inr d') \<Rightarrow> d' | _ \<Rightarrow> d)"

definition create_notification :: "'db session_env \<Rightarrow> int \<Rightarrow> string \<Rightarrow> string \<Rightarrow> string \<Rightarrow> string \<Rightarrow> 'db \<Rightarrow> 'db" where
  "create_notification E ns oid typ title body d =
     (if oid = [] then d
      else or_same d (save_notification (en_kv (se_env E)) (se_notification E) oid
             \<lparr>ntf_id = se_random E ns, ntf_type = typ, ntf_title = title, ntf_body = body, ntf_created_at = millis ns,
              ntf_read_at = 0\<rparr> d))"

definition audit_admin :: "'db session_env \<Rightarrow> int \<Rightarrow> string \<Rightarrow> string \<Rightarrow> string \<Rightarrow> (string \<times> gval) list \<Rightarrow> 'db node \<Rightarrow> 'db node" where
  "audit_admin E ns sid actor action kvs n =
     fst (append_entry E ns ((blank_entry ''admin_action'' sid)\<lparr>je_actor := actor, je_timestamp := millis ns,
            je_payload := fold (\<lambda>(k, v). obj_put k v) kvs (Some [(''action'', GStr action)])\<rparr>) n)"

definition count_metric :: "'db session_env \<Rightarrow> int \<Rightarrow> string \<Rightarrow> string \<Rightarrow> 'db \<Rightarrow> 'db" where
  "count_metric E ns oid m d = increment_org_metric (en_kv (se_env E)) (millis ns) oid m 1 d"

definition touch_session :: "'db session_env \<Rightarrow> int \<Rightarrow> string \<Rightarrow> string \<Rightarrow> int \<Rightarrow> 'db \<Rightarrow> 'db" where
  "touch_session E ns oid sid delta d =
     or_same d (touch_org_session (en_kv (se_env E)) (bx_meta (en_boot (se_env E))) (millis ns) oid sid delta d)"

definition save_documents :: "'db session_env \<Rightarrow> int \<Rightarrow> search_document list \<Rightarrow> 'db \<Rightarrow> 'db" where
  "save_documents E ns xs d =
     or_same d (upsert_search_documents (en_kv (se_env E)) (en_search (se_env E)) (millis ns) xs d)"

text \<open>The fact of a request: own says that the engine took the pointer.\<close>

definition held :: "bool \<Rightarrow> fact \<Rightarrow> engine \<Rightarrow> fact" where
  "held own f e = (if own then (case fact_at e (fact_id f) of Some g \<Rightarrow> g | None \<Rightarrow> f) else f)"

definition sync_fact_search_document ::
  "'db session_env \<Rightarrow> int \<Rightarrow> string \<Rightarrow> string \<Rightarrow> session_config option \<Rightarrow> bool \<Rightarrow> fact \<Rightarrow> status \<Rightarrow> engine \<Rightarrow> 'db \<Rightarrow>
     engine \<times> 'db" where
  "sync_fact_search_document E ns oid sid cfg own f st e d =
     (if oid = [] \<or> sid = [] then (e, d)
      else (let g = (held own f e)\<lparr>resolved_status := st\<rparr>
            in (if own then put_fact (fact_id f) g e else e,
                save_documents E ns (session_search_document oid sid cfg (millis ns) #
                  decision_fact_search_documents (se_json E) (se_f2 E) oid sid (Some g) (millis ns)) d)))"

fun fact_documents ::
  "'db session_env \<Rightarrow> int \<Rightarrow> string \<Rightarrow> string \<Rightarrow> fact list \<Rightarrow> engine \<Rightarrow> (engine \<times> search_document list) option" where
  "fact_documents E now oid sid [] e = Some (e, [])"
| "fact_documents E now oid sid (f # fs) e =
     (case get_status now (fact_id f) e of
        None \<Rightarrow> None
      | Some (e1, st) \<Rightarrow>
          map_option (\<lambda>(e2, docs). (e2, decision_fact_search_documents (se_json E) (se_f2 E) oid sid
              (Some (f\<lparr>resolved_status := st\<rparr>)) now @ docs))
            (fact_documents E now oid sid fs e1))"

definition sync_session_search_documents ::
  "'db session_env \<Rightarrow> int \<Rightarrow> string \<Rightarrow> string \<Rightarrow> session_config option \<Rightarrow> engine \<Rightarrow> 'db \<Rightarrow> (engine \<times> 'db) option" where
  "sync_session_search_documents E ns oid sid cfg e d =
     (if oid = [] \<or> sid = [] then Some (e, d)
      else map_option (\<lambda>(e', docs). (e', save_documents E ns (session_search_document oid sid cfg (millis ns) # docs) d))
             (fact_documents E (millis ns) oid sid (list_facts e) e))"

section \<open>The snapshot trigger\<close>

definition check_snapshot_trigger :: "int \<Rightarrow> engine \<Rightarrow> bool \<times> engine" where
  "check_snapshot_trigger now e =
     (if mutation_count e \<ge> 50 then (True, e\<lparr>mutation_count := 0\<rparr>)
      else if now - last_snapshot_time e > 5 * 60 * 1000 \<and> mutation_count e > 0 then (True, e\<lparr>mutation_count := 0\<rparr>)
      else (False, e))"

definition schedule :: "string \<Rightarrow> int \<Rightarrow> bool \<Rightarrow> engine \<Rightarrow> 'db node \<Rightarrow> 'db node" where
  "schedule sid now due e n = (if due then n\<lparr>nd_snapshots := nd_snapshots n @ [(sid, now, e)]\<rparr> else n)"

text \<open>The end of a handler that changed the whole session: trigger, then documents.\<close>

definition settle_session ::
  "'db session_env \<Rightarrow> int \<Rightarrow> string \<Rightarrow> string \<Rightarrow> session_config option \<Rightarrow> engine \<Rightarrow> 'db node \<Rightarrow> (engine \<times> 'db node) option" where
  "settle_session E ns oid sid cfg e n =
     (let (due, e1) = check_snapshot_trigger (millis ns) e
      in map_option (\<lambda>(e2, d). (e2, schedule sid (millis ns) due e2 (keep_engine sid e2 (on_db (\<lambda>_. d) n))))
           (sync_session_search_documents E ns oid sid cfg e1 (node_db n)))"

section \<open>Asserting\<close>

definition move_provenance_from_payload_to_metadata :: "fact \<Rightarrow> fact" where
  "move_provenance_from_payload_to_metadata f =
     (case payload f of
        None \<Rightarrow> f
      | Some kv \<Rightarrow>
          (case map_of kv ''_provenance'' of
             None \<Rightarrow> f
           | Some p \<Rightarrow> set_meta ''_provenance'' p (f\<lparr>payload := Some (AList.delete ''_provenance'' kv)\<rparr>)))"

definition governed :: "'db session_env \<Rightarrow> int \<Rightarrow> string \<Rightarrow> 'db \<Rightarrow> fact \<Rightarrow> fact" where
  "governed E ns oid d f =
     (case apply_fact_governance (millis ns) (controls_of (se_env E) oid d) (Some f) of None \<Rightarrow> f | Some g \<Rightarrow> g)"

definition schema_errors :: "'db session_env \<Rightarrow> session_config \<Rightarrow> fact \<Rightarrow> string list option" where
  "schema_errors E c f = (if cfg_schema c = [] then Some [] else se_schema E (cfg_schema c) (payload f))"

text \<open>Whether the engine took the fact, the fact as the caller then sees it, and the engine.\<close>

definition take_fact :: "int \<Rightarrow> fact \<Rightarrow> engine \<Rightarrow> (core_error + (bool \<times> fact \<times> engine)) option" where
  "take_fact now f e =
     map_option (map_sum id (\<lambda>e1. (snd (validate_assert_fact now e f) = Inr False, asserted_view now f e e1, e1)))
       (assert_fact now (Some f) e)"

text \<open>What a fact in the log still causes: records, metrics, the trigger and its document.\<close>

definition assert_recorded ::
  "'db session_env \<Rightarrow> int \<Rightarrow> string \<Rightarrow> string \<Rightarrow> session_config \<Rightarrow> journal_entry \<Rightarrow> bool \<Rightarrow> fact \<Rightarrow> engine \<Rightarrow> 'db node \<Rightarrow>
     (fact reply \<times> 'db node) option" where
  "assert_recorded E ns sid oid c en own f e1 n =
     (case get_status (millis ns) (fact_id f) e1 of
        None \<Rightarrow> None
      | Some (e2, st) \<Rightarrow>
          (let asserted = (\<lambda>d. count_metric E ns oid ''facts_asserted''
                 (create_notification E ns oid ''assert'' ''Fact asserted'' (''Session '' @ sid @ '': '' @ fact_id f)
                    (log_activity E ns oid en d)));
               pruned = (if st < ConfidenceThreshold then count_metric E ns oid ''facts_pruned'' else id);
               n1 = on_db (\<lambda>d. touch_session E ns oid sid 1 (pruned (asserted d))) n;
               (due, e3) = check_snapshot_trigger (millis ns) e2
           in map_option (\<lambda>(e4, st4).
                let (e5, d5) = sync_fact_search_document E ns oid sid (Some c) own f st4 e4 (node_db n1)
                in (Done 201 (held own f e2), schedule sid (millis ns) due e5 (keep_engine sid e5 (on_db (\<lambda>_. d5) n1))))
              (get_status (millis ns) (fact_id f) e3)))"

definition handle_assert_fact ::
  "'db session_env \<Rightarrow> int \<Rightarrow> string \<Rightarrow> string \<Rightarrow> string \<Rightarrow> string + fact \<Rightarrow> 'db node \<Rightarrow> (fact reply \<times> 'db node) option" where
  "handle_assert_fact E ns sid oid actor body n =
     with_engine E ns sid oid n (\<lambda>e cfg n1.
       case body of
         Inl msg \<Rightarrow> Some (Failed 400 msg, n1)
       | Inr f0 \<Rightarrow>
           (let f1 = governed E ns oid (node_db n1) (move_provenance_from_payload_to_metadata f0)
            in case cfg of
                 None \<Rightarrow> Some (Crashed, n1)
               | Some c \<Rightarrow>
                   (case schema_errors E c f1 of
                      None \<Rightarrow> Some (Crashed, n1)
                    | Some errs \<Rightarrow>
                        (let n2 = (if errs = [] then n1 else on_db (count_metric E ns oid ''schema_violations'') n1);
                             f2 = (if errs = [] then f1 else f1\<lparr>validation_errors := errs\<rparr>)
                         in if errs \<noteq> [] \<and> cfg_enforcement_mode c = ''strict''
                            then Some (Failed 400 ''schema validation failed'', n2)
                            else (case take_fact (millis ns) f2 e of
                                None \<Rightarrow> None
                              | Some (Inl err) \<Rightarrow> Some (CoreRejected 400 err, n2)
                              | Some (Inr (own, f3, e1)) \<Rightarrow>
                                  (let en = (blank_entry EventAssert sid)\<lparr>je_actor := actor, je_fact := Some f3\<rparr>;
                                       (n3, err) = append_entry E ns en (invalidate_slice_cache sid (keep_engine sid e1 n2))
                                   in if err \<noteq> None then Some (Failed 500 ''failed to persist journal'', n3)
                                      else assert_recorded E ns sid oid c en own f3 e1 n3))))))"

record perception_request =
  pr_id :: string
  pr_payload :: gobj
  pr_confidence :: real
  pr_modality :: string
  pr_provider :: string
  pr_model :: string
  pr_embedding :: "real list"
  pr_metadata :: gobj

definition blank_fact :: fact where
  "blank_fact = \<lparr>fact_id = [], payload = None, metadata = None, embedding = [], is_root = False, manual_status = 0,
     entrenchment = 0, review_status = [], review_reason = [], reviewed_at = 0, valid_until = 0, asserted_at = 0,
     assertion_kind = [], derived_status = 0, resolved_status = 0, valid_justification_count = 0,
     justification_sets = None, validation_errors = [], idom = [], pre_order = 0, post_order = 0\<rparr>"

text \<open>The map of the request becomes the metadata of the fact.\<close>

definition perceived_fact :: "perception_request \<Rightarrow> fact" where
  "perceived_fact b =
     (let f = blank_fact\<lparr>fact_id := trim_space (pr_id b), is_root := True,
            manual_status := (if pr_confidence b = 0 then 3 / 4 else pr_confidence b), payload := pr_payload b,
            metadata := Some (case pr_metadata b of None \<Rightarrow> [] | Some kv \<Rightarrow> kv), embedding := pr_embedding b\<rparr>;
          put = (\<lambda>k v g. if v = [] then g else set_meta k (GStr v) g)
      in put ''model'' (pr_model b) (put ''provider'' (pr_provider b) (put ''modality'' (pr_modality b)
           (set_meta ''source_type'' (GStr ''perception'') (move_provenance_from_payload_to_metadata f)))))"

definition handle_record_perception ::
  "'db session_env \<Rightarrow> int \<Rightarrow> string \<Rightarrow> string \<Rightarrow> string \<Rightarrow> string + perception_request \<Rightarrow> 'db node \<Rightarrow>
     (fact reply \<times> 'db node) option" where
  "handle_record_perception E ns sid oid actor body n =
     with_engine E ns sid oid n (\<lambda>e cfg n1.
       case body of
         Inl msg \<Rightarrow> Some (Failed 400 msg, n1)
       | Inr b \<Rightarrow>
           if trim_space (pr_id b) = [] then Some (Failed 400 ''id is required'', n1)
           else (let now = millis ns; f1 = governed E ns oid (node_db n1) (perceived_fact b)
            in case cfg of
                 None \<Rightarrow> Some (Crashed, n1)
               | Some c \<Rightarrow>
                   (case schema_errors E c f1 of
                      None \<Rightarrow> Some (Crashed, n1)
                    | Some errs \<Rightarrow>
                        if errs \<noteq> [] \<and> cfg_enforcement_mode c = ''strict''
                        then Some (Failed 400 ''schema validation failed'', n1)
                        else (case take_fact now (if errs = [] then f1 else f1\<lparr>validation_errors := errs\<rparr>) e of
                            None \<Rightarrow> None
                          | Some (Inl err) \<Rightarrow> Some (CoreRejected 400 err, n1)
                          | Some (Inr (own, f3, e1)) \<Rightarrow>
                              (let en = (blank_entry EventAssert sid)\<lparr>je_actor := actor, je_fact := Some f3\<rparr>;
                                   (n3, err) = append_entry E ns en (keep_engine sid e1 n1)
                               in if err \<noteq> None then Some (Failed 500 ''failed to persist journal'', n3)
                                  else (let n4 = invalidate_slice_cache sid (on_db (log_activity E ns oid en) n3);
                                            (due, e2) = check_snapshot_trigger now e1
                                        in map_option (\<lambda>(e3, st).
                                             let (e4, d4) = sync_fact_search_document E ns oid sid cfg own f3 st e3 (node_db n4)
                                             in (Done 201 f3, schedule sid now due e4 (keep_engine sid e4 (on_db (\<lambda>_. d4) n4))))
                                           (get_status now (fact_id f3) e2)))))))"

section \<open>Invalidating and retracting\<close>

record mutation_request =
  mr_reason :: string
  mr_force :: bool

definition forced_payload :: "mutation_request \<Rightarrow> gobj" where
  "forced_payload b = Some [(''reason'', GStr (mr_reason b)), (''force'', GBool (mr_force b))]"

text \<open>The entry is appended before the engine is asked.\<close>

definition handle_invalidate_root ::
  "'db session_env \<Rightarrow> int \<Rightarrow> string \<Rightarrow> string \<Rightarrow> string \<Rightarrow> string \<Rightarrow> string \<Rightarrow> string + mutation_request \<Rightarrow> 'db node \<Rightarrow>
     (string reply \<times> 'db node) option" where
  "handle_invalidate_root E ns sid oid actor role fid body n =
     with_engine E ns sid oid n (\<lambda>e cfg n1.
       case body of
         Inl msg \<Rightarrow> Some (Failed 400 msg, n1)
       | Inr b \<Rightarrow>
           (case mutation_requires_override (get_fact e fid) role (mr_force b) of
              Some msg \<Rightarrow> Some (Failed 409 msg, n1)
            | None \<Rightarrow>
                (let en = (blank_entry EventInvalidate sid)\<lparr>je_fact_id := fid, je_actor := actor, je_payload := forced_payload b\<rparr>;
                     (n2, err) = append_entry E ns en n1
                 in if err \<noteq> None then Some (Failed 500 ''failed to persist journal'', n2)
                    else (let n3 = on_db (log_activity E ns oid en) n2
                          in case invalidate_root (millis ns) fid e of
                               None \<Rightarrow> None
                             | Some (Inl cerr) \<Rightarrow> Some (CoreRejected 400 cerr, n3)
                             | Some (Inr e1) \<Rightarrow>
                                 (let n4 = on_db (\<lambda>d. touch_session E ns oid sid 0
                                        (create_notification E ns oid ''invalidate'' ''Fact invalidated''
                                          (''Session '' @ sid @ '': '' @ fid) d)) (invalidate_slice_cache sid n3)
                                  in map_option (\<lambda>(e2, n5). (Done 200 ''invalidated'', n5))
                                       (settle_session E ns oid sid cfg e1 n4))))))"

definition handle_retract_fact ::
  "'db session_env \<Rightarrow> int \<Rightarrow> string \<Rightarrow> string \<Rightarrow> string \<Rightarrow> string \<Rightarrow> string \<Rightarrow> string + mutation_request \<Rightarrow> 'db node \<Rightarrow>
     ((string \<times> string) reply \<times> 'db node) option" where
  "handle_retract_fact E ns sid oid actor role fid body n =
     with_engine E ns sid oid n (\<lambda>e cfg n1.
       if get_fact e fid = None then Some (Failed 404 ''fact not found'', n1)
       else (case body of
         Inl msg \<Rightarrow> Some (Failed 400 msg, n1)
       | Inr b \<Rightarrow>
           (case mutation_requires_override (get_fact e fid) role (mr_force b) of
              Some msg \<Rightarrow> Some (Failed 409 msg, n1)
            | None \<Rightarrow>
                (let en = (blank_entry EventRetract sid)\<lparr>je_fact_id := fid, je_actor := actor, je_payload := forced_payload b\<rparr>;
                     (n2, err) = append_entry E ns en n1
                 in if err \<noteq> None then Some (Failed 500 ''failed to persist journal'', n2)
                    else (let n3 = on_db (log_activity E ns oid en) n2
                          in case retract_fact (millis ns) fid (mr_reason b) e of
                               None \<Rightarrow> None
                             | Some (Inl cerr) \<Rightarrow> Some (CoreRejected 400 cerr, n3)
                             | Some (Inr e1) \<Rightarrow>
                                 map_option (\<lambda>(e2, n4). (Done 200 (fid, mr_reason b), n4))
                                   (settle_session E ns oid sid cfg e1 (invalidate_slice_cache sid n3)))))))"

section \<open>Reviewing and verifying\<close>

text \<open>The reply: the fact with the status of the engine after it.\<close>

definition fact_reply :: "int \<Rightarrow> string \<Rightarrow> string \<Rightarrow> engine \<Rightarrow> 'db node \<Rightarrow> (fact reply \<times> 'db node) option" where
  "fact_reply now sid fid e n =
     map_option (\<lambda>(e', st). (case get_fact e fid of None \<Rightarrow> Crashed | Some f \<Rightarrow> Done 200 (f\<lparr>resolved_status := st\<rparr>),
         keep_engine sid e' n)) (get_status now fid e)"

record review_request =
  rv_status :: string
  rv_reason :: string

definition handle_review_fact ::
  "'db session_env \<Rightarrow> int \<Rightarrow> string \<Rightarrow> string \<Rightarrow> string \<Rightarrow> string \<Rightarrow> string \<Rightarrow> review_request option \<Rightarrow> 'db node \<Rightarrow>
     (fact reply \<times> 'db node) option" where
  "handle_review_fact E ns sid oid actor role fid body n =
     (if role \<noteq> ''admin'' then Some (Failed 403 ''forbidden: admin role required'', n)
      else with_engine E ns sid oid n (\<lambda>e cfg n1.
        if get_fact e fid = None then Some (Failed 404 ''fact not found'', n1)
        else (case body of
          None \<Rightarrow> Some (Failed 400 ''invalid request'', n1)
        | Some b \<Rightarrow>
            (let st = normalize_review_status (rv_status b)
             in if st = [] then Some (Failed 400 ''invalid review status'', n1)
                else (case set_fact_review (millis ns) fid st (rv_reason b) (millis ns) e of
                    Inl cerr \<Rightarrow> Some (CoreRejected 400 cerr, n1)
                  | Inr e1 \<Rightarrow>
                      (let en = (blank_entry EventReview sid)\<lparr>je_fact_id := fid, je_actor := actor,
                             je_payload := Some [(''status'', GStr st), (''reason'', GStr (trim_space (rv_reason b))),
                               (''reviewed_at'', GInt (millis ns))]\<rparr>;
                           (n2, err) = append_entry E ns en (keep_engine sid e1 n1)
                       in if err \<noteq> None then Some (Failed 500 ''failed to persist review'', n2)
                          else (let n3 = invalidate_slice_cache sid (on_db (log_activity E ns oid en) n2)
                                in case sync_session_search_documents E ns oid sid cfg e1 (node_db n3) of
                                     None \<Rightarrow> None
                                   | Some (e2, d) \<Rightarrow> fact_reply (millis ns) sid fid e2 (on_db (\<lambda>_. d) n3))))))))"

record verify_request =
  vr_status :: string
  vr_method :: string
  vr_source_ref :: string
  vr_reason :: string
  vr_verified_at :: int

definition verification_entry :: "int \<Rightarrow> string \<Rightarrow> string \<Rightarrow> string \<Rightarrow> int \<Rightarrow> verify_request \<Rightarrow> journal_entry" where
  "verification_entry now sid actor fid verified_at b =
     (blank_entry EventFactVerification sid)\<lparr>je_actor := actor, je_fact_id := fid, je_timestamp := now,
        je_payload := Some [(''status'', GStr (trim_space (vr_status b))), (''method'', GStr (trim_space (vr_method b))),
          (''source_ref'', GStr (trim_space (vr_source_ref b))), (''reason'', GStr (trim_space (vr_reason b))),
          (''verified_at'', GInt verified_at)]\<rparr>"

text \<open>The error of Append is ignored.\<close>

definition handle_verify_fact ::
  "'db session_env \<Rightarrow> int \<Rightarrow> string \<Rightarrow> string \<Rightarrow> string \<Rightarrow> string \<Rightarrow> string \<Rightarrow> verify_request option \<Rightarrow> 'db node \<Rightarrow>
     (fact reply \<times> 'db node) option" where
  "handle_verify_fact E ns sid oid actor role fid body n =
     (if role \<noteq> ''admin'' then Some (Failed 403 ''forbidden: admin role required'', n)
      else with_engine E ns sid oid n (\<lambda>e cfg n1.
        if get_fact e fid = None then Some (Failed 404 ''fact not found'', n1)
        else (case body of
          None \<Rightarrow> Some (Failed 400 ''invalid request'', n1)
        | Some b \<Rightarrow>
            (let stamp = (if vr_verified_at b = 0 then millis ns else vr_verified_at b)
             in case set_fact_verification (millis ns) fid (vr_status b) (vr_method b) (vr_source_ref b) (vr_reason b) stamp e of
                  None \<Rightarrow> None
                | Some (Inl cerr) \<Rightarrow> Some (CoreRejected 400 cerr, n1)
                | Some (Inr e1) \<Rightarrow>
                    (let en = verification_entry (millis ns) sid actor fid stamp b;
                         (n2, _) = append_entry E ns en n1;
                         n3 = invalidate_slice_cache sid (on_db (log_activity E ns oid en) n2)
                     in case settle_session E ns oid sid cfg e1 n3 of
                          None \<Rightarrow> None
                        | Some (e2, n4) \<Rightarrow> fact_reply (millis ns) sid fid e2 n4)))))"

section \<open>The history\<close>

definition handle_append_history ::
  "'db session_env \<Rightarrow> int \<Rightarrow> string \<Rightarrow> string \<Rightarrow> string \<Rightarrow> string + journal_entry \<Rightarrow> 'db node \<Rightarrow> journal_entry reply \<times> 'db node" where
  "handle_append_history E ns sid oid actor body n =
     (if \<not> owned (se_env E) sid oid (node_db n) then (Failed 403 ''unauthorized'', n)
      else (case body of
         Inl msg \<Rightarrow> (Failed 400 msg, n)
       | Inr en0 \<Rightarrow>
           (let en = en0\<lparr>je_actor := actor, je_session := sid, je_timestamp := millis ns\<rparr>;
                (n1, err) = append_entry E ns en n
            in if err \<noteq> None then (Failed 500 ''failed to persist history'', n1) else (Done 201 en, n1))))"

section \<open>Revalidating\<close>

record revalidation =
  rev_seen :: nat
  rev_passed :: nat
  rev_violations :: nat
  rev_pruned :: nat

text \<open>The listeners, the retractions and the dirty flag stay.\<close>

definition cleared_engine :: "engine \<Rightarrow> engine" where
  "cleared_engine e = e\<lparr>facts := [], jsets := [], children := [], collapsed_roots := [], mutation_count := 0\<rparr>"

text \<open>The id of a fact the engine has not taken is read off the entry.\<close>

definition revalidate_assert :: "int \<Rightarrow> fact option \<Rightarrow> engine \<times> revalidation \<Rightarrow> (engine \<times> revalidation) option" where
  "revalidate_assert now fo s =
     (let (e, r0) = s; r = r0\<lparr>rev_seen := Suc (rev_seen r0)\<rparr>
      in case assert_fact now fo e of
           None \<Rightarrow> None
         | Some (Inl _) \<Rightarrow> Some (e, r\<lparr>rev_violations := Suc (rev_violations r)\<rparr>)
         | Some (Inr e1) \<Rightarrow>
             map_option (\<lambda>(e2, st). (e2, if st < ConfidenceThreshold then r\<lparr>rev_pruned := Suc (rev_pruned r)\<rparr>
                                        else r\<lparr>rev_passed := Suc (rev_passed r)\<rparr>))
               (get_status now (case fo of None \<Rightarrow> [] | Some f \<Rightarrow> fact_id f) e1))"

definition revalidate_entry :: "int \<Rightarrow> journal_entry \<Rightarrow> engine \<times> revalidation \<Rightarrow> (engine \<times> revalidation) option" where
  "revalidate_entry now en s =
     (if je_type en = EventAssert then revalidate_assert now (je_fact en) s
      else map_option (\<lambda>e. (e, snd s)) (boot_entry now en (fst s)))"

fun revalidate_entries :: "int \<Rightarrow> journal_entry list \<Rightarrow> engine \<times> revalidation \<Rightarrow> (engine \<times> revalidation) option" where
  "revalidate_entries now [] s = Some s"
| "revalidate_entries now (en # es) s =
     (case revalidate_entry now en s of None \<Rightarrow> None | Some s' \<Rightarrow> revalidate_entries now es s')"

definition handle_revalidate ::
  "'db session_env \<Rightarrow> int \<Rightarrow> string \<Rightarrow> string \<Rightarrow> 'db node \<Rightarrow> (revalidation reply \<times> 'db node) option" where
  "handle_revalidate E ns sid oid n =
     with_engine E ns sid oid n (\<lambda>e cfg n1.
       let h = fst (get_session_history (en_kv (se_env E)) (bx_journal (en_boot (se_env E))) sid (node_db n1));
           blank = \<lparr>cfg_schema = [], cfg_enforcement_mode = [], cfg_auto_retract = False\<rparr>
       in case revalidate_entries (millis ns) h
                 (cleared_engine e, \<lparr>rev_seen = 0, rev_passed = 0, rev_violations = 0, rev_pruned = 0\<rparr>) of
            None \<Rightarrow> None
          | Some (e1, r) \<Rightarrow>
              map_option (\<lambda>(e2, d). (Done 200 r, keep_engine sid e2 (on_db (\<lambda>_. d) n1)))
                (sync_session_search_documents E ns oid sid (Some blank) e1
                   (count_metric E ns oid ''revalidation_runs'' (node_db n1))))"

section \<open>The configuration\<close>

text \<open>check stands for gojsonschema.NewSchema: Some is its error. The cached configuration is changed in place.\<close>

definition handle_update_config ::
  "'db session_env \<Rightarrow> (string \<Rightarrow> string option) \<Rightarrow> int \<Rightarrow> string \<Rightarrow> string \<Rightarrow> string \<Rightarrow> string + session_config \<Rightarrow> 'db node \<Rightarrow>
     (session_config reply \<times> 'db node) option" where
  "handle_update_config E check ns sid oid actor body n =
     with_engine E ns sid oid n (\<lambda>e cfg n1.
       case body of
         Inl msg \<Rightarrow> Some (Failed 400 msg, n1)
       | Inr b \<Rightarrow>
           (case (if cfg_schema b = [] then None else check (cfg_schema b)) of
              Some msg \<Rightarrow> Some (Failed 400 (''invalid json schema: '' @ msg), n1)
            | None \<Rightarrow>
                (case cfg of
                   None \<Rightarrow> Some (Crashed, n1)
                 | Some c0 \<Rightarrow>
                     (let c = \<lparr>cfg_schema = (if cfg_schema b = [] then cfg_schema c0 else cfg_schema b),
                            cfg_enforcement_mode =
                              (if cfg_enforcement_mode b = [] then cfg_enforcement_mode c0 else cfg_enforcement_mode b),
                            cfg_auto_retract = cfg_auto_retract b\<rparr>;
                          n2 = n1\<lparr>nd_server := (nd_server n1)\<lparr>sv_configs := AList.update sid c (sv_configs (nd_server n1))\<rparr>\<rparr>;
                          mode = GStr (cfg_enforcement_mode c)
                      in case save_config (en_kv (se_env E)) (bx_config (en_boot (se_env E))) sid c (node_db n2) of
                           Inl _ \<Rightarrow> Some (Failed 500 ''failed to persist config'', n2)
                         | Inr d \<Rightarrow>
                             (let n3 = audit_admin E ns sid actor ''update_config'' [(''enforcement_mode'', mode)] (on_db (\<lambda>_. d) n2);
                                  en = (blank_entry ''admin_action'' sid)\<lparr>je_actor := actor, je_timestamp := millis ns,
                                    je_payload := Some [(''action'', GStr ''update_config''), (''enforcement_mode'', mode)]\<rparr>
                              in Some (Done 200 c, on_db (\<lambda>d. save_documents E ns
                                   [session_search_document oid sid (Some c) (millis ns)]
                                   (log_activity E ns oid en
                                     (create_notification E ns oid ''config'' ''Session config updated''
                                       (''Session '' @ sid @ '' enforcement_mode='' @ cfg_enforcement_mode c) d))) n3))))))"

end
