(* ===== verification/Upkeep.thy ===== *)
theory Upkeep
imports Sessions
begin

text \<open>
  What the server does beside the requests (api/server.go): the snapshots of the trigger, the
  eviction of idle sessions, the sweep of expired facts and the purge of the slice cache.
\<close>

section \<open>Snapshots\<close>

text \<open>
  The background task of checkSnapshotTrigger, whenever it runs. gob stands for the encoder. The time
  it leaves in the engine is seen only while the cache still holds that engine.
\<close>

definition take_snapshot ::
  "'db session_env \<Rightarrow> (payload \<Rightarrow> bytes option) \<Rightarrow> int \<Rightarrow> string \<times> int \<times> engine \<Rightarrow> 'db node \<Rightarrow> 'db node" where
  "take_snapshot E gob now task n =
     (let (sid, asked, e) = task
      in case to_snapshot gob now e of
           None \<Rightarrow> n
         | Some sn \<Rightarrow>
             (let n1 = on_db (\<lambda>d. or_same d (save_snapshot (en_kv (se_env E)) (bx_snapshot (en_boot (se_env E))) sid sn d)) n
              in if map_of (sv_engines (nd_server n1)) sid = Some e
                 then keep_engine sid (e\<lparr>last_snapshot_time := asked\<rparr>) n1 else n1))"

text \<open>The first task of the queue runs.\<close>

definition run_snapshot :: "'db session_env \<Rightarrow> (payload \<Rightarrow> bytes option) \<Rightarrow> int \<Rightarrow> 'db node \<Rightarrow> 'db node" where
  "run_snapshot E gob now n =
     (case nd_snapshots n of [] \<Rightarrow> n | task # rest \<Rightarrow> take_snapshot E gob now task (n\<lparr>nd_snapshots := rest\<rparr>))"

section \<open>Eviction\<close>

definition evict :: "string list \<Rightarrow> 'db server \<Rightarrow> 'db server" where
  "evict ids s =
     s\<lparr>sv_engines := filter (\<lambda>kv. fst kv \<notin> set ids) (sv_engines s),
       sv_configs := filter (\<lambda>kv. fst kv \<notin> set ids) (sv_configs s),
       sv_versions := filter (\<lambda>kv. fst kv \<notin> set ids) (sv_versions s),
       sv_last_access := filter (\<lambda>kv. fst kv \<notin> set ids) (sv_last_access s)\<rparr>"

text \<open>heap is the size of the heap in bytes; the clock is in milliseconds.\<close>

definition idle_sessions :: "int \<Rightarrow> 'db server \<Rightarrow> string list" where
  "idle_sessions now s = map fst (filter (\<lambda>kv. now - snd kv > 30 * 60 * 1000) (sv_last_access s))"

definition oldest_sessions :: "'db server \<Rightarrow> string list" where
  "oldest_sessions s =
     (let ages = sort_key snd (sv_last_access s) in map fst (take (length ages div 5) ages))"

definition perform_eviction_sweep :: "int \<Rightarrow> int \<Rightarrow> 'db server \<Rightarrow> 'db server" where
  "perform_eviction_sweep now heap s =
     (let s1 = evict (idle_sessions now s) s
      in if heap > 1024 * 1024 * 1024 \<and> length (sv_engines s1) > 100 then evict (oldest_sessions s1) s1 else s1)"

section \<open>Expiry\<close>

text \<open>clock gives the readings of the clock for a session: one for the sweep, then one for each entry.\<close>

definition expiry_entry :: "string \<Rightarrow> string \<Rightarrow> journal_entry" where
  "expiry_entry sid fid =
     (blank_entry EventFactExpired sid)\<lparr>je_actor := ''system'', je_fact_id := fid,
        je_payload := Some [(''reason'', GStr ''expired'')]\<rparr>"

fun log_expired :: "'db session_env \<Rightarrow> (nat \<Rightarrow> int) \<Rightarrow> nat \<Rightarrow> string \<Rightarrow> string list \<Rightarrow> 'db node \<Rightarrow> 'db node" where
  "log_expired E clock i sid [] n = n"
| "log_expired E clock i sid (fid # fids) n =
     log_expired E clock (Suc i) sid fids (fst (append_entry E (clock i) (expiry_entry sid fid) n))"

definition expire_session :: "'db session_env \<Rightarrow> (string \<Rightarrow> nat \<Rightarrow> int) \<Rightarrow> string \<times> engine \<Rightarrow> 'db node \<Rightarrow> 'db node option" where
  "expire_session E clock kv n =
     (let (sid, e) = kv
      in case sweep_expired_facts (millis (clock sid 0)) e of
           None \<Rightarrow> None
         | Some (e', expired) \<Rightarrow>
             if expired = [] then Some n
             else Some (invalidate_slice_cache sid (log_expired E (clock sid) 1 sid expired (keep_engine sid e' n))))"

fun expire_sessions ::
  "'db session_env \<Rightarrow> (string \<Rightarrow> nat \<Rightarrow> int) \<Rightarrow> (string \<times> engine) list \<Rightarrow> 'db node \<Rightarrow> 'db node option" where
  "expire_sessions E clock [] n = Some n"
| "expire_sessions E clock (kv # kvs) n =
     (case expire_session E clock kv n of None \<Rightarrow> None | Some n' \<Rightarrow> expire_sessions E clock kvs n')"

definition perform_expiry_sweep :: "'db session_env \<Rightarrow> (string \<Rightarrow> nat \<Rightarrow> int) \<Rightarrow> 'db node \<Rightarrow> 'db node option" where
  "perform_expiry_sweep E clock n = expire_sessions E clock (sv_engines (nd_server n)) n"

section \<open>Slices\<close>

definition purge_slices :: "int \<Rightarrow> 'db node \<Rightarrow> 'db node" where
  "purge_slices ns n = n\<lparr>nd_slices := filter (\<lambda>kv. \<not> snd (snd kv) < ns - 15 * 60 * 1000000000) (nd_slices n)\<rparr>"

end
