(* ===== verification/SessionReads.thy ===== *)
theory SessionReads
imports Sessions Reasoning Impact
begin

text \<open>
  The handlers of api/server.go, api/reasoning_contracts.go and api/console_contracts.go that read
  a session: facts, impact, search, history and explanations, the present ones and those replayed
  up to a time of the past.
\<close>

section \<open>Facts\<close>

definition handle_get_fact ::
  "'db session_env \<Rightarrow> int \<Rightarrow> string \<Rightarrow> string \<Rightarrow> string \<Rightarrow> 'db node \<Rightarrow> (fact reply \<times> 'db node) option" where
  "handle_get_fact E ns sid oid fid n =
     with_engine E ns sid oid n (\<lambda>e cfg n1.
       if get_fact e fid = None then Some (Failed 404 ''fact not found'', n1)
       else fact_reply (millis ns) sid fid e n1)"

fun listed_facts :: "int \<Rightarrow> bool \<Rightarrow> fact list \<Rightarrow> engine \<Rightarrow> (fact list \<times> engine) option" where
  "listed_facts now valid_only [] e = Some ([], e)"
| "listed_facts now valid_only (f # fs) e =
     (case get_status now (fact_id f) e of
        None \<Rightarrow> None
      | Some (e1, st) \<Rightarrow>
          map_option (\<lambda>(gs, e2). (if valid_only \<and> st < ConfidenceThreshold then gs else f\<lparr>resolved_status := st\<rparr> # gs, e2))
            (listed_facts now valid_only fs e1))"

definition handle_list_facts ::
  "'db session_env \<Rightarrow> int \<Rightarrow> string \<Rightarrow> string \<Rightarrow> bool \<Rightarrow> 'db node \<Rightarrow> (fact list reply \<times> 'db node) option" where
  "handle_list_facts E ns sid oid valid_only n =
     with_engine E ns sid oid n (\<lambda>e cfg n1.
       map_option (\<lambda>(fs, e'). (Done 200 fs, keep_engine sid e' n1)) (listed_facts (millis ns) valid_only (list_facts e) e))"

definition handle_get_impact ::
  "'db session_env \<Rightarrow> int \<Rightarrow> string \<Rightarrow> string \<Rightarrow> string \<Rightarrow> 'db node \<Rightarrow> (impact_report reply \<times> 'db node) option" where
  "handle_get_impact E ns sid oid fid n =
     with_engine E ns sid oid n (\<lambda>e cfg n1.
       map_option (\<lambda>r. (case r of Inl err \<Rightarrow> CoreRejected 404 err | Inr report \<Rightarrow> Done 200 report, n1))
         (get_impact (millis ns) e fid))"

text \<open>The Badger store has no embeddings of its own. q stands for the parameters of the URL, sf for the text of a number.\<close>

definition handle_semantic_search ::
  "'db session_env \<Rightarrow> (real \<Rightarrow> string) \<Rightarrow> (string \<Rightarrow> string) \<Rightarrow> int \<Rightarrow> string \<Rightarrow> string \<Rightarrow> 'db node \<Rightarrow>
     (semantic_match list reply \<times> 'db node) option" where
  "handle_semantic_search E sf q ns sid oid n =
     with_engine E ns sid oid n (\<lambda>e cfg n1.
       let limit = (case parse_int (trim_space (q ''limit'')) of
              Some m \<Rightarrow> if m > 0 \<and> m \<le> 100 then m else 10 | None \<Rightarrow> 10);
           valid_only = (trim_space (q ''valid_only'') \<noteq> ''false'')
       in Some (Done 200 (search_similar_facts sf (millis ns) e (trim_space (q ''q'')) limit valid_only), n1))"

section \<open>Configuration and history\<close>

definition handle_get_config ::
  "'db session_env \<Rightarrow> int \<Rightarrow> string \<Rightarrow> string \<Rightarrow> 'db node \<Rightarrow> (session_config option reply \<times> 'db node) option" where
  "handle_get_config E ns sid oid n = with_engine E ns sid oid n (\<lambda>e cfg n1. Some (Done 200 cfg, n1))"

definition handle_get_history :: "'db session_env \<Rightarrow> string \<Rightarrow> string \<Rightarrow> 'db node \<Rightarrow> journal_entry list reply" where
  "handle_get_history E sid oid n =
     (if \<not> owned (se_env E) sid oid (node_db n) then Failed 403 ''unauthorized''
      else Done 200 (fst (get_session_history (en_kv (se_env E)) (bx_journal (en_boot (se_env E))) sid (node_db n))))"

definition handle_history_page ::
  "'db session_env \<Rightarrow> (string \<Rightarrow> string) \<Rightarrow> string \<Rightarrow> string \<Rightarrow> 'db node \<Rightarrow> (journal_entry list \<times> string) reply" where
  "handle_history_page E q sid oid n =
     (if \<not> owned (se_env E) sid oid (node_db n) then Failed 403 ''unauthorized''
      else (let num = (\<lambda>k. case parse_int (q k) of Some m \<Rightarrow> m | None \<Rightarrow> 0);
                limit = (if num ''limit'' \<le> 0 \<or> num ''limit'' > 500 then 100 else num ''limit'')
            in Done 200 (get_session_history_page (en_kv (se_env E)) (bx_journal (en_boot (se_env E))) sid (q ''cursor'') limit
                 (num ''from'') (num ''to'') (trim_space (q ''type'')) (to_lower (trim_space (q ''q''))) (node_db n))))"

section \<open>Explanations\<close>

definition handle_explain ::
  "'db session_env \<Rightarrow> int \<Rightarrow> string \<Rightarrow> string \<Rightarrow> string \<Rightarrow> 'db node \<Rightarrow> (explanation reply \<times> 'db node) option" where
  "handle_explain E ns sid oid fid n =
     with_engine E ns sid oid n (\<lambda>e cfg n1.
       Some (case explain_reasoning (millis ns) e fid of Inl err \<Rightarrow> CoreRejected 400 err | Inr x \<Rightarrow> Done 200 x, n1))"

text \<open>The replay of the past knows four kinds of entries.\<close>

definition past_entry :: "int \<Rightarrow> journal_entry \<Rightarrow> engine \<Rightarrow> engine option" where
  "past_entry now en e =
     (if je_type en \<in> {EventAssert, EventInvalidate, EventRetract, EventReview} then boot_entry now en e else Some e)"

fun past_entries :: "int \<Rightarrow> journal_entry list \<Rightarrow> engine \<Rightarrow> engine option" where
  "past_entries now [] e = Some e"
| "past_entries now (en # es) e = (case past_entry now en e of None \<Rightarrow> None | Some e' \<Rightarrow> past_entries now es e')"

text \<open>
  js stands for the JSON of an explanation with its session and time. Without a fact the last one of
  ListFacts is explained.
\<close>

definition explained ::
  "'db session_env \<Rightarrow> (string \<Rightarrow> int \<Rightarrow> explanation \<Rightarrow> string option) \<Rightarrow> int \<Rightarrow> string \<Rightarrow> string \<Rightarrow> int \<Rightarrow> engine \<Rightarrow> 'db node \<Rightarrow>
     (string \<times> int \<times> explanation) reply \<times> 'db node" where
  "explained E js ns sid fid0 t e n =
     (if fid0 = [] \<and> list_facts e = [] then (Failed 404 ''no facts in session'', n)
      else (let fid = (if fid0 = [] then fact_id (last (list_facts e)) else fid0)
            in case explain_reasoning (millis ns) e fid of
                 Inl err \<Rightarrow> (CoreRejected 400 err, n)
               | Inr x \<Rightarrow>
                   (case js sid t x of
                      None \<Rightarrow> (Failed 500 ''failed to serialize explanation'', n)
                    | Some content \<Rightarrow>
                        (Done 200 (sid, t, x), on_db (\<lambda>d. case save_explanation (en_kv (se_env E)) (se_explanation E)
                             (se_sha E) ns sid content d of Inl _ \<Rightarrow> d | Inr (_, d') \<Rightarrow> d') n))))"

text \<open>parse_time stands for time.Parse with RFC 3339, in milliseconds.\<close>

definition handle_explain_reasoning ::
  "'db session_env \<Rightarrow> (string \<Rightarrow> int option) \<Rightarrow> (string \<Rightarrow> int \<Rightarrow> explanation \<Rightarrow> string option) \<Rightarrow> int \<Rightarrow> string \<Rightarrow> string \<Rightarrow>
     string \<Rightarrow> string \<Rightarrow> 'db node \<Rightarrow> ((string \<times> int \<times> explanation) reply \<times> 'db node) option" where
  "handle_explain_reasoning E parse_time js ns sid oid fid timestamp n =
     (if timestamp \<noteq> []
      then (case parse_time timestamp of
              None \<Rightarrow> Some (Failed 400 ''invalid timestamp format, use ISO8601 (RFC3339)'', n)
            | Some t \<Rightarrow>
                map_option (\<lambda>e. explained E js ns sid fid t e n)
                  (past_entries (millis ns) (get_session_history_before (en_kv (se_env E)) (bx_journal (en_boot (se_env E)))
                     sid t (node_db n)) new_engine))
      else with_engine E ns sid oid n (\<lambda>e cfg n1. Some (explained E js ns sid fid (millis ns) e n1)))"

definition handle_get_explanations :: "'db session_env \<Rightarrow> string \<Rightarrow> string \<Rightarrow> 'db node \<Rightarrow> explanation_record list reply" where
  "handle_get_explanations E sid oid n =
     (if \<not> owned (se_env E) sid oid (node_db n) then Failed 403 ''unauthorized''
      else Done 200 (get_session_explanations (en_kv (se_env E)) (se_explanation E) (se_sha E) sid (node_db n)))"

section \<open>The sessions of an organization\<close>

record session_info =
  si_id :: string
  si_fact_count :: int
  si_enforcement_mode :: string

definition handle_list_sessions ::
  "'db session_env \<Rightarrow> (string \<Rightarrow> string) \<Rightarrow> string \<Rightarrow> 'db node \<Rightarrow> (session_info list \<times> string) reply" where
  "handle_list_sessions E q oid n =
     (let limit = (case parse_int (trim_space (q ''limit'')) of
             Some m \<Rightarrow> if m > 0 \<and> m \<le> 200 then m else 50 | None \<Rightarrow> 50);
          (items, cursor) = list_org_sessions (en_kv (se_env E)) (bx_meta (en_boot (se_env E))) oid
             (trim_space (q ''cursor'')) limit (node_db n)
      in Done 200 (map (\<lambda>m. \<lparr>si_id = osm_id m, si_fact_count = osm_fact_count m,
           si_enforcement_mode = (case get_config (en_kv (se_env E)) (bx_config (en_boot (se_env E))) (osm_id m) (node_db n) of
               Inl _ \<Rightarrow> [] | Inr c \<Rightarrow> cfg_enforcement_mode c)\<rparr>) items, cursor))"

record session_summary =
  ss_id :: string
  ss_fact_count :: nat
  ss_enforcement_mode :: string
  ss_schema_set :: bool

definition handle_get_session_summary ::
  "'db session_env \<Rightarrow> int \<Rightarrow> string \<Rightarrow> string \<Rightarrow> 'db node \<Rightarrow> (session_summary reply \<times> 'db node) option" where
  "handle_get_session_summary E ns sid oid n =
     with_engine E ns sid oid n (\<lambda>e cfg n1.
       Some (case cfg of None \<Rightarrow> Crashed
             | Some c \<Rightarrow> Done 200 \<lparr>ss_id = sid, ss_fact_count = length (list_facts e),
                 ss_enforcement_mode = cfg_enforcement_mode c, ss_schema_set = (cfg_schema c \<noteq> [])\<rparr>, n1))"

end
