(* ===== verification/SessionFrames.thy ===== *)
theory SessionFrames
imports Upkeep SessionReads BootProperties
begin

text \<open>What the handlers of a session change in the store: only Append reaches the keys of a session.\<close>

section \<open>The keys of the organizations\<close>

abbreviation session_kv :: "'db session_env \<Rightarrow> 'db kv" where "session_kv E \<equiv> en_kv (se_env E)"
abbreviation session_journal :: "'db session_env \<Rightarrow> journal_entry codec" where "session_journal E \<equiv> bx_journal (en_boot (se_env E))"

text \<open>A store that keeps its laws and commits without the writes of others in between.\<close>

definition undisturbed :: "'db session_env \<Rightarrow> bool" where
  "undisturbed E \<longleftrightarrow> kv_laws (session_kv E) \<and> (\<forall>ns m d. se_others E ns m d = d)"

lemma undisturbed_laws: "undisturbed E \<Longrightarrow> kv_laws (session_kv E)"
  by (simp add: undisturbed_def)

definition org_only :: "'db session_env \<Rightarrow> 'db \<Rightarrow> 'db \<Rightarrow> bool" where
  "org_only E d d' \<longleftrightarrow> (\<forall>k. \<not> has_prefix k ''org:'' \<longrightarrow> kv_get (session_kv E) d' k = kv_get (session_kv E) d k)"

lemma org_only_refl [simp]: "org_only E d d"
  by (simp add: org_only_def)

lemma org_only_trans: "org_only E d d' \<Longrightarrow> org_only E d' d'' \<Longrightarrow> org_only E d d''"
  by (simp add: org_only_def)

named_theorems org_writes

lemma log_activity_org [org_writes]:
  assumes "kv_laws (session_kv E)"
  shows "org_only E d (log_activity E ns oid en d)"
  unfolding org_only_def
proof (intro allI impI)
  fix k assume "\<not> has_prefix k ''org:''"
  then have "k \<noteq> activity_prefix oid @ t" for t by (auto simp: activity_prefix_def has_prefix_def)
  then show "kv_get (session_kv E) (log_activity E ns oid en d) k = kv_get (session_kv E) d k"
    using assms by (auto simp: log_activity_def append_org_activity_def put_json_def split: option.splits sum.splits)
qed

lemma create_notification_org [org_writes]:
  assumes "kv_laws (session_kv E)"
  shows "org_only E d (create_notification E ns oid typ title body d)"
  unfolding org_only_def
proof (intro allI impI)
  fix k assume "\<not> has_prefix k ''org:''"
  then have "k \<noteq> notif_prefix oid @ t" for t by (auto simp: notif_prefix_def has_prefix_def)
  then show "kv_get (session_kv E) (create_notification E ns oid typ title body d) k = kv_get (session_kv E) d k"
    using assms by (auto simp: create_notification_def save_notification_def put_json_frame)
qed

lemma count_metric_org [org_writes]: "kv_laws (session_kv E) \<Longrightarrow> org_only E d (count_metric E ns oid m d)"
  by (simp add: org_only_def count_metric_def metric_frame)

lemma touch_session_org [org_writes]: "kv_laws (session_kv E) \<Longrightarrow> org_only E d (touch_session E ns oid sid n d)"
  by (simp add: org_only_def touch_session_def touch_frame)

lemma upsert_documents_org:
  assumes "kv_laws K" "\<not> has_prefix k ''org:''"
  shows "upsert_search_documents K C now xs d = Inr d' \<Longrightarrow> kv_get K d' k = kv_get K d k"
proof (induction xs arbitrary: d)
  case (Cons x xs)
  have "k \<noteq> search_document_key (stamped_document now x)"
    using assms(2) by (auto simp: search_document_key_def has_prefix_def)
  then show ?case
    using Cons assms(1) by (auto simp: put_json_def split: if_splits sum.splits option.splits)
qed simp

lemma save_documents_org [org_writes]: "kv_laws (session_kv E) \<Longrightarrow> org_only E d (save_documents E ns xs d)"
  by (auto simp: org_only_def save_documents_def or_same_def upsert_documents_org split: sum.split)

lemma org_after:
  assumes "kv_laws (session_kv E)" "org_only E d d'"
  shows "org_only E d (log_activity E ns oid en d')" "org_only E d (count_metric E ns oid m d')"
    "org_only E d (create_notification E ns oid typ title body d')" "org_only E d (touch_session E ns oid sid i d')"
    "org_only E d (save_documents E ns xs d')"
  by (rule org_only_trans [OF assms(2)], rule org_writes [OF assms(1)])+

section \<open>Nodes\<close>

lemma node_simps [simp]:
  "node_db (on_db g n) = g (node_db n)" "node_db (keep_engine sid e n) = node_db n"
  "node_db (invalidate_slice_cache sid n) = node_db n" "node_db (schedule sid now due e n) = node_db n"
  "node_db (n\<lparr>nd_snapshots := x\<rparr>) = node_db n" "node_db (n\<lparr>nd_slices := y\<rparr>) = node_db n"
  by (simp_all add: node_db_def on_db_def keep_engine_def put_engine_def invalidate_slice_cache_def schedule_def)

lemma server_simps [simp]:
  "node_db (n\<lparr>nd_server := s\<rparr>) = sv_db s"
  "sv_versions (nd_server (on_db g n)) = sv_versions (nd_server n)"
  "sv_versions (nd_server (keep_engine sid e n)) = sv_versions (nd_server n)"
  "sv_versions (nd_server (invalidate_slice_cache sid n)) = sv_versions (nd_server n)"
  "sv_versions (nd_server (schedule sid now due e n)) = sv_versions (nd_server n)"
  by (simp_all add: node_db_def on_db_def keep_engine_def put_engine_def invalidate_slice_cache_def schedule_def)

text \<open>A step that keeps the session keys and the versions of the cache.\<close>

definition calm :: "'db session_env \<Rightarrow> 'db node \<Rightarrow> 'db node \<Rightarrow> bool" where
  "calm E n n' \<longleftrightarrow> org_only E (node_db n) (node_db n') \<and> sv_versions (nd_server n') = sv_versions (nd_server n)"

lemma calm_refl [simp]: "calm E n n"
  by (simp add: calm_def)

lemma calm_trans: "calm E n n' \<Longrightarrow> calm E n' n'' \<Longrightarrow> calm E n n''"
  by (auto simp: calm_def intro: org_only_trans)

lemma calm_same [simp]:
  "calm E n (keep_engine sid e n') = calm E n n'" "calm E n (invalidate_slice_cache sid n') = calm E n n'"
  "calm E n (schedule sid now due e n') = calm E n n'"
  by (simp_all add: calm_def)

lemma calm_on_db: "calm E n n' \<Longrightarrow> org_only E (node_db n') (g (node_db n')) \<Longrightarrow> calm E n (on_db g n')"
  by (auto simp: calm_def intro: org_only_trans)

lemma sync_session_org:
  assumes "kv_laws (session_kv E)" "sync_session_search_documents E ns oid sid cfg e d = Some (e', d')"
  shows "org_only E d d'"
  using assms by (auto simp: sync_session_search_documents_def save_documents_org split: if_splits)

lemma sync_fact_org:
  assumes "kv_laws (session_kv E)" "sync_fact_search_document E ns oid sid cfg own f st e d = (e', d')"
  shows "org_only E d d'"
  using assms by (auto simp: sync_fact_search_document_def Let_def save_documents_org split: if_splits)

lemma settle_session_calm:
  assumes "kv_laws (session_kv E)" "settle_session E ns oid sid cfg e n = Some (e', n')"
  shows "calm E n n'"
  using assms(2) sync_session_org [OF assms(1)]
  by (auto simp: settle_session_def Let_def split: prod.splits intro!: calm_on_db)

end
