(* ===== verification/SessionProperties.thy ===== *)
theory SessionProperties
imports SessionFrames GlobalDelivery
begin

text \<open>A request that changes the facts of a session adds one entry to its log, and the next request sees it.\<close>

section \<open>Requests\<close>

datatype session_request_kind =
    AssertFact fact
  | RecordPerception perception_request
  | InvalidateRoot string mutation_request
  | RetractFact string mutation_request
  | ReviewFact string review_request
  | VerifyFact string verify_request

fun reply_code :: "'b reply \<Rightarrow> nat" where
  "reply_code (Failed c msg) = c"
| "reply_code (CoreRejected c err) = c"
| "reply_code Crashed = 500"
| "reply_code (Done c x) = c"

definition coded :: "('b reply \<times> 'db node) option \<Rightarrow> (nat \<times> 'db node) option" where
  "coded r = map_option (\<lambda>(a, n). (reply_code a, n)) r"

fun run_request ::
  "'db session_env \<Rightarrow> int \<Rightarrow> string \<Rightarrow> string \<Rightarrow> string \<Rightarrow> string \<Rightarrow> session_request_kind \<Rightarrow> 'db node \<Rightarrow> (nat \<times> 'db node) option" where
  "run_request E ns sid oid actor role (AssertFact f) n = coded (handle_assert_fact E ns sid oid actor (Inr f) n)"
| "run_request E ns sid oid actor role (RecordPerception b) n = coded (handle_record_perception E ns sid oid actor (Inr b) n)"
| "run_request E ns sid oid actor role (InvalidateRoot k b) n = coded (handle_invalidate_root E ns sid oid actor role k (Inr b) n)"
| "run_request E ns sid oid actor role (RetractFact k b) n = coded (handle_retract_fact E ns sid oid actor role k (Inr b) n)"
| "run_request E ns sid oid actor role (ReviewFact k b) n = coded (handle_review_fact E ns sid oid actor role k (Some b) n)"
| "run_request E ns sid oid actor role (VerifyFact k b) n = coded (handle_verify_fact E ns sid oid actor role k (Some b) n)"

section \<open>Entering and appending\<close>

lemma with_engine_cases:
  assumes "with_engine E ns sid oid n k = Some (r, n')"
  obtains (refused) msg s where "r = Failed 403 msg" "n' = n\<lparr>nd_server := s\<rparr>"
      "get_engine (session_kv E) (en_boot (se_env E)) (millis ns) sid oid (nd_server n) = Some (Inl msg, s)"
  | (entered) e cfg s where "k e cfg (n\<lparr>nd_server := s\<rparr>) = Some (r, n')"
      "get_engine (session_kv E) (en_boot (se_env E)) (millis ns) sid oid (nd_server n) = Some (Inr (e, cfg), s)"
  using assms by (auto simp: with_engine_def split: option.splits sum.splits)

lemma on_db_same [simp]: "on_db (\<lambda>_. node_db n) n = n"
  by (cases n) (simp add: on_db_def node_db_def)

lemma on_db_const: "d = g (node_db n) \<Longrightarrow> on_db (\<lambda>_. d) n = on_db g n"
  by (simp add: on_db_def node_db_def)

lemma undisturbed_attempts:
  assumes "undisturbed E" "append_attempts (se_commit E ns) (se_others E ns) body 0 6 d = (d', err)"
  shows "err = None \<Longrightarrow> d' = body d" "err = Some x \<Longrightarrow> d' = d"
proof -
  have others: "fold (se_others E ns) is c = c" for "is" c
    using assms(1) by (induction "is") (simp_all add: undisturbed_def)
  show "d' = body d" if "err = None"
    using append_attempts_once [OF assms(2) [unfolded that]] unfolding others by blast
  show "d' = d" if "err = Some x"
    using append_attempts_failed [OF assms(2) [unfolded that]] unfolding others by blast
qed

lemma append_entry_cases:
  assumes "undisturbed E" "append_entry E ns en n = (n', err)"
  shows "err \<noteq> None \<Longrightarrow> n' = n"
    "err = None \<Longrightarrow> \<exists>val. encode (session_journal E) (entry_at ns en) = Some val \<and>
       n' = on_db (append_body (session_kv E) (se_sha E) (je_session en) ns val) n"
proof -
  obtain d where d: "badger_append (session_kv E) (session_journal E) (se_sha E) (se_commit E ns) (se_others E ns) ns en
      (node_db n) = (d, err)" and n': "n' = on_db (\<lambda>_. d) n"
    using assms(2) by (auto simp: append_entry_def split: prod.splits)
  show "err \<noteq> None \<Longrightarrow> n' = n"
  proof -
    assume "err \<noteq> None"
    then obtain x where x: "err = Some x" by blast
    then have "d = node_db n"
      using d undisturbed_attempts(2) [OF assms(1)] by (auto simp: badger_append_def split: option.splits)
    then show "n' = n" using n' by simp
  qed
  assume err: "err = None"
  obtain val where val: "encode (session_journal E) (entry_at ns en) = Some val"
    using d err by (auto simp: badger_append_def split: option.splits)
  then have "d = append_body (session_kv E) (se_sha E) (je_session en) ns val (node_db n)"
    using d err undisturbed_attempts(1) [OF assms(1)] by (simp add: badger_append_def)
  then show "\<exists>val. encode (session_journal E) (entry_at ns en) = Some val \<and>
       n' = on_db (append_body (session_kv E) (se_sha E) (je_session en) ns val) n"
    using val unfolding n' by (intro exI conjI on_db_const)
qed

text \<open>The node after a request that added the entry, or none.\<close>

definition logged :: "'db session_env \<Rightarrow> int \<Rightarrow> journal_entry \<Rightarrow> 'db node \<Rightarrow> 'db node \<Rightarrow> bool" where
  "logged E ns en n n' \<longleftrightarrow>
     (\<exists>na nb val. calm E n na \<and> encode (session_journal E) (entry_at ns en) = Some val \<and>
        nb = on_db (append_body (session_kv E) (se_sha E) (je_session en) ns val) na \<and> calm E nb n')"

lemma loggedI:
  assumes "undisturbed E" "append_entry E ns en na = (nb, None)" "calm E n na" "calm E nb n'"
  shows "logged E ns en n n'"
  using append_entry_cases(2) [OF assms(1,2) refl] assms(3,4) unfolding logged_def by blast

lemma logged_append:
  assumes "undisturbed E" "append_entry E ns en na = (nb, err)" "calm E n na"
  shows "err = None \<Longrightarrow> logged E ns en n nb" "err \<noteq> None \<Longrightarrow> calm E n nb"
proof -
  show "logged E ns en n nb" if "err = None"
    by (rule loggedI [OF assms(1) assms(2) [unfolded that] assms(3) calm_refl])
  show "calm E n nb" if "err \<noteq> None"
    using append_entry_cases(1) [OF assms(1,2) that] assms(3) by simp
qed

lemma logged_calm: "logged E ns en n n' \<Longrightarrow> calm E n' n'' \<Longrightarrow> logged E ns en n n''"
  unfolding logged_def by (meson calm_trans)

lemma logged_same [simp]:
  "logged E ns en n (keep_engine sid e n') = logged E ns en n n'"
  "logged E ns en n (invalidate_slice_cache sid n') = logged E ns en n n'"
  "logged E ns en n (schedule sid now due e n') = logged E ns en n n'"
  by (simp_all add: logged_def)

lemma fact_reply_calm: "fact_reply now sid fid e n = Some (r, n') \<Longrightarrow> calm E n n'"
  by (auto simp: fact_reply_def)

section \<open>The entry of a request\<close>

text \<open>JSON has one kind of number.\<close>

fun json_val :: "gval \<Rightarrow> gval" and json_vals :: "gval list \<Rightarrow> gval list"
  and json_entries :: "(string \<times> gval) list \<Rightarrow> (string \<times> gval) list" where
  "json_val (GInt i) = GFloat (of_int i)"
| "json_val (GStrs ss) = GList (map GStr ss)"
| "json_val (GFloats xs) = GList (map GFloat xs)"
| "json_val (GFloatMap m) = GObj (map (\<lambda>(k, x). (k, GFloat x)) m)"
| "json_val (GIntMap m) = GObj (map (\<lambda>(k, i). (k, GFloat (of_int i))) m)"
| "json_val (GList vs) = GList (json_vals vs)"
| "json_val (GObj m) = GObj (json_entries m)"
| "json_val v = v"
| "json_vals [] = []"
| "json_vals (v # vs) = json_val v # json_vals vs"
| "json_entries [] = []"
| "json_entries ((k, v) # m) = (k, json_val v) # json_entries m"

definition json_obj :: "gobj \<Rightarrow> gobj" where
  "json_obj m = map_option json_entries m"

definition json_fact :: "fact \<Rightarrow> fact" where
  "json_fact f = f\<lparr>payload := json_obj (payload f), metadata := json_obj (metadata f)\<rparr>"

definition json_entry :: "journal_entry \<Rightarrow> journal_entry" where
  "json_entry en = en\<lparr>je_fact := map_option json_fact (je_fact en), je_payload := json_obj (je_payload en)\<rparr>"

text \<open>What a request asks of the engine, as its entry tells it.\<close>

definition same_request :: "fact \<Rightarrow> fact \<Rightarrow> bool" where
  "same_request f g \<longleftrightarrow>
     fact_id g = fact_id f \<and> is_root g = is_root f \<and> manual_status g = manual_status f \<and>
     justification_sets g = justification_sets f \<and> payload g = payload f"

fun asks :: "int \<Rightarrow> session_request_kind \<Rightarrow> engine_op \<Rightarrow> bool" where
  "asks now (AssertFact f) x \<longleftrightarrow>
     (\<exists>g. x = OpAssert (Some (json_fact g)) \<and> same_request (move_provenance_from_payload_to_metadata f) g)"
| "asks now (RecordPerception b) x \<longleftrightarrow> (\<exists>g. x = OpAssert (Some (json_fact g)) \<and> same_request (perceived_fact b) g)"
| "asks now (InvalidateRoot k b) x \<longleftrightarrow> x = OpInvalidate k"
| "asks now (RetractFact k b) x \<longleftrightarrow> x = OpRetract k (mr_reason b)"
| "asks now (ReviewFact k b) x \<longleftrightarrow> x = OpReview k (normalize_review_status (rv_status b)) (trim_space (rv_reason b)) now"
| "asks now (VerifyFact k b) x \<longleftrightarrow>
     x = OpVerify k (trim_space (vr_status b)) (trim_space (vr_method b)) (trim_space (vr_source_ref b))
           (trim_space (vr_reason b)) (if vr_verified_at b > 0 then vr_verified_at b else now)"

text \<open>The entry of a request, as the log gives it back, replays as what it asked.\<close>

definition tells :: "int \<Rightarrow> session_request_kind \<Rightarrow> string \<Rightarrow> journal_entry \<Rightarrow> bool" where
  "tells ns q sid en \<longleftrightarrow> je_session en = sid \<and> je_timestamp (entry_at ns en) = millis ns \<and>
     (\<exists>x. asks (millis ns) q x \<and>
        (\<forall>e now. boot_entry now (json_entry (entry_at ns en)) e = ignoring e (run_op now x e)))"

section \<open>The fact of an assertion\<close>

lemma same_request_refl [simp]: "same_request f f"
  by (simp add: same_request_def)

lemma same_request_trans: "same_request f g \<Longrightarrow> same_request g h \<Longrightarrow> same_request f h"
  by (simp add: same_request_def)

lemma same_request_errors [simp]: "same_request f (g\<lparr>validation_errors := errs\<rparr>) = same_request f g"
  by (simp add: same_request_def)

lemma same_request_meta [simp]: "same_request f (set_meta k v g) = same_request f g"
  by (simp add: same_request_def set_meta_def)

lemma same_request_govern [simp]:
  "same_request f (govern_review c g) = same_request f g" "same_request f (govern_mutation c g) = same_request f g"
  "same_request f (govern_verification t c g) = same_request f g" "same_request f (govern_grounding c g) = same_request f g"
  by (simp_all add: govern_review_def govern_mutation_def govern_verification_def govern_grounding_def Let_def
      same_request_def set_meta_def)

lemma same_request_entrenchment [simp]:
  "same_request f (g\<lparr>entrenchment := x\<rparr>) = same_request f g" "same_request f (g\<lparr>metadata := m\<rparr>) = same_request f g"
  by (simp_all add: same_request_def)

lemma governed_request: "same_request f (governed E ns oid d f)"
  by (simp add: governed_def apply_fact_governance_def Let_def)

lemma core_request: "fact_core g = fact_core (stamp_asserted now f) \<Longrightarrow> same_request f g"
proof -
  assume "fact_core g = fact_core (stamp_asserted now f)"
  then have "same_request (fact_core g) (fact_core (stamp_asserted now f))" by simp
  then show "same_request f g" by (auto simp: same_request_def fact_core_def stamp_asserted_def split: if_splits)
qed

lemma map_sum_InrE:
  assumes "map_sum f g z = Inr y"
  obtains x where "z = Inr x" "g x = y"
  using assms by (cases z) auto

lemma taken_fact:
  assumes wf: "wf_engine e" and t: "take_fact now f e = Some (Inr (own, g, e1))"
  shows "fact_core g = fact_core (stamp_asserted now f) \<and> fact_at e1 (fact_id g) \<noteq> None"
proof -
  obtain h r where v: "validate_assert_fact now e f = (h, r)" by fastforce
  have e1: "assert_fact now (Some f) e = Some (Inr e1)" and g: "g = asserted_view now f e e1"
    using t by (auto simp: take_fact_def elim: map_sum_InrE)
  show ?thesis
  proof (cases "r = Inr False")
    case False
    then have "g = h" "r = Inr True" "e1 = e" using e1 g v
      by (auto simp: assert_fact_def asserted_view_def split: sum.splits bool.splits)
    then show ?thesis using v by (auto simp: validate_assert_fact_def Let_def split: if_splits option.splits)
  next
    case True
    note v = v [unfolded True]
    have h: "h = stamp_asserted now f" using v by (auto simp: validate_assert_fact_def Let_def split: if_splits)
    obtain e2 k where k: "fact_at e2 (fact_id h) = Some k" "fact_core k = fact_core h" "wf_engine e2"
      "propagate now e2 [fact_id h] = Some e1"
    proof (cases "is_root h")
      case root: True
      let ?e = "put_fact (fact_id h) (h\<lparr>derived_status := manual_status h\<rparr>) (register_fact h e)"
      define e2 where "e2 = notify now (fact_id h) (manual_status h)
        (if manual_status h < ConfidenceThreshold
         then ?e\<lparr>collapsed_roots := set_insert (fact_id h) (collapsed_roots ?e)\<rparr> else ?e)"
      have s: "facts e2 = facts ?e" "jsets e2 = jsets ?e" "children e2 = children ?e" by (simp_all add: e2_def)
      have "wf_engine e2" using register_root_wf(2) [OF wf v root] unfolding wf_engine_frame [OF s] .
      moreover have "fact_at e2 (fact_id h) = Some (h\<lparr>derived_status := manual_status h\<rparr>)"
        by (simp add: s(1) put_fact_def)
      moreover have "propagate now e2 [fact_id h] = Some e1"
        using e1 v root by (simp add: assert_fact_def initialize_root_fact_def Let_def e2_def)
      ultimately show ?thesis using that [of e2 "h\<lparr>derived_status := manual_status h\<rparr>"] by (simp add: fact_core_def)
    next
      case derived: False
      from register_sets_wf [OF wf v derived, of now] obtain e2 where e2:
        "initialize_sets now (fact_id h) 0 (sets_of h)
          (put_fact (fact_id h) (h\<lparr>derived_status := Invalid, valid_justification_count := 0\<rparr>) (register_fact h e)) = (None, e2)"
        "wf_engine e2" "built now (flagged e) h (length (sets_of h)) e2" .
      moreover have "propagate now e2 [fact_id h] = Some e1"
        using e1 v derived e2(1) by (simp add: assert_fact_def initialize_derived_fact_def Let_def)
      ultimately show ?thesis using that builtD(1) [OF e2(3)] by (auto simp: fact_core_def)
    qed
    then have "same_graph e2 e1" using propagate_returns [of e2 now "[fact_id h]"] by auto
    from same_graph_content [OF this k(1)] obtain k' where k': "fact_at e1 (fact_id h) = Some k'" "fact_core k' = fact_core h"
      using k(2) by metis
    then show ?thesis using g v h fact_core_eq(1) [OF k'(2)] by (simp add: asserted_view_def)
  qed
qed

lemma taken_request: "wf_engine e \<Longrightarrow> take_fact now f e = Some (Inr (own, g, e1)) \<Longrightarrow> same_request f g"
  using taken_fact core_request by blast

section \<open>What becomes of a request\<close>

definition unlogged :: "session_request_kind \<Rightarrow> bool" where
  "unlogged q \<longleftrightarrow> (case q of VerifyFact k b \<Rightarrow> True | _ \<Rightarrow> False)"

definition fate :: "'db session_env \<Rightarrow> int \<Rightarrow> session_request_kind \<Rightarrow> string \<Rightarrow> 'db node \<Rightarrow> 'db node \<Rightarrow> nat \<Rightarrow> bool" where
  "fate E ns q sid n n' code \<longleftrightarrow>
     calm E n n' \<and> (400 \<le> code \<or> unlogged q) \<or> (\<exists>en. logged E ns en n n' \<and> tells ns q sid en)"

lemma fate_calm: "calm E n n' \<Longrightarrow> 400 \<le> code \<Longrightarrow> fate E ns q sid n n' code"
  by (simp add: fate_def)

lemma fate_logged: "logged E ns en n n' \<Longrightarrow> tells ns q sid en \<Longrightarrow> fate E ns q sid n n' code"
  unfolding fate_def by blast

definition outcome ::
  "'db session_env \<Rightarrow> int \<Rightarrow> string \<Rightarrow> string \<Rightarrow> session_request_kind \<Rightarrow> 'db node \<Rightarrow> nat \<Rightarrow> 'db node \<Rightarrow> bool" where
  "outcome E ns sid oid q n code n' \<longleftrightarrow>
     n' = n \<and> 400 \<le> code \<or>
     (\<exists>msg s. get_engine (session_kv E) (en_boot (se_env E)) (millis ns) sid oid (nd_server n) = Some (Inl msg, s) \<and>
        n' = n\<lparr>nd_server := s\<rparr> \<and> code = 403) \<or>
     (\<exists>e cfg s. get_engine (session_kv E) (en_boot (se_env E)) (millis ns) sid oid (nd_server n) = Some (Inr (e, cfg), s) \<and>
        fate E ns q sid (n\<lparr>nd_server := s\<rparr>) n' code)"

definition sound_engine :: "'db session_env \<Rightarrow> int \<Rightarrow> string \<Rightarrow> string \<Rightarrow> 'db node \<Rightarrow> bool" where
  "sound_engine E ns sid oid n \<longleftrightarrow>
     (\<forall>e cfg s. get_engine (session_kv E) (en_boot (se_env E)) (millis ns) sid oid (nd_server n) = Some (Inr (e, cfg), s) \<longrightarrow>
        wf_engine e)"

lemma with_engine_outcome:
  assumes "with_engine E ns sid oid n k = Some (r, n')"
    and "\<And>e cfg s. get_engine (session_kv E) (en_boot (se_env E)) (millis ns) sid oid (nd_server n) = Some (Inr (e, cfg), s) \<Longrightarrow>
      k e cfg (n\<lparr>nd_server := s\<rparr>) = Some (r, n') \<Longrightarrow> fate E ns q sid (n\<lparr>nd_server := s\<rparr>) n' (reply_code r)"
  shows "outcome E ns sid oid q n (reply_code r) n'"
  using assms(1)
proof (cases rule: with_engine_cases)
  case (refused msg s)
  then show ?thesis by (auto simp: outcome_def)
next
  case (entered e cfg s)
  then show ?thesis using assms(2) unfolding outcome_def by blast
qed

section \<open>Asserting\<close>

lemma count_calm [simp]:
  "kv_laws (session_kv E) \<Longrightarrow> calm E n (on_db (count_metric E ns oid m) n)"
  by (rule calm_on_db) (simp_all add: count_metric_org)

lemma log_calm:
  "kv_laws (session_kv E) \<Longrightarrow> calm E n n' \<Longrightarrow> calm E n (on_db (log_activity E ns oid en) n')"
  by (rule calm_on_db) (simp_all add: log_activity_org)

lemma assert_recorded_calm:
  assumes K: "kv_laws (session_kv E)" and r: "assert_recorded E ns sid oid c en own f e1 n = Some (r, n')"
  shows "calm E n n'"
proof -
  obtain e2 st where st: "get_status (millis ns) (fact_id f) e1 = Some (e2, st)"
    using r by (auto simp: assert_recorded_def split: option.splits)
  define w where "w = (\<lambda>d. touch_session E ns oid sid 1
    ((if st < ConfidenceThreshold then count_metric E ns oid ''facts_pruned'' else id)
      (count_metric E ns oid ''facts_asserted''
        (create_notification E ns oid ''assert'' ''Fact asserted'' (''Session '' @ sid @ '': '' @ fact_id f)
          (log_activity E ns oid en d)))))"
  have "org_only E d (w d)" for d
    unfolding w_def by (auto intro!: org_after K)
  then have w: "calm E n (on_db w n)" by (intro calm_on_db) simp_all
  obtain due e3 where due: "check_snapshot_trigger (millis ns) e2 = (due, e3)" by fastforce
  obtain z where z: "get_status (millis ns) (fact_id f) e3 = Some z"
    using r by (auto simp: assert_recorded_def st Let_def due)
  obtain e5 d5 where d: "sync_fact_search_document E ns oid sid (Some c) own f (snd z) (fst z) (w (node_db n)) = (e5, d5)"
    by fastforce
  have "n' = schedule sid (millis ns) due e5 (keep_engine sid e5 (on_db (\<lambda>_. d5) (on_db w n)))"
    using r d z by (simp add: assert_recorded_def st Let_def due w_def case_prod_unfold)
  then show ?thesis
    using sync_fact_org [OF K d] w by (auto intro!: calm_on_db)
qed

lemma tells_assert:
  "same_request (move_provenance_from_payload_to_metadata f) g \<Longrightarrow>
     tells ns (AssertFact f) sid ((blank_entry EventAssert sid)\<lparr>je_actor := actor, je_fact := Some g\<rparr>)"
  "same_request (perceived_fact b) g \<Longrightarrow>
     tells ns (RecordPerception b) sid ((blank_entry EventAssert sid)\<lparr>je_actor := actor, je_fact := Some g\<rparr>)"
  by (auto simp: tells_def entry_at_def blank_entry_def boot_entry_def json_entry_def millis_def)

lemma assert_outcome:
  assumes E: "undisturbed E" and wf: "sound_engine E ns sid oid n"
    and r: "handle_assert_fact E ns sid oid actor (Inr f) n = Some (r, n')"
  shows "outcome E ns sid oid (AssertFact f) n (reply_code r) n'"
proof (rule with_engine_outcome [OF r [unfolded handle_assert_fact_def]])
  note K = undisturbed_laws [OF E]
  fix e cfg s
  let ?n = "n\<lparr>nd_server := s\<rparr>" let ?q = "AssertFact f"
  assume g: "get_engine (session_kv E) (en_boot (se_env E)) (millis ns) sid oid (nd_server n) = Some (Inr (e, cfg), s)"
  define f1 where "f1 = governed E ns oid (node_db ?n) (move_provenance_from_payload_to_metadata f)"
  assume k: "(case Inr f of Inl msg \<Rightarrow> Some (Failed 400 msg, ?n)
    | Inr f0 \<Rightarrow>
        (let f1 = governed E ns oid (node_db ?n) (move_provenance_from_payload_to_metadata f0)
         in case cfg of None \<Rightarrow> Some (Crashed, ?n)
            | Some c \<Rightarrow> (case schema_errors E c f1 of None \<Rightarrow> Some (Crashed, ?n)
                | Some errs \<Rightarrow>
                  (let n2 = (if errs = [] then ?n else on_db (count_metric E ns oid ''schema_violations'') ?n);
                       f2 = (if errs = [] then f1 else f1\<lparr>validation_errors := errs\<rparr>)
                   in if errs \<noteq> [] \<and> cfg_enforcement_mode c = ''strict''
                      then Some (Failed 400 ''schema validation failed'', n2)
                      else (case take_fact (millis ns) f2 e of
                          None \<Rightarrow> None
                        | Some (Inl err) \<Rightarrow> Some (CoreRejected 400 err, n2)
                        | Some (Inr (own, f3, e1)) \<Rightarrow>
                            (let en = (blank_entry EventAssert sid)\<lparr>je_actor := actor, je_fact := Some f3\<rparr>;
                                 (n3, err) = append_entry E ns en (invalidate_slice_cache sid (keep_engine sid e1 n2))
                             in if err \<noteq> None then Some (Failed 500 ''failed to persist journal'', n3)
                                else assert_recorded E ns sid oid c en own f3 e1 n3)))))) = Some (r, n')"
  show "fate E ns ?q sid ?n n' (reply_code r)"
  proof (cases cfg)
    case None
    then show ?thesis using k by (auto intro: fate_calm)
  next
    case cfg: (Some c)
    show ?thesis
    proof (cases "schema_errors E c f1")
      case None
      then show ?thesis using k cfg by (auto simp: f1_def intro: fate_calm)
    next
      case errs: (Some errs)
      define n2 where "n2 = (if errs = [] then ?n else on_db (count_metric E ns oid ''schema_violations'') ?n)"
      define f2 where "f2 = (if errs = [] then f1 else f1\<lparr>validation_errors := errs\<rparr>)"
      have n2: "calm E ?n n2" using K by (simp add: n2_def)
      note k = k [unfolded sum.case Let_def, folded f1_def, unfolded cfg option.case errs, folded n2_def f2_def]
      have f2: "same_request (move_provenance_from_payload_to_metadata f) f2"
        by (simp add: f2_def f1_def governed_request)
      show ?thesis
      proof (cases "(errs \<noteq> [] \<and> cfg_enforcement_mode c = ''strict'') \<or> (\<exists>err. take_fact (millis ns) f2 e = Some (Inl err))")
        case True
        then show ?thesis using k n2 by (auto intro!: fate_calm split: if_splits)
      next
        case False
        then obtain own f3 e1 where t: "take_fact (millis ns) f2 e = Some (Inr (own, f3, e1))"
          using k by (auto split: option.splits sum.splits)
        have f3: "same_request (move_provenance_from_payload_to_metadata f) f3"
          using same_request_trans [OF f2 taken_request [OF _ t]] wf g by (auto simp: sound_engine_def)
        let ?en = "(blank_entry EventAssert sid)\<lparr>je_actor := actor, je_fact := Some f3\<rparr>"
        obtain n3 err where a: "append_entry E ns ?en (invalidate_slice_cache sid (keep_engine sid e1 n2)) = (n3, err)"
          by fastforce
        note l = logged_append [OF E a, of ?n]
        have k': "(if err \<noteq> None then Some (Failed 500 ''failed to persist journal'', n3)
            else assert_recorded E ns sid oid c ?en own f3 e1 n3) = Some (r, n')"
          using k False t a by auto
        show ?thesis
        proof (cases err)
          case None
          then have "logged E ns ?en ?n n3" using l(1) n2 by simp
          moreover have "assert_recorded E ns sid oid c ?en own f3 e1 n3 = Some (r, n')" using k' None by simp
          ultimately show ?thesis
            by (rule fate_logged [OF logged_calm [OF _ assert_recorded_calm [OF K]] tells_assert(1) [OF f3]])
        next
          case (Some x)
          then show ?thesis using k' l n2 by (auto intro: fate_calm)
        qed
      qed
    qed
  qed
qed

lemma perception_outcome:
  assumes E: "undisturbed E" and wf: "sound_engine E ns sid oid n"
    and r: "handle_record_perception E ns sid oid actor (Inr b) n = Some (r, n')"
  shows "outcome E ns sid oid (RecordPerception b) n (reply_code r) n'"
proof (rule with_engine_outcome [OF r [unfolded handle_record_perception_def sum.case]])
  note K = undisturbed_laws [OF E]
  fix e cfg s
  let ?n = "n\<lparr>nd_server := s\<rparr>" let ?q = "RecordPerception b" let ?now = "millis ns"
  assume g: "get_engine (session_kv E) (en_boot (se_env E)) (millis ns) sid oid (nd_server n) = Some (Inr (e, cfg), s)"
  define f1 where "f1 = governed E ns oid (node_db ?n) (perceived_fact b)"
  assume k: "(if trim_space (pr_id b) = [] then Some (Failed 400 ''id is required'', ?n)
     else (let now = millis ns; f1 = governed E ns oid (node_db ?n) (perceived_fact b)
      in case cfg of None \<Rightarrow> Some (Crashed, ?n)
         | Some c \<Rightarrow> (case schema_errors E c f1 of None \<Rightarrow> Some (Crashed, ?n)
              | Some errs \<Rightarrow>
                  if errs \<noteq> [] \<and> cfg_enforcement_mode c = ''strict''
                  then Some (Failed 400 ''schema validation failed'', ?n)
                  else (case take_fact now (if errs = [] then f1 else f1\<lparr>validation_errors := errs\<rparr>) e of
                      None \<Rightarrow> None
                    | Some (Inl err) \<Rightarrow> Some (CoreRejected 400 err, ?n)
                    | Some (Inr (own, f3, e1)) \<Rightarrow>
                        (let en = (blank_entry EventAssert sid)\<lparr>je_actor := actor, je_fact := Some f3\<rparr>;
                             (n3, err) = append_entry E ns en (keep_engine sid e1 ?n)
                         in if err \<noteq> None then Some (Failed 500 ''failed to persist journal'', n3)
                            else (let n4 = invalidate_slice_cache sid (on_db (log_activity E ns oid en) n3);
                                      (due, e2) = check_snapshot_trigger now e1
                                  in map_option (\<lambda>(e3, st).
                                       let (e4, d4) = sync_fact_search_document E ns oid sid cfg own f3 st e3 (node_db n4)
                                       in (Done 201 f3, schedule sid now due e4 (keep_engine sid e4 (on_db (\<lambda>_. d4) n4))))
                                     (get_status now (fact_id f3) e2))))))) = Some (r, n')"
  show "fate E ns ?q sid ?n n' (reply_code r)"
  proof (cases "trim_space (pr_id b) = [] \<or> cfg = None \<or> (\<exists>c. cfg = Some c \<and> schema_errors E c f1 = None)")
    case True
    then show ?thesis using k by (auto simp: f1_def intro!: fate_calm split: if_splits)
  next
    case False
    then obtain c errs where c: "cfg = Some c" "schema_errors E c f1 = Some errs" "trim_space (pr_id b) \<noteq> []" by auto
    define f2 where "f2 = (if errs = [] then f1 else f1\<lparr>validation_errors := errs\<rparr>)"
    have f2: "same_request (perceived_fact b) f2" by (simp add: f2_def f1_def governed_request)
    note k = k [unfolded Let_def, folded f1_def, unfolded c option.case, folded f2_def]
    show ?thesis
    proof (cases "(errs \<noteq> [] \<and> cfg_enforcement_mode c = ''strict'') \<or> (\<exists>err. take_fact ?now f2 e = Some (Inl err))")
      case True
      then show ?thesis using k c(3) by (auto intro!: fate_calm split: if_splits)
    next
      case False
      then obtain own f3 e1 where t: "take_fact ?now f2 e = Some (Inr (own, f3, e1))"
        using k c(3) by (auto split: option.splits sum.splits)
      have f3: "same_request (perceived_fact b) f3"
        using same_request_trans [OF f2 taken_request [OF _ t]] wf g by (auto simp: sound_engine_def)
      let ?en = "(blank_entry EventAssert sid)\<lparr>je_actor := actor, je_fact := Some f3\<rparr>"
      obtain n3 err where a: "append_entry E ns ?en (keep_engine sid e1 ?n) = (n3, err)" by fastforce
      note l = logged_append [OF E a, of ?n]
      show ?thesis
      proof (cases err)
        case (Some x)
        then show ?thesis using k c(3) False t a l by (auto intro!: fate_calm)
      next
        case None
        define n4 where "n4 = invalidate_slice_cache sid (on_db (log_activity E ns oid ?en) n3)"
        obtain due e2 where due: "check_snapshot_trigger ?now e1 = (due, e2)" by fastforce
        obtain z where z: "get_status ?now (fact_id f3) e2 = Some z"
          using k c(3) False t a None due by (auto simp: case_prod_unfold)
        obtain e4 d4 where d: "sync_fact_search_document E ns oid sid (Some c) own f3 (snd z) (fst z) (node_db n4) = (e4, d4)"
          by fastforce
        have "n' = schedule sid ?now due e4 (keep_engine sid e4 (on_db (\<lambda>_. d4) n4))"
          using k c(3) False t a None due z d by (auto simp: case_prod_unfold n4_def)
        then have "calm E n3 n'"
          using sync_fact_org [OF K d] log_calm [OF K] by (auto simp: n4_def intro!: calm_on_db)
        moreover have "logged E ns ?en ?n n3" using l(1) None by simp
        ultimately show ?thesis by (rule fate_logged [OF logged_calm tells_assert(2) [OF f3], rotated])
      qed
    qed
  qed
qed

section \<open>Changing a fact\<close>

lemma tells_change:
  "tells ns (InvalidateRoot k m) sid ((blank_entry EventInvalidate sid)\<lparr>je_fact_id := k, je_actor := actor, je_payload := forced_payload m\<rparr>)"
  "tells ns (RetractFact k m) sid ((blank_entry EventRetract sid)\<lparr>je_fact_id := k, je_actor := actor, je_payload := forced_payload m\<rparr>)"
  by (auto simp: tells_def entry_at_def blank_entry_def boot_entry_def json_entry_def json_obj_def millis_def forced_payload_def
      payload_string_def obj_get_def)

lemma tells_review:
  "tells ns (ReviewFact k b) sid ((blank_entry EventReview sid)\<lparr>je_fact_id := k, je_actor := actor,
     je_payload := Some [(''status'', GStr (normalize_review_status (rv_status b))),
       (''reason'', GStr (trim_space (rv_reason b))), (''reviewed_at'', GInt (millis ns))]\<rparr>)"
  by (auto simp: tells_def entry_at_def blank_entry_def boot_entry_def json_entry_def json_obj_def millis_def payload_string_def
      payload_int64_from_float_def payload_float64_def obj_get_def)

lemma tells_verify:
  assumes "trim_space k \<noteq> []" "millis ns \<noteq> 0"
  shows "tells ns (VerifyFact k b) sid
     (verification_entry (millis ns) sid actor k (if vr_verified_at b = 0 then millis ns else vr_verified_at b) b)"
proof -
  have "k \<noteq> []" using assms(1) by auto
  then show ?thesis using assms
    by (auto simp: tells_def verification_entry_def entry_at_def blank_entry_def boot_entry_def json_entry_def json_obj_def
        payload_string_def payload_int64_from_float_def payload_float64_def obj_get_def entry_fact_id_def Let_def)
qed

lemma touched_calm:
  assumes "kv_laws (session_kv E)"
  shows "calm E n (on_db (\<lambda>d. touch_session E ns oid sid i (create_notification E ns oid typ title body d)) n)"
  by (rule calm_on_db) (auto intro!: org_after assms)

lemma change_fate:
  assumes E: "undisturbed E" and a: "append_entry E ns en n = (n2, err)" and t: "tells ns q sid en"
    and fail: "err \<noteq> None \<Longrightarrow> n' = n2 \<and> 400 \<le> code"
    and go: "err = None \<Longrightarrow> calm E n2 n'"
  shows "fate E ns q sid n n' code"
proof (cases err)
  case None
  from logged_append(1) [OF E a calm_refl None] go [OF None] have "logged E ns en n n'" by (rule logged_calm)
  then show ?thesis using t by (rule fate_logged)
next
  case (Some x)
  then show ?thesis using logged_append(2) [OF E a calm_refl] fail by (auto intro: fate_calm)
qed

lemma invalidate_outcome:
  assumes E: "undisturbed E" and r: "handle_invalidate_root E ns sid oid actor role fid (Inr b) n = Some (r, n')"
  shows "outcome E ns sid oid (InvalidateRoot fid b) n (reply_code r) n'"
proof (rule with_engine_outcome [OF r [unfolded handle_invalidate_root_def sum.case]])
  note K = undisturbed_laws [OF E]
  fix e cfg s
  let ?n = "n\<lparr>nd_server := s\<rparr>"
  let ?en = "(blank_entry EventInvalidate sid)\<lparr>je_fact_id := fid, je_actor := actor, je_payload := forced_payload b\<rparr>"
  obtain n2 err where a: "append_entry E ns ?en ?n = (n2, err)" by fastforce
  define n3 where "n3 = on_db (log_activity E ns oid ?en) n2"
  define n4 where "n4 = on_db (\<lambda>d. touch_session E ns oid sid 0
    (create_notification E ns oid ''invalidate'' ''Fact invalidated'' (''Session '' @ sid @ '': '' @ fid) d))
    (invalidate_slice_cache sid n3)"
  have n3: "calm E n2 n3" unfolding n3_def by (rule log_calm [OF K]) simp
  have n4: "calm E n2 n4"
    using n3 unfolding n4_def by (rule calm_trans [OF _ calm_trans [OF _ touched_calm [OF K]], rotated 2]) simp_all
  assume k: "(case mutation_requires_override (get_fact e fid) role (mr_force b) of
      Some msg \<Rightarrow> Some (Failed 409 msg, ?n)
    | None \<Rightarrow>
        (let en = ?en; (n2, err) = append_entry E ns en ?n
         in if err \<noteq> None then Some (Failed 500 ''failed to persist journal'', n2)
            else (let n3 = on_db (log_activity E ns oid en) n2
                  in case invalidate_root (millis ns) fid e of
                       None \<Rightarrow> None
                     | Some (Inl cerr) \<Rightarrow> Some (CoreRejected 400 cerr, n3)
                     | Some (Inr e1) \<Rightarrow>
                         (let n4 = on_db (\<lambda>d. touch_session E ns oid sid 0
                                (create_notification E ns oid ''invalidate'' ''Fact invalidated''
                                  (''Session '' @ sid @ '': '' @ fid) d)) (invalidate_slice_cache sid n3)
                          in map_option (\<lambda>(e2, n5). (Done 200 ''invalidated'', n5))
                               (settle_session E ns oid sid cfg e1 n4))))) = Some (r, n')"
  show "fate E ns (InvalidateRoot fid b) sid ?n n' (reply_code r)"
  proof (cases "mutation_requires_override (get_fact e fid) role (mr_force b)")
    case (Some msg)
    then show ?thesis using k by (auto intro: fate_calm)
  next
    case None
    note k = k [unfolded None option.case Let_def a prod.case, folded n3_def, folded n4_def]
    show ?thesis
    proof (rule change_fate [OF E a tells_change(1)])
      assume "err \<noteq> None"
      then show "n' = n2 \<and> 400 \<le> reply_code r" using k by auto
    next
      assume "err = None"
      then show "calm E n2 n'"
        using k n3 settle_session_calm [OF K] calm_trans [OF n4] by (auto split: option.splits sum.splits)
    qed
  qed
qed

lemma retract_outcome:
  assumes E: "undisturbed E" and r: "handle_retract_fact E ns sid oid actor role fid (Inr b) n = Some (r, n')"
  shows "outcome E ns sid oid (RetractFact fid b) n (reply_code r) n'"
proof (rule with_engine_outcome [OF r [unfolded handle_retract_fact_def sum.case]])
  note K = undisturbed_laws [OF E]
  fix e cfg s
  let ?n = "n\<lparr>nd_server := s\<rparr>"
  let ?en = "(blank_entry EventRetract sid)\<lparr>je_fact_id := fid, je_actor := actor, je_payload := forced_payload b\<rparr>"
  obtain n2 err where a: "append_entry E ns ?en ?n = (n2, err)" by fastforce
  define n3 where "n3 = on_db (log_activity E ns oid ?en) n2"
  have n3: "calm E n2 n3" unfolding n3_def by (rule log_calm [OF K]) simp
  assume k: "(if get_fact e fid = None then Some (Failed 404 ''fact not found'', ?n)
    else (case mutation_requires_override (get_fact e fid) role (mr_force b) of
      Some msg \<Rightarrow> Some (Failed 409 msg, ?n)
    | None \<Rightarrow>
        (let en = ?en; (n2, err) = append_entry E ns en ?n
         in if err \<noteq> None then Some (Failed 500 ''failed to persist journal'', n2)
            else (let n3 = on_db (log_activity E ns oid en) n2
                  in case retract_fact (millis ns) fid (mr_reason b) e of
                       None \<Rightarrow> None
                     | Some (Inl cerr) \<Rightarrow> Some (CoreRejected 400 cerr, n3)
                     | Some (Inr e1) \<Rightarrow>
                         map_option (\<lambda>(e2, n4). (Done 200 (fid, mr_reason b), n4))
                           (settle_session E ns oid sid cfg e1 (invalidate_slice_cache sid n3)))))) = Some (r, n')"
  show "fate E ns (RetractFact fid b) sid ?n n' (reply_code r)"
  proof (cases "get_fact e fid = None \<or> mutation_requires_override (get_fact e fid) role (mr_force b) \<noteq> None")
    case True
    then show ?thesis using k by (auto intro!: fate_calm split: if_splits)
  next
    case False
    then have f: "get_fact e fid \<noteq> None" "mutation_requires_override (get_fact e fid) role (mr_force b) = None" by auto
    note k = k [unfolded if_not_P [OF f(1)] f(2) option.case Let_def a prod.case, folded n3_def]
    show ?thesis
    proof (rule change_fate [OF E a tells_change(2)])
      assume "err \<noteq> None"
      then show "n' = n2 \<and> 400 \<le> reply_code r" using k by auto
    next
      assume "err = None"
      then show "calm E n2 n'"
        using k n3 settle_session_calm [OF K, of ns oid sid cfg _ "invalidate_slice_cache sid n3"]
          calm_trans [of E n2 "invalidate_slice_cache sid n3"] by (fastforce split: option.splits sum.splits)
    qed
  qed
qed

lemma review_outcome:
  assumes E: "undisturbed E" and r: "handle_review_fact E ns sid oid actor role fid (Some b) n = Some (r, n')"
  shows "outcome E ns sid oid (ReviewFact fid b) n (reply_code r) n'"
proof (cases "role = ''admin''")
  case False
  then show ?thesis using r by (auto simp: handle_review_fact_def outcome_def)
next
  case True
  note r = r [unfolded handle_review_fact_def True, simplified not_True_eq_False simp_thms if_False option.case]
  show ?thesis
  proof (rule with_engine_outcome [OF r])
    note K = undisturbed_laws [OF E]
    fix e cfg s
    let ?n = "n\<lparr>nd_server := s\<rparr>" let ?st = "normalize_review_status (rv_status b)"
    let ?en = "(blank_entry EventReview sid)\<lparr>je_fact_id := fid, je_actor := actor,
       je_payload := Some [(''status'', GStr ?st), (''reason'', GStr (trim_space (rv_reason b))),
         (''reviewed_at'', GInt (millis ns))]\<rparr>"
    assume k: "(if get_fact e fid = None then Some (Failed 404 ''fact not found'', ?n)
      else (let st = ?st
         in if st = [] then Some (Failed 400 ''invalid review status'', ?n)
            else (case set_fact_review (millis ns) fid st (rv_reason b) (millis ns) e of
                Inl cerr \<Rightarrow> Some (CoreRejected 400 cerr, ?n)
              | Inr e1 \<Rightarrow>
                  (let en = (blank_entry EventReview sid)\<lparr>je_fact_id := fid, je_actor := actor,
                         je_payload := Some [(''status'', GStr st), (''reason'', GStr (trim_space (rv_reason b))),
                           (''reviewed_at'', GInt (millis ns))]\<rparr>;
                       (n2, err) = append_entry E ns en (keep_engine sid e1 ?n)
                   in if err \<noteq> None then Some (Failed 500 ''failed to persist review'', n2)
                      else (let n3 = invalidate_slice_cache sid (on_db (log_activity E ns oid en) n2)
                            in case sync_session_search_documents E ns oid sid cfg e1 (node_db n3) of
                                 None \<Rightarrow> None
                               | Some (e2, d) \<Rightarrow> fact_reply (millis ns) sid fid e2 (on_db (\<lambda>_. d) n3)))))) = Some (r, n')"
    show "fate E ns (ReviewFact fid b) sid ?n n' (reply_code r)"
    proof (cases "get_fact e fid = None \<or> ?st = [] \<or> (\<exists>x. set_fact_review (millis ns) fid ?st (rv_reason b) (millis ns) e = Inl x)")
      case True
      then show ?thesis using k by (auto simp: Let_def intro!: fate_calm split: if_splits)
    next
      case False
      then obtain e1 where f: "get_fact e fid \<noteq> None" "?st \<noteq> []"
        "set_fact_review (millis ns) fid ?st (rv_reason b) (millis ns) e = Inr e1"
        by (cases "set_fact_review (millis ns) fid ?st (rv_reason b) (millis ns) e") auto
      obtain n2 err where a: "append_entry E ns ?en (keep_engine sid e1 ?n) = (n2, err)" by fastforce
      define n3 where "n3 = invalidate_slice_cache sid (on_db (log_activity E ns oid ?en) n2)"
      have n3: "calm E n2 n3" unfolding n3_def using log_calm [OF K calm_refl] by simp
      note k = k [unfolded if_not_P [OF f(1)] Let_def if_not_P [OF f(2)] f(3) sum.case a prod.case, folded n3_def]
      note l = logged_append [OF E a, of ?n]
      show ?thesis
      proof (cases err)
        case (Some x)
        then show ?thesis using k l by (auto intro: fate_calm)
      next
        case None
        then obtain e2 d where d: "sync_session_search_documents E ns oid sid cfg e1 (node_db n3) = Some (e2, d)"
          "fact_reply (millis ns) sid fid e2 (on_db (\<lambda>_. d) n3) = Some (r, n')"
          using k by (auto split: option.splits)
        have "calm E n2 (on_db (\<lambda>_. d) n3)" using n3 sync_session_org [OF K d(1)] by (auto intro: calm_on_db)
        then have "calm E n2 n'" using fact_reply_calm [OF d(2)] calm_trans by blast
        moreover have "logged E ns ?en ?n n2" using l(1) None by simp
        ultimately show ?thesis by (rule fate_logged [OF logged_calm tells_review, rotated])
      qed
    qed
  qed
qed

lemma verify_outcome:
  assumes E: "undisturbed E" and r: "handle_verify_fact E ns sid oid actor role fid (Some b) n = Some (r, n')"
    and fid: "trim_space fid \<noteq> []" "millis ns \<noteq> 0"
  shows "outcome E ns sid oid (VerifyFact fid b) n (reply_code r) n'"
proof (cases "role = ''admin''")
  case False
  then show ?thesis using r by (auto simp: handle_verify_fact_def outcome_def)
next
  case True
  note r = r [unfolded handle_verify_fact_def True, simplified not_True_eq_False simp_thms if_False option.case]
  show ?thesis
  proof (rule with_engine_outcome [OF r])
    note K = undisturbed_laws [OF E]
    fix e cfg s
    let ?n = "n\<lparr>nd_server := s\<rparr>" let ?stamp = "if vr_verified_at b = 0 then millis ns else vr_verified_at b"
    let ?en = "verification_entry (millis ns) sid actor fid ?stamp b"
    let ?set = "set_fact_verification (millis ns) fid (vr_status b) (vr_method b) (vr_source_ref b) (vr_reason b) ?stamp e"
    assume k: "(if get_fact e fid = None then Some (Failed 404 ''fact not found'', ?n)
      else (let stamp = ?stamp
         in case set_fact_verification (millis ns) fid (vr_status b) (vr_method b) (vr_source_ref b) (vr_reason b) stamp e of
              None \<Rightarrow> None
            | Some (Inl cerr) \<Rightarrow> Some (CoreRejected 400 cerr, ?n)
            | Some (Inr e1) \<Rightarrow>
                (let en = verification_entry (millis ns) sid actor fid stamp b;
                     (n2, _) = append_entry E ns en ?n;
                     n3 = invalidate_slice_cache sid (on_db (log_activity E ns oid en) n2)
                 in case settle_session E ns oid sid cfg e1 n3 of
                      None \<Rightarrow> None
                    | Some (e2, n4) \<Rightarrow> fact_reply (millis ns) sid fid e2 n4))) = Some (r, n')"
    show "fate E ns (VerifyFact fid b) sid ?n n' (reply_code r)"
    proof (cases "get_fact e fid = None \<or> (\<exists>x. ?set = Some (Inl x))")
      case True
      then show ?thesis using k by (auto simp: Let_def intro!: fate_calm split: if_splits)
    next
      case False
      obtain n2 err where a: "append_entry E ns ?en ?n = (n2, err)" by fastforce
      define n3 where "n3 = invalidate_slice_cache sid (on_db (log_activity E ns oid ?en) n2)"
      have n3: "calm E n2 n3" unfolding n3_def using log_calm [OF K calm_refl] by simp
      from False have g: "get_fact e fid \<noteq> None" by simp
      from False obtain e1 where f: "?set = Some (Inr e1)"
        using k by (cases "?set") (auto simp: Let_def split: sum.splits)
      note k = k [unfolded if_not_P [OF g] Let_def f sum.case option.case a prod.case, folded n3_def]
      obtain e2 n4 where s: "settle_session E ns oid sid cfg e1 n3 = Some (e2, n4)"
        "fact_reply (millis ns) sid fid e2 n4 = Some (r, n')"
        using k by (auto split: option.splits)
      have go: "calm E n2 n'"
        using calm_trans [OF n3 calm_trans [OF settle_session_calm [OF K s(1)] fact_reply_calm [OF s(2)]]] .
      show ?thesis
      proof (cases err)
        case None
        from logged_calm [OF logged_append(1) [OF E a calm_refl None] go] show ?thesis
          by (rule fate_logged) (rule tells_verify [OF fid])
      next
        case (Some x)
        then have "calm E ?n n'" using logged_append(2) [OF E a calm_refl] go calm_trans by auto
        then show ?thesis by (simp add: fate_def unlogged_def)
      qed
    qed
  qed
qed

text \<open>The identifier of a verification is not blank, and the clock is not at its origin.\<close>

fun meaningful :: "int \<Rightarrow> session_request_kind \<Rightarrow> bool" where
  "meaningful ns (VerifyFact k b) \<longleftrightarrow> trim_space k \<noteq> [] \<and> millis ns \<noteq> 0"
| "meaningful ns q \<longleftrightarrow> True"

lemma request_outcome:
  assumes "undisturbed E" "sound_engine E ns sid oid n" "meaningful ns q"
    "run_request E ns sid oid actor role q n = Some (code, n')"
  shows "outcome E ns sid oid q n code n'"
  using assms
  by (cases q) (auto simp: coded_def intro: assert_outcome perception_outcome invalidate_outcome retract_outcome
      review_outcome verify_outcome)

end
