(* ===== verification/SessionSamples.thy ===== *)
theory SessionSamples
imports SessionFrames DecisionProperties Retention
begin

text \<open>A session with an empty engine, and the environment of the witnesses on requests.\<close>

definition null_codecs :: boot_codecs where
  "null_codecs = \<lparr>bx_journal = null_codec (blank_entry [] []),
     bx_snapshot = null_codec \<lparr>sn_timestamp = 0, sn_mutation_count = 0, sn_data = [], sn_checksum = 0\<rparr>,
     bx_gob = (\<lambda>_. None), bx_config = null_codec default_config, bx_meta = null_codec blank_meta\<rparr>"

text \<open>A store that encodes one entry of the log, and nothing else.\<close>

definition one_entry :: "journal_entry \<Rightarrow> journal_entry \<Rightarrow> journal_entry codec" where
  "one_entry en back = \<lparr>encode = (\<lambda>x. if x = en then Some ''e'' else None),
     decode = (\<lambda>v. if v = ''e'' then Some back else None), residue = (\<lambda>_. blank_entry [] [])\<rparr>"

definition request_env :: "journal_entry codec \<Rightarrow> ((string \<times> string) list) session_env" where
  "request_env C = \<lparr>
     se_env = \<lparr>en_kv = assoc_kv, en_boot = null_codecs\<lparr>bx_journal := C\<rparr>, en_decision = null_codec sample_decision,
       en_dependency = null_codec (sample_dependency ''D''), en_check = null_codec (blank_check 5 sample_decision),
       en_search = null_codec (decision_search_document sample_decision),
       en_policy = null_codec \<lparr>pol_id = [], pol_name = [], pol_enabled = False, pol_rules = None, pol_created_at = 0, pol_updated_at = 0\<rparr>,
       en_cap = length, en_misuse = (\<lambda>_ d. d), en_float = (\<lambda>_. None), en_sign = (\<lambda>_. None), en_verify = (\<lambda>_ _. Inl [])\<rparr>,
     se_sha = len_hash, se_commit = (\<lambda>_ _. Committed), se_others = (\<lambda>_ _ d. d),
     se_notification = null_codec blank_notification,
     se_explanation = null_codec \<lparr>xr_session = [], xr_timestamp = 0, xr_content = [], xr_hash = [], xr_tampered = False\<rparr>,
     se_schema = (\<lambda>_ _. Some []), se_random = (\<lambda>_. ''r''), se_json = (\<lambda>_. []), se_f2 = (\<lambda>_. [])\<rparr>"

definition request_node :: "((string \<times> string) list) node" where
  "request_node = \<lparr>
     nd_server = \<lparr>sv_db = [(session_org_key ''s'', ''org1'')], sv_engines = [(''s'', new_engine)],
       sv_configs = [(''s'', default_config)], sv_versions = [], sv_last_access = []\<rparr>,
     nd_slices = [], nd_snapshots = []\<rparr>"

end
