(* ===== verification/SessionSurvival.thy ===== *)
theory SessionSurvival
imports SessionProperties SessionSamples
begin

text \<open>A successful request is in the log, and the next engine of its session is rebuilt with it.\<close>

section \<open>The store under a request\<close>

abbreviation session_boot :: "'db session_env \<Rightarrow> int \<Rightarrow> string \<Rightarrow> 'db \<Rightarrow> engine option" where
  "session_boot E now sid d \<equiv> boot_engine (session_kv E) (en_boot (se_env E)) now sid d"

abbreviation session_log :: "'db session_env \<Rightarrow> string \<Rightarrow> 'db \<Rightarrow> journal_entry list \<times> store_error option" where
  "session_log E sid d \<equiv> get_session_history (session_kv E) (session_journal E) sid d"

text \<open>The clock is past the entries of the log and past the snapshot, and the log can be read.\<close>

definition log_ready :: "'db session_env \<Rightarrow> int \<Rightarrow> string \<Rightarrow> 'db \<Rightarrow> bool" where
  "log_ready E ns sid d \<longleftrightarrow>
     (\<forall>i \<in> set (scan_prefix (session_kv E) d (history_prefix sid)). fst i < history_key sid ns) \<and>
     snd (session_log E sid d) = None \<and>
     snd (boot_snapshot (session_kv E) (en_boot (se_env E)) sid d) < millis ns"

text \<open>What the log gives back is the entry with its numbers as JSON has them.\<close>

definition json_log :: "'db session_env \<Rightarrow> bool" where
  "json_log E \<longleftrightarrow> (\<forall>en v. encode (session_journal E) en = Some v \<longrightarrow> decode (session_journal E) v = Some (json_entry en))"

text \<open>Two stores that agree on the log and the snapshot of a session.\<close>

definition same_log :: "'db session_env \<Rightarrow> string \<Rightarrow> 'db \<Rightarrow> 'db \<Rightarrow> bool" where
  "same_log E sid d d' \<longleftrightarrow>
     kv_get (session_kv E) d' (snapshot_key sid) = kv_get (session_kv E) d (snapshot_key sid) \<and>
     scan_prefix (session_kv E) d' (history_prefix sid) = scan_prefix (session_kv E) d (history_prefix sid)"

lemma same_log_trans: "same_log E sid d d' \<Longrightarrow> same_log E sid d' d'' \<Longrightarrow> same_log E sid d d''"
  by (simp add: same_log_def)

lemma same_logD:
  assumes "same_log E sid d d'"
  shows "session_log E sid d' = session_log E sid d" "session_boot E now sid d' = session_boot E now sid d"
    "log_ready E ns sid d' = log_ready E ns sid d"
proof -
  show h: "session_log E sid d' = session_log E sid d" using assms by (simp add: same_log_def get_session_history_def)
  show "session_boot E now sid d' = session_boot E now sid d"
    using assms by (intro boot_engine_cong) (simp_all add: same_log_def)
  have "boot_snapshot (session_kv E) (en_boot (se_env E)) sid d' = boot_snapshot (session_kv E) (en_boot (se_env E)) sid d"
    using assms by (simp add: same_log_def boot_snapshot_def get_latest_snapshot_def get_json_def)
  then show "log_ready E ns sid d' = log_ready E ns sid d" using assms h by (simp add: same_log_def log_ready_def)
qed

lemma org_key_free:
  "\<not> has_prefix (snapshot_key sid) ''org:''" "\<not> has_prefix (session_version_key sid) ''org:''"
  "\<not> has_prefix (session_org_key sid) ''org:''" "has_prefix k (history_prefix sid) \<Longrightarrow> \<not> has_prefix k ''org:''"
  by (auto simp: snapshot_key_def session_version_key_def session_org_key_def history_prefix_def has_prefix_append)

lemma org_only_same:
  assumes "kv_laws (session_kv E)" "org_only E d d'"
  shows "same_log E sid d d'" "get_session_version (session_kv E) sid d' = get_session_version (session_kv E) sid d"
    "get_session_organization (session_kv E) sid d' = get_session_organization (session_kv E) sid d"
proof -
  have k: "kv_get (session_kv E) d' k = kv_get (session_kv E) d k" if "\<not> has_prefix k ''org:''" for k
    using assms(2) that by (simp add: org_only_def)
  show "same_log E sid d d'"
    unfolding same_log_def using k org_key_free by (intro conjI scan_frame [OF assms(1)]) blast+
  show "get_session_version (session_kv E) sid d' = get_session_version (session_kv E) sid d"
    "get_session_organization (session_kv E) sid d' = get_session_organization (session_kv E) sid d"
    by (simp_all add: get_session_version_def get_session_organization_def k org_key_free)
qed

section \<open>Entering\<close>

lemma load_session_entered:
  assumes K: "kv_laws K" and l: "load_session K X now sid oid s = Some (Inr (e, cfg), s')"
  shows "cached_version sid s' = get_session_version K sid (sv_db s')"
    "get_session_organization K sid (sv_db s') \<in> {None, Some oid}"
proof -
  define d1 where "d1 = (if get_session_organization K sid (sv_db s) = None then link_session K X now sid oid (sv_db s)
    else sv_db s)"
  have s': "sv_db s' = or_same d1 (touch_org_session K (bx_meta X) now oid sid 0 d1)"
    "sv_versions s' = AList.update sid (get_session_version K sid d1) (sv_versions s)"
    using l by (auto simp: load_session_def Let_def d1_def split: if_splits)
  show "cached_version sid s' = get_session_version K sid (sv_db s')"
    by (simp add: cached_version_def s' get_session_version_def touch_frame [OF K] org_key_free update_conv')
  have "get_session_organization K sid d1 = Some oid"
    using l by (auto simp: load_session_def Let_def d1_def get_session_organization_def link_org [OF K] split: if_splits)
  then show "get_session_organization K sid (sv_db s') \<in> {None, Some oid}"
    by (simp add: s' get_session_organization_def touch_frame [OF K] org_key_free)
qed

lemma entered:
  assumes K: "kv_laws (session_kv E)"
    and g: "get_engine (session_kv E) X now sid oid s = Some (r, s')"
  shows "colon_free sid \<Longrightarrow> colon_free i \<Longrightarrow> same_log E i (sv_db s) (sv_db s')"
    "r = Inr (e, cfg) \<Longrightarrow> cached_version sid s' = get_session_version (session_kv E) sid (sv_db s')"
    "r = Inr (e, cfg) \<Longrightarrow> get_session_organization (session_kv E) sid (sv_db s') \<in> {None, Some oid}"
proof -
  let ?s = "s\<lparr>sv_last_access := AList.update sid now (sv_last_access s)\<rparr>"
  have c: "load_session (session_kv E) X now sid oid ?s = Some (r, s') \<or>
      s' = ?s \<and> (r = Inl foreign \<or>
        cached_version sid ?s = get_session_version (session_kv E) sid (sv_db s) \<and>
        get_session_organization (session_kv E) sid (sv_db s) \<in> {None, Some oid})"
    using g by (auto simp: get_engine_def Let_def split: option.splits if_splits)
  show "same_log E i (sv_db s) (sv_db s')" if free: "colon_free sid" "colon_free i"
  proof (cases "s' = ?s")
    case True
    then show ?thesis by (simp add: same_log_def)
  next
    case False
    then have l: "load_session (session_kv E) X now sid oid ?s = Some (r, s')" using c by blast
    have f: "kv_get (session_kv E) (sv_db s') k = kv_get (session_kv E) (sv_db s) k" if "k \<notin> boot_keys sid" for k
      using load_session_frame [OF K l that] by simp
    have "snapshot_key i \<notin> boot_keys sid" "has_prefix k (history_prefix i) \<Longrightarrow> k \<notin> boot_keys sid" for k
      using free
      by (auto simp: boot_keys_def snapshot_key_def session_org_key_def session_version_key_def has_prefix_append
          history_prefix_def colon_split)
    then show ?thesis unfolding same_log_def by (intro conjI scan_frame [OF K] f) blast+
  qed
  show "cached_version sid s' = get_session_version (session_kv E) sid (sv_db s')" if "r = Inr (e, cfg)"
    using c load_session_entered(1) [OF K] that by (auto simp: cached_version_def)
  show "get_session_organization (session_kv E) sid (sv_db s') \<in> {None, Some oid}" if "r = Inr (e, cfg)"
    using c load_session_entered(2) [OF K, of X now sid oid ?s e cfg s'] that by auto
qed

section \<open>The entry\<close>

lemma body_log:
  assumes K: "kv_laws (session_kv E)" and free: "colon_free sid" and ready: "log_ready E ns sid d"
    and dec: "decode (session_journal E) val = Some en'" and t: "je_timestamp en' = millis ns"
    and d'_def: "d' = append_body (session_kv E) sha sid ns val d"
  shows "session_log E sid d' = (fst (session_log E sid d) @ [en'], None)"
    "session_boot E now sid d' = Option.bind (session_boot E now sid d) (boot_entry now en')"
proof -
  have get: "kv_get (session_kv E) d' k = (if k = history_key sid ns then Some val else kv_get (session_kv E) d k)"
    if "has_prefix k (history_prefix sid)" for k
    using that keys_other(2-4) [OF free free] by (auto simp: d'_def append_body_get [OF K free])
  have scan: "scan_prefix (session_kv E) d' (history_prefix sid) =
      scan_prefix (session_kv E) d (history_prefix sid) @ [(history_key sid ns, val)]"
    by (rule scan_set_last [OF K]) (use ready get keys_other(1) [OF free free] in \<open>auto simp: log_ready_def\<close>)
  have dh: "decode_history (session_journal E) (xs @ [(k, val)]) = (fst (decode_history (session_journal E) xs) @ [en'], None)"
    if "snd (decode_history (session_journal E) xs) = None" for xs k
    using that dec by (induction "session_journal E" xs rule: decode_history.induct) (auto split: option.splits)
  show h: "session_log E sid d' = (fst (session_log E sid d) @ [en'], None)"
    using ready dh by (simp add: get_session_history_def scan log_ready_def)
  obtain h0 where h0: "session_log E sid d = (h0, None)"
    using ready by (metis log_ready_def prod.collapse)
  have "kv_get (session_kv E) d' (snapshot_key sid) = kv_get (session_kv E) d (snapshot_key sid)"
    using free by (simp add: d'_def append_body_get [OF K free] snapshot_key_def session_version_key_def head_key_def
        chain_key_def history_key_def colon_split)
  then have sn: "boot_snapshot (session_kv E) (en_boot (se_env E)) sid d' = boot_snapshot (session_kv E) (en_boot (se_env E)) sid d"
    by (simp add: boot_snapshot_def get_latest_snapshot_def get_json_def)
  obtain e0 ts where s: "boot_snapshot (session_kv E) (en_boot (se_env E)) sid d = (e0, ts)" by fastforce
  have ts: "ts < je_timestamp en'" using ready s t by (simp add: log_ready_def)
  define h1 where "h1 = (if ts > 0 then filter (\<lambda>en. ts < je_timestamp en) h0 else h0)"
  have h1: "boot_history (session_kv E) (en_boot (se_env E)) sid ts d = (h1, None)"
    "boot_history (session_kv E) (en_boot (se_env E)) sid ts d' = (h1 @ [en'], None)"
    using h h0 ts by (auto simp: boot_history_def get_session_history_after_def h1_def)
  have "boot_entries now (xs @ [en']) e = Option.bind (boot_entries now xs e) (boot_entry now en')" for xs e
    by (induction xs arbitrary: e) (auto split: option.splits)
  then show "session_boot E now sid d' = Option.bind (session_boot E now sid d) (boot_entry now en')"
    by (simp add: boot_engine_def sn s h1)
qed

lemma body_other:
  assumes K: "kv_laws (session_kv E)" and free: "colon_free sid" "colon_free i" "i \<noteq> sid"
  shows "same_log E i d (append_body (session_kv E) sha sid ns val d)"
  unfolding same_log_def
proof (intro conjI scan_frame [OF K])
  show "kv_get (session_kv E) (append_body (session_kv E) sha sid ns val d) (snapshot_key i) = kv_get (session_kv E) d (snapshot_key i)"
    using free by (simp add: append_body_get [OF K free(1)] snapshot_key_def session_version_key_def head_key_def
        chain_key_def history_key_def colon_split)
next
  fix k assume "has_prefix k (history_prefix i)"
  then show "kv_get (session_kv E) (append_body (session_kv E) sha sid ns val d) k = kv_get (session_kv E) d k"
    using keys_other(1-4) [OF free(1,2)] free(3) by (auto simp: append_body_get [OF K free(1)])
qed

lemma body_version:
  assumes K: "kv_laws K" and "colon_free sid" "sid \<noteq> []"
  shows "get_session_version K sid (append_body K sha sid ns val d) \<noteq> get_session_version K sid d"
proof -
  have "sint ((w :: 64 word) + 1) \<noteq> sint w" for w using signed_word_eqI [of "w + 1" w] by auto
  then show ?thesis using assms by (simp add: get_session_version_def append_body_get)
qed

lemma body_org:
  assumes "kv_laws K" "colon_free sid"
  shows "get_session_organization K sid (append_body K sha sid ns val d) = get_session_organization K sid d"
  using assms by (simp add: get_session_organization_def append_body_get session_org_key_def session_version_key_def
      head_key_def chain_key_def history_key_def colon_split)

section \<open>Requests\<close>

lemma logged_store:
  assumes E: "undisturbed E" "json_log E" and l: "logged E ns en n n'" and t: "tells ns q sid en"
    and ready: "log_ready E ns sid (node_db n)" and free: "colon_free sid"
  obtains en' x where "session_log E sid (node_db n') = (fst (session_log E sid (node_db n)) @ [en'], None)"
    "\<And>now. session_boot E now sid (node_db n') = Option.bind (session_boot E now sid (node_db n)) (boot_entry now en')"
    "asks (millis ns) q x" "\<forall>e now. boot_entry now en' e = ignoring e (run_op now x e)"
    "\<And>i. colon_free i \<Longrightarrow> i \<noteq> sid \<Longrightarrow> same_log E i (node_db n) (node_db n')"
    "sid \<noteq> [] \<Longrightarrow> cached_version sid (nd_server n) = get_session_version (session_kv E) sid (node_db n) \<Longrightarrow>
       cached_version sid (nd_server n') \<noteq> get_session_version (session_kv E) sid (node_db n')"
    "get_session_organization (session_kv E) sid (node_db n') = get_session_organization (session_kv E) sid (node_db n)"
proof -
  note K = undisturbed_laws [OF E(1)]
  obtain na nb val where c: "calm E n na" "encode (session_journal E) (entry_at ns en) = Some val"
    "nb = on_db (append_body (session_kv E) (se_sha E) (je_session en) ns val) na" "calm E nb n'"
    using l unfolding logged_def by blast
  have sid: "je_session en = sid" "je_timestamp (json_entry (entry_at ns en)) = millis ns"
    using t by (simp_all add: tells_def json_entry_def)
  obtain x where x: "asks (millis ns) q x" "\<forall>e now. boot_entry now (json_entry (entry_at ns en)) e = ignoring e (run_op now x e)"
    using t unfolding tells_def by blast
  have nb: "node_db nb = append_body (session_kv E) (se_sha E) sid ns val (node_db na)" using c(3) sid by simp
  note a = org_only_same [OF K, of "node_db n" "node_db na"] and b = org_only_same [OF K, of "node_db nb" "node_db n'"]
  have na: "org_only E (node_db n) (node_db na)" "org_only E (node_db nb) (node_db n')"
    using c(1,4) by (simp_all add: calm_def)
  have dec: "decode (session_journal E) val = Some (json_entry (entry_at ns en))" using E(2) c(2) by (simp add: json_log_def)
  note bl = body_log [where d = "node_db na" and sha = "se_sha E", OF K free _ dec sid(2) refl, folded nb]
  have r: "log_ready E ns sid (node_db na)" using ready same_logD(3) [OF a(1) [OF na(1)]] by simp
  show ?thesis
  proof (rule that [OF _ _ x])
    show "session_log E sid (node_db n') = (fst (session_log E sid (node_db n)) @ [json_entry (entry_at ns en)], None)"
      using bl(1) [OF r] same_logD(1) [OF a(1) [OF na(1)]] same_logD(1) [OF b(1) [OF na(2)]] by simp
    show "session_boot E now sid (node_db n') =
        Option.bind (session_boot E now sid (node_db n)) (boot_entry now (json_entry (entry_at ns en)))" for now
      using bl(2) [OF r] same_logD(2) [OF a(1) [OF na(1)]] same_logD(2) [OF b(1) [OF na(2)]] by simp
    show "same_log E i (node_db n) (node_db n')" if "colon_free i" "i \<noteq> sid" for i
      using same_log_trans [OF same_log_trans [OF a(1) [OF na(1)] body_other [OF K free that]]
          b(1) [OF na(2), unfolded nb]] .
    show "cached_version sid (nd_server n') \<noteq> get_session_version (session_kv E) sid (node_db n')"
      if "sid \<noteq> []" "cached_version sid (nd_server n) = get_session_version (session_kv E) sid (node_db n)"
    proof -
      have "cached_version sid (nd_server n') = cached_version sid (nd_server n)"
        using c(1,3,4) by (simp add: calm_def cached_version_def)
      then show ?thesis
        using that body_version [OF K free that(1), of "se_sha E" ns val "node_db na"] a(2) [OF na(1)] b(2) [OF na(2)]
        by (simp add: nb)
    qed
    show "get_session_organization (session_kv E) sid (node_db n') = get_session_organization (session_kv E) sid (node_db n)"
      using a(3) [OF na(1)] b(3) [OF na(2)] body_org [OF K free] by (simp add: nb)
  qed
qed

lemma outcome_store:
  assumes E: "undisturbed E" "json_log E" and o: "outcome E ns sid oid q n code n'"
    and ready: "log_ready E ns sid (node_db n)" and free: "colon_free sid"
  obtains (unchanged) "\<And>i. colon_free i \<Longrightarrow> same_log E i (node_db n) (node_db n')" "400 \<le> code \<or> unlogged q"
  | (changed) en x where "session_log E sid (node_db n') = (fst (session_log E sid (node_db n)) @ [en], None)"
    "\<And>now. session_boot E now sid (node_db n') = Option.bind (session_boot E now sid (node_db n)) (boot_entry now en)"
    "asks (millis ns) q x" "\<forall>e now. boot_entry now en e = ignoring e (run_op now x e)"
    "\<And>i. colon_free i \<Longrightarrow> i \<noteq> sid \<Longrightarrow> same_log E i (node_db n) (node_db n')"
    "sid \<noteq> [] \<Longrightarrow> cached_version sid (nd_server n') \<noteq> get_session_version (session_kv E) sid (node_db n')"
    "get_session_organization (session_kv E) sid (node_db n') \<in> {None, Some oid}"
proof -
  note K = undisturbed_laws [OF E(1)]
  have db: "node_db m = sv_db (nd_server m)" for m :: "'a node" by (simp add: node_db_def)
  consider "n' = n" "400 \<le> code"
    | r s where "get_engine (session_kv E) (en_boot (se_env E)) (millis ns) sid oid (nd_server n) = Some (r, s)"
        "n' = n\<lparr>nd_server := s\<rparr>" "code = 403"
    | e cfg s where "get_engine (session_kv E) (en_boot (se_env E)) (millis ns) sid oid (nd_server n) = Some (Inr (e, cfg), s)"
        "fate E ns q sid (n\<lparr>nd_server := s\<rparr>) n' code"
    using o unfolding outcome_def by blast
  then show ?thesis
  proof cases
    case 1
    then show ?thesis using unchanged by (simp add: same_log_def)
  next
    case 2
    then show ?thesis using unchanged entered(1) [OF K 2(1) free] by (simp add: db)
  next
    case 3
    note in_ = entered [OF K 3(1)]
    have same: "same_log E i (node_db n) (node_db (n\<lparr>nd_server := s\<rparr>))" if "colon_free i" for i
      using in_(1) [OF free that] by (simp add: db)
    consider "calm E (n\<lparr>nd_server := s\<rparr>) n'" "400 \<le> code \<or> unlogged q"
      | en where "logged E ns en (n\<lparr>nd_server := s\<rparr>) n'" "tells ns q sid en"
      using 3(2) unfolding fate_def by blast
    then show ?thesis
    proof cases
      case 1
      then show ?thesis
        using unchanged same_log_trans [OF same org_only_same(1) [OF K]] by (simp add: calm_def)
    next
      case 2
      have ready1: "log_ready E ns sid (node_db (n\<lparr>nd_server := s\<rparr>))" using ready same_logD(3) [OF same [OF free]] by blast
      show ?thesis
      proof (rule logged_store [OF E 2 ready1 free])
        fix en' x
        assume l: "session_log E sid (node_db n') = (fst (session_log E sid (node_db (n\<lparr>nd_server := s\<rparr>))) @ [en'], None)"
          "\<And>now. session_boot E now sid (node_db n') =
             Option.bind (session_boot E now sid (node_db (n\<lparr>nd_server := s\<rparr>))) (boot_entry now en')"
          "asks (millis ns) q x" "\<forall>e now. boot_entry now en' e = ignoring e (run_op now x e)"
          "\<And>i. colon_free i \<Longrightarrow> i \<noteq> sid \<Longrightarrow> same_log E i (node_db (n\<lparr>nd_server := s\<rparr>)) (node_db n')"
          "sid \<noteq> [] \<Longrightarrow> cached_version sid (nd_server (n\<lparr>nd_server := s\<rparr>)) =
             get_session_version (session_kv E) sid (node_db (n\<lparr>nd_server := s\<rparr>)) \<Longrightarrow>
             cached_version sid (nd_server n') \<noteq> get_session_version (session_kv E) sid (node_db n')"
          "get_session_organization (session_kv E) sid (node_db n') =
             get_session_organization (session_kv E) sid (node_db (n\<lparr>nd_server := s\<rparr>))"
        show thesis
        proof (rule changed)
          show "session_log E sid (node_db n') = (fst (session_log E sid (node_db n)) @ [en'], None)"
            using l(1) same_logD(1) [OF same [OF free]] by simp
          show "session_boot E now sid (node_db n') = Option.bind (session_boot E now sid (node_db n)) (boot_entry now en')" for now
            using l(2) same_logD(2) [OF same [OF free]] by simp
          show "same_log E i (node_db n) (node_db n')" if "colon_free i" "i \<noteq> sid" for i
            by (rule same_log_trans [OF same [OF that(1)] l(5) [OF that]])
          show "cached_version sid (nd_server n') \<noteq> get_session_version (session_kv E) sid (node_db n')" if "sid \<noteq> []"
            using l(6) [OF that] in_(2) [OF refl] by (simp add: db)
          show "get_session_organization (session_kv E) sid (node_db n') \<in> {None, Some oid}"
            using l(7) in_(3) [OF refl] by (simp add: db)
        qed (rule l)+
      qed
    qed
  qed
qed

section \<open>Assertions are accepted\<close>

lemma get_status_returns:
  assumes "wf_engine e"
  obtains e' st where "get_status now k e = Some (e', st)" "\<not> dirty_dominators e'"
proof (cases "dirty_dominators e")
  case True
  then obtain e' where "get_status now k e = Some (e', pruned_status now k e')" using get_status_total [OF assms] by blast
  moreover from this True have "\<not> dirty_dominators e'"
    by (auto simp: get_status_ready dest: ready_clean)
  ultimately show ?thesis using that by blast
next
  case False
  then show ?thesis using that by (simp add: get_status_def)
qed

lemma get_status_clean: "\<not> dirty_dominators e \<Longrightarrow> get_status now k e = Some (e, pruned_status now k e)"
  by (simp add: get_status_def)

lemma trigger_clean [simp]: "dirty_dominators (snd (check_snapshot_trigger now e)) = dirty_dominators e"
  by (simp add: check_snapshot_trigger_def)

lemma assert_recorded_returns:
  assumes "wf_engine e1"
  shows "\<exists>g n'. assert_recorded E ns sid oid c en own f e1 n = Some (Done 201 g, n')"
proof -
  obtain e2 st where st: "get_status (millis ns) (fact_id f) e1 = Some (e2, st)" "\<not> dirty_dominators e2"
    by (rule get_status_returns [OF assms])
  obtain due e3 where due: "check_snapshot_trigger (millis ns) e2 = (due, e3)" by fastforce
  then have "\<not> dirty_dominators e3" using st(2) trigger_clean [of "millis ns" e2] by simp
  then show ?thesis
    using st due by (simp add: assert_recorded_def Let_def get_status_clean case_prod_unfold)
qed

text \<open>An assertion that the schema, the engine and the log accept is answered by 201.\<close>

lemma assert_accepted:
  assumes g: "get_engine (session_kv E) (en_boot (se_env E)) (millis ns) sid oid (nd_server n) = Some (Inr (e, Some c), s)"
    and wf: "wf_engine e"
    and f1: "f1 = governed E ns oid (sv_db s) (move_provenance_from_payload_to_metadata f)" "schema_errors E c f1 = Some []"
    and t: "take_fact (millis ns) f1 e = Some (Inr (own, f3, e1))"
    and a: "append_entry E ns ((blank_entry EventAssert sid)\<lparr>je_actor := actor, je_fact := Some f3\<rparr>)
      (invalidate_slice_cache sid (keep_engine sid e1 (n\<lparr>nd_server := s\<rparr>))) = (n3, None)"
  shows "\<exists>h n'. handle_assert_fact E ns sid oid actor (Inr f) n = Some (Done 201 h, n')"
proof -
  have "assert_fact (millis ns) (Some f1) e = Some (Inr e1)" using t by (auto simp: take_fact_def elim: map_sum_InrE)
  then have "wf_engine e1" using running.act_keeps [OF wf, of "millis ns" "OpAssert (Some f1)"] by (simp add: keeps_def)
  from assert_recorded_returns [OF this] show ?thesis
    using f1 t a by (simp add: handle_assert_fact_def with_engine_def g Let_def)
qed

section \<open>The sample\<close>

definition plain_sample :: fact where
  "plain_sample = (sample_fact ''A'' True 1 [])\<lparr>metadata := Some []\<rparr>"

definition asserted_sample :: fact where
  "asserted_sample = plain_sample\<lparr>asserted_at := 5, derived_status := 1\<rparr>"

definition sample_log_entry :: journal_entry where
  "sample_log_entry = (blank_entry EventAssert ''s'')\<lparr>je_actor := ''u'', je_fact := Some asserted_sample, je_timestamp := 5\<rparr>"

abbreviation asserting_env :: "((string \<times> string) list) session_env" where
  "asserting_env \<equiv> request_env (one_entry sample_log_entry (json_entry sample_log_entry))"

lemma asserting_env_ok: "undisturbed asserting_env" "json_log asserting_env"
  by (simp_all add: undisturbed_def json_log_def request_env_def null_codecs_def one_entry_def assoc_kv_laws)

lemma asserting_get:
  "get_engine (session_kv (request_env C)) (en_boot (se_env (request_env C))) (millis 5000000) ''s'' ''org1'' (nd_server request_node) =
     Some (Inr (new_engine, Some default_config), (nd_server request_node)\<lparr>sv_last_access := [(''s'', 5)]\<rparr>)"
  by (simp add: get_engine_def request_node_def request_env_def millis_def cached_version_def get_session_version_def
      get_session_organization_def assoc_kv_def session_org_key_def session_version_key_def read_counter_def Let_def)

lemma no_policies: "controls_of (se_env (request_env C)) oid d = no_controls"
  by (simp add: request_env_def controls_of_def list_policies_def decoded_def null_codec_def List.map_filter_def
      load_policy_controls_def no_controls_def sort_desc_def)

lemma sample_ungoverned:
  "governed_entrenchment no_controls plain_sample = 0" "govern_review no_controls plain_sample = plain_sample"
  "govern_mutation no_controls plain_sample = plain_sample" "govern_verification 5 no_controls plain_sample = plain_sample"
  "govern_grounding no_controls plain_sample = plain_sample" "plain_sample\<lparr>entrenchment := 0\<rparr> = plain_sample"
  "pc_policy_ids no_controls = []"
  by code_simp+

lemma asserting_governed: "governed (request_env C) 5000000 ''org1'' d (sample_fact ''A'' True 1 []) = plain_sample"
proof -
  have "metadata (sample_fact ''A'' True 1 []) = None" by (simp add: sample_fact_def)
  then have "apply_fact_governance 5 no_controls (Some (sample_fact ''A'' True 1 [])) = Some plain_sample"
    by (simp add: apply_fact_governance_def Let_def sample_ungoverned flip: plain_sample_def)
  then show ?thesis by (simp add: governed_def no_policies millis_def)
qed

lemma asserting_take:
  "\<exists>e. take_fact 5 plain_sample new_engine = Some (Inr (True, asserted_sample, e))"
proof -
  have "case take_fact 5 plain_sample new_engine of
     Some (Inr (own, f, e)) \<Rightarrow> own \<and> f = asserted_sample | _ \<Rightarrow> False" by code_simp
  then show ?thesis by (auto split: option.splits sum.splits)
qed

lemma asserting_append:
  "snd (append_entry asserting_env 5000000 ((blank_entry EventAssert ''s'')\<lparr>je_actor := ''u'', je_fact := Some asserted_sample\<rparr>) n) = None"
proof -
  have "entry_at 5000000 ((blank_entry EventAssert ''s'')\<lparr>je_actor := ''u'', je_fact := Some asserted_sample\<rparr>) = sample_log_entry"
    by (simp add: entry_at_def blank_entry_def sample_log_entry_def)
  then have "encode (session_journal asserting_env) (entry_at 5000000
      ((blank_entry EventAssert ''s'')\<lparr>je_actor := ''u'', je_fact := Some asserted_sample\<rparr>)) = Some ''e''"
    by (simp add: request_env_def null_codecs_def one_entry_def)
  moreover have "se_commit asserting_env = (\<lambda>_ _. Committed)" by (simp add: request_env_def)
  ultimately show ?thesis
    by (simp add: append_entry_def badger_append_def eval_nat_numeral case_prod_unfold)
qed

lemma asserting_run:
  "\<exists>n'. run_request asserting_env 5000000 ''s'' ''org1'' ''u'' ''admin'' (AssertFact (sample_fact ''A'' True 1 [])) request_node =
     Some (201, n')"
proof -
  obtain e where t: "take_fact 5 plain_sample new_engine =
      Some (Inr (True, asserted_sample, e))" using asserting_take by blast
  let ?s = "(nd_server request_node)\<lparr>sv_last_access := [(''s'', 5)]\<rparr>"
  let ?n = "invalidate_slice_cache ''s'' (keep_engine ''s'' e (request_node\<lparr>nd_server := ?s\<rparr>))"
  let ?en = "(blank_entry EventAssert ''s'')\<lparr>je_actor := ''u'', je_fact := Some asserted_sample\<rparr>"
  have a: "append_entry asserting_env 5000000 ?en ?n = (fst (append_entry asserting_env 5000000 ?en ?n), None)"
    by (metis asserting_append prod.collapse)
  have p: "move_provenance_from_payload_to_metadata (sample_fact ''A'' True 1 []) = sample_fact ''A'' True 1 []"
    by (simp add: move_provenance_from_payload_to_metadata_def sample_fact_def)
  have "\<exists>h n'. handle_assert_fact asserting_env 5000000 ''s'' ''org1'' ''u'' (Inr (sample_fact ''A'' True 1 [])) request_node =
      Some (Done 201 h, n')"
    by (rule assert_accepted [OF asserting_get new_engine_structure(1), where own = True and ?f3.0 = asserted_sample and ?e1.0 = e])
      (use t a in \<open>simp_all add: p asserting_governed schema_errors_def default_config_def millis_def\<close>)
  then show ?thesis by (auto simp: coded_def)
qed

lemma asserting_scan: "scan_prefix (session_kv (request_env C)) (node_db request_node) (history_prefix ''s'') = []"
  by (simp add: request_env_def request_node_def node_db_def assoc_kv_def scan_prefix_def seek_up_def history_prefix_def
      session_org_key_def has_prefix_def)

lemma asserting_boot:
  "boot_snapshot (session_kv (request_env C)) (en_boot (se_env (request_env C))) ''s'' (node_db request_node) = (new_engine, 0)"
  "session_log (request_env C) ''s'' (node_db request_node) = ([], None)"
  "session_boot (request_env C) now ''s'' (node_db request_node) = Some new_engine"
proof -
  show sn: "boot_snapshot (session_kv (request_env C)) (en_boot (se_env (request_env C))) ''s'' (node_db request_node) = (new_engine, 0)"
    by (simp add: request_env_def request_node_def node_db_def assoc_kv_def boot_snapshot_def get_latest_snapshot_def get_json_def
        snapshot_key_def session_org_key_def)
  show h: "session_log (request_env C) ''s'' (node_db request_node) = ([], None)"
    by (simp add: get_session_history_def asserting_scan)
  show "session_boot (request_env C) now ''s'' (node_db request_node) = Some new_engine"
    by (simp add: boot_engine_def sn boot_history_def h)
qed

lemma asserting_ready:
  "log_ready (request_env C) 5000000 ''s'' (node_db request_node)" "sound_engine (request_env C) 5000000 ''s'' ''org1'' request_node"
  "colon_free ''s''"
  using asserting_get new_engine_structure(1)
  by (simp_all add: log_ready_def asserting_scan asserting_boot millis_def sound_engine_def colon_free_def)

section \<open>The properties\<close>





end
