(* ===== verification/SessionTypes.thy ===== *)
theory SessionTypes
imports SessionProperties SessionSamples
begin

text \<open>Every request on a session is answered, and leaves well-formed engines in the cache.\<close>

section \<open>Well-formed caches\<close>

definition engines_ok :: "'db node \<Rightarrow> bool" where
  "engines_ok n \<longleftrightarrow> (\<forall>kv \<in> set (sv_engines (nd_server n)). wf_engine (snd kv))"

text \<open>What the snapshot of a session restores is well formed.\<close>

definition snapshot_ok :: "'db session_env \<Rightarrow> string \<Rightarrow> 'db \<Rightarrow> bool" where
  "snapshot_ok E sid d \<longleftrightarrow> wf_engine (fst (boot_snapshot (session_kv E) (en_boot (se_env E)) sid d))"

lemma engines_ok_same [simp]:
  "engines_ok (on_db g n) = engines_ok n" "engines_ok (invalidate_slice_cache sid n) = engines_ok n"
  "engines_ok (schedule sid now due e n) = engines_ok n"
  by (simp_all add: engines_ok_def on_db_def invalidate_slice_cache_def schedule_def)

lemma set_update: "x \<in> set (AList.update k v al) \<Longrightarrow> x = (k, v) \<or> x \<in> set al"
  by (induction al) (auto split: if_splits)

lemma engines_ok_keep [intro]: "engines_ok n \<Longrightarrow> wf_engine e \<Longrightarrow> engines_ok (keep_engine sid e n)"
  by (auto simp: engines_ok_def keep_engine_def put_engine_def dest!: set_update)

lemma engines_ok_append: "append_entry E ns en n = (n', err) \<Longrightarrow> engines_ok n' = engines_ok n"
  by (auto simp: append_entry_def split: prod.splits)

section \<open>Engines\<close>

lemma ignoring_keeps: "wf_engine e \<Longrightarrow> keeps e r \<Longrightarrow> \<exists>e'. ignoring e r = Some e' \<and> wf_engine e'"
  by (auto simp: keeps_def ignoring_def split: sum.splits option.splits)

lemma boot_entry_keeps:
  assumes "wf_engine e"
  shows "\<exists>e'. boot_entry now en e = Some e' \<and> wf_engine e'"
  using ignoring_keeps [OF assms asserting.act_keeps [OF assms]] ignoring_keeps [OF assms invalidating.act_keeps [OF assms]]
    ignoring_keeps [OF assms retracting.act_keeps [OF assms]] ignoring_keeps [OF assms reviewing.act_keeps [OF assms]]
    ignoring_keeps [OF assms verifying.act_keeps [OF assms]] assms
  by (simp add: boot_entry_def Let_def)

lemma boot_entries_keep: "wf_engine e \<Longrightarrow> \<exists>e'. boot_entries now ens e = Some e' \<and> wf_engine e'"
proof (induction ens arbitrary: e)
  case (Cons en ens)
  from boot_entry_keeps [OF Cons.prems, of now en] Cons.IH show ?case by auto
qed simp

lemma boot_engine_keeps:
  assumes "snapshot_ok E sid d"
  shows "\<exists>e. boot_engine (session_kv E) (en_boot (se_env E)) now sid d = Some e \<and> wf_engine e"
  using assms boot_entries_keep by (auto simp: boot_engine_def snapshot_ok_def split: prod.splits)

lemma get_status_keeps:
  assumes "wf_engine e"
  obtains e' st where "get_status now k e = Some (e', st)" "wf_engine e'" "fst ` set (facts e') = fst ` set (facts e)"
proof (cases "dirty_dominators e")
  case True
  then obtain e' where "get_status now k e = Some (e', pruned_status now k e')" "plain_of e' = plain_of e"
    using get_status_total [OF assms] by blast
  then show ?thesis using that assms plain_wf [of e] plain_wf [of e'] plain_keys [of e] plain_keys [of e'] by simp
next
  case False
  then show ?thesis using that assms by (simp add: get_status_def)
qed

lemma trigger_keeps:
  "check_snapshot_trigger now e = (due, e') \<Longrightarrow> wf_engine e' = wf_engine e \<and> facts e' = facts e"
  using wf_engine_frame [of "e\<lparr>mutation_count := 0\<rparr>" e] by (auto simp: check_snapshot_trigger_def split: if_splits)

lemma fact_documents_keep:
  "wf_engine e \<Longrightarrow> \<exists>e' docs. fact_documents E now oid sid fs e = Some (e', docs) \<and> wf_engine e'"
proof (induction fs arbitrary: e)
  case (Cons f fs)
  obtain e1 st where "get_status now (fact_id f) e = Some (e1, st)" "wf_engine e1"
    by (rule get_status_keeps [OF Cons.prems])
  then show ?case using Cons.IH [of e1] by auto
qed simp

lemma sync_session_keeps:
  "wf_engine e \<Longrightarrow> \<exists>e' d'. sync_session_search_documents E ns oid sid cfg e d = Some (e', d') \<and> wf_engine e'"
  using fact_documents_keep [of e E "millis ns" oid sid "list_facts e"] by (auto simp: sync_session_search_documents_def)

lemma settle_session_keeps:
  assumes "wf_engine e" "engines_ok n"
  shows "\<exists>e' n'. settle_session E ns oid sid cfg e n = Some (e', n') \<and> wf_engine e' \<and> engines_ok n'"
proof -
  obtain due e1 where t: "check_snapshot_trigger (millis ns) e = (due, e1)" by fastforce
  then have "wf_engine e1" using trigger_keeps assms(1) by blast
  from sync_session_keeps [OF this, of E ns oid sid cfg "node_db n"]
  obtain e2 d where "sync_session_search_documents E ns oid sid cfg e1 (node_db n) = Some (e2, d)" "wf_engine e2" by auto
  then show ?thesis using assms(2) by (simp add: settle_session_def t engines_ok_keep)
qed

lemma sync_fact_keeps:
  assumes "sync_fact_search_document E ns oid sid cfg own f st e d = (e', d')" "wf_engine e" "fact_at e (fact_id f) \<noteq> None"
  shows "wf_engine e'"
proof (cases "own \<and> oid \<noteq> [] \<and> sid \<noteq> []")
  case True
  obtain g where g: "fact_at e (fact_id f) = Some g" using assms(3) by blast
  have "same_shape g (g\<lparr>resolved_status := st\<rparr>)" by (simp add: same_shape_def sets_of_def)
  from put_fact_structure(1) [OF assms(2) g this] show ?thesis
    using assms(1) True g by (auto simp: sync_fact_search_document_def Let_def held_def)
next
  case False
  then show ?thesis using assms(1,2) by (auto simp: sync_fact_search_document_def Let_def split: if_splits)
qed

section \<open>Answers\<close>

definition safe :: "('b \<times> 'db node) option \<Rightarrow> bool" where
  "safe r \<longleftrightarrow> (\<exists>a n. r = Some (a, n) \<and> engines_ok n)"

lemma safe_Some [simp]: "safe (Some (a, n)) = engines_ok n"
  by (simp add: safe_def)

lemma safeI: "engines_ok n \<Longrightarrow> r = Some (a, n) \<Longrightarrow> safe r"
  by simp

lemma boot_snapshot_frame:
  "kv_get K d (snapshot_key sid) = kv_get K d' (snapshot_key sid) \<Longrightarrow> boot_snapshot K X sid d = boot_snapshot K X sid d'"
  by (simp add: boot_snapshot_def get_latest_snapshot_def get_json_def)

lemma load_session_keeps:
  assumes K: "kv_laws (session_kv E)" and ok: "engines_ok (n\<lparr>nd_server := s\<rparr>)" and sn: "snapshot_ok E sid (sv_db s)"
  shows "\<exists>r s'. load_session (session_kv E) (en_boot (se_env E)) now sid oid s = Some (r, s') \<and>
    engines_ok (n\<lparr>nd_server := s'\<rparr>) \<and> (\<forall>e cfg. r = Inr (e, cfg) \<longrightarrow> wf_engine e)"
proof -
  let ?K = "session_kv E" let ?X = "en_boot (se_env E)"
  define d1 where "d1 = (if get_session_organization ?K sid (sv_db s) = None then link_session ?K ?X now sid oid (sv_db s) else sv_db s)"
  define d2 where "d2 = or_same d1 (touch_org_session ?K (bx_meta ?X) now oid sid 0 d1)"
  have "\<not> has_prefix (snapshot_key sid) ''org:''" by (simp add: snapshot_key_def has_prefix_def)
  then have "kv_get ?K d2 (snapshot_key sid) = kv_get ?K (sv_db s) (snapshot_key sid)"
    using link_frame [OF K boot_keys_other(1)] by (simp add: d2_def d1_def touch_frame [OF K])
  then have "snapshot_ok E sid d2" using sn boot_snapshot_frame [of ?K d2 sid "sv_db s"] by (simp add: snapshot_ok_def)
  from boot_engine_keeps [OF this, of now] obtain e where e: "boot_engine ?K ?X now sid d2 = Some e" "wf_engine e" by auto
  show ?thesis
  proof (cases "get_session_organization ?K sid (sv_db s) \<noteq> None \<and> get_session_organization ?K sid (sv_db s) \<noteq> Some oid")
    case True
    then show ?thesis using ok by (simp add: load_session_def Let_def)
  next
    case False
    then show ?thesis
      using e ok by (auto simp: load_session_def Let_def d1_def [symmetric] d2_def [symmetric] engines_ok_def dest!: set_update)
  qed
qed

lemma with_engine_safe:
  assumes K: "kv_laws (session_kv E)" and ok: "engines_ok n" and sn: "snapshot_ok E sid (node_db n)"
    and k: "\<And>e cfg n1. wf_engine e \<Longrightarrow> engines_ok n1 \<Longrightarrow> safe (k e cfg n1)"
  shows "safe (with_engine E ns sid oid n k)"
proof -
  let ?K = "session_kv E" let ?X = "en_boot (se_env E)"
  let ?s = "(nd_server n)\<lparr>sv_last_access := AList.update sid (millis ns) (sv_last_access (nd_server n))\<rparr>"
  have s: "engines_ok (n\<lparr>nd_server := ?s\<rparr>)" "snapshot_ok E sid (sv_db ?s)" "sv_engines ?s = sv_engines (nd_server n)"
    using ok sn by (simp_all add: engines_ok_def node_db_def)
  have wf: "wf_engine e" if "map_of (sv_engines (nd_server n)) sid = Some e" for e
    using ok map_of_SomeD [OF that] by (auto simp: engines_ok_def)
  obtain r s' where "get_engine ?K ?X (millis ns) sid oid (nd_server n) = Some (r, s')" "engines_ok (n\<lparr>nd_server := s'\<rparr>)"
    "\<And>e cfg. r = Inr (e, cfg) \<Longrightarrow> wf_engine e"
  proof (cases "get_engine ?K ?X (millis ns) sid oid (nd_server n) = load_session ?K ?X (millis ns) sid oid ?s")
    case True
    then show ?thesis using that load_session_keeps [OF K s(1,2), of "millis ns" oid] by auto
  next
    case False
    then obtain e where e: "map_of (sv_engines (nd_server n)) sid = Some e"
      by (cases "map_of (sv_engines (nd_server n)) sid") (simp_all add: get_engine_def Let_def)
    consider "get_engine ?K ?X (millis ns) sid oid (nd_server n) = Some (Inl foreign, ?s)"
      | "get_engine ?K ?X (millis ns) sid oid (nd_server n) = Some (Inr (e, map_of (sv_configs ?s) sid), ?s)"
      using False e by (simp add: get_engine_def Let_def split: if_splits)
    then show ?thesis using that [OF _ s(1)] wf [OF e] by cases auto
  qed
  then show ?thesis using k by (auto simp: with_engine_def split: sum.splits)
qed

lemma fact_reply_safe: "wf_engine e \<Longrightarrow> engines_ok n \<Longrightarrow> safe (fact_reply now sid fid e n)"
  by (rule get_status_keeps [of e now fid]) (auto simp: fact_reply_def)

lemma take_fact_keeps:
  assumes "wf_engine e"
  obtains err where "take_fact now f e = Some (Inl err)"
  | own g e1 where "take_fact now f e = Some (Inr (own, g, e1))" "wf_engine e1" "fact_at e1 (fact_id g) \<noteq> None"
proof -
  obtain x where x: "assert_fact now (Some f) e = Some x" "\<And>e'. x = Inr e' \<Longrightarrow> wf_engine e'"
    using asserting.act_keeps [OF assms, of now "Some f"] by (auto simp: keeps_def)
  show ?thesis
  proof (cases x)
    case (Inl err)
    then show ?thesis using that(1) x(1) by (simp add: take_fact_def)
  next
    case (Inr e1)
    then have "take_fact now f e = Some (Inr (snd (validate_assert_fact now e f) = Inr False, asserted_view now f e e1, e1))"
      using x(1) by (simp add: take_fact_def)
    then show ?thesis using that(2) x(2) [OF Inr] taken_fact [OF assms] by blast
  qed
qed

section \<open>Handlers\<close>

lemma map_option_safe:
  assumes "r = Some x" "safe (Some (h x))"
  shows "safe (map_option h r)"
  using assms by simp

lemma assert_recorded_safe:
  assumes wf: "wf_engine e" and f: "fact_at e (fact_id f) \<noteq> None" and ok: "engines_ok n"
  shows "safe (assert_recorded E ns sid oid c en own f e n)"
proof -
  have known: "fact_at e' k \<noteq> None" if "fst ` set (facts e') = fst ` set (facts e'')" "fact_at e'' k \<noteq> None" for e' e'' k
    using that by (metis map_of_eq_None_iff list.set_map)
  obtain e2 st where e2: "get_status (millis ns) (fact_id f) e = Some (e2, st)" "wf_engine e2"
    "fst ` set (facts e2) = fst ` set (facts e)" by (rule get_status_keeps [OF wf])
  obtain due e3 where t: "check_snapshot_trigger (millis ns) e2 = (due, e3)" by fastforce
  then have e3: "wf_engine e3" "facts e3 = facts e2" using trigger_keeps e2(2) by blast+
  obtain e4 st4 where e4: "get_status (millis ns) (fact_id f) e3 = Some (e4, st4)" "wf_engine e4"
    "fst ` set (facts e4) = fst ` set (facts e3)" by (rule get_status_keeps [OF e3(1)])
  have "fact_at e4 (fact_id f) \<noteq> None" using known [of e4 e] f e2(3) e3(2) e4(3) by simp
  from sync_fact_keeps [OF prod.collapse [symmetric] e4(2) this]
  have "wf_engine (fst (sync_fact_search_document E ns oid sid (Some c) own f st4 e4 d))" for d .
  then show ?thesis
    using ok by (simp add: assert_recorded_def Let_def e2(1) t e4(1) case_prod_unfold engines_ok_keep)
qed

lemma assert_fact_safe:
  assumes "kv_laws (session_kv E)" "engines_ok n" "snapshot_ok E sid (node_db n)"
  shows "safe (handle_assert_fact E ns sid oid actor body n)"
  unfolding handle_assert_fact_def
proof (rule with_engine_safe [OF assms], goal_cases)
  case (1 e cfg n1)
  show ?case
  proof (cases body)
    case (Inl msg)
    then show ?thesis using 1 by simp
  next
    case (Inr f0)
    define f1 where "f1 = governed E ns oid (node_db n1) (move_provenance_from_payload_to_metadata f0)"
    show ?thesis
    proof (cases "cfg = None \<or> (\<exists>c. cfg = Some c \<and> schema_errors E c f1 = None)")
      case True
      then show ?thesis using 1 Inr by (auto simp: Let_def f1_def)
    next
      case False
      then obtain c errs where c: "cfg = Some c" "schema_errors E c f1 = Some errs" by auto
      define n2 where "n2 = (if errs = [] then n1 else on_db (count_metric E ns oid ''schema_violations'') n1)"
      define f2 where "f2 = (if errs = [] then f1 else f1\<lparr>validation_errors := errs\<rparr>)"
      have n2: "engines_ok n2" using 1(2) by (simp add: n2_def)
      show ?thesis
      proof (cases rule: take_fact_keeps [OF 1(1), of "millis ns" f2])
        case (1 err)
        then show ?thesis
          using n2 Inr c by (simp add: f1_def [symmetric] n2_def [symmetric] f2_def [symmetric] Let_def)
      next
        case (2 own g e1)
        let ?en = "(blank_entry EventAssert sid)\<lparr>je_actor := actor, je_fact := Some g\<rparr>"
        obtain n3 err where a: "append_entry E ns ?en (invalidate_slice_cache sid (keep_engine sid e1 n2)) = (n3, err)"
          by fastforce
        have n3: "engines_ok n3" using engines_ok_append [OF a] n2 2(2) by auto
        from assert_recorded_safe [OF 2(2,3) n3, of E ns sid oid c ?en own] show ?thesis
          using n2 n3 Inr c 2(1) a by (simp add: f1_def [symmetric] n2_def [symmetric] f2_def [symmetric] Let_def)
      qed
    qed
  qed
qed

lemma perception_safe:
  assumes "kv_laws (session_kv E)" "engines_ok n" "snapshot_ok E sid (node_db n)"
  shows "safe (handle_record_perception E ns sid oid actor body n)"
  unfolding handle_record_perception_def
proof (rule with_engine_safe [OF assms], goal_cases)
  case (1 e cfg n1)
  show ?case
  proof (cases body)
    case (Inl msg)
    then show ?thesis using 1 by simp
  next
    case (Inr b)
    define f1 where "f1 = governed E ns oid (node_db n1) (perceived_fact b)"
    show ?thesis
    proof (cases "trim_space (pr_id b) = [] \<or> cfg = None \<or> (\<exists>c. cfg = Some c \<and> schema_errors E c f1 = None)")
      case True
      then show ?thesis using 1 Inr by (auto simp: Let_def f1_def)
    next
      case False
      then obtain c errs where c: "cfg = Some c" "schema_errors E c f1 = Some errs" by auto
      define f2 where "f2 = (if errs = [] then f1 else f1\<lparr>validation_errors := errs\<rparr>)"
      from False have b: "trim_space (pr_id b) \<noteq> []" by simp
      show ?thesis
      proof (cases rule: take_fact_keeps [OF 1(1), of "millis ns" f2])
        case (1 err)
        then show ?thesis
          using \<open>engines_ok n1\<close> Inr b c by (simp add: f1_def [symmetric] f2_def [symmetric] Let_def)
      next
        case (2 own g e1)
        let ?en = "(blank_entry EventAssert sid)\<lparr>je_actor := actor, je_fact := Some g\<rparr>"
        obtain n3 err where a: "append_entry E ns ?en (keep_engine sid e1 n1) = (n3, err)" by fastforce
        have n3: "engines_ok n3" using engines_ok_append [OF a] \<open>engines_ok n1\<close> 2(2) by auto
        obtain due e2 where t: "check_snapshot_trigger (millis ns) e1 = (due, e2)" by fastforce
        then have e2: "wf_engine e2" "facts e2 = facts e1" using trigger_keeps 2(2) by blast+
        obtain e3 st where e3: "get_status (millis ns) (fact_id g) e2 = Some (e3, st)" "wf_engine e3"
          "fst ` set (facts e3) = fst ` set (facts e2)" by (rule get_status_keeps [OF e2(1)])
        have "fact_at e3 (fact_id g) \<noteq> None" using 2(3) e2(2) e3(3) by (metis map_of_eq_None_iff list.set_map)
        from sync_fact_keeps [OF prod.collapse [symmetric] e3(2) this]
        have "wf_engine (fst (sync_fact_search_document E ns oid sid (Some c) own g st e3 d))" for d .
        then show ?thesis
          using \<open>engines_ok n1\<close> Inr b c 2(1) a n3 t e3(1)
          by (simp add: f1_def [symmetric] f2_def [symmetric] Let_def case_prod_unfold engines_ok_keep)
      qed
    qed
  qed
qed

lemma settle_reply_safe:
  assumes "wf_engine e" "engines_ok n"
  shows "safe (map_option (\<lambda>(e2, n2). (a, n2)) (settle_session E ns oid sid cfg e n))"
  using settle_session_keeps [OF assms, of E ns oid sid cfg] by (auto simp: safe_def)

lemma invalidate_safe:
  assumes "kv_laws (session_kv E)" "engines_ok n" "snapshot_ok E sid (node_db n)"
  shows "safe (handle_invalidate_root E ns sid oid actor role fid body n)"
  unfolding handle_invalidate_root_def
proof (rule with_engine_safe [OF assms], goal_cases)
  case (1 e cfg n1)
  have r: "keeps e (invalidate_root (millis ns) fid e)" by (rule invalidating.act_keeps [OF 1(1)])
  show ?case
  proof (cases "\<exists>b. body = Inr b \<and> mutation_requires_override (get_fact e fid) role (mr_force b) = None")
    case False
    then show ?thesis using 1 by (auto split: sum.split option.split)
  next
    case True
    then obtain b where b: "body = Inr b" "mutation_requires_override (get_fact e fid) role (mr_force b) = None" by blast
    obtain n2 err where a: "append_entry E ns
        ((blank_entry EventInvalidate sid)\<lparr>je_fact_id := fid, je_actor := actor, je_payload := forced_payload b\<rparr>) n1 = (n2, err)"
      by fastforce
    have n2: "engines_ok n2" using engines_ok_append [OF a] 1(2) by simp
    then show ?thesis
      using r b a by (auto simp: keeps_def Let_def split: sum.split intro!: settle_reply_safe)
  qed
qed

lemma retract_safe:
  assumes "kv_laws (session_kv E)" "engines_ok n" "snapshot_ok E sid (node_db n)"
  shows "safe (handle_retract_fact E ns sid oid actor role fid body n)"
  unfolding handle_retract_fact_def
proof (rule with_engine_safe [OF assms], goal_cases)
  case (1 e cfg n1)
  show ?case
  proof (cases "get_fact e fid \<noteq> None \<and> (\<exists>b. body = Inr b \<and> mutation_requires_override (get_fact e fid) role (mr_force b) = None)")
    case False
    then show ?thesis using 1 by (auto split: sum.split option.split)
  next
    case True
    then obtain b where b: "get_fact e fid \<noteq> None" "body = Inr b"
      "mutation_requires_override (get_fact e fid) role (mr_force b) = None" by blast
    have r: "keeps e (retract_fact (millis ns) fid (mr_reason b) e)" by (rule retracting.act_keeps [OF 1(1)])
    obtain n2 err where a: "append_entry E ns
        ((blank_entry EventRetract sid)\<lparr>je_fact_id := fid, je_actor := actor, je_payload := forced_payload b\<rparr>) n1 = (n2, err)"
      by fastforce
    have n2: "engines_ok n2" using engines_ok_append [OF a] 1(2) by simp
    then show ?thesis
      using r b a by (auto simp: keeps_def Let_def split: sum.split intro!: settle_reply_safe)
  qed
qed

lemma review_safe:
  assumes "kv_laws (session_kv E)" "engines_ok n" "snapshot_ok E sid (node_db n)"
  shows "safe (handle_review_fact E ns sid oid actor role fid body n)"
proof (cases "role = ''admin''")
  case False
  then show ?thesis using assms(2) by (simp add: handle_review_fact_def)
next
  case True
  show ?thesis
    unfolding handle_review_fact_def True simp_thms if_False
  proof (rule with_engine_safe [OF assms], goal_cases)
    case (1 e cfg n1)
    show ?case
    proof (cases "get_fact e fid \<noteq> None \<and> (\<exists>b e1. body = Some b \<and> normalize_review_status (rv_status b) \<noteq> [] \<and>
        set_fact_review (millis ns) fid (normalize_review_status (rv_status b)) (rv_reason b) (millis ns) e = Inr e1)")
      case False
      then show ?thesis using 1 by (auto simp: Let_def split: sum.split option.split)
    next
      case True
      then obtain b e1 where b: "get_fact e fid \<noteq> None" "body = Some b" "normalize_review_status (rv_status b) \<noteq> []"
        "set_fact_review (millis ns) fid (normalize_review_status (rv_status b)) (rv_reason b) (millis ns) e = Inr e1" by blast
      have "wf_engine e1"
        using reviewing.act_keeps [OF 1(1), of "millis ns" fid "normalize_review_status (rv_status b)" "rv_reason b" "millis ns"]
        by (simp add: b(4) keeps_def)
      note e1 = this
      obtain n2 err where a: "append_entry E ns ((blank_entry EventReview sid)\<lparr>je_fact_id := fid, je_actor := actor,
           je_payload := Some [(''status'', GStr (normalize_review_status (rv_status b))),
             (''reason'', GStr (trim_space (rv_reason b))), (''reviewed_at'', GInt (millis ns))]\<rparr>) (keep_engine sid e1 n1) =
           (n2, err)" by fastforce
      have n2: "engines_ok n2" using engines_ok_append [OF a] 1(2) e1 by auto
      define n3 where "n3 = invalidate_slice_cache sid (on_db (log_activity E ns oid
        ((blank_entry EventReview sid)\<lparr>je_fact_id := fid, je_actor := actor,
           je_payload := Some [(''status'', GStr (normalize_review_status (rv_status b))),
             (''reason'', GStr (trim_space (rv_reason b))), (''reviewed_at'', GInt (millis ns))]\<rparr>)) n2)"
      from sync_session_keeps [OF e1, of E ns oid sid cfg "node_db n3"]
      obtain e2 d where s: "sync_session_search_documents E ns oid sid cfg e1 (node_db n3) = Some (e2, d)" "wf_engine e2" by auto
      show ?thesis
        using n2 1(2) b(1,3) s fact_reply_safe [OF s(2), of "on_db (\<lambda>_. d) n3" "millis ns" sid fid]
        by (simp add: b(2,4) a Let_def n3_def)
    qed
  qed
qed

lemma verify_safe:
  assumes "kv_laws (session_kv E)" "engines_ok n" "snapshot_ok E sid (node_db n)"
  shows "safe (handle_verify_fact E ns sid oid actor role fid body n)"
proof (cases "role = ''admin''")
  case False
  then show ?thesis using assms(2) by (simp add: handle_verify_fact_def)
next
  case True
  show ?thesis
    unfolding handle_verify_fact_def True simp_thms if_False
  proof (rule with_engine_safe [OF assms], goal_cases)
    case (1 e cfg n1)
    show ?case
    proof (cases "get_fact e fid = None \<or> body = None")
      case True
      then show ?thesis using 1 by auto
    next
      case False
      then obtain b where b: "get_fact e fid \<noteq> None" "body = Some b" by blast
      define stamp where "stamp = (if vr_verified_at b = 0 then millis ns else vr_verified_at b)"
      obtain x where x: "set_fact_verification (millis ns) fid (vr_status b) (vr_method b) (vr_source_ref b) (vr_reason b) stamp e = Some x"
        "\<And>e1. x = Inr e1 \<Longrightarrow> wf_engine e1"
        using verifying.act_keeps [OF 1(1), of "millis ns" fid "vr_status b" "vr_method b" "vr_source_ref b" "vr_reason b" stamp]
        by (auto simp: keeps_def)
      show ?thesis
      proof (cases x)
        case (Inl err)
        then show ?thesis using 1 b x(1) by (simp add: Let_def flip: stamp_def)
      next
        case (Inr e1)
        let ?en = "verification_entry (millis ns) sid actor fid stamp b"
        obtain n2 err where a: "append_entry E ns ?en n1 = (n2, err)" by fastforce
        define n3 where "n3 = invalidate_slice_cache sid (on_db (log_activity E ns oid ?en) n2)"
        have n3: "engines_ok n3" using engines_ok_append [OF a] 1(2) by (simp add: n3_def)
        from settle_session_keeps [OF x(2) [OF Inr] n3, of E ns oid sid cfg]
        obtain e2 n4 where s: "settle_session E ns oid sid cfg e1 n3 = Some (e2, n4)" "wf_engine e2" "engines_ok n4" by auto
        show ?thesis
          using 1(2) b(1) s(1) x(1) fact_reply_safe [OF s(2,3)] Inr by (simp add: b(2) a Let_def n3_def flip: stamp_def)
      qed
    qed
  qed
qed

lemma coded_safe: "safe r \<Longrightarrow> safe (coded r)"
  by (auto simp: safe_def coded_def)

text \<open>
  C31: Every request that changes the facts of a session returns, and leaves only well-formed
  engines in the cache, when those it found there and the one a snapshot restores are well formed:
  keys are identifiers, every set has its parents and its child, and the graph is acyclic.
\<close>

theorem requests_return:
  assumes "kv_laws (session_kv E)" "engines_ok n" "snapshot_ok E sid (node_db n)"
  shows "\<exists>code n'. run_request E ns sid oid actor role q n = Some (code, n') \<and> engines_ok n'"
proof -
  have "safe (run_request E ns sid oid actor role q n)"
    by (cases q) (simp_all add: coded_safe assert_fact_safe [OF assms] perception_safe [OF assms] invalidate_safe [OF assms]
      retract_safe [OF assms] review_safe [OF assms] verify_safe [OF assms])
  then show ?thesis by (simp add: safe_def)
qed

theorem requests_return_witness:
  "\<exists>code n'. run_request (request_env (null_codec (blank_entry [] []))) 5000000 ''s'' ''org1'' ''u'' ''user''
      (InvalidateRoot ''A'' \<lparr>mr_reason = [], mr_force = False\<rparr>) request_node = Some (code, n') \<and> engines_ok n'"
proof (rule requests_return)
  show "kv_laws (session_kv (request_env (null_codec (blank_entry [] []))))"
    by (simp add: request_env_def assoc_kv_laws)
qed (simp_all add: request_env_def request_node_def null_codecs_def engines_ok_def new_engine_structure(1)
      snapshot_ok_def boot_snapshot_def get_latest_snapshot_def get_json_def null_codec_def assoc_kv_def node_db_def
      session_org_key_def snapshot_key_def)

end
