(* ===== verification/Slices.thy ===== *)
theory Slices
imports SessionReads
begin

text \<open>
  api/slice_selection.go: the slice of a session's beliefs that a request asks for, within a number
  of facts and a budget of characters, and its cache in api/server.go.
\<close>

section \<open>Options\<close>

record slice_options =
  so_format :: string
  so_max_facts :: nat
  so_max_chars :: int
  so_strategy :: string
  so_query :: string
  so_dependencies :: bool
  so_invalid :: bool

text \<open>q stands for the parameters of the URL.\<close>

definition parse_slice_selection_options :: "(string \<Rightarrow> string) \<Rightarrow> slice_options" where
  "parse_slice_selection_options q =
     (let query = trim_space (q ''query''); strategy = to_lower (trim_space (q ''strategy''));
          num = (\<lambda>k. case parse_int (trim_space (q k)) of Some m \<Rightarrow> if m > 0 then Some m else None | None \<Rightarrow> None)
      in \<lparr>so_format = trim_space (q ''format''),
          so_max_facts = (case num ''max_facts'' of None \<Rightarrow> 50 | Some m \<Rightarrow> nat (min m 500)),
          so_max_chars = (case num ''max_chars'' of None \<Rightarrow> 0 | Some m \<Rightarrow> m),
          so_strategy = (if strategy = [] then (if query \<noteq> [] then ''hybrid'' else ''ranked'') else strategy),
          so_query = query,
          so_dependencies = (q ''include_dependencies'' = ''true'' \<or> (query \<noteq> [] \<and> q ''include_dependencies'' = [])),
          so_invalid = (q ''include_invalid'' = ''true'')\<rparr>)"

definition show_bool :: "bool \<Rightarrow> string" where
  "show_bool b = (if b then ''true'' else ''false'')"

definition slice_cache_key :: "slice_options \<Rightarrow> string \<Rightarrow> string" where
  "slice_cache_key x sid =
     str_join ''|'' [sid, so_format x, show_nat (so_max_facts x), show_int (so_max_chars x), so_strategy x,
       to_lower (so_query x), show_bool (so_dependencies x), show_bool (so_invalid x)]"

section \<open>Scores\<close>

text \<open>
  The two settings of the environment, the text of a number (the verb of fmt) and the length of the
  JSON of a map.
\<close>

record slice_env =
  sl_decay_hours :: real
  sl_weight :: real
  sl_number :: "real \<Rightarrow> string"
  sl_json_size :: "gobj \<Rightarrow> nat"

definition lexical_fact_score :: "slice_env \<Rightarrow> string \<Rightarrow> fact \<Rightarrow> real" where
  "lexical_fact_score L query f =
     (let tokens = tokenize_text query; show_map = (\<lambda>m. format_value (sl_number L) (GObj (case m of None \<Rightarrow> [] | Some kv \<Rightarrow> kv)));
          text = to_lower (fact_id f @ '' '' @ show_map (payload f) @ '' '' @ show_map (metadata f))
      in if tokens = [] then 0
         else of_nat (length (filter (\<lambda>t. t \<noteq> [] \<and> str_contains text t) tokens)) / of_nat (length tokens))"

definition estimate_slice_fact_size :: "slice_env \<Rightarrow> fact \<Rightarrow> nat" where
  "estimate_slice_fact_size L f = length (fact_id f) + sl_json_size L (payload f) + sl_json_size L (metadata f) + 96"

definition decay_hours :: "slice_env \<Rightarrow> real" where
  "decay_hours L = (if sl_decay_hours L \<le> 0 then 24 else sl_decay_hours L)"

definition freshness_weight :: "slice_env \<Rightarrow> real" where
  "freshness_weight L = (if sl_weight L < 0 then 0 else if sl_weight L > 1 then 1 else sl_weight L)"

definition freshness :: "slice_env \<Rightarrow> int \<Rightarrow> fact \<Rightarrow> real" where
  "freshness L now f =
     (if asserted_at f > 0 \<and> now > asserted_at f
      then (let age = of_int (now - asserted_at f) / 3600000
            in max 0 (min 1 (exp (- ln 10 * age / (7 * decay_hours L)))))
      else 1)"

text \<open>An error of DependencyIDs adds nothing; None is a walk that does not return.\<close>

definition slice_score ::
  "slice_env \<Rightarrow> int \<Rightarrow> slice_options \<Rightarrow> (string \<times> real) list \<Rightarrow> engine \<Rightarrow> fact \<Rightarrow> status \<Rightarrow> real option" where
  "slice_score L now x semantic e f st =
     map_option (\<lambda>r. let ids = (case r of Inl _ \<Rightarrow> 0 | Inr ids \<Rightarrow> of_nat (length ids) * (5 / 100));
            asked = (if so_query x = [] then 0
              else (case map_of semantic (fact_id f) of None \<Rightarrow> 0 | Some s \<Rightarrow> s) * 5 + lexical_fact_score L (so_query x) f * 2)
        in st * 3 + effective_entrenchment (Some f) + (if requires_human_review (Some f) then 2 / 10 else 0) + ids + asked +
           freshness_weight L * freshness L now f * 3)
       (dependency_ids e (fact_id f) False)"

fun rank_facts ::
  "slice_env \<Rightarrow> int \<Rightarrow> slice_options \<Rightarrow> (string \<times> real) list \<Rightarrow> fact list \<Rightarrow> engine \<Rightarrow> ((fact \<times> real) list \<times> engine) option" where
  "rank_facts L now x semantic [] e = Some ([], e)"
| "rank_facts L now x semantic (f # fs) e =
     (case get_status now (fact_id f) e of
        None \<Rightarrow> None
      | Some (e1, st) \<Rightarrow>
          if \<not> so_invalid x \<and> st < ConfidenceThreshold then rank_facts L now x semantic fs e1
          else (case slice_score L now x semantic e1 f st of
                  None \<Rightarrow> None
                | Some score \<Rightarrow> map_option (\<lambda>(rs, e2). ((f\<lparr>resolved_status := st\<rparr>, score) # rs, e2))
                    (rank_facts L now x semantic fs e1)))"

definition rank_key :: "fact \<times> real \<Rightarrow> real \<times> string" where
  "rank_key r = (- snd r, fact_id (fst r))"

section \<open>Selection\<close>

text \<open>The facts selected so far, with the characters that remain.\<close>

definition add_fact :: "slice_env \<Rightarrow> slice_options \<Rightarrow> fact \<Rightarrow> fact list \<times> int \<Rightarrow> bool \<times> (fact list \<times> int)" where
  "add_fact L x f s =
     (let (sel, left) = s; size = int (estimate_slice_fact_size L f)
      in if fact_id f \<in> fact_id ` set sel then (True, s)
         else if length sel \<ge> so_max_facts x then (False, s)
         else if left > 0 \<and> sel \<noteq> [] \<and> size > left then (False, s)
         else (True, (sel @ [f], if left > 0 then left - size else left)))"

fun add_dependencies ::
  "slice_env \<Rightarrow> int \<Rightarrow> slice_options \<Rightarrow> string list \<Rightarrow> engine \<Rightarrow> fact list \<times> int \<Rightarrow> ((fact list \<times> int) \<times> engine) option" where
  "add_dependencies L now x [] e s = Some (s, e)"
| "add_dependencies L now x (k # ks) e s =
     (case get_fact e k of
        None \<Rightarrow> add_dependencies L now x ks e s
      | Some f \<Rightarrow>
          (case get_status now k e of
             None \<Rightarrow> None
           | Some (e1, st) \<Rightarrow>
               if \<not> so_invalid x \<and> st < ConfidenceThreshold then add_dependencies L now x ks e1 s
               else (case add_fact L x (f\<lparr>resolved_status := st\<rparr>) s of
                       (False, s1) \<Rightarrow> Some (s1, e1)
                     | (True, s1) \<Rightarrow> add_dependencies L now x ks e1 s1)))"

fun fill_slice ::
  "slice_env \<Rightarrow> int \<Rightarrow> slice_options \<Rightarrow> fact list \<Rightarrow> engine \<Rightarrow> fact list \<times> int \<Rightarrow> ((fact list \<times> int) \<times> engine) option" where
  "fill_slice L now x [] e s = Some (s, e)"
| "fill_slice L now x (f # fs) e s =
     (case add_fact L x f s of
        (False, s1) \<Rightarrow> Some (s1, e)
      | (True, s1) \<Rightarrow>
          if \<not> so_dependencies x then fill_slice L now x fs e s1
          else (case dependency_ids e (fact_id f) False of
             None \<Rightarrow> None
           | Some (Inl _) \<Rightarrow> fill_slice L now x fs e s1
           | Some (Inr ids) \<Rightarrow>
               (case add_dependencies L now x (sort ids) e s1 of
                  None \<Rightarrow> None
                | Some (s2, e1) \<Rightarrow>
                    if length (fst s2) \<ge> so_max_facts x then Some (s2, e1) else fill_slice L now x fs e1 s2)))"

definition semantic_scores :: "slice_env \<Rightarrow> int \<Rightarrow> slice_options \<Rightarrow> engine \<Rightarrow> (string \<times> real) list" where
  "semantic_scores L now x e =
     (if so_query x \<noteq> [] \<and> so_strategy x \<in> {''semantic'', ''hybrid'', ''query_aware''}
      then map (\<lambda>m. (sm_fact_id m, sm_score m))
             (search_similar_facts (sl_number L) now e (so_query x) (int (max 20 (so_max_facts x * 4))) (\<not> so_invalid x))
      else [])"

definition select_belief_slice :: "slice_env \<Rightarrow> int \<Rightarrow> slice_options \<Rightarrow> engine \<Rightarrow> (fact list \<times> engine) option" where
  "select_belief_slice L now x e =
     (case rank_facts L now x (semantic_scores L now x e) (list_facts e) e of
        None \<Rightarrow> None
      | Some (ranked, e1) \<Rightarrow>
          map_option (\<lambda>(s, e2). (fst s, e2))
            (fill_slice L now x (map fst (sort_key rank_key ranked)) e1 ([], so_max_chars x)))"

section \<open>The request\<close>

text \<open>A slice of less than thirty seconds ago is used again. The Markdown form of the answer is left out.\<close>

definition cached_slice :: "int \<Rightarrow> string \<Rightarrow> 'db node \<Rightarrow> fact list option" where
  "cached_slice ns key n =
     (case map_of (nd_slices n) key of
        Some (fs, t) \<Rightarrow> if ns - t < 30 * 1000000000 then Some fs else None | None \<Rightarrow> None)"

definition handle_get_slice ::
  "'db session_env \<Rightarrow> slice_env \<Rightarrow> (string \<Rightarrow> string) \<Rightarrow> int \<Rightarrow> string \<Rightarrow> string \<Rightarrow> 'db node \<Rightarrow>
     (fact list reply \<times> 'db node) option" where
  "handle_get_slice E L q ns sid oid n =
     with_engine E ns sid oid n (\<lambda>e cfg n1.
       let x = parse_slice_selection_options q; key = slice_cache_key x sid
       in case cached_slice ns key n1 of
            Some fs \<Rightarrow> Some (Done 200 fs, n1)
          | None \<Rightarrow> map_option (\<lambda>(fs, e'). (Done 200 fs,
                     (keep_engine sid e' n1)\<lparr>nd_slices := AList.update key (fs, ns) (nd_slices n1)\<rparr>))
                   (select_belief_slice L (millis ns) x e))"

end
