(* ===== verification/ConsistencyHandlers.thy ===== *)
theory ConsistencyHandlers
imports SessionReads
begin

text \<open>
  The handlers of api/reasoning_contracts.go that check the consistency of a session and record and
  verify reasoning chains, with the flags of api/consistency_flags.go, on a server without a model
  that verifies contradictions. clock gives the successive readings of the clock, in nanoseconds;
  sf is the text of a number.
\<close>

section \<open>Envelopes\<close>

record recorded_chain = reasoning_chain +
  rc_created_at :: int

datatype reasoning_envelope =
    ChainEnvelope recorded_chain
  | AuditEnvelope audit_report "string list"
  | ConsistencyEnvelope consistency_report

text \<open>True is that the envelope was stored.\<close>

definition save_reasoning_envelope ::
  "'db session_env \<Rightarrow> reasoning_envelope codec \<Rightarrow> int \<Rightarrow> string \<Rightarrow> reasoning_envelope \<Rightarrow> 'db node \<Rightarrow> bool \<times> 'db node" where
  "save_reasoning_envelope E V ns sid x n =
     (case encode V x of
        None \<Rightarrow> (False, n)
      | Some content \<Rightarrow>
          (case save_explanation (en_kv (se_env E)) (se_explanation E) (se_sha E) ns sid content (node_db n) of
             Inl _ \<Rightarrow> (False, n) | Inr (_, d) \<Rightarrow> (True, on_db (\<lambda>_. d) n)))"

definition stored_envelopes :: "'db session_env \<Rightarrow> string \<Rightarrow> 'db node \<Rightarrow> explanation_record list" where
  "stored_envelopes E sid n =
     get_session_explanations (en_kv (se_env E)) (se_explanation E) (se_sha E) sid (node_db n)"

definition chain_of_record :: "reasoning_envelope codec \<Rightarrow> explanation_record \<Rightarrow> recorded_chain option" where
  "chain_of_record V r = (case decode V (xr_content r) of Some (ChainEnvelope c) \<Rightarrow> Some c | _ \<Rightarrow> None)"

definition find_reasoning_chain_record ::
  "reasoning_envelope codec \<Rightarrow> explanation_record list \<Rightarrow> string \<Rightarrow> recorded_chain option" where
  "find_reasoning_chain_record V rs cid = find (\<lambda>c. rc_id c = cid) (List.map_filter (chain_of_record V) rs)"

section \<open>Flags\<close>

text \<open>The identifiers that get a flag, each once, in the order of their first issues.\<close>

definition flagged_ids :: "consistency_issue list \<Rightarrow> string list" where
  "flagged_ids issues =
     rev (remdups (rev (filter (\<lambda>i. i \<noteq> []) (map trim_space (concat (map ci_fact_ids issues))))))"

definition flag_fact ::
  "'db session_env \<Rightarrow> int \<Rightarrow> (nat \<Rightarrow> int) \<Rightarrow> string \<Rightarrow> string \<Rightarrow> string \<Rightarrow> nat \<times> string \<Rightarrow> engine \<times> 'db node \<Rightarrow> engine \<times> 'db node" where
  "flag_fact E now clock sid oid reason ik s =
     (let (e, n) = s;
          e' = (case set_fact_review now (snd ik) ReviewPending reason now e of Inl _ \<Rightarrow> e | Inr e1 \<Rightarrow> e1);
          en = (blank_entry EventReview sid)\<lparr>je_actor := ''system'', je_fact_id := snd ik, je_timestamp := now,
            je_payload := Some [(''status'', GStr ReviewPending), (''reason'', GStr reason), (''reviewed_at'', GInt now)]\<rparr>
      in (e', on_db (log_activity E (clock (fst ik)) oid en) (fst (append_entry E (clock (fst ik)) en n))))"

text \<open>auto is the switch VELARIX_AUTO_FLAG_REVIEW_ON_CONTRADICTION; the readings of the clock from i on are used.\<close>

definition flag_facts_for_review_on_issues ::
  "'db session_env \<Rightarrow> bool \<Rightarrow> (nat \<Rightarrow> int) \<Rightarrow> nat \<Rightarrow> string \<Rightarrow> string \<Rightarrow> consistency_issue list \<Rightarrow> string \<Rightarrow> engine \<times> 'db node \<Rightarrow>
     engine \<times> 'db node" where
  "flag_facts_for_review_on_issues E auto clock i sid oid issues reason s =
     (if \<not> auto then s
      else fold (flag_fact E (millis (clock i)) clock sid oid reason) (enumerate i (flagged_ids issues)) s)"

section \<open>The consistency check\<close>

record consistency_request =
  cq_fact_ids :: "string list"
  cq_max_facts :: int
  cq_include_invalid :: bool

definition requested_ids :: "engine \<Rightarrow> consistency_request \<Rightarrow> string list" where
  "requested_ids e b =
     (let ids = unique_strings (cq_fact_ids b);
          ids1 = (if ids = [] then map fact_id (sort_key fact_id (list_facts e)) else ids)
      in if cq_max_facts b > 0 then take (nat (cq_max_facts b)) ids1 else ids1)"

text \<open>The less entrenched fact of a pair is retracted, the first one when they are equal.\<close>

definition weaker_fact :: "engine \<Rightarrow> consistency_issue \<Rightarrow> fact option" where
  "weaker_fact e x =
     (case ci_fact_ids x of
        [i, j] \<Rightarrow>
          (case (get_fact e i, get_fact e j) of
             (Some a, Some b) \<Rightarrow>
               if effective_entrenchment (Some a) \<le> effective_entrenchment (Some b) then Some a else Some b
           | _ \<Rightarrow> None)
      | _ \<Rightarrow> None)"

definition auto_retract_entry :: "string \<Rightarrow> string \<Rightarrow> string \<Rightarrow> string \<Rightarrow> journal_entry" where
  "auto_retract_entry sid actor fid reason =
     (blank_entry EventRetract sid)\<lparr>je_actor := actor, je_fact_id := fid, je_payload := Some [(''reason'', GStr reason)]\<rparr>"

definition auto_retract_issue ::
  "'db session_env \<Rightarrow> int \<Rightarrow> string \<Rightarrow> string \<Rightarrow> string \<Rightarrow> consistency_issue \<Rightarrow> engine \<times> 'db node \<Rightarrow> (engine \<times> 'db node) option" where
  "auto_retract_issue E ns sid oid actor x s =
     (let (e, n) = s
      in case weaker_fact e x of
           None \<Rightarrow> Some s
         | Some f \<Rightarrow>
             (let reason = ''auto_retract_contradiction''; en = auto_retract_entry sid actor (fact_id f) reason;
                  n1 = on_db (log_activity E ns oid en) (fst (append_entry E ns en n))
              in map_option (\<lambda>e'. (e', n1)) (ignoring e (retract_fact (millis ns) (fact_id f) reason e))))"

fun auto_retract_issues ::
  "'db session_env \<Rightarrow> (nat \<Rightarrow> int) \<Rightarrow> nat \<Rightarrow> string \<Rightarrow> string \<Rightarrow> string \<Rightarrow> consistency_issue list \<Rightarrow> engine \<times> 'db node \<Rightarrow>
     (engine \<times> 'db node) option" where
  "auto_retract_issues E clock i sid oid actor [] s = Some s"
| "auto_retract_issues E clock i sid oid actor (x # xs) s =
     (case auto_retract_issue E (clock i) sid oid actor x s of
        None \<Rightarrow> None | Some s' \<Rightarrow> auto_retract_issues E clock (Suc i) sid oid actor xs s')"

definition auto_retract_configured :: "'db session_env \<Rightarrow> string \<Rightarrow> 'db \<Rightarrow> bool" where
  "auto_retract_configured E sid d =
     (case get_config (en_kv (se_env E)) (bx_config (en_boot (se_env E))) sid d of Inl _ \<Rightarrow> False | Inr c \<Rightarrow> cfg_auto_retract c)"

definition handle_consistency_check ::
  "'db session_env \<Rightarrow> reasoning_envelope codec \<Rightarrow> (real \<Rightarrow> string) \<Rightarrow> bool \<Rightarrow> (nat \<Rightarrow> int) \<Rightarrow> string \<Rightarrow> string \<Rightarrow> string \<Rightarrow>
     string + consistency_request \<Rightarrow> 'db node \<Rightarrow> (consistency_report reply \<times> 'db node) option" where
  "handle_consistency_check E V sf auto clock sid oid actor body n =
     with_engine E (clock 0) sid oid n (\<lambda>e cfg n1.
       case body of
         Inl msg \<Rightarrow> Some (Failed 400 msg, n1)
       | Inr b \<Rightarrow>
           (let report = check_consistency sf (millis (clock 0)) e (requested_ids e b) (cq_include_invalid b);
                issues = cr_issues report;
                s1 = flag_facts_for_review_on_issues E auto clock 1 sid oid issues ''contradiction_detected'' (e, n1);
                i = Suc (length (flagged_ids issues));
                retracting = (auto_retract_configured E sid (node_db (snd s1)) \<and> cr_count report > 0)
            in case (if retracting then auto_retract_issues E clock i sid oid actor issues s1 else Some s1) of
                 None \<Rightarrow> None
               | Some (e2, n2) \<Rightarrow>
                   (let n3 = keep_engine sid e2 (if retracting then invalidate_slice_cache sid n2 else n2);
                        (_, n4) = save_reasoning_envelope E V (clock (i + length issues)) sid (ConsistencyEnvelope report) n3
                    in Some (Done 200 report, n4))))"

section \<open>Reasoning chains\<close>

definition named_step :: "string \<Rightarrow> nat \<times> reasoning_step \<Rightarrow> reasoning_step" where
  "named_step cid ix =
     (if trim_space (rs_id (snd ix)) = [] then (snd ix)\<lparr>rs_id := cid @ ''_step_'' @ show_nat (fst ix)\<rparr> else snd ix)"

definition named_chain :: "int \<Rightarrow> recorded_chain \<Rightarrow> recorded_chain" where
  "named_chain ns c0 =
     (let c1 = (if trim_space (rc_id c0) = [] then c0\<lparr>rc_id := ''rc_'' @ show_int ns\<rparr> else c0);
          c2 = (if rc_created_at c1 = 0 then c1\<lparr>rc_created_at := millis ns\<rparr> else c1)
      in c2\<lparr>rc_steps := map (named_step (rc_id c2)) (enumerate 1 (rc_steps c2))\<rparr>)"

definition handle_record_reasoning_chain ::
  "'db session_env \<Rightarrow> reasoning_envelope codec \<Rightarrow> int \<Rightarrow> string \<Rightarrow> string \<Rightarrow> string + recorded_chain \<Rightarrow> 'db node \<Rightarrow>
     (recorded_chain reply \<times> 'db node) option" where
  "handle_record_reasoning_chain E V ns sid oid body n =
     with_engine E ns sid oid n (\<lambda>e cfg n1.
       Some (case body of
         Inl msg \<Rightarrow> (Failed 400 msg, n1)
       | Inr c0 \<Rightarrow>
           (let c = named_chain ns c0; (stored, n2) = save_reasoning_envelope E V ns sid (ChainEnvelope c) n1
            in (if stored then Done 201 c else Failed 500 ''failed to persist reasoning chain'', n2))))"

definition handle_list_reasoning_chains ::
  "'db session_env \<Rightarrow> reasoning_envelope codec \<Rightarrow> string \<Rightarrow> string \<Rightarrow> 'db node \<Rightarrow> (recorded_chain \<times> explanation_record) list reply" where
  "handle_list_reasoning_chains E V sid oid n =
     (if \<not> owned (se_env E) sid oid (node_db n) then Failed 403 ''unauthorized''
      else Done 200 (sort_desc (\<lambda>cr. xr_timestamp (snd cr))
        (List.map_filter (\<lambda>r. map_option (\<lambda>c. (c, r)) (chain_of_record V r)) (stored_envelopes E sid n))))"

text \<open>The audit with the contradictions among the outputs of the chain.\<close>

definition merged_audit :: "consistency_issue list \<Rightarrow> audit_report \<Rightarrow> audit_report" where
  "merged_audit issues r =
     (if issues = [] then r
      else r\<lparr>ar_valid := False, ar_issues := ar_issues r @ issues,
             ar_candidates := sort (remdups (ar_candidates r @ concat (map ci_fact_ids issues)))\<rparr>)"

fun retract_candidates ::
  "'db session_env \<Rightarrow> (nat \<Rightarrow> int) \<Rightarrow> nat \<Rightarrow> string \<Rightarrow> string \<Rightarrow> string \<Rightarrow> string list \<Rightarrow> engine \<times> 'db node \<Rightarrow> string list \<Rightarrow>
     ((engine \<times> 'db node) \<times> string list) option" where
  "retract_candidates E clock i sid oid actor [] s done_ids = Some (s, done_ids)"
| "retract_candidates E clock i sid oid actor (k # ks) s done_ids =
     (let (e, n) = s; reason = ''reasoning_chain_verification''; en = auto_retract_entry sid actor k reason
      in if get_fact e k = None then retract_candidates E clock i sid oid actor ks s done_ids
         else (let (n1, err) = append_entry E (clock i) en n
               in if err \<noteq> None then retract_candidates E clock (Suc i) sid oid actor ks (e, n1) done_ids
                  else (let n2 = on_db (log_activity E (clock i) oid en) n1
                        in case retract_fact (millis (clock i)) k reason e of
                             None \<Rightarrow> None
                           | Some (Inl _) \<Rightarrow> retract_candidates E clock (Suc i) sid oid actor ks (e, n2) done_ids
                           | Some (Inr e1) \<Rightarrow> retract_candidates E clock (Suc i) sid oid actor ks (e1, n2) (done_ids @ [k]))))"

definition chain_outputs :: "recorded_chain \<Rightarrow> string list" where
  "chain_outputs c = filter (\<lambda>k. trim_space k \<noteq> []) (map rs_output (rc_steps c))"

text \<open>The reply: the audit and the facts it retracted.\<close>

definition handle_verify_reasoning_chain ::
  "'db session_env \<Rightarrow> reasoning_envelope codec \<Rightarrow> (real \<Rightarrow> string) \<Rightarrow> bool \<Rightarrow> (nat \<Rightarrow> int) \<Rightarrow> string \<Rightarrow> string \<Rightarrow> string \<Rightarrow>
     string \<Rightarrow> string + bool \<Rightarrow> 'db node \<Rightarrow> ((audit_report \<times> string list) reply \<times> 'db node) option" where
  "handle_verify_reasoning_chain E V sf auto clock sid oid actor cid body n =
     with_engine E (clock 0) sid oid n (\<lambda>e cfg n1.
       case find_reasoning_chain_record V (stored_envelopes E sid n1) cid of
         None \<Rightarrow> Some (Failed 404 ''reasoning chain not found'', n1)
       | Some c \<Rightarrow>
           (case body of
              Inl msg \<Rightarrow> Some (Failed 400 msg, n1)
            | Inr auto_retract \<Rightarrow>
                (let now = millis (clock 0); outputs = chain_outputs c;
                     issues = (if length outputs > 1 then cr_issues (check_consistency sf now e outputs False) else []);
                     report = merged_audit issues (audit_reasoning_chain sf now e (Some (reasoning_chain.truncate c)));
                     s1 = flag_facts_for_review_on_issues E auto clock 1 sid oid issues ''contradiction_detected'' (e, n1);
                     i = Suc (length (flagged_ids issues))
                 in if \<not> auto_retract
                    then Some (Done 200 (report, []), snd (save_reasoning_envelope E V (clock i) sid (AuditEnvelope report [])
                           (keep_engine sid (fst s1) (snd s1))))
                    else (case retract_candidates E clock i sid oid actor (ar_candidates report) s1 [] of
                        None \<Rightarrow> None
                      | Some ((e2, n2), retracted) \<Rightarrow>
                          (let gone = sort retracted; j = i + length (ar_candidates report)
                           in map_option (\<lambda>(e3, d). (Done 200 (report, gone),
                                snd (save_reasoning_envelope E V (clock j) sid (AuditEnvelope report gone)
                                  (keep_engine sid e3 (on_db (\<lambda>_. d) (invalidate_slice_cache sid n2))))))
                                (sync_session_search_documents E (clock j) oid sid cfg e2 (node_db n2)))))))"

end
