(* ===== verification/IsolationProperties.thy ===== *)
theory IsolationProperties
imports SessionSurvival SessionTypes Slices ConsistencyHandlers
begin

text \<open>What a request from another organization gets of a session: a refusal, except for the explanation of the past.\<close>

section \<open>Refusals\<close>

definition accessed :: "int \<Rightarrow> string \<Rightarrow> 'db node \<Rightarrow> 'db node" where
  "accessed ns sid n =
     n\<lparr>nd_server := (nd_server n)\<lparr>sv_last_access := AList.update sid (millis ns) (sv_last_access (nd_server n))\<rparr>\<rparr>"

definition not_yours :: "'db session_env \<Rightarrow> string \<Rightarrow> string \<Rightarrow> 'db node \<Rightarrow> bool" where
  "not_yours E sid oid n \<longleftrightarrow> get_session_organization (session_kv E) sid (node_db n) \<notin> {None, Some oid}"

lemma with_engine_refuses:
  assumes "not_yours E sid oid n"
  shows "with_engine E ns sid oid n k = Some (Failed 403 foreign, accessed ns sid n)"
  using assms
  by (auto simp: not_yours_def with_engine_def get_engine_def load_session_def Let_def accessed_def node_db_def
      split: option.split)

lemma not_owned: "not_yours E sid oid n \<Longrightarrow> \<not> owned (se_env E) sid oid (node_db n)"
  by (auto simp: not_yours_def owned_def)

text \<open>
  C35: A session that belongs to another organization answers every request for its present state,
  to read or to change it, by 403, and nothing changes but the time of the last access.
\<close>

theorem strangers_refused:
  assumes "not_yours E sid oid n"
  shows "handle_get_fact E ns sid oid fid n = Some (Failed 403 foreign, accessed ns sid n) \<and>
    handle_list_facts E ns sid oid v n = Some (Failed 403 foreign, accessed ns sid n) \<and>
    handle_get_impact E ns sid oid fid n = Some (Failed 403 foreign, accessed ns sid n) \<and>
    handle_semantic_search E sf p ns sid oid n = Some (Failed 403 foreign, accessed ns sid n) \<and>
    handle_get_slice E L p ns sid oid n = Some (Failed 403 foreign, accessed ns sid n) \<and>
    handle_explain E ns sid oid fid n = Some (Failed 403 foreign, accessed ns sid n) \<and>
    handle_explain_reasoning E pt js ns sid oid fid [] n = Some (Failed 403 foreign, accessed ns sid n) \<and>
    handle_get_config E ns sid oid n = Some (Failed 403 foreign, accessed ns sid n) \<and>
    handle_get_session_summary E ns sid oid n = Some (Failed 403 foreign, accessed ns sid n) \<and>
    handle_get_history E sid oid n = Failed 403 ''unauthorized'' \<and>
    handle_history_page E p sid oid n = Failed 403 ''unauthorized'' \<and>
    handle_get_explanations E sid oid n = Failed 403 ''unauthorized'' \<and>
    handle_list_reasoning_chains E V sid oid n = Failed 403 ''unauthorized'' \<and>
    handle_append_history E ns sid oid actor h n = (Failed 403 ''unauthorized'', n) \<and>
    (\<exists>n'. run_request E ns sid oid actor role q n = Some (403, n') \<and> (n' = n \<or> n' = accessed ns sid n)) \<and>
    handle_revalidate E ns sid oid n = Some (Failed 403 foreign, accessed ns sid n) \<and>
    handle_update_config E check ns sid oid actor c n = Some (Failed 403 foreign, accessed ns sid n) \<and>
    handle_record_reasoning_chain E V ns sid oid ch n = Some (Failed 403 foreign, accessed ns sid n)"
proof -
  note w = with_engine_refuses [OF assms] and o = not_owned [OF assms]
  have "\<exists>n'. run_request E ns sid oid actor role q n = Some (403, n') \<and> (n' = n \<or> n' = accessed ns sid n)"
    by (cases q) (simp_all add: coded_def handle_assert_fact_def handle_record_perception_def handle_invalidate_root_def
      handle_retract_fact_def handle_review_fact_def handle_verify_fact_def w)
  then show ?thesis
    by (simp add: handle_get_fact_def handle_list_facts_def handle_get_impact_def handle_semantic_search_def
        handle_get_slice_def handle_explain_def handle_explain_reasoning_def handle_get_config_def
        handle_get_session_summary_def handle_get_history_def handle_history_page_def handle_get_explanations_def
        handle_list_reasoning_chains_def handle_append_history_def handle_revalidate_def handle_update_config_def
        handle_record_reasoning_chain_def w o)
qed

theorem strangers_refused_witness:
  "handle_list_facts (request_env (null_codec (blank_entry [] []))) 5000000 ''s'' ''org2'' True request_node =
     Some (Failed 403 foreign, accessed 5000000 ''s'' request_node)"
proof -
  have "not_yours (request_env (null_codec (blank_entry [] []))) ''s'' ''org2'' request_node"
    by (simp add: not_yours_def request_env_def request_node_def node_db_def get_session_organization_def assoc_kv_def)
  from strangers_refused [OF this] show ?thesis by blast
qed

section \<open>The past\<close>

text \<open>
  An explanation at a time of the past does not ask whose session it is: whoever the
  organization of the request is, it gets the facts that the log of the session tells, the causal
  chain with them, and leaves an explanation in the session.
\<close>

theorem past_explained_to_anyone:
  assumes "ts \<noteq> []" "pt ts = Some t" "fid \<noteq> []"
    and "past_entries (millis ns) (get_session_history_before (session_kv E) (session_journal E) sid t (node_db n)) new_engine = Some e"
    and "explain_reasoning (millis ns) e fid = Inr x" "js sid t x = Some content"
    and "save_explanation (session_kv E) (se_explanation E) (se_sha E) ns sid content (node_db n) = Inr (rec, d)"
  shows "\<forall>oid. handle_explain_reasoning E pt js ns sid oid fid ts n = Some (Done 200 (sid, t, x), on_db (\<lambda>_. d) n)"
proof -
  have "on_db (\<lambda>d. case save_explanation (session_kv E) (se_explanation E) (se_sha E) ns sid content d of
      Inl _ \<Rightarrow> d | Inr (_, d') \<Rightarrow> d') n = on_db (\<lambda>_. d) n"
    using assms(7) by (simp add: on_db_def node_db_def)
  then show ?thesis
    using assms(1-6) by (simp add: handle_explain_reasoning_def explained_def Let_def)
qed

definition past_env :: "((string \<times> string) list) session_env" where
  "past_env = asserting_env\<lparr>se_explanation := \<lparr>encode = (\<lambda>_. Some ''x''), decode = (\<lambda>_. None),
     residue = (\<lambda>_. \<lparr>xr_session = [], xr_timestamp = 0, xr_content = [], xr_hash = [], xr_tampered = False\<rparr>)\<rparr>\<rparr>"

definition past_node :: "((string \<times> string) list) node" where
  "past_node = on_db (AList.update (history_key ''s'' 5000000) ''e'') request_node"

lemma past_history:
  "get_session_history_before (session_kv past_env) (session_journal past_env) ''s'' 7 (node_db past_node) = [json_entry sample_log_entry]"
proof -
  have "session_org_key ''s'' \<noteq> history_key ''s'' 5000000"
    by (simp add: session_org_key_def history_key_def)
  then have "scan_prefix assoc_kv (node_db past_node) (history_prefix ''s'') = [] @ [(history_key ''s'' 5000000, ''e'')]"
    using asserting_scan [of "null_codec (blank_entry [] [])"] keys_other(1) [OF asserting_ready(3) asserting_ready(3), of 5000000]
    by (subst scan_set_last [OF assoc_kv_laws, where d = "node_db request_node"])
      (auto simp: past_node_def request_env_def assoc_kv_def)
  then have "scan_prefix (session_kv past_env) (node_db past_node) (history_prefix ''s'') = [(history_key ''s'' 5000000, ''e'')]"
    by (simp add: past_env_def request_env_def)
  then show ?thesis
    by (simp add: get_session_history_before_def decoded_def List.map_filter_def past_env_def request_env_def null_codecs_def
        one_entry_def json_entry_def sample_log_entry_def blank_entry_def)
qed

lemma past_engine:
  obtains e x where "past_entries 9 [json_entry sample_log_entry] new_engine = Some e" "explain_reasoning 9 e ''A'' = Inr x"
    "map bl_fact_id (ex_chain x) = [''A'']"
proof -
  have "case assert_fact 9 (Some asserted_sample) new_engine of
      Some (Inr e) \<Rightarrow> (case explain_reasoning 9 e ''A'' of Inl _ \<Rightarrow> False | Inr x \<Rightarrow> map bl_fact_id (ex_chain x) = [''A''])
    | _ \<Rightarrow> False" by code_simp
  then obtain e x where e: "assert_fact 9 (Some asserted_sample) new_engine = Some (Inr e)" "explain_reasoning 9 e ''A'' = Inr x"
    "map bl_fact_id (ex_chain x) = [''A'']" by (auto split: option.splits sum.splits)
  have "json_fact asserted_sample = asserted_sample" by code_simp
  then have "past_entries 9 [json_entry sample_log_entry] new_engine = Some e"
    using e(1) by (simp add: past_entry_def boot_entry_def json_entry_def sample_log_entry_def blank_entry_def ignoring_def)
  then show thesis by (rule that [OF _ e(2,3)])
qed

theorem past_explained_to_anyone_witness:
  "not_yours past_env ''s'' ''org2'' past_node \<and>
   (\<exists>x n'. handle_explain_reasoning past_env (\<lambda>_. Some 7) (\<lambda>_ _ _. Some ''c'') 9000000 ''s'' ''org2'' ''A'' ''then'' past_node =
      Some (Done 200 (''s'', 7, x), n') \<and> map bl_fact_id (ex_chain x) = [''A''] \<and>
      kv_get assoc_kv (node_db n') (explanation_key ''s'' 9000000) = Some ''x'')"
proof -
  have foreign: "not_yours past_env ''s'' ''org2'' past_node"
    by (simp add: not_yours_def past_env_def past_node_def request_env_def request_node_def on_db_def node_db_def
        get_session_organization_def assoc_kv_def history_key_def session_org_key_def)
  obtain e x where e: "past_entries 9 [json_entry sample_log_entry] new_engine = Some e" "explain_reasoning 9 e ''A'' = Inr x"
    "map bl_fact_id (ex_chain x) = [''A'']" by (rule past_engine)
  obtain r d where d: "save_explanation (session_kv past_env) (se_explanation past_env) (se_sha past_env) 9000000 ''s'' ''c''
      (node_db past_node) = Inr (r, d)" "kv_get assoc_kv d (explanation_key ''s'' 9000000) = Some ''x''"
    by (simp add: past_env_def save_explanation_def request_env_def assoc_kv_def)
  have "\<forall>oid. handle_explain_reasoning past_env (\<lambda>_. Some 7) (\<lambda>_ _ _. Some ''c'') 9000000 ''s'' oid ''A'' ''then'' past_node =
      Some (Done 200 (''s'', 7, x), on_db (\<lambda>_. d) past_node)"
    by (rule past_explained_to_anyone [OF _ _ _ _ _ _ d(1)]) (use e in \<open>simp_all add: past_history millis_def\<close>)
  then show ?thesis using foreign e(3) d(2) by auto
qed

end
