(* ===== verification/GovernanceProperties.thy ===== *)
theory GovernanceProperties
imports SessionSurvival SessionTypes
begin

text \<open>What protects a fact from being withdrawn, and what the log accepts without asking.\<close>

section \<open>Protected facts\<close>


definition protected_engine :: engine where
  "protected_engine = put_fact ''A'' ((sample_fact ''A'' True 1 [])\<lparr>entrenchment := 1\<rparr>) new_engine"

definition protected_node :: "((string \<times> string) list) node" where
  "protected_node = keep_engine ''s'' protected_engine request_node"


section \<open>Entries from outside\<close>

text \<open>
  An entry posted to the history of a session is replayed like those of the handlers, at the
  time of the post, whatever its type: neither the role of the caller, nor the policies, nor the
  override that a protected fact demands is asked for. The next engine rebuilt has it applied.
\<close>

theorem posted_history_replayed:
  assumes "undisturbed E" "json_log E" "log_ready E ns sid (node_db n)" "colon_free sid" "0 < millis ns"
    and "handle_append_history E ns sid oid actor (Inr en) n = (Done 201 en', n')"
  shows "en' = en\<lparr>je_actor := actor, je_session := sid, je_timestamp := millis ns\<rparr> \<and>
    session_boot E now sid (node_db n') = Option.bind (session_boot E now sid (node_db n)) (boot_entry now (json_entry en')) \<and>
    session_log E sid (node_db n') = (fst (session_log E sid (node_db n)) @ [json_entry en'], None)"
proof -
  note K = undisturbed_laws [OF assms(1)]
  let ?en = "en\<lparr>je_actor := actor, je_session := sid, je_timestamp := millis ns\<rparr>"
  obtain err where a: "append_entry E ns ?en n = (n', err)" "err = None" "en' = ?en"
    using assms(6) by (auto simp: handle_append_history_def Let_def split: if_splits prod.splits)
  obtain val where val: "encode (session_journal E) (entry_at ns ?en) = Some val"
    "n' = on_db (append_body (session_kv E) (se_sha E) (je_session ?en) ns val) n"
    using append_entry_cases(2) [OF assms(1) a(1,2)] by blast
  have at: "entry_at ns ?en = ?en" using assms(5) by (simp add: entry_at_def)
  then have dec: "decode (session_journal E) val = Some (json_entry ?en)"
    using assms(2) val(1) by (simp add: json_log_def)
  have t: "je_timestamp (json_entry ?en) = millis ns" by (simp add: json_entry_def)
  have db: "node_db n' = append_body (session_kv E) (se_sha E) sid ns val (node_db n)" using val(2) by simp
  show ?thesis using body_log [OF K assms(4,3) dec t db] a(3) by simp
qed

theorem posted_history_replayed_witness:
  "\<exists>en' n'. handle_append_history asserting_env 5000000 ''s'' ''org1'' ''u'' (Inr (sample_log_entry\<lparr>je_actor := []\<rparr>)) request_node =
       (Done 201 en', n') \<and>
     session_boot asserting_env 9 ''s'' (node_db n') =
       Option.bind (session_boot asserting_env 9 ''s'' (node_db request_node)) (boot_entry 9 (json_entry sample_log_entry))"
proof -
  let ?en = "sample_log_entry\<lparr>je_actor := []\<rparr>"
  have en: "?en\<lparr>je_actor := ''u'', je_session := ''s'', je_timestamp := millis 5000000\<rparr> = sample_log_entry"
    by (simp add: sample_log_entry_def blank_entry_def millis_def)
  have "encode (session_journal asserting_env) (entry_at 5000000 sample_log_entry) = Some ''e''"
    by (simp add: request_env_def null_codecs_def one_entry_def entry_at_def sample_log_entry_def)
  moreover have "se_commit asserting_env = (\<lambda>_ _. Committed)" by (simp add: request_env_def)
  ultimately have "snd (append_entry asserting_env 5000000 sample_log_entry request_node) = None"
    by (simp add: append_entry_def badger_append_def eval_nat_numeral case_prod_unfold)
  moreover have "owned (se_env asserting_env) ''s'' ''org1'' (node_db request_node)"
    by (simp add: owned_def request_env_def request_node_def node_db_def get_session_organization_def assoc_kv_def)
  ultimately obtain n' where n': "handle_append_history asserting_env 5000000 ''s'' ''org1'' ''u'' (Inr ?en) request_node =
      (Done 201 sample_log_entry, n')"
    unfolding handle_append_history_def en sum.case Let_def by (simp add: case_prod_unfold)
  have "0 < millis 5000000" by (simp add: millis_def)
  from posted_history_replayed [OF asserting_env_ok asserting_ready(1,3) this n', of 9] n' show ?thesis by blast
qed

end
