(* ===== verification/Middleware.thy ===== *)
theory Middleware
imports Sessions
begin

text \<open>
  The middleware of api/server.go and api/runtime_security.go around the handlers: the replay of
  answers to requests with an idempotency key, and the bound on the concurrent writes of an
  organization.
\<close>

section \<open>Answers\<close>

record http_answer =
  ha_status :: int
  ha_content_type :: string
  ha_headers :: "(string \<times> string) list"
  ha_body :: string

text \<open>raw is the value of VELARIX_IDEMPOTENCY_TTL_HOURS; the window is in nanoseconds.\<close>

definition idempotency_replay_window :: "string \<Rightarrow> int" where
  "idempotency_replay_window raw =
     (let hours = (case parse_int (trim_space raw) of
            Some h \<Rightarrow> if h \<le> 0 \<or> h > 24 * 30 then 24 else h | None \<Rightarrow> 24)
      in hours * 3600 * 1000000000)"

definition captured_names :: "string list" where
  "captured_names = [''Location'', ''ETag'', ''Retry-After'', ''X-Trace-Id'', ''X-Idempotency-Key'', ''X-Velarix-Backpressure'',
     ''X-Velarix-RateLimit-Limit'', ''X-Velarix-RateLimit-Window'']"

definition header_of :: "(string \<times> string) list \<Rightarrow> string \<Rightarrow> string" where
  "header_of hs k = (case map_of hs k of None \<Rightarrow> [] | Some v \<Rightarrow> v)"

definition captured_idempotency_headers :: "(string \<times> string) list \<Rightarrow> (string \<times> string) list option" where
  "captured_idempotency_headers hs =
     (let out = List.map_filter (\<lambda>k. let v = trim_space (header_of hs k) in if v = [] then None else Some (k, v)) captured_names
      in if out = [] then None else Some out)"

definition persist_idempotency_response :: "int \<Rightarrow> string \<Rightarrow> nat \<Rightarrow> bool" where
  "persist_idempotency_response status ct len \<longleftrightarrow>
     len \<noteq> 0 \<and> \<not> (status < 200 \<or> status \<ge> 500) \<and>
     (let t = to_lower (trim_space ct) in str_contains t ''application/json'' \<or> str_contains t ''text/plain'')"

section \<open>Idempotency\<close>

definition max_body_size :: nat where "max_body_size = 1024 * 1024"

record keyed_request =
  kr_method :: string
  kr_path :: string
  kr_key :: string
  kr_org :: string

text \<open>sha is SHA-256 in hexadecimal.\<close>

definition request_key :: "(string \<Rightarrow> string) \<Rightarrow> keyed_request \<Rightarrow> string" where
  "request_key sha r = sha (kr_method r @ ''|'' @ kr_path r @ ''|'' @ trim_space (kr_key r))"

definition keyed :: "keyed_request \<Rightarrow> bool" where
  "keyed r \<longleftrightarrow> kr_method r \<in> {''POST'', ''PUT'', ''PATCH'', ''DELETE''} \<and> trim_space (kr_key r) \<noteq> [] \<and> kr_org r \<noteq> []"

definition replayed :: "keyed_request \<Rightarrow> idempotency_record \<Rightarrow> http_answer" where
  "replayed r x =
     \<lparr>ha_status = idem_status x, ha_content_type = idem_content_type x,
      ha_headers = AList.update ''X-Idempotency-Key'' (trim_space (kr_key r)) (AList.update ''X-Idempotency-Replay'' ''true''
        (filter (\<lambda>kv. fst kv \<noteq> [] \<and> snd kv \<noteq> []) (case idem_headers x of None \<Rightarrow> [] | Some hs \<Rightarrow> hs))),
      ha_body = idem_body x\<rparr>"

definition recorded :: "int \<Rightarrow> http_answer \<Rightarrow> idempotency_record" where
  "recorded now a =
     \<lparr>idem_status = ha_status a, idem_content_type = ha_content_type a, idem_body = take max_body_size (ha_body a),
      idem_headers = captured_idempotency_headers (ha_headers a), idem_created_at = now\<rparr>"

text \<open>now and later are the clock before and after the handler, in nanoseconds.\<close>

definition idempotency_middleware ::
  "'db kv \<Rightarrow> idempotency_record codec \<Rightarrow> (string \<Rightarrow> string) \<Rightarrow> int \<Rightarrow> int \<Rightarrow> int \<Rightarrow> keyed_request \<Rightarrow>
     ('db node \<Rightarrow> (http_answer \<times> 'db node) option) \<Rightarrow> 'db node \<Rightarrow> (http_answer \<times> 'db node) option" where
  "idempotency_middleware K C sha window now later r handler n =
     (if \<not> keyed r then handler n
      else (case get_idempotency K C now (kr_org r) (request_key sha r) window (node_db n) of
          (Inr x, d) \<Rightarrow> Some (replayed r x, on_db (\<lambda>_. d) n)
        | (Inl _, d) \<Rightarrow>
            map_option (\<lambda>(a, n1).
                (a, if persist_idempotency_response (ha_status a) (ha_content_type a) (length (take max_body_size (ha_body a)))
                    then on_db (\<lambda>d1. or_same d1 (save_idempotency K C (millis later) (kr_org r) (request_key sha r)
                           (recorded (millis later) a) d1)) n1
                    else n1))
              (handler (on_db (\<lambda>_. d) n))))"

section \<open>Concurrent writes\<close>

text \<open>live is whether VELARIX_ENV is prod, raw the value of VELARIX_MAX_CONCURRENT_WRITES.\<close>

definition max_concurrent_writes :: "bool \<Rightarrow> string \<Rightarrow> nat" where
  "max_concurrent_writes live raw =
     (let fallback = (if live then 64 else 256)
      in if trim_space raw = [] then fallback
         else (case parse_int (trim_space raw) of
                 Some m \<Rightarrow> if m > 0 \<and> m \<le> 10000 then nat m else fallback | None \<Rightarrow> fallback))"

text \<open>The limiter of an organization: its capacity, fixed when it is made, and the requests that hold a slot.\<close>

record limiter =
  lm_capacity :: nat
  lm_held :: "nat list"

definition write_limiter :: "nat \<Rightarrow> string \<Rightarrow> (string \<times> limiter) list \<Rightarrow> limiter" where
  "write_limiter limit oid ls =
     (case map_of ls (if oid = [] then ''unknown'' else oid) of
        Some l \<Rightarrow> l | None \<Rightarrow> \<lparr>lm_capacity = limit, lm_held = []\<rparr>)"

definition limited_write :: "string \<Rightarrow> string \<Rightarrow> bool" where
  "limited_write verb oid \<longleftrightarrow> verb \<notin> {''GET'', ''HEAD'', ''OPTIONS''} \<and> oid \<noteq> []"

text \<open>False is the answer 503 with backpressure; the request i that was let in gives its slot back at its end.\<close>

definition enter_write :: "nat \<Rightarrow> nat \<Rightarrow> string \<Rightarrow> string \<Rightarrow> (string \<times> limiter) list \<Rightarrow> bool \<times> (string \<times> limiter) list" where
  "enter_write limit i verb oid ls =
     (if \<not> limited_write verb oid then (True, ls)
      else (let l = write_limiter limit oid ls
            in if length (lm_held l) < lm_capacity l
               then (True, AList.update oid (l\<lparr>lm_held := i # lm_held l\<rparr>) ls)
               else (False, AList.update oid l ls)))"

definition leave_write :: "nat \<Rightarrow> string \<Rightarrow> string \<Rightarrow> (string \<times> limiter) list \<Rightarrow> (string \<times> limiter) list" where
  "leave_write i verb oid ls =
     (if \<not> limited_write verb oid then ls
      else (case map_of ls oid of None \<Rightarrow> ls | Some l \<Rightarrow> AList.update oid (l\<lparr>lm_held := remove1 i (lm_held l)\<rparr>) ls))"

end
