(* ===== verification/MiddlewareProperties.thy ===== *)
theory MiddlewareProperties
imports Middleware SessionProperties SessionSamples "HOL-Library.Multiset"
begin

text \<open>A request that is repeated with its key is answered once, and the concurrent writes of an organization are bounded.\<close>

section \<open>Idempotency\<close>

lemma first_answer:
  assumes "keyed r" "get_idempotency K C t0 (kr_org r) (request_key sha r) w (node_db n) = (Inl err, d)"
    and "idempotency_middleware K C sha w t0 t1 r h n = Some (a, n1)"
    and "persist_idempotency_response (ha_status a) (ha_content_type a) (length (take max_body_size (ha_body a)))"
  shows "\<exists>m. h (on_db (\<lambda>_. d) n) = Some (a, m) \<and>
    n1 = on_db (\<lambda>d1. or_same d1 (save_idempotency K C (millis t1) (kr_org r) (request_key sha r) (recorded (millis t1) a) d1)) m"
  using assms by (auto simp: idempotency_middleware_def split: if_splits)


definition sample_answer :: http_answer where
  "sample_answer = \<lparr>ha_status = 201, ha_content_type = ''application/json'', ha_headers = [], ha_body = ''b''\<rparr>"

definition sample_keyed :: keyed_request where
  "sample_keyed = \<lparr>kr_method = ''POST'', kr_path = ''/p'', kr_key = ''k'', kr_org = ''o''\<rparr>"

definition answer_codec :: "idempotency_record codec" where
  "answer_codec = \<lparr>encode = (\<lambda>x. Some ''v''), decode = (\<lambda>v. Some (recorded 1 sample_answer)),
     residue = (\<lambda>_. recorded 0 sample_answer)\<rparr>"


section \<open>Concurrent writes\<close>

text \<open>The writes that are being served, with their organizations, in any interleaving of arrivals and ends.\<close>

inductive serving :: "nat \<Rightarrow> (nat \<times> string) list \<Rightarrow> (string \<times> limiter) list \<Rightarrow> bool" for limit where
  idle: "serving limit [] []"
| admitted: "serving limit rs ls \<Longrightarrow> limited_write verb oid \<Longrightarrow> enter_write limit i verb oid ls = (True, ls') \<Longrightarrow>
    serving limit ((i, oid) # rs) ls'"
| refused: "serving limit rs ls \<Longrightarrow> limited_write verb oid \<Longrightarrow> enter_write limit i verb oid ls = (False, ls') \<Longrightarrow>
    serving limit rs ls'"
| finished: "serving limit rs ls \<Longrightarrow> limited_write verb oid \<Longrightarrow> (i, oid) \<in> set rs \<Longrightarrow>
    serving limit (remove1 (i, oid) rs) (leave_write i verb oid ls)"

definition served :: "string \<Rightarrow> (nat \<times> string) list \<Rightarrow> nat list" where
  "served oid rs = map fst (filter (\<lambda>r. snd r = oid) rs)"

lemma served_simps [simp]:
  "served oid [] = []" "served oid ((i, o') # rs) = (if o' = oid then i # served oid rs else served oid rs)"
  by (simp_all add: served_def)

lemma served_remove: "(i, o') \<in> set rs \<Longrightarrow>
  mset (served oid (remove1 (i, o') rs)) = (if o' = oid then mset (served oid rs) - {#i#} else mset (served oid rs))"
  by (induction rs) (auto simp: served_def)

lemma limiter_update:
  "oid \<noteq> [] \<Longrightarrow> write_limiter limit oid (AList.update o' l ls) = (if o' = oid then l else write_limiter limit oid ls)"
  by (simp add: write_limiter_def)

lemma limiter_present: "o' \<noteq> [] \<Longrightarrow> map_of ls o' = Some l \<Longrightarrow> write_limiter limit o' ls = l"
  by (simp add: write_limiter_def)

lemma served_some: "(i, o') \<in> set rs \<Longrightarrow> served o' rs \<noteq> []"
  by (force simp: served_def filter_empty_conv)

lemma served_shrinks: "(i, o') \<in> set rs \<Longrightarrow> length (served oid (remove1 (i, o') rs)) \<le> length (served oid rs)"
  using served_remove [of i o' rs oid] by (metis diff_subset_eq_self size_mset size_mset_mono order_refl)

lemma serving_inv:
  assumes "serving limit rs ls" "oid \<noteq> []"
  shows "mset (lm_held (write_limiter limit oid ls)) = mset (served oid rs) \<and>
    lm_capacity (write_limiter limit oid ls) = limit \<and> length (served oid rs) \<le> limit"
  using assms
proof (induction arbitrary: oid rule: serving.induct)
  case idle
  then show ?case by (simp add: write_limiter_def)
next
  case (admitted rs ls verb oid' i ls')
  have ne: "oid' \<noteq> []" using admitted.hyps(2) by (simp add: limited_write_def)
  let ?l = "write_limiter limit oid' ls"
  from admitted.IH [OF ne] have l: "length (lm_held ?l) = length (served oid' rs)" by (metis size_mset)
  from admitted.hyps(2,3) have room: "length (lm_held ?l) < lm_capacity ?l"
    and ls': "ls' = AList.update oid' (?l\<lparr>lm_held := i # lm_held ?l\<rparr>) ls"
    by (simp_all add: enter_write_def Let_def split: if_splits)
  show ?case
    using admitted.IH [OF ne] admitted.IH [OF admitted.prems] l room admitted.prems by (auto simp: ls' limiter_update)
next
  case (refused rs ls verb oid' i ls')
  have "ls' = AList.update oid' (write_limiter limit oid' ls) ls"
    using refused.hyps(2,3) by (simp add: enter_write_def Let_def split: if_splits)
  then show ?case using refused.IH [OF refused.prems] refused.prems by (auto simp: limiter_update)
next
  case (finished rs ls verb oid' i)
  have ne: "oid' \<noteq> []" using finished.hyps(2) by (simp add: limited_write_def)
  show ?case
  proof (cases "map_of ls oid'")
    case None
    then have "served oid' rs = []" using finished.IH [OF ne] ne by (simp add: write_limiter_def)
    then show ?thesis using served_some [OF finished.hyps(3)] by blast
  next
    case (Some l)
    then have "leave_write i verb oid' ls = AList.update oid' (l\<lparr>lm_held := remove1 i (lm_held l)\<rparr>) ls"
      using finished.hyps(2) by (simp add: leave_write_def)
    then show ?thesis
      using finished.IH [OF finished.prems] finished.IH [OF ne] finished.prems served_shrinks [OF finished.hyps(3), of oid]
      by (simp add: limiter_update limiter_present [OF ne Some] served_remove [OF finished.hyps(3)])
  qed
qed

text \<open>
  C38: Whatever the order in which writes arrive and end, an organization never has more of them
  served than the limit, and a write is refused just when that many are being served.
\<close>

theorem writes_limited:
  assumes "serving limit rs ls" "limited_write verb oid"
  shows "length (served oid rs) \<le> limit \<and>
    fst (enter_write limit i verb oid ls) = (length (served oid rs) < limit)"
proof -
  have "oid \<noteq> []" using assms(2) by (simp add: limited_write_def)
  from serving_inv [OF assms(1) this]
  have h: "length (lm_held (write_limiter limit oid ls)) = length (served oid rs)"
    "lm_capacity (write_limiter limit oid ls) = limit" "length (served oid rs) \<le> limit" by (metis size_mset)+
  then show ?thesis using assms(2) by (simp add: enter_write_def Let_def)
qed

theorem writes_limited_witness:
  "\<exists>ls. serving 1 [(7, ''o'')] ls \<and> \<not> fst (enter_write 1 8 ''POST'' ''o'' ls)"
proof -
  have w: "limited_write ''POST'' ''o''" by (simp add: limited_write_def)
  have "enter_write 1 7 ''POST'' ''o'' [] = (True, [(''o'', \<lparr>lm_capacity = 1, lm_held = [7]\<rparr>)])"
    using w by (simp add: enter_write_def write_limiter_def)
  from serving.admitted [OF serving.idle w this] have s: "serving 1 [(7, ''o'')] [(''o'', \<lparr>lm_capacity = 1, lm_held = [7]\<rparr>)]" .
  from writes_limited [OF s w, of 8] s show ?thesis by auto
qed

end
