(* ===== verification/SliceProperties.thy ===== *)
theory SliceProperties
imports Slices SessionTypes DependencyIDs Samples
begin

text \<open>A slice of the beliefs: it returns, keeps to its number of facts, and to its budget unless a fact fills or exceeds it.\<close>

section \<open>The budget\<close>

definition slice_size :: "slice_env \<Rightarrow> fact list \<Rightarrow> int" where
  "slice_size L fs = (\<Sum>f\<leftarrow>fs. int (estimate_slice_fact_size L f))"

lemma slice_size_simps [simp]:
  "slice_size L [] = 0" "slice_size L (fs @ gs) = slice_size L fs + slice_size L gs"
  "slice_size L [f] = int (estimate_slice_fact_size L f)"
  by (simp_all add: slice_size_def)

text \<open>The budget was filled by the first facts of the slice, or exceeded by the very first.\<close>

definition budget_spent :: "slice_env \<Rightarrow> int \<Rightarrow> fact list \<Rightarrow> bool" where
  "budget_spent L budget fs \<longleftrightarrow>
     (\<exists>k. 0 < k \<and> k \<le> length fs \<and> (slice_size L (take k fs) = budget \<or> k = 1 \<and> slice_size L (take k fs) > budget))"

lemma budget_spent_more:
  assumes "budget_spent L budget fs"
  shows "budget_spent L budget (fs @ gs)"
proof -
  obtain k where k: "0 < k" "k \<le> length fs"
    "slice_size L (take k fs) = budget \<or> k = 1 \<and> slice_size L (take k fs) > budget"
    using assms unfolding budget_spent_def by (elim exE conjE) (rule that)
  have "take k (fs @ gs) = take k fs" using k(2) by simp
  then have "slice_size L (take k (fs @ gs)) = budget \<or> k = 1 \<and> slice_size L (take k (fs @ gs)) > budget"
    using k(3) by (simp only:)
  moreover have "k \<le> length (fs @ gs)" using k(2) by simp
  ultimately show ?thesis using k(1) unfolding budget_spent_def by (intro exI [of _ k] conjI)
qed

text \<open>A selection of facts with the property P, with the characters that remain.\<close>

definition slice_ok :: "slice_env \<Rightarrow> slice_options \<Rightarrow> (fact \<Rightarrow> bool) \<Rightarrow> fact list \<times> int \<Rightarrow> bool" where
  "slice_ok L x P s \<longleftrightarrow>
     (\<forall>f \<in> set (fst s). P f) \<and> distinct (map fact_id (fst s)) \<and> length (fst s) \<le> so_max_facts x \<and>
     (0 < so_max_chars x \<longrightarrow>
        (if 0 < snd s then snd s = so_max_chars x - slice_size L (fst s) else budget_spent L (so_max_chars x) (fst s)))"

lemma add_fact_ok:
  assumes "slice_ok L x P s" "P f" "add_fact L x f s = (b, s')"
  shows "slice_ok L x P s'"
proof -
  obtain sel left where s: "s = (sel, left)" by fastforce
  show ?thesis
  proof (cases "fact_id f \<in> fact_id ` set sel \<or> length sel \<ge> so_max_facts x \<or>
      (left > 0 \<and> sel \<noteq> [] \<and> int (estimate_slice_fact_size L f) > left)")
    case True
    then have "s' = s" using assms(3) by (auto simp: s add_fact_def Let_def split: if_splits)
    then show ?thesis using assms(1) by simp
  next
    case False
    let ?z = "int (estimate_slice_fact_size L f)"
    have s': "s' = (sel @ [f], if left > 0 then left - ?z else left)"
      using assms(3) False by (auto simp: s add_fact_def Let_def split: if_splits)
    have "budget_spent L (so_max_chars x) (sel @ [f])" if "0 < so_max_chars x" "\<not> 0 < (if left > 0 then left - ?z else left)"
    proof (cases "left > 0")
      case True
      then have l: "left = so_max_chars x - slice_size L sel" using assms(1) that(1) by (simp add: slice_ok_def s)
      then have "slice_size L (sel @ [f]) = so_max_chars x \<or> sel = [] \<and> slice_size L (sel @ [f]) > so_max_chars x"
        using False that(2) True by auto
      then show ?thesis unfolding budget_spent_def by (intro exI [of _ "Suc (length sel)"]) auto
    next
      case neg: False
      then show ?thesis using assms(1) that(1) budget_spent_more by (simp add: slice_ok_def s)
    qed
    then show ?thesis
      using assms(1,2) False by (auto simp: s' slice_ok_def s)
  qed
qed

section \<open>The selection\<close>

text \<open>Facts an engine knows; those of a slice are valid, unless invalid ones are asked for.\<close>

definition eligible :: "slice_options \<Rightarrow> engine \<Rightarrow> fact \<Rightarrow> bool" where
  "eligible x e f \<longleftrightarrow> fact_at e (fact_id f) \<noteq> None \<and> (so_invalid x \<or> resolved_status f \<ge> ConfidenceThreshold)"

definition same_keys :: "engine \<Rightarrow> engine \<Rightarrow> bool" where
  "same_keys e e' \<longleftrightarrow> fst ` set (facts e') = fst ` set (facts e)"

lemma slice_known_iff: "fact_at e k \<noteq> None \<longleftrightarrow> k \<in> fst ` set (facts e)"
  by (simp add: map_of_eq_None_iff)

lemma same_keys_refl [simp]: "same_keys e e"
  by (simp add: same_keys_def)

lemma same_keys_trans: "same_keys e e' \<Longrightarrow> same_keys e' e'' \<Longrightarrow> same_keys e e''"
  by (simp add: same_keys_def)

lemma eligible_same: "same_keys e e' \<Longrightarrow> eligible x e' f = eligible x e f"
  by (simp add: eligible_def slice_known_iff same_keys_def del: not_None_eq)

text \<open>The engines of a run, well formed and with an acyclic graph of declared sets.\<close>

definition sound :: "engine \<Rightarrow> bool" where
  "sound e \<longleftrightarrow> wf_engine e \<and> loadable e"

lemma get_status_same:
  assumes "sound e"
  obtains e' st where "get_status now k e = Some (e', st)" "sound e'" "same_keys e e'"
proof (cases "dirty_dominators e")
  case True
  then obtain e' where "get_status now k e = Some (e', pruned_status now k e')" "plain_of e' = plain_of e"
    using get_status_total assms unfolding sound_def by blast
  then show ?thesis
    using that assms plain_wf [of e] plain_wf [of e'] plain_loadable [of e] plain_loadable [of e'] plain_keys [of e] plain_keys [of e']
    by (simp add: sound_def same_keys_def)
next
  case False
  then show ?thesis using that assms by (simp add: get_status_def)
qed

lemma dependency_ids_sound:
  assumes "sound e" "fact_at e k \<noteq> None"
  obtains ids where "dependency_ids e k False = Some (Inr ids)"
  using assms dependency_ids_exact unfolding sound_def by metis

lemma rank_facts_returns:
  assumes "sound e" "\<forall>f \<in> set fs. fact_at e (fact_id f) \<noteq> None"
  shows "\<exists>rs e'. rank_facts L now x semantic fs e = Some (rs, e') \<and> sound e' \<and> same_keys e e' \<and>
    (\<forall>r \<in> set rs. eligible x e (fst r))"
  using assms
proof (induction fs arbitrary: e)
  case (Cons f fs)
  obtain e1 st where e1: "get_status now (fact_id f) e = Some (e1, st)" "sound e1" "same_keys e e1"
    by (rule get_status_same [OF Cons.prems(1)])
  have known: "\<forall>g \<in> set (f # fs). fact_at e1 (fact_id g) \<noteq> None"
    using Cons.prems(2) e1(3) by (simp add: slice_known_iff same_keys_def del: not_None_eq)
  then have "\<forall>g \<in> set fs. fact_at e1 (fact_id g) \<noteq> None" by simp
  from Cons.IH [OF e1(2) this] obtain rs e2 where
    r: "rank_facts L now x semantic fs e1 = Some (rs, e2)" "sound e2" "same_keys e1 e2" "\<forall>r \<in> set rs. eligible x e1 (fst r)"
    by blast
  from known have "fact_at e1 (fact_id f) \<noteq> None" by simp
  then obtain ids where "dependency_ids e1 (fact_id f) False = Some (Inr ids)" by (rule dependency_ids_sound [OF e1(2)])
  then obtain score where "slice_score L now x semantic e1 f st = Some score" by (simp add: slice_score_def)
  then show ?case
    using e1 r Cons.prems(2) same_keys_trans [OF e1(3) r(3)] eligible_same [OF e1(3)]
    by (auto simp: eligible_def)
qed simp

lemma add_dependencies_returns:
  assumes "sound e" "slice_ok L x (eligible x e) s"
  shows "\<exists>s' e'. add_dependencies L now x ks e s = Some (s', e') \<and> sound e' \<and> same_keys e e' \<and> slice_ok L x (eligible x e) s'"
  using assms
proof (induction ks arbitrary: e s)
  case (Cons k ks)
  show ?case
  proof (cases "get_fact e k")
    case None
    then show ?thesis using Cons by simp
  next
    case (Some f)
    then have f: "fact_at e (fact_id f) \<noteq> None"
      using wf_fact_id [of e k f] Cons.prems(1) by (simp add: sound_def)
    obtain e1 st where e1: "get_status now k e = Some (e1, st)" "sound e1" "same_keys e e1"
      by (rule get_status_same [OF Cons.prems(1)])
    have same: "eligible x e1 = eligible x e" using eligible_same [OF e1(3)] by blast
    show ?thesis
    proof (cases "\<not> so_invalid x \<and> st < ConfidenceThreshold")
      case True
      then show ?thesis
        using Cons.IH [OF e1(2), of s] Cons.prems(2) Some e1 same same_keys_trans [OF e1(3)] by fastforce
    next
      case False
      obtain b s1 where a: "add_fact L x (f\<lparr>resolved_status := st\<rparr>) s = (b, s1)" by (rule prod.exhaust)
      have "eligible x e (f\<lparr>resolved_status := st\<rparr>)" using f False by (auto simp: eligible_def)
      then have s1: "slice_ok L x (eligible x e) s1" by (rule add_fact_ok [OF Cons.prems(2) _ a])
      show ?thesis
      proof (cases b)
        case True
        then show ?thesis
          using Cons.IH [OF e1(2), of s1] s1 Some e1 same a False same_keys_trans [OF e1(3)] by fastforce
      next
        case b: False
        then show ?thesis using Some e1 a s1 False by (cases s1) auto
      qed
    qed
  qed
qed simp

lemma fill_slice_returns:
  assumes "sound e" "slice_ok L x (eligible x e) s" "\<forall>f \<in> set fs. eligible x e f"
  shows "\<exists>s' e'. fill_slice L now x fs e s = Some (s', e') \<and> sound e' \<and> same_keys e e' \<and> slice_ok L x (eligible x e) s'"
  using assms
proof (induction fs arbitrary: e s)
  case (Cons f fs)
  obtain b s1 where a: "add_fact L x f s = (b, s1)" by (rule prod.exhaust)
  have s1: "slice_ok L x (eligible x e) s1" by (rule add_fact_ok [OF Cons.prems(2) _ a]) (use Cons.prems(3) in simp)
  have "fact_at e (fact_id f) \<noteq> None" using Cons.prems(3) by (simp add: eligible_def)
  then obtain ids where ids: "dependency_ids e (fact_id f) False = Some (Inr ids)" by (rule dependency_ids_sound [OF Cons.prems(1)])
  from add_dependencies_returns [OF Cons.prems(1) s1, of now "sort ids"] obtain s2 e2 where
    d: "add_dependencies L now x (sort ids) e s1 = Some (s2, e2)" "sound e2" "same_keys e e2" "slice_ok L x (eligible x e) s2"
    by blast
  have same: "eligible x e2 = eligible x e" using eligible_same [OF d(3)] by blast
  have fs: "\<forall>g \<in> set fs. eligible x e g" using Cons.prems(3) by simp
  note i1 = Cons.IH [OF Cons.prems(1) s1 fs]
  note i2 = Cons.IH [OF d(2), unfolded same, OF d(4) fs]
  show ?case
    using i1 i2 s1 a ids d same_keys_trans [OF d(3)] Cons.prems(1) by (cases b; cases s1; cases s2) (auto split: prod.splits)
qed simp

text \<open>
  C39: Selecting a slice returns on every sound engine. The slice names facts of the engine, each
  once, at most as many as asked for, and only valid ones unless invalid ones are asked for. Its
  size keeps to the budget of characters, unless the first fact exceeds it or the first facts fill
  it exactly: from then on the budget is no longer looked at.
\<close>

theorem slice_bounded:
  assumes "wf_engine e" "loadable e"
  shows "\<exists>fs e'. select_belief_slice L now x e = Some (fs, e') \<and> distinct (map fact_id fs) \<and> length fs \<le> so_max_facts x \<and>
    (\<forall>f \<in> set fs. eligible x e f) \<and>
    (0 < so_max_chars x \<longrightarrow> slice_size L fs \<le> so_max_chars x \<or> budget_spent L (so_max_chars x) fs)"
proof -
  have e: "sound e" using assms by (simp add: sound_def)
  have l: "\<forall>f \<in> set (list_facts e). fact_at e (fact_id f) \<noteq> None"
    using wf_fact_id [OF assms(1)] wf_fact_keys [OF assms(1)] by (fastforce simp: list_facts_def)
  obtain rs e1 where r: "rank_facts L now x (semantic_scores L now x e) (list_facts e) e = Some (rs, e1)" "sound e1" "same_keys e e1"
    "\<forall>r \<in> set rs. eligible x e (fst r)"
    using rank_facts_returns [OF e l] by blast
  have same: "eligible x e1 = eligible x e" using eligible_same [OF r(3)] by blast
  have s0: "slice_ok L x (eligible x e1) ([], so_max_chars x)" by (simp add: slice_ok_def)
  have "\<forall>f \<in> set (map fst (sort_key rank_key rs)). eligible x e1 f" using r(4) same by auto
  from fill_slice_returns [OF r(2) s0 this, of now] obtain s e2 where
    s: "fill_slice L now x (map fst (sort_key rank_key rs)) e1 ([], so_max_chars x) = Some (s, e2)" "slice_ok L x (eligible x e) s"
    unfolding same by blast
  have "slice_size L (fst s) \<le> so_max_chars x \<or> budget_spent L (so_max_chars x) (fst s)" if "0 < so_max_chars x"
    using s(2) that by (auto simp: slice_ok_def split: if_splits)
  then show ?thesis
    using r(1) s by (auto simp: select_belief_slice_def slice_ok_def)
qed

definition sample_slice_env :: slice_env where
  "sample_slice_env = \<lparr>sl_decay_hours = 24, sl_weight = 1 / 5, sl_number = (\<lambda>_. []), sl_json_size = (\<lambda>_. 2)\<rparr>"

theorem slice_bounded_witness:
  "\<exists>x fs e'. so_max_facts x = 2 \<and> so_max_chars x = 300 \<and> select_belief_slice sample_slice_env 5 x sample_engine = Some (fs, e') \<and>
     length fs \<le> 2 \<and> (slice_size sample_slice_env fs \<le> 300 \<or> budget_spent sample_slice_env 300 fs)"
proof -
  let ?x = "\<lparr>so_format = [], so_max_facts = 2, so_max_chars = 300, so_strategy = ''ranked'', so_query = [],
    so_dependencies = True, so_invalid = False\<rparr>"
  have "wf_engine sample_engine" "loadable sample_engine" using any_history_inv [OF sample_any_history] by simp_all
  from slice_bounded [OF this, of sample_slice_env 5 ?x] show ?thesis
    by (intro exI [of _ ?x]) auto
qed

end
