(* ===== verification/SessionCatalog.thy ===== *)
theory SessionCatalog
imports SessionReads Access
begin

text \<open>The handlers of api/console_contracts.go that create, rename and archive the sessions of an organization.\<close>

record session_request =
  sq_name :: string
  sq_description :: string

text \<open>
  billing is the codec of subscriptions, random the sixteen hexadecimal digits of the new session. A
  body that does not decode is taken as far as it went. The refusal names the plan of the
  subscription, which is a nil pointer for an organization that has none.
\<close>

definition existing_sessions :: "'db session_env \<Rightarrow> string \<Rightarrow> int \<Rightarrow> 'db \<Rightarrow> org_session_meta list" where
  "existing_sessions E oid limit d =
     fst (list_org_sessions (en_kv (se_env E)) (bx_meta (en_boot (se_env E))) oid [] limit d)"

definition subscription_of :: "'db session_env \<Rightarrow> billing_subscription codec \<Rightarrow> string \<Rightarrow> 'db \<Rightarrow> billing_subscription option" where
  "subscription_of E billing oid d =
     (case get_billing (en_kv (se_env E)) billing oid d of Inl _ \<Rightarrow> None | Inr b \<Rightarrow> Some b)"

definition over_session_limit :: "'db session_env \<Rightarrow> billing_subscription codec \<Rightarrow> string \<Rightarrow> 'db \<Rightarrow> bool" where
  "over_session_limit E billing oid d \<longleftrightarrow>
     (let max_sessions = fst (plan_limits (subscription_of E billing oid d))
      in max_sessions > 0 \<and> int (length (existing_sessions E oid (max_sessions + 1) d)) \<ge> max_sessions)"

definition handle_create_session ::
  "'db session_env \<Rightarrow> billing_subscription codec \<Rightarrow> string \<Rightarrow> int \<Rightarrow> string \<Rightarrow> session_request \<Rightarrow> 'db node \<Rightarrow>
     (string \<times> string \<times> string) reply \<times> 'db node" where
  "handle_create_session E billing random ns oid body n =
     (if over_session_limit E billing oid (node_db n)
      then (if subscription_of E billing oid (node_db n) = None then Crashed
            else Failed 402 ''session limit reached for your plan'', n)
      else (let sid = ''s_'' @ random; name = trim_space (sq_name body); desc = trim_space (sq_description body);
                K = en_kv (se_env E); M = bx_meta (en_boot (se_env E));
                config = \<lparr>cfg_schema = [], cfg_enforcement_mode = ''strict'', cfg_auto_retract = False\<rparr>;
                d1 = set_session_organization K sid oid (node_db n);
                d2 = or_same d1 (upsert_org_session_index K M oid sid (millis ns) d1);
                d3 = (if name \<noteq> [] \<or> desc \<noteq> [] then or_same d2 (patch_org_session_meta K M oid sid name desc d2) else d2);
                d4 = count_metric E ns oid ''sessions_created'' d3
            in (Done 201 (sid, name, desc),
                on_db (\<lambda>_. save_documents E ns [session_search_document oid sid (Some config) (millis ns)] d4) n)))"

record session_patch =
  sp_name :: "string option"
  sp_description :: "string option"

text \<open>The present values are looked for among the first sessions of the list.\<close>

definition current_meta :: "'db session_env \<Rightarrow> string \<Rightarrow> string \<Rightarrow> 'db \<Rightarrow> org_session_meta" where
  "current_meta E oid sid d =
     (case find (\<lambda>m. osm_id m = sid) (existing_sessions E oid 200 d) of None \<Rightarrow> blank_meta | Some m \<Rightarrow> m)"

definition handle_patch_session ::
  "'db session_env \<Rightarrow> string \<Rightarrow> string \<Rightarrow> session_patch option \<Rightarrow> 'db node \<Rightarrow> (string \<times> string \<times> string) reply \<times> 'db node" where
  "handle_patch_session E sid oid body n =
     (if sid = [] then (Failed 400 ''missing session id'', n)
      else if \<not> owned (se_env E) sid oid (node_db n) then (Failed 404 ''not found'', n)
      else (case body of
         None \<Rightarrow> (Failed 400 ''invalid request'', n)
       | Some b \<Rightarrow>
           (let m = current_meta E oid sid (node_db n);
                name = (case sp_name b of None \<Rightarrow> osm_name m | Some v \<Rightarrow> trim_space v);
                desc = (case sp_description b of None \<Rightarrow> osm_description m | Some v \<Rightarrow> trim_space v)
            in case patch_org_session_meta (en_kv (se_env E)) (bx_meta (en_boot (se_env E))) oid sid name desc (node_db n) of
                 Inl _ \<Rightarrow> (Failed 500 ''failed to update session'', n)
               | Inr d \<Rightarrow> (Done 200 (sid, name, desc), on_db (\<lambda>_. d) n))))"

text \<open>The caches are emptied of the session; of the slices only the one whose key is the session itself.\<close>

definition forget_session :: "string \<Rightarrow> 'db server \<Rightarrow> 'db server" where
  "forget_session sid s =
     s\<lparr>sv_engines := AList.delete sid (sv_engines s), sv_configs := AList.delete sid (sv_configs s),
       sv_versions := AList.delete sid (sv_versions s), sv_last_access := AList.delete sid (sv_last_access s)\<rparr>"

definition handle_delete_session ::
  "'db session_env \<Rightarrow> int \<Rightarrow> string \<Rightarrow> string \<Rightarrow> string \<Rightarrow> 'db node \<Rightarrow> string reply \<times> 'db node" where
  "handle_delete_session E ns sid oid actor n =
     (if sid = [] then (Failed 400 ''missing session id'', n)
      else if \<not> owned (se_env E) sid oid (node_db n) then (Failed 404 ''not found'', n)
      else (case delete_org_session (en_kv (se_env E)) (bx_meta (en_boot (se_env E))) oid sid (node_db n) of
         Inl _ \<Rightarrow> (Failed 500 ''failed to archive session'', n)
       | Inr d \<Rightarrow>
           (let n1 = on_db (\<lambda>_. d) n;
                n2 = n1\<lparr>nd_server := forget_session sid (nd_server n1), nd_slices := AList.delete sid (nd_slices n1)\<rparr>;
                en = (blank_entry ''admin_action'' sid)\<lparr>je_actor := actor, je_timestamp := millis ns,
                  je_payload := Some [(''action'', GStr ''session_archived''), (''session_id'', GStr sid)]\<rparr>
            in (Done 200 sid, on_db (log_activity E ns oid en) n2))))"

end
