(* ===== verification/CatalogProperties.thy ===== *)
theory CatalogProperties
imports SessionCatalog SessionSamples
begin

text \<open>How many sessions an organization may create.\<close>

definition live_sessions :: "'db session_env \<Rightarrow> string \<Rightarrow> 'db \<Rightarrow> org_session_meta list" where
  "live_sessions E oid d =
     filter (\<lambda>m. osm_id m \<noteq> [] \<and> \<not> osm_archived m)
       (decoded (bx_meta (en_boot (se_env E))) (scan_prefix (en_kv (se_env E)) d (''org:'' @ oid @ '':sessions:'')))"

definition paid_plan :: "billing_subscription option \<Rightarrow> bool" where
  "paid_plan so \<longleftrightarrow> (case so of None \<Rightarrow> False | Some b \<Rightarrow> to_lower (trim_space (bill_plan b)) \<in> {''pro'', ''enterprise''})"

lemma length_existing:
  "length (existing_sessions E oid limit d) = min (page_limit 200 50 limit) (length (live_sessions E oid d))"
  by (simp add: existing_sessions_def list_org_sessions_def session_page_def Let_def live_sessions_def sort_desc_def)

text \<open>The limit of 500 of the plan pro is compared with a page of 50 sessions, so it never holds.\<close>

lemma over_session_limit_iff:
  "over_session_limit E billing oid d \<longleftrightarrow>
     \<not> paid_plan (subscription_of E billing oid d) \<and> 50 \<le> length (live_sessions E oid d)"
proof -
  have p: "page_limit 200 50 51 = 51" "page_limit 200 50 501 = 50" by (simp_all add: page_limit_def)
  show ?thesis
    by (cases "subscription_of E billing oid d")
      (auto simp: over_session_limit_def plan_limits_def Let_def length_existing p paid_plan_def)
qed

text \<open>
  A session is refused exactly when the organization is on no paid plan and has fifty live
  sessions; the limit of 500 of the plan pro is never enforced. The refusal is 402 and changes
  nothing, but for an organization without a record of its subscription the handler panics instead.
\<close>

theorem session_limit_exact:
  "handle_create_session E billing random ns oid body n =
     (if \<not> paid_plan (subscription_of E billing oid (node_db n)) \<and> 50 \<le> length (live_sessions E oid (node_db n))
      then (if subscription_of E billing oid (node_db n) = None then Crashed
            else Failed 402 ''session limit reached for your plan'', n)
      else (Done 201 (''s_'' @ random, trim_space (sq_name body), trim_space (sq_description body)),
            snd (handle_create_session E billing random ns oid body n)))"
  by (simp add: handle_create_session_def over_session_limit_iff Let_def)

end
