(* ===== verification/UpkeepProperties.thy ===== *)
theory UpkeepProperties
imports SessionSurvival
begin

text \<open>What a session is rebuilt from after a snapshot, and what an expired fact leaves in the log.\<close>

section \<open>Snapshots\<close>

text \<open>
  C40: After the background task took a snapshot of an engine at the time now, the session is rebuilt
  from that engine and the entries of the log later than now, and from nothing else. The engine is
  the one the request left that asked for the snapshot, so an entry that another request added
  between the two is in neither and is lost.
\<close>

theorem snapshot_replaces_log:
  assumes "kv_laws (session_kv E)" "wf_engine e" "loadable e" "0 < now" "sid \<noteq> []"
    and "gob (payload_of e) = Some b" "bx_gob (en_boot (se_env E)) b = Some (payload_of e)"
    and "to_snapshot gob now e = Some sn" "encode (bx_snapshot (en_boot (se_env E))) sn = Some v"
    and "decode (bx_snapshot (en_boot (se_env E))) v = Some sn"
    and "session_log E sid (node_db n) = (h, None)" "colon_free sid"
  shows "session_boot E later sid (node_db (take_snapshot E gob now (sid, asked, e) n)) =
    boot_entries later (filter (\<lambda>en. now < je_timestamp en) h) (restored e new_engine)"
proof -
  let ?K = "session_kv E" let ?X = "en_boot (se_env E)"
  let ?d = "bump_session_version ?K sid (kv_set ?K (snapshot_key sid) v (node_db n))"
  have d: "node_db (take_snapshot E gob now (sid, asked, e) n) = ?d"
    using assms(8,9) by (simp add: take_snapshot_def Let_def save_snapshot_def put_json_def or_same_def)
  have get: "kv_get ?K ?d k = (if k = session_version_key sid then Some (put_uint64 (read_counter (kv_get ?K (node_db n) k) + 1))
      else if k = snapshot_key sid then Some v else kv_get ?K (node_db n) k)" for k
    using assms(1,5) by (simp add: bump_session_version_def snapshot_key_def session_version_key_def)
  have "from_snapshot (bx_gob ?X) (Some sn) new_engine = Inr (restored e new_engine)"
    using snapshot_restores [where gob_encode = gob and gob_decode = "bx_gob ?X", OF assms(2,3,6,7), of now new_engine] assms(8) by simp
  moreover have "sn_timestamp sn = now" using assms(6,8) by (auto simp: to_snapshot_def)
  moreover have "kv_get ?K ?d (snapshot_key sid) = Some v"
    by (simp add: get) (simp add: snapshot_key_def session_version_key_def)
  ultimately have sn: "boot_snapshot ?K ?X sid ?d = (restored e new_engine, now)"
    using assms(10) by (simp add: boot_snapshot_def get_latest_snapshot_def get_json_def)
  have "scan_prefix ?K ?d (history_prefix sid) = scan_prefix ?K (node_db n) (history_prefix sid)"
  proof (rule scan_frame [OF assms(1)])
    fix k assume "has_prefix k (history_prefix sid)"
    then have "k \<noteq> session_version_key sid" "k \<noteq> snapshot_key sid"
      by (auto simp: has_prefix_append history_prefix_def session_version_key_def snapshot_key_def)
    then show "kv_get ?K ?d k = kv_get ?K (node_db n) k" by (simp add: get)
  qed
  then have "session_log E sid ?d = (h, None)" using assms(11) by (simp add: get_session_history_def)
  then show ?thesis
    using assms(4) by (simp add: d boot_engine_def sn boot_history_def get_session_history_after_def)
qed

definition snapped :: snapshot where
  "snapped = \<lparr>sn_timestamp = 7, sn_mutation_count = 0, sn_data = [1], sn_checksum = crc32 [1]\<rparr>"

definition snapping_env :: "((string \<times> string) list) session_env" where
  "snapping_env = (let E = asserting_env in E\<lparr>se_env := (se_env E)\<lparr>en_boot := (en_boot (se_env E))
     \<lparr>bx_snapshot := \<lparr>encode = (\<lambda>_. Some ''sn''), decode = (\<lambda>_. Some snapped), residue = (\<lambda>_. snapped)\<rparr>,
      bx_gob := (\<lambda>_. Some (payload_of new_engine))\<rparr>\<rparr>\<rparr>)"

definition snapping_node :: "((string \<times> string) list) node" where
  "snapping_node = on_db (AList.update (history_key ''s'' 5000000) ''e'') request_node"

lemma snapping_log: "session_log snapping_env ''s'' (node_db snapping_node) = ([json_entry sample_log_entry], None)"
proof -
  have "session_org_key ''s'' \<noteq> history_key ''s'' 5000000"
    by (simp add: session_org_key_def history_key_def)
  then have "scan_prefix assoc_kv (node_db snapping_node) (history_prefix ''s'') = [] @ [(history_key ''s'' 5000000, ''e'')]"
    using asserting_scan [of "null_codec (blank_entry [] [])"] keys_other(1) [OF asserting_ready(3) asserting_ready(3), of 5000000]
    by (subst scan_set_last [OF assoc_kv_laws, where d = "node_db request_node"])
      (auto simp: snapping_node_def request_env_def assoc_kv_def)
  then have "scan_prefix (session_kv snapping_env) (node_db snapping_node) (history_prefix ''s'') = [(history_key ''s'' 5000000, ''e'')]"
    by (simp add: snapping_env_def request_env_def Let_def)
  then show ?thesis
    by (simp add: get_session_history_def snapping_env_def request_env_def null_codecs_def one_entry_def Let_def)
qed

text \<open>The fact asserted at 5, after a snapshot of an older engine at 7.\<close>

theorem snapshot_replaces_log_witness:
  "session_boot snapping_env 9 ''s'' (node_db (take_snapshot snapping_env (\<lambda>_. Some [1]) 7 (''s'', 4, new_engine) snapping_node)) =
     Some (restored new_engine new_engine)"
proof -
  have "session_boot snapping_env 9 ''s'' (node_db (take_snapshot snapping_env (\<lambda>_. Some [1]) 7 (''s'', 4, new_engine) snapping_node)) =
     boot_entries 9 (filter (\<lambda>en. 7 < je_timestamp en) [json_entry sample_log_entry]) (restored new_engine new_engine)"
  proof (rule snapshot_replaces_log [where sn = snapped and b = "[1]" and v = "''sn''"])
    show "kv_laws (session_kv snapping_env)" by (simp add: snapping_env_def request_env_def assoc_kv_laws Let_def)
    show "to_snapshot (\<lambda>_. Some [1]) 7 new_engine = Some snapped"
      by (simp add: to_snapshot_def snapped_def new_engine_def)
    show "session_log snapping_env ''s'' (node_db snapping_node) = ([json_entry sample_log_entry], None)" by (rule snapping_log)
  qed (simp_all add: new_engine_structure asserting_ready(3) snapping_env_def Let_def)
  then show ?thesis by (simp add: json_entry_def sample_log_entry_def)
qed

end
