(* ===== verification/Extracted.thy ===== *)
theory Extracted
imports EngineOps Consistency
begin

text \<open>
  Package extractor, what its pipelines share: the extracted fact and its conversion to a fact of
  the engine (extractor.go), the string utilities, the order of a dependency graph and the check of
  a graph in an engine of its own (pipeline.go).
\<close>

section \<open>Extracted facts\<close>

record extracted_fact =
  ef_id :: string
  ef_claim :: string
  ef_claim_key :: string
  ef_claim_value :: string
  ef_subject :: string
  ef_predicate :: string
  ef_object :: string
  ef_polarity :: string
  ef_is_root :: bool
  ef_depends_on :: "string list"
  ef_source_type :: string
  ef_confidence :: real
  ef_assertion_kind :: string

text \<open>A composite literal of core.Fact: the fields it does not name are zero.\<close>

definition empty_core_fact :: "string \<Rightarrow> fact" where
  "empty_core_fact k =
     \<lparr>fact_id = k, payload = None, metadata = None, embedding = [], is_root = False, manual_status = 0,
      entrenchment = 0, review_status = [], review_reason = [], reviewed_at = 0, valid_until = 0,
      asserted_at = 0, assertion_kind = [], derived_status = 0, resolved_status = 0,
      valid_justification_count = 0, justification_sets = None, validation_errors = [], idom = [],
      pre_order = 0, post_order = 0\<rparr>"

definition claim_metadata :: "extracted_fact \<Rightarrow> (string \<times> gval) list" where
  "claim_metadata x =
     [(''claim_key'', GStr (ef_claim_key x)), (''claim_value'', GStr (ef_claim_value x)),
      (''subject'', GStr (ef_subject x)), (''predicate'', GStr (ef_predicate x)), (''object'', GStr (ef_object x)),
      (''polarity'', GStr (if ef_polarity x = [] then ''positive'' else ef_polarity x))]"

definition single_sets :: "string list \<Rightarrow> string list list option" where
  "single_sets ds = (if ds = [] then None else Some (map (\<lambda>d. [d]) ds))"

definition to_core_fact :: "extracted_fact \<Rightarrow> fact" where
  "to_core_fact x =
     (let kind = trim_space (ef_assertion_kind x);
          src = ef_source_type x;
          f = (empty_core_fact (ef_id x))
            \<lparr>is_root := ef_is_root x,
             assertion_kind := (if kind = [] then AssertionKindEmpirical else kind),
             payload := Some ((''claim'', GStr (ef_claim x)) # claim_metadata x @
               (if src = [] then [(''source_type'', GStr ''llm_output'')] else [])),
             metadata := Some ((''source_type'', GStr (if src = [] then ''llm_output'' else src)) # claim_metadata x)\<rparr>;
          deps = filter (\<lambda>d. d \<noteq> []) (map trim_space (ef_depends_on x))
      in if ef_is_root x then f\<lparr>manual_status := (if ef_confidence x \<le> 0 then 3 / 4 else ef_confidence x)\<rparr>
         else if deps = []
         then f\<lparr>is_root := True, manual_status := (if ef_confidence x \<le> 0 then 7 / 10 else ef_confidence x)\<rparr>
         else f\<lparr>justification_sets := single_sets deps\<rparr>)"

section \<open>Strings\<close>

fun first_non_empty :: "string list \<Rightarrow> string" where
  "first_non_empty [] = []"
| "first_non_empty (v # vs) = (if trim_space v \<noteq> [] then trim_space v else first_non_empty vs)"

definition clamp01 :: "real \<Rightarrow> real \<Rightarrow> real" where
  "clamp01 v fallback = (if v \<le> 0 \<or> v > 1 then fallback else v)"

definition normalize_assertion_kind :: "string \<Rightarrow> string" where
  "normalize_assertion_kind kind =
     (let k = to_lower (trim_space kind)
      in if k \<in> {AssertionKindEmpirical, AssertionKindUncertain, AssertionKindHypothetical, AssertionKindFictional}
         then k else [])"

definition assertion_kind_hint :: "string \<Rightarrow> string" where
  "assertion_kind_hint text =
     (let lt = to_lower text; has = str_contains lt
      in if has ''fiction'' \<or> has ''fictional'' \<or> has ''story'' \<or> has ''narrative'' then AssertionKindFictional
         else if has ''hypothetical'' \<or> has ''conditional'' \<or> has ''suppose'' \<or> has ''assume'' \<or> has ''if ''
         then AssertionKindHypothetical else [])"

definition slug_char :: "char \<Rightarrow> bool" where
  "slug_char c \<longleftrightarrow> is_digit c \<or> (97 \<le> char_code c \<and> char_code c \<le> 122)"

text \<open>Each run of other characters becomes one dash.\<close>

fun dashed :: "bool \<Rightarrow> string \<Rightarrow> string" where
  "dashed inside [] = []"
| "dashed inside (c # s) =
     (if slug_char c then c # dashed False s
      else if inside then dashed True s else CHR ''-'' # dashed True s)"

definition trim_char :: "char \<Rightarrow> string \<Rightarrow> string" where
  "trim_char c s = rev (dropWhile (\<lambda>x. x = c) (rev (dropWhile (\<lambda>x. x = c) s)))"

definition slugify :: "string \<Rightarrow> string" where
  "slugify s = trim_char CHR ''-'' (dashed False (to_lower (trim_space s)))"

definition numbered_slug :: "string \<Rightarrow> nat \<Rightarrow> string" where
  "numbered_slug base i = base @ ''-'' @ show_nat i"

text \<open>seen is the set of the identifiers in use, as a list.\<close>

function free_slug :: "string \<Rightarrow> string list \<Rightarrow> nat \<Rightarrow> string" where
  "free_slug base seen i =
     (if i \<ge> 10000 then numbered_slug base (card (set seen) + 1)
      else if numbered_slug base i \<notin> set seen then numbered_slug base i
      else free_slug base seen (Suc i))"
  by auto
termination by (relation "measure (\<lambda>(b, s, i). 10000 - i)") auto

declare free_slug.simps [simp del]

definition unique_slug :: "string \<Rightarrow> string list \<Rightarrow> string" where
  "unique_slug base seen = (if base \<notin> set seen then base else free_slug base seen 2)"

fun trimmed_from :: "string list \<Rightarrow> string list \<Rightarrow> string list" where
  "trimmed_from seen [] = []"
| "trimmed_from seen (v # vs) =
     (let t = trim_space v
      in if t = [] \<or> t \<in> set seen then trimmed_from seen vs else t # trimmed_from (t # seen) vs)"

definition unique_trimmed :: "string list \<Rightarrow> string list" where
  "unique_trimmed vs = trimmed_from [] vs"

definition stop_words :: "string list" where
  "stop_words = [''the'', ''and'', ''or'', ''but'', ''for'', ''with'', ''from'', ''that'', ''this'', ''was'', ''were'',
     ''are'', ''is'', ''in'', ''on'', ''at'', ''to'', ''of'', ''a'', ''an'']"

definition token_set :: "string \<Rightarrow> string list" where
  "token_set s =
     filter (\<lambda>p. length p > 2 \<and> p \<notin> set stop_words)
       (fields_from [] (map (\<lambda>c. if is_letter c \<or> is_digit c then c else CHR '' '') (to_lower s)))"

text \<open>
  The sentence splitter: the characters read so far, latest first, the sentence read so far, and
  the rest of the text.
\<close>

definition abbreviated :: "string \<Rightarrow> bool" where
  "abbreviated hist =
     (let window = to_lower (rev (take 7 hist))
      in list_ex (str_contains window) [''e.g.'', ''i.e.'', ''dr.'', ''mr.'', ''ms.''])"

definition nonblank :: "string \<Rightarrow> string list" where
  "nonblank s = (let t = trim_space s in if t \<noteq> [] then [t] else [])"

fun split_from :: "string \<Rightarrow> string \<Rightarrow> string \<Rightarrow> string list" where
  "split_from hist buf [] = nonblank buf"
| "split_from hist buf (c # cs) =
     (let hist1 = c # hist; buf1 = buf @ [c]
      in if c \<in> {CHR ''.'', CHR ''!'', CHR ''?''}
         then (if \<not> abbreviated hist1 \<and> (cs = [] \<or> is_space (hd cs))
               then nonblank buf1 @ split_from hist1 [] cs
               else split_from hist1 buf1 cs)
         else if char_code c = 10 \<and> map char_code (take 2 (rev buf1)) = [10, 10]
         then nonblank buf1 @ split_from hist1 [] cs
         else split_from hist1 buf1 cs)"

definition split_sentences :: "string \<Rightarrow> string list" where
  "split_sentences text = (let t = trim_space text in if t = [] then [] else split_from [] [] t)"

section \<open>The order of a dependency graph\<close>

text \<open>
  A graph is the map from each identifier to its parents. The counters of the loop are Go's map
  inDegree, and children gives each identifier the slice of its children, in the order in which the
  loop over the graph met them.
\<close>

type_synonym parent_map = "(string \<times> string list) list"

definition children_in :: "parent_map \<Rightarrow> string \<Rightarrow> string list" where
  "children_in ps p = map fst (filter (\<lambda>(c, qs). p \<in> set (unique_trimmed qs)) ps)"

definition in_degrees :: "parent_map \<Rightarrow> (string \<times> int) list" where
  "in_degrees ps = map (\<lambda>(c, qs). (c, int (length (unique_trimmed qs)))) ps"

fun release :: "string list \<Rightarrow> (string \<times> int) list \<Rightarrow> string list \<Rightarrow> (string \<times> int) list \<times> string list" where
  "release [] deg q = (deg, q)"
| "release (c # cs) deg q =
     (let d = (case map_of deg c of None \<Rightarrow> 0 | Some d \<Rightarrow> d) - 1
      in release cs (AList.update c d deg) (if d = 0 then q @ [c] else q))"

definition waiting :: "(string \<times> int) list \<Rightarrow> string set" where
  "waiting deg = {k. \<exists>d. map_of deg k = Some d \<and> 0 < d}"

lemma finite_waiting [simp]: "finite (waiting deg)"
proof (rule finite_subset)
  show "waiting deg \<subseteq> fst ` set deg" by (auto simp: waiting_def dest!: map_of_SomeD intro: rev_image_eqI)
qed simp

lemma release_measure:
  "release cs deg q = (deg', q') \<Longrightarrow> card (waiting deg') + length q' \<le> card (waiting deg) + length q"
proof (induction cs deg q rule: release.induct)
  case (2 c cs deg q)
  let ?d = "(case map_of deg c of None \<Rightarrow> 0 | Some d \<Rightarrow> d) - 1"
  let ?deg = "AList.update c ?d deg" and ?q = "if ?d = 0 then q @ [c] else q"
  have sub: "waiting ?deg \<subseteq> waiting deg"
    by (auto simp: waiting_def update_conv' split: if_splits option.splits)
  have "card (waiting ?deg) + length ?q \<le> card (waiting deg) + length q"
  proof (cases "?d = 0")
    case True
    then have "c \<in> waiting deg" "c \<notin> waiting ?deg"
      by (auto simp: waiting_def update_conv' split: option.splits)
    then have "waiting ?deg \<subset> waiting deg" using sub by blast
    then have "card (waiting ?deg) < card (waiting deg)" by (rule psubset_card_mono [OF finite_waiting])
    then show ?thesis using True by simp
  next
    case False
    then show ?thesis using card_mono [OF finite_waiting sub] by simp
  qed
  moreover have "card (waiting deg') + length q' \<le> card (waiting ?deg) + length ?q"
    using 2 by (simp add: Let_def)
  ultimately show ?case by linarith
qed simp

function drain :: "parent_map \<Rightarrow> (string \<times> int) list \<Rightarrow> string list \<Rightarrow> string list \<times> (string \<times> int) list" where
  "drain ps deg [] = ([], deg)"
| "drain ps deg (i # q) =
     (let (deg1, q1) = release (children_in ps i) deg q; (order, deg2) = drain ps deg1 (sort q1)
      in (i # order, deg2))"
  by pat_completeness auto
termination
proof (relation "measure (\<lambda>(ps, deg, q). card (waiting deg) + length q)", goal_cases)
  case (2 ps deg i q x deg1 q1)
  from release_measure [of "children_in ps i" deg q deg1 q1] 2 show ?case by simp
qed simp

definition topo_order_from_parents :: "parent_map \<Rightarrow> string + string list" where
  "topo_order_from_parents ps =
     (let deg = in_degrees ps;
          (order, deg1) = drain ps deg (sort (map fst (filter (\<lambda>(k, d). d = 0) deg)))
      in if length order \<noteq> length deg1 then Inl ''cycle detected in dependency graph'' else Inr order)"

end
