(* ===== verification/ExtractedOrder.thy ===== *)
theory ExtractedOrder
imports Extracted
begin

text \<open>
  The order of a dependency graph: topoOrderFromParents gives an order in which every fact comes
  after its parents, and refuses exactly the graphs that have none.
\<close>

section \<open>Parents\<close>

lemma set_trimmed_from: "set (trimmed_from seen vs) = {t \<in> trim_space ` set vs. t \<noteq> []} - set seen"
  by (induction seen vs rule: trimmed_from.induct) (auto simp: Let_def)

lemma distinct_trimmed_from: "distinct (trimmed_from seen vs)"
  by (induction seen vs rule: trimmed_from.induct) (auto simp: Let_def set_trimmed_from)

lemma set_unique_trimmed: "set (unique_trimmed vs) = {t \<in> trim_space ` set vs. t \<noteq> []}"
  by (simp add: unique_trimmed_def set_trimmed_from)

lemma distinct_unique_trimmed [simp]: "distinct (unique_trimmed vs)"
  by (simp add: unique_trimmed_def distinct_trimmed_from)

definition parents_in :: "parent_map \<Rightarrow> string \<Rightarrow> string set" where
  "parents_in ps c = (case map_of ps c of None \<Rightarrow> {} | Some qs \<Rightarrow> set (unique_trimmed qs))"

definition parent_edges :: "parent_map \<Rightarrow> (string \<times> string) set" where
  "parent_edges ps = {(p, c). p \<in> parents_in ps c}"

definition topological :: "parent_map \<Rightarrow> string list \<Rightarrow> bool" where
  "topological ps xs \<longleftrightarrow> (\<forall>i < length xs. parents_in ps (xs ! i) \<subseteq> set (take i xs))"

lemma topological_Nil [simp]: "topological ps []"
  by (simp add: topological_def)

lemma topological_snoc: "topological ps (xs @ [x]) \<longleftrightarrow> topological ps xs \<and> parents_in ps x \<subseteq> set xs"
  by (auto simp: topological_def nth_append less_Suc_eq)

lemma parents_in_finite [simp]: "finite (parents_in ps c)"
  by (simp add: parents_in_def split: option.split)

lemma parents_in_key: "p \<in> parents_in ps c \<Longrightarrow> c \<in> fst ` set ps"
  by (auto simp: parents_in_def dest!: map_of_SomeD intro: rev_image_eqI split: option.splits)

lemma set_children_in: "distinct (map fst ps) \<Longrightarrow> set (children_in ps p) = {c. p \<in> parents_in ps c}"
proof (intro set_eqI iffI)
  fix c assume d: "distinct (map fst ps)" and "c \<in> set (children_in ps p)"
  then obtain qs where "(c, qs) \<in> set ps" "p \<in> set (unique_trimmed qs)" by (auto simp: children_in_def)
  then show "c \<in> {c. p \<in> parents_in ps c}" using map_of_is_SomeI [OF d] by (simp add: parents_in_def)
next
  fix c assume "c \<in> {c. p \<in> parents_in ps c}"
  then obtain qs where "map_of ps c = Some qs" "p \<in> set (unique_trimmed qs)"
    by (auto simp: parents_in_def split: option.splits)
  then show "c \<in> set (children_in ps p)" by (force simp: children_in_def dest: map_of_SomeD)
qed

lemma distinct_children_in: "distinct (map fst ps) \<Longrightarrow> distinct (children_in ps p)"
  by (simp add: children_in_def distinct_map_filter)

lemma degree_at: "map_of (in_degrees ps) c = map_option (\<lambda>qs. int (length (unique_trimmed qs))) (map_of ps c)"
  by (induction ps) (auto simp: in_degrees_def)

section \<open>One round\<close>

lemma update_keys: "k \<in> fst ` set al \<Longrightarrow> map fst (AList.update k v al) = map fst al"
  by (induction al) auto

lemma release_spec:
  assumes "release cs deg q = (deg', q')" "distinct cs" "set cs \<subseteq> fst ` set deg"
  shows "map fst deg' = map fst deg \<and>
    (\<forall>k. map_of deg' k = (if k \<in> set cs then map_option (\<lambda>d. d - 1) (map_of deg k) else map_of deg k)) \<and>
    q' = q @ filter (\<lambda>c. map_of deg c = Some 1) cs"
  using assms
proof (induction cs deg q arbitrary: deg' q' rule: release.induct)
  case (2 c cs deg q)
  obtain d where d: "map_of deg c = Some d" using 2(4) by (metis insert_subset list.simps(15) map_of_eq_None_iff not_Some_eq)
  let ?deg = "AList.update c (d - 1) deg" and ?q = "if d - 1 = 0 then q @ [c] else q"
  have keys: "map fst ?deg = map fst deg" by (rule update_keys) (use 2(4) in simp)
  then have "set cs \<subseteq> fst ` set ?deg" using 2(4) by (metis insert_subset list.set_map list.simps(15))
  moreover have "release cs ?deg ?q = (deg', q')" using 2(2) d by simp
  ultimately have ih: "map fst deg' = map fst ?deg"
    "\<And>k. map_of deg' k = (if k \<in> set cs then map_option (\<lambda>d. d - 1) (map_of ?deg k) else map_of ?deg k)"
    "q' = ?q @ filter (\<lambda>c. map_of ?deg c = Some 1) cs"
    using 2(1) [of "d - 1"] 2(3) d by auto
  have "filter (\<lambda>x. map_of ?deg x = Some 1) cs = filter (\<lambda>x. map_of deg x = Some 1) cs"
    by (rule filter_cong) (use 2(3) in \<open>auto simp: update_conv'\<close>)
  then show ?case using ih keys d 2(3) by (auto simp: update_conv')
qed simp

text \<open>
  What holds before each round: the counter of a fact is the number of its parents that are not in
  the order yet, and the queue has the facts outside the order without any.
\<close>

definition drained :: "parent_map \<Rightarrow> string list \<Rightarrow> (string \<times> int) list \<Rightarrow> string list \<Rightarrow> bool" where
  "drained ps out deg q \<longleftrightarrow>
     map fst deg = map fst ps \<and> topological ps out \<and> distinct (out @ q) \<and> set out \<subseteq> fst ` set ps \<and>
     (\<forall>c \<in> fst ` set ps. map_of deg c = Some (int (card (parents_in ps c - set out)))) \<and>
     set q = {c \<in> fst ` set ps. c \<notin> set out \<and> parents_in ps c \<subseteq> set out}"

lemma drained_round:
  assumes "distinct (map fst ps)" "drained ps out deg (i # q)" "release (children_in ps i) deg q = (deg1, q1)"
  shows "drained ps (out @ [i]) deg1 (sort q1)"
proof -
  let ?C = "children_in ps i"
  have I: "map fst deg = map fst ps" "topological ps out" "distinct (out @ i # q)" "set out \<subseteq> fst ` set ps"
    "\<And>c. c \<in> fst ` set ps \<Longrightarrow> map_of deg c = Some (int (card (parents_in ps c - set out)))"
    "insert i (set q) = {c \<in> fst ` set ps. c \<notin> set out \<and> parents_in ps c \<subseteq> set out}"
    using assms(2) by (auto simp: drained_def)
  have i: "i \<in> fst ` set ps" "i \<notin> set out" "parents_in ps i \<subseteq> set out" using I(6) by auto
  have C: "set ?C = {c. i \<in> parents_in ps c}" "distinct ?C" using assms(1) by (auto simp: set_children_in distinct_children_in)
  then have "set ?C \<subseteq> fst ` set ps" using parents_in_key by blast
  then have sub: "set ?C \<subseteq> fst ` set deg" using I(1) by (metis list.set_map)
  note R = release_spec [OF assms(3) C(2) sub]
  have card: "card (parents_in ps c - set (out @ [i])) = card (parents_in ps c - set out) - (if c \<in> set ?C then 1 else 0)" for c
  proof (cases "c \<in> set ?C")
    case True
    then have "i \<in> parents_in ps c - set out" using C(1) i(2) by simp
    moreover have "parents_in ps c - set (out @ [i]) = (parents_in ps c - set out) - {i}" by auto
    ultimately show ?thesis using True by simp
  next
    case False
    then have "parents_in ps c - set (out @ [i]) = parents_in ps c - set out" using C(1) by auto
    then show ?thesis using False by simp
  qed
  have pos: "0 < card (parents_in ps c - set out)" if "c \<in> set ?C" for c
    using that C(1) i(2) by (auto simp: card_gt_0_iff)
  have deg1: "map_of deg1 c = Some (int (card (parents_in ps c - set (out @ [i]))))" if "c \<in> fst ` set ps" for c
    unfolding card using R I(5) [OF that] pos [of c] by (auto simp: of_nat_diff)
  have one: "map_of deg c = Some 1 \<longleftrightarrow> parents_in ps c \<subseteq> set (out @ [i])" if "c \<in> set ?C" for c
  proof -
    have "map_of deg c = Some (int (card (parents_in ps c - set out)))"
      using that \<open>set ?C \<subseteq> fst ` set ps\<close> I(5) by blast
    moreover have "card (parents_in ps c - set out) = 1 \<longleftrightarrow> card (parents_in ps c - set (out @ [i])) = 0"
      using card [of c] pos [OF that] that by auto
    ultimately show ?thesis by (auto simp: card_eq_0_iff)
  qed
  have loop: "i \<notin> set ?C" using C(1) i(2,3) by auto
  have "set q1 = {c \<in> fst ` set ps. c \<notin> set (out @ [i]) \<and> parents_in ps c \<subseteq> set (out @ [i])}"
  proof (intro set_eqI iffI)
    fix c assume "c \<in> set q1"
    then consider "c \<in> set q" | "c \<in> set ?C" "map_of deg c = Some 1" using R by auto
    then show "c \<in> {c \<in> fst ` set ps. c \<notin> set (out @ [i]) \<and> parents_in ps c \<subseteq> set (out @ [i])}"
    proof cases
      case 1
      then show ?thesis using I(3,6) by auto
    next
      case 2
      have "c \<notin> set out"
      proof
        assume "c \<in> set out"
        then obtain j where j: "j < length out" "c = out ! j" by (auto simp: in_set_conv_nth)
        then have "parents_in ps c \<subseteq> set out" using I(2) by (auto simp: topological_def dest: in_set_takeD)
        then show False using 2(1) C(1) i(2) by auto
      qed
      then show ?thesis using 2 one loop \<open>set ?C \<subseteq> fst ` set ps\<close> by auto
    qed
  next
    fix c assume c: "c \<in> {c \<in> fst ` set ps. c \<notin> set (out @ [i]) \<and> parents_in ps c \<subseteq> set (out @ [i])}"
    show "c \<in> set q1"
    proof (cases "i \<in> parents_in ps c")
      case True
      then show ?thesis using R one [of c] c C(1) by auto
    next
      case False
      then have "c \<in> insert i (set q)" unfolding I(6) using c by auto
      then show ?thesis using R c by auto
    qed
  qed
  moreover have "distinct q1"
  proof -
    have "set q \<inter> {c \<in> set ?C. map_of deg c = Some 1} = {}"
    proof -
      have "c \<notin> set ?C" if "c \<in> set q" for c using that I(6) C(1) i(2) by auto
      then show ?thesis by blast
    qed
    then show ?thesis using R I(3) C(2) by auto
  qed
  ultimately show ?thesis
    using R I deg1 i by (auto simp: drained_def topological_snoc)
qed

section \<open>The loop\<close>

lemma drain_spec:
  assumes "distinct (map fst ps)" "drained ps out deg q"
  shows "\<exists>order deg'. drain ps deg q = (order, deg') \<and> drained ps (out @ order) deg' []"
  using assms
proof (induction ps deg q arbitrary: out rule: drain.induct)
  case (2 ps deg i q)
  obtain deg1 q1 where r: "release (children_in ps i) deg q = (deg1, q1)" by fastforce
  from 2(1) [OF r [symmetric] refl 2(2) drained_round [OF 2(2,3) r]] obtain order deg'
    where "drain ps deg1 (sort q1) = (order, deg')" "drained ps ((out @ [i]) @ order) deg' []" by blast
  then show ?case using r by simp
qed simp

lemma drained_start:
  assumes "distinct (map fst ps)"
  shows "drained ps [] (in_degrees ps) (sort (map fst (filter (\<lambda>(k, d). d = 0) (in_degrees ps))))"
proof -
  have keys: "map fst (in_degrees ps) = map fst ps" by (simp add: in_degrees_def case_prod_unfold comp_def)
  have deg: "map_of (in_degrees ps) c = Some (int (card (parents_in ps c)))" if k: "c \<in> fst ` set ps" for c
  proof -
    obtain qs where qs: "map_of ps c = Some qs" using k map_of_eq_None_iff [of ps c] by (cases "map_of ps c") simp_all
    have "card (set (unique_trimmed qs)) = length (unique_trimmed qs)" by (rule distinct_card) simp
    then show ?thesis using qs by (simp only: degree_at parents_in_def option.case option.map)
  qed
  have zero: "(c, 0) \<in> set (in_degrees ps) \<longleftrightarrow> c \<in> fst ` set ps \<and> parents_in ps c = {}" for c
  proof -
    have "(c, 0) \<in> set (in_degrees ps) \<longleftrightarrow> map_of (in_degrees ps) c = Some 0"
      using keys assms by simp
    also have "\<dots> \<longleftrightarrow> c \<in> fst ` set ps \<and> parents_in ps c = {}"
    proof (cases "c \<in> fst ` set ps")
      case True
      then show ?thesis using deg by (simp add: card_eq_0_iff)
    next
      case False
      then have "map_of (in_degrees ps) c = None" by (metis keys list.set_map map_of_eq_None_iff)
      then show ?thesis using False by simp
    qed
    finally show ?thesis .
  qed
  have "distinct (map fst (filter (\<lambda>(k, d). d = 0) (in_degrees ps)))"
    using keys assms by (simp add: distinct_map_filter)
  moreover have "fst ` {x \<in> set (in_degrees ps). case x of (k, d) \<Rightarrow> d = 0} = {c \<in> fst ` set ps. parents_in ps c = {}}"
    using zero by (force simp: image_iff)
  ultimately show ?thesis using keys deg by (auto simp: drained_def)
qed

text \<open>
  A graph of distinct identifiers is ordered exactly when it is acyclic and names no identifier
  that is not one of its own.
\<close>

lemma topo_order_cases:
  assumes "distinct (map fst ps)"
  shows "(\<exists>order. topo_order_from_parents ps = Inr order \<and> distinct order \<and> set order = fst ` set ps \<and> topological ps order) \<or>
    (\<exists>msg. topo_order_from_parents ps = Inl msg \<and> \<not> (acyclic (parent_edges ps) \<and> Domain (parent_edges ps) \<subseteq> fst ` set ps))"
proof -
  obtain order deg where d: "drain ps (in_degrees ps) (sort (map fst (filter (\<lambda>(k, d). d = 0) (in_degrees ps)))) = (order, deg)"
    "drained ps order deg []"
    using drain_spec [OF assms drained_start [OF assms]] by auto
  have D: "map fst deg = map fst ps" "topological ps order" "distinct order" "set order \<subseteq> fst ` set ps"
    "\<And>c. c \<in> fst ` set ps \<Longrightarrow> parents_in ps c \<subseteq> set order \<Longrightarrow> c \<in> set order"
    using d(2) by (auto simp: drained_def)
  have len: "length deg = card (fst ` set ps)"
    using arg_cong [OF D(1), of length] distinct_card [OF assms] by simp
  have eq: "topo_order_from_parents ps =
      (if length order \<noteq> length deg then Inl ''cycle detected in dependency graph'' else Inr order)"
    by (simp add: topo_order_from_parents_def Let_def d(1))
  show ?thesis
  proof (cases "set order = fst ` set ps")
    case True
    then have "length order = length deg" using len distinct_card [OF D(3)] by simp
    then show ?thesis using eq D True by auto
  next
    case False
    then have "length order \<noteq> length deg"
      using len D(4) distinct_card [OF D(3)] card_subset_eq [of "fst ` set ps" "set order"] by auto
    moreover have "\<not> (acyclic (parent_edges ps) \<and> Domain (parent_edges ps) \<subseteq> fst ` set ps)"
    proof
      assume a: "acyclic (parent_edges ps) \<and> Domain (parent_edges ps) \<subseteq> fst ` set ps"
      have "parent_edges ps \<subseteq> fst ` set ps \<times> fst ` set ps"
        using a parents_in_key by (auto simp: parent_edges_def)
      then have "finite (parent_edges ps)" by (rule finite_subset) simp
      then have "wf (parent_edges ps)" using a finite_acyclic_wf by blast
      moreover obtain x where "x \<in> fst ` set ps - set order" using False D(4) by auto
      ultimately obtain c where c: "c \<in> fst ` set ps - set order"
        "\<And>y. (y, c) \<in> parent_edges ps \<Longrightarrow> y \<notin> fst ` set ps - set order" by (metis wfE_min)
      then have "parents_in ps c \<subseteq> set order" using a by (auto simp: parent_edges_def)
      then show False using D(5) c(1) by blast
    qed
    ultimately show ?thesis using eq by auto
  qed
qed

lemma topological_acyclic:
  assumes "topological ps xs" "distinct xs" "fst ` set ps \<subseteq> set xs"
  shows "acyclic (parent_edges ps)" "Domain (parent_edges ps) \<subseteq> set xs"
proof -
  define pos where "pos x = (LEAST i. i < length xs \<and> xs ! i = x)" for x
  have pos: "pos (xs ! i) = i" if "i < length xs" for i
    unfolding pos_def using that assms(2) by (intro Least_equality) (auto simp: nth_eq_iff_index_eq)
  have edge: "p \<in> set xs \<and> pos p < pos c" if "(p, c) \<in> parent_edges ps" for p c
  proof -
    have p: "p \<in> parents_in ps c" using that by (simp add: parent_edges_def)
    then obtain i where i: "i < length xs" "c = xs ! i"
      using parents_in_key assms(3) by (metis in_set_conv_nth subsetD)
    then have "p \<in> set (take i xs)" using assms(1) p by (auto simp: topological_def)
    then obtain j where j: "j < i" "p = xs ! j" by (auto simp: in_set_conv_nth)
    then show ?thesis using i pos by simp
  qed
  then show "Domain (parent_edges ps) \<subseteq> set xs" by auto
  have "parent_edges ps \<subseteq> measure pos" using edge by (auto simp: measure_def inv_image_def)
  then show "acyclic (parent_edges ps)" using Wellfounded.wf_acyclic [OF wf_subset [OF wf_measure]] by blast
qed

end
