(* ===== verification/VLogic.thy ===== *)
theory VLogic
imports ExtractedOrder
begin

text \<open>
  extractor/vlogic.go: the parser of V-Logic scripts, and from extractor.go the order of its facts
  and their defaults. The regular expressions of the parser are matched by backtracking, leftmost
  first, as package regexp does: a matcher takes what follows as a continuation.
\<close>

section \<open>Matching\<close>

definition rx_space :: "char \<Rightarrow> bool" where
  "rx_space c \<longleftrightarrow> char_code c \<in> {9, 10, 12, 13, 32}"

definition rx_dot :: "char \<Rightarrow> bool" where
  "rx_dot c \<longleftrightarrow> char_code c \<noteq> 10"

definition rx_word :: "char \<Rightarrow> bool" where
  "rx_word c \<longleftrightarrow> is_letter c \<or> is_digit c \<or> c = CHR ''_''"

definition rx_id :: "char \<Rightarrow> bool" where
  "rx_id c \<longleftrightarrow> rx_word c \<or> c = CHR ''-''"

text \<open>The star of a class, greedy and lazy, with the text matched so far.\<close>

fun greedy :: "(char \<Rightarrow> bool) \<Rightarrow> string \<Rightarrow> (string \<Rightarrow> string \<Rightarrow> 'a option) \<Rightarrow> string \<Rightarrow> 'a option" where
  "greedy p acc k [] = k acc []"
| "greedy p acc k (c # s) =
     (if p c then (case greedy p (acc @ [c]) k s of Some r \<Rightarrow> Some r | None \<Rightarrow> k acc (c # s)) else k acc (c # s))"

fun lazily :: "(char \<Rightarrow> bool) \<Rightarrow> string \<Rightarrow> (string \<Rightarrow> string \<Rightarrow> 'a option) \<Rightarrow> string \<Rightarrow> 'a option" where
  "lazily p acc k [] = k acc []"
| "lazily p acc k (c # s) =
     (case k acc (c # s) of Some r \<Rightarrow> Some r | None \<Rightarrow> if p c then lazily p (acc @ [c]) k s else None)"

definition greedy1 :: "(char \<Rightarrow> bool) \<Rightarrow> (string \<Rightarrow> string \<Rightarrow> 'a option) \<Rightarrow> string \<Rightarrow> 'a option" where
  "greedy1 p k s = (case s of [] \<Rightarrow> None | c # t \<Rightarrow> if p c then greedy p [c] k t else None)"

definition spaces :: "(string \<Rightarrow> 'a option) \<Rightarrow> string \<Rightarrow> 'a option" where
  "spaces k s = greedy rx_space [] (\<lambda>_. k) s"

definition rx_char :: "char \<Rightarrow> (string \<Rightarrow> 'a option) \<Rightarrow> string \<Rightarrow> 'a option" where
  "rx_char x k s = (case s of [] \<Rightarrow> None | c # t \<Rightarrow> if c = x then k t else None)"

definition rx_fold :: "string \<Rightarrow> (string \<Rightarrow> 'a option) \<Rightarrow> string \<Rightarrow> 'a option" where
  "rx_fold w k s = (if to_lower (take (length w) s) = w then k (drop (length w) s) else None)"

text \<open>A word boundary between two characters, either of which may be missing.\<close>

definition word_boundary :: "char option \<Rightarrow> char option \<Rightarrow> bool" where
  "word_boundary a b \<longleftrightarrow> (case a of None \<Rightarrow> False | Some c \<Rightarrow> rx_word c) \<noteq> (case b of None \<Rightarrow> False | Some c \<Rightarrow> rx_word c)"

definition first_char :: "string \<Rightarrow> char option" where
  "first_char s = (case s of [] \<Rightarrow> None | c # t \<Rightarrow> Some c)"

fun find_match :: "(char option \<Rightarrow> string \<Rightarrow> 'a option) \<Rightarrow> char option \<Rightarrow> string \<Rightarrow> 'a option" where
  "find_match m prev [] = m prev []"
| "find_match m prev (c # s) = (case m prev (c # s) of Some r \<Rightarrow> Some r | None \<Rightarrow> find_match m (Some c) s)"

definition parenthesised :: "(string \<Rightarrow> string \<Rightarrow> 'a option) \<Rightarrow> string \<Rightarrow> 'a option" where
  "parenthesised k = spaces (rx_char CHR ''('' (lazily rx_dot [] (\<lambda>args. rx_char CHR '')'' (k args))))"

text \<open>The two statements: the keyword, the identifier, the claim, the optional arguments and the end.\<close>

definition statement :: "string \<Rightarrow> (string \<Rightarrow> bool) \<Rightarrow> string \<Rightarrow> (string \<times> string \<times> string) option" where
  "statement keyword ending =
     rx_fold keyword (greedy1 rx_space (\<lambda>_. greedy1 rx_id (\<lambda>i. spaces (rx_char CHR '':'' (spaces
       (rx_char CHR 0x22 (lazily rx_dot [] (\<lambda>claim. rx_char CHR 0x22 (\<lambda>rest.
          case parenthesised (\<lambda>args r. if ending r then Some (i, claim, args) else None) rest of
            Some x \<Rightarrow> Some x
          | None \<Rightarrow> if ending rest then Some (i, claim, []) else None)))))))))"

definition match_fact_line :: "string \<Rightarrow> (string \<times> string \<times> string) option" where
  "match_fact_line line = statement ''fact'' (\<lambda>r. r = []) line"

definition match_derive_line :: "string \<Rightarrow> (string \<times> string \<times> string) option" where
  "match_derive_line line = statement ''derive'' (list_all rx_dot) line"

definition match_clause :: "string \<Rightarrow> string \<Rightarrow> string option" where
  "match_clause keyword line = find_match (\<lambda>_. rx_fold keyword (parenthesised (\<lambda>args _. Some args))) None line"

definition match_number :: "char option \<Rightarrow> string \<Rightarrow> string option" where
  "match_number prev s =
     (if word_boundary prev (first_char s)
      then rx_fold ''confidence'' (spaces (rx_char CHR '':'' (spaces (greedy1 (\<lambda>c. is_digit c \<or> c = CHR ''.'')
        (\<lambda>num rest. if word_boundary (Some (last num)) (first_char rest) then Some num else None))))) s
      else None)"

fun match_word :: "string list \<Rightarrow> string \<Rightarrow> string option" where
  "match_word [] s = None"
| "match_word (w # ws) s =
     (case rx_fold w (\<lambda>r. if word_boundary (Some (last w)) (first_char r) then Some (take (length w) s) else None) s of
        Some x \<Rightarrow> Some x | None \<Rightarrow> match_word ws s)"

definition match_kind :: "char option \<Rightarrow> string \<Rightarrow> string option" where
  "match_kind prev s =
     (if word_boundary prev (first_char s)
      then rx_fold ''assertion_kind'' (spaces (rx_char CHR '':'' (spaces
        (match_word [AssertionKindEmpirical, AssertionKindUncertain, AssertionKindHypothetical, AssertionKindFictional])))) s
      else None)"

section \<open>Parsing\<close>

text \<open>pf is strconv.ParseFloat.\<close>

definition parse_vlogic_confidence :: "(string \<Rightarrow> real option) \<Rightarrow> string \<Rightarrow> real" where
  "parse_vlogic_confidence pf args =
     (case find_match match_number None args of None \<Rightarrow> 9 / 10
      | Some num \<Rightarrow> (case pf num of None \<Rightarrow> 9 / 10 | Some x \<Rightarrow> x))"

definition parse_vlogic_assertion_kind :: "string \<Rightarrow> string" where
  "parse_vlogic_assertion_kind args =
     (case find_match match_kind None args of None \<Rightarrow> AssertionKindEmpirical | Some k \<Rightarrow> to_lower (trim_space k))"

definition parse_comma_separated_list :: "string \<Rightarrow> string list" where
  "parse_comma_separated_list s = filter (\<lambda>p. p \<noteq> []) (map trim_space (split_at CHR '','' [] s))"

definition vlogic_fact :: "string \<Rightarrow> string \<Rightarrow> string \<Rightarrow> bool \<Rightarrow> real \<Rightarrow> string list \<Rightarrow> extracted_fact" where
  "vlogic_fact i claim args is_root_fact conf parents =
     \<lparr>ef_id = i, ef_claim = claim, ef_claim_key = [], ef_claim_value = [], ef_subject = [], ef_predicate = [],
      ef_object = [], ef_polarity = ''positive'', ef_is_root = is_root_fact, ef_depends_on = parents, ef_source_type = ''v-logic'',
      ef_confidence = conf, ef_assertion_kind = parse_vlogic_assertion_kind args\<rparr>"

definition derive_dependencies :: "string \<Rightarrow> string list" where
  "derive_dependencies line =
     (case match_clause ''requires'' line of None \<Rightarrow> [] | Some args \<Rightarrow> parse_comma_separated_list args) @
     (case match_clause ''rejects'' line of None \<Rightarrow> []
      | Some args \<Rightarrow> map (\<lambda>r. ''!'' @ r) (parse_comma_separated_list args))"

definition parse_vlogic_line :: "(string \<Rightarrow> real option) \<Rightarrow> string \<Rightarrow> extracted_fact option" where
  "parse_vlogic_line pf line =
     (case match_fact_line line of
        Some (i, claim, args) \<Rightarrow> Some (vlogic_fact i claim args True (parse_vlogic_confidence pf args) [])
      | None \<Rightarrow>
          (case match_derive_line line of
             Some (i, claim, args) \<Rightarrow> Some (vlogic_fact i claim args False (9 / 10) (derive_dependencies line))
           | None \<Rightarrow> None))"

definition at_line :: "nat \<Rightarrow> string \<Rightarrow> string" where
  "at_line n msg = ''line '' @ show_nat n @ '': '' @ msg"

fun parse_vlogic_lines ::
  "(string \<Rightarrow> real option) \<Rightarrow> nat \<Rightarrow> string list \<Rightarrow> string list \<Rightarrow> string + extracted_fact list" where
  "parse_vlogic_lines pf n seen [] = Inr []"
| "parse_vlogic_lines pf n seen (raw # rest) =
     (let line = trim_space raw
      in if line = [] \<or> has_prefix line ''//'' then parse_vlogic_lines pf (Suc n) seen rest
         else (case parse_vlogic_line pf line of
             None \<Rightarrow> Inl (at_line n (''syntax error: '' @ line))
           | Some x \<Rightarrow>
               if ef_id x \<in> set seen
               then Inl (at_line n (''duplicate ID '' @ [CHR 0x27] @ ef_id x @ [CHR 0x27]))
               else (case parse_vlogic_lines pf (Suc n) (ef_id x # seen) rest of
                       Inl msg \<Rightarrow> Inl msg | Inr xs \<Rightarrow> Inr (x # xs))))"

definition parse_vlogic :: "(string \<Rightarrow> real option) \<Rightarrow> string \<Rightarrow> string + extracted_fact list" where
  "parse_vlogic pf script = parse_vlogic_lines pf 1 [] (split_at (char_of (10 :: nat)) [] script)"

section \<open>The order of the facts of a script\<close>

text \<open>
  The depth-first search of topoSortVLogicFacts. path has the identifiers being visited (inStack);
  those visited before are the ones of the result so far.
\<close>

definition extracted_at :: "extracted_fact list \<Rightarrow> string \<Rightarrow> extracted_fact option" where
  "extracted_at xs k = map_of (rev (map (\<lambda>x. (ef_id x, x)) xs)) k"

lemma extracted_at_id: "extracted_at xs k = Some x \<Longrightarrow> ef_id x = k \<and> x \<in> set xs"
  by (auto simp: extracted_at_def dest!: map_of_SomeD)

lemma path_shrinks: "finite A \<Longrightarrow> i \<notin> set path \<Longrightarrow> card (A - set (i # path)) < card (insert i A - set path)"
  by (rule psubset_card_mono) auto

function (sequential)
  topo_visit :: "extracted_fact list \<Rightarrow> string list \<Rightarrow> extracted_fact \<Rightarrow> extracted_fact list \<times> string \<Rightarrow> extracted_fact list \<times> string"
  and topo_visits :: "extracted_fact list \<Rightarrow> string list \<Rightarrow> string list \<Rightarrow> extracted_fact list \<times> string \<Rightarrow> extracted_fact list \<times> string"
where
  "topo_visit xs path x (out, err) =
     (if err \<noteq> [] then (out, err)
      else if ef_id x \<in> set path then (out, ''Circular dependency detected involving '' @ ef_id x)
      else if ef_id x \<in> ef_id ` set out then (out, err)
      else (let (out1, err1) = topo_visits xs (ef_id x # path) (ef_depends_on x) (out, err) in (out1 @ [x], err1)))"
| "topo_visits xs path [] s = s"
| "topo_visits xs path (d # ds) s =
     topo_visits xs path ds
       (case extracted_at xs (trim_prefix d ''!'') of None \<Rightarrow> s | Some y \<Rightarrow> topo_visit xs path y s)"
  by pat_completeness auto
termination
proof (relation "measures [\<lambda>r. case r of Inl (xs, path, x, s) \<Rightarrow> card (insert (ef_id x) (ef_id ` set xs) - set path)
      | Inr (xs, path, ds, s) \<Rightarrow> card (ef_id ` set xs - set path), \<lambda>r. case r of Inl _ \<Rightarrow> 0 | Inr (xs, path, ds, s) \<Rightarrow> Suc (length ds)]",
    goal_cases)
  case (2 xs path x out err)
  then show ?case using path_shrinks [of "ef_id ` set xs" "ef_id x" path] by simp
next
  case (3 xs path d ds s y)
  then have "insert (ef_id y) (ef_id ` set xs) = ef_id ` set xs" using extracted_at_id by blast
  then show ?case by simp
qed auto

definition topo_sort_vlogic_facts :: "extracted_fact list \<Rightarrow> extracted_fact list \<times> string" where
  "topo_sort_vlogic_facts xs = fold (topo_visit xs []) xs ([], [])"

definition normalize_legacy_fact :: "nat \<Rightarrow> extracted_fact \<Rightarrow> extracted_fact" where
  "normalize_legacy_fact i x =
     x\<lparr>ef_id := (if ef_id x = [] then ''fact-'' @ show_nat i else ef_id x),
       ef_source_type := (if ef_source_type x = [] then ''v-logic'' else ef_source_type x),
       ef_polarity := (if ef_polarity x = [] then ''positive'' else ef_polarity x),
       ef_confidence := (if ef_confidence x \<le> 0 \<or> ef_confidence x > 1 then 3 / 4 else ef_confidence x),
       ef_assertion_kind := (if trim_space (ef_assertion_kind x) = [] then AssertionKindEmpirical else ef_assertion_kind x)\<rparr>"

definition normalize_legacy_facts :: "extracted_fact list \<Rightarrow> extracted_fact list" where
  "normalize_legacy_facts xs = map (\<lambda>(i, x). normalize_legacy_fact i x) (List.enumerate 0 xs)"

definition text_ends_with :: "string \<Rightarrow> string \<Rightarrow> bool" where
  "text_ends_with s p \<longleftrightarrow> has_prefix (rev s) (rev p)"

definition strip_markdown_fences :: "string \<Rightarrow> string" where
  "strip_markdown_fences s0 =
     (let s = trim_space s0;
          fence = replicate 3 (char_of (96 :: nat));
          s1 = (case find (has_prefix s) [fence @ ''vlogic'', fence @ ''text'', fence] of None \<Rightarrow> s | Some p \<Rightarrow> trim_prefix s p);
          s2 = (if text_ends_with s1 fence then take (length s1 - 3) s1 else s1)
      in trim_space s2)"

end
