(* ===== verification/Pipeline.thy ===== *)
theory Pipeline
imports VLogic
begin

text \<open>
  extractor/pipeline.go: the five stages that turn the answer of a language model into facts, and
  the single pass of extractor.go. The model is a parameter: a call has the state of the world, the
  name of the model and what the program puts into the prompt, and gives an answer or an error. So
  are the decoders of its answers, the answer of json.Unmarshal whether a text is valid, and the
  order in which concurrent calls take their turns.
\<close>

section \<open>Data\<close>

record extraction_config =
  xc_tier :: int
  xc_url :: string
  xc_selection :: bool
  xc_decontext :: bool
  xc_coverage :: bool
  xc_precheck :: bool
  xc_dependency_threshold :: real
  xc_decontext_threshold :: real
  xc_coverage_threshold :: real
  xc_concurrency :: int
  xc_selection_model :: string
  xc_extraction_model :: string

text \<open>The defaults read the environment, and a request overrides what it sets.\<close>

definition default_extraction_config :: "(string \<Rightarrow> string) \<Rightarrow> extraction_config" where
  "default_extraction_config getenv =
     (let m = trim_space (getenv ''VELARIX_EXTRACTOR_MODEL'');
          model = (if m = [] then ''gpt-4o-mini'' else m);
          tier = trim_space (getenv ''VELARIX_EXTRACTION_TIER'')
      in \<lparr>xc_tier = (if tier = ''2'' then 2 else if tier = ''3'' then 3 else 1), xc_url = [], xc_selection = True,
          xc_decontext = True, xc_coverage = True, xc_precheck = True, xc_dependency_threshold = 13 / 20,
          xc_decontext_threshold = 7 / 10, xc_coverage_threshold = 7 / 10, xc_concurrency = 10, xc_selection_model = model,
          xc_extraction_model = model\<rparr>)"

definition normalize_extraction_config :: "(string \<Rightarrow> string) \<Rightarrow> extraction_config option \<Rightarrow> extraction_config" where
  "normalize_extraction_config getenv req =
     (let d = default_extraction_config getenv; positive = (\<lambda>x y. if x > (0 :: real) then x else y);
          given = (\<lambda>s t. if trim_space s \<noteq> [] then trim_space s else t)
      in case req of None \<Rightarrow> d
         | Some c \<Rightarrow>
             \<lparr>xc_tier = (if xc_tier c > 0 then xc_tier c else xc_tier d), xc_url = given (xc_url c) (xc_url d),
              xc_selection = xc_selection c, xc_decontext = xc_decontext c, xc_coverage = xc_coverage c, xc_precheck = xc_precheck c,
              xc_dependency_threshold = positive (xc_dependency_threshold c) (xc_dependency_threshold d),
              xc_decontext_threshold = positive (xc_decontext_threshold c) (xc_decontext_threshold d),
              xc_coverage_threshold = positive (xc_coverage_threshold c) (xc_coverage_threshold d),
              xc_concurrency = (if xc_concurrency c > 0 then xc_concurrency c else xc_concurrency d),
              xc_selection_model = given (xc_selection_model c) (xc_selection_model d),
              xc_extraction_model = given (xc_extraction_model c) (xc_extraction_model d)\<rparr>)"

record stage1_item =
  s1_index :: int
  s1_sentence :: string
  s1_category :: string
  s1_reason :: string
  s1_kind :: string

record selected_sentence =
  ss_index :: int
  ss_sentence :: string
  ss_category :: string
  ss_reason :: string
  ss_kind :: string

record stage2_item =
  s2_index :: int
  s2_original :: string
  s2_text :: string
  s2_unresolved :: "string list"
  s2_confidence :: real

record decontext_sentence =
  ds_index :: int
  ds_original :: string
  ds_text :: string
  ds_uncertain :: bool
  ds_kind :: string

record atomic_tuple =
  tu_id :: string
  tu_subject :: string
  tu_predicate :: string
  tu_object :: string
  tu_claim :: string
  tu_kind :: string
  tu_confidence :: real

record atomic_fact =
  af_fact :: extracted_fact
  af_sentence :: int
  af_uncertain :: bool
  af_kind :: string

record dependency_verdict =
  dv_depends :: string
  dv_confidence :: real
  dv_justification :: string

record dependency_proposal =
  dp_parent :: string
  dp_child :: string
  dp_confidence :: real
  dp_justification :: string

record coverage_miss =
  cm_claim :: string
  cm_fact :: atomic_tuple
  cm_confidence :: real

record extraction_stats =
  xs_discarded :: nat
  xs_unresolved :: nat
  xs_proposed :: nat
  xs_accepted :: nat
  xs_rejected :: nat
  xs_missed :: nat
  xs_contradictions :: nat

definition no_stats :: extraction_stats where
  "no_stats = \<lparr>xs_discarded = 0, xs_unresolved = 0, xs_proposed = 0, xs_accepted = 0, xs_rejected = 0, xs_missed = 0,
     xs_contradictions = 0\<rparr>"

record extraction_result =
  xr_facts :: "extracted_fact list"
  xr_contradictions :: "consistency_issue list"
  xr_stats :: extraction_stats

text \<open>What the prompts are made of; the rest of their text is constant.\<close>

datatype prompt =
    SelectionPrompt string string "(int \<times> string) list"
  | RewritePrompt string "(int \<times> string) list"
  | DecomposePrompt string
  | DependsPrompt string string
  | CoveragePrompt string "string list"
  | ScriptPrompt string string

record 'w llm =
  lm_chat :: "'w \<Rightarrow> string \<Rightarrow> prompt \<Rightarrow> (string + string) \<times> 'w"
  lm_turns :: "'w \<Rightarrow> nat \<Rightarrow> nat list"
  lm_valid :: "string \<Rightarrow> bool"
  lm_selection :: "string \<Rightarrow> stage1_item list option"
  lm_rewrites :: "string \<Rightarrow> stage2_item list option"
  lm_tuples :: "string \<Rightarrow> string + atomic_tuple list"
  lm_verdict :: "string \<Rightarrow> string + dependency_verdict"
  lm_misses :: "string \<Rightarrow> coverage_miss list option"
  lm_float :: "string \<Rightarrow> real option"

text \<open>strings.IndexAny and strings.LastIndex, and the first JSON value of an answer.\<close>

definition from_any :: "string \<Rightarrow> string \<Rightarrow> string" where
  "from_any cs s = dropWhile (\<lambda>c. c \<notin> set cs) s"

definition upto_last :: "string \<Rightarrow> string \<Rightarrow> string" where
  "upto_last cs s = rev (from_any cs (rev s))"

definition extract_first_json_value :: "(string \<Rightarrow> bool) \<Rightarrow> string \<Rightarrow> string" where
  "extract_first_json_value valid s0 =
     (let s = trim_space s0; t = from_any ''[{'' s; u = upto_last ''}]'' t
      in if s = [] \<or> t = [] then s
         else if valid t then t
         else if u \<noteq> [] then trim_space u else t)"

definition llm_json :: "'w llm \<Rightarrow> string \<Rightarrow> string" where
  "llm_json L raw = extract_first_json_value (lm_valid L) (trim_space (strip_markdown_fences raw))"

section \<open>Stage 1: selection of sentences\<close>

text \<open>Later items of an index replace earlier ones.\<close>

definition last_of :: "('a \<Rightarrow> 'k) \<Rightarrow> 'a list \<Rightarrow> 'k \<Rightarrow> 'a option" where
  "last_of key xs k = map_of (rev (map (\<lambda>x. (key x, x)) xs)) k"

definition stage1_input :: "string list \<Rightarrow> (int \<times> string) list" where
  "stage1_input ss =
     filter (\<lambda>(i, s). s \<noteq> []) (map (\<lambda>(i, s). (int i, trim_space s)) (List.enumerate 0 ss))"

definition kept_sentence :: "string \<Rightarrow> int \<times> string \<Rightarrow> selected_sentence" where
  "kept_sentence reason s =
     \<lparr>ss_index = fst s, ss_sentence = snd s, ss_category = ''verifiable'', ss_reason = reason, ss_kind = []\<rparr>"

definition stage1_kind :: "stage1_item \<Rightarrow> string" where
  "stage1_kind x =
     (let k = normalize_assertion_kind (s1_kind x)
      in if k = [] then assertion_kind_hint (s1_reason x @ '' '' @ s1_sentence x) else k)"

definition stage1_category :: "stage1_item \<Rightarrow> string" where
  "stage1_category x = to_lower (trim_space (s1_category x))"

definition stage1_selected :: "stage1_item \<Rightarrow> selected_sentence" where
  "stage1_selected x =
     \<lparr>ss_index = s1_index x, ss_sentence = trim_space (s1_sentence x), ss_category = stage1_category x,
      ss_reason = trim_space (s1_reason x),
      ss_kind = (if stage1_category x = ''hedged'' \<and> stage1_kind x = [] then AssertionKindUncertain else stage1_kind x)\<rparr>"

fun stage1_result_from_items ::
  "stage1_item list \<Rightarrow> (int \<times> string) list \<Rightarrow> selected_sentence list \<times> stage1_item list" where
  "stage1_result_from_items items [] = ([], [])"
| "stage1_result_from_items items (s # input) =
     (let (sel, dis) = stage1_result_from_items items input
      in case last_of s1_index items (fst s) of
           None \<Rightarrow> (kept_sentence ''missing from stage1 output'' s # sel, dis)
         | Some x \<Rightarrow> if stage1_category x \<in> {''verifiable'', ''hedged''} then (stage1_selected x # sel, dis)
                     else (sel, x # dis))"

definition stage1_sentence_selection ::
  "'w llm \<Rightarrow> extraction_config \<Rightarrow> string \<Rightarrow> string \<Rightarrow> 'w \<Rightarrow>
     (string + selected_sentence list \<times> stage1_item list) \<times> 'w" where
  "stage1_sentence_selection L cfg output context w =
     (let ss = split_sentences output
      in if ss = [] then (Inr ([], []), w)
         else if \<not> xc_selection cfg
         then (Inr (map (\<lambda>(i, s). kept_sentence ''selection disabled'' (int i, trim_space s)) (List.enumerate 0 ss), []), w)
         else (let input = stage1_input ss;
                   (r, w1) = lm_chat L w (xc_selection_model cfg) (SelectionPrompt context output input)
               in (case r of Inl err \<Rightarrow> Inl err
                   | Inr raw \<Rightarrow>
                       (case lm_selection L (llm_json L raw) of
                          None \<Rightarrow> Inr (map (kept_sentence ''fallback keep-all on parse failure'') input, [])
                        | Some items \<Rightarrow> Inr (stage1_result_from_items items input)), w1)))"

section \<open>Stage 2: sentences out of context\<close>

definition passed_through :: "bool \<Rightarrow> selected_sentence \<Rightarrow> decontext_sentence" where
  "passed_through force s =
     \<lparr>ds_index = ss_index s, ds_original = ss_sentence s, ds_text = ss_sentence s, ds_uncertain = force, ds_kind = ss_kind s\<rparr>"

definition stage2_sentence :: "extraction_config \<Rightarrow> stage2_item list \<Rightarrow> selected_sentence \<Rightarrow> decontext_sentence" where
  "stage2_sentence cfg items s =
     (case last_of s2_index items (ss_index s) of
        None \<Rightarrow> passed_through True s
      | Some x \<Rightarrow>
          \<lparr>ds_index = s2_index x, ds_original = trim_space (s2_original x),
           ds_text = trim_space (first_non_empty [s2_text x, s2_original x, ss_sentence s]),
           ds_uncertain = (s2_confidence x < xc_decontext_threshold cfg \<or> s2_unresolved x \<noteq> []), ds_kind = ss_kind s\<rparr>)"

definition stage2_unresolved :: "stage2_item list \<Rightarrow> selected_sentence \<Rightarrow> nat" where
  "stage2_unresolved items s = (case last_of s2_index items (ss_index s) of None \<Rightarrow> 0 | Some x \<Rightarrow> length (s2_unresolved x))"

definition stage2_decontextualise ::
  "'w llm \<Rightarrow> extraction_config \<Rightarrow> string \<Rightarrow> selected_sentence list \<Rightarrow> 'w \<Rightarrow>
     (string + decontext_sentence list \<times> nat) \<times> 'w" where
  "stage2_decontextualise L cfg output sel w =
     (if sel = [] then (Inr ([], 0), w)
      else if \<not> xc_decontext cfg then (Inr (map (passed_through False) sel, 0), w)
      else (let (r, w1) = lm_chat L w (xc_extraction_model cfg)
                  (RewritePrompt output (map (\<lambda>s. (ss_index s, ss_sentence s)) sel))
            in (case r of Inl err \<Rightarrow> Inl err
                | Inr raw \<Rightarrow>
                    (case lm_rewrites L (llm_json L raw) of
                       None \<Rightarrow> Inr (map (passed_through True) sel, 0)
                     | Some items \<Rightarrow> Inr (map (stage2_sentence cfg items) sel, sum_list (map (stage2_unresolved items) sel))), w1)))"

section \<open>Stage 3A: atomic facts\<close>

definition claimed_fact :: "string \<Rightarrow> string \<Rightarrow> atomic_tuple \<Rightarrow> extracted_fact" where
  "claimed_fact source i t =
     \<lparr>ef_id = i, ef_claim = trim_space (tu_claim t), ef_claim_key = [], ef_claim_value = [],
      ef_subject = trim_space (tu_subject t), ef_predicate = trim_space (tu_predicate t), ef_object = trim_space (tu_object t),
      ef_polarity = ''positive'', ef_is_root = True, ef_depends_on = [], ef_source_type = source,
      ef_confidence = clamp01 (tu_confidence t) (3 / 4),
      ef_assertion_kind =
        (if normalize_assertion_kind (tu_kind t) = [] then AssertionKindEmpirical else normalize_assertion_kind (tu_kind t))\<rparr>"

definition tuple_slug :: "decontext_sentence \<Rightarrow> nat \<Rightarrow> atomic_tuple \<Rightarrow> string" where
  "tuple_slug s i t =
     (if trim_space (tu_id t) = [] then slugify (''fact-'' @ show_int (ds_index s) @ ''-'' @ show_nat i)
      else slugify (trim_space (tu_id t)))"

fun tuples_to_facts ::
  "decontext_sentence \<Rightarrow> nat \<Rightarrow> atomic_tuple list \<Rightarrow> string list \<Rightarrow> atomic_fact list \<times> string list" where
  "tuples_to_facts s i [] seen = ([], seen)"
| "tuples_to_facts s i (t # ts) seen =
     (let k = unique_slug (tuple_slug s i t) seen;
          (fs, seen1) = tuples_to_facts s (Suc i) ts (k # seen)
      in (\<lparr>af_fact = claimed_fact ''pipeline_stage3a'' k t, af_sentence = ds_index s, af_uncertain = ds_uncertain s,
           af_kind = ds_kind s\<rparr> # fs, seen1))"

fun stage3a_atomic_decompose ::
  "'w llm \<Rightarrow> extraction_config \<Rightarrow> decontext_sentence list \<Rightarrow> string list \<Rightarrow> 'w \<Rightarrow> (string + atomic_fact list) \<times> 'w" where
  "stage3a_atomic_decompose L cfg [] seen w = (Inr [], w)"
| "stage3a_atomic_decompose L cfg (s # ss) seen w =
     (let (r, w1) = lm_chat L w (xc_extraction_model cfg) (DecomposePrompt (ds_text s))
      in case r of Inl err \<Rightarrow> (Inl err, w1)
         | Inr raw \<Rightarrow>
             (case lm_tuples L (llm_json L raw) of
                Inl err \<Rightarrow> (Inl err, w1)
              | Inr ts \<Rightarrow>
                  (let (fs, seen1) = tuples_to_facts s 0 ts seen
                   in case stage3a_atomic_decompose L cfg ss seen1 w1 of
                        (Inl err, w2) \<Rightarrow> (Inl err, w2)
                      | (Inr gs, w2) \<Rightarrow> (Inr (fs @ gs), w2))))"

section \<open>Stage 3B: dependencies\<close>

definition should_check_dependency :: "extracted_fact \<Rightarrow> extracted_fact \<Rightarrow> bool" where
  "should_check_dependency parent child =
     (let b0 = token_set (ef_subject child @ '' '' @ ef_object child);
          b = (if b0 = [] then token_set (ef_claim child) else b0);
          a0 = token_set (ef_subject parent @ '' '' @ ef_predicate parent @ '' '' @ ef_object parent);
          a = (if a0 = [] then token_set (ef_claim parent) else a0)
      in b \<noteq> [] \<and> a \<noteq> [] \<and> list_ex (\<lambda>t. t \<in> set a) b)"

definition candidate_pairs :: "atomic_fact list \<Rightarrow> (extracted_fact \<times> extracted_fact) list" where
  "candidate_pairs xs =
     concat (map (\<lambda>(i, p). map (\<lambda>(j, c). (af_fact p, af_fact c))
       (filter (\<lambda>(j, c). i \<noteq> j \<and> should_check_dependency (af_fact p) (af_fact c)) (List.enumerate 0 xs))) (List.enumerate 0 xs))"

text \<open>
  The concurrent calls, in the order of their turns: an error does not stop the others, and the
  first one is the result. A turn that the context cuts off is not in the list.
\<close>

definition ask_dependency ::
  "'w llm \<Rightarrow> extraction_config \<Rightarrow> extracted_fact \<times> extracted_fact \<Rightarrow> 'w \<times> dependency_proposal list \<times> string option \<Rightarrow>
     'w \<times> dependency_proposal list \<times> string option" where
  "ask_dependency L cfg pc s =
     (let (w, props, failed) = s; (p, c) = pc;
          (r, w1) = lm_chat L w (xc_extraction_model cfg) (DependsPrompt (ef_claim p) (ef_claim c));
          v = (case r of Inl err \<Rightarrow> Inl err | Inr raw \<Rightarrow> lm_verdict L (llm_json L raw))
      in case v of
           Inl err \<Rightarrow> (w1, props, if failed = None then Some err else failed)
         | Inr d \<Rightarrow>
             (w1,
              if equal_fold (trim_space (dv_depends d)) ''yes'' \<and> dv_confidence d \<ge> xc_dependency_threshold cfg
              then props @ [\<lparr>dp_parent = ef_id p, dp_child = ef_id c, dp_confidence = dv_confidence d,
                     dp_justification = trim_space (dv_justification d)\<rparr>]
              else props, failed))"

definition propose_dependencies ::
  "'w llm \<Rightarrow> extraction_config \<Rightarrow> (extracted_fact \<times> extracted_fact) list \<Rightarrow> 'w \<Rightarrow> (string + dependency_proposal list) \<times> 'w" where
  "propose_dependencies L cfg pairs w =
     (let turns = map ((!) pairs) (filter (\<lambda>i. i < length pairs) (lm_turns L w (length pairs)));
          (w1, props, failed) = fold (ask_dependency L cfg) turns (w, [], None)
      in (case failed of Some err \<Rightarrow> Inl err | None \<Rightarrow> Inr props, w1))"

datatype graph_error = GraphError string | NotAsserted core_error

definition graph_fact :: "(string \<times> gval) list \<Rightarrow> string \<Rightarrow> extracted_fact \<Rightarrow> string list \<Rightarrow> fact" where
  "graph_fact extra source x parents =
     (let kind = normalize_assertion_kind (ef_assertion_kind x);
          f = (empty_core_fact (ef_id x))
            \<lparr>is_root := (parents = []), assertion_kind := (if kind = [] then AssertionKindEmpirical else kind),
             payload := Some ([(''claim'', GStr (ef_claim x)), (''subject'', GStr (ef_subject x)),
               (''predicate'', GStr (ef_predicate x)), (''object'', GStr (ef_object x))] @ extra),
             metadata := Some [(''source_type'', GStr source)]\<rparr>
      in if parents = [] then f\<lparr>manual_status := clamp01 (ef_confidence x) (3 / 4)\<rparr>
         else f\<lparr>justification_sets := single_sets parents\<rparr>)"

text \<open>
  The facts of a graph are asserted in its order into an engine of their own; absent says what
  happens when the order names an identifier that has no fact.
\<close>

fun assert_in_order ::
  "int \<Rightarrow> (string \<Rightarrow> fact option) \<Rightarrow> (string \<Rightarrow> graph_error option) \<Rightarrow> string list \<Rightarrow> engine \<Rightarrow> (graph_error + engine) option" where
  "assert_in_order now facts_by absent [] e = Some (Inr e)"
| "assert_in_order now facts_by absent (i # is) e =
     (case facts_by i of
        None \<Rightarrow> (case absent i of Some err \<Rightarrow> Some (Inl err) | None \<Rightarrow> assert_in_order now facts_by absent is e)
      | Some f \<Rightarrow>
          (case assert_fact now (Some f) e of
             None \<Rightarrow> None
           | Some (Inl err) \<Rightarrow> Some (Inl (NotAsserted err))
           | Some (Inr e1) \<Rightarrow> assert_in_order now facts_by absent is e1))"

definition atomic_at :: "atomic_fact list \<Rightarrow> string \<Rightarrow> extracted_fact option" where
  "atomic_at xs k = extracted_at (map af_fact xs) k"

definition parents_of_id :: "parent_map \<Rightarrow> string \<Rightarrow> string list" where
  "parents_of_id ps k = (case map_of ps k of None \<Rightarrow> [] | Some qs \<Rightarrow> qs)"

definition validate_dependency_graph :: "int \<Rightarrow> atomic_fact list \<Rightarrow> parent_map \<Rightarrow> graph_error option option" where
  "validate_dependency_graph now xs ps =
     (case topo_order_from_parents ps of
        Inl msg \<Rightarrow> Some (Some (GraphError msg))
      | Inr order \<Rightarrow>
          map_option (\<lambda>r. case r of Inl err \<Rightarrow> Some err | Inr e \<Rightarrow> None)
            (assert_in_order now
              (\<lambda>i. map_option (\<lambda>x. graph_fact [(''polarity'', GStr ''positive'')] ''pipeline_stage3b_validator'' x
                 (unique_trimmed (parents_of_id ps i))) (atomic_at xs i))
              (\<lambda>i. Some (GraphError (''unknown fact id in ordering: '' @ i))) order new_engine))"

definition accept_proposal ::
  "int \<Rightarrow> atomic_fact list \<Rightarrow> dependency_proposal \<Rightarrow> parent_map \<times> nat \<times> nat \<Rightarrow> (parent_map \<times> nat \<times> nat) option" where
  "accept_proposal now xs d s =
     (let (ps, acc, rej) = s; qs = parents_of_id ps (dp_child d)
      in if dp_parent d = dp_child d then Some (ps, acc, Suc rej)
         else if dp_parent d \<in> set qs then Some s
         else (let nxt = AList.update (dp_child d) (qs @ [dp_parent d]) ps
               in case validate_dependency_graph now xs nxt of
                    None \<Rightarrow> None
                  | Some (Some err) \<Rightarrow> Some (ps, acc, Suc rej)
                  | Some None \<Rightarrow> Some (nxt, Suc acc, rej)))"

fun accept_each ::
  "int \<Rightarrow> atomic_fact list \<Rightarrow> dependency_proposal list \<Rightarrow> parent_map \<times> nat \<times> nat \<Rightarrow> (parent_map \<times> nat \<times> nat) option" where
  "accept_each now xs [] s = Some s"
| "accept_each now xs (d # ds) s = (case accept_proposal now xs d s of None \<Rightarrow> None | Some s1 \<Rightarrow> accept_each now xs ds s1)"

definition no_parents :: "atomic_fact list \<Rightarrow> parent_map" where
  "no_parents xs = fold (\<lambda>x ps. AList.update (ef_id (af_fact x)) [] ps) xs []"

definition accept_proposals ::
  "int \<Rightarrow> atomic_fact list \<Rightarrow> dependency_proposal list \<Rightarrow> (parent_map \<times> nat \<times> nat) option" where
  "accept_proposals now xs ds = accept_each now xs ds (no_parents xs, 0, 0)"

definition inferred_kind :: "atomic_fact \<Rightarrow> string" where
  "inferred_kind x =
     (let ak = normalize_assertion_kind (ef_assertion_kind (af_fact x));
          hint = normalize_assertion_kind (af_kind x);
          k = (if af_uncertain x then AssertionKindUncertain
               else if hint \<in> {AssertionKindHypothetical, AssertionKindFictional, AssertionKindUncertain} then hint
               else ak)
      in if k = [] then AssertionKindEmpirical else k)"

definition build_extracted_fact :: "parent_map \<Rightarrow> atomic_fact \<Rightarrow> extracted_fact" where
  "build_extracted_fact ps x =
     (let f = af_fact x; parents = unique_trimmed (parents_of_id ps (ef_id f))
      in f\<lparr>ef_depends_on := parents, ef_is_root := (parents = []),
           ef_source_type := first_non_empty [ef_source_type f, ''pipeline_stage3''], ef_assertion_kind := inferred_kind x\<rparr>)"

definition build_extracted_facts :: "atomic_fact list \<Rightarrow> parent_map \<Rightarrow> extracted_fact list" where
  "build_extracted_facts xs ps = sort_key (\<lambda>x. (\<not> ef_is_root x, ef_id x)) (map (build_extracted_fact ps) xs)"

definition stage3b_infer_dependencies ::
  "'w llm \<Rightarrow> int \<Rightarrow> extraction_config \<Rightarrow> atomic_fact list \<Rightarrow> 'w \<Rightarrow>
     ((string + extracted_fact list \<times> nat \<times> nat \<times> nat) \<times> 'w) option" where
  "stage3b_infer_dependencies L now cfg xs w =
     (if xs = [] then Some (Inr ([], 0, 0, 0), w)
      else case propose_dependencies L cfg (candidate_pairs xs) w of
          (Inl err, w1) \<Rightarrow> Some (Inl err, w1)
        | (Inr props, w1) \<Rightarrow>
            map_option (\<lambda>(ps, acc, rej). (Inr (build_extracted_facts xs ps, length props, acc, rej), w1))
              (accept_proposals now xs (sort_key (\<lambda>d. (- dp_confidence d, dp_parent d, dp_child d)) props)))"

definition without_sentence :: "extracted_fact \<Rightarrow> atomic_fact" where
  "without_sentence x = \<lparr>af_fact = x, af_sentence = 0, af_uncertain = False, af_kind = []\<rparr>"

section \<open>Stages 4 and 5\<close>

definition fact_summary :: "extracted_fact \<Rightarrow> string" where
  "fact_summary x =
     ''- '' @ (if trim_space (ef_claim x) \<noteq> [] then trim_space (ef_claim x)
              else ef_subject x @ ''/'' @ ef_predicate x @ ''/'' @ ef_object x) @ '' ('' @ ef_id x @ '')''"

fun append_coverage_misses ::
  "extraction_config \<Rightarrow> coverage_miss list \<Rightarrow> string list \<Rightarrow> extracted_fact list \<times> nat \<Rightarrow> extracted_fact list \<times> nat" where
  "append_coverage_misses cfg [] ids s = s"
| "append_coverage_misses cfg (m # ms) ids (xs, n) =
     (if cm_confidence m < xc_coverage_threshold cfg then append_coverage_misses cfg ms ids (xs, n)
      else (let t = cm_fact m;
                k = unique_slug (slugify (first_non_empty [tu_id t, tu_claim t, cm_claim m])) ids
            in append_coverage_misses cfg ms (k # ids) (xs @ [claimed_fact ''pipeline_stage4'' k t], Suc n)))"

definition stage4_coverage_verification ::
  "'w llm \<Rightarrow> extraction_config \<Rightarrow> string \<Rightarrow> extracted_fact list \<Rightarrow> 'w \<Rightarrow> (string + extracted_fact list \<times> nat) \<times> 'w" where
  "stage4_coverage_verification L cfg output xs w =
     (if \<not> xc_coverage cfg \<or> trim_space output = [] then (Inr (xs, 0), w)
      else (let (r, w1) = lm_chat L w (xc_extraction_model cfg) (CoveragePrompt output (map fact_summary xs))
            in (case r of Inl err \<Rightarrow> Inl err
                | Inr raw \<Rightarrow>
                    (case lm_misses L (llm_json L raw) of
                       None \<Rightarrow> Inr (xs, 0)
                     | Some ms \<Rightarrow> Inr (append_coverage_misses cfg ms (map ef_id xs) (xs, 0))), w1)))"

text \<open>The texts of errors of the engine do not matter to the callers; show_error gives them.\<close>

definition graph_error_text :: "(core_error \<Rightarrow> string) \<Rightarrow> graph_error \<Rightarrow> string" where
  "graph_error_text show_error err = (case err of GraphError msg \<Rightarrow> msg | NotAsserted ce \<Rightarrow> show_error ce)"

definition parents_declared :: "extracted_fact list \<Rightarrow> parent_map" where
  "parents_declared xs = fold (\<lambda>x ps. AList.update (ef_id x) (ef_depends_on x) ps) xs []"

definition stage5_consistency_precheck ::
  "(core_error \<Rightarrow> string) \<Rightarrow> (real \<Rightarrow> string) \<Rightarrow> int \<Rightarrow> extracted_fact list \<Rightarrow> (string + consistency_issue list) option" where
  "stage5_consistency_precheck show_error sf now xs =
     (if xs = [] then Some (Inr [])
      else case topo_order_from_parents (parents_declared xs) of
          Inl msg \<Rightarrow> Some (Inl msg)
        | Inr order \<Rightarrow>
            map_option (\<lambda>r. case r of
                Inl err \<Rightarrow> Inl (graph_error_text show_error err)
              | Inr e \<Rightarrow> Inr (cr_issues (check_consistency sf now e [] True)))
              (assert_in_order now (\<lambda>i. map_option to_core_fact (extracted_at xs i))
                (\<lambda>i. Some (GraphError (''consistency precheck: missing fact id '' @ i))) order new_engine))"

section \<open>The pipelines\<close>

definition extraction_error :: "string \<Rightarrow> string \<Rightarrow> string" where
  "extraction_error cause detail =
     ''extraction error ('' @ cause @ '')'' @ (if detail \<noteq> [] then '': '' @ detail else [])"

definition legacy_user_content :: "string \<Rightarrow> string \<Rightarrow> string" where
  "legacy_user_content output context =
     (if trim_space context = [] then output
      else ''SESSION CONTEXT: '' @ context @ replicate 2 (char_of (10 :: nat)) @ ''LLM OUTPUT TO EXTRACT FROM:'' @
        [char_of (10 :: nat)] @ output)"

text \<open>One compilation: the error the model is told about in the next attempt, or the facts.\<close>

definition compile_script :: "(string \<Rightarrow> real option) \<Rightarrow> string \<Rightarrow> string + extracted_fact list" where
  "compile_script pf raw =
     (case parse_vlogic pf (strip_markdown_fences (trim_space raw)) of
        Inl err \<Rightarrow> Inl err
      | Inr xs \<Rightarrow> (let (sorted, cycle) = topo_sort_vlogic_facts xs
                   in if cycle \<noteq> [] then Inl cycle else Inr (normalize_legacy_facts sorted)))"

fun legacy_attempts ::
  "'w llm \<Rightarrow> extraction_config \<Rightarrow> string \<Rightarrow> nat \<Rightarrow> string \<Rightarrow> 'w \<Rightarrow> (string + extracted_fact list) \<times> 'w" where
  "legacy_attempts L cfg content 0 last_error w =
     (Inl (extraction_error ''compiler_error'' (''failed to compile V-Logic after 3 attempts. Last error: '' @ last_error)), w)"
| "legacy_attempts L cfg content (Suc n) last_error w =
     (let (r, w1) = lm_chat L w (xc_extraction_model cfg) (ScriptPrompt content last_error)
      in case r of Inl err \<Rightarrow> (Inl err, w1)
         | Inr raw \<Rightarrow>
             (case compile_script (lm_float L) raw of
                Inl err \<Rightarrow> legacy_attempts L cfg content n err w1
              | Inr xs \<Rightarrow> (Inr xs, w1)))"

definition extract_legacy_vlogic ::
  "'w llm \<Rightarrow> extraction_config \<Rightarrow> string \<Rightarrow> string \<Rightarrow> 'w \<Rightarrow> (string + extracted_fact list) \<times> 'w" where
  "extract_legacy_vlogic L cfg output context w = legacy_attempts L cfg (legacy_user_content output context) 3 [] w"

text \<open>The stages up to the dependencies, the second inference after missed claims, and the check.\<close>

definition covered_facts ::
  "'w llm \<Rightarrow> int \<Rightarrow> extraction_config \<Rightarrow> string \<Rightarrow> extracted_fact list \<times> nat \<times> nat \<times> nat \<Rightarrow> 'w \<Rightarrow>
     ((string + extracted_fact list \<times> nat \<times> nat \<times> nat \<times> nat) \<times> 'w) option" where
  "covered_facts L now cfg output found w =
     (let (xs, prop, acc, rej) = found
      in if \<not> xc_coverage cfg then Some (Inr (xs, prop, acc, rej, 0), w)
         else case stage4_coverage_verification L cfg output xs w of
             (Inl err, w1) \<Rightarrow> Some (Inl err, w1)
           | (Inr (ys, missed), w1) \<Rightarrow>
               if missed = 0 then Some (Inr (ys, prop, acc, rej, 0), w1)
               else map_option (\<lambda>(r, w2).
                   (case r of Inl err \<Rightarrow> Inl err
                    | Inr (zs, p2, a2, r2) \<Rightarrow> Inr (zs, prop + p2, acc + a2, rej + r2, missed), w2))
                 (stage3b_infer_dependencies L now cfg (map without_sentence ys) w1))"

definition checked_facts ::
  "(core_error \<Rightarrow> string) \<Rightarrow> (real \<Rightarrow> string) \<Rightarrow> int \<Rightarrow> extraction_config \<Rightarrow> extraction_stats \<Rightarrow> extracted_fact list \<Rightarrow>
     (string + extraction_result) option" where
  "checked_facts show_error sf now cfg stats xs =
     (if \<not> xc_precheck cfg then Some (Inr \<lparr>xr_facts = xs, xr_contradictions = [], xr_stats = stats\<rparr>)
      else map_option (\<lambda>r. case r of
          Inl err \<Rightarrow> Inl err
        | Inr issues \<Rightarrow> Inr \<lparr>xr_facts = xs, xr_contradictions = issues, xr_stats = stats\<lparr>xs_contradictions := length issues\<rparr>\<rparr>)
        (stage5_consistency_precheck show_error sf now xs))"

definition staged_pipeline ::
  "'w llm \<Rightarrow> (core_error \<Rightarrow> string) \<Rightarrow> (real \<Rightarrow> string) \<Rightarrow> int \<Rightarrow> extraction_config \<Rightarrow> string \<Rightarrow> string \<Rightarrow> 'w \<Rightarrow>
     ((string + extraction_result) \<times> 'w) option" where
  "staged_pipeline L show_error sf now cfg output context w =
     (case stage1_sentence_selection L cfg output context w of
        (Inl err, w1) \<Rightarrow> Some (Inl err, w1)
      | (Inr (sel, dis), w1) \<Rightarrow>
         (case stage2_decontextualise L cfg output sel w1 of
            (Inl err, w2) \<Rightarrow> Some (Inl err, w2)
          | (Inr (ss, unresolved), w2) \<Rightarrow>
             (case stage3a_atomic_decompose L cfg ss [] w2 of
                (Inl err, w3) \<Rightarrow> Some (Inl err, w3)
              | (Inr atomic, w3) \<Rightarrow>
                 (case stage3b_infer_dependencies L now cfg atomic w3 of
                    None \<Rightarrow> None
                  | Some (Inl err, w4) \<Rightarrow> Some (Inl err, w4)
                  | Some (Inr found, w4) \<Rightarrow>
                     (case covered_facts L now cfg output found w4 of
                        None \<Rightarrow> None
                      | Some (Inl err, w5) \<Rightarrow> Some (Inl err, w5)
                      | Some (Inr (xs, prop, acc, rej, missed), w5) \<Rightarrow>
                          map_option (\<lambda>r. (r, w5))
                            (checked_facts show_error sf now cfg
                              (no_stats\<lparr>xs_discarded := length dis, xs_unresolved := unresolved, xs_proposed := prop,
                                 xs_accepted := acc, xs_rejected := rej, xs_missed := missed\<rparr>) xs))))))"

definition run_pipeline ::
  "'w llm \<Rightarrow> (core_error \<Rightarrow> string) \<Rightarrow> (real \<Rightarrow> string) \<Rightarrow> (string \<Rightarrow> string) \<Rightarrow> int \<Rightarrow> extraction_config option \<Rightarrow>
     string \<Rightarrow> string \<Rightarrow> 'w \<Rightarrow> ((string + extraction_result) \<times> 'w) option" where
  "run_pipeline L show_error sf getenv now req output context w =
     (let cfg = normalize_extraction_config getenv req
      in if \<not> xc_selection cfg \<and> \<not> xc_decontext cfg \<and> \<not> xc_coverage cfg \<and> \<not> xc_precheck cfg
         then (case extract_legacy_vlogic L cfg output context w of
                 (Inl err, w1) \<Rightarrow> Some (Inl err, w1)
               | (Inr xs, w1) \<Rightarrow> Some (Inr \<lparr>xr_facts = xs, xr_contradictions = [], xr_stats = no_stats\<rparr>, w1))
         else staged_pipeline L show_error sf now cfg output context w)"

end
