(* ===== verification/PipelineEngine.thy ===== *)
theory PipelineEngine
imports Pipeline Totality
begin

text \<open>
  The engine in which a dependency graph is tried: a fact with a new identifier whose parents are
  known is accepted, so a graph is accepted exactly when it has an order.
\<close>

section \<open>New facts\<close>

definition fits :: "string set \<Rightarrow> fact \<Rightarrow> bool" where
  "fits known f \<longleftrightarrow> (is_root f \<or> sets_of f \<noteq> []) \<and>
     (\<forall>ts \<in> set (sets_of f). ts \<noteq> [] \<and> (\<forall>t \<in> set ts. \<exists>p. normalize_dependency_token t = Inr p \<and> p \<in> known))"

lemma fits_check: "fits (fst ` set (facts e)) f \<longleftrightarrow> (is_root f \<or> sets_of f \<noteq> []) \<and> check_sets e (sets_of f) = None"
  by (auto simp: fits_def check_sets_None known_iff)

lemma assert_new_fact:
  assumes wf: "wf_engine e" and new: "fact_id f \<notin> fst ` set (facts e)" and fits: "fits (fst ` set (facts e)) f"
    and cap: "int (length (facts e)) < MaxFactsPerSession"
  obtains e' where "assert_fact now (Some f) e = Some (Inr e')" "wf_engine e'"
    "map fst (facts e') = map fst (facts e) @ [fact_id f]"
proof -
  let ?f = "stamp_asserted now f"
  have at: "fact_at e (fact_id f) = None" using new by (simp add: map_of_eq_None_iff)
  have ok: "is_root f \<or> sets_of f \<noteq> []" "check_sets e (sets_of f) = None" using fits fits_check by auto
  have "detect_cycle e (Some ?f) = None" by (rule no_cycle_for_new_fact [OF wf]) (use at ok in simp_all)
  then have v: "validate_assert_fact now e f = (?f, Inr False)"
    using cap at ok by (auto simp: validate_assert_fact_def Let_def)
  have keeps: "keeps e (assert_fact now (Some f) e)" by (rule assert_fact_keeps [OF wf])
  have "\<exists>e'. assert_fact now (Some f) e = Some (Inr e') \<and> map fst (facts e') = map fst (facts e) @ [fact_id f]"
  proof (cases "is_root f")
    case True
    let ?g = "?f\<lparr>derived_status := manual_status f\<rparr>"
    define e1 where "e1 = put_fact (fact_id ?f) ?g (register_fact ?f e)"
    define e2 where "e2 = notify now (fact_id ?f) (manual_status ?f)
      (if manual_status ?f < ConfidenceThreshold then e1\<lparr>collapsed_roots := set_insert (fact_id ?f) (collapsed_roots e1)\<rparr> else e1)"
    have e2: "facts e2 = facts e1" "jsets e2 = jsets e1" "children e2 = children e1" by (simp_all add: e2_def)
    have reg: "e1 = put_fact (fact_id ?f) ?g (flagged e)" "wf_engine e1"
      using register_root_wf [OF wf v] True by (simp_all add: e1_def)
    have "wf_engine e2" using reg(2) unfolding wf_engine_frame [OF e2] .
    then obtain e' where e': "propagate now e2 [fact_id ?f] = Some e'" "same_graph e2 e'"
      using propagate_returns by blast
    have "map fst (facts e') = map fst (facts e) @ [fact_id f]"
      unfolding same_graph_keys(1) [OF e'(2), symmetric] e2(1) reg(1)
      using keys_put_new [of "flagged e" "fact_id ?f" ?g] at by simp
    moreover have "assert_fact now (Some f) e = Some (Inr e')"
      using v True e'(1) by (cases "manual_status f < ConfidenceThreshold")
        (simp_all add: assert_fact_def initialize_root_fact_def Let_def e1_def e2_def)
    ultimately show ?thesis by blast
  next
    case False
    have nr: "\<not> is_root ?f" using False by simp
    obtain e2 where e2: "initialize_sets now (fact_id ?f) 0 (sets_of ?f)
        (put_fact (fact_id ?f) (?f\<lparr>derived_status := Invalid, valid_justification_count := 0\<rparr>) (register_fact ?f e)) = (None, e2)"
      and wf2: "wf_engine e2" and b: "built now (flagged e) ?f (length (sets_of ?f)) e2"
      by (rule register_sets_wf [OF wf v nr])
    obtain e' where e': "propagate now e2 [fact_id ?f] = Some e'" "same_graph e2 e'"
      using propagate_returns [OF wf2] by blast
    have "map fst (facts e') = map fst (facts e) @ [fact_id f]"
      using built_keys [OF b] unfolding same_graph_keys(1) [OF e'(2), symmetric] by simp
    moreover have "assert_fact now (Some f) e = Some (Inr e')"
      using v False e2 e'(1) by (simp add: assert_fact_def initialize_derived_fact_def)
    ultimately show ?thesis by blast
  qed
  then show ?thesis using that keeps by auto
qed

text \<open>Asserting in an order always returns, and succeeds when every fact fits what comes before it.\<close>

lemma assert_in_order_returns:
  "wf_engine e \<Longrightarrow> assert_in_order now facts_by absent is e \<noteq> None"
proof (induction "is" arbitrary: e)
  case (Cons i "is")
  have k: "keeps e (assert_fact now (Some f) e)" for f by (rule assert_fact_keeps [OF Cons.prems])
  show ?case
  proof (cases "facts_by i")
    case None
    then show ?thesis using Cons by (simp split: option.split)
  next
    case (Some f)
    then show ?thesis using k [of f] Cons.IH by (auto simp: keeps_def split: sum.split)
  qed
qed simp

lemma assert_in_order_fits:
  assumes "wf_engine e" "distinct is" "set is \<inter> fst ` set (facts e) = {}"
    and "int (length (facts e) + length is) \<le> MaxFactsPerSession"
    and "\<And>n. n < length is \<Longrightarrow> \<exists>f. facts_by (is ! n) = Some f \<and> fact_id f = is ! n \<and>
      fits (fst ` set (facts e) \<union> set (take n is)) f"
  shows "\<exists>e'. assert_in_order now facts_by absent is e = Some (Inr e') \<and> wf_engine e' \<and>
    map fst (facts e') = map fst (facts e) @ is"
  using assms
proof (induction "is" arbitrary: e)
  case (Cons i "is")
  obtain f where f: "facts_by i = Some f" "fact_id f = i" "fits (fst ` set (facts e)) f"
    using Cons.prems(5) [of 0] by auto
  have "fact_id f \<notin> fst ` set (facts e)" "int (length (facts e)) < MaxFactsPerSession"
    using Cons.prems(3,4) f(2) by auto
  then obtain e1 where e1: "assert_fact now (Some f) e = Some (Inr e1)" "wf_engine e1"
    "map fst (facts e1) = map fst (facts e) @ [i]"
    using assert_new_fact [OF Cons.prems(1) _ f(3), of now] f(2) by metis
  have keys: "fst ` set (facts e1) = insert i (fst ` set (facts e))" using e1(3) [THEN arg_cong, of set] by auto
  have len: "length (facts e1) = Suc (length (facts e))" using e1(3) [THEN arg_cong, of length] by simp
  have "\<exists>e'. assert_in_order now facts_by absent is e1 = Some (Inr e') \<and> wf_engine e' \<and>
    map fst (facts e') = map fst (facts e1) @ is"
  proof (rule Cons.IH [OF e1(2)])
    show "set is \<inter> fst ` set (facts e1) = {}" using Cons.prems(2,3) keys by auto
    show "\<exists>f. facts_by (is ! n) = Some f \<and> fact_id f = is ! n \<and> fits (fst ` set (facts e1) \<union> set (take n is)) f"
      if "n < length is" for n
      using Cons.prems(5) [of "Suc n"] that keys by (simp add: insert_commute)
  qed (use Cons.prems(2,4) len in auto)
  then show ?case using e1 f(1) by auto
qed simp

section \<open>Graphs\<close>

definition unnegated :: "string \<Rightarrow> bool" where
  "unnegated k \<longleftrightarrow> \<not> has_prefix k ''!''"

lemma token_of_parent:
  assumes "p \<in> set (unique_trimmed qs)" "unnegated p"
  shows "normalize_dependency_token p = Inr p"
  using assms by (auto simp: set_unique_trimmed normalize_dependency_token_def parse_dependency_ref_def Let_def unnegated_def)

lemma single_sets_fit:
  assumes "ps \<noteq> []" "\<And>p. p \<in> set ps \<Longrightarrow> normalize_dependency_token p = Inr p \<and> p \<in> known"
  shows "fits known (f\<lparr>is_root := r, justification_sets := single_sets ps\<rparr>)"
  using assms by (auto simp: fits_def sets_of_def single_sets_def)

lemma graph_fact_id [simp]: "fact_id (graph_fact extra src x ps) = ef_id x"
  by (simp add: graph_fact_def Let_def empty_core_fact_def)

lemma graph_fact_fits:
  assumes "\<And>p. p \<in> set ps \<Longrightarrow> normalize_dependency_token p = Inr p \<and> p \<in> known"
  shows "fits known (graph_fact extra src x ps)"
  using assms by (auto simp: graph_fact_def fits_def sets_of_def single_sets_def empty_core_fact_def Let_def)

lemma atomic_at_some:
  assumes "k \<in> ef_id ` af_fact ` set xs"
  obtains x where "atomic_at xs k = Some x" "ef_id x = k"
proof -
  have "fst ` set (rev (map (\<lambda>x. (ef_id x, x)) (map af_fact xs))) = ef_id ` af_fact ` set xs"
    by (simp add: image_image)
  then have "atomic_at xs k \<noteq> None"
    using assms unfolding atomic_at_def extracted_at_def map_of_eq_None_iff by simp
  then show ?thesis using that extracted_at_id by (fastforce simp: atomic_at_def)
qed

lemma parents_of_id_in: "parents_in ps k = set (unique_trimmed (parents_of_id ps k))"
  by (simp add: parents_in_def parents_of_id_def unique_trimmed_def split: option.split)

lemma validate_returns: "validate_dependency_graph now xs ps \<noteq> None"
  using assert_in_order_returns [OF new_engine_structure(1)] by (simp add: validate_dependency_graph_def split: sum.split)

lemma validate_exact:
  assumes "distinct (map fst ps)" "fst ` set ps \<subseteq> ef_id ` af_fact ` set xs" "\<And>k. k \<in> fst ` set ps \<Longrightarrow> unnegated k"
    and "int (length ps) \<le> MaxFactsPerSession"
  shows "validate_dependency_graph now xs ps = Some None \<longleftrightarrow>
    acyclic (parent_edges ps) \<and> Domain (parent_edges ps) \<subseteq> fst ` set ps"
  using topo_order_cases [OF assms(1)]
proof (elim disjE exE conjE)
  fix order assume o: "topo_order_from_parents ps = Inr order" "distinct order" "set order = fst ` set ps" "topological ps order"
  let ?by = "\<lambda>i. map_option (\<lambda>x. graph_fact [(''polarity'', GStr ''positive'')] ''pipeline_stage3b_validator'' x
                 (unique_trimmed (parents_of_id ps i))) (atomic_at xs i)"
  have len: "length order = length ps"
    using distinct_card [OF o(2)] distinct_card [OF assms(1)] o(3) by simp
  have "\<exists>e'. assert_in_order now ?by (\<lambda>i. Some (GraphError (''unknown fact id in ordering: '' @ i))) order new_engine =
      Some (Inr e') \<and> wf_engine e' \<and> map fst (facts e') = map fst (facts new_engine) @ order"
  proof (rule assert_in_order_fits [OF new_engine_structure(1) o(2)])
    fix n assume n: "n < length order"
    have "order ! n \<in> ef_id ` af_fact ` set xs" using nth_mem [OF n] unfolding o(3) by (rule subsetD [OF assms(2)])
    then obtain x where x: "atomic_at xs (order ! n) = Some x" "ef_id x = order ! n" by (rule atomic_at_some)
    have "normalize_dependency_token p = Inr p \<and> p \<in> set (take n order)"
      if p: "p \<in> set (unique_trimmed (parents_of_id ps (order ! n)))" for p
    proof -
      have "p \<in> parents_in ps (order ! n)" using p unfolding parents_of_id_in .
      then have "p \<in> set (take n order)" using o(4) n unfolding topological_def by blast
      moreover from this have "unnegated p" using o(3) assms(3) [of p] in_set_takeD [of p n order] by simp
      ultimately show ?thesis using token_of_parent [OF p] by simp
    qed
    then show "\<exists>f. ?by (order ! n) = Some f \<and> fact_id f = order ! n \<and>
        fits (fst ` set (facts new_engine) \<union> set (take n order)) f"
      using x by (simp add: graph_fact_fits new_engine_def)
  qed (use len assms(4) in \<open>simp_all add: new_engine_def\<close>)
  moreover have "acyclic (parent_edges ps)" "Domain (parent_edges ps) \<subseteq> fst ` set ps"
    using topological_acyclic [OF o(4,2)] o(3) by auto
  ultimately show ?thesis using o(1) by (auto simp: validate_dependency_graph_def)
qed (auto simp: validate_dependency_graph_def)

end
