(* ===== verification/PipelineGraph.thy ===== *)
theory PipelineGraph
imports PipelineEngine
begin

text \<open>
  The facts of the pipeline: their identifiers are slugs and distinct, and the dependencies that are
  accepted make an acyclic graph over them, to which no rejected proposal can be added.
\<close>

section \<open>Slugs\<close>

definition slug_like :: "string \<Rightarrow> bool" where
  "slug_like k \<longleftrightarrow> list_all (\<lambda>c. slug_char c \<or> c = CHR ''-'') k"

lemma dashed_slug: "slug_like (dashed b s)"
  by (induction b s rule: dashed.induct) (auto simp: slug_like_def)

lemma slug_like_trim_char: "slug_like s \<Longrightarrow> slug_like (trim_char c s)"
  by (auto simp: slug_like_def trim_char_def list_all_iff dest!: set_dropWhileD)

lemma slugify_slug: "slug_like (slugify s)"
  by (simp add: slugify_def slug_like_trim_char dashed_slug)

lemma show_nat_slug: "slug_like (show_nat n)"
  using show_nat_digits [of n] by (auto simp: slug_like_def slug_char_def list_all_iff)

lemma numbered_slug_like: "slug_like base \<Longrightarrow> slug_like (numbered_slug base i)"
  using show_nat_slug [of i] by (simp add: numbered_slug_def slug_like_def)

lemma free_slug_like: "slug_like base \<Longrightarrow> slug_like (free_slug base seen i)"
  by (induction base seen i rule: free_slug.induct) (subst free_slug.simps, auto simp: numbered_slug_like)

lemma unique_slug_like: "slug_like base \<Longrightarrow> slug_like (unique_slug base seen)"
  by (simp add: unique_slug_def free_slug_like)

lemma slug_no_space: "slug_like k \<Longrightarrow> c \<in> set k \<Longrightarrow> \<not> is_space c \<and> c \<noteq> CHR ''!''"
  by (auto simp: slug_like_def list_all_iff slug_char_def is_digit_def is_space_def char_code_def)

lemma trim_no_space: "(\<And>c. c \<in> set k \<Longrightarrow> \<not> is_space c) \<Longrightarrow> trim_space k = k"
proof -
  assume k: "\<And>c. c \<in> set k \<Longrightarrow> \<not> is_space c"
  have "dropWhile is_space s = s" if "set s = set k" for s using that k by (cases s) auto
  then have "dropWhile is_space k = k" "dropWhile is_space (rev k) = rev k" by simp_all
  then show ?thesis by (simp add: trim_space_def)
qed

lemma slug_trim: "slug_like k \<Longrightarrow> trim_space k = k"
  using slug_no_space trim_no_space by blast

lemma slug_unnegated: "slug_like k \<Longrightarrow> unnegated k"
  using slug_no_space [of k] by (cases k) (auto simp: unnegated_def has_prefix_def)

text \<open>A free number is found while fewer than 9998 identifiers are in use.\<close>

lemma free_slug_new:
  assumes "i \<le> j" "j < 10000" "numbered_slug base j \<notin> set seen"
  shows "free_slug base seen i \<notin> set seen"
  using assms
proof (induction base seen i rule: free_slug.induct)
  case (1 base seen i)
  show ?case
  proof (cases "numbered_slug base i \<in> set seen")
    case True
    then have "Suc i \<le> j" using 1(2,4) by (metis Suc_leI le_neq_implies_less)
    then show ?thesis using 1 True by (subst free_slug.simps) auto
  next
    case False
    then show ?thesis using 1(2,3) by (subst free_slug.simps) auto
  qed
qed

lemma unique_slug_new:
  assumes "card (set seen) < 9998"
  shows "unique_slug base seen \<notin> set seen"
proof -
  have inj: "inj_on (numbered_slug base) {2..<10000}" by (auto simp: inj_on_def numbered_slug_def)
  have "\<not> numbered_slug base ` {2..<10000} \<subseteq> set seen"
  proof
    assume "numbered_slug base ` {2..<10000} \<subseteq> set seen"
    then have "card (numbered_slug base ` {2..<10000}) \<le> card (set seen)" by (rule card_mono [rotated]) simp
    then show False using assms card_image [OF inj] by simp
  qed
  then obtain x where "x \<in> numbered_slug base ` {2..<10000}" "x \<notin> set seen" by blast
  then obtain j where "j \<in> {2..<10000}" "numbered_slug base j \<notin> set seen" by blast
  then show ?thesis using free_slug_new [of 2 j base seen] by (simp add: unique_slug_def)
qed

section \<open>Accepting proposals\<close>

definition ids_of :: "atomic_fact list \<Rightarrow> string set" where
  "ids_of xs = ef_id ` af_fact ` set xs"

definition edge_of :: "dependency_proposal \<Rightarrow> string \<times> string" where
  "edge_of d = (dp_parent d, dp_child d)"

definition graph_over :: "string set \<Rightarrow> parent_map \<Rightarrow> bool" where
  "graph_over K ps \<longleftrightarrow> distinct (map fst ps) \<and> fst ` set ps = K \<and> acyclic (parent_edges ps) \<and> Domain (parent_edges ps) \<subseteq> K"

lemma parents_after:
  assumes "trim_space p = p"
  shows "parents_in (AList.update c (parents_of_id ps c @ [p]) ps) k =
    (if k = c then parents_in ps c \<union> ({p} - {[]}) else parents_in ps k)"
  using assms by (auto simp: parents_in_def parents_of_id_def update_conv' set_unique_trimmed image_iff split: option.splits)

lemma edges_after:
  assumes "trim_space p = p"
  shows "parent_edges (AList.update c (parents_of_id ps c @ [p]) ps) =
    (if p = [] then parent_edges ps else insert (p, c) (parent_edges ps))"
  using parents_after [OF assms] by (auto simp: parent_edges_def split: if_splits)

lemma accept_step:
  assumes g: "graph_over (ids_of xs) ps" and slugs: "\<And>k. k \<in> ids_of xs \<Longrightarrow> slug_like k"
    and cap: "int (card (ids_of xs)) \<le> MaxFactsPerSession" and d: "dp_parent d \<in> ids_of xs" "dp_child d \<in> ids_of xs"
  obtains ps' acc' rej' where "accept_proposal now xs d (ps, acc, rej) = Some (ps', acc', rej')" "graph_over (ids_of xs) ps'"
    "parent_edges ps' = parent_edges ps \<or> parent_edges ps' = insert (edge_of d) (parent_edges ps)"
    "dp_parent d \<noteq> [] \<longrightarrow> edge_of d \<in> parent_edges ps' \<or> \<not> acyclic (insert (edge_of d) (parent_edges ps'))"
proof -
  let ?p = "dp_parent d" let ?c = "dp_child d"
  let ?nxt = "AList.update ?c (parents_of_id ps ?c @ [?p]) ps"
  have trim: "trim_space ?p = ?p" using slugs d slug_trim by blast
  note E = edges_after [OF trim, of ?c ps]
  have keys: "distinct (map fst ps)" "fst ` set ps = ids_of xs" using g by (auto simp: graph_over_def)
  have mf: "map fst ?nxt = map fst ps" by (rule update_keys) (simp add: keys(2) d)
  then have nk: "distinct (map fst ?nxt)" "fst ` set ?nxt = ids_of xs" using keys by (metis, metis list.set_map)
  have len: "length ?nxt = card (ids_of xs)"
    using distinct_card [OF nk(1)] nk(2) by simp
  show ?thesis
  proof (cases "?p = ?c")
    case True
    have "accept_proposal now xs d (ps, acc, rej) = Some (ps, acc, Suc rej)" using True by (simp add: accept_proposal_def)
    moreover have "\<not> acyclic (insert (edge_of d) (parent_edges ps))"
      using True by (auto simp: edge_of_def acyclic_def)
    ultimately show ?thesis using that g by blast
  next
    case ne: False
    show ?thesis
    proof (cases "?p \<in> set (parents_of_id ps ?c)")
      case True
      have "accept_proposal now xs d (ps, acc, rej) = Some (ps, acc, rej)"
        using True ne by (simp add: accept_proposal_def Let_def)
      moreover have "?p \<noteq> [] \<longrightarrow> edge_of d \<in> parent_edges ps"
        using True trim by (auto simp: edge_of_def parent_edges_def parents_of_id_in set_unique_trimmed image_iff intro: bexI [of _ ?p])
      ultimately show ?thesis using that g by blast
    next
      case False
      obtain r where r: "validate_dependency_graph now xs ?nxt = Some r" using validate_returns by blast
      have iff: "r = None \<longleftrightarrow> acyclic (parent_edges ?nxt) \<and> Domain (parent_edges ?nxt) \<subseteq> fst ` set ?nxt"
        using validate_exact [OF nk(1), of xs now] nk(2) slugs slug_unnegated cap len r by (simp add: ids_of_def)
      have dom: "Domain (parent_edges ?nxt) \<subseteq> ids_of xs" using E g d by (auto simp: graph_over_def)
      show ?thesis
      proof (cases "r = None")
        case True
        have "accept_proposal now xs d (ps, acc, rej) = Some (?nxt, Suc acc, rej)"
          using True r ne False by (simp add: accept_proposal_def Let_def)
        moreover have "graph_over (ids_of xs) ?nxt" using True iff nk by (simp add: graph_over_def)
        ultimately show ?thesis using that E by (auto simp: edge_of_def)
      next
        case rej: False
        have "accept_proposal now xs d (ps, acc, rej) = Some (ps, acc, Suc rej)"
          using rej r ne False by (auto simp: accept_proposal_def Let_def)
        moreover have "?p \<noteq> [] \<longrightarrow> \<not> acyclic (insert (edge_of d) (parent_edges ps))"
          using rej iff dom nk(2) E by (auto simp: edge_of_def)
        ultimately show ?thesis using that g by blast
      qed
    qed
  qed
qed

lemma accept_each_spec:
  assumes "graph_over (ids_of xs) ps" and slugs: "\<And>k. k \<in> ids_of xs \<Longrightarrow> slug_like k"
    and cap: "int (card (ids_of xs)) \<le> MaxFactsPerSession"
    and "\<And>d. d \<in> set ds \<Longrightarrow> dp_parent d \<in> ids_of xs \<and> dp_child d \<in> ids_of xs"
  shows "\<exists>ps' acc' rej'. accept_each now xs ds (ps, acc, rej) = Some (ps', acc', rej') \<and> graph_over (ids_of xs) ps' \<and>
    parent_edges ps \<subseteq> parent_edges ps' \<and> parent_edges ps' \<subseteq> parent_edges ps \<union> edge_of ` set ds \<and>
    (\<forall>d \<in> set ds. dp_parent d \<noteq> [] \<longrightarrow> edge_of d \<in> parent_edges ps' \<or> \<not> acyclic (insert (edge_of d) (parent_edges ps')))"
  using assms(1,4)
proof (induction ds arbitrary: ps acc rej)
  case (Cons d ds)
  obtain p1 a1 r1 where s: "accept_proposal now xs d (ps, acc, rej) = Some (p1, a1, r1)" "graph_over (ids_of xs) p1"
    "parent_edges p1 = parent_edges ps \<or> parent_edges p1 = insert (edge_of d) (parent_edges ps)"
    "dp_parent d \<noteq> [] \<longrightarrow> edge_of d \<in> parent_edges p1 \<or> \<not> acyclic (insert (edge_of d) (parent_edges p1))"
    using accept_step [OF Cons.prems(1) slugs cap] Cons.prems(2) by (metis list.set_intros(1))
  obtain p2 a2 r2 where t: "accept_each now xs ds (p1, a1, r1) = Some (p2, a2, r2)" "graph_over (ids_of xs) p2"
    "parent_edges p1 \<subseteq> parent_edges p2" "parent_edges p2 \<subseteq> parent_edges p1 \<union> edge_of ` set ds"
    "\<forall>d \<in> set ds. dp_parent d \<noteq> [] \<longrightarrow> edge_of d \<in> parent_edges p2 \<or> \<not> acyclic (insert (edge_of d) (parent_edges p2))"
    using Cons.IH [OF s(2)] Cons.prems(2) by (metis list.set_intros(2))
  have "dp_parent d \<noteq> [] \<longrightarrow> edge_of d \<in> parent_edges p2 \<or> \<not> acyclic (insert (edge_of d) (parent_edges p2))"
    using s(4) t(3) acyclic_subset by (metis insert_mono subsetD)
  then show ?case using s(1,3) t by (intro exI [of _ p2] exI [of _ a2] exI [of _ r2]) auto
qed auto

lemma no_parents_spec:
  "distinct (map fst (no_parents xs)) \<and> fst ` set (no_parents xs) = ids_of xs \<and> parent_edges (no_parents xs) = {}"
proof -
  have fold: "distinct (map fst ps) \<Longrightarrow> (\<And>k. parents_in ps k = {}) \<Longrightarrow>
    distinct (map fst (fold (\<lambda>x ps. AList.update (ef_id (af_fact x)) [] ps) xs ps)) \<and>
    fst ` set (fold (\<lambda>x ps. AList.update (ef_id (af_fact x)) [] ps) xs ps) = fst ` set ps \<union> ids_of xs \<and>
    (\<forall>k. parents_in (fold (\<lambda>x ps. AList.update (ef_id (af_fact x)) [] ps) xs ps) k = {})" for ps
  proof (induction xs arbitrary: ps)
    case (Cons x xs)
    have "distinct (map fst (AList.update (ef_id (af_fact x)) [] ps))"
      using Cons.prems(1) by (simp add: distinct_update)
    moreover have "parents_in (AList.update (ef_id (af_fact x)) [] ps) k = {}" for k
      using Cons.prems(2) [of k] by (auto simp: parents_in_def update_conv' unique_trimmed_def)
    ultimately show ?case using Cons.IH by (auto simp: ids_of_def dom_update)
  qed (simp add: ids_of_def)
  show ?thesis using fold [of "[]"] by (simp add: no_parents_def parents_in_def parent_edges_def)
qed

lemma accept_proposals_spec:
  assumes "\<And>k. k \<in> ids_of xs \<Longrightarrow> slug_like k" "int (card (ids_of xs)) \<le> MaxFactsPerSession"
    and "\<And>d. d \<in> set ds \<Longrightarrow> dp_parent d \<in> ids_of xs \<and> dp_child d \<in> ids_of xs"
  shows "\<exists>ps acc rej. accept_proposals now xs ds = Some (ps, acc, rej) \<and> graph_over (ids_of xs) ps \<and>
    parent_edges ps \<subseteq> edge_of ` set ds \<and>
    (\<forall>d \<in> set ds. dp_parent d \<noteq> [] \<longrightarrow> edge_of d \<in> parent_edges ps \<or> \<not> acyclic (insert (edge_of d) (parent_edges ps)))"
proof -
  have "graph_over (ids_of xs) (no_parents xs)" using no_parents_spec [of xs] by (simp add: graph_over_def acyclic_def)
  from accept_each_spec [OF this assms] no_parents_spec [of xs] show ?thesis
    by (fastforce simp: accept_proposals_def)
qed

end
