(* ===== verification/PipelineProperties.thy ===== *)
theory PipelineProperties
imports PipelineGraph
begin

text \<open>
  What the pipeline gives: facts with distinct identifiers whose dependencies are facts of the same
  result and acyclic, so that an engine accepts them one after the other.
\<close>

section \<open>Sound results\<close>

definition extracted_ids :: "extracted_fact list \<Rightarrow> string set" where
  "extracted_ids zs = ef_id ` set zs"

definition sound_facts :: "extracted_fact list \<Rightarrow> bool" where
  "sound_facts zs \<longleftrightarrow> distinct (map ef_id zs) \<and> (\<forall>k \<in> extracted_ids zs. slug_like k) \<and>
     acyclic (parent_edges (parents_declared zs)) \<and>
     (\<forall>z \<in> set zs. set (ef_depends_on z) \<subseteq> extracted_ids zs - {[]} \<and> (ef_is_root z \<longleftrightarrow> ef_depends_on z = []))"

lemma extracted_at_distinct:
  assumes "distinct (map ef_id zs)" "z \<in> set zs"
  shows "extracted_at zs (ef_id z) = Some z"
proof -
  have "distinct (map fst (rev (map (\<lambda>x. (ef_id x, x)) zs)))"
    using assms(1) by (simp add: rev_map [symmetric] comp_def)
  then show ?thesis
    unfolding extracted_at_def by (rule map_of_is_SomeI) (use assms(2) in auto)
qed

lemma parents_declared_keys: "distinct (map fst (parents_declared zs)) \<and> fst ` set (parents_declared zs) = extracted_ids zs"
proof -
  have "distinct (map fst ps) \<Longrightarrow> distinct (map fst (fold (\<lambda>x ps. AList.update (ef_id x) (ef_depends_on x) ps) zs ps)) \<and>
    fst ` set (fold (\<lambda>x ps. AList.update (ef_id x) (ef_depends_on x) ps) zs ps) = fst ` set ps \<union> extracted_ids zs" for ps
    by (induction zs arbitrary: ps) (auto simp: extracted_ids_def dom_update distinct_update)
  from this [of "[]"] show ?thesis by (simp add: parents_declared_def)
qed

lemma parents_declared_at:
  "map_of (parents_declared zs) k = map_option ef_depends_on (extracted_at zs k)"
proof -
  have "map_of (fold (\<lambda>x ps. AList.update (ef_id x) (ef_depends_on x) ps) zs ps) k =
    (case extracted_at zs k of None \<Rightarrow> map_of ps k | Some x \<Rightarrow> Some (ef_depends_on x))" for ps
    by (induction zs arbitrary: ps) (auto simp: extracted_at_def update_conv' map_add_def split: option.split)
  from this [of "[]"] show ?thesis by (simp add: parents_declared_def split: option.split)
qed

lemma parents_declared_in:
  assumes "distinct (map ef_id zs)"
  shows "parents_in (parents_declared zs) k = (\<Union>z \<in> {z \<in> set zs. ef_id z = k}. set (unique_trimmed (ef_depends_on z)))"
proof (cases "extracted_at zs k")
  case None
  then have "z \<in> set zs \<Longrightarrow> ef_id z \<noteq> k" for z using extracted_at_distinct [OF assms] by fastforce
  then show ?thesis using None by (auto simp: parents_in_def parents_declared_at)
next
  case (Some x)
  have "{z \<in> set zs. ef_id z = k} = {x}"
  proof (intro set_eqI iffI)
    fix z assume "z \<in> {z \<in> set zs. ef_id z = k}"
    then have "extracted_at zs k = Some z" using extracted_at_distinct [OF assms] by auto
    then show "z \<in> {x}" using Some by simp
  qed (use extracted_at_id [OF Some] in auto)
  then show ?thesis using Some by (simp add: parents_in_def parents_declared_at)
qed

section \<open>Stage 3A\<close>

definition fresh_ids :: "string set \<Rightarrow> string list \<Rightarrow> bool" where
  "fresh_ids seen is \<longleftrightarrow> (\<forall>k \<in> set is. slug_like k) \<and> (card seen + length is \<le> 9998 \<longrightarrow> distinct is \<and> set is \<inter> seen = {})"

lemma fresh_ids_Nil [simp]: "fresh_ids seen []"
  by (simp add: fresh_ids_def)

lemma fresh_ids_append:
  assumes "finite seen" "fresh_ids seen is" "fresh_ids (seen \<union> set is) js"
  shows "fresh_ids seen (is @ js)"
  using assms card_Un_disjoint [of seen "set is"] distinct_card [of "is"]
  by (auto simp: fresh_ids_def Int_commute)

lemma fresh_ids_unique: "slug_like base \<Longrightarrow> fresh_ids (set seen) [unique_slug base seen]"
  using unique_slug_like [of base seen] unique_slug_new [of seen base] by (auto simp: fresh_ids_def)

lemma tuples_fresh:
  "tuples_to_facts s i ts seen = (fs, seen1) \<Longrightarrow>
     set seen1 = set seen \<union> set (map (\<lambda>x. ef_id (af_fact x)) fs) \<and> fresh_ids (set seen) (map (\<lambda>x. ef_id (af_fact x)) fs)"
proof (induction s i ts seen arbitrary: fs seen1 rule: tuples_to_facts.induct)
  case (2 s i t ts seen)
  let ?k = "unique_slug (tuple_slug s i t) seen"
  obtain gs seen2 where g: "tuples_to_facts s (Suc i) ts (?k # seen) = (gs, seen2)" by fastforce
  have "slug_like (tuple_slug s i t)" by (simp add: tuple_slug_def slugify_slug)
  then have "fresh_ids (set seen) [?k]" by (rule fresh_ids_unique)
  from fresh_ids_append [OF _ this] 2(1) [OF refl g] have
    "fresh_ids (set seen) (?k # map (\<lambda>x. ef_id (af_fact x)) gs)" by simp
  then show ?case using 2(2) 2(1) [OF refl g] g by (auto simp: Let_def claimed_fact_def)
qed simp

lemma stage3a_fresh:
  "stage3a_atomic_decompose L cfg ss seen w = (Inr fs, w1) \<Longrightarrow> fresh_ids (set seen) (map (\<lambda>x. ef_id (af_fact x)) fs)"
proof (induction L cfg ss seen w arbitrary: fs w1 rule: stage3a_atomic_decompose.induct)
  case (2 L cfg s ss seen w)
  obtain raw w2 where r: "lm_chat L w (xc_extraction_model cfg) (DecomposePrompt (ds_text s)) = (Inr raw, w2)"
    using 2(2) by (auto split: prod.splits sum.splits)
  obtain ts where ts: "lm_tuples L (llm_json L raw) = Inr ts" using 2(2) r by (auto split: sum.splits)
  obtain gs seen1 where g: "tuples_to_facts s 0 ts seen = (gs, seen1)" by fastforce
  obtain hs w3 where h: "stage3a_atomic_decompose L cfg ss seen1 w2 = (Inr hs, w3)" "fs = gs @ hs"
    using 2(2) r ts g by (auto split: prod.splits sum.splits)
  have "fresh_ids (set seen1) (map (\<lambda>x. ef_id (af_fact x)) hs)"
    using 2(1) [OF r [symmetric] refl refl ts g [symmetric] refl h(1)] .
  then show ?case using tuples_fresh [OF g] h(2) fresh_ids_append [of "set seen"] by simp
qed simp

section \<open>Stage 3B\<close>

lemma enumerate_member: "(i, x) \<in> set (List.enumerate n xs) \<Longrightarrow> x \<in> set xs"
  by (metis enumerate_eq_zip set_zip_rightD)

lemma candidate_members:
  "(p, c) \<in> set (candidate_pairs xs) \<Longrightarrow> p \<in> af_fact ` set xs \<and> c \<in> af_fact ` set xs"
  by (auto simp: candidate_pairs_def dest!: enumerate_member)

lemma ask_members:
  assumes "ask_dependency L cfg (p, c) (w, props, failed) = (w1, props1, failed1)"
  shows "set props1 \<subseteq> set props \<union> {d. edge_of d = (ef_id p, ef_id c)}"
  using assms by (auto simp: ask_dependency_def edge_of_def Let_def split: prod.splits sum.splits if_splits)

lemma fold_ask_members:
  assumes "fold (ask_dependency L cfg) turns (w, props, failed) = (w1, props1, failed1)"
    and "\<And>d. d \<in> set props \<Longrightarrow> edge_of d \<in> E" "\<And>p c. (p, c) \<in> set turns \<Longrightarrow> (ef_id p, ef_id c) \<in> E"
  shows "\<forall>d \<in> set props1. edge_of d \<in> E"
  using assms
proof (induction turns arbitrary: w props failed)
  case (Cons pc turns)
  obtain p c where pc: "pc = (p, c)" by (cases pc) auto
  obtain w2 p2 f2 where a: "ask_dependency L cfg (p, c) (w, props, failed) = (w2, p2, f2)" by (metis prod_cases3)
  have "edge_of d \<in> E" if "d \<in> set p2" for d
    using ask_members [OF a] that Cons.prems(2,3) pc by fastforce
  then show ?case using Cons.IH [of w2 p2 f2] Cons.prems a pc by simp
qed simp

lemma propose_members:
  assumes "propose_dependencies L cfg (candidate_pairs xs) w = (Inr props, w1)" "d \<in> set props"
  shows "dp_parent d \<in> ids_of xs \<and> dp_child d \<in> ids_of xs"
proof -
  let ?turns = "map ((!) (candidate_pairs xs)) (filter (\<lambda>i. i < length (candidate_pairs xs)) (lm_turns L w (length (candidate_pairs xs))))"
  have turns: "set ?turns \<subseteq> set (candidate_pairs xs)" by auto
  obtain w2 failed where "fold (ask_dependency L cfg) ?turns (w, [], None) = (w2, props, failed)"
    using assms(1) by (auto simp: propose_dependencies_def Let_def split: prod.splits option.splits)
  then have "\<forall>d \<in> set props. edge_of d \<in> ids_of xs \<times> ids_of xs"
    by (rule fold_ask_members) (use turns candidate_members in \<open>fastforce simp: ids_of_def\<close>)+
  then show ?thesis using assms(2) by (auto simp: edge_of_def)
qed

lemma unique_trimmed_again: "set (unique_trimmed (unique_trimmed qs)) = set (unique_trimmed qs)"
  by (auto simp: set_unique_trimmed image_iff)

lemma build_sound:
  assumes "graph_over (ids_of xs) ps" "distinct (map (\<lambda>x. ef_id (af_fact x)) xs)" "\<And>k. k \<in> ids_of xs \<Longrightarrow> slug_like k"
  shows "sound_facts (build_extracted_facts xs ps) \<and> length (build_extracted_facts xs ps) = length xs \<and>
    parent_edges (parents_declared (build_extracted_facts xs ps)) = parent_edges ps"
proof -
  let ?zs = "build_extracted_facts xs ps"
  have ms: "mset ?zs = mset (map (build_extracted_fact ps) xs)" by (simp add: build_extracted_facts_def)
  have id: "ef_id (build_extracted_fact ps x) = ef_id (af_fact x)" for x by (simp add: build_extracted_fact_def Let_def)
  have deps: "ef_depends_on (build_extracted_fact ps x) = unique_trimmed (parents_of_id ps (ef_id (af_fact x)))"
    "ef_is_root (build_extracted_fact ps x) \<longleftrightarrow> ef_depends_on (build_extracted_fact ps x) = []" for x
    by (simp_all add: build_extracted_fact_def Let_def)
  have set: "set ?zs = build_extracted_fact ps ` set xs" using arg_cong [OF ms, of set_mset] by simp
  have "mset (map ef_id ?zs) = mset (map (\<lambda>x. ef_id (af_fact x)) xs)"
    using arg_cong [OF ms, of "image_mset ef_id"] by (simp add: id image_mset.compositionality comp_def)
  then have dist: "distinct (map ef_id ?zs)" using assms(2) by (metis mset_eq_imp_distinct_iff)
  have ids: "extracted_ids ?zs = ids_of xs" by (auto simp: extracted_ids_def ids_of_def set id image_image)
  have parents: "parents_in (parents_declared ?zs) k = parents_in ps k" for k
  proof (cases "k \<in> ids_of xs")
    case True
    then obtain x where x: "x \<in> set xs" "ef_id (af_fact x) = k" by (auto simp: ids_of_def)
    have "{z \<in> set ?zs. ef_id z = k} = {build_extracted_fact ps x}"
    proof (intro set_eqI iffI)
      fix z assume "z \<in> {z \<in> set ?zs. ef_id z = k}"
      then have "z \<in> set ?zs" "ef_id z = ef_id (build_extracted_fact ps x)" "build_extracted_fact ps x \<in> set ?zs"
        using x id set by auto
      then show "z \<in> {build_extracted_fact ps x}" using dist unfolding distinct_map inj_on_def by blast
    qed (use x id set in auto)
    then show ?thesis
      using x(2) unfolding parents_declared_in [OF dist]
      by (simp add: deps(1) unique_trimmed_again) (simp add: parents_of_id_in)
  next
    case False
    then have "k \<notin> fst ` set ps" "\<not> (\<exists>z \<in> set ?zs. ef_id z = k)"
      using assms(1) ids by (auto simp: graph_over_def extracted_ids_def)
    then show ?thesis using parents_in_key by (fastforce simp: parents_declared_in [OF dist])
  qed
  then have edges: "parent_edges (parents_declared ?zs) = parent_edges ps" by (simp add: parent_edges_def)
  have "set (ef_depends_on z) \<subseteq> extracted_ids ?zs - {[]} \<and> (ef_is_root z \<longleftrightarrow> ef_depends_on z = [])" if z: "z \<in> set ?zs" for z
  proof -
    obtain x where x: "z = build_extracted_fact ps x" using z set by auto
    have "set (ef_depends_on z) = parents_in ps (ef_id z)" using x deps(1) parents_of_id_in id by metis
    moreover have "parents_in ps (ef_id z) \<subseteq> ids_of xs"
      using assms(1) by (auto simp: graph_over_def parent_edges_def)
    moreover have "[] \<notin> parents_in ps (ef_id z)" by (simp add: parents_of_id_in set_unique_trimmed)
    ultimately show ?thesis using x deps(2) ids by auto
  qed
  moreover have "length ?zs = length xs" using arg_cong [OF ms, of size] by simp
  ultimately show ?thesis using dist ids assms(1,3) edges by (simp add: sound_facts_def graph_over_def)
qed

lemma stage3b_returns: "stage3b_infer_dependencies L now cfg xs w \<noteq> None"
proof -
  have "accept_proposal now xs d s \<noteq> None" for d s
    by (cases s) (simp add: accept_proposal_def Let_def validate_returns split: option.split)
  then have "accept_each now xs ds s \<noteq> None" for ds s
    by (induction ds arbitrary: s) (auto split: option.splits)
  then show ?thesis
    by (auto simp: stage3b_infer_dependencies_def accept_proposals_def split: prod.splits sum.splits)
qed

lemma stage3b_length:
  "stage3b_infer_dependencies L now cfg xs w = Some (Inr (zs, counts), w1) \<Longrightarrow> length zs = length xs"
  by (auto simp: stage3b_infer_dependencies_def build_extracted_facts_def split: if_splits prod.splits sum.splits)

lemma stage3b_sound:
  assumes r: "stage3b_infer_dependencies L now cfg xs w = Some (Inr (zs, counts), w1)"
    and fresh: "fresh_ids {} (map (\<lambda>x. ef_id (af_fact x)) xs)" and few: "length zs \<le> 9998"
  shows "sound_facts zs \<and> length zs = length xs"
proof (cases "xs = []")
  case True
  then have "zs = []" using r by (simp add: stage3b_infer_dependencies_def)
  then show ?thesis using True by (simp add: sound_facts_def parents_declared_def parent_edges_def parents_in_def acyclic_def extracted_ids_def)
next
  case False
  obtain props w2 where p: "propose_dependencies L cfg (candidate_pairs xs) w = (Inr props, w2)"
    using r False by (auto simp: stage3b_infer_dependencies_def split: prod.splits sum.splits)
  let ?ds = "sort_key (\<lambda>d. (- dp_confidence d, dp_parent d, dp_child d)) props"
  obtain ps acc rej where a: "accept_proposals now xs ?ds = Some (ps, acc, rej)" "zs = build_extracted_facts xs ps"
    using r False p by (auto simp: stage3b_infer_dependencies_def)
  have len: "length zs = length xs" unfolding a(2) by (simp add: build_extracted_facts_def)
  have slugs: "\<And>k. k \<in> ids_of xs \<Longrightarrow> slug_like k" and dist: "distinct (map (\<lambda>x. ef_id (af_fact x)) xs)"
    using fresh few len by (auto simp: fresh_ids_def ids_of_def)
  have "card (ids_of xs) \<le> length xs" using card_length [of "map (\<lambda>x. ef_id (af_fact x)) xs"] by (simp add: ids_of_def image_image)
  then have cap: "int (card (ids_of xs)) \<le> MaxFactsPerSession" using few len by (simp add: MaxFactsPerSession_def)
  have "dp_parent d \<in> ids_of xs \<and> dp_child d \<in> ids_of xs" if "d \<in> set ?ds" for d
    using that propose_members [OF p] by simp
  then have "\<exists>ps acc rej. accept_proposals now xs ?ds = Some (ps, acc, rej) \<and> graph_over (ids_of xs) ps"
    using accept_proposals_spec [OF slugs cap, of ?ds now] by blast
  then have "graph_over (ids_of xs) ps" using a(1) by auto
  from build_sound [OF this dist slugs] show ?thesis using a(2) by simp
qed

section \<open>Stages 4 and 5\<close>

lemma claimed_fact_simps [simp]:
  "ef_id (claimed_fact src k t) = k" "ef_depends_on (claimed_fact src k t) = []" "ef_is_root (claimed_fact src k t)"
  by (simp_all add: claimed_fact_def)

lemma coverage_fresh:
  "append_coverage_misses cfg ms ids (xs, n) = (ys, n') \<Longrightarrow>
     \<exists>zs. ys = xs @ zs \<and> n' = n + length zs \<and> fresh_ids (set ids) (map ef_id zs)"
proof (induction ms arbitrary: ids xs n)
  case (Cons m ms)
  show ?case
  proof (cases "cm_confidence m < xc_coverage_threshold cfg")
    case True
    then show ?thesis using Cons by simp
  next
    case False
    let ?k = "unique_slug (slugify (first_non_empty [tu_id (cm_fact m), tu_claim (cm_fact m), cm_claim m])) ids"
    let ?x = "claimed_fact ''pipeline_stage4'' ?k (cm_fact m)"
    have "append_coverage_misses cfg ms (?k # ids) (xs @ [?x], Suc n) = (ys, n')" using Cons.prems False by (simp add: Let_def)
    from Cons.IH [OF this] obtain zs where z: "ys = (xs @ [?x]) @ zs" "n' = Suc n + length zs"
      "fresh_ids (set (?k # ids)) (map ef_id zs)" by blast
    have "fresh_ids (set ids) [?k]" by (rule fresh_ids_unique [OF slugify_slug])
    from fresh_ids_append [OF _ this, of "map ef_id zs"] z(3) have "fresh_ids (set ids) (?k # map ef_id zs)" by simp
    then show ?thesis using z by (intro exI [of _ "?x # zs"]) simp
  qed
qed simp

lemma stage4_fresh:
  assumes "stage4_coverage_verification L cfg output xs w = (Inr (ys, n), w1)"
  obtains zs where "ys = xs @ zs" "n = length zs" "fresh_ids (extracted_ids xs) (map ef_id zs)"
proof (cases "\<not> xc_coverage cfg \<or> trim_space output = []")
  case True
  then show ?thesis using that [of "[]"] assms by (simp add: stage4_coverage_verification_def)
next
  case False
  obtain raw w2 where r: "lm_chat L w (xc_extraction_model cfg) (CoveragePrompt output (map fact_summary xs)) = (Inr raw, w2)"
    using assms False by (auto simp: stage4_coverage_verification_def split: prod.splits sum.splits)
  show ?thesis
  proof (cases "lm_misses L (llm_json L raw)")
    case None
    then show ?thesis using that [of "[]"] assms False r by (simp add: stage4_coverage_verification_def)
  next
    case (Some ms)
    then have "append_coverage_misses cfg ms (map ef_id xs) (xs, 0) = (ys, n)"
      using assms False r by (simp add: stage4_coverage_verification_def)
    from coverage_fresh [OF this] show ?thesis using that by (auto simp: extracted_ids_def)
  qed
qed

definition core_fact_at :: "extracted_fact list \<Rightarrow> string \<Rightarrow> fact option" where
  "core_fact_at zs i = map_option to_core_fact (extracted_at zs i)"

lemma core_fact_fits:
  assumes "\<And>d. d \<in> set (ef_depends_on z) \<Longrightarrow> slug_like d \<and> d \<noteq> [] \<and> d \<in> known"
  shows "fits known (to_core_fact z)" "fact_id (to_core_fact z) = ef_id z"
proof -
  have tok: "normalize_dependency_token d = Inr d" if "d \<in> set (ef_depends_on z)" for d
    using assms [OF that] slug_trim [of d] slug_unnegated [of d]
    by (auto simp: normalize_dependency_token_def parse_dependency_ref_def Let_def unnegated_def)
  have "map trim_space (ef_depends_on z) = ef_depends_on z" using assms slug_trim by (simp add: map_idI)
  moreover have "filter (\<lambda>d. d \<noteq> []) (ef_depends_on z) = ef_depends_on z" using assms by (simp add: filter_id_conv)
  ultimately show "fits known (to_core_fact z)"
    using tok assms by (auto simp: to_core_fact_def fits_def sets_of_def single_sets_def empty_core_fact_def Let_def)
  show "fact_id (to_core_fact z) = ef_id z" by (simp add: to_core_fact_def empty_core_fact_def Let_def)
qed

definition accepted_in_order :: "int \<Rightarrow> extracted_fact list \<Rightarrow> bool" where
  "accepted_in_order now zs \<longleftrightarrow>
     (\<exists>order e. topo_order_from_parents (parents_declared zs) = Inr order \<and> distinct order \<and> set order = extracted_ids zs \<and>
        assert_in_order now (core_fact_at zs) (\<lambda>_. None) order new_engine = Some (Inr e) \<and> map fst (facts e) = order)"

lemma sound_accepted:
  assumes "sound_facts zs" "int (length zs) \<le> MaxFactsPerSession"
  obtains order where "topo_order_from_parents (parents_declared zs) = Inr order" "distinct order" "set order = extracted_ids zs"
    "\<forall>absent. \<exists>e. assert_in_order now (core_fact_at zs) absent order new_engine = Some (Inr e) \<and> map fst (facts e) = order"
proof -
  note S = assms(1) [unfolded sound_facts_def]
  have dist: "distinct (map ef_id zs)" using S by simp
  note keys = parents_declared_keys [of zs]
  have dom: "Domain (parent_edges (parents_declared zs)) \<subseteq> extracted_ids zs"
  proof
    fix p assume "p \<in> Domain (parent_edges (parents_declared zs))"
    then obtain z where "z \<in> set zs" "p \<in> set (unique_trimmed (ef_depends_on z))"
      by (auto simp: parent_edges_def parents_declared_in [OF dist])
    then obtain d where d: "z \<in> set zs" "d \<in> set (ef_depends_on z)" "p = trim_space d" by (auto simp: set_unique_trimmed)
    then have "d \<in> extracted_ids zs" using S by blast
    moreover from this have "trim_space d = d" using S slug_trim by blast
    ultimately show "p \<in> extracted_ids zs" using d by simp
  qed
  have "distinct (map fst (parents_declared zs))" using keys by simp
  from topo_order_cases [OF this] obtain order
    where o: "topo_order_from_parents (parents_declared zs) = Inr order" "distinct order"
      "set order = extracted_ids zs" "topological (parents_declared zs) order"
    using S dom keys by auto
  have len: "length order = length zs"
    using distinct_card [OF o(2)] distinct_card [OF dist] o(3) by (simp add: extracted_ids_def)
  have "\<exists>e. assert_in_order now (core_fact_at zs) absent order new_engine = Some (Inr e) \<and> wf_engine e \<and>
      map fst (facts e) = map fst (facts new_engine) @ order" for absent
  proof (rule assert_in_order_fits [OF new_engine_structure(1) o(2)])
    fix n assume n: "n < length order"
    have "order ! n \<in> extracted_ids zs" using nth_mem [OF n] unfolding o(3) .
    then obtain z where z: "z \<in> set zs" "ef_id z = order ! n" by (auto simp: extracted_ids_def)
    then have at: "extracted_at zs (order ! n) = Some z" using extracted_at_distinct [OF dist z(1)] by simp
    have "slug_like d \<and> d \<noteq> [] \<and> d \<in> set (take n order)" if d: "d \<in> set (ef_depends_on z)" for d
    proof -
      have k: "d \<in> extracted_ids zs" "d \<noteq> []" using S z(1) d by blast+
      then have s: "slug_like d" using S by blast
      then have "d \<in> set (unique_trimmed (ef_depends_on z))"
        using d k(2) slug_trim [OF s] by (auto simp: set_unique_trimmed image_iff intro: bexI [of _ d])
      then have "d \<in> parents_in (parents_declared zs) (order ! n)" using z by (auto simp: parents_declared_in [OF dist])
      then have "d \<in> set (take n order)" using o(4) n unfolding topological_def by blast
      then show ?thesis using s k(2) by simp
    qed
    from core_fact_fits [OF this] show "\<exists>f. core_fact_at zs (order ! n) = Some f \<and> fact_id f = order ! n \<and>
        fits (fst ` set (facts new_engine) \<union> set (take n order)) f"
      using at z(2) by (simp add: core_fact_at_def new_engine_def)
  qed (use len assms(2) in \<open>simp_all add: new_engine_def\<close>)
  moreover have "facts new_engine = []" by (simp add: new_engine_def)
  ultimately have "\<forall>absent. \<exists>e. assert_in_order now (core_fact_at zs) absent order new_engine = Some (Inr e) \<and> map fst (facts e) = order"
    by (metis append_Nil list.simps(8))
  then show ?thesis by (rule that [OF o(1-3)])
qed

lemma sound_accepted_in_order: "sound_facts zs \<Longrightarrow> length zs \<le> 9998 \<Longrightarrow> accepted_in_order now zs"
proof -
  assume s: "sound_facts zs" and "length zs \<le> 9998"
  then have "int (length zs) \<le> MaxFactsPerSession" by (simp add: MaxFactsPerSession_def)
  then obtain order where "topo_order_from_parents (parents_declared zs) = Inr order" "distinct order" "set order = extracted_ids zs"
    "\<forall>absent. \<exists>e. assert_in_order now (core_fact_at zs) absent order new_engine = Some (Inr e) \<and> map fst (facts e) = order"
    using sound_accepted [OF s, of now] by metis
  then show ?thesis unfolding accepted_in_order_def by metis
qed

lemma stage5_returns: "stage5_consistency_precheck se sf now xs \<noteq> None"
  using assert_in_order_returns [OF new_engine_structure(1)]
  by (simp add: stage5_consistency_precheck_def split: sum.split)

section \<open>The pipeline\<close>

lemma covered_sound:
  assumes "covered_facts L now cfg output (xs, counts) w = Some (Inr (zs, counts'), w1)" "length zs \<le> 9998"
    and "length xs \<le> 9998 \<Longrightarrow> sound_facts xs"
  shows "sound_facts zs"
proof -
  obtain p a r where counts: "counts = (p, a, r)" by (cases counts) auto
  show ?thesis
  proof (cases "xc_coverage cfg")
    case False
    then show ?thesis using assms counts by (simp add: covered_facts_def)
  next
    case True
    obtain ys n w2 where y: "stage4_coverage_verification L cfg output xs w = (Inr (ys, n), w2)"
      using assms(1) True counts by (auto simp: covered_facts_def split: prod.splits sum.splits)
    obtain new where new: "ys = xs @ new" "n = length new" "fresh_ids (extracted_ids xs) (map ef_id new)"
      by (rule stage4_fresh [OF y])
    show ?thesis
    proof (cases "n = 0")
      case True
      then show ?thesis using assms \<open>xc_coverage cfg\<close> y counts new by (simp add: covered_facts_def)
    next
      case False
      obtain c2 w3 where s: "stage3b_infer_dependencies L now cfg (map without_sentence ys) w2 = Some (Inr (zs, c2), w3)"
        using assms(1) \<open>xc_coverage cfg\<close> y counts False stage3b_returns [of L now cfg "map without_sentence ys" w2]
        by (cases "stage3b_infer_dependencies L now cfg (map without_sentence ys) w2")
          (auto simp: covered_facts_def split: sum.splits)
      have len: "length zs = length ys" using stage3b_length [OF s] by simp
      then have "sound_facts xs" using assms(2,3) new(1) by simp
      then have "fresh_ids {} (map ef_id xs)" by (simp add: sound_facts_def fresh_ids_def extracted_ids_def)
      then have "fresh_ids {} (map ef_id ys)"
        using fresh_ids_append [of "{}" "map ef_id xs" "map ef_id new"] new(1,3) by (simp add: extracted_ids_def)
      then have "fresh_ids {} (map (\<lambda>x. ef_id (af_fact x)) (map without_sentence ys))"
        by (simp add: without_sentence_def comp_def)
      then show ?thesis using stage3b_sound [OF s] assms(2) by simp
    qed
  qed
qed

lemma checked_sound:
  assumes "sound_facts xs" "length xs \<le> 9998"
  shows "\<exists>res. checked_facts se sf now cfg stats xs = Some (Inr res) \<and> xr_facts res = xs"
proof (cases "\<not> xc_precheck cfg \<or> xs = []")
  case True
  then show ?thesis by (auto simp: checked_facts_def stage5_consistency_precheck_def)
next
  case False
  have "int (length xs) \<le> MaxFactsPerSession" using assms(2) by (simp add: MaxFactsPerSession_def)
  then obtain order where o: "topo_order_from_parents (parents_declared xs) = Inr order" "distinct order" "set order = extracted_ids xs"
    "\<forall>absent. \<exists>e. assert_in_order now (core_fact_at xs) absent order new_engine = Some (Inr e) \<and> map fst (facts e) = order"
    by (rule sound_accepted [OF assms(1), where now = now])
  obtain e where "assert_in_order now (core_fact_at xs) (\<lambda>i. Some (GraphError (''consistency precheck: missing fact id '' @ i)))
      order new_engine = Some (Inr e)" using o(4) by metis
  then have "stage5_consistency_precheck se sf now xs = Some (Inr (cr_issues (check_consistency sf now e [] True)))"
    using o(1) False by (simp add: stage5_consistency_precheck_def core_fact_at_def [abs_def])
  then show ?thesis using False by (simp add: checked_facts_def)
qed

lemma covered_returns: "covered_facts L now cfg output found w \<noteq> None"
  by (simp add: covered_facts_def stage3b_returns split: prod.split sum.split del: not_None_eq)

lemma checked_result: "checked_facts se sf now cfg stats xs = Some (Inr res) \<Longrightarrow> xr_facts res = xs"
  by (cases "stage5_consistency_precheck se sf now xs"; cases "the (stage5_consistency_precheck se sf now xs)")
    (auto simp: checked_facts_def split: if_splits)

lemma staged_result:
  assumes "staged_pipeline L se sf now cfg output context w = Some (Inr res, w1)" "length (xr_facts res) \<le> 9998"
  shows "sound_facts (xr_facts res)"
proof -
  obtain sel dis w2 where 1: "stage1_sentence_selection L cfg output context w = (Inr (sel, dis), w2)"
    using assms(1) by (auto simp: staged_pipeline_def split: prod.splits sum.splits)
  obtain ss u w3 where 2: "stage2_decontextualise L cfg output sel w2 = (Inr (ss, u), w3)"
    using assms(1) 1 by (auto simp: staged_pipeline_def split: prod.splits sum.splits)
  obtain atomic w4 where 3: "stage3a_atomic_decompose L cfg ss [] w3 = (Inr atomic, w4)"
    using assms(1) 1 2 by (auto simp: staged_pipeline_def split: prod.splits sum.splits)
  obtain xs counts w5 where 4: "stage3b_infer_dependencies L now cfg atomic w4 = Some (Inr (xs, counts), w5)"
    using assms(1) 1 2 3 stage3b_returns [of L now cfg atomic w4]
    by (auto simp: staged_pipeline_def split: prod.splits sum.splits option.splits)
  obtain zs counts' w6 where 5: "covered_facts L now cfg output (xs, counts) w5 = Some (Inr (zs, counts'), w6)"
    using assms(1) 1 2 3 4 covered_returns [of L now cfg "output" "(xs, counts)" w5]
    by (auto simp: staged_pipeline_def split: prod.splits sum.splits option.splits)
  have zs: "xr_facts res = zs"
    using assms(1) 1 2 3 4 5
    by (cases counts') (auto simp: staged_pipeline_def dest: checked_result)
  have "sound_facts xs" if "length xs \<le> 9998" using stage3b_sound [OF 4 _ that] stage3a_fresh [OF 3] by simp
  then show ?thesis using covered_sound [OF 5] assms(2) zs by simp
qed

lemma staged_returns: "staged_pipeline L se sf now cfg output context w \<noteq> None"
  by (simp add: staged_pipeline_def checked_facts_def stage3b_returns covered_returns stage5_returns
      split: prod.split sum.split option.split del: not_None_eq)

section \<open>Properties\<close>

text \<open>
  The order of a dependency graph: it lists every fact once and after its parents, and is refused
  exactly when the graph has a cycle or names a parent that is not a fact.
\<close>

theorem topo_order_exact:
  assumes "distinct (map fst ps)"
  shows "(\<exists>order. topo_order_from_parents ps = Inr order \<and> distinct order \<and> set order = fst ` set ps \<and> topological ps order) \<or>
    (\<exists>msg. topo_order_from_parents ps = Inl msg \<and> \<not> (acyclic (parent_edges ps) \<and> Domain (parent_edges ps) \<subseteq> fst ` set ps))"
  by (rule topo_order_cases [OF assms])

theorem topo_order_exact_witness:
  "\<exists>order. topo_order_from_parents [(''a'', [''b'']), (''b'', [])] = Inr order \<and> distinct order \<and> set order = {''a'', ''b''}"
proof -
  have "topo_order_from_parents [(''a'', [''b'']), (''b'', [])] = Inr [''b'', ''a'']" by code_simp
  then show ?thesis using topo_order_exact [of "[(''a'', [''b'']), (''b'', [])]"] by auto
qed

text \<open>
  C33: Accepting proposed dependencies returns, keeps the graph acyclic, adds nothing that was not
  proposed, and leaves no proposal out that could be added without a cycle.
\<close>

theorem proposals_maximal:
  assumes "\<And>k. k \<in> ids_of xs \<Longrightarrow> slug_like k" "int (card (ids_of xs)) \<le> MaxFactsPerSession"
    and "\<And>d. d \<in> set ds \<Longrightarrow> dp_parent d \<in> ids_of xs \<and> dp_child d \<in> ids_of xs"
  shows "\<exists>ps acc rej. accept_proposals now xs ds = Some (ps, acc, rej) \<and> acyclic (parent_edges ps) \<and>
    parent_edges ps \<subseteq> edge_of ` set ds \<and>
    (\<forall>d \<in> set ds. dp_parent d \<noteq> [] \<longrightarrow> edge_of d \<in> parent_edges ps \<or> \<not> acyclic (insert (edge_of d) (parent_edges ps)))"
proof -
  have "\<exists>ps acc rej. accept_proposals now xs ds = Some (ps, acc, rej) \<and> graph_over (ids_of xs) ps \<and>
    parent_edges ps \<subseteq> edge_of ` set ds \<and>
    (\<forall>d \<in> set ds. dp_parent d \<noteq> [] \<longrightarrow> edge_of d \<in> parent_edges ps \<or> \<not> acyclic (insert (edge_of d) (parent_edges ps)))"
    by (rule accept_proposals_spec [OF assms])
  then show ?thesis unfolding graph_over_def by blast
qed

definition sample_tuple :: "string \<Rightarrow> string \<Rightarrow> atomic_tuple" where
  "sample_tuple i s = \<lparr>tu_id = i, tu_subject = s, tu_predicate = ''causes'', tu_object = ''flood'', tu_claim = s @ '' floods'',
     tu_kind = ''empirical'', tu_confidence = 9 / 10\<rparr>"

definition sample_atomic :: "string \<Rightarrow> atomic_fact" where
  "sample_atomic i = \<lparr>af_fact = claimed_fact ''s'' i (sample_tuple i i), af_sentence = 0, af_uncertain = False, af_kind = []\<rparr>"

definition sample_proposal :: "string \<Rightarrow> string \<Rightarrow> dependency_proposal" where
  "sample_proposal p c = \<lparr>dp_parent = p, dp_child = c, dp_confidence = 9 / 10, dp_justification = []\<rparr>"

theorem proposals_maximal_witness:
  "\<exists>ps acc rej. accept_proposals 5 [sample_atomic ''a'', sample_atomic ''b''] [sample_proposal ''a'' ''b'', sample_proposal ''b'' ''a''] =
      Some (ps, acc, rej) \<and> acyclic (parent_edges ps) \<and> parent_edges ps \<subseteq> {(''a'', ''b''), (''b'', ''a'')}"
proof -
  have ids: "ids_of [sample_atomic ''a'', sample_atomic ''b''] = {''a'', ''b''}"
    by (simp add: ids_of_def sample_atomic_def)
  have slugs: "slug_like ''a''" "slug_like ''b''" by code_simp+
  let ?ds = "[sample_proposal ''a'' ''b'', sample_proposal ''b'' ''a'']"
  have "\<exists>ps acc rej. accept_proposals 5 [sample_atomic ''a'', sample_atomic ''b''] ?ds = Some (ps, acc, rej) \<and>
    acyclic (parent_edges ps) \<and> parent_edges ps \<subseteq> edge_of ` set ?ds \<and>
    (\<forall>d \<in> set ?ds. dp_parent d \<noteq> [] \<longrightarrow> edge_of d \<in> parent_edges ps \<or> \<not> acyclic (insert (edge_of d) (parent_edges ps)))"
    by (rule proposals_maximal) (use slugs in \<open>auto simp: ids MaxFactsPerSession_def sample_proposal_def\<close>)
  moreover have "edge_of ` set ?ds = {(''a'', ''b''), (''b'', ''a'')}" by (auto simp: edge_of_def sample_proposal_def)
  ultimately show ?thesis by (metis (no_types, lifting))
qed

text \<open>
  C32: The staged pipeline returns, whatever the model answers and in whatever order concurrent calls
  take their turns, and its facts have distinct identifiers, depend on one another only and without
  a cycle, and are accepted by an engine in the order of their dependencies.
\<close>

theorem pipeline_sound:
  "\<exists>r w'. staged_pipeline L se sf now cfg output context w = Some (r, w') \<and>
     (\<forall>res. r = Inr res \<longrightarrow> length (xr_facts res) \<le> 9998 \<longrightarrow>
        sound_facts (xr_facts res) \<and> accepted_in_order now (xr_facts res))"
proof -
  obtain r w' where r: "staged_pipeline L se sf now cfg output context w = Some (r, w')"
    using staged_returns [of L se sf now cfg "output" "context" w] by auto
  then show ?thesis using staged_result sound_accepted_in_order by fast
qed

definition sample_llm :: "nat llm" where
  "sample_llm =
     \<lparr>lm_chat = (\<lambda>w m p. (Inr (case p of DecomposePrompt _ \<Rightarrow> ''d'' | _ \<Rightarrow> ''y''), Suc w)), lm_turns = (\<lambda>w n. [1, 0]),
      lm_valid = (\<lambda>_. True), lm_selection = (\<lambda>_. None), lm_rewrites = (\<lambda>_. None),
      lm_tuples = (\<lambda>_. Inr [sample_tuple ''a'' ''rain'', sample_tuple ''b'' ''rain'']),
      lm_verdict = (\<lambda>_. Inr \<lparr>dv_depends = ''Yes'', dv_confidence = 9 / 10, dv_justification = []\<rparr>),
      lm_misses = (\<lambda>_. None), lm_float = (\<lambda>_. None)\<rparr>"

definition sample_extraction :: extraction_config where
  "sample_extraction =
     \<lparr>xc_tier = 3, xc_url = [], xc_selection = True, xc_decontext = False, xc_coverage = False, xc_precheck = False, xc_dependency_threshold = 13 / 20,
      xc_decontext_threshold = 7 / 10, xc_coverage_threshold = 7 / 10, xc_concurrency = 10, xc_selection_model = ''m'', xc_extraction_model = ''m''\<rparr>"

lemma sample_stages:
  "case stage1_sentence_selection sample_llm sample_extraction ''Rain.'' [] 0 of (Inl _, _) \<Rightarrow> False | (Inr (sel, _), w) \<Rightarrow>
    (case stage2_decontextualise sample_llm sample_extraction ''Rain.'' sel w of (Inl _, _) \<Rightarrow> False | (Inr (ss, _), w1) \<Rightarrow>
      (case stage3a_atomic_decompose sample_llm sample_extraction ss [] w1 of (Inl _, _) \<Rightarrow> False | (Inr atomic, w2) \<Rightarrow>
        (case stage3b_infer_dependencies sample_llm 5 sample_extraction atomic w2 of
           Some (Inr (xs, _), _) \<Rightarrow> map (\<lambda>z. (ef_id z, ef_depends_on z)) xs = [(''a'', []), (''b'', [''a''])] | _ \<Rightarrow> False)))"
  by code_simp

lemma sample_staged:
  "\<exists>res w. staged_pipeline sample_llm (\<lambda>_. []) (\<lambda>_. []) 5 sample_extraction ''Rain.'' [] 0 = Some (Inr res, w) \<and>
     map (\<lambda>z. (ef_id z, ef_depends_on z)) (xr_facts res) = [(''a'', []), (''b'', [''a''])]"
proof -
  obtain r1 w1 where 1: "stage1_sentence_selection sample_llm sample_extraction ''Rain.'' [] 0 = (r1, w1)" by fastforce
  obtain sel dis where r1: "r1 = Inr (sel, dis)" using sample_stages by (cases r1) (auto simp: 1)
  obtain r2 w2 where 2: "stage2_decontextualise sample_llm sample_extraction ''Rain.'' sel w1 = (r2, w2)" by fastforce
  obtain ss u where r2: "r2 = Inr (ss, u)" using sample_stages by (cases r2) (auto simp: 1 r1 2)
  obtain r3 w3 where 3: "stage3a_atomic_decompose sample_llm sample_extraction ss [] w2 = (r3, w3)" by fastforce
  obtain atomic where r3: "r3 = Inr atomic" using sample_stages by (cases r3) (auto simp: 1 r1 2 r2 3)
  obtain r4 w4 where 4: "stage3b_infer_dependencies sample_llm 5 sample_extraction atomic w3 = Some (r4, w4)"
    using stage3b_returns [of sample_llm 5 sample_extraction atomic w3] by fastforce
  obtain xs p a r where r4: "r4 = Inr (xs, p, a, r)" "map (\<lambda>z. (ef_id z, ef_depends_on z)) xs = [(''a'', []), (''b'', [''a''])]"
    using sample_stages by (cases r4) (auto simp: 1 r1 2 r2 3 r3 4)
  have "xc_coverage sample_extraction = False" "xc_precheck sample_extraction = False" by (simp_all add: sample_extraction_def)
  then show ?thesis
    using r4 by (simp add: staged_pipeline_def 1 r1 2 r2 3 r3 4 covered_facts_def checked_facts_def)
qed

theorem pipeline_sound_witness:
  "\<exists>res w'. staged_pipeline sample_llm (\<lambda>_. []) (\<lambda>_. []) 5 sample_extraction ''Rain.'' [] 0 = Some (Inr res, w') \<and>
     map ef_depends_on (xr_facts res) = [[], [''a'']] \<and> sound_facts (xr_facts res) \<and> accepted_in_order 5 (xr_facts res)"
proof -
  obtain res w' where r: "staged_pipeline sample_llm (\<lambda>_. []) (\<lambda>_. []) 5 sample_extraction ''Rain.'' [] 0 = Some (Inr res, w')"
    "map (\<lambda>z. (ef_id z, ef_depends_on z)) (xr_facts res) = [(''a'', []), (''b'', [''a''])]"
    using sample_staged by (elim exE conjE) (rule that)
  from r(2) have "map ef_depends_on (xr_facts res) = [[], [''a'']]" "length (xr_facts res) \<le> 9998"
    by (auto simp: map_eq_Cons_conv)
  then show ?thesis
    using pipeline_sound [of sample_llm "\<lambda>_. []" "\<lambda>_. []" 5 sample_extraction "''Rain.''" "[]" 0] r(1) by auto
qed

end
