(* ===== verification/VLogicProperties.thy ===== *)
theory VLogicProperties
imports VLogic PipelineEngine
begin

text \<open>
  Scripts: what the parser accepts has distinct identifiers, and the depth-first search orders the
  facts of a script after those they name, or reports a cycle just when there is one.
\<close>

section \<open>Parsing\<close>

lemma parse_lines_distinct:
  "parse_vlogic_lines pf n seen ls = Inr xs \<Longrightarrow> distinct (map ef_id xs) \<and> ef_id ` set xs \<inter> set seen = {}"
proof (induction pf n seen ls arbitrary: xs rule: parse_vlogic_lines.induct)
  case (2 pf n seen raw rest)
  let ?l = "trim_space raw"
  show ?case
  proof (cases "?l = [] \<or> has_prefix ?l ''//''")
    case True
    then show ?thesis using 2(1) 2(3) by simp
  next
    case False
    obtain x where x: "parse_vlogic_line pf ?l = Some x" "ef_id x \<notin> set seen"
      using 2(3) False by (auto simp: Let_def split: option.splits if_splits)
    obtain ys where y: "parse_vlogic_lines pf (Suc n) (ef_id x # seen) rest = Inr ys" "xs = x # ys"
      using 2(3) False x by (auto simp: Let_def split: sum.splits)
    from 2(2) [OF refl _ x y(1)] False y(2) x(2) show ?thesis by auto
  qed
qed simp

lemma parse_vlogic_distinct: "parse_vlogic pf script = Inr xs \<Longrightarrow> distinct (map ef_id xs)"
  unfolding parse_vlogic_def by (drule parse_lines_distinct) simp

section \<open>The search\<close>

definition named_in :: "extracted_fact list \<Rightarrow> extracted_fact \<Rightarrow> string set" where
  "named_in xs x = {k \<in> (\<lambda>d. trim_prefix d ''!'') ` set (ef_depends_on x). extracted_at xs k \<noteq> None}"

definition script_edges :: "extracted_fact list \<Rightarrow> (string \<times> string) set" where
  "script_edges xs = {(k, ef_id x) | k x. x \<in> set xs \<and> k \<in> named_in xs x}"

definition script_sorted :: "extracted_fact list \<Rightarrow> extracted_fact list \<Rightarrow> bool" where
  "script_sorted xs out \<longleftrightarrow> (\<forall>i < length out. named_in xs (out ! i) \<subseteq> ef_id ` set (take i out))"

lemma script_sorted_snoc: "script_sorted xs (out @ [x]) \<longleftrightarrow> script_sorted xs out \<and> named_in xs x \<subseteq> ef_id ` set out"
  by (auto simp: script_sorted_def nth_append less_Suc_eq)

lemma topo_error_stays:
  "err \<noteq> [] \<Longrightarrow> topo_visit xs path x (out, err) = (out, err)"
  "snd s \<noteq> [] \<Longrightarrow> topo_visits xs path ds s = s"
proof -
  show 1: "err \<noteq> [] \<Longrightarrow> topo_visit xs path x (out, err) = (out, err)" for xs path x out err by simp
  show "snd s \<noteq> [] \<Longrightarrow> topo_visits xs path ds s = s"
    by (induction ds arbitrary: s) (auto split: option.split simp: 1 simp del: topo_visit.simps)
qed

definition searched :: "extracted_fact list \<Rightarrow> string set \<Rightarrow> extracted_fact list \<Rightarrow> bool" where
  "searched xs path out \<longleftrightarrow> script_sorted xs out \<and> distinct (map ef_id out) \<and> set out \<subseteq> set xs \<and> ef_id ` set out \<inter> path = {}"

lemma topo_sorted:
  "topo_visit xs path x s = (out', []) \<Longrightarrow> snd s = [] \<Longrightarrow> searched xs (set path) (fst s) \<Longrightarrow> x \<in> set xs \<Longrightarrow>
     searched xs (set path) out' \<and> set (fst s) \<subseteq> set out' \<and> ef_id x \<in> ef_id ` set out'"
  "topo_visits xs path ds s = (out', []) \<Longrightarrow> searched xs (set path) (fst s) \<Longrightarrow>
     searched xs (set path) out' \<and> set (fst s) \<subseteq> set out' \<and>
     (\<forall>d \<in> set ds. extracted_at xs (trim_prefix d ''!'') \<noteq> None \<longrightarrow> trim_prefix d ''!'' \<in> ef_id ` set out')"
proof (induction xs path x s and xs path ds s arbitrary: out' and out' rule: topo_visit_topo_visits.induct)
  case (1 xs path x out err)
  have err: "err = []" using 1(3) by simp
  show ?case
  proof (cases "ef_id x \<in> ef_id ` set out")
    case True
    then have "ef_id x \<notin> set path" using 1(4) by (auto simp: searched_def)
    then show ?thesis using 1 True err by simp
  next
    case False
    have path: "ef_id x \<notin> set path" using 1(2) err by (auto split: if_splits)
    obtain out1 where o: "topo_visits xs (ef_id x # path) (ef_depends_on x) (out, []) = (out1, [])" "out' = out1 @ [x]"
      using 1(2) err path False by (auto simp: Let_def split: prod.splits)
    have s: "searched xs (set (ef_id x # path)) out" using 1(4) False by (auto simp: searched_def)
    have ih: "searched xs (set (ef_id x # path)) out1" "set out \<subseteq> set out1"
      "\<forall>d \<in> set (ef_depends_on x). extracted_at xs (trim_prefix d ''!'') \<noteq> None \<longrightarrow> trim_prefix d ''!'' \<in> ef_id ` set out1"
      using 1(1) [OF _ path False, of out1] err o(1) s by auto
    have "named_in xs x \<subseteq> ef_id ` set out1" using ih(3) by (auto simp: named_in_def)
    then have "searched xs (set path) (out1 @ [x])"
      using ih(1) path 1(5) by (auto simp: searched_def script_sorted_snoc)
    then show ?thesis using o(2) ih(2) by auto
  qed
next
  case (3 xs path d ds s)
  let ?k = "trim_prefix d ''!''"
  show ?case
  proof (cases "extracted_at xs ?k")
    case None
    then show ?thesis using 3(2) [of out'] 3(3,4) by simp
  next
    case (Some y)
    obtain out1 err1 where v: "topo_visit xs path y s = (out1, err1)" by fastforce
    have "err1 = []" using 3(3) Some v topo_error_stays(2) [of "(out1, err1)" xs path ds] by (cases "err1 = []") auto
    moreover have "snd s = []"
      using v calculation topo_error_stays(1) [of "snd s" xs path y "fst s"] by (cases "snd s = []") auto
    moreover have y: "ef_id y = ?k" "y \<in> set xs" using extracted_at_id [OF Some] by auto
    ultimately have 4: "searched xs (set path) out1 \<and> set (fst s) \<subseteq> set out1 \<and> ef_id y \<in> ef_id ` set out1"
      using 3(1) [OF Some, of out1] v 3(4) by simp
    have "topo_visits xs path ds (out1, []) = (out', [])" using 3(3) Some v \<open>err1 = []\<close> by simp
    then have "searched xs (set path) out' \<and> set out1 \<subseteq> set out' \<and>
      (\<forall>d \<in> set ds. extracted_at xs (trim_prefix d ''!'') \<noteq> None \<longrightarrow> trim_prefix d ''!'' \<in> ef_id ` set out')"
      using 3(2) [of out'] Some v \<open>err1 = []\<close> 4 by simp
    then show ?thesis using 4 y(1) by auto
  qed
qed auto

text \<open>A reported cycle is one: every fact on the path depends on the one visited.\<close>

lemma topo_cycle:
  "topo_visit xs path x s = (out', err') \<Longrightarrow> snd s = [] \<Longrightarrow> err' \<noteq> [] \<Longrightarrow> x \<in> set xs \<Longrightarrow>
     \<forall>k \<in> set path. (ef_id x, k) \<in> (script_edges xs)\<^sup>+ \<Longrightarrow> \<exists>k. (k, k) \<in> (script_edges xs)\<^sup>+"
  "topo_visits xs path ds s = (out', err') \<Longrightarrow> snd s = [] \<Longrightarrow> err' \<noteq> [] \<Longrightarrow>
     \<forall>d \<in> set ds. extracted_at xs (trim_prefix d ''!'') \<noteq> None \<longrightarrow>
       (\<forall>k \<in> set path. (trim_prefix d ''!'', k) \<in> (script_edges xs)\<^sup>+) \<Longrightarrow> \<exists>k. (k, k) \<in> (script_edges xs)\<^sup>+"
proof (induction xs path x s and xs path ds s arbitrary: out' err' and out' err' rule: topo_visit_topo_visits.induct)
  case (1 xs path x out err)
  show ?case
  proof (cases "ef_id x \<in> set path")
    case True
    then show ?thesis using 1(6) by blast
  next
    case path: False
    have err: "err = []" using 1(3) by simp
    have new: "ef_id x \<notin> ef_id ` set out" using 1(2,4) path err by (auto split: if_splits)
    obtain out1 where o: "topo_visits xs (ef_id x # path) (ef_depends_on x) (out, []) = (out1, err')"
      using 1(2) err path new by (auto simp: Let_def split: prod.splits)
    have "\<forall>k \<in> set (ef_id x # path). (trim_prefix d ''!'', k) \<in> (script_edges xs)\<^sup>+"
      if "d \<in> set (ef_depends_on x)" "extracted_at xs (trim_prefix d ''!'') \<noteq> None" for d
    proof -
      have "(trim_prefix d ''!'', ef_id x) \<in> script_edges xs" using that 1(5) by (auto simp: script_edges_def named_in_def)
      then show ?thesis using 1(6) by (auto intro: trancl_trans)
    qed
    then show ?thesis using 1(1) [OF _ path new, of out1 err'] err o 1(4) by simp
  qed
next
  case (3 xs path d ds s)
  let ?k = "trim_prefix d ''!''"
  show ?case
  proof (cases "extracted_at xs ?k")
    case None
    then show ?thesis using 3 by simp
  next
    case (Some y)
    obtain out1 err1 where v: "topo_visit xs path y s = (out1, err1)" by fastforce
    have y: "ef_id y = ?k" "y \<in> set xs" using extracted_at_id [OF Some] by auto
    show ?thesis
    proof (cases "err1 = []")
      case True
      then show ?thesis using 3(2) [of out' err'] 3(3,5,6) Some v by simp
    next
      case False
      then show ?thesis using 3(1) [OF Some v 3(4) False y(2)] 3(6) Some y(1) by simp
    qed
  qed
qed simp

lemma topo_fold:
  "fold (topo_visit xs []) ys (out, []) = (out', err') \<Longrightarrow> searched xs {} out \<Longrightarrow> set ys \<subseteq> set xs \<Longrightarrow>
     (err' = [] \<longrightarrow> searched xs {} out' \<and> ef_id ` set out \<union> ef_id ` set ys \<subseteq> ef_id ` set out') \<and>
     (err' \<noteq> [] \<longrightarrow> (\<exists>k. (k, k) \<in> (script_edges xs)\<^sup>+))"
proof (induction ys arbitrary: out)
  case (Cons y ys)
  obtain out1 err1 where v: "topo_visit xs [] y (out, []) = (out1, err1)" by fastforce
  show ?case
  proof (cases "err1 = []")
    case True
    then have t: "searched xs {} out1 \<and> set out \<subseteq> set out1 \<and> ef_id y \<in> ef_id ` set out1"
      using topo_sorted(1) [of xs "[]" y "(out, [])" out1] v Cons.prems by simp
    have "fold (topo_visit xs []) ys (out1, []) = (out', err')" using Cons.prems(1) v True by simp
    then have "(err' = [] \<longrightarrow> searched xs {} out' \<and> ef_id ` set out1 \<union> ef_id ` set ys \<subseteq> ef_id ` set out') \<and>
      (err' \<noteq> [] \<longrightarrow> (\<exists>k. (k, k) \<in> (script_edges xs)\<^sup>+))"
      by (rule Cons.IH) (use t Cons.prems(3) in auto)
    moreover have "ef_id ` set out \<union> ef_id ` set (y # ys) \<subseteq> ef_id ` set out1 \<union> ef_id ` set ys" using t by auto
    ultimately show ?thesis by (meson order_trans)
  next
    case False
    have "fold (topo_visit xs []) ys (out1, err1) = (out1, err1)"
      using False by (induction ys) auto
    then have "err' = err1" using Cons.prems(1) v by simp
    then show ?thesis using topo_cycle(1) [OF v _ False] Cons.prems(3) False by simp
  qed
qed simp

lemma sorted_acyclic:
  assumes "script_sorted xs out" "distinct (map ef_id out)" "set out = set xs"
  shows "acyclic (script_edges xs)"
proof -
  define pos where "pos k = (LEAST i. i < length out \<and> ef_id (out ! i) = k)" for k
  have pos: "pos (ef_id (out ! i)) = i" if "i < length out" for i
    unfolding pos_def using that assms(2) by (intro Least_equality) (auto simp: distinct_conv_nth)
  have "pos k < pos (ef_id x)" if x: "x \<in> set xs" "k \<in> named_in xs x" for k x
  proof -
    obtain i where i: "i < length out" "x = out ! i" using x(1) assms(3) by (metis in_set_conv_nth)
    then have "k \<in> ef_id ` set (take i out)" using assms(1) x(2) by (auto simp: script_sorted_def)
    then obtain j where "j < i" "k = ef_id (out ! j)" using i(1) by (auto simp: in_set_conv_nth)
    then show ?thesis using i pos by simp
  qed
  then have "script_edges xs \<subseteq> measure pos" by (auto simp: script_edges_def)
  then show ?thesis using Wellfounded.wf_acyclic [OF wf_subset [OF wf_measure]] by blast
qed

lemma topo_sort_exact:
  assumes "distinct (map ef_id xs)" "topo_sort_vlogic_facts xs = (out, err)"
  shows "(err = [] \<longleftrightarrow> acyclic (script_edges xs)) \<and> (err = [] \<longrightarrow> mset out = mset xs \<and> script_sorted xs out)"
proof -
  have "searched xs {} []" by (simp add: searched_def script_sorted_def)
  note F = topo_fold [OF assms(2) [unfolded topo_sort_vlogic_facts_def] this order_refl]
  have ok: "mset out = mset xs \<and> script_sorted xs out \<and> acyclic (script_edges xs)" if "err = []"
  proof -
    have s: "script_sorted xs out" "distinct (map ef_id out)" "set out \<subseteq> set xs" "ef_id ` set xs \<subseteq> ef_id ` set out"
      using F that by (auto simp: searched_def)
    have "set out = set xs"
    proof
      show "set xs \<subseteq> set out"
      proof
        fix x assume x: "x \<in> set xs"
        then obtain y where y: "y \<in> set out" "ef_id y = ef_id x" using s(4) by (metis imageE image_eqI subsetD)
        then have "y = x" using assms(1) x s(3) by (auto simp: distinct_map inj_on_def)
        then show "x \<in> set out" using y by simp
      qed
    qed (rule s(3))
    moreover have "distinct out" "distinct xs" using s(2) assms(1) by (simp_all add: distinct_map)
    ultimately show ?thesis using s(1,2) sorted_acyclic set_eq_iff_mset_eq_distinct by blast
  qed
  moreover have "\<not> acyclic (script_edges xs)" if "err \<noteq> []" using F that by (auto simp: acyclic_def)
  ultimately show ?thesis by blast
qed

section \<open>Properties\<close>

text \<open>
  C34: A script that parses has distinct identifiers, and compiling it fails exactly when its facts
  depend on one another in a cycle; otherwise each of them comes once, after those it names.
\<close>

theorem script_compiled:
  assumes "parse_vlogic pf (strip_markdown_fences (trim_space raw)) = Inr xs"
  shows "distinct (map ef_id xs) \<and>
    (if acyclic (script_edges xs)
     then \<exists>out. compile_script pf raw = Inr (normalize_legacy_facts out) \<and> mset out = mset xs \<and> script_sorted xs out
     else \<exists>msg. compile_script pf raw = Inl msg \<and> msg \<noteq> [])"
proof -
  obtain out err where s: "topo_sort_vlogic_facts xs = (out, err)" by fastforce
  have "distinct (map ef_id xs)" by (rule parse_vlogic_distinct [OF assms])
  with topo_sort_exact [OF this s] show ?thesis using assms s by (auto simp: compile_script_def)
qed

definition sample_script :: string where
  "sample_script = ''derive b: '' @ [CHR 0x22] @ ''B'' @ [CHR 0x22] @ '' requires (a)'' @ [char_of (10 :: nat)] @
     ''fact a: '' @ [CHR 0x22] @ ''A'' @ [CHR 0x22]"

theorem script_compiled_witness:
  "\<exists>xs. parse_vlogic (\<lambda>_. None) (strip_markdown_fences (trim_space sample_script)) = Inr xs \<and> map ef_id xs = [''b'', ''a''] \<and>
     (if acyclic (script_edges xs)
      then \<exists>out. compile_script (\<lambda>_. None) sample_script = Inr (normalize_legacy_facts out) \<and> mset out = mset xs \<and> script_sorted xs out
      else \<exists>msg. compile_script (\<lambda>_. None) sample_script = Inl msg \<and> msg \<noteq> [])"
proof -
  have "case parse_vlogic (\<lambda>_. None) (strip_markdown_fences (trim_space sample_script)) of
      Inl _ \<Rightarrow> False | Inr xs \<Rightarrow> map ef_id xs = [''b'', ''a'']" by code_simp
  then obtain xs where x: "parse_vlogic (\<lambda>_. None) (strip_markdown_fences (trim_space sample_script)) = Inr xs"
    "map ef_id xs = [''b'', ''a'']" by (auto split: sum.splits)
  show ?thesis by (intro exI conjI) (rule x conjunct2 [OF script_compiled [OF x(1)]])+
qed

end
