(* ===== verification/Srl.thy ===== *)
theory Srl
imports Pipeline
begin

text \<open>
  extractor/srl_pipeline.go: the circuit breaker before the service for semantic role labelling, the
  pipelines that use the service, the endpoint that checks dependencies for it, and the choice of
  the pipeline in extractor.go. The service is a parameter.
\<close>

section \<open>The circuit breaker\<close>

datatype breaker_state = CbClosed | CbOpen | CbHalfOpen

record circuit_breaker =
  cb_state :: breaker_state
  cb_failures :: int
  cb_threshold :: int
  cb_reset_after :: int
  cb_last_failure :: int
  cb_half_open_sent :: bool

text \<open>Times are in nanoseconds.\<close>

definition srl_breaker :: circuit_breaker where
  "srl_breaker = \<lparr>cb_state = CbClosed, cb_failures = 0, cb_threshold = 5, cb_reset_after = 30000000000, cb_last_failure = 0,
     cb_half_open_sent = False\<rparr>"

definition half_open_allow :: "circuit_breaker \<Rightarrow> bool \<times> circuit_breaker" where
  "half_open_allow cb = (if cb_half_open_sent cb then (False, cb) else (True, cb\<lparr>cb_half_open_sent := True\<rparr>))"

definition breaker_allow :: "int \<Rightarrow> circuit_breaker \<Rightarrow> bool \<times> circuit_breaker" where
  "breaker_allow ns cb =
     (case cb_state cb of
        CbOpen \<Rightarrow>
          if ns - cb_last_failure cb > cb_reset_after cb
          then half_open_allow (cb\<lparr>cb_state := CbHalfOpen, cb_half_open_sent := False\<rparr>)
          else (False, cb)
      | CbHalfOpen \<Rightarrow> half_open_allow cb
      | CbClosed \<Rightarrow> (True, cb))"

definition breaker_success :: "circuit_breaker \<Rightarrow> circuit_breaker" where
  "breaker_success cb = cb\<lparr>cb_failures := 0, cb_state := CbClosed, cb_half_open_sent := False\<rparr>"

definition breaker_failure :: "int \<Rightarrow> circuit_breaker \<Rightarrow> circuit_breaker" where
  "breaker_failure ns cb =
     (let cb1 = cb\<lparr>cb_failures := cb_failures cb + 1, cb_last_failure := ns\<rparr>
      in if cb_state cb1 = CbHalfOpen \<or> cb_failures cb1 \<ge> cb_threshold cb1
         then cb1\<lparr>cb_state := CbOpen, cb_half_open_sent := False\<rparr> else cb1)"

section \<open>The client of the service\<close>

record srl_fact =
  srf_id :: string
  srf_subject :: string
  srf_predicate :: string
  srf_object :: string
  srf_claim :: string
  srf_confidence :: real
  srf_kind :: string
  srf_sentence :: int
  srf_depends_on :: "string list"
  srf_is_root :: bool
  srf_polarity :: string

record srl_response =
  sr_facts :: "srl_fact list"
  sr_proposed :: nat
  sr_accepted :: nat
  sr_rejected :: nat

text \<open>
  What a call comes to: no answer, an answer with a status from 300 on, one that does not decode, or a
  response. The request itself may not be built; then the breaker is not asked.
\<close>

datatype srl_outcome = Unreachable string | BadStatus nat | Unparsable string | Answered srl_response

record 'w srl_service =
  sv_request :: "string \<Rightarrow> string \<Rightarrow> string \<Rightarrow> string option"
  sv_call :: "'w \<Rightarrow> string \<Rightarrow> string \<Rightarrow> string \<Rightarrow> srl_outcome \<times> 'w"

definition srl_base_url :: "(string \<Rightarrow> string) \<Rightarrow> string \<Rightarrow> string" where
  "srl_base_url getenv url =
     (let u = (if url = [] then trim_space (getenv ''VELARIX_SRL_SERVICE_URL'') else url);
          v = (if u = [] then ''http://localhost:8090'' else u)
      in rev (dropWhile (\<lambda>c. c = CHR ''/'') (rev v)))"

definition after_call :: "int \<Rightarrow> srl_outcome \<Rightarrow> circuit_breaker \<Rightarrow> (string + srl_response) \<times> circuit_breaker" where
  "after_call ns out cb =
     (case out of
        Unreachable msg \<Rightarrow> (Inl (extraction_error ''srl_service_unreachable'' msg), breaker_failure ns cb)
      | BadStatus n \<Rightarrow>
          (Inl (extraction_error ''srl_service_error'' (''SRL service returned HTTP '' @ show_nat n)),
           if n \<ge> 500 then breaker_failure ns cb else cb)
      | Unparsable msg \<Rightarrow> (Inl (extraction_error ''srl_parse_error'' msg), breaker_failure ns cb)
      | Answered resp \<Rightarrow> (Inr resp, breaker_success cb))"

definition srl_extract ::
  "'w srl_service \<Rightarrow> string \<Rightarrow> int \<Rightarrow> int \<Rightarrow> string \<Rightarrow> string \<Rightarrow> circuit_breaker \<times> 'w \<Rightarrow> (string + srl_response) \<times> (circuit_breaker \<times> 'w)" where
  "srl_extract S url ns later text ctx s =
     (case sv_request S url text ctx of
        Some err \<Rightarrow> (Inl err, s)
      | None \<Rightarrow>
          (let (cb, w) = s; (ok, cb1) = breaker_allow ns cb
           in if \<not> ok
              then (Inl (extraction_error ''srl_circuit_open''
                      ''SRL service circuit breaker is open; requests are temporarily rejected''), (cb1, w))
              else (let (out, w1) = sv_call S w url text ctx; (r, cb2) = after_call later out cb1 in (r, (cb2, w1)))))"

section \<open>The service's facts\<close>

fun convert_from :: "string list \<Rightarrow> srl_fact list \<Rightarrow> extracted_fact list" where
  "convert_from seen [] = []"
| "convert_from seen (f # fs) =
     (let s = slugify (srf_id f);
          k = unique_slug (if s = [] then slugify (''srl-fact-'' @ show_int (srf_sentence f)) else s) seen;
          kind = normalize_assertion_kind (srf_kind f)
      in \<lparr>ef_id = k, ef_claim = trim_space (srf_claim f), ef_claim_key = [], ef_claim_value = [],
          ef_subject = trim_space (srf_subject f), ef_predicate = trim_space (srf_predicate f),
          ef_object = trim_space (srf_object f), ef_polarity = (if srf_polarity f = [] then ''positive'' else srf_polarity f),
          ef_is_root = srf_is_root f, ef_depends_on = srf_depends_on f, ef_source_type = ''srl_pipeline'',
          ef_confidence = clamp01 (srf_confidence f) (7 / 10),
          ef_assertion_kind = (if kind = [] then AssertionKindEmpirical else kind)\<rparr>
         # convert_from (k # seen) fs)"

definition convert_srl_facts :: "srl_fact list \<Rightarrow> extracted_fact list" where
  "convert_srl_facts fs = convert_from [] fs"

definition srl_result :: "srl_response \<Rightarrow> extraction_result" where
  "srl_result resp =
     \<lparr>xr_facts = convert_srl_facts (sr_facts resp), xr_contradictions = [],
      xr_stats = no_stats\<lparr>xs_proposed := sr_proposed resp, xs_accepted := sr_accepted resp, xs_rejected := sr_rejected resp\<rparr>\<rparr>"

definition run_srl_pipeline ::
  "'w srl_service \<Rightarrow> (string \<Rightarrow> string) \<Rightarrow> int \<Rightarrow> int \<Rightarrow> extraction_config option \<Rightarrow> string \<Rightarrow> string \<Rightarrow> circuit_breaker \<times> 'w \<Rightarrow>
     (string + extraction_result) \<times> (circuit_breaker \<times> 'w)" where
  "run_srl_pipeline S getenv ns later req text ctx s =
     (case srl_extract S (srl_base_url getenv (xc_url (normalize_extraction_config getenv req))) ns later text ctx s of
        (Inl err, s1) \<Rightarrow> (Inl err, s1)
      | (Inr resp, s1) \<Rightarrow> (Inr (srl_result resp), s1))"

section \<open>The hybrid pipeline\<close>

definition hybrid_fallback_sentences :: "string \<Rightarrow> srl_fact list \<Rightarrow> string list" where
  "hybrid_fallback_sentences text fs =
     (let covered = map srf_sentence (filter (\<lambda>f. srf_confidence f \<ge> 1 / 2) fs)
      in map snd (filter (\<lambda>(i, s). int i \<notin> set covered) (List.enumerate 0 (split_sentences text))))"

fun merge_from :: "string list \<Rightarrow> extracted_fact list \<Rightarrow> extracted_fact list" where
  "merge_from seen [] = []"
| "merge_from seen (f # fs) =
     (let k = unique_slug (ef_id f) seen
      in f\<lparr>ef_id := k, ef_source_type := ''hybrid_llm_fallback''\<rparr> # merge_from (k # seen) fs)"

definition merge_hybrid_facts :: "extracted_fact list \<Rightarrow> extracted_fact list \<Rightarrow> extracted_fact list" where
  "merge_hybrid_facts xs ys = xs @ merge_from (map ef_id xs) ys"

definition merge_hybrid_stats :: "extraction_stats \<Rightarrow> extraction_stats \<Rightarrow> extraction_stats" where
  "merge_hybrid_stats a b =
     \<lparr>xs_discarded = xs_discarded a + xs_discarded b, xs_unresolved = xs_unresolved a + xs_unresolved b,
      xs_proposed = xs_proposed a + xs_proposed b, xs_accepted = xs_accepted a + xs_accepted b,
      xs_rejected = xs_rejected a + xs_rejected b, xs_missed = xs_missed a + xs_missed b,
      xs_contradictions = xs_contradictions a + xs_contradictions b\<rparr>"

definition run_hybrid_pipeline ::
  "'w srl_service \<Rightarrow> 'w llm \<Rightarrow> (core_error \<Rightarrow> string) \<Rightarrow> (real \<Rightarrow> string) \<Rightarrow> (string \<Rightarrow> string) \<Rightarrow> int \<Rightarrow> int \<Rightarrow>
     extraction_config option \<Rightarrow> string \<Rightarrow> string \<Rightarrow> circuit_breaker \<times> 'w \<Rightarrow>
     ((string + extraction_result) \<times> (circuit_breaker \<times> 'w)) option" where
  "run_hybrid_pipeline S L show_error sf getenv ns later req text ctx s =
     (case srl_extract S (srl_base_url getenv (xc_url (normalize_extraction_config getenv req))) ns later text ctx s of
        (Inl err, (cb, w)) \<Rightarrow>
          map_option (\<lambda>(r, w1). (r, (cb, w1))) (run_pipeline L show_error sf getenv (go_quot later 1000000) req text ctx w)
      | (Inr resp, (cb, w)) \<Rightarrow>
          (let rest = hybrid_fallback_sentences text (sr_facts resp); srl = srl_result resp
           in if rest = [] then Some (Inr srl, (cb, w))
              else map_option (\<lambda>(r, w1). case r of
                  Inl err \<Rightarrow> (Inr srl, (cb, w1))
                | Inr x \<Rightarrow>
                    (Inr \<lparr>xr_facts = merge_hybrid_facts (xr_facts srl) (xr_facts x), xr_contradictions = xr_contradictions x,
                          xr_stats = merge_hybrid_stats (xr_stats srl) (xr_stats x)\<rparr>, (cb, w1)))
                (run_pipeline L show_error sf getenv (go_quot later 1000000) req (str_join '' '' rest) ctx w)))"

text \<open>The tier decides; without a key there is no language model.\<close>

definition extract_facts ::
  "'w srl_service \<Rightarrow> 'w llm \<Rightarrow> (core_error \<Rightarrow> string) \<Rightarrow> (real \<Rightarrow> string) \<Rightarrow> (string \<Rightarrow> string) \<Rightarrow> int \<Rightarrow> int \<Rightarrow>
     extraction_config option \<Rightarrow> string \<Rightarrow> string \<Rightarrow> circuit_breaker \<times> 'w \<Rightarrow>
     ((string + extraction_result) \<times> (circuit_breaker \<times> 'w)) option" where
  "extract_facts S L show_error sf getenv ns later req text ctx s =
     (let tier = xc_tier (normalize_extraction_config getenv req);
          key = trim_space (getenv ''OPENAI_API_KEY'')
      in if tier = 2 \<and> key \<noteq> [] then run_hybrid_pipeline S L show_error sf getenv ns later req text ctx s
         else if tier = 3
         then (if key = [] then Some (Inl (extraction_error ''configuration'' ''OPENAI_API_KEY is not set''), s)
               else map_option (\<lambda>(r, w1). (r, (fst s, w1)))
                 (run_pipeline L show_error sf getenv (go_quot later 1000000) req text ctx (snd s)))
         else Some (run_srl_pipeline S getenv ns later req text ctx s))"

section \<open>Checking a dependency for the service\<close>

text \<open>
  The facts of the request have the fields of an extracted fact that are read. An identifier of the
  order without a fact is passed over.
\<close>

definition proposed_graph :: "string \<Rightarrow> string \<Rightarrow> extracted_fact list \<Rightarrow> parent_map" where
  "proposed_graph parent child xs =
     (let add = (\<lambda>k ps. if k \<in> fst ` set ps then ps else AList.update k [] ps);
          ps = add child (add parent (parents_declared xs))
      in AList.update child (parents_of_id ps child @ [parent]) ps)"

definition validate_dependency ::
  "(core_error \<Rightarrow> string) \<Rightarrow> int \<Rightarrow> string \<Rightarrow> string \<Rightarrow> extracted_fact list \<Rightarrow> (bool \<times> string) option" where
  "validate_dependency show_error now parent child xs =
     (if parent = child then Some (False, ''self-loop'')
      else let ps = proposed_graph parent child xs
           in case topo_order_from_parents ps of
                Inl msg \<Rightarrow> Some (False, ''cycle_detected'')
              | Inr order \<Rightarrow>
                  map_option (\<lambda>r. case r of
                      Inl err \<Rightarrow> (False, graph_error_text show_error err) | Inr e \<Rightarrow> (True, ''valid''))
                    (assert_in_order now
                      (\<lambda>i. map_option (\<lambda>x. graph_fact [] ''srl_validation'' x (unique_trimmed (parents_of_id ps i))) (extracted_at xs i))
                      (\<lambda>i. None) order new_engine))"

definition validate_dependencies_batch ::
  "(core_error \<Rightarrow> string) \<Rightarrow> int \<Rightarrow> (string \<times> string \<times> extracted_fact list) list \<Rightarrow> (bool \<times> string) option list" where
  "validate_dependencies_batch show_error now requests =
     map (\<lambda>(p, c, xs). validate_dependency show_error now p c xs) requests"

end
