(* ===== verification/ExtractAssert.thy ===== *)
theory ExtractAssert
imports ConsistencyHandlers Srl
begin

text \<open>
  api/extract_assert.go: the handler that extracts facts from the answer of a language model, asserts
  them in the order of their dependencies, and retracts the weaker sides of contradictions. clock
  gives the successive readings of the clock, in nanoseconds. As for the other handlers, there is no
  global truth, no webhook and no model that verifies contradictions.
\<close>

section \<open>Order\<close>

text \<open>
  The depth-first search of toposortExtractedFacts. The identifiers visited are those of the path and
  those of the result so far.
\<close>

function (sequential)
  order_visit :: "extracted_fact list \<Rightarrow> string list \<Rightarrow> extracted_fact \<Rightarrow> extracted_fact list \<Rightarrow> extracted_fact list"
  and order_visits :: "extracted_fact list \<Rightarrow> string list \<Rightarrow> string list \<Rightarrow> extracted_fact list \<Rightarrow> extracted_fact list"
where
  "order_visit xs path x out =
     (if ef_id x \<in> set path \<or> ef_id x \<in> ef_id ` set out then out
      else order_visits xs (ef_id x # path) (ef_depends_on x) out @ [x])"
| "order_visits xs path [] out = out"
| "order_visits xs path (d # ds) out =
     order_visits xs path ds (case extracted_at xs d of None \<Rightarrow> out | Some y \<Rightarrow> order_visit xs path y out)"
  by pat_completeness auto
termination
proof (relation "measures [\<lambda>r. case r of Inl (xs, path, x, s) \<Rightarrow> card (insert (ef_id x) (ef_id ` set xs) - set path)
      | Inr (xs, path, ds, s) \<Rightarrow> card (ef_id ` set xs - set path), \<lambda>r. case r of Inl _ \<Rightarrow> 0 | Inr (xs, path, ds, s) \<Rightarrow> Suc (length ds)]",
    goal_cases)
  case (2 xs path x out)
  then show ?case using path_shrinks [of "ef_id ` set xs" "ef_id x" path] by simp
next
  case (3 xs path d ds s y)
  then have "insert (ef_id y) (ef_id ` set xs) = ef_id ` set xs" using extracted_at_id by blast
  then show ?case by simp
qed auto

definition toposort_extracted_facts :: "extracted_fact list \<Rightarrow> extracted_fact list" where
  "toposort_extracted_facts xs = fold (order_visit xs []) xs []"

section \<open>Asserting\<close>

text \<open>
  What a request has done so far: the engine, the node, the facts of the reply with whether the engine
  took their pointers, and the number of facts skipped. The errors of the log are ignored.
\<close>

record 'db extract_state =
  xa_engine :: engine
  xa_node :: "'db node"
  xa_facts :: "(bool \<times> fact) list"
  xa_skipped :: nat

definition assert_extracted_fact ::
  "'db session_env \<Rightarrow> int \<Rightarrow> string \<Rightarrow> string \<Rightarrow> string \<Rightarrow> extracted_fact \<Rightarrow> 'db extract_state \<Rightarrow> 'db extract_state option" where
  "assert_extracted_fact E ns sid oid actor x s =
     (case take_fact (millis ns) (governed E ns oid (node_db (xa_node s)) (to_core_fact x)) (xa_engine s) of
        None \<Rightarrow> None
      | Some (Inl err) \<Rightarrow> Some (s\<lparr>xa_skipped := Suc (xa_skipped s)\<rparr>)
      | Some (Inr (own, f, e1)) \<Rightarrow>
          (let en = (blank_entry EventAssert sid)\<lparr>je_fact := Some f, je_actor := actor\<rparr>;
               n1 = on_db (log_activity E ns oid en) (fst (append_entry E ns en (xa_node s)))
           in map_option (\<lambda>(e2, st).
                let g = (held own f e2)\<lparr>resolved_status := st\<rparr>
                in s\<lparr>xa_engine := (if own then put_fact (fact_id f) g e2 else e2), xa_node := n1, xa_facts := xa_facts s @ [(own, g)]\<rparr>)
              (get_status (millis ns) (fact_id f) e1)))"

fun assert_extracted_facts ::
  "'db session_env \<Rightarrow> (nat \<Rightarrow> int) \<Rightarrow> nat \<Rightarrow> string \<Rightarrow> string \<Rightarrow> string \<Rightarrow> extracted_fact list \<Rightarrow> 'db extract_state \<Rightarrow>
     'db extract_state option" where
  "assert_extracted_facts E clock i sid oid actor [] s = Some s"
| "assert_extracted_facts E clock i sid oid actor (x # xs) s =
     (case assert_extracted_fact E (clock i) sid oid actor x s of
        None \<Rightarrow> None | Some s1 \<Rightarrow> assert_extracted_facts E clock (Suc i) sid oid actor xs s1)"

section \<open>Contradictions\<close>

text \<open>The pairs found, the facts retracted, the engine and the node.\<close>

type_synonym 'db contradiction_state = "string list \<times> string list \<times> engine \<times> 'db node"

definition retract_contradiction ::
  "'db session_env \<Rightarrow> int \<Rightarrow> string \<Rightarrow> string \<Rightarrow> string \<Rightarrow> consistency_issue \<Rightarrow> 'db contradiction_state \<Rightarrow>
     'db contradiction_state option" where
  "retract_contradiction E ns sid oid actor x s =
     (let (found, retracted, e, n) = s
      in if length (ci_fact_ids x) \<noteq> 2 \<or> str_join ''|'' (ci_fact_ids x) \<in> set found then Some s
         else (let found1 = found @ [str_join ''|'' (ci_fact_ids x)]
               in case weaker_fact e x of
                    None \<Rightarrow> Some (found1, retracted, e, n)
                  | Some f \<Rightarrow>
                      (let reason = ''auto_retract_contradiction''; en = auto_retract_entry sid actor (fact_id f) reason;
                           n1 = on_db (log_activity E ns oid en) (fst (append_entry E ns en n))
                       in map_option (\<lambda>r. case r of
                              Inl err \<Rightarrow> (found1, retracted, e, n1)
                            | Inr e1 \<Rightarrow> (found1, retracted @ [fact_id f], e1, n1))
                            (retract_fact (millis ns) (fact_id f) reason e))))"

fun retract_contradictions ::
  "'db session_env \<Rightarrow> (nat \<Rightarrow> int) \<Rightarrow> nat \<Rightarrow> string \<Rightarrow> string \<Rightarrow> string \<Rightarrow> consistency_issue list \<Rightarrow> 'db contradiction_state \<Rightarrow>
     'db contradiction_state option" where
  "retract_contradictions E clock i sid oid actor [] s = Some s"
| "retract_contradictions E clock i sid oid actor (x # xs) s =
     (case retract_contradiction E (clock i) sid oid actor x s of
        None \<Rightarrow> None | Some s1 \<Rightarrow> retract_contradictions E clock (Suc i) sid oid actor xs s1)"

definition auto_retract_contradictions ::
  "'db session_env \<Rightarrow> (real \<Rightarrow> string) \<Rightarrow> bool \<Rightarrow> (nat \<Rightarrow> int) \<Rightarrow> nat \<Rightarrow> string \<Rightarrow> string \<Rightarrow> string \<Rightarrow> 'db extract_state \<Rightarrow>
     'db contradiction_state option" where
  "auto_retract_contradictions E sf auto clock i sid oid actor s =
     (let ids = sort (remdups (map (\<lambda>(own, f). fact_id f) (xa_facts s)));
          report = check_consistency sf (millis (clock i)) (xa_engine s) ids False;
          issues = cr_issues report;
          (e1, n1) = flag_facts_for_review_on_issues E auto clock (Suc i) sid oid issues ''contradiction_detected''
            (xa_engine s, xa_node s)
      in retract_contradictions E clock (Suc (i + length (flagged_ids issues))) sid oid actor issues ([], [], e1, n1))"

section \<open>The handler\<close>

text \<open>The facts of the reply get the status of the end; the engine shares those whose pointers it took.\<close>

fun refresh_statuses :: "int \<Rightarrow> (bool \<times> fact) list \<Rightarrow> engine \<Rightarrow> ((bool \<times> fact) list \<times> engine) option" where
  "refresh_statuses now [] e = Some ([], e)"
| "refresh_statuses now ((own, f) # fs) e =
     (case get_status now (fact_id f) e of
        None \<Rightarrow> None
      | Some (e1, st) \<Rightarrow>
          (let g = (held own f e1)\<lparr>resolved_status := st\<rparr>
           in map_option (\<lambda>(gs, e2). ((own, g) # gs, e2))
                (refresh_statuses now fs (if own then put_fact (fact_id f) g e1 else e1))))"

record extract_request =
  xq_output :: string
  xq_context :: string
  xq_auto_retract :: bool
  xq_config :: "extraction_config option"

record extract_response =
  xp_extracted :: nat
  xp_asserted :: nat
  xp_skipped :: nat
  xp_pre_contradictions :: "consistency_issue list"
  xp_found :: "string list"
  xp_retracted :: "string list"
  xp_facts :: "fact list"

text \<open>From the extracted facts on: extracted is the result of the pipeline.\<close>

definition assert_extraction ::
  "'db session_env \<Rightarrow> (real \<Rightarrow> string) \<Rightarrow> bool \<Rightarrow> (nat \<Rightarrow> int) \<Rightarrow> string \<Rightarrow> string \<Rightarrow> string \<Rightarrow> bool \<Rightarrow> session_config option \<Rightarrow>
     extraction_result \<Rightarrow> engine \<Rightarrow> 'db node \<Rightarrow> (extract_response reply \<times> 'db node) option" where
  "assert_extraction E sf auto clock sid oid actor retract cfg extracted e n =
     (let xs = toposort_extracted_facts (xr_facts extracted)
      in case assert_extracted_facts E clock 2 sid oid actor xs \<lparr>xa_engine = e, xa_node = n, xa_facts = [], xa_skipped = 0\<rparr> of
           None \<Rightarrow> None
         | Some s \<Rightarrow>
             (let i = 2 + length xs; asserted = length (xa_facts s);
                  s1 = s\<lparr>xa_node := on_db (increment_org_metric (en_kv (se_env E)) (millis (clock i)) oid ''facts_asserted''
                    (of_nat asserted)) (invalidate_slice_cache sid (xa_node s))\<rparr>
              in case (if retract \<and> asserted > 0 then auto_retract_contradictions E sf auto clock (Suc i) sid oid actor s1
                       else Some ([], [], xa_engine s1, xa_node s1)) of
                   None \<Rightarrow> None
                 | Some (found, retracted, e1, n1) \<Rightarrow>
                     (case refresh_statuses (millis (clock 1)) (xa_facts s1) e1 of
                        None \<Rightarrow> None
                      | Some (fs, e2) \<Rightarrow>
                          map_option (\<lambda>(e3, n2).
                              (Done 200 \<lparr>xp_extracted = length xs, xp_asserted = asserted, xp_skipped = xa_skipped s,
                                 xp_pre_contradictions = xr_contradictions extracted, xp_found = found, xp_retracted = retracted,
                                 xp_facts = map (\<lambda>(own, f). held own f e3) fs\<rparr>, n2))
                            (settle_session E (clock 1) oid sid cfg e2 n1))))"

definition handle_extract_and_assert ::
  "'db session_env \<Rightarrow> (real \<Rightarrow> string) \<Rightarrow> bool \<Rightarrow>
     (extraction_config option \<Rightarrow> string \<Rightarrow> string \<Rightarrow> 'x \<Rightarrow> ((string + extraction_result) \<times> 'x) option) \<Rightarrow> (nat \<Rightarrow> int) \<Rightarrow>
     string \<Rightarrow> string \<Rightarrow> string \<Rightarrow> string + extract_request \<Rightarrow> 'x \<times> 'db node \<Rightarrow>
     (extract_response reply \<times> 'x \<times> 'db node) option" where
  "handle_extract_and_assert E sf auto extract clock sid oid actor body s =
     (let (x, n) = s
      in case get_engine (en_kv (se_env E)) (en_boot (se_env E)) (millis (clock 0)) sid oid (nd_server n) of
           None \<Rightarrow> None
         | Some (Inl msg, sv) \<Rightarrow> Some (Failed 403 msg, x, n\<lparr>nd_server := sv\<rparr>)
         | Some (Inr (e, cfg), sv) \<Rightarrow>
             (let n1 = n\<lparr>nd_server := sv\<rparr>
              in case body of
                   Inl msg \<Rightarrow> Some (Failed 400 msg, x, n1)
                 | Inr b \<Rightarrow>
                     if trim_space (xq_output b) = [] then Some (Failed 400 ''llm_output is required'', x, n1)
                     else (case extract (xq_config b) (xq_output b) (xq_context b) x of
                         None \<Rightarrow> None
                       | Some (Inl err, x1) \<Rightarrow> Some (Failed 502 (''extraction failed: '' @ err), x1, n1)
                       | Some (Inr extracted, x1) \<Rightarrow>
                           map_option (\<lambda>(r, n2). (r, x1, n2))
                             (assert_extraction E sf auto clock sid oid actor (xq_auto_retract b) cfg extracted e n1))))"

text \<open>The endpoint of the service, and the handler on the pipelines of package extractor.\<close>

definition handle_extract ::
  "'db session_env \<Rightarrow> 'w srl_service \<Rightarrow> 'w llm \<Rightarrow> (core_error \<Rightarrow> string) \<Rightarrow> (real \<Rightarrow> string) \<Rightarrow> (string \<Rightarrow> string) \<Rightarrow> bool \<Rightarrow>
     (nat \<Rightarrow> int) \<Rightarrow> string \<Rightarrow> string \<Rightarrow> string \<Rightarrow> string + extract_request \<Rightarrow> (circuit_breaker \<times> 'w) \<times> 'db node \<Rightarrow>
     (extract_response reply \<times> (circuit_breaker \<times> 'w) \<times> 'db node) option" where
  "handle_extract E S L show_error sf getenv auto clock sid oid actor body s =
     handle_extract_and_assert E sf auto (extract_facts S L show_error sf getenv (clock 0) (clock 1)) clock sid oid actor body s"

end
