(* ===== verification/Spec2Isabelle.thy ===== *)
theory Spec2Isabelle
imports Reasoning Explain GlobalProperties StoreProperties LogProperties Retention ExecutionProperties AccessProperties
  IsolationProperties GovernanceProperties MiddlewareProperties SliceProperties CatalogProperties UpkeepProperties
  PipelineProperties VLogicProperties ExtractAssert
begin

text \<open>
  Velarix keeps beliefs (facts) with the justifications that support them. A fact is a root, with
  a manual confidence, or is derived from one or more sets of parents, positive or negated
  ("!id"): all parents of a set have to hold, and one set is enough. The package core is the
  engine of one session; the package store keeps the log, the snapshots and the records of the
  sessions; the package api serves requests: getEngine rebuilds an engine from the store, the
  handlers run operations on it and append what they did to the log.

  Package core. Facts: fact.go, metadata_helpers.go and the pure parts of governance.go and
  verification.go. Dependencies: dependencies.go. Engine: the state of Engine and its work queue,
  propagate. Cycles: cycles.go. EngineOps: AssertFact, InvalidateRoot, SetRootConfidence,
  RetractFact, SweepExpiredFacts, SetFactVerification, SetFactReview. Snapshot: ToSnapshot,
  FromSnapshot and CRC-32. Dominators: dominators.go and GetStatus. Impact and DependencyIDs:
  GetImpact and DependencyIDs. Vector, Consistency, Reasoning, Explain: vector.go, consistency.go,
  reasoning.go, explain.go. GlobalTruth: global_truth.go, with the engines of the subscribers in a
  store of addresses; UnionFind: the proofs on the union-find of its partition.

  Package store. Journal: journal.go, the file of JSON lines and its replay. KV: the interface of
  BadgerDB as a record of operations with its laws as a locale, interpreted on an ordered
  association list, and the codecs. BadgerLog, BadgerRecords, BadgerCatalog, BadgerDecisions: the
  operations of badger.go on the session log, the records of sessions and users, the catalogue of
  an organization with its metrics, and the decisions with their search documents
  (models_decision.go, models_search.go). Retention: the retention sweep, and the handler of the
  settings it reads (api/console_contracts.go).

  Package api. Governance: governance.go, the policies and what they do to a fact. SessionBoot:
  getEngine of server.go. Decisions and DecisionHandlers: decision_contracts.go, the computations
  and the handlers, with the requests of models/decision.go. Access: the scopes, the rate limit and
  the authentication of server.go, runtime_security.go and enterprise_controls.go. Sessions: the
  handlers that change a session (server.go, reasoning_contracts.go, governance.go, verification.go,
  search_contracts.go, fact_helpers.go), on a node, which is the server with its slice cache and the
  snapshots still to take. SessionReads: those that read one. SessionCatalog: creating, renaming and
  archiving sessions (console_contracts.go). ConsistencyHandlers: consistency checks, review flags
  and reasoning chains (reasoning_contracts.go, consistency_flags.go). Slices: slice_selection.go.
  Upkeep: snapshots, eviction, expiry and purge. Middleware: idempotent replay and the limit on
  concurrent writes. ExtractAssert: extract_assert.go, the handler that asserts what was extracted.

  Package extractor turns the answer of a language model into facts. Extracted: the extracted fact
  and its conversion (extractor.go), slugs, tokens, sentences and the order of a dependency graph
  (pipeline.go). VLogic: vlogic.go, the matchers of its regular expressions and the parser of
  V-Logic, with the order of a script's facts (extractor.go). Pipeline: the five stages of
  pipeline.go, which check each proposed dependency in an engine of its own, and the single pass of
  extractor.go. Srl: srl_pipeline.go, the circuit breaker, the client of the service for semantic
  role labelling, the hybrid pipeline, the check of a dependency, and the choice of the pipeline
  (Extract of extractor.go).

  Proofs. Propagation: the invariant of the work queue (a fact that is not queued agrees with its
  sets, a set whose parents are not queued agrees with them) and termination of the loop.
  EngineInv and AssertInv: every operation keeps the engine well formed and settled. Totality: every
  operation returns. History: a locale of what an operation owes the engine, interpreted for each
  operation, and the histories made of them. Timeless: facts without deadlines do not depend on the
  clock. DominatorInv, DominatorTree, GetStatus: totality of the dominator computation, the
  intervals, and when pruning agrees with the status. GlobalInv, GlobalPartition, GlobalDelivery,
  GlobalProperties: the global truth. StoreProperties, LogProperties, BootProperties: what a replay
  recovers, from the file and from Badger. DecisionProperties, ExecutionProperties: what the check
  of a decision decides, and who executes one. AccessProperties: whom the authentication lets through, and what
  the rate limit admits. SessionFrames and SessionProperties: what a request on a session leaves in
  its log, as the outcome of each handler. SessionSurvival: that a request adds one entry, and that
  a server without its cache rebuilds the engine which the request left. SessionTypes: every
  request returns and keeps the cached engines well formed. IsolationProperties: what another
  organization is refused, and what it is not. GovernanceProperties: protected facts, and the
  entries posted to a history. MiddlewareProperties: idempotent replay and the limit on writes.
  SliceProperties, CatalogProperties, UpkeepProperties: the bounds of a slice, the limit on
  sessions, and what a snapshot replaces. ExtractedOrder: Kahn's algorithm on
  a dependency graph gives the topological order just when there is one. PipelineEngine and
  PipelineGraph: an engine of its own takes the facts of such an order, so that a proposal is
  refused only for a cycle. PipelineProperties: the facts of the pipeline are sound; VLogicProperties: which scripts
  compile. Samples and SessionSamples: the engine, the store and the
  node of the witnesses. This theory holds the properties of the engine.

  Correspondence. The state of Engine is the record engine, with Go's maps as association
  lists whose keys are distinct; the iteration order of a map is the order of the list, and where
  it could matter it is a parameter (propagate_in, work_step). The clock is an argument, one reading
  for each call. Errors are values, a failing operation has the value Inl; a reply of a handler is a
  value of reply. Loops that Go does not bound are partial functions, so a value None is a run that
  does not return; each is shown to return on every reachable engine, so there is no fuel.
  Confidences and vector components are real numbers where Go has float64: the order tests and
  minima of the engine are the same, while rounding of sums, square roots and quotients is not
  modelled. Counters of the store are 64-bit words; other integers are unbounded, except for the
  product in the age limit of a decision. Strings are lists of characters, and letter case, white
  space and letters are those of ASCII. Pointers to a fact are its key in the map: the
  engine, its index and its sets share one copy. Each operation holds the engine's mutex for its
  whole body, so operations are single steps and concurrency is their sequence; transactions of the
  store and handlers are single steps as well, except that execute_commit may follow other steps
  and that Append meets conflicts.

  Parameters. gob_encode and gob_decode stand for encoding/gob, sf for the formatting of a
  floating-point number by fmt, a kv for BadgerDB, a codec for the JSON of a type (its decoder also
  gives what a failed Unmarshal leaves), sha for SHA-256, commits and others for the outcomes of the
  commits of a transaction and the writes of the others in between, misuse for what BadgerDB does
  when a key is changed before the commit, pf for strconv.ParseFloat, en_sign and en_verify for the
  JWT library. A session_env has the server with its codecs and the parameters of its handlers:
  se_commit and se_others are the outcomes of commits and the writes of others, se_schema the
  validator of JSON schemas, se_random the fresh identifiers, se_json and se_f2 the texts of a
  payload and of a number; a slice_env has the two settings of the environment, the text of a number
  and the length of the JSON of a map. An llm is the language model: lm_chat answers a prompt in a
  state of the world, lm_turns is the order of concurrent calls, the other fields decode answers;
  an srl_service is the service, getenv the environment, show_error the text of an engine's error.

  Not modelled: the handlers other than those named, which decode a request, call the operations
  modelled here and encode the answer; the streams of changes, the webhook of verifications, the
  check of contradictions by a language model; registration, billing and the rest of the console; the store on
  Postgres, whose operations are SQL statements; Redis; the texts of prompts and the HTTP clients of
  the extraction; opening, migration, backup and garbage collection of Badger; the command line,
  the generated API documentation, metrics and logging.
\<close>

section \<open>The engine\<close>



text \<open>
  C2: Every operation returns on every engine a run can reach, at any clock reading and without
  any assumption on expiry: propagation always ends, and a success leaves a well-formed engine.
\<close>

theorem operations_return:
  assumes "any_history e"
  shows "\<exists>r. run_op now x e = Some r \<and> (\<forall>e'. r = Inr e' \<longrightarrow> wf_engine e' \<and> loadable e')"
  using running.act_keeps [of e now x] any_history_inv [OF assms] by (auto simp: keeps_def)

theorem operations_return_witness:
  "\<exists>r. run_op 99 (OpInvalidate ''A'') sample_engine = Some r \<and> (\<forall>e'. r = Inr e' \<longrightarrow> wf_engine e' \<and> loadable e')"
  by (rule operations_return [OF sample_any_history])



text \<open>
  No run of the work queue is infinite, in whatever orders the child sets are visited.
\<close>

theorem propagation_terminates:
  assumes "pending_inv now (set q) e"
  shows "\<not> (\<exists>run. run 0 = (e, q) \<and> (\<forall>n. work_step now (run n) (run (Suc n))))"
  using work_terminates [of now "{}" q e] assms by simp

theorem propagation_terminates_witness:
  "\<not> (\<exists>run. run 0 = (put_retracted ''A'' ''test'' sample_engine, [''A'']) \<and> (\<forall>n. work_step 5 (run n) (run (Suc n))))"
  by (rule propagation_terminates) (use pending_retract [OF sample_settled(1), of "''A''"] in simp)

text \<open>
  The search of the cycle check finds a path exactly when there is one, and what it
  returns is such a path.
\<close>

theorem reachable_correct:
  "case fst (reachable e u t []) of
     None \<Rightarrow> (u, t) \<notin> (edges e)\<^sup>*
   | Some p \<Rightarrow> is_path e p \<and> hd p = u \<and> last p = t"
  using reachable_iff [of e u t] reach_list_sound [of e "[u]" t "[]"]
  by (cases "reachable e u t []") (auto simp: reachable_def split: option.split)

text \<open>
  C4: In every reachable engine the dependency graph and the declared graph are acyclic, and
  an assertion never reports a cycle: the check for unknown parents already excludes it.
\<close>

theorem assertions_acyclic:
  assumes "history t e"
  shows "acyclic (deps e) \<and> acyclic (declared e) \<and> assert_fact t fo e \<noteq> Some (Inl (CycleError path))"
  using history_inv [OF assms] assert_fact_no_cycle wf_acyclic by (auto simp: settled_iff loadable_def)

theorem assertions_acyclic_witness:
  "acyclic (deps sample_engine) \<and> acyclic (declared sample_engine) \<and>
   assert_fact 5 (Some (sample_fact ''E'' False 0 [[''E'']])) sample_engine \<noteq> Some (Inl (CycleError [''E'']))"
  using assertions_acyclic [OF sample_history] by blast



section \<open>Snapshots\<close>

text \<open>
  C6: Restoring a snapshot of a reachable engine succeeds: the checksum, the cap, the references
  and the cycle check all pass, and the facts, sets, index, collapsed roots, retractions and
  mutation count are those of the engine that was saved. The byte codec is the program's use
  of encoding/gob: what it wrote for this payload, it reads back.
\<close>

theorem snapshot_round_trip:
  assumes "any_history s" and "gob_encode (payload_of s) = Some d" and "gob_decode d = Some (payload_of s)"
  shows "from_snapshot gob_decode (to_snapshot gob_encode now s) e = Inr (restored s e)"
proof -
  have "wf_engine s" "loadable s" using any_history_inv [OF assms(1)] by simp_all
  then show ?thesis using assms(2,3) by (rule snapshot_restores)
qed

theorem snapshot_round_trip_witness:
  "from_snapshot (\<lambda>_. Some (payload_of sample_engine))
     (to_snapshot (\<lambda>_. Some [1, 2, 3]) 6 sample_engine) new_engine = Inr (restored sample_engine new_engine)"
  by (rule snapshot_round_trip [OF sample_any_history refl refl])

text \<open>
  C7: A snapshot whose data differs from what was saved in one byte, at any position, is refused
  by the checksum test, whatever the decoder would make of it.
\<close>

theorem snapshot_corruption:
  assumes "a \<noteq> b" "sn_data sn = xs @ a # ys" "sn_checksum sn = crc32 (sn_data sn)"
  shows "from_snapshot gob_decode (Some (sn\<lparr>sn_data := xs @ b # ys\<rparr>)) e = Inl ChecksumMismatch"
  by (rule snapshot_one_byte [OF assms])

theorem snapshot_corruption_witness:
  "from_snapshot (\<lambda>_. None)
     (Some (\<lparr>sn_timestamp = 0, sn_mutation_count = 0, sn_data = [1, 2, 3], sn_checksum = crc32 [1, 2, 3]\<rparr>
       \<lparr>sn_data := [1] @ 7 # [3]\<rparr>)) new_engine = Inl ChecksumMismatch"
  by (rule snapshot_corruption [where a = 2]) simp_all

section \<open>Dominators and GetStatus\<close>

text \<open>
  Recomputing the dominators returns on every reachable engine, changes nothing but the
  dominator fields, and its pre- and post-order intervals decide the ancestor relation of the
  dominator tree: the constant-time test is equivalent to following the tree's links.
\<close>

theorem dominator_intervals:
  assumes "any_history e"
  shows "\<exists>e'. recompute_dominators e = Some e' \<and> plain_of e' = plain_of e \<and>
    (\<forall>u v. fact_at e' u \<noteq> None \<longrightarrow> fact_at e' v \<noteq> None \<longrightarrow>
       (is_dominator_ancestor e' u v \<longleftrightarrow> (u, v) \<in> (links (dominator_children e'))\<^sup>*))"
  using recompute_dominators_total any_history_inv [OF assms] unfolding dominators_fresh_def by blast

theorem dominator_intervals_witness:
  "\<exists>e'. recompute_dominators sample_engine = Some e' \<and> plain_of e' = plain_of sample_engine \<and>
    (\<forall>u v. fact_at e' u \<noteq> None \<longrightarrow> fact_at e' v \<noteq> None \<longrightarrow>
       (is_dominator_ancestor e' u v \<longleftrightarrow> (u, v) \<in> (links (dominator_children e'))\<^sup>*))"
  by (rule dominator_intervals [OF sample_any_history])

text \<open>
  GetStatus returns, leaves every status and set as it was, and answers either Invalid or
  the effective status of the fact, the latter only when that reaches the threshold and no
  collapsed root is an ancestor in the dominator tree.
\<close>

theorem get_status_conservative:
  assumes "any_history e" "dirty_dominators e"
  shows "\<exists>e' st. get_status now k e = Some (e', st) \<and> plain_of e' = plain_of e \<and>
    st = (if effective_status now e (fact_at e k) < ConfidenceThreshold \<or> pruned e' k then Invalid
          else effective_status now e (fact_at e k))"
proof -
  have "wf_engine e" using any_history_inv [OF assms(1)] by simp
  then obtain e' where e': "get_status now k e = Some (e', pruned_status now k e')"
    "plain_of e' = plain_of e" "dominators_fresh e'"
    using get_status_total assms(2) by blast
  then show ?thesis using pruned_status_eq [OF e'(3)] effective_plain [OF e'(2)] by simp
qed

theorem get_status_conservative_witness:
  "\<exists>e' st. get_status 5 ''D'' sample_engine = Some (e', st) \<and> plain_of e' = plain_of sample_engine \<and>
    st = (if effective_status 5 sample_engine (fact_at sample_engine ''D'') < ConfidenceThreshold \<or> pruned e' ''D'' then Invalid
          else effective_status 5 sample_engine (fact_at sample_engine ''D''))"
  by (rule get_status_conservative [OF sample_any_history sample_facts(4)])



definition gap_engine :: "engine option" where
  "gap_engine =
     run_ops 5
       [OpAssert (Some (sample_fact ''A'' True 1 [])), OpAssert (Some (sample_fact ''B'' True 1 [])),
        OpAssert (Some (sample_fact ''C'' True 1 [])),
        OpAssert (Some (sample_fact ''D'' False 0 [[''A'', ''B''], [''C'']])),
        OpAssert (Some (sample_fact ''N'' False 0 [[''!C'']])), OpInvalidate ''C''] new_engine"

text \<open>
  With alternative sets or a negated parent the pruning is not exact. A fact with the two
  sets A and B, or C, keeps the status Valid when C is invalidated, and a fact that depends on
  the absence of A is Valid while A is Invalid; GetStatus answers Invalid for both.
\<close>

theorem get_status_gap:
  "map_option (\<lambda>e. (effective_status 5 e (fact_at e ''D''), effective_status 5 e (fact_at e ''N''))) gap_engine =
     Some (Valid, Valid) \<and>
   Option.bind gap_engine (\<lambda>e. map_option snd (get_status 5 ''D'' e)) = Some Invalid \<and>
   Option.bind gap_engine (\<lambda>e. map_option snd (get_status 5 ''N'' e)) = Some Invalid"
  by code_simp

section \<open>Reading the graph\<close>

text \<open>
  C9: GetImpact returns for every fact of a reachable engine; its report lists the fact itself
  and only known facts that depend on it, each once, and its counts are those of the list.
\<close>

theorem impact_report_correct:
  assumes "any_history e" "fact_at e fid \<noteq> None"
  shows "\<exists>r. get_impact now e fid = Some (Inr r) \<and> distinct (impacted_ids r) \<and> fid \<in> set (impacted_ids r) \<and>
    (\<forall>k \<in> set (impacted_ids r). fact_at e k \<noteq> None \<and> (fid, k) \<in> (deps e)\<^sup>*) \<and>
    total_count r = length (impacted_ids r) \<and>
    direct_count r = length (filter (\<lambda>k. \<exists>f. fact_at e k = Some f \<and> idom f = fid) (impacted_ids r)) \<and>
    action_count r = length (filter (\<lambda>k. \<exists>f. fact_at e k = Some f \<and> is_action f) (impacted_ids r))"
proof -
  have "wf_engine e" using any_history_inv [OF assms(1)] by simp
  then obtain s where s: "simulate_invalidation now e fid = Some s" "sim_inv e fid s"
    using simulate_invalidation_total assms(2) by blast
  have "get_impact now e fid = Some (Inr (build_impact_report e (sim_impacted s) fid))"
    using s(1) assms(2) by (simp add: get_impact_def)
  then show ?thesis
    by (intro exI [of _ "build_impact_report e (sim_impacted s) fid"])
      (use s(2) in \<open>simp add: build_impact_report_counts sim_inv_def\<close>)
qed

theorem impact_report_correct_witness:
  "\<exists>r. get_impact 5 sample_engine ''B'' = Some (Inr r) \<and> distinct (impacted_ids r) \<and> ''B'' \<in> set (impacted_ids r) \<and>
    (\<forall>k \<in> set (impacted_ids r). fact_at sample_engine k \<noteq> None \<and> (''B'', k) \<in> (deps sample_engine)\<^sup>*) \<and>
    total_count r = length (impacted_ids r) \<and>
    direct_count r = length (filter (\<lambda>k. \<exists>f. fact_at sample_engine k = Some f \<and> idom f = ''B'') (impacted_ids r)) \<and>
    action_count r = length (filter (\<lambda>k. \<exists>f. fact_at sample_engine k = Some f \<and> is_action f) (impacted_ids r))"
  by (rule impact_report_correct [OF sample_any_history sample_facts(2)])

text \<open>
  DependencyIDs returns for every fact of a reachable engine, and lists, sorted and once
  each, exactly the facts the declared sets make it depend on, directly or through others.
\<close>

theorem dependency_ids_complete:
  assumes "any_history e" "fact_at e fid \<noteq> None"
  shows "\<exists>out. dependency_ids e fid self = Some (Inr out) \<and> sorted out \<and> distinct out \<and>
    set out = {k. (k, fid) \<in> (if self then (declared e)\<^sup>* else (declared e)\<^sup>+)}"
  using dependency_ids_exact [OF _ assms(2)] any_history_inv [OF assms(1)] by blast

theorem dependency_ids_complete_witness:
  "\<exists>out. dependency_ids sample_engine ''D'' False = Some (Inr out) \<and> sorted out \<and> distinct out \<and>
    set out = {k. (k, ''D'') \<in> (if False then (declared sample_engine)\<^sup>* else (declared sample_engine)\<^sup>+)}"
  by (rule dependency_ids_complete [OF sample_any_history sample_facts(3)])

text \<open>
  The causal chain of an explanation starts with the fact explained and contains, each once,
  exactly the facts reachable from it through the parents its tokens name.
\<close>

theorem explanation_chain:
  assumes "any_history e" "explain_reasoning now e fid = Inr x"
  shows "distinct (map bl_fact_id (ex_chain x)) \<and> bl_fact_id (hd (ex_chain x)) = fid \<and>
    set (map bl_fact_id (ex_chain x)) = {k. (k, fid) \<in> (chain_edges e)\<^sup>*}"
proof -
  have "wf_engine e" using any_history_inv [OF assms(1)] by simp
  then have id: "\<And>k f. fact_at e k = Some f \<Longrightarrow> fact_id f = k" using wf_fact_id by blast
  show ?thesis
    using explain_chain_distinct [OF _ assms(2)] explain_chain_exact [OF _ assms(2)] id by blast
qed

theorem explanation_chain_witness:
  "\<exists>x. explain_reasoning 5 sample_engine ''D'' = Inr x \<and>
    distinct (map bl_fact_id (ex_chain x)) \<and> bl_fact_id (hd (ex_chain x)) = ''D'' \<and>
    set (map bl_fact_id (ex_chain x)) = {k. (k, ''D'') \<in> (chain_edges sample_engine)\<^sup>*}"
proof -
  obtain x where x: "explain_reasoning 5 sample_engine ''D'' = Inr x"
    using sample_facts(3) by (auto simp: explain_reasoning_def)
  show ?thesis using x explanation_chain [OF sample_any_history x] by blast
qed

section \<open>Consistency and audits\<close>

definition clash_facts :: "fact \<Rightarrow> fact \<Rightarrow> engine_op list" where
  "clash_facts a b = [OpAssert (Some a), OpAssert (Some b)]"

definition claim_fact :: "string \<Rightarrow> string \<Rightarrow> fact" where
  "claim_fact i v =
     (sample_fact i True 1 [])\<lparr>payload := Some [(''claim_key'', GStr ''k''), (''claim_value'', GStr v)]\<rparr>"

definition clash_engine :: engine where
  "clash_engine =
     (case run_ops 5 (clash_facts (claim_fact ''A'' ''1'') (claim_fact ''B'' ''2'')) new_engine of
        Some e \<Rightarrow> e | None \<Rightarrow> new_engine)"

lemma clash_any_history: "any_history clash_engine"
proof -
  have "run_ops 5 (clash_facts (claim_fact ''A'' ''1'') (claim_fact ''B'' ''2'')) new_engine \<noteq> None" by code_simp
  then have "run_ops 5 (clash_facts (claim_fact ''A'' ''1'') (claim_fact ''B'' ''2'')) new_engine = Some clash_engine"
    by (auto simp: clash_engine_def)
  then show ?thesis by (rule run_ops_any_history [OF any_start])
qed

lemma clash_facts_at:
  "fact_at clash_engine ''A'' = Some ((claim_fact ''A'' ''1'')\<lparr>asserted_at := 5, derived_status := 1\<rparr>)"
  "fact_at clash_engine ''B'' = Some ((claim_fact ''B'' ''2'')\<lparr>asserted_at := 5, derived_status := 1\<rparr>)"
  by code_simp+

lemma clash_signatures:
  "extract_claim_signature (fact_at clash_engine ''A'') =
     \<lparr>cs_key = ''k'', cs_value = ''1'', cs_subject = [], cs_predicate = [], cs_object = [],
      cs_polarity = ''positive'', cs_contradicts = []\<rparr>"
  "extract_claim_signature (fact_at clash_engine ''B'') =
     \<lparr>cs_key = ''k'', cs_value = ''2'', cs_subject = [], cs_predicate = [], cs_object = [],
      cs_polarity = ''positive'', cs_contradicts = []\<rparr>"
  "assertion_scope (fact_at clash_engine ''A'') = assertion_scope (fact_at clash_engine ''B'')"
  "considered 5 clash_engine False ''A''" "considered 5 clash_engine False ''B''"
  "map fst (facts clash_engine) = [''A'', ''B'']"
  by code_simp+

lemma clash_issue: "contradiction_issue_for_facts sf (fact_at clash_engine ''A'') (fact_at clash_engine ''B'') \<noteq> None"
proof -
  obtain a b where ab: "fact_at clash_engine ''A'' = Some a" "fact_at clash_engine ''B'' = Some b"
    using clash_facts_at by blast
  have "contradiction_issue_for_facts sf (Some a) (Some b) \<noteq> None"
    unfolding contradiction_issue_for_facts_def clash_signatures(1,2) [unfolded ab]
    using clash_signatures(3) by (simp add: value_conflict_def Let_def ab)
  then show ?thesis by (simp only: ab not_False_eq_True)
qed

lemma clash_ids: "checked_ids clash_engine [] = [''A'', ''B'']"
  by code_simp

lemma clash_reported:
  obtains x where "x \<in> set (consistency_issues_for_ids sf 5 clash_engine [] False)"
proof -
  obtain x where "contradiction_issue_for_facts sf (fact_at clash_engine ''A'') (fact_at clash_engine ''B'') = Some x"
    using clash_issue by blast
  from conflict_reported [OF _ clash_signatures(4) _ clash_signatures(5) _ this, of "[]"] show ?thesis
    using that by (auto simp: clash_ids)
qed



text \<open>
  C11: Two checked facts in conflict are always reported, with the type and severity of their
  contradiction, provided no fact identifier contains a colon: the report joins the two
  identifiers with colons to recognise a pair it has seen.
\<close>

theorem consistency_complete:
  assumes "i \<in> set (checked_ids e ids)" "considered now e incl i" "j \<in> set (checked_ids e ids)"
    "considered now e incl j" "i \<noteq> j" "contradiction_issue_for_facts sf (fact_at e i) (fact_at e j) = Some x"
    "\<forall>k \<in> set (checked_ids e ids). CHR '':'' \<notin> set k"
  shows "\<exists>y \<in> set (consistency_issues_for_ids sf now e ids incl).
    ci_type y = ci_type x \<and> ci_severity y = ci_severity x \<and> set (ci_fact_ids y) = set (ci_fact_ids x)"
  using conflict_reported [OF assms] by blast

theorem consistency_complete_witness:
  "\<exists>x. \<exists>y \<in> set (consistency_issues_for_ids (\<lambda>_. []) 5 clash_engine [] False).
    ci_type y = ci_type x \<and> ci_severity y = ci_severity x \<and> set (ci_fact_ids y) = set (ci_fact_ids x) \<and>
    contradiction_issue_for_facts (\<lambda>_. []) (fact_at clash_engine ''A'') (fact_at clash_engine ''B'') = Some x"
proof -
  obtain x where x: "contradiction_issue_for_facts (\<lambda>_. []) (fact_at clash_engine ''A'') (fact_at clash_engine ''B'') = Some x"
    using clash_issue by blast
  from consistency_complete [OF _ clash_signatures(4) _ clash_signatures(5) _ x, of "[]"] x show ?thesis
    by (auto simp: clash_ids)
qed

text \<open>
  C12: An audit accepts a reasoning chain exactly when each of its steps is sound: every fact it
  cites is known and valid, and its output is known, valid and in conflict with none of the
  outputs of the steps before it.
\<close>

theorem audit_exact:
  "ar_valid (audit_reasoning_chain sf now e (Some c)) =
     list_all (\<lambda>n. step_sound sf now e (prior_outputs (take n (rc_steps c))) (rc_steps c ! n)) [0..<length (rc_steps c)]"
  using audit_valid_iff [of sf now e c] by (auto simp: list_all_iff)



end
